(* ===== verification/BoBe_Prelude.thy ===== *)
theory BoBe_Prelude
  imports Main "HOL-Library.AList" "HOL-Library.Word"
begin

text \<open>
  What every component of the development shares.

  Values: a Rust \<open>Uuid\<close> is a 128-bit word; a \<open>u64\<close> counter that the code
  advances with \<open>fetch_add\<close> is a natural number below \<open>2 ^ 64\<close> with the wrap
  written out (\<open>wrap64\<close>); a \<open>String\<close> is the list of its Unicode scalar values
  (theory BoBe_Text).

  Containers: a \<open>HashMap\<close> is an association list with distinct keys. The order of
  the list stands for the iteration order of the hash map, which Rust leaves open;
  lemmas hold for every list, hence for every order. \<open>hm_get\<close>, \<open>hm_insert\<close>,
  \<open>hm_remove\<close>, \<open>hm_retain\<close> and \<open>hm_modify\<close> are \<open>get\<close>, \<open>insert\<close>, \<open>remove\<close>,
  \<open>retain\<close> and an update through \<open>get_mut\<close>.

  Errors: an operation that returns \<open>Result<T, AppError>\<close> returns \<open>app_error + 'a\<close>.

  Step systems: \<open>reach init step\<close> is the set of states a component reaches from
  its initial states; the locale \<open>step_system\<close> lifts an invariant of single steps
  to all of them, and is interpreted by each component with a step relation.
\<close>

named_theorems hm_simps "lookup after each operation of a hash map"
named_theorems inv_intros "preservation of component invariants"

section \<open>Machine integers\<close>

type_synonym uuid = "128 word"

definition u64_max :: nat where
  "u64_max = 2 ^ 64 - 1"

definition wrap64 :: "nat \<Rightarrow> nat" where
  "wrap64 n = n mod 2 ^ 64"

text \<open>\<open>u64::saturating_add\<close> and \<open>u64::saturating_sub\<close> (the latter is subtraction on
  the natural numbers).\<close>

definition sat_add64 :: "nat \<Rightarrow> nat \<Rightarrow> nat" where
  "sat_add64 a b = min u64_max (a + b)"

lemma wrap64_id [simp]: "n < 2 ^ 64 \<Longrightarrow> wrap64 n = n"
  by (simp add: wrap64_def)

lemma wrap64_bound [simp]: "wrap64 n < 2 ^ 64"
  by (simp add: wrap64_def)

lemma sat_add64_id: "a + b < 2 ^ 64 \<Longrightarrow> sat_add64 a b = a + b"
  by (simp add: sat_add64_def u64_max_def)

section \<open>Errors\<close>

datatype app_error =
    Database string
  | Validation string
  | Conflict string
  | ProtocolIncompatible string
  | RequestReplayUnsafe string
  | NotNetworked string
  | Unauthorized string
  | NotFound string
  | Config string
  | Capture string
  | ServiceUnavailable string
  | Canceled string
  | Serialization string
  | Io string
  | Network string
  | Internal string

text \<open>The HTTP answer of an error: the status, the code and the message of its body. A message that
  the code formats with a value (an identifier, a limit) is kept without the value.\<close>

fun error_response :: "app_error \<Rightarrow> nat \<times> string \<times> string" where
  "error_response (Database m) = (503, ''DATABASE_ERROR'', ''Database error: '' @ m)"
| "error_response (Validation m) = (400, ''VALIDATION_ERROR'', ''Validation error: '' @ m)"
| "error_response (Conflict m) = (409, ''CONFLICT'', ''Conflict: '' @ m)"
| "error_response (ProtocolIncompatible m) =
     (409, ''PROTOCOL_INCOMPATIBLE'', ''Protocol incompatible: '' @ m)"
| "error_response (RequestReplayUnsafe m) = (409, ''REQUEST_REPLAY_UNSAFE'', m)"
| "error_response (NotNetworked m) = (409, ''NOT_NETWORKED'', m)"
| "error_response (Unauthorized m) = (401, ''UNAUTHORIZED'', ''Unauthorized: '' @ m)"
| "error_response (NotFound m) = (404, ''NOT_FOUND'', ''Not found: '' @ m)"
| "error_response (Config m) = (500, ''INTERNAL_ERROR'', ''Configuration error: '' @ m)"
| "error_response (Capture m) = (500, ''INTERNAL_ERROR'', ''Capture error: '' @ m)"
| "error_response (ServiceUnavailable m) =
     (503, ''SERVICE_UNAVAILABLE'', ''Service unavailable: '' @ m)"
| "error_response (Canceled m) = (409, ''CANCELED'', ''Canceled: '' @ m)"
| "error_response (Serialization m) = (500, ''INTERNAL_ERROR'', ''Serialization error: '' @ m)"
| "error_response (Io m) = (500, ''INTERNAL_ERROR'', ''IO error: '' @ m)"
| "error_response (Network m) = (503, ''NETWORK_ERROR'', ''Network error: '' @ m)"
| "error_response (Internal m) = (500, ''INTERNAL_ERROR'', ''Internal error: '' @ m)"

definition is_ok :: "'e + 'a \<Rightarrow> bool" where
  "is_ok r = (case r of Inl _ \<Rightarrow> False | Inr _ \<Rightarrow> True)"

lemma is_ok_simps [simp]: "is_ok (Inr a)" "\<not> is_ok (Inl e)"
  by (simp_all add: is_ok_def)

section \<open>Hash maps\<close>

type_synonym ('k, 'v) hmap = "('k \<times> 'v) list"

abbreviation hm_get :: "('k, 'v) hmap \<Rightarrow> 'k \<Rightarrow> 'v option" where
  "hm_get m k \<equiv> map_of m k"

abbreviation hm_insert :: "'k \<Rightarrow> 'v \<Rightarrow> ('k, 'v) hmap \<Rightarrow> ('k, 'v) hmap" where
  "hm_insert k v m \<equiv> AList.update k v m"

abbreviation hm_remove :: "'k \<Rightarrow> ('k, 'v) hmap \<Rightarrow> ('k, 'v) hmap" where
  "hm_remove k m \<equiv> AList.delete k m"

definition hm_retain :: "('k \<Rightarrow> 'v \<Rightarrow> bool) \<Rightarrow> ('k, 'v) hmap \<Rightarrow> ('k, 'v) hmap" where
  "hm_retain p m = filter (\<lambda>(k, v). p k v) m"

definition hm_modify :: "'k \<Rightarrow> ('v \<Rightarrow> 'v) \<Rightarrow> ('k, 'v) hmap \<Rightarrow> ('k, 'v) hmap" where
  "hm_modify k f m = map (\<lambda>(k', v). (k', if k' = k then f v else v)) m"

abbreviation hm_ok :: "('k, 'v) hmap \<Rightarrow> bool" where
  "hm_ok m \<equiv> distinct (map fst m)"

lemma hm_get_insert [hm_simps]: "hm_get (hm_insert k v m) k' = (if k' = k then Some v else hm_get m k')"
  by (simp add: update_conv')

lemma hm_get_remove [hm_simps]: "hm_get (hm_remove k m) k' = (if k' = k then None else hm_get m k')"
  by (simp add: delete_conv')

lemma hm_get_retain [hm_simps]:
  "hm_ok m \<Longrightarrow> hm_get (hm_retain p m) k =
     (case hm_get m k of None \<Rightarrow> None | Some v \<Rightarrow> if p k v then Some v else None)"
  by (induction m) (auto simp: hm_retain_def map_of_eq_None_iff split: option.splits)

lemma hm_get_modify [hm_simps]: "hm_get (hm_modify k f m) k' =
     (if k' = k then map_option f (hm_get m k') else hm_get m k')"
  by (induction m) (auto simp: hm_modify_def)

lemma hm_ok_insert [inv_intros, simp]: "hm_ok m \<Longrightarrow> hm_ok (hm_insert k v m)"
  by (rule distinct_update)

lemma hm_ok_remove [inv_intros, simp]: "hm_ok m \<Longrightarrow> hm_ok (hm_remove k m)"
  by (rule distinct_delete)

lemma hm_ok_retain [inv_intros, simp]: "hm_ok m \<Longrightarrow> hm_ok (hm_retain p m)"
  by (simp add: hm_retain_def distinct_map_filter)

lemma hm_keys_modify [simp]: "map fst (hm_modify k f m) = map fst m"
  by (induction m) (auto simp: hm_modify_def)

lemma hm_retain_set: "set (hm_retain p m) = {(k, v) \<in> set m. p k v}"
  by (auto simp: hm_retain_def)

lemma hm_get_SomeD: "hm_get m k = Some v \<Longrightarrow> (k, v) \<in> set m"
  by (rule map_of_SomeD)

lemma hm_insert_fresh: "hm_get m k = None \<Longrightarrow> hm_insert k v m = m @ [(k, v)]"
  by (induction m) (auto split: if_splits)

lemma hm_modify_id: "k \<notin> fst ` set m \<Longrightarrow> hm_modify k f m = m"
  by (induction m) (auto simp: hm_modify_def)

lemma hm_modify_as_insert:
  "hm_ok m \<Longrightarrow> hm_get m k = Some v \<Longrightarrow> hm_insert k (f v) m = hm_modify k f m"
proof (induction m)
  case Nil
  then show ?case by simp
next
  case (Cons p m)
  then show ?case
    using hm_modify_id [of k m f] by (cases p) (auto simp: hm_modify_def)
qed

text \<open>Counting the entries that satisfy a predicate, through each operation.\<close>

definition hm_count :: "('v \<Rightarrow> bool) \<Rightarrow> ('k, 'v) hmap \<Rightarrow> nat" where
  "hm_count p m = length (filter p (map snd m))"

lemma hm_count_Nil [simp]: "hm_count p [] = 0"
  by (simp add: hm_count_def)

lemma hm_count_Cons [simp]: "hm_count p (kv # m) = (if p (snd kv) then 1 else 0) + hm_count p m"
  by (simp add: hm_count_def)

lemma hm_count_append [simp]: "hm_count p (m @ m') = hm_count p m + hm_count p m'"
  by (simp add: hm_count_def)

lemma hm_count_cong:
  "\<forall>kv \<in> set m. p (snd kv) = q (snd kv) \<Longrightarrow> hm_count p m = hm_count q m"
  by (induction m) auto

lemma hm_count_mono:
  "\<forall>kv \<in> set m. p (snd kv) \<longrightarrow> q (snd kv) \<Longrightarrow> hm_count p m \<le> hm_count q m"
  by (induction m) (auto intro: le_SucI)

lemma hm_count_retain_le: "hm_count p (hm_retain q m) \<le> hm_count p m"
  by (induction m) (auto simp: hm_retain_def)

lemma hm_count_remove_le: "hm_count p (hm_remove k m) \<le> hm_count p m"
  by (induction m) auto

lemma hm_count_insert_le:
  "hm_count p (hm_insert k v m) \<le> hm_count p m + (if p v then 1 else 0)"
  by (induction m) auto

lemma length_filter_mono:
  "(\<And>x. P x \<Longrightarrow> Q x) \<Longrightarrow> length (filter P xs) \<le> length (filter Q xs)"
  by (induction xs) (auto intro: le_SucI)

section \<open>Reachable states and invariants\<close>

inductive reach :: "('s \<Rightarrow> bool) \<Rightarrow> ('s \<Rightarrow> 's \<Rightarrow> bool) \<Rightarrow> 's \<Rightarrow> bool"
  for init :: "'s \<Rightarrow> bool" and step :: "'s \<Rightarrow> 's \<Rightarrow> bool" where
  reach_init: "init s \<Longrightarrow> reach init step s"
| reach_step: "reach init step s \<Longrightarrow> step s t \<Longrightarrow> reach init step t"

locale step_system =
  fixes init :: "'s \<Rightarrow> bool" and step :: "'s \<Rightarrow> 's \<Rightarrow> bool" and inv :: "'s \<Rightarrow> bool"
  assumes inv_init: "init s \<Longrightarrow> inv s"
    and inv_step: "inv s \<Longrightarrow> step s t \<Longrightarrow> inv t"
begin

lemma reachable_inv: "reach init step s \<Longrightarrow> inv s"
  by (induction rule: reach.induct) (auto intro: inv_init inv_step)

end

end
