(* ===== verification/BoBe_Text.thy ===== *)
theory BoBe_Text
  imports BoBe_Prelude "HOL-Library.Sublist"
begin

unbundle bit_operations_syntax

text \<open>
  Text and identifiers: \<open>src/BoBeService/src/util/text.rs\<close> and
  \<open>src/BoBeService/src/models/ids.rs\<close>, with the operations of Rust's \<open>char\<close> and
  \<open>str\<close> that they and the later theories use.

  A \<open>String\<close> or \<open>&str\<close> is the list of its Unicode scalar values (\<open>text\<close>); its
  length in bytes is \<open>str_len\<close>, the length of its UTF-8 encoding. \<open>lit\<close> turns an ASCII
  literal into such a list. White space is Unicode's White_Space property, which is
  what \<open>char::is_whitespace\<close> tests. The Unicode tables for letters and case are not
  under src/; where code consults them (theory Speech_Text) they are a
  parameter.
\<close>

section \<open>Characters and strings\<close>

type_synonym uchar = nat
type_synonym rtext = "uchar list"
type_synonym byte = "8 word"

definition lit :: "string \<Rightarrow> rtext" where
  "lit s = map of_char s"

abbreviation cp :: "char \<Rightarrow> uchar" where
  "cp c \<equiv> of_char c"

definition is_whitespace :: "uchar \<Rightarrow> bool" where
  "is_whitespace c \<longleftrightarrow>
     (9 \<le> c \<and> c \<le> 13) \<or> c = 32 \<or> c = 133 \<or> c = 160 \<or> c = 5760 \<or>
     (8192 \<le> c \<and> c \<le> 8202) \<or> c = 8232 \<or> c = 8233 \<or> c = 8239 \<or> c = 8287 \<or> c = 12288"

definition is_ascii_digit :: "uchar \<Rightarrow> bool" where
  "is_ascii_digit c \<longleftrightarrow> 48 \<le> c \<and> c \<le> 57"

definition is_ascii :: "uchar \<Rightarrow> bool" where
  "is_ascii c \<longleftrightarrow> c < 128"

text \<open>UTF-8: the bytes of one scalar value, and of a string.\<close>

definition utf8_char :: "uchar \<Rightarrow> nat list" where
  "utf8_char c =
     (if c < 128 then [c]
      else if c < 2048 then [192 + c div 64, 128 + c mod 64]
      else if c < 65536 then [224 + c div 4096, 128 + c div 64 mod 64, 128 + c mod 64]
      else [240 + c div 262144, 128 + c div 4096 mod 64, 128 + c div 64 mod 64, 128 + c mod 64])"

definition as_bytes :: "rtext \<Rightarrow> nat list" where
  "as_bytes s = concat (map utf8_char s)"

definition utf8_len :: "uchar \<Rightarrow> nat" where
  "utf8_len c = (if c < 128 then 1 else if c < 2048 then 2 else if c < 65536 then 3 else 4)"

definition str_len :: "rtext \<Rightarrow> nat" where
  "str_len s = sum_list (map utf8_len s)"

lemma utf8_len_pos [simp]: "0 < utf8_len c"
  by (simp add: utf8_len_def)

lemma utf8_len_neq_0 [simp]: "utf8_len c \<noteq> 0"
  by (simp add: utf8_len_def)

lemma utf8_len_le [simp]: "utf8_len c \<le> 4"
  by (simp add: utf8_len_def)

lemma str_len_simps [simp]:
  "str_len [] = 0" "str_len (c # s) = utf8_len c + str_len s" "str_len (s @ t) = str_len s + str_len t"
  by (simp_all add: str_len_def)

lemma length_as_bytes: "length (as_bytes s) = str_len s"
  by (induction s) (simp_all add: as_bytes_def utf8_char_def utf8_len_def)

lemma str_len_0_iff [simp]: "str_len s = 0 \<longleftrightarrow> s = []"
  by (cases s) auto

text \<open>\<open>str::trim_start\<close>, \<open>trim_end\<close>, \<open>trim\<close>, \<open>strip_prefix\<close>, \<open>strip_suffix\<close>, \<open>contains\<close>.\<close>

definition trim_start :: "rtext \<Rightarrow> rtext" where
  "trim_start s = dropWhile is_whitespace s"

definition trim_end :: "rtext \<Rightarrow> rtext" where
  "trim_end s = rev (dropWhile is_whitespace (rev s))"

definition trim :: "rtext \<Rightarrow> rtext" where
  "trim s = trim_end (trim_start s)"

fun strip_prefix :: "rtext \<Rightarrow> rtext \<Rightarrow> rtext option" where
  "strip_prefix [] s = Some s"
| "strip_prefix (p # ps) [] = None"
| "strip_prefix (p # ps) (c # cs) = (if p = c then strip_prefix ps cs else None)"

definition strip_suffix :: "rtext \<Rightarrow> rtext \<Rightarrow> rtext option" where
  "strip_suffix p s = map_option rev (strip_prefix (rev p) (rev s))"

definition starts_with :: "rtext \<Rightarrow> rtext \<Rightarrow> bool" where
  "starts_with p s \<longleftrightarrow> strip_prefix p s \<noteq> None"

lemma strip_prefix_Some: "strip_prefix p s = Some r \<longleftrightarrow> s = p @ r"
  by (induction p s rule: strip_prefix.induct) auto

lemma strip_prefix_append [simp]: "strip_prefix p (p @ r) = Some r"
  by (simp add: strip_prefix_Some)

lemma strip_suffix_Some: "strip_suffix p s = Some r \<longleftrightarrow> s = r @ p"
  by (auto simp: strip_suffix_def strip_prefix_Some rev_eq_append_conv intro: exI [of _ "rev r"])

lemma starts_with_prefix: "starts_with p s \<longleftrightarrow> prefix p s"
  by (auto simp: starts_with_def strip_prefix_Some prefix_def not_None_eq)

lemma trim_start_id: "trim_start s = s \<longleftrightarrow> s = [] \<or> \<not> is_whitespace (hd s)"
proof (cases s)
  case (Cons c cs)
  have "dropWhile is_whitespace cs \<noteq> c # cs"
    by (metis impossible_Cons length_dropWhile_le)
  with Cons show ?thesis by (auto simp: trim_start_def)
qed (simp add: trim_start_def)

lemma trim_end_id: "trim_end s = s \<longleftrightarrow> s = [] \<or> \<not> is_whitespace (last s)"
  using trim_start_id [of "rev s"]
  by (simp add: trim_start_def trim_end_def hd_rev rev_swap)

lemma hd_trim_start: "trim_start s \<noteq> [] \<Longrightarrow> \<not> is_whitespace (hd (trim_start s))"
  unfolding trim_start_def by (rule hd_dropWhile)

lemma last_trim_end: "trim_end s \<noteq> [] \<Longrightarrow> \<not> is_whitespace (last (trim_end s))"
  using hd_dropWhile [of is_whitespace "rev s"] by (simp add: trim_end_def last_rev)

lemma trim_end_prefix: "prefix (trim_end s) s"
proof -
  have "suffix (dropWhile is_whitespace (rev s)) (rev s)"
    by (rule suffix_dropWhile)
  then show ?thesis by (simp add: trim_end_def suffix_to_prefix)
qed

lemma hd_trim: "trim s \<noteq> [] \<Longrightarrow> \<not> is_whitespace (hd (trim s))"
proof -
  assume ne: "trim s \<noteq> []"
  from trim_end_prefix [of "trim_start s"] obtain r where "trim_start s = trim s @ r"
    by (auto simp: prefix_def trim_def)
  with ne hd_trim_start [of s] show ?thesis by auto
qed

lemma last_trim: "trim s \<noteq> [] \<Longrightarrow> \<not> is_whitespace (last (trim s))"
  unfolding trim_def by (rule last_trim_end)

definition trimmed :: "rtext \<Rightarrow> bool" where
  "trimmed s \<longleftrightarrow> s = [] \<or> (\<not> is_whitespace (hd s) \<and> \<not> is_whitespace (last s))"

lemma trimmed_trim [simp]: "trimmed (trim s)"
  by (auto simp: trimmed_def hd_trim last_trim)

lemma trim_trimmed: "trimmed s \<Longrightarrow> trim s = s"
  using trim_start_id [of s] trim_end_id [of s] by (auto simp: trimmed_def trim_def)

lemma trim_idem [simp]: "trim (trim s) = trim s"
  by (rule trim_trimmed) simp

section \<open>src/BoBeService/src/util/text.rs\<close>

text \<open>\<open>constant_time_eq\<close>: the difference is accumulated over every index up to the longer
  length, an absent byte counting as zero.\<close>

definition byte_at :: "byte list \<Rightarrow> nat \<Rightarrow> byte" where
  "byte_at bs i = (if i < length bs then bs ! i else 0)"

definition constant_time_eq :: "byte list \<Rightarrow> byte list \<Rightarrow> bool" where
  "constant_time_eq left right =
     (fold (\<lambda>i d. d OR unat (byte_at left i XOR byte_at right i))
        [0..<max (length left) (length right)] (length left XOR length right) = (0::nat))"

lemma nat_xor_eq_0_iff: "(a::nat) XOR b = 0 \<longleftrightarrow> a = b"
proof
  assume "a XOR b = 0"
  then have "bit (a XOR b) n = False" for n by simp
  then show "a = b" by (auto simp: bit_eq_iff bit_xor_iff)
qed simp

lemma word_xor_eq_0_iff: "(a::byte) XOR b = 0 \<longleftrightarrow> a = b"
proof
  assume "a XOR b = 0"
  then have "bit (a XOR b) n = False" for n by simp
  then show "a = b" by (auto simp: bit_eq_iff bit_xor_iff)
qed simp

lemma fold_or_eq_0:
  "fold (\<lambda>i d. d OR f i) is d = (0::nat) \<longleftrightarrow> d = 0 \<and> (\<forall>i \<in> set is. f i = 0)"
  by (induction "is" arbitrary: d) (auto simp: or_eq_0_iff)

text \<open>The comparison used for secrets decides equality of the byte strings, whatever their
  lengths.\<close>

theorem constant_time_eq_iff: "constant_time_eq left right \<longleftrightarrow> left = right"
proof
  assume "constant_time_eq left right"
  then have len: "length left = length right"
    and eq: "\<forall>i < length right. byte_at left i = byte_at right i"
    by (auto simp: constant_time_eq_def fold_or_eq_0 nat_xor_eq_0_iff unat_eq_0 word_xor_eq_0_iff)
  then show "left = right"
    by (auto simp: byte_at_def intro: nth_equalityI)
next
  assume "left = right"
  then show "constant_time_eq left right"
    unfolding constant_time_eq_def fold_or_eq_0 by simp
qed

text \<open>Hexadecimal. \<open>to_digit 16\<close> is \<open>char::to_digit(16)\<close>.\<close>

definition hex_digit :: "nat \<Rightarrow> uchar" where
  "hex_digit n = lit ''0123456789abcdef'' ! n"

definition hex_encode :: "byte list \<Rightarrow> rtext" where
  "hex_encode bs = concat (map (\<lambda>b. [hex_digit (unat (drop_bit 4 b)), hex_digit (unat (b AND 15))]) bs)"

definition to_digit16 :: "uchar \<Rightarrow> nat option" where
  "to_digit16 c =
     (if 48 \<le> c \<and> c \<le> 57 then Some (c - 48)
      else if 97 \<le> c \<and> c \<le> 102 then Some (c - 87)
      else if 65 \<le> c \<and> c \<le> 70 then Some (c - 55)
      else None)"

fun hex_pairs :: "nat list \<Rightarrow> byte list option" where
  "hex_pairs (h # l # bs) =
     (case (to_digit16 h, to_digit16 l) of
        (Some high, Some low) \<Rightarrow> map_option ((#) (of_nat (push_bit 4 high OR low))) (hex_pairs bs)
      | _ \<Rightarrow> None)"
| "hex_pairs _ = Some []"

definition hex_decode :: "rtext \<Rightarrow> byte list option" where
  "hex_decode s = (if odd (str_len s) then None else hex_pairs (as_bytes s))"

lemma hex_digits: "\<forall>n \<in> set [0..<16]. hex_digit n < 128 \<and> to_digit16 (hex_digit n) = Some n"
  by code_simp

lemma hex_digit_ascii: "n < 16 \<Longrightarrow> hex_digit n < 128"
  and to_digit16_hex_digit: "n < 16 \<Longrightarrow> to_digit16 (hex_digit n) = Some n"
  using hex_digits by simp_all

lemma nibbles_lt: "unat (drop_bit 4 (b::byte)) < 16" "unat ((b::byte) AND 15) < 16"
proof -
  have "unat b < 2 ^ LENGTH(8)" by (rule unsigned_less)
  then show "unat (drop_bit 4 b) < 16"
    by (simp add: unat_drop_bit_eq drop_bit_eq_div unat_div)
  have "b AND 15 \<le> 15" by (rule word_and_le1)
  then show "unat (b AND 15) < 16" by (simp add: word_le_nat_alt)
qed

lemma nibbles_join:
  "(of_nat (push_bit 4 (unat (drop_bit 4 b)) OR unat (b AND 15)) :: byte) = b"
proof -
  have "(15::byte) = mask 4" by (simp add: mask_eq_exp_minus_1)
  then have "b AND 15 = take_bit 4 b" by (simp add: take_bit_eq_mask)
  moreover have "(of_nat (push_bit 4 (unat (drop_bit 4 b)) OR unat (take_bit 4 b)) :: byte) =
      push_bit 4 (drop_bit 4 b) OR take_bit 4 b"
    by (simp add: of_nat_or_eq of_nat_push_bit)
  moreover have "push_bit 4 (drop_bit 4 b) OR take_bit 4 b = b"
    by (rule bit_eqI) (auto simp: bit_simps)
  ultimately show ?thesis by simp
qed

lemma as_bytes_ascii: "\<forall>c \<in> set s. c < 128 \<Longrightarrow> as_bytes s = s"
  by (induction s) (auto simp: as_bytes_def utf8_char_def)

lemma hex_encode_ascii: "\<forall>c \<in> set (hex_encode bs). c < 128"
  by (auto simp: hex_encode_def hex_digit_ascii nibbles_lt)

lemma hex_pairs_encode: "hex_pairs (hex_encode bs) = Some bs"
  by (induction bs)
    (simp_all add: hex_encode_def to_digit16_hex_digit nibbles_lt nibbles_join)

lemma length_hex_encode: "length (hex_encode bs) = 2 * length bs"
  by (induction bs) (simp_all add: hex_encode_def)

lemma hex_decode_encode: "hex_decode (hex_encode bs) = Some bs"
proof -
  have bytes: "as_bytes (hex_encode bs) = hex_encode bs"
    by (rule as_bytes_ascii) (rule hex_encode_ascii)
  then have "str_len (hex_encode bs) = 2 * length bs"
    by (metis length_as_bytes length_hex_encode)
  with bytes show ?thesis by (simp add: hex_decode_def hex_pairs_encode)
qed

text \<open>decoding what was encoded gives the same bytes.\<close>

theorem hex_roundtrip: "hex_decode (hex_encode bs) = Some bs"
  by (rule hex_decode_encode)

text \<open>\<open>str::is_char_boundary\<close>, and slicing at a boundary.\<close>

fun is_char_boundary :: "rtext \<Rightarrow> nat \<Rightarrow> bool" where
  "is_char_boundary [] i = (i = 0)"
| "is_char_boundary (c # cs) i =
     (i = 0 \<or> (utf8_len c \<le> i \<and> is_char_boundary cs (i - utf8_len c)))"

fun byte_take :: "nat \<Rightarrow> rtext \<Rightarrow> rtext" where
  "byte_take i [] = []"
| "byte_take i (c # cs) = (if utf8_len c \<le> i then c # byte_take (i - utf8_len c) cs else [])"

fun byte_drop :: "nat \<Rightarrow> rtext \<Rightarrow> rtext" where
  "byte_drop i [] = []"
| "byte_drop i (c # cs) = (if utf8_len c \<le> i then byte_drop (i - utf8_len c) cs else c # cs)"

text \<open>\<open>truncate_str\<close>: the loop walks back from \<open>max_bytes\<close> to a boundary; \<open>tail_str\<close> walks
  forward, and always meets the boundary at the end of the string.\<close>

fun boundary_at_or_before :: "rtext \<Rightarrow> nat \<Rightarrow> nat" where
  "boundary_at_or_before s 0 = 0"
| "boundary_at_or_before s (Suc e) =
     (if is_char_boundary s (Suc e) then Suc e else boundary_at_or_before s e)"

definition truncate_str :: "rtext \<Rightarrow> nat \<Rightarrow> rtext" where
  "truncate_str s max_bytes =
     (if str_len s \<le> max_bytes then s else byte_take (boundary_at_or_before s max_bytes) s)"

function boundary_at_or_after :: "rtext \<Rightarrow> nat \<Rightarrow> nat" where
  "boundary_at_or_after s i =
     (if is_char_boundary s i \<or> str_len s \<le> i then i else boundary_at_or_after s (Suc i))"
  by pat_completeness auto
termination
  by (relation "measure (\<lambda>(s, i). str_len s - i)") auto

declare boundary_at_or_after.simps [simp del]

definition tail_str :: "rtext \<Rightarrow> nat \<Rightarrow> rtext" where
  "tail_str s max_bytes =
     (if str_len s \<le> max_bytes then s
      else byte_drop (boundary_at_or_after s (str_len s - max_bytes)) s)"

lemma byte_take_drop: "byte_take i s @ byte_drop i s = s"
  by (induction i s rule: byte_take.induct) auto

lemma str_len_byte_take: "is_char_boundary s i \<Longrightarrow> str_len (byte_take i s) = i"
  by (induction s i rule: is_char_boundary.induct) auto

lemma str_len_byte_drop: "is_char_boundary s i \<Longrightarrow> str_len (byte_drop i s) = str_len s - i"
  by (induction s i rule: is_char_boundary.induct) auto

lemma boundary_of_append: "is_char_boundary (p @ r) (str_len p)"
  by (induction p) (cases r, auto)

lemma boundary_at_end [simp]: "is_char_boundary s (str_len s)"
  using boundary_of_append [of s "[]"] by simp

lemma boundary_at_or_before:
  "boundary_at_or_before s m \<le> m" (is "?le")
  "is_char_boundary s (boundary_at_or_before s m)" (is "?bd")
  "is_char_boundary s k \<Longrightarrow> k \<le> m \<Longrightarrow> k \<le> boundary_at_or_before s m"
proof -
  show ?le ?bd by (induction m) (cases s; auto)+
  show "is_char_boundary s k \<Longrightarrow> k \<le> m \<Longrightarrow> k \<le> boundary_at_or_before s m"
    by (induction m) (auto simp: le_Suc_eq)
qed

lemma boundary_at_or_after:
  assumes "i \<le> str_len s"
  shows "i \<le> boundary_at_or_after s i \<and> boundary_at_or_after s i \<le> str_len s \<and>
    is_char_boundary s (boundary_at_or_after s i) \<and>
    (\<forall>k. is_char_boundary s k \<and> i \<le> k \<longrightarrow> boundary_at_or_after s i \<le> k)"
  using assms
proof (induction s i rule: boundary_at_or_after.induct)
  case (1 s i)
  show ?case
  proof (cases "is_char_boundary s i \<or> str_len s \<le> i")
    case True
    with "1.prems" have "is_char_boundary s i"
      by (metis boundary_at_end le_antisym)
    with "1.prems" show ?thesis by (simp add: boundary_at_or_after.simps [of s i])
  next
    case False
    with "1.IH" have IH: "Suc i \<le> boundary_at_or_after s (Suc i)"
      "boundary_at_or_after s (Suc i) \<le> str_len s"
      "is_char_boundary s (boundary_at_or_after s (Suc i))"
      "\<And>k. is_char_boundary s k \<Longrightarrow> Suc i \<le> k \<Longrightarrow> boundary_at_or_after s (Suc i) \<le> k"
      by auto
    have "k \<noteq> i" if "is_char_boundary s k" for k using False that by auto
    with False IH show ?thesis
      by (auto simp: boundary_at_or_after.simps [of s i] Suc_le_eq) (metis le_neq_implies_less)
  qed
qed

text \<open>C6: \<open>truncate_str\<close> keeps a prefix of whole characters that fits the byte limit, and no
  longer prefix fits.\<close>

theorem truncate_str_longest:
  "prefix (truncate_str s m) s \<and> str_len (truncate_str s m) \<le> m \<and>
   (\<forall>p. prefix p s \<and> str_len p \<le> m \<longrightarrow> str_len p \<le> str_len (truncate_str s m))"
proof (cases "str_len s \<le> m")
  case True
  then show ?thesis by (auto simp: truncate_str_def prefix_def)
next
  case False
  let ?e = "boundary_at_or_before s m"
  have t: "truncate_str s m = byte_take ?e s" using False by (simp add: truncate_str_def)
  have len: "str_len (truncate_str s m) = ?e"
    by (simp add: t str_len_byte_take boundary_at_or_before)
  have "str_len p \<le> ?e" if "prefix p s" "str_len p \<le> m" for p
    using that boundary_of_append by (auto simp: prefix_def intro!: boundary_at_or_before)
  moreover have "prefix (byte_take ?e s) s"
    using byte_take_drop [of ?e s] by (metis prefixI)
  ultimately show ?thesis
    by (simp add: len t [symmetric] boundary_at_or_before)
qed

theorem truncate_str_longest_witness:
  "prefix [97, 8364] [97, 8364, 98 :: uchar] \<and> str_len [97, 8364] \<le> 4 \<and>
   str_len [97, 8364] \<le> str_len (truncate_str [97, 8364, 98] 4)"
proof -
  have p: "prefix [97, 8364] [97, 8364, 98::nat]" by simp
  have l: "str_len [97, 8364] \<le> 4" by (simp add: utf8_len_def)
  note truncate_str_longest [of "[97, 8364, 98]" 4, THEN conjunct2, THEN conjunct2, rule_format,
    OF conjI [OF p l]]
  with p l show ?thesis by (intro conjI)
qed

text \<open>\<open>tail_str\<close> keeps a suffix of whole characters that fits the limit, and no longer
  suffix fits.\<close>

theorem tail_str_longest:
  "suffix (tail_str s m) s \<and> str_len (tail_str s m) \<le> m \<and>
   (\<forall>p. suffix p s \<and> str_len p \<le> m \<longrightarrow> str_len p \<le> str_len (tail_str s m))"
proof (cases "str_len s \<le> m")
  case True
  then show ?thesis by (auto simp: tail_str_def suffix_def)
next
  case False
  let ?i = "str_len s - m"
  let ?b = "boundary_at_or_after s ?i"
  have b: "?i \<le> ?b" "?b \<le> str_len s" "is_char_boundary s ?b"
    "\<And>k. is_char_boundary s k \<Longrightarrow> ?i \<le> k \<Longrightarrow> ?b \<le> k"
    using boundary_at_or_after [of ?i s] by auto
  have t: "tail_str s m = byte_drop ?b s" using False by (simp add: tail_str_def)
  have len: "str_len (tail_str s m) = str_len s - ?b"
    by (simp add: t str_len_byte_drop b)
  have "str_len p \<le> str_len s - ?b" if "suffix p s" "str_len p \<le> m" for p
  proof -
    from that(1) obtain q where s: "s = q @ p" by (auto simp: suffix_def)
    have "?b \<le> str_len q" using b(4) [of "str_len q"] boundary_of_append [of q p] that(2) s by simp
    then show ?thesis using s by simp
  qed
  moreover have "suffix (byte_drop ?b s) s"
    using byte_take_drop [of ?b s] by (metis suffixI)
  ultimately show ?thesis using b(1) False by (simp add: len t [symmetric])
qed

theorem tail_str_longest_witness:
  "suffix [233, 115] [99, 233, 115 :: uchar] \<and> str_len [233, 115] \<le> 3 \<and>
   str_len [233, 115] \<le> str_len (tail_str [99, 233, 115] 3)"
proof -
  have p: "suffix [233, 115] [99, 233, 115::nat]" by (rule suffixI [where zs = "[99]"]) simp
  have l: "str_len [233, 115] \<le> 3" by (simp add: utf8_len_def)
  note tail_str_longest [of "[99, 233, 115]" 3, THEN conjunct2, THEN conjunct2, rule_format,
    OF conjI [OF p l]]
  with p l show ?thesis by (intro conjI)
qed

section \<open>src/BoBeService/src/models/ids.rs\<close>

text \<open>
  The text form of an identifier is written and read by the \<open>uuid\<close> crate: \<open>simple\<close> is
  \<open>Uuid::simple\<close>, \<open>parse\<close> is \<open>Uuid::parse_str\<close>. The locale states what this code relies
  on: parsing reads back what was written, and what was written holds no underscore.
\<close>

definition owner_channel :: uuid where
  "owner_channel = 0"

text \<open>\<open>Uuid::from_bytes\<close> reads the most significant byte first.\<close>

definition uuid_from_bytes :: "byte list \<Rightarrow> uuid" where
  "uuid_from_bytes bs = foldl (\<lambda>a b. push_bit 8 a OR ucast b) 0 bs"

definition channel_for_endpoint :: "(nat list \<Rightarrow> byte list) \<Rightarrow> rtext \<Rightarrow> uuid" where
  "channel_for_endpoint sha256 endpoint_id =
     uuid_from_bytes (take 16 (sha256 (as_bytes (lit ''bobe-channel:'' @ endpoint_id))))"

definition message_id_for_turn :: "(uuid \<Rightarrow> rtext) \<Rightarrow> uuid \<Rightarrow> rtext" where
  "message_id_for_turn simple turn_id = lit ''msg_'' @ simple turn_id"

definition voice_turn_id :: "(uuid \<Rightarrow> rtext) \<Rightarrow> uuid \<Rightarrow> rtext" where
  "voice_turn_id simple turn_id = lit ''voice_'' @ simple turn_id"

text \<open>\<open>wire_id.rsplit('_').next()\<close> is what follows the last underscore.\<close>

definition last_segment :: "rtext \<Rightarrow> rtext" where
  "last_segment w = rev (takeWhile (\<lambda>c. c \<noteq> cp (CHR ''_'')) (rev w))"

definition conversation_turn_id_from_wire_id ::
  "(rtext \<Rightarrow> uuid option) \<Rightarrow> rtext \<Rightarrow> uuid option" where
  "conversation_turn_id_from_wire_id parse wire_id = parse (last_segment wire_id)"

lemma last_segment_append:
  "cp (CHR ''_'') \<notin> set r \<Longrightarrow> last_segment (p @ cp (CHR ''_'') # r) = r"
  by (simp add: last_segment_def takeWhile_tail takeWhile_append2)
    (metis (mono_tags, lifting) rev_rev_ident set_rev takeWhile_eq_all_conv)

locale uuid_text =
  fixes simple :: "uuid \<Rightarrow> rtext" and parse :: "rtext \<Rightarrow> uuid option"
  assumes parse_simple: "parse (simple u) = Some u"
    and no_underscore: "cp (CHR ''_'') \<notin> set (simple u)"
begin

lemma message_id_parses:
  "conversation_turn_id_from_wire_id parse (message_id_for_turn simple u) = Some u"
proof -
  have "message_id_for_turn simple u = lit ''msg'' @ cp (CHR ''_'') # simple u"
    by (simp add: message_id_for_turn_def lit_def)
  then show ?thesis
    by (simp only: conversation_turn_id_from_wire_id_def last_segment_append no_underscore parse_simple
        not_False_eq_True)
qed

lemma voice_id_parses:
  "conversation_turn_id_from_wire_id parse (voice_turn_id simple u) = Some u"
proof -
  have "voice_turn_id simple u = lit ''voice'' @ cp (CHR ''_'') # simple u"
    by (simp add: voice_turn_id_def lit_def)
  then show ?thesis
    by (simp only: conversation_turn_id_from_wire_id_def last_segment_append no_underscore parse_simple
        not_False_eq_True)
qed

end

text \<open>The documented simple form, 32 lower-case hexadecimal digits with the most significant
  byte first, satisfies the interface.\<close>

definition uuid_byte :: "uuid \<Rightarrow> nat \<Rightarrow> byte" where
  "uuid_byte u i = ucast (drop_bit (8 * i) u)"

definition uuid_simple :: "uuid \<Rightarrow> rtext" where
  "uuid_simple u = hex_encode (rev (map (uuid_byte u) [0..<16]))"

definition uuid_parse_simple :: "rtext \<Rightarrow> uuid option" where
  "uuid_parse_simple s = map_option uuid_from_bytes (hex_decode s)"

lemma push_byte:
  "push_bit (8 * n) (push_bit 8 a OR ucast (uuid_byte u n)) OR take_bit (8 * n) u =
     push_bit (8 * Suc n) a OR take_bit (8 * Suc n) (u :: uuid)"
  by (rule bit_word_eqI) (auto simp: uuid_byte_def bit_simps add.commute)

lemma foldl_uuid_bytes:
  "foldl (\<lambda>a b. push_bit 8 a OR ucast b) a (rev (map (uuid_byte u) [0..<n])) =
     push_bit (8 * n) a OR take_bit (8 * n) u"
proof (induction n arbitrary: a)
  case (Suc n)
  show ?case using Suc.IH [of "push_bit 8 a OR ucast (uuid_byte u n)"] push_byte [of n a u]
    by simp
qed simp

lemma uuid_from_to_bytes: "uuid_from_bytes (rev (map (uuid_byte u) [0..<16])) = u"
  using foldl_uuid_bytes [of 0 u 16]
  by (simp add: uuid_from_bytes_def take_bit_length_eq [where 'a = 128, simplified])

lemma hex_digit_no_underscore: "n < 16 \<Longrightarrow> hex_digit n \<noteq> cp (CHR ''_'')"
  using to_digit16_hex_digit [of n] by (auto simp: to_digit16_def)

interpretation simple_uuid: uuid_text uuid_simple uuid_parse_simple
proof
  fix u :: uuid
  show "uuid_parse_simple (uuid_simple u) = Some u"
    by (simp add: uuid_parse_simple_def uuid_simple_def hex_decode_encode uuid_from_to_bytes)
  show "cp (CHR ''_'') \<notin> set (uuid_simple u)"
    using hex_digit_no_underscore nibbles_lt by (fastforce simp: uuid_simple_def hex_encode_def)
qed

text \<open>A wire message identifier made for a turn, by text or by voice, leads back to exactly
  that turn.\<close>

theorem wire_ids_roundtrip:
  assumes "\<And>u. parse (simple u) = Some u" "\<And>u. cp (CHR ''_'') \<notin> set (simple u)"
  shows "conversation_turn_id_from_wire_id parse (message_id_for_turn simple turn) = Some turn \<and>
    conversation_turn_id_from_wire_id parse (voice_turn_id simple turn) = Some turn"
proof -
  have "uuid_text simple parse" by unfold_locales (use assms in auto)
  then show ?thesis
    by (simp add: uuid_text.message_id_parses uuid_text.voice_id_parses)
qed

theorem wire_ids_roundtrip_witness:
  "conversation_turn_id_from_wire_id uuid_parse_simple (message_id_for_turn uuid_simple 7) = Some 7"
  using wire_ids_roundtrip [of uuid_parse_simple uuid_simple 7]
    simple_uuid.parse_simple simple_uuid.no_underscore by simp

section \<open>JSON values\<close>

text \<open>\<open>serde_json::Value\<close>, as \<open>json!\<close> builds it. How a value is printed is not under src/: it is the
  parameter \<open>json_text\<close> where code prints one.\<close>

datatype json =
    JNull
  | JBool bool
  | JNum int
  | JStr rtext
  | JArr "json list"
  | JObj "(string \<times> json) list"

end
