(* ===== verification/Turn_Admission.thy ===== *)
theory Turn_Admission
  imports BoBe_Prelude
begin

text \<open>
  Admission of conversation turns: \<open>src/BoBeService/src/runtime/turn_admission.rs\<close> and the
  flag guard of \<open>src/BoBeService/src/util/atomic_flag_guard.rs\<close>.

  \<open>Arc<AtomicBool>\<close> and \<open>CancellationToken\<close> are shared objects, so the model has a store:
  \<open>flags\<close> and \<open>cancelled\<close> map references to their current value, and \<open>next_ref\<close> is the
  next unused reference. Reference 0 is the maintenance flag. Every method body of
  \<open>TurnAdmission\<close> runs under the state mutex and is one atomic operation here;
  \<open>queue_user\<close> is two, because it takes its ticket before it takes the lock. Permits,
  tickets that were taken, and \<open>QueuedTurn\<close> values live outside the admission
  object; the system state \<open>sys\<close> records the live ones.
\<close>

section \<open>State\<close>

datatype turn_source = User | Capture | Checkin | Maintenance | Background

definition turn_source_name :: "turn_source \<Rightarrow> string" where
  "turn_source_name s = (case s of User \<Rightarrow> ''user'' | Capture \<Rightarrow> ''capture'' | Checkin \<Rightarrow> ''checkin''
     | Maintenance \<Rightarrow> ''maintenance'' | Background \<Rightarrow> ''background'')"

type_synonym flag_ref = nat
type_synonym token_ref = nat
type_synonym ticket = nat

record channel_state =
  busy :: flag_ref
  source :: turn_source
  cancellation :: token_ref

record admission =
  channels :: "(uuid, channel_state) hmap"
  waiting :: "(uuid, ticket list) hmap"
  flags :: "flag_ref \<Rightarrow> bool"
  cancelled :: "token_ref \<Rightarrow> bool"
  next_ref :: nat
  next_ticket :: ticket
  capacity :: nat

record turn_permit =
  permit_flag :: flag_ref
  permit_cancellation :: token_ref

definition maintenance :: flag_ref where
  "maintenance = 0"

definition with_capacity :: "nat \<Rightarrow> admission" where
  "with_capacity c = \<lparr>channels = [], waiting = [], flags = (\<lambda>_. False), cancelled = (\<lambda>_. False),
     next_ref = 1, next_ticket = 1, capacity = c\<rparr>"

section \<open>Operations\<close>

definition is_busy :: "admission \<Rightarrow> channel_state \<Rightarrow> bool" where
  "is_busy a slot = flags a (busy slot)"

definition active :: "admission \<Rightarrow> nat" where
  "active a = hm_count (is_busy a) (channels a)"

definition cancel_token :: "token_ref \<Rightarrow> admission \<Rightarrow> admission" where
  "cancel_token t a = a\<lparr>cancelled := (cancelled a)(t := True)\<rparr>"

text \<open>\<open>CancellationToken::new\<close> and \<open>Arc::new(AtomicBool::new(false))\<close>: an unused reference.\<close>

definition alloc :: "admission \<Rightarrow> nat \<times> admission" where
  "alloc a = (next_ref a, a\<lparr>next_ref := Suc (next_ref a)\<rparr>)"

definition try_acquire :: "flag_ref \<Rightarrow> token_ref \<Rightarrow> admission \<Rightarrow> turn_permit option \<times> admission" where
  "try_acquire f t a =
     (if flags a f then (None, a)
      else (Some \<lparr>permit_flag = f, permit_cancellation = t\<rparr>, a\<lparr>flags := (flags a)(f := True)\<rparr>))"

definition release_flag :: "flag_ref \<Rightarrow> admission \<Rightarrow> admission" where
  "release_flag f a = a\<lparr>flags := (flags a)(f := False)\<rparr>"

text \<open>\<open>entry(channel).or_insert_with(..)\<close>\<close>

definition entry_or_insert :: "uuid \<Rightarrow> turn_source \<Rightarrow> admission \<Rightarrow> channel_state \<times> admission" where
  "entry_or_insert ch src a =
     (case hm_get (channels a) ch of
        Some slot \<Rightarrow> (slot, a)
      | None \<Rightarrow>
          let (b, a1) = alloc a; (t, a2) = alloc a1;
              slot = \<lparr>busy = b, source = src, cancellation = t\<rparr>
          in (slot, a2\<lparr>channels := hm_insert ch slot (channels a2)\<rparr>))"

definition front :: "ticket list \<Rightarrow> ticket option" where
  "front w = (case w of [] \<Rightarrow> None | t # _ \<Rightarrow> Some t)"

definition admit_slot :: "turn_source \<Rightarrow> uuid \<Rightarrow> admission \<Rightarrow> turn_permit option \<times> admission" where
  "admit_slot src ch a =
     (let (slot, a1) = entry_or_insert ch src a in
      if is_busy a1 slot then
        (None, if src = User \<and> source slot \<noteq> User then cancel_token (cancellation slot) a1 else a1)
      else
        let (t, a2) = alloc a1;
            slot' = slot\<lparr>source := src, cancellation := t\<rparr>
        in try_acquire (busy slot) t (a2\<lparr>channels := hm_insert ch slot' (channels a2)\<rparr>))"

definition try_channel ::
  "turn_source \<Rightarrow> uuid \<Rightarrow> ticket option \<Rightarrow> admission \<Rightarrow> turn_permit option \<times> admission" where
  "try_channel src ch tk a0 =
     (let a = a0\<lparr>channels := hm_retain (\<lambda>_. is_busy a0) (channels a0)\<rparr> in
      if flags a maintenance then (None, a)
      else if src = Maintenance then
        (if active a \<noteq> 0 \<or> waiting a \<noteq> [] then (None, a)
         else let (t, a1) = alloc a in try_acquire maintenance t a1)
      else if src \<noteq> User \<and> waiting a \<noteq> [] then (None, a)
      else if active a \<ge> capacity a then (None, a)
      else case hm_get (waiting a) ch of
          Some w \<Rightarrow> if src \<noteq> User \<or> tk \<noteq> front w then (None, a) else admit_slot src ch a
        | None \<Rightarrow> admit_slot src ch a)"

definition try_admit :: "turn_source \<Rightarrow> admission \<Rightarrow> turn_permit option \<times> admission" where
  "try_admit src = try_channel src 0 None"

text \<open>\<open>queue_user\<close>: the ticket, then the part under the lock. \<open>waiting_total\<close> is the number of
  tickets over all channels.\<close>

definition take_ticket :: "admission \<Rightarrow> ticket \<times> admission" where
  "take_ticket a = (next_ticket a, a\<lparr>next_ticket := wrap64 (next_ticket a + 1)\<rparr>)"

definition waiting_total :: "admission \<Rightarrow> nat" where
  "waiting_total a = sum_list (map (length \<circ> snd) (waiting a))"

definition preemptible :: "admission \<Rightarrow> channel_state \<Rightarrow> bool" where
  "preemptible a slot \<longleftrightarrow> source slot \<noteq> User \<and> \<not> cancelled a (cancellation slot)"

definition preempt_channel :: "uuid \<Rightarrow> admission \<Rightarrow> admission" where
  "preempt_channel ch a =
     (case hm_get (channels a) ch of
        Some slot \<Rightarrow> if source slot \<noteq> User then cancel_token (cancellation slot) a else a
      | None \<Rightarrow> a)"

definition preempt_any :: "admission \<Rightarrow> admission" where
  "preempt_any a =
     (if active a \<ge> capacity a then
        case find (preemptible a) (map snd (channels a)) of
          Some slot \<Rightarrow> cancel_token (cancellation slot) a
        | None \<Rightarrow> a
      else a)"

definition enqueue :: "uuid \<Rightarrow> ticket \<Rightarrow> admission \<Rightarrow> app_error + admission" where
  "enqueue ch tk a =
     (if flags a maintenance then Inl (Conflict ''personal data maintenance is active'')
      else if waiting_total a \<ge> 64 then Inl (Conflict ''the incoming message queue is full'')
      else
        let w = (case hm_get (waiting a) ch of None \<Rightarrow> [] | Some w \<Rightarrow> w);
            a1 = a\<lparr>waiting := hm_insert ch (w @ [tk]) (waiting a)\<rparr>
        in Inr (preempt_any (preempt_channel ch a1)))"

definition queue_user :: "uuid \<Rightarrow> admission \<Rightarrow> (app_error + ticket) \<times> admission" where
  "queue_user ch a =
     (let (tk, a1) = take_ticket a in
      case enqueue ch tk a1 of Inl e \<Rightarrow> (Inl e, a1) | Inr a2 \<Rightarrow> (Inr tk, a2))"

text \<open>Dropping a \<open>QueuedTurn\<close>, and dropping a \<open>TurnPermit\<close>.\<close>

definition drop_queued :: "uuid \<Rightarrow> ticket \<Rightarrow> admission \<Rightarrow> admission" where
  "drop_queued ch tk a =
     (case hm_get (waiting a) ch of
        None \<Rightarrow> a
      | Some w \<Rightarrow>
          let w' = filter (\<lambda>t. t \<noteq> tk) w in
          a\<lparr>waiting := (if w' = [] then hm_remove ch (waiting a) else hm_insert ch w' (waiting a))\<rparr>)"

definition drop_permit :: "turn_permit \<Rightarrow> admission \<Rightarrow> admission" where
  "drop_permit p = release_flag (permit_flag p)"

definition is_idle :: "admission \<Rightarrow> bool" where
  "is_idle a \<longleftrightarrow> \<not> flags a maintenance \<and> list_all (\<lambda>slot. \<not> is_busy a slot) (map snd (channels a))"

definition accepts_messages :: "admission \<Rightarrow> bool" where
  "accepts_messages a \<longleftrightarrow> \<not> flags a maintenance"

lemmas admission_defs = try_channel_def admit_slot_def entry_or_insert_def try_acquire_def alloc_def
  cancel_token_def is_busy_def active_def

section \<open>Invariant of the admission state\<close>

definition slots :: "admission \<Rightarrow> channel_state set" where
  "slots a = snd ` set (channels a)"

definition flag_refs :: "admission \<Rightarrow> flag_ref list" where
  "flag_refs a = map (busy \<circ> snd) (channels a)"

definition refs_ok :: "admission \<Rightarrow> bool" where
  "refs_ok a \<longleftrightarrow> hm_ok (channels a) \<and> distinct (flag_refs a) \<and> 0 < next_ref a \<and>
     (\<forall>f \<in> set (flag_refs a). 0 < f \<and> f < next_ref a) \<and>
     (\<forall>f. flags a f \<longrightarrow> f = maintenance \<or> f \<in> set (flag_refs a))"

definition queues_ok :: "admission \<Rightarrow> bool" where
  "queues_ok a \<longleftrightarrow> hm_ok (waiting a) \<and> (\<forall>w \<in> snd ` set (waiting a). w \<noteq> []) \<and> waiting_total a \<le> 64"

definition exclusion_ok :: "admission \<Rightarrow> bool" where
  "exclusion_ok a \<longleftrightarrow> active a \<le> capacity a \<and> (flags a maintenance \<longrightarrow> active a = 0 \<and> waiting a = [])"

definition admission_ok :: "admission \<Rightarrow> bool" where
  "admission_ok a \<longleftrightarrow> refs_ok a \<and> queues_ok a \<and> exclusion_ok a"

lemma flag_refs_slots: "set (flag_refs a) = busy ` slots a"
  by (auto simp: flag_refs_def slots_def)

lemma with_capacity_fields [simp]:
  "channels (with_capacity c) = []" "waiting (with_capacity c) = []" "\<not> flags (with_capacity c) f"
  "next_ref (with_capacity c) = 1" "capacity (with_capacity c) = c"
  by (simp_all add: with_capacity_def)

lemma admission_ok_init: "admission_ok (with_capacity c)"
  by (simp add: admission_ok_def refs_ok_def queues_ok_def exclusion_ok_def
      flag_refs_def waiting_total_def active_def)

lemma fresh_flag_clear: "refs_ok a \<Longrightarrow> next_ref a \<le> f \<Longrightarrow> \<not> flags a f"
proof
  assume ok: "refs_ok a" and le: "next_ref a \<le> f" and on: "flags a f"
  from ok on have "f = maintenance \<or> f \<in> set (flag_refs a)" unfolding refs_ok_def by blast
  with ok have "f < next_ref a" unfolding refs_ok_def maintenance_def by blast
  with le show False by simp
qed

lemma count_set_flag:
  "distinct fs \<Longrightarrow> length (filter (F(b := True)) fs) \<le> Suc (length (filter F fs))"
proof (induction fs)
  case (Cons f fs)
  show ?case
  proof (cases "f = b")
    case True
    with Cons.prems have eq: "filter (F(b := True)) fs = filter F fs" by (intro filter_cong) auto
    show ?thesis unfolding filter.simps(2) eq using True by simp
  next
    case False
    with Cons show ?thesis by auto
  qed
qed simp

lemma flag_refs_insert_same:
  "hm_get m ch = Some slot \<Longrightarrow> busy v = busy slot \<Longrightarrow>
   map (busy \<circ> snd) (hm_insert ch v m) = map (busy \<circ> snd) m"
  by (induction m) auto

lemma count_by_refs:
  "hm_count (\<lambda>s. F (busy s)) m = length (filter F (map (busy \<circ> snd) m))"
  by (induction m) auto

lemma is_busy_eq: "is_busy a = (\<lambda>slot. flags a (busy slot))"
  by (rule ext) (simp add: is_busy_def)

lemma active_by_refs: "active a = length (filter (flags a) (flag_refs a))"
  unfolding active_def flag_refs_def is_busy_eq by (rule count_by_refs)

lemma active_eq_0_iff: "active a = 0 \<longleftrightarrow> (\<forall>f \<in> set (flag_refs a). \<not> flags a f)"
  by (simp add: active_by_refs filter_empty_conv)

text \<open>The first step of \<open>try_channel\<close>: forgetting the slots whose turn has ended.\<close>

definition swept :: "admission \<Rightarrow> admission" where
  "swept a = a\<lparr>channels := hm_retain (\<lambda>_. is_busy a) (channels a)\<rparr>"

lemma swept_fields [simp]:
  "flags (swept a) = flags a" "waiting (swept a) = waiting a" "capacity (swept a) = capacity a"
  "next_ref (swept a) = next_ref a" "cancelled (swept a) = cancelled a"
  by (simp_all add: swept_def)

lemma flag_refs_swept: "flag_refs (swept a) = filter (flags a) (flag_refs a)"
  by (simp add: flag_refs_def swept_def hm_retain_def is_busy_def filter_map o_def case_prod_unfold)

lemma active_swept [simp]: "active (swept a) = active a"
  by (simp add: active_by_refs flag_refs_swept)

lemma waiting_total_swept [simp]: "waiting_total (swept a) = waiting_total a"
  by (simp add: waiting_total_def)

lemma admission_ok_swept: "admission_ok a \<Longrightarrow> admission_ok (swept a)"
proof -
  assume ok: "admission_ok a"
  then have "hm_ok (channels (swept a))"
    by (simp add: admission_ok_def refs_ok_def swept_def)
  with ok show ?thesis
    by (auto simp: admission_ok_def refs_ok_def queues_ok_def exclusion_ok_def flag_refs_swept)
qed

lemma swept_busy: "admission_ok a \<Longrightarrow> slot \<in> slots (swept a) \<Longrightarrow> flags a (busy slot)"
  using flag_refs_slots [of "swept a"] by (auto simp: flag_refs_swept)

definition channel_busy :: "admission \<Rightarrow> uuid \<Rightarrow> bool" where
  "channel_busy a ch \<longleftrightarrow> (case hm_get (channels a) ch of None \<Rightarrow> False | Some slot \<Rightarrow> is_busy a slot)"

lemma channel_busy_swept [simp]: "admission_ok a \<Longrightarrow> channel_busy (swept a) ch = channel_busy a ch"
  by (auto simp: channel_busy_def swept_def is_busy_def hm_get_retain admission_ok_def refs_ok_def
      split: option.splits)

lemma flag_ref_of_slot: "hm_get (channels a) ch = Some slot \<Longrightarrow> busy slot \<in> set (flag_refs a)"
  by (force simp: flag_refs_def dest: map_of_SomeD)

lemma waiting_total_cong: "waiting a = waiting b \<Longrightarrow> waiting_total a = waiting_total b"
  by (simp add: waiting_total_def)

lemma cancel_token_fields [simp]:
  "channels (cancel_token t a) = channels a" "waiting (cancel_token t a) = waiting a"
  "flags (cancel_token t a) = flags a" "next_ref (cancel_token t a) = next_ref a"
  "capacity (cancel_token t a) = capacity a"
  "cancelled (cancel_token t a) = (cancelled a)(t := True)"
  by (simp_all add: cancel_token_def)

lemma admission_ok_cong:
  assumes "channels a' = channels a" "waiting a' = waiting a" "flags a' = flags a"
    "next_ref a' = next_ref a" "capacity a' = capacity a"
  shows "admission_ok a' = admission_ok a" "active a' = active a"
proof -
  have fr: "flag_refs a' = flag_refs a" and wt: "waiting_total a' = waiting_total a"
    using assms by (simp_all add: flag_refs_def waiting_total_def)
  show "active a' = active a" and "admission_ok a' = admission_ok a"
    unfolding admission_ok_def refs_ok_def queues_ok_def exclusion_ok_def active_by_refs fr wt assms
    by (rule refl)+
qed

lemma admission_ok_cancel [simp]: "admission_ok (cancel_token t a) = admission_ok a"
  by (rule admission_ok_cong) simp_all

lemma active_cancel [simp]: "active (cancel_token t a) = active a"
  by (rule admission_ok_cong) simp_all

lemma entry_or_insert_spec:
  assumes ok: "admission_ok a" and e: "entry_or_insert ch src a = (slot, a1)"
  shows "admission_ok a1" "hm_get (channels a1) ch = Some slot" "flags a1 = flags a"
    "waiting a1 = waiting a" "capacity a1 = capacity a" "active a1 = active a"
    "is_busy a1 slot = channel_busy a ch"
proof -
  have "admission_ok a1 \<and> hm_get (channels a1) ch = Some slot \<and> flags a1 = flags a \<and>
    waiting a1 = waiting a \<and> capacity a1 = capacity a \<and> active a1 = active a \<and>
    is_busy a1 slot = channel_busy a ch"
  proof (cases "hm_get (channels a) ch")
    case None
    define b where "b = next_ref a"
    from None have ins: "hm_insert ch v (channels a) = channels a @ [(ch, v)]" for v
      by (rule hm_insert_fresh)
    from e None ins have a1: "a1 = a\<lparr>next_ref := Suc (Suc b), channels := channels a @ [(ch, slot)]\<rparr>"
      and slot: "slot = \<lparr>busy = b, source = src, cancellation = Suc b\<rparr>"
      by (auto simp: entry_or_insert_def alloc_def b_def Let_def)
    have refs: "flag_refs a1 = flag_refs a @ [b]" by (simp add: flag_refs_def a1 slot)
    from ok have rok: "refs_ok a" by (simp add: admission_ok_def)
    then have clear: "\<not> flags a b" by (simp add: fresh_flag_clear b_def)
    have fr: "b \<notin> set (flag_refs a)" using rok by (auto simp: refs_ok_def b_def)
    have "distinct (map fst (channels a1))"
      using rok None by (simp add: a1 refs_ok_def map_of_eq_None_iff)
    with rok fr have "refs_ok a1"
      unfolding refs_ok_def refs by (auto simp: a1 b_def less_Suc_eq)
    moreover have "active a1 = active a" unfolding active_by_refs refs using clear by (simp add: a1)
    ultimately show ?thesis using ok None clear
      by (simp add: admission_ok_def queues_ok_def exclusion_ok_def a1 waiting_total_def
          is_busy_def channel_busy_def slot map_add_def)
  next
    case (Some s)
    with e ok show ?thesis by (simp add: entry_or_insert_def channel_busy_def)
  qed
  then show "admission_ok a1" "hm_get (channels a1) ch = Some slot" "flags a1 = flags a"
    "waiting a1 = waiting a" "capacity a1 = capacity a" "active a1 = active a"
    "is_busy a1 slot = channel_busy a ch" by auto
qed

text \<open>Setting one clear flag that belongs to a slot: at most one more turn is active.\<close>

lemma set_flag_refs_ok:
  assumes "refs_ok a" "f = maintenance \<or> f \<in> set (flag_refs a)"
    "flag_refs a' = flag_refs a" "map fst (channels a') = map fst (channels a)"
    "next_ref a \<le> next_ref a'" "flags a' = (flags a)(f := v)"
  shows "refs_ok a'"
  using assms unfolding refs_ok_def by (auto split: if_splits dest: order.strict_trans2)

lemma active_set_flag:
  assumes "refs_ok a" "flag_refs a' = flag_refs a" "flags a' = (flags a)(f := True)"
  shows "active a' \<le> Suc (active a)"
  unfolding active_by_refs assms(2,3)
  by (rule count_set_flag) (use assms(1) in \<open>simp add: refs_ok_def\<close>)

lemma map_fst_insert_same:
  "hm_get m ch = Some v \<Longrightarrow> map fst (hm_insert ch v' m) = map fst m"
  by (induction m) auto

lemma admit_slot_spec:
  assumes ok: "admission_ok a" and room: "active a < capacity a"
    and idle: "\<not> flags a maintenance" and r: "admit_slot src ch a = (r, a')"
  shows "admission_ok a' \<and> waiting a' = waiting a \<and> capacity a' = capacity a \<and>
    (r = None \<longleftrightarrow> channel_busy a ch) \<and>
    (case r of None \<Rightarrow> flags a' = flags a
     | Some p \<Rightarrow> \<not> flags a (permit_flag p) \<and> flags a' = (flags a)(permit_flag p := True) \<and>
         permit_flag p \<noteq> maintenance \<and>
         hm_get (channels a') ch =
           Some \<lparr>busy = permit_flag p, source = src, cancellation = permit_cancellation p\<rparr>)"
proof -
  obtain slot a1 where e: "entry_or_insert ch src a = (slot, a1)" by fastforce
  note spec = entry_or_insert_spec [OF ok e]
  show ?thesis
  proof (cases "is_busy a1 slot")
    case True
    then show ?thesis using r e spec by (auto simp: admit_slot_def)
  next
    case False
    define t where "t = next_ref a1"
    define s' where "s' = slot\<lparr>source := src, cancellation := t\<rparr>"
    define a2 where "a2 = a1\<lparr>next_ref := Suc t, channels := hm_insert ch s' (channels a1)\<rparr>"
    have bs: "busy s' = busy slot" by (simp add: s'_def)
    from r e False have r': "try_acquire (busy slot) t a2 = (r, a')"
      by (simp add: admit_slot_def alloc_def Let_def a2_def s'_def t_def)
    from False have clear: "\<not> flags a1 (busy slot)" by (simp add: is_busy_def)
    with r' have res: "r = Some \<lparr>permit_flag = busy slot, permit_cancellation = t\<rparr>"
      "a' = a2\<lparr>flags := (flags a1)(busy slot := True)\<rparr>"
      by (auto simp: try_acquire_def a2_def)
    have refs: "flag_refs a' = flag_refs a1"
      using flag_refs_insert_same [OF spec(2) bs] by (simp add: res a2_def flag_refs_def)
    have mem: "busy slot \<in> set (flag_refs a1)" using spec(2) by (rule flag_ref_of_slot)
    have rok1: "refs_ok a1" using spec(1) by (simp add: admission_ok_def)
    then have nz: "busy slot \<noteq> maintenance" using mem by (auto simp: refs_ok_def maintenance_def)
    have rok: "refs_ok a'"
      by (rule set_flag_refs_ok [OF rok1 _ refs, of "busy slot" True])
        (simp_all add: mem res(2) a2_def map_fst_insert_same [OF spec(2)] t_def)
    have act: "active a' \<le> Suc (active a1)"
      by (rule active_set_flag [OF rok1 refs]) (simp add: res(2))
    have nm: "\<not> flags a' maintenance" using idle spec(3) nz by (simp add: res(2))
    have same: "waiting a' = waiting a" "capacity a' = capacity a"
      using spec by (simp_all add: res(2) a2_def)
    have "admission_ok a'"
      unfolding admission_ok_def queues_ok_def exclusion_ok_def
      using rok act nm room ok spec same
      by (simp add: admission_ok_def queues_ok_def waiting_total_cong [OF same(1)])
    then show ?thesis
      using clear spec same nz False by (simp add: res a2_def s'_def hm_get_insert)
  qed
qed

section \<open>When a turn is admitted, and what admission changes\<close>

definition may_admit :: "turn_source \<Rightarrow> uuid \<Rightarrow> ticket option \<Rightarrow> admission \<Rightarrow> bool" where
  "may_admit src ch tk a \<longleftrightarrow>
     \<not> flags a maintenance \<and>
     (if src = Maintenance then active a = 0 \<and> waiting a = []
      else active a < capacity a \<and> (src = User \<or> waiting a = []) \<and>
        (case hm_get (waiting a) ch of None \<Rightarrow> True | Some w \<Rightarrow> src = User \<and> tk = front w) \<and>
        \<not> channel_busy a ch)"

definition grants :: "admission \<Rightarrow> turn_permit \<Rightarrow> admission \<Rightarrow> bool" where
  "grants a p a' \<longleftrightarrow> \<not> flags a (permit_flag p) \<and> flags a' = (flags a)(permit_flag p := True)"

lemma maintenance_acquire:
  assumes ok: "admission_ok a" and idle: "active a = 0" "waiting a = []" "\<not> flags a maintenance"
    and r: "try_acquire maintenance (next_ref a) (a\<lparr>next_ref := Suc (next_ref a)\<rparr>) = (r, a')"
  shows "admission_ok a' \<and> waiting a' = waiting a \<and> capacity a' = capacity a \<and>
    (\<exists>p. r = Some p \<and> permit_flag p = maintenance \<and> grants a p a')"
proof -
  from r idle have res: "r = Some \<lparr>permit_flag = maintenance, permit_cancellation = next_ref a\<rparr>"
    "a' = a\<lparr>next_ref := Suc (next_ref a), flags := (flags a)(maintenance := True)\<rparr>"
    by (auto simp: try_acquire_def)
  have refs: "flag_refs a' = flag_refs a" by (simp add: flag_refs_def res(2))
  have rok: "refs_ok a" using ok by (simp add: admission_ok_def)
  have "refs_ok a'"
    by (rule set_flag_refs_ok [OF rok _ refs, of maintenance True]) (simp_all add: res(2))
  moreover have "active a' = 0"
    using idle(1) rok unfolding active_eq_0_iff refs
    by (auto simp: res(2) refs_ok_def maintenance_def)
  ultimately show ?thesis
    using ok idle by (simp add: admission_ok_def queues_ok_def exclusion_ok_def res waiting_total_def
        grants_def)
qed

lemma try_channel_spec:
  assumes ok: "admission_ok a" and r: "try_channel src ch tk a = (r, a')"
  shows "admission_ok a' \<and> waiting a' = waiting a \<and> capacity a' = capacity a \<and>
    (r \<noteq> None \<longleftrightarrow> may_admit src ch tk a) \<and>
    (case r of None \<Rightarrow> flags a' = flags a
     | Some p \<Rightarrow> grants a p a' \<and> (if src = Maintenance then permit_flag p = maintenance
         else permit_flag p \<noteq> maintenance \<and> hm_get (channels a') ch =
           Some \<lparr>busy = permit_flag p, source = src, cancellation = permit_cancellation p\<rparr>))"
proof -
  note sw = admission_ok_swept [OF ok]
  have cb: "channel_busy (swept a) ch = channel_busy a ch" using ok by simp
  note unf = r [unfolded try_channel_def, folded swept_def, unfolded Let_def swept_fields active_swept]
  show ?thesis
  proof (cases "flags a maintenance")
    case True
    then show ?thesis using unf sw by (auto simp: may_admit_def)
  next
    case nm: False
    show ?thesis
    proof (cases "src = Maintenance")
      case True
      show ?thesis
      proof (cases "active a \<noteq> 0 \<or> waiting a \<noteq> []")
        case True
        then show ?thesis using unf sw nm \<open>src = Maintenance\<close> by (auto simp: may_admit_def)
      next
        case False
        with unf nm \<open>src = Maintenance\<close>
        have "try_acquire maintenance (next_ref (swept a)) ((swept a)\<lparr>next_ref := Suc (next_ref (swept a))\<rparr>) = (r, a')"
          by (simp add: alloc_def)
        from maintenance_acquire [OF sw _ _ _ this] False nm \<open>src = Maintenance\<close>
        show ?thesis by (auto simp: may_admit_def grants_def)
      qed
    next
      case user: False
      show ?thesis
      proof (cases "may_admit src ch tk a \<or> (active a < capacity a \<and> (src = User \<or> waiting a = []) \<and>
          (case hm_get (waiting a) ch of None \<Rightarrow> True | Some w \<Rightarrow> src = User \<and> tk = front w))")
        case False
        then show ?thesis using unf sw nm user
          by (auto simp: may_admit_def split: if_splits option.splits)
      next
        case True
        then have room: "active (swept a) < capacity (swept a)" and idle: "\<not> flags (swept a) maintenance"
          and adm: "admit_slot src ch (swept a) = (r, a')"
          using unf nm user by (auto simp: may_admit_def split: if_splits option.splits)
        from admit_slot_spec [OF sw room idle adm] True nm user cb
        show ?thesis by (cases r) (auto simp: may_admit_def grants_def)
      qed
    qed
  qed
qed

section \<open>Queueing, cancelling and leaving\<close>

lemma preempt_channel_fields [simp]:
  "channels (preempt_channel ch a) = channels a" "waiting (preempt_channel ch a) = waiting a"
  "flags (preempt_channel ch a) = flags a" "next_ref (preempt_channel ch a) = next_ref a"
  "capacity (preempt_channel ch a) = capacity a"
  by (simp_all add: preempt_channel_def split: option.splits)

lemma preempt_any_fields [simp]:
  "channels (preempt_any a) = channels a" "waiting (preempt_any a) = waiting a"
  "flags (preempt_any a) = flags a" "next_ref (preempt_any a) = next_ref a"
  "capacity (preempt_any a) = capacity a"
  by (simp_all add: preempt_any_def split: option.splits)

definition queue_of :: "admission \<Rightarrow> uuid \<Rightarrow> ticket list" where
  "queue_of a ch = (case hm_get (waiting a) ch of None \<Rightarrow> [] | Some w \<Rightarrow> w)"

lemma total_insert:
  "sum_list (map (length \<circ> snd) (hm_insert ch w m)) + length (case hm_get m ch of None \<Rightarrow> [] | Some v \<Rightarrow> v) =
     sum_list (map (length \<circ> snd) m) + length w"
  by (induction m) auto

lemma total_remove_le:
  "sum_list (map (length \<circ> snd) (hm_remove ch m)) \<le> sum_list (map (length \<circ> snd) m)"
  by (induction m) auto

lemma ball_subset_subset: "A \<subseteq> B \<Longrightarrow> \<forall>x \<in> B. P x \<Longrightarrow> \<forall>x \<in> A. P x"
  by blast

lemma ran_insert: "snd ` set (hm_insert k v m) \<subseteq> insert v (snd ` set m)"
  by (induction m) auto

lemma ran_remove: "snd ` set (hm_remove k m) \<subseteq> snd ` set m"
  by (induction m) auto

lemma enqueue_spec:
  assumes ok: "admission_ok a" and e: "enqueue ch tk a = Inr a'"
  shows "admission_ok a' \<and> channels a' = channels a \<and> flags a' = flags a \<and> capacity a' = capacity a \<and>
    waiting a' = hm_insert ch (queue_of a ch @ [tk]) (waiting a) \<and> \<not> flags a maintenance"
proof -
  define a1 where "a1 = a\<lparr>waiting := hm_insert ch (queue_of a ch @ [tk]) (waiting a)\<rparr>"
  from e have nm: "\<not> flags a maintenance" and room: "waiting_total a < 64"
    and a': "a' = preempt_any (preempt_channel ch a1)"
    by (auto simp: enqueue_def a1_def queue_of_def Let_def split: if_splits)
  have "waiting_total a1 = Suc (waiting_total a)"
    using total_insert [of ch "queue_of a ch @ [tk]" "waiting a"]
    by (simp add: waiting_total_def a1_def queue_of_def)
  moreover have "\<forall>w \<in> snd ` set (waiting a1). w \<noteq> []"
    using ok ran_insert [of ch "queue_of a ch @ [tk]" "waiting a"]
    by (fastforce simp: a1_def admission_ok_def queues_ok_def)
  ultimately have q: "queues_ok a1"
    using ok room by (simp add: queues_ok_def a1_def admission_ok_def)
  have fr: "flag_refs a1 = flag_refs a" by (simp add: a1_def flag_refs_def)
  have "admission_ok a1"
    using ok q nm unfolding admission_ok_def refs_ok_def exclusion_ok_def active_by_refs fr
    by (simp add: a1_def)
  moreover have "admission_ok a' = admission_ok a1"
    unfolding a' by (rule admission_ok_cong) simp_all
  ultimately show ?thesis using nm by (simp add: a') (simp add: a1_def)
qed

lemma drop_queued_spec:
  assumes ok: "admission_ok a"
  shows "admission_ok (drop_queued ch tk a) \<and> channels (drop_queued ch tk a) = channels a \<and>
    flags (drop_queued ch tk a) = flags a \<and> capacity (drop_queued ch tk a) = capacity a \<and>
    queue_of (drop_queued ch tk a) c = (if c = ch then filter (\<lambda>t. t \<noteq> tk) (queue_of a c) else queue_of a c)"
proof (cases "hm_get (waiting a) ch")
  case None
  then show ?thesis using ok by (simp add: drop_queued_def queue_of_def)
next
  case (Some w)
  define w' where "w' = filter (\<lambda>t. t \<noteq> tk) w"
  define a1 where "a1 = a\<lparr>waiting := (if w' = [] then hm_remove ch (waiting a) else hm_insert ch w' (waiting a))\<rparr>"
  have a1: "drop_queued ch tk a = a1" using Some by (simp add: drop_queued_def a1_def w'_def Let_def)
  have "length w' \<le> length w" by (simp add: w'_def)
  then have "waiting_total a1 \<le> waiting_total a"
    using total_insert [of ch w' "waiting a"] total_remove_le [of ch "waiting a"] Some
    by (simp add: waiting_total_def a1_def)
  moreover have "\<forall>w \<in> snd ` set (waiting a1). w \<noteq> []"
  proof -
    have old: "\<forall>w \<in> snd ` set (waiting a). w \<noteq> []"
      using ok by (simp add: admission_ok_def queues_ok_def)
    show ?thesis
    proof (cases "w' = []")
      case True
      then have "waiting a1 = hm_remove ch (waiting a)" by (simp add: a1_def)
      then have "snd ` set (waiting a1) \<subseteq> snd ` set (waiting a)"
        using ran_remove [of ch "waiting a"] by (simp only:)
      then show ?thesis using old by (rule ball_subset_subset)
    next
      case False
      then have "waiting a1 = hm_insert ch w' (waiting a)" by (simp add: a1_def)
      then have "snd ` set (waiting a1) \<subseteq> insert w' (snd ` set (waiting a))"
        using ran_insert [of ch w' "waiting a"] by (simp only:)
      moreover have "\<forall>w \<in> insert w' (snd ` set (waiting a)). w \<noteq> []"
        using old False by simp
      ultimately show ?thesis by (rule ball_subset_subset)
    qed
  qed
  moreover have "hm_ok (waiting a1)"
    using ok by (simp add: a1_def admission_ok_def queues_ok_def)
  moreover have "waiting_total a \<le> 64" using ok by (simp add: admission_ok_def queues_ok_def)
  ultimately have q: "queues_ok a1" unfolding queues_ok_def by linarith
  have fr: "flag_refs a1 = flag_refs a" by (simp add: a1_def flag_refs_def)
  have ne: "waiting a \<noteq> []" using Some by auto
  have "refs_ok a1 = refs_ok a" unfolding refs_ok_def fr by (simp add: a1_def)
  moreover have "active a1 = active a" unfolding active_by_refs fr by (simp add: a1_def)
  ultimately have "admission_ok a1"
    using ok q ne by (simp add: admission_ok_def exclusion_ok_def) (simp add: a1_def)
  then show ?thesis using Some
    by (auto simp: a1 queue_of_def) (auto simp: a1_def w'_def hm_get_insert hm_get_remove)
qed

lemma drop_permit_spec:
  assumes ok: "admission_ok a"
  shows "admission_ok (drop_permit p a) \<and> channels (drop_permit p a) = channels a \<and>
    waiting (drop_permit p a) = waiting a \<and> capacity (drop_permit p a) = capacity a \<and>
    flags (drop_permit p a) = (flags a)(permit_flag p := False)"
proof -
  let ?a = "drop_permit p a"
  have fr: "flag_refs ?a = flag_refs a" by (simp add: drop_permit_def release_flag_def flag_refs_def)
  have fl: "flags ?a = (flags a)(permit_flag p := False)"
    by (simp add: drop_permit_def release_flag_def)
  have rok: "refs_ok a" using ok by (simp add: admission_ok_def)
  have "length (filter (flags ?a) (flag_refs a)) \<le> length (filter (flags a) (flag_refs a))"
    by (rule length_filter_mono) (simp add: fl split: if_splits)
  then have le: "active ?a \<le> active a" by (simp add: active_by_refs fr)
  have "refs_ok ?a"
    using rok unfolding refs_ok_def fr fl
    by (auto simp: drop_permit_def release_flag_def split: if_splits)
  with ok le have "admission_ok ?a"
    by (auto simp: admission_ok_def queues_ok_def exclusion_ok_def fl drop_permit_def release_flag_def
        waiting_total_def)
  then show ?thesis by (simp add: fl) (simp add: drop_permit_def release_flag_def)
qed

section \<open>The system: permits and tickets that callers hold\<close>

record sys =
  adm :: admission
  permits :: "turn_permit list"
  taken :: "(uuid \<times> ticket) list"
  queued :: "(uuid \<times> ticket) list"
  leaving :: "(uuid \<times> ticket) list"

definition turn_init :: "nat \<Rightarrow> sys \<Rightarrow> bool" where
  "turn_init c s \<longleftrightarrow> s = \<lparr>adm = with_capacity c, permits = [], taken = [], queued = [], leaving = []\<rparr>"

definition give :: "turn_permit option \<Rightarrow> turn_permit list \<Rightarrow> turn_permit list" where
  "give r ps = (case r of None \<Rightarrow> ps | Some p \<Rightarrow> p # ps)"

text \<open>
  One step per critical section. \<open>poll\<close> is one turn of the loop in \<open>QueuedTurn::admit\<close>;
  when it returns a permit the \<open>QueuedTurn\<close> is about to be dropped (\<open>leaving\<close>). A
  \<open>QueuedTurn\<close> whose caller gives up is dropped from \<open>queued\<close>.
\<close>

inductive turn_step :: "sys \<Rightarrow> sys \<Rightarrow> bool" where
  attempt: "try_channel src ch None (adm s) = (r, a) \<Longrightarrow>
     turn_step s (s\<lparr>adm := a, permits := give r (permits s)\<rparr>)"
| take: "take_ticket (adm s) = (t, a) \<Longrightarrow> turn_step s (s\<lparr>adm := a, taken := (ch, t) # taken s\<rparr>)"
| queue: "(ch, t) \<in> set (taken s) \<Longrightarrow> enqueue ch t (adm s) = Inr a \<Longrightarrow>
     turn_step s (s\<lparr>adm := a, taken := remove1 (ch, t) (taken s), queued := (ch, t) # queued s\<rparr>)"
| refuse: "(ch, t) \<in> set (taken s) \<Longrightarrow> enqueue ch t (adm s) = Inl e \<Longrightarrow>
     turn_step s (s\<lparr>taken := remove1 (ch, t) (taken s)\<rparr>)"
| poll_wait: "(ch, t) \<in> set (queued s) \<Longrightarrow> try_channel User ch (Some t) (adm s) = (None, a) \<Longrightarrow>
     turn_step s (s\<lparr>adm := a\<rparr>)"
| poll_admit: "(ch, t) \<in> set (queued s) \<Longrightarrow> try_channel User ch (Some t) (adm s) = (Some p, a) \<Longrightarrow>
     turn_step s (s\<lparr>adm := a, permits := p # permits s, queued := remove1 (ch, t) (queued s),
       leaving := (ch, t) # leaving s\<rparr>)"
| leave: "(ch, t) \<in> set (leaving s) \<Longrightarrow>
     turn_step s (s\<lparr>adm := drop_queued ch t (adm s), leaving := remove1 (ch, t) (leaving s)\<rparr>)"
| abandon: "(ch, t) \<in> set (queued s) \<Longrightarrow>
     turn_step s (s\<lparr>adm := drop_queued ch t (adm s), queued := remove1 (ch, t) (queued s)\<rparr>)"
| finish: "p \<in> set (permits s) \<Longrightarrow>
     turn_step s (s\<lparr>adm := drop_permit p (adm s), permits := remove1 p (permits s)\<rparr>)"

inductive_simps turn_step_iff: "turn_step s t"

definition held_flags :: "sys \<Rightarrow> flag_ref list" where
  "held_flags s = map permit_flag (permits s)"

definition live_tickets :: "sys \<Rightarrow> (uuid \<times> ticket) set" where
  "live_tickets s = set (queued s) \<union> set (leaving s)"

text \<open>The invariant of the system: the admission state is well formed, the flags that are set are
  exactly those of the live permits, each held once, and every waiting ticket belongs to a live
  \<open>QueuedTurn\<close>.\<close>

definition sys_ok :: "nat \<Rightarrow> sys \<Rightarrow> bool" where
  "sys_ok c s \<longleftrightarrow> admission_ok (adm s) \<and> capacity (adm s) = c \<and> distinct (held_flags s) \<and>
     (\<forall>f. flags (adm s) f \<longleftrightarrow> f \<in> set (held_flags s)) \<and>
     (\<forall>ch. \<forall>t \<in> set (queue_of (adm s) ch). (ch, t) \<in> live_tickets s)"

lemma sys_ok_init: "turn_init c s \<Longrightarrow> sys_ok c s"
  using admission_ok_init [of c]
  by (simp add: turn_init_def sys_ok_def held_flags_def queue_of_def)

lemma queue_of_cong: "waiting a' = waiting a \<Longrightarrow> queue_of a' ch = queue_of a ch"
  by (simp add: queue_of_def)

lemma flags_after_grant:
  assumes "distinct (map permit_flag ps)" "\<forall>f. flags a f \<longleftrightarrow> f \<in> set (map permit_flag ps)" "grants a p a'"
  shows "distinct (map permit_flag (p # ps)) \<and> (\<forall>f. flags a' f \<longleftrightarrow> f \<in> set (map permit_flag (p # ps)))"
  using assms unfolding grants_def by (metis (no_types, lifting) distinct.simps(2) fun_upd_apply list.set_intros(1)
      list.simps(9) set_ConsD list.set_intros(2))

lemma distinct_map_remove1: "distinct (map f xs) \<Longrightarrow> distinct (map f (remove1 x xs))"
  proof (induction xs)
  case (Cons y ys)
  have "f ` set (remove1 x ys) \<subseteq> f ` set ys" by (intro image_mono set_remove1_subset)
  with Cons show ?case by auto
qed simp

lemma flags_after_drop:
  assumes "distinct (map permit_flag ps)" "\<forall>f. fs f \<longleftrightarrow> f \<in> set (map permit_flag ps)" "p \<in> set ps"
  shows "distinct (map permit_flag (remove1 p ps)) \<and>
    (\<forall>f. (fs(permit_flag p := False)) f \<longleftrightarrow> f \<in> set (map permit_flag (remove1 p ps)))"
proof -
  have d: "distinct ps" using assms(1) by (simp add: distinct_map)
  have "inj_on permit_flag (set ps)" using assms(1) by (simp add: distinct_map)
  then have "permit_flag ` (set ps - {p}) = permit_flag ` set ps - {permit_flag p}"
    using assms(3) by (auto simp: inj_on_def)
  then have "set (map permit_flag (remove1 p ps)) = set (map permit_flag ps) - {permit_flag p}"
    using d by simp
  moreover have "distinct (map permit_flag (remove1 p ps))"
    using assms(1) by (rule distinct_map_remove1)
  ultimately show ?thesis using assms(2) by auto
qed

lemma queue_after_enqueue:
  "waiting a' = hm_insert ch (queue_of a ch @ [t]) (waiting a) \<Longrightarrow>
   queue_of a' c = (if c = ch then queue_of a ch @ [t] else queue_of a c)"
  by (simp add: queue_of_def hm_get_insert)

lemma sys_ok_grant:
  assumes ok: "sys_ok c s" and r: "try_channel src ch tk (adm s) = (r, a)"
    and t: "live_tickets t = live_tickets s" "adm t = a" "permits t = give r (permits s)"
  shows "sys_ok c t"
proof -
  from ok have a: "admission_ok (adm s)" by (simp add: sys_ok_def)
  note spec = try_channel_spec [OF a r]
  have q: "queue_of a ch = queue_of (adm s) ch" for ch using spec by (auto intro: queue_of_cong)
  show ?thesis
  proof (cases r)
    case None
    then show ?thesis using ok spec q t by (simp add: sys_ok_def held_flags_def give_def)
  next
    case (Some p)
    with spec have g: "grants (adm s) p a" by simp
    have "distinct (map permit_flag (p # permits s)) \<and>
        (\<forall>f. flags a f \<longleftrightarrow> f \<in> set (map permit_flag (p # permits s)))"
      by (rule flags_after_grant [OF _ _ g]) (use ok in \<open>simp_all add: sys_ok_def held_flags_def\<close>)
    then show ?thesis using ok spec q t Some
      unfolding sys_ok_def held_flags_def by (simp add: give_def)
  qed
qed

lemma sys_ok_drop_queued:
  assumes ok: "sys_ok c s" and t: "adm t = drop_queued ch tk (adm s)" "permits t = permits s"
    and live: "live_tickets s \<subseteq> insert (ch, tk) (live_tickets t)"
  shows "sys_ok c t"
proof -
  from ok have a: "admission_ok (adm s)" by (simp add: sys_ok_def)
  note spec = drop_queued_spec [OF a, of ch tk]
  have "\<forall>ch'. \<forall>x \<in> set (queue_of (adm t) ch'). (ch', x) \<in> live_tickets t"
  proof (intro allI ballI)
    fix ch' x assume "x \<in> set (queue_of (adm t) ch')"
    then have x: "x \<in> set (queue_of (adm s) ch')" and ne: "(ch', x) \<noteq> (ch, tk)"
      using spec t(1) by (auto split: if_splits)
    from ok x have "(ch', x) \<in> live_tickets s" by (simp add: sys_ok_def)
    with live ne show "(ch', x) \<in> live_tickets t" by blast
  qed
  then show ?thesis using ok spec t by (simp add: sys_ok_def held_flags_def)
qed

lemma remove1_live: "set xs \<subseteq> insert x (set (remove1 x xs))"
  by (induction xs) auto

lemma sys_ok_step: "sys_ok c s \<Longrightarrow> turn_step s t \<Longrightarrow> sys_ok c t"
proof (erule turn_step.cases)
  fix src ch s' r a
  assume st: "sys_ok c s" "s = s'" "t = s'\<lparr>adm := a, permits := give r (permits s')\<rparr>"
    "try_channel src ch None (adm s') = (r, a)"
  then show "sys_ok c t"
    by (intro sys_ok_grant [of c s src ch None r a t]) (simp_all add: live_tickets_def)
next
  fix s' tk a ch
  assume ok: "sys_ok c s" and st: "s = s'" "t = s'\<lparr>adm := a, taken := (ch, tk) # taken s'\<rparr>"
    and "take_ticket (adm s') = (tk, a)"
  then have a: "a = (adm s)\<lparr>next_ticket := wrap64 (next_ticket (adm s) + 1)\<rparr>"
    by (auto simp: take_ticket_def)
  have "admission_ok a = admission_ok (adm s)" unfolding a by (rule admission_ok_cong) simp_all
  with ok st show "sys_ok c t"
    by (simp add: sys_ok_def held_flags_def live_tickets_def queue_of_def a)
next
  fix ch tk s' a
  assume ok: "sys_ok c s" and st: "s = s'"
    "t = s'\<lparr>adm := a, taken := remove1 (ch, tk) (taken s'), queued := (ch, tk) # queued s'\<rparr>"
    and e: "enqueue ch tk (adm s') = Inr a"
  from ok st have ok': "admission_ok (adm s')" by (simp add: sys_ok_def)
  note spec = enqueue_spec [OF ok' e]
  then have "queue_of a x = (if x = ch then queue_of (adm s') ch @ [tk] else queue_of (adm s') x)" for x
    by (intro queue_after_enqueue) simp
  with ok st spec show "sys_ok c t"
    by (simp add: sys_ok_def held_flags_def live_tickets_def)
next
  fix ch tk s' e
  assume "sys_ok c s" "s = s'" "t = s'\<lparr>taken := remove1 (ch, tk) (taken s')\<rparr>"
  then show "sys_ok c t" by (simp add: sys_ok_def held_flags_def live_tickets_def)
next
  fix ch tk s' a
  assume "sys_ok c s" "s = s'" "t = s'\<lparr>adm := a\<rparr>" "try_channel User ch (Some tk) (adm s') = (None, a)"
  then show "sys_ok c t"
    by (intro sys_ok_grant [of c s User ch "Some tk" None a t]) (simp_all add: live_tickets_def give_def)
next
  fix ch tk s' p a
  assume st: "sys_ok c s" "s = s'" "(ch, tk) \<in> set (queued s')"
    "t = s'\<lparr>adm := a, permits := p # permits s', queued := remove1 (ch, tk) (queued s'),
       leaving := (ch, tk) # leaving s'\<rparr>"
    and r: "try_channel User ch (Some tk) (adm s') = (Some p, a)"
  have "live_tickets t = live_tickets s"
    using st remove1_live [of "queued s'" "(ch, tk)"] set_remove1_subset [of "(ch, tk)" "queued s'"]
    by (simp add: live_tickets_def) blast
  with st r show "sys_ok c t"
    by (intro sys_ok_grant [of c s User ch "Some tk" "Some p" a t]) (simp_all add: give_def)
next
  fix ch tk s'
  assume st: "sys_ok c s" "s = s'"
    "t = s'\<lparr>adm := drop_queued ch tk (adm s'), leaving := remove1 (ch, tk) (leaving s')\<rparr>"
  have "live_tickets s \<subseteq> insert (ch, tk) (live_tickets t)"
    using remove1_live [of "leaving s'" "(ch, tk)"] by (simp add: live_tickets_def st(2,3)) blast
  with st show "sys_ok c t" by (intro sys_ok_drop_queued [of c s t ch tk]) simp_all
next
  fix ch tk s'
  assume st: "sys_ok c s" "s = s'"
    "t = s'\<lparr>adm := drop_queued ch tk (adm s'), queued := remove1 (ch, tk) (queued s')\<rparr>"
  have "live_tickets s \<subseteq> insert (ch, tk) (live_tickets t)"
    using remove1_live [of "queued s'" "(ch, tk)"] by (simp add: live_tickets_def st(2,3)) blast
  with st show "sys_ok c t" by (intro sys_ok_drop_queued [of c s t ch tk]) simp_all
next
  fix p s'
  assume ok: "sys_ok c s" and st: "s = s'"
    "t = s'\<lparr>adm := drop_permit p (adm s'), permits := remove1 p (permits s')\<rparr>" and p: "p \<in> set (permits s')"
  from ok st have a: "admission_ok (adm s')" by (simp add: sys_ok_def)
  note spec = drop_permit_spec [OF a, of p]
  have "distinct (map permit_flag (remove1 p (permits s'))) \<and>
    (\<forall>f. ((flags (adm s'))(permit_flag p := False)) f \<longleftrightarrow> f \<in> set (map permit_flag (remove1 p (permits s'))))"
    by (rule flags_after_drop [OF _ _ p]) (use ok st in \<open>simp_all add: sys_ok_def held_flags_def\<close>)
  moreover have "queue_of (drop_permit p (adm s')) ch = queue_of (adm s') ch" for ch
    using spec by (auto intro: queue_of_cong)
  ultimately show "sys_ok c t" using ok st spec
    unfolding sys_ok_def held_flags_def live_tickets_def by simp
qed

interpretation turn_system: step_system "turn_init c" turn_step "sys_ok c" for c
  by unfold_locales (auto intro: sys_ok_init sys_ok_step)

section \<open>Properties\<close>

definition channel_flag :: "admission \<Rightarrow> uuid \<Rightarrow> flag_ref option" where
  "channel_flag a ch = map_option busy (hm_get (channels a) ch)"

lemma channel_of_flag:
  assumes "hm_ok m" "distinct (map (busy \<circ> snd) m)" "f \<in> set (map (busy \<circ> snd) m)"
  shows "\<exists>!ch. map_option busy (hm_get m ch) = Some f"
proof -
  from assms(3) obtain ch v where kv: "(ch, v) \<in> set m" and f: "f = busy v" by auto
  have "map_option busy (hm_get m ch) = Some f" using kv f assms(1) by simp
  moreover have "ch' = ch" if "map_option busy (hm_get m ch') = Some f" for ch'
  proof -
    from that obtain v' where v': "hm_get m ch' = Some v'" and b: "busy v' = busy v"
      using f by auto
    then have "(ch', v') \<in> set m" by (simp add: map_of_SomeD)
    moreover have "inj_on (busy \<circ> snd) (set m)" using assms(2) by (simp add: distinct_map)
    ultimately show ?thesis using kv b by (force simp: inj_on_def)
  qed
  ultimately show ?thesis by blast
qed

lemma length_held:
  assumes "refs_ok a" "distinct fs" "\<forall>f. flags a f \<longleftrightarrow> f \<in> set fs"
  shows "length (filter (\<lambda>f. f \<noteq> maintenance) fs) = active a"
proof -
  have "set (filter (\<lambda>f. f \<noteq> maintenance) fs) = set (filter (flags a) (flag_refs a))"
  proof (rule set_eqI)
    fix f
    have "f \<in> set (flag_refs a)" if "flags a f" "f \<noteq> maintenance"
      using assms(1) that unfolding refs_ok_def by blast
    moreover have "f \<noteq> maintenance" if "f \<in> set (flag_refs a)"
      using assms(1) that unfolding refs_ok_def maintenance_def by auto
    ultimately show "f \<in> set (filter (\<lambda>f. f \<noteq> maintenance) fs) \<longleftrightarrow>
        f \<in> set (filter (flags a) (flag_refs a))"
      using assms(3) by auto
  qed
  moreover have "distinct (filter (\<lambda>f. f \<noteq> maintenance) fs)" using assms(2) by simp
  moreover have "distinct (filter (flags a) (flag_refs a))" using assms(1) by (simp add: refs_ok_def)
  ultimately show ?thesis
    unfolding active_by_refs by (metis distinct_card)
qed

lemma sys_ok_exclusive:
  assumes ok: "sys_ok c s"
  shows "length (filter (\<lambda>f. f \<noteq> maintenance) (held_flags s)) \<le> c"
    and "p \<in> set (permits s) \<Longrightarrow> permit_flag p \<noteq> maintenance \<Longrightarrow>
      \<exists>!ch. channel_flag (adm s) ch = Some (permit_flag p)"
    and "p \<in> set (permits s) \<Longrightarrow> permit_flag p = maintenance \<Longrightarrow>
      permits s = [p] \<and> waiting (adm s) = []"
proof -
  let ?a = "adm s"
  from ok have rok: "refs_ok ?a" and ex: "exclusion_ok ?a" and c: "capacity ?a = c"
    and d: "distinct (held_flags s)" and fl: "\<forall>f. flags ?a f \<longleftrightarrow> f \<in> set (held_flags s)"
    by (simp_all add: sys_ok_def admission_ok_def)
  note len = length_held [OF rok d fl]
  show "length (filter (\<lambda>f. f \<noteq> maintenance) (held_flags s)) \<le> c"
    using len ex c by (simp add: exclusion_ok_def)
  show "\<exists>!ch. channel_flag ?a ch = Some (permit_flag p)"
    if "p \<in> set (permits s)" "permit_flag p \<noteq> maintenance"
  proof -
    have "flags ?a (permit_flag p)" using fl that by (simp add: held_flags_def)
    then have "permit_flag p \<in> set (flag_refs ?a)" using rok that(2) unfolding refs_ok_def by blast
    then show ?thesis using rok channel_of_flag [of "channels ?a" "permit_flag p"]
      by (simp add: channel_flag_def refs_ok_def flag_refs_def)
  qed
  show "permits s = [p] \<and> waiting ?a = []"
    if p: "p \<in> set (permits s)" "permit_flag p = maintenance"
  proof -
    have "permit_flag p \<in> set (held_flags s)" using p(1) by (simp add: held_flags_def)
    then have "flags ?a maintenance" using fl p(2) by metis
    then have idle: "active ?a = 0" "waiting ?a = []" using ex by (simp_all add: exclusion_ok_def)
    then have all: "\<forall>q \<in> set (permits s). permit_flag q = maintenance"
      using len by (simp add: held_flags_def filter_empty_conv)
    have "permits s = [p]"
    proof (cases "permits s")
      case (Cons q qs)
      have "qs = []"
      proof (cases qs)
        case (Cons r rs)
        with \<open>permits s = q # qs\<close> have "permit_flag q \<noteq> permit_flag r"
          and "q \<in> set (permits s)" "r \<in> set (permits s)"
          using d by (simp_all add: held_flags_def)
        with all show ?thesis by metis
      qed
      with Cons p show ?thesis by simp
    qed (use p in simp)
    with idle show ?thesis by simp
  qed
qed

text \<open>C1: In every reachable state of the admission system, whatever the interleaving of admission
  attempts, queueing, polling, abandoning and finishing: no two live permits share a busy flag,
  at most \<open>capacity\<close> conversation turns run at once, every conversation permit holds exactly one
  channel (so no channel has two turns), and while maintenance runs it is the only permit and
  nobody waits.\<close>

theorem turns_are_exclusive:
  assumes "reach (turn_init c) turn_step s"
  shows "distinct (held_flags s) \<and>
    length (filter (\<lambda>f. f \<noteq> maintenance) (held_flags s)) \<le> c \<and>
    (\<forall>p \<in> set (permits s).
       if permit_flag p = maintenance then permits s = [p] \<and> waiting (adm s) = []
       else (\<exists>!ch. channel_flag (adm s) ch = Some (permit_flag p)))"
proof -
  have ok: "sys_ok c s" using assms by (rule turn_system.reachable_inv)
  show ?thesis
    using ok sys_ok_exclusive [OF ok] by (simp add: sys_ok_def)
qed

text \<open>A request is granted exactly when it may be: maintenance waits for every turn and every
  waiting message, automation waits for every waiting message, a message waits for its turn in
  its own channel's queue (only the front ticket is admitted) and for a free place; and a
  grant sets exactly one flag that was clear.\<close>

theorem admission_decision:
  assumes "admission_ok a" and "try_channel src ch tk a = (r, a')"
  shows "(r \<noteq> None \<longleftrightarrow> may_admit src ch tk a) \<and> admission_ok a' \<and> waiting a' = waiting a \<and>
    (case r of None \<Rightarrow> flags a' = flags a | Some p \<Rightarrow> grants a p a')"
  using try_channel_spec [OF assms] by (auto split: option.splits)

text \<open>No ghost tickets: every ticket that waits in a channel's queue belongs to a queued turn
  that is still alive, so a queue cannot stay blocked behind a caller that is gone.\<close>

theorem waiting_tickets_are_live:
  assumes "reach (turn_init c) turn_step s"
  shows "(\<forall>t \<in> set (queue_of (adm s) ch). (ch, t) \<in> live_tickets s) \<and>
    (live_tickets s = {} \<longrightarrow> waiting (adm s) = []) \<and> waiting_total (adm s) \<le> 64"
proof -
  have ok: "sys_ok c s" using assms by (rule turn_system.reachable_inv)
  have "waiting (adm s) = []" if e: "live_tickets s = {}"
  proof (cases "waiting (adm s)")
    case (Cons kw rest)
    obtain k w where kw: "kw = (k, w)" by fastforce
    have "w \<noteq> []" using ok Cons kw by (auto simp: sys_ok_def admission_ok_def queues_ok_def)
    moreover have "queue_of (adm s) k = w" by (simp add: queue_of_def Cons kw)
    ultimately obtain t where "t \<in> set (queue_of (adm s) k)" by (cases w) auto
    then have "(k, t) \<in> live_tickets s" using ok by (simp add: sys_ok_def)
    with e show ?thesis by simp
  qed
  then show ?thesis using ok by (simp add: sys_ok_def admission_ok_def queues_ok_def)
qed

definition idle_sys :: "nat \<Rightarrow> sys" where
  "idle_sys c = \<lparr>adm = with_capacity c, permits = [], taken = [], queued = [], leaving = []\<rparr>"

lemma one_turn_reachable:
  "\<exists>s p. reach (turn_init 1) turn_step s \<and> permits s = [p] \<and> permit_flag p \<noteq> maintenance"
proof -
  obtain r a where ra: "try_channel User 7 None (with_capacity 1) = (r, a)" by fastforce
  have "may_admit User 7 None (with_capacity 1)"
    by (simp add: may_admit_def active_def channel_busy_def)
  with try_channel_spec [OF admission_ok_init ra] obtain p where p: "r = Some p" "permit_flag p \<noteq> maintenance"
    by (auto split: option.splits)
  define s where "s = (idle_sys 1)\<lparr>adm := a, permits := [p]\<rparr>"
  have "turn_step (idle_sys 1) s"
    using turn_step.attempt [of User 7 "idle_sys 1" r a] ra p
    by (simp add: idle_sys_def s_def give_def)
  then have "reach (turn_init 1) turn_step s"
    by (intro reach_step [OF reach_init]) (simp_all add: turn_init_def idle_sys_def)
  then show ?thesis using p by (intro exI [of _ s] exI [of _ p]) (simp add: s_def)
qed

theorem turns_are_exclusive_witness:
  "\<exists>s p. reach (turn_init 1) turn_step s \<and> p \<in> set (permits s) \<and>
     (\<exists>!ch. channel_flag (adm s) ch = Some (permit_flag p))"
proof -
  obtain s p where s: "reach (turn_init 1) turn_step s" "permits s = [p]" "permit_flag p \<noteq> maintenance"
    using one_turn_reachable by blast
  with turns_are_exclusive [OF s(1)] have "\<exists>!ch. channel_flag (adm s) ch = Some (permit_flag p)"
    by simp
  with s(1,2) show ?thesis by (intro exI [of _ s] exI [of _ p]) simp
qed

theorem admission_decision_witness:
  "fst (try_channel User 7 None (with_capacity 1)) \<noteq> None \<and>
   fst (try_channel User 7 None (with_capacity 0)) = None"
proof -
  have "may_admit User 7 None (with_capacity 1)" "\<not> may_admit User 7 None (with_capacity 0)"
    by (simp_all add: may_admit_def active_def channel_busy_def)
  then show ?thesis
    using admission_decision [OF admission_ok_init surjective_pairing, of User 7 None 1]
      admission_decision [OF admission_ok_init surjective_pairing, of User 7 None 0] by blast
qed

theorem waiting_tickets_are_live_witness:
  "reach (turn_init 1) turn_step (idle_sys 1) \<and> waiting (adm (idle_sys 1)) = []"
proof -
  have r: "reach (turn_init 1) turn_step (idle_sys 1)"
    by (rule reach_init) (simp add: turn_init_def idle_sys_def)
  moreover have "live_tickets (idle_sys 1) = {}" by (simp add: live_tickets_def idle_sys_def)
  ultimately show ?thesis using waiting_tickets_are_live [OF r] by blast
qed

lemma cancelled_preempt_channel:
  "cancelled (preempt_channel ch a) t \<longleftrightarrow> cancelled a t \<or>
     (\<exists>slot. hm_get (channels a) ch = Some slot \<and> source slot \<noteq> User \<and> cancellation slot = t)"
  by (auto simp: preempt_channel_def split: option.splits)

lemma cancelled_preempt_any:
  "cancelled (preempt_any a) t \<Longrightarrow> cancelled a t \<or>
     (\<exists>slot \<in> slots a. source slot \<noteq> User \<and> cancellation slot = t)"
  by (auto simp: preempt_any_def preemptible_def slots_def find_Some_iff in_set_conv_nth
      split: if_splits option.splits) (metis nth_mem length_map list.set_map)

lemma preempt_any_frees:
  assumes "capacity a \<le> active a" "slot \<in> slots a" "source slot \<noteq> User"
  shows "\<exists>slot \<in> slots a. source slot \<noteq> User \<and> cancelled (preempt_any a) (cancellation slot)"
proof (cases "find (preemptible a) (map snd (channels a))")
  case None
  then have "\<not> preemptible a slot" using assms(2) by (auto simp: find_None_iff slots_def)
  then show ?thesis using assms None by (auto simp: preempt_any_def preemptible_def)
next
  case (Some v)
  then have "v \<in> slots a" "preemptible a v"
    by (auto simp: find_Some_iff slots_def)
  then show ?thesis using assms(1) Some by (auto simp: preempt_any_def preemptible_def)
qed

text \<open>Queueing a message cancels the automated turn of its own channel; when every place is taken
  and some automated turn runs, one automated turn is cancelled; and only automated turns are ever
  cancelled by it.\<close>

theorem queued_message_preempts_automation:
  assumes "enqueue ch tk a = Inr a'"
  shows "(\<forall>slot. hm_get (channels a) ch = Some slot \<longrightarrow> source slot \<noteq> User \<longrightarrow>
      cancelled a' (cancellation slot)) \<and>
    (capacity a \<le> active a \<longrightarrow> (\<exists>slot \<in> slots a. source slot \<noteq> User) \<longrightarrow>
      (\<exists>slot \<in> slots a. source slot \<noteq> User \<and> cancelled a' (cancellation slot))) \<and>
    (\<forall>t. cancelled a' t \<longrightarrow> cancelled a t \<or>
      (\<exists>slot \<in> slots a. source slot \<noteq> User \<and> cancellation slot = t))"
proof -
  define a1 where "a1 = a\<lparr>waiting := hm_insert ch (queue_of a ch @ [tk]) (waiting a)\<rparr>"
  define a2 where "a2 = preempt_channel ch a1"
  from assms have a': "a' = preempt_any a2"
    by (auto simp: enqueue_def a1_def a2_def queue_of_def Let_def split: if_splits)
  have f: "channels a2 = channels a" "capacity a2 = capacity a" "flags a2 = flags a"
    by (simp_all add: a2_def a1_def)
  then have act: "active a2 = active a" by (simp add: active_by_refs flag_refs_def)
  have sl: "slots a2 = slots a" by (simp add: slots_def f)
  have c2: "cancelled a2 t \<longleftrightarrow> cancelled a t \<or>
     (\<exists>slot. hm_get (channels a) ch = Some slot \<and> source slot \<noteq> User \<and> cancellation slot = t)" for t
    by (simp add: a2_def cancelled_preempt_channel) (simp add: a1_def)
  have mono: "cancelled a2 t \<Longrightarrow> cancelled a' t" for t
    unfolding a' preempt_any_def by (auto split: option.splits)
  have own: "slot \<in> slots a" if "hm_get (channels a) ch = Some slot" for slot
    using map_of_SomeD [OF that] by (force simp: slots_def)
  show ?thesis
  proof (intro conjI allI impI)
    show "cancelled a' (cancellation slot)"
      if "hm_get (channels a) ch = Some slot" "source slot \<noteq> User" for slot
      by (rule mono) (use that c2 in blast)
    show "\<exists>slot \<in> slots a. source slot \<noteq> User \<and> cancelled a' (cancellation slot)"
      if "capacity a \<le> active a" "\<exists>slot \<in> slots a. source slot \<noteq> User"
      using that preempt_any_frees [of a2] f act sl a' by auto
    show "cancelled a t \<or> (\<exists>slot \<in> slots a. source slot \<noteq> User \<and> cancellation slot = t)"
      if "cancelled a' t" for t
      using cancelled_preempt_any [of a2 t] that c2 [of t] own a' sl by auto
  qed
qed

definition busy_example :: admission where
  "busy_example = (with_capacity 1)\<lparr>channels := [(7, \<lparr>busy = 1, source = Checkin, cancellation = 2\<rparr>)],
     flags := (\<lambda>f. f = 1), next_ref := 3\<rparr>"

theorem queued_message_preempts_automation_witness:
  "\<exists>a'. enqueue 7 1 busy_example = Inr a' \<and> cancelled a' 2 \<and> \<not> cancelled busy_example 2"
proof -
  have w: "waiting busy_example = []" "\<not> flags busy_example maintenance"
    by (simp_all add: busy_example_def maintenance_def)
  then obtain a' where a': "enqueue 7 1 busy_example = Inr a'"
    by (simp add: enqueue_def waiting_total_def Let_def)
  have "hm_get (channels busy_example) 7 = Some \<lparr>busy = 1, source = Checkin, cancellation = 2\<rparr>"
    by (simp add: busy_example_def)
  with queued_message_preempts_automation [OF a'] have "cancelled a' 2" by fastforce
  with a' show ?thesis by (simp add: busy_example_def with_capacity_def)
qed

end
