(* ===== verification/Event_Queue.thy ===== *)
theory Event_Queue
  imports BoBe_Text
begin

text \<open>
  The stream of server-sent events: \<open>src/BoBeService/src/util/sse/event_queue.rs\<close>, the event
  types of \<open>types.rs\<close>, the constructors of \<open>factories.rs\<close> and the guard of
  \<open>indicator_guard.rs\<close> in the same directory.

  \<open>push\<close> holds the history lock while it numbers, stores and broadcasts the event, so it
  is one atomic operation; what \<open>sender.send\<close> is given is the value \<open>push\<close> returns next to
  the queue. The broadcast channel itself belongs to tokio: a subscription's \<open>recv\<close> takes the
  outcomes of \<open>receiver.recv()\<close> as a list, an event or an error each, and waits when the
  list is used up. \<open>begin_indicator\<close> and \<open>finish_indicator\<close> hold the indicator lock around
  their push, and \<open>subscribe_in_channel\<close> holds both locks. \<open>Uuid::new_v4()\<close> is an
  argument; \<open>parse\<close> is \<open>Uuid::parse_str\<close>.
\<close>

section \<open>Events\<close>

datatype event_audience = Owner

datatype event_type = Indicator | TextDelta | ToolCallStart | ToolCallComplete | Error
  | ConversationClosed | ConversationChanged | SnapshotRequired | BodyRequest

datatype indicator_type = Idle | Thinking | Streaming

record stream_bundle =
  channel_id :: "uuid option"
  event_id :: "nat option"
  runtime_incarnation_id :: "uuid option"
  audience :: "event_audience option"
  run_id :: "uuid option"
  turn_id :: "uuid option"
  event_type :: event_type
  message_id :: rtext
  payload :: json

definition bundle_now :: "event_type \<Rightarrow> rtext \<Rightarrow> json \<Rightarrow> stream_bundle" where
  "bundle_now ty msg pl = \<lparr>channel_id = None, event_id = None, runtime_incarnation_id = None,
     audience = None, run_id = None, turn_id = None, event_type = ty, message_id = msg, payload = pl\<rparr>"

definition indicator_name :: "indicator_type \<Rightarrow> string" where
  "indicator_name i = (case i of Idle \<Rightarrow> ''IDLE'' | Thinking \<Rightarrow> ''THINKING'' | Streaming \<Rightarrow> ''STREAMING'')"

definition json_opt :: "nat option \<Rightarrow> json" where
  "json_opt v = (case v of None \<Rightarrow> JNull | Some n \<Rightarrow> JNum (int n))"

definition indicator_event :: "indicator_type \<Rightarrow> stream_bundle" where
  "indicator_event i = bundle_now Indicator [] (JObj [(''indicator'', JStr (lit (indicator_name i)))])"

definition text_delta_event :: "rtext \<Rightarrow> rtext \<Rightarrow> bool \<Rightarrow> stream_bundle" where
  "text_delta_event msg delta is_done =
     bundle_now TextDelta msg (JObj [(''delta'', JStr delta), (''done'', JBool is_done)])"

definition error_event :: "rtext \<Rightarrow> rtext \<Rightarrow> rtext \<Rightarrow> bool \<Rightarrow> stream_bundle" where
  "error_event msg code text recoverable = bundle_now Error msg
     (JObj [(''code'', JStr code), (''message'', JStr text), (''recoverable'', JBool recoverable)])"

definition trigger_error_event :: "rtext \<Rightarrow> rtext \<Rightarrow> rtext \<Rightarrow> bool \<Rightarrow> stream_bundle" where
  "trigger_error_event new_id trigger text recoverable = bundle_now Error new_id
     (JObj [(''trigger'', JStr trigger), (''message'', JStr text), (''recoverable'', JBool recoverable)])"

definition tool_call_start_event :: "rtext \<Rightarrow> rtext \<Rightarrow> rtext \<Rightarrow> stream_bundle" where
  "tool_call_start_event msg tool_name tool_call_id = bundle_now ToolCallStart msg
     (JObj [(''tool_name'', JStr tool_name), (''tool_call_id'', JStr tool_call_id),
        (''status'', JStr (lit ''start''))])"

definition tool_call_complete_event :: "rtext \<Rightarrow> rtext \<Rightarrow> rtext \<Rightarrow> bool \<Rightarrow> stream_bundle" where
  "tool_call_complete_event msg tool_name tool_call_id success = bundle_now ToolCallComplete msg
     (JObj [(''tool_name'', JStr tool_name), (''tool_call_id'', JStr tool_call_id),
        (''success'', JBool success), (''status'', JStr (lit ''complete''))])"

definition end_of_turn_event :: "rtext \<Rightarrow> rtext \<Rightarrow> stream_bundle" where
  "end_of_turn_event msg full_response = text_delta_event msg full_response True"

definition snapshot_required_event ::
  "nat option \<Rightarrow> nat option \<Rightarrow> nat option \<Rightarrow> string \<Rightarrow> stream_bundle" where
  "snapshot_required_event missed_from missed_to resume_after reason = bundle_now SnapshotRequired []
     (JObj [(''from'', json_opt missed_from), (''to'', json_opt missed_to),
        (''resume_after'', json_opt resume_after), (''reason'', JStr (lit reason)),
        (''snapshot_required'', JBool True)])"

definition conversation_closed_event :: "rtext \<Rightarrow> rtext \<Rightarrow> nat \<Rightarrow> stream_bundle" where
  "conversation_closed_event conversation reason turn_count = bundle_now ConversationClosed []
     (JObj [(''conversation_id'', JStr conversation), (''reason'', JStr reason),
        (''turn_count'', JNum (int turn_count))])"

definition conversation_changed_event :: "rtext \<Rightarrow> stream_bundle" where
  "conversation_changed_event conversation =
     bundle_now ConversationChanged [] (JObj [(''conversation_id'', JStr conversation)])"

section \<open>The queue\<close>

record event_queue =
  history :: "stream_bundle list"
  max_size :: nat
  next_event_id :: nat
  incarnation :: uuid
  indicators :: "(uuid, uuid \<times> indicator_type) hmap"

definition with_incarnation :: "nat \<Rightarrow> uuid \<Rightarrow> event_queue" where
  "with_incarnation limit inc = \<lparr>history = [], max_size = limit, next_event_id = 1,
     incarnation = inc, indicators = []\<rparr>"

definition correlate :: "(rtext \<Rightarrow> uuid option) \<Rightarrow> stream_bundle \<Rightarrow> stream_bundle" where
  "correlate parse ev =
     (if run_id ev = None \<and>
         (starts_with (lit ''msg_'') (message_id ev) \<or> starts_with (lit ''voice_'') (message_id ev))
      then case conversation_turn_id_from_wire_id parse (message_id ev) of
          Some t \<Rightarrow> ev\<lparr>run_id := Some t, turn_id := Some t\<rparr>
        | None \<Rightarrow> ev
      else ev)"

definition stamp :: "(rtext \<Rightarrow> uuid option) \<Rightarrow> event_queue \<Rightarrow> stream_bundle \<Rightarrow> stream_bundle" where
  "stamp parse q ev =
     correlate parse (ev\<lparr>event_id := Some (next_event_id q),
       runtime_incarnation_id := Some (incarnation q),
       audience := (case audience ev of None \<Rightarrow> Some Owner | Some a \<Rightarrow> Some a)\<rparr>)"

definition push :: "(rtext \<Rightarrow> uuid option) \<Rightarrow> stream_bundle \<Rightarrow> event_queue \<Rightarrow> stream_bundle \<times> event_queue" where
  "push parse ev q =
     (let ev' = stamp parse q ev;
          h = (if max_size q \<le> length (history q) then tl (history q) else history q)
      in (ev', q\<lparr>history := h @ [ev'], next_event_id := wrap64 (next_event_id q + 1)\<rparr>))"

definition push_in_channel ::
  "(rtext \<Rightarrow> uuid option) \<Rightarrow> uuid \<Rightarrow> stream_bundle \<Rightarrow> event_queue \<Rightarrow> stream_bundle \<times> event_queue" where
  "push_in_channel parse ch ev q = push parse (ev\<lparr>channel_id := Some ch\<rparr>) q"

definition latest_event_id :: "event_queue \<Rightarrow> nat option" where
  "latest_event_id q = (case rev (history q) of [] \<Rightarrow> None | ev # _ \<Rightarrow> event_id ev)"

section \<open>Indicators\<close>

definition severity :: "indicator_type \<Rightarrow> nat" where
  "severity i = (case i of Idle \<Rightarrow> 0 | Thinking \<Rightarrow> 1 | Streaming \<Rightarrow> 2)"

text \<open>\<open>max_by_key\<close>: the last of the greatest elements, \<open>None\<close> for no element.\<close>

fun max_by_severity :: "indicator_type list \<Rightarrow> indicator_type option" where
  "max_by_severity [] = None"
| "max_by_severity (i # is) =
     (case max_by_severity is of
        None \<Rightarrow> Some i
      | Some m \<Rightarrow> Some (if severity i \<le> severity m then m else i))"

definition aggregate_indicator ::
  "(uuid, uuid \<times> indicator_type) hmap \<Rightarrow> uuid option \<Rightarrow> indicator_type" where
  "aggregate_indicator act ch =
     (case max_by_severity (map snd (filter (\<lambda>(key, _). ch = None \<or> ch = Some key) (map snd act))) of
        None \<Rightarrow> Idle | Some i \<Rightarrow> i)"

definition channel_indicator :: "uuid \<Rightarrow> event_queue \<Rightarrow> indicator_type" where
  "channel_indicator ch q = aggregate_indicator (indicators q) (Some ch)"

text \<open>Both return the events they broadcast.\<close>

definition begin_indicator ::
  "(rtext \<Rightarrow> uuid option) \<Rightarrow> uuid \<Rightarrow> uuid \<Rightarrow> indicator_type \<Rightarrow> event_queue \<Rightarrow> stream_bundle list \<times> event_queue" where
  "begin_indicator parse new_id ch i q =
     (let previous = aggregate_indicator (indicators q) (Some ch);
          q1 = q\<lparr>indicators := hm_insert new_id (ch, i) (indicators q)\<rparr>;
          current = aggregate_indicator (indicators q1) (Some ch)
      in if previous \<noteq> current
         then let (ev, q2) = push_in_channel parse ch (indicator_event current) q1 in ([ev], q2)
         else ([], q1))"

definition finish_indicator ::
  "(rtext \<Rightarrow> uuid option) \<Rightarrow> uuid \<Rightarrow> event_queue \<Rightarrow> stream_bundle list \<times> event_queue" where
  "finish_indicator parse gid q =
     (let q1 = q\<lparr>indicators := hm_remove gid (indicators q)\<rparr> in
      case hm_get (indicators q) gid of
        None \<Rightarrow> ([], q1)
      | Some (ch, _) \<Rightarrow>
          let (ev, q2) = push_in_channel parse ch
                (indicator_event (aggregate_indicator (indicators q1) (Some ch))) q1
          in ([ev], q2))"

section \<open>Subscriptions\<close>

record event_subscription =
  sub_channel :: uuid
  initial_indicator :: "stream_bundle option"
  replay :: "stream_bundle list"
  pending_gap :: "stream_bundle option"
  resume_after :: "nat option"

definition gap_event :: "event_queue \<Rightarrow> nat option \<Rightarrow> nat option \<Rightarrow> nat option \<Rightarrow> string \<Rightarrow> stream_bundle" where
  "gap_event q f t r reason = (snapshot_required_event f t r reason)
     \<lparr>runtime_incarnation_id := Some (incarnation q), audience := Some Owner\<rparr>"

definition plan_replay :: "nat option \<Rightarrow> event_queue \<Rightarrow> stream_bundle list \<times> stream_bundle option" where
  "plan_replay after_event_id q =
     (let latest = latest_event_id q;
          oldest = (case history q of [] \<Rightarrow> None | ev # _ \<Rightarrow> event_id ev) in
      case after_event_id of
        None \<Rightarrow> ([], None)
      | Some after \<Rightarrow>
          if history q = [] then
            ([], Some (gap_event q (Some (sat_add64 after 1)) None None ''history_unavailable''))
          else if (case latest of None \<Rightarrow> False | Some l \<Rightarrow> l < after) then
            ([], Some (gap_event q (map_option (\<lambda>v. sat_add64 v 1) latest) (Some after) latest
               ''cursor_ahead_of_history''))
          else if (case oldest of None \<Rightarrow> False | Some old \<Rightarrow> sat_add64 after 1 < old) then
            ([], Some (gap_event q (Some (sat_add64 after 1)) (map_option (\<lambda>v. v - 1) oldest) latest
               ''history_expired''))
          else
            (filter (\<lambda>ev. case event_id ev of None \<Rightarrow> False | Some i \<Rightarrow> after < i) (history q), None))"

definition subscribe_in_channel :: "nat option \<Rightarrow> uuid \<Rightarrow> event_queue \<Rightarrow> event_subscription" where
  "subscribe_in_channel after_event_id ch q =
     (let (rep, gap) = plan_replay after_event_id q in
      \<lparr>sub_channel = ch,
       initial_indicator =
         (if after_event_id = None then
            Some ((indicator_event (aggregate_indicator (indicators q) (Some ch)))
              \<lparr>channel_id := Some ch, runtime_incarnation_id := Some (incarnation q),
               audience := Some Owner\<rparr>)
          else None),
       replay = rep, pending_gap = gap, resume_after = latest_event_id q\<rparr>)"

definition take_initial_indicator :: "event_subscription \<Rightarrow> stream_bundle option \<times> event_subscription" where
  "take_initial_indicator s = (initial_indicator s, s\<lparr>initial_indicator := None\<rparr>)"

definition visible :: "uuid \<Rightarrow> stream_bundle \<Rightarrow> bool" where
  "visible ch ev \<longleftrightarrow> audience ev = Some Owner \<and>
     (case channel_id ev of None \<Rightarrow> True | Some c \<Rightarrow> c = ch)"

datatype recv_error = Lagged nat | Closed

text \<open>\<open>recv\<close>: a gap first, then the replayed events, then what the receiver yields, skipping what
  the subscriber may not see. \<open>None\<close>: still waiting for the receiver.\<close>

fun recv_live :: "uuid \<Rightarrow> (recv_error + stream_bundle) list \<Rightarrow>
    (recv_error + stream_bundle) option \<times> (recv_error + stream_bundle) list" where
  "recv_live ch [] = (None, [])"
| "recv_live ch (Inl e # rs) = (Some (Inl e), rs)"
| "recv_live ch (Inr ev # rs) = (if visible ch ev then (Some (Inr ev), rs) else recv_live ch rs)"

fun recv_replay :: "uuid \<Rightarrow> stream_bundle list \<Rightarrow> (recv_error + stream_bundle) list \<Rightarrow>
    (recv_error + stream_bundle) option \<times> stream_bundle list \<times> (recv_error + stream_bundle) list" where
  "recv_replay ch [] rs = (let (r, rs') = recv_live ch rs in (r, [], rs'))"
| "recv_replay ch (ev # evs) rs = (if visible ch ev then (Some (Inr ev), evs, rs) else recv_replay ch evs rs)"

definition recv :: "event_subscription \<Rightarrow> (recv_error + stream_bundle) list \<Rightarrow>
    (recv_error + stream_bundle) option \<times> event_subscription \<times> (recv_error + stream_bundle) list" where
  "recv s rs =
     (case pending_gap s of
        Some gap \<Rightarrow>
          if visible (sub_channel s) gap then (Some (Inr gap), s\<lparr>pending_gap := None\<rparr>, rs)
          else (let (r, evs, rs') = recv_replay (sub_channel s) (replay s) rs
                in (r, s\<lparr>pending_gap := None, replay := evs\<rparr>, rs'))
      | None \<Rightarrow>
          let (r, evs, rs') = recv_replay (sub_channel s) (replay s) rs
          in (r, s\<lparr>replay := evs\<rparr>, rs'))"

text \<open>Everything a subscriber receives before it has to wait.\<close>

definition backlog :: "event_subscription \<Rightarrow> (recv_error + stream_bundle) list \<Rightarrow> nat" where
  "backlog s rs = length (replay s) + length rs + (if pending_gap s = None then 0 else 1)"

lemma recv_live_shorter: "recv_live ch rs = (Some r, rs') \<Longrightarrow> length rs' < length rs"
  by (induction ch rs rule: recv_live.induct) (auto split: if_splits)

lemma recv_replay_shorter:
  "recv_replay ch evs rs = (Some r, evs', rs') \<Longrightarrow> length evs' + length rs' < length evs + length rs"
  by (induction ch evs rs rule: recv_replay.induct)
    (auto dest: recv_live_shorter split: if_splits prod.splits)

lemma recv_backlog: "recv s rs = (Some r, s', rs') \<Longrightarrow> backlog s' rs' < backlog s rs"
  by (auto simp: recv_def backlog_def split: option.splits if_splits prod.splits dest: recv_replay_shorter)

function drain :: "event_subscription \<Rightarrow> (recv_error + stream_bundle) list \<Rightarrow>
    (recv_error + stream_bundle) list" where
  "drain s rs = (case recv s rs of (None, s', rs') \<Rightarrow> [] | (Some r, s', rs') \<Rightarrow> r # drain s' rs')"
  by pat_completeness auto
termination
  by (relation "measure (\<lambda>(s, rs). backlog s rs)") (auto intro: recv_backlog dest: sym)

declare drain.simps [simp del]

lemma recv_live_Inr:
  "recv_live ch (map Inr evs) =
     (case dropWhile (Not \<circ> visible ch) evs of [] \<Rightarrow> (None, []) | e # es \<Rightarrow> (Some (Inr e), map Inr es))"
  by (induction evs) auto

lemma recv_replay_Inr:
  "recv_replay ch evs (map Inr live) =
     (case dropWhile (Not \<circ> visible ch) evs of
        [] \<Rightarrow> (let (r, rs') = recv_live ch (map Inr live) in (r, [], rs'))
      | e # es \<Rightarrow> (Some (Inr e), es, map Inr live))"
  by (induction evs) auto

lemma drain_no_gap:
  assumes "pending_gap s = None"
  shows "drain s (map Inr live) = map Inr (filter (visible (sub_channel s)) (replay s @ live))"
  using assms
proof (induction "length (replay s) + length live" arbitrary: s live rule: less_induct)
  case less
  let ?ch = "sub_channel s"
  have skip: "filter (visible ?ch) evs = filter (visible ?ch) (dropWhile (Not \<circ> visible ?ch) evs)" for evs
    by (induction evs) auto
  have shorter: "length es < length evs" if "dropWhile (Not \<circ> visible ?ch) evs = e # es" for e es evs
    using length_dropWhile_le [of "Not \<circ> visible ?ch" evs] that by simp
  have seen: "visible ?ch e" if "dropWhile (Not \<circ> visible ?ch) evs = e # es" for e es evs
    using that by (metis comp_apply hd_dropWhile list.sel(1) list.simps(3))
  show ?case
  proof (cases "dropWhile (Not \<circ> visible ?ch) (replay s)")
    case (Cons e es)
    then have "recv s (map Inr live) = (Some (Inr e), s\<lparr>replay := es\<rparr>, map Inr live)"
      by (simp add: recv_def less.prems recv_replay_Inr)
    moreover have "drain (s\<lparr>replay := es\<rparr>) (map Inr live) = map Inr (filter (visible ?ch) (es @ live))"
      using less.hyps [of "s\<lparr>replay := es\<rparr>" live] shorter [OF Cons] less.prems by simp
    ultimately show ?thesis
      using seen [OF Cons] skip [of "replay s"] by (simp add: drain.simps [of s] Cons)
  next
    case Nil
    then have none: "filter (visible ?ch) (replay s) = []" using skip [of "replay s"] by simp
    show ?thesis
    proof (cases "dropWhile (Not \<circ> visible ?ch) live")
      case (Cons e es)
      then have "recv s (map Inr live) = (Some (Inr e), s\<lparr>replay := []\<rparr>, map Inr es)"
        by (simp add: recv_def less.prems recv_replay_Inr recv_live_Inr Nil)
      moreover have "drain (s\<lparr>replay := []\<rparr>) (map Inr es) = map Inr (filter (visible ?ch) es)"
        using less.hyps [of "s\<lparr>replay := []\<rparr>" es] shorter [OF Cons] less.prems by simp
      ultimately show ?thesis
        using seen [OF Cons] skip [of live] none by (simp add: drain.simps [of s] Cons)
    next
      case Nil': Nil
      have "recv s (map Inr live) = (None, s\<lparr>replay := []\<rparr>, [])"
        by (simp add: recv_def less.prems recv_replay_Inr recv_live_Inr Nil Nil')
      then show ?thesis using none skip [of live] Nil' by (simp add: drain.simps [of s])
    qed
  qed
qed

section \<open>The history against the whole log\<close>

fun push_all :: "(rtext \<Rightarrow> uuid option) \<Rightarrow> stream_bundle list \<Rightarrow> event_queue \<Rightarrow>
    stream_bundle list \<times> event_queue" where
  "push_all parse [] q = ([], q)"
| "push_all parse (ev # evs) q =
     (let (e, q1) = push parse ev q; (es, q2) = push_all parse evs q1 in (e # es, q2))"

text \<open>\<open>tracks log q\<close>: the log of all stored events is numbered from 1, the next number follows,
  and the history is its end, of at most \<open>max_size\<close> events.\<close>

definition tracks :: "stream_bundle list \<Rightarrow> event_queue \<Rightarrow> bool" where
  "tracks log q \<longleftrightarrow> 0 < max_size q \<and> next_event_id q = Suc (length log) \<and>
     history q = drop (length log - max_size q) log \<and>
     map event_id log = map Some [1..<Suc (length log)]"

lemma event_id_stamp [simp]: "event_id (stamp parse q ev) = Some (next_event_id q)"
  by (simp add: stamp_def correlate_def split: option.splits)

lemma push_tracks:
  assumes "tracks log q" "push parse ev q = (e, q')" "Suc (Suc (length log)) < 2 ^ 64"
  shows "tracks (log @ [e]) q' \<and> max_size q' = max_size q \<and> incarnation q' = incarnation q \<and>
    indicators q' = indicators q"
proof -
  from assms(2) have e: "e = stamp parse q ev"
    and q': "q' = q\<lparr>history := (if max_size q \<le> length (history q) then tl (history q) else history q) @ [e],
      next_event_id := wrap64 (next_event_id q + 1)\<rparr>"
    by (auto simp: push_def Let_def)
  have "(if max_size q \<le> length (history q) then tl (history q) else history q) =
      drop (Suc (length log) - max_size q) log"
    using assms(1) by (auto simp: tracks_def tl_drop Suc_diff_le drop_Suc)
  moreover have "Suc (length log) - max_size q \<le> length log" using assms(1) by (auto simp: tracks_def)
  ultimately show ?thesis using assms by (simp add: tracks_def q' e)
qed

lemma push_all_tracks:
  assumes "tracks log q" "push_all parse evs q = (es, q')" "Suc (length log + length evs) < 2 ^ 64"
  shows "tracks (log @ es) q' \<and> length es = length evs \<and> max_size q' = max_size q"
  using assms
proof (induction parse evs q arbitrary: log es q' rule: push_all.induct)
  case (2 parse ev evs q)
  obtain e q1 where p: "push parse ev q = (e, q1)" by fastforce
  obtain es' q2 where pa: "push_all parse evs q1 = (es', q2)" by fastforce
  from "2.prems" p pa have es: "es = e # es'" "q' = q2" by auto
  have t: "tracks (log @ [e]) q1 \<and> max_size q1 = max_size q"
    using push_tracks [OF "2.prems"(1) p] "2.prems"(3) by simp
  from "2.IH" [OF p [symmetric] refl, of "log @ [e]" es' q2] t pa "2.prems"(3)
  show ?case by (simp add: es)
qed simp

lemma tracks_init: "0 < n \<Longrightarrow> tracks [] (with_incarnation n inc)"
  by (simp add: tracks_def with_incarnation_def)

lemma tracks_event_id:
  assumes "tracks log q" and "i < length log"
  shows "event_id (log ! i) = Some (Suc i)"
proof -
  have "map event_id log ! i = map Some [1..<Suc (length log)] ! i"
    using assms(1) by (simp only: tracks_def)
  also have "\<dots> = Some (Suc i)" using assms(2) by (simp del: upt_Suc)
  finally show ?thesis using assms(2) by simp
qed

lemma tracks_latest: "tracks log q \<Longrightarrow> log \<noteq> [] \<Longrightarrow> latest_event_id q = Some (length log)"
proof -
  assume t: "tracks log q" and ne: "log \<noteq> []"
  have "length log - max_size q < length log" using t ne by (cases log) (simp_all add: tracks_def)
  then have h: "history q \<noteq> []" "last (history q) = last log"
    using t by (simp_all add: tracks_def)
  have "event_id (last log) = Some (length log)"
    using tracks_event_id [OF t, of "length log - 1"] ne by (simp add: last_conv_nth)
  with h show ?thesis
    by (cases "history q" rule: rev_cases) (auto simp: latest_event_id_def)
qed

lemma tracks_oldest:
  assumes t: "tracks log q" and ne: "log \<noteq> []"
  shows "\<exists>ev evs. history q = ev # evs \<and> event_id ev = Some (Suc (length log - max_size q))"
proof -
  let ?k = "length log - max_size q"
  have k: "?k < length log" using t ne by (cases log) (auto simp: tracks_def)
  then have "history q = log ! ?k # drop (Suc ?k) log"
    using t by (simp add: tracks_def Cons_nth_drop_Suc)
  with tracks_event_id [OF t k] show ?thesis by blast
qed

lemma filter_after:
  assumes ids: "map event_id log = map Some [1..<Suc (length log)]" and k: "k \<le> after"
  shows "filter (\<lambda>ev. case event_id ev of None \<Rightarrow> False | Some i \<Rightarrow> after < i) (drop k log) = drop after log"
  using ids k
proof (induction log arbitrary: k after rule: rev_induct)
  case (snoc x xs)
  from snoc.prems(1) have xs: "map event_id xs = map Some [1..<Suc (length xs)]"
    and x: "event_id x = Some (Suc (length xs))" by simp_all
  show ?case
  proof (cases "k \<le> length xs")
    case True
    then show ?thesis using snoc.IH [OF xs snoc.prems(2)] x by simp
  next
    case False
    then show ?thesis using snoc.prems(2) by simp
  qed
qed simp

lemma subscribe_replay:
  assumes t: "tracks log q" and ne: "log \<noteq> []" and b: "length log < 2 ^ 64 - 1"
    and cur: "after \<le> length log" "length log \<le> after + max_size q"
  shows "plan_replay (Some after) q = (drop after log, None)"
proof -
  obtain ev evs where h: "history q = ev # evs" "event_id ev = Some (Suc (length log - max_size q))"
    using tracks_oldest [OF t ne] by blast
  have "sat_add64 after 1 = Suc after" using cur b by (simp add: sat_add64_id)
  moreover have "filter (\<lambda>ev. case event_id ev of None \<Rightarrow> False | Some i \<Rightarrow> after < i) (history q) = drop after log"
    using t cur(2) unfolding tracks_def by (auto intro: filter_after)
  ultimately show ?thesis
    using cur h tracks_latest [OF t ne] by (simp add: plan_replay_def)
qed

text \<open>C2: Exact resumption. A client that has seen every event up to number \<open>after\<close> and subscribes
  again with that cursor, while the history still reaches back that far, receives exactly the
  events it missed and all later ones, of its channel, in order, each once: the receiver only has to
  yield what is pushed after the subscription.\<close>

theorem resume_is_exact:
  assumes "tracks log q" and "log \<noteq> []"
    and "push_all parse evs q = (later, q')" and "Suc (length log + length evs) < 2 ^ 64"
    and "after \<le> length log" and "length log \<le> after + max_size q"
  shows "drain (subscribe_in_channel (Some after) ch q) (map Inr later) =
      map Inr (filter (visible ch) (drop after (log @ later)))"
proof -
  have "plan_replay (Some after) q = (drop after log, None)"
    using assms by (intro subscribe_replay) simp_all
  then have "pending_gap (subscribe_in_channel (Some after) ch q) = None"
    and "replay (subscribe_in_channel (Some after) ch q) = drop after log"
    and "sub_channel (subscribe_in_channel (Some after) ch q) = ch"
    by (simp_all add: subscribe_in_channel_def)
  with drain_no_gap show ?thesis using assms(5) by simp
qed

theorem resume_is_exact_witness:
  "\<exists>log q. tracks log q \<and> length log = 2 \<and>
     drain (subscribe_in_channel (Some 1) 5 q) [] = map Inr (filter (visible 5) (drop 1 log))"
proof -
  obtain log q where pa: "push_all uuid_parse_simple [indicator_event Idle, indicator_event Thinking]
      (with_incarnation 4 9) = (log, q)" by fastforce
  have t: "tracks log q \<and> length log = 2 \<and> max_size q = 4"
    using push_all_tracks [OF tracks_init pa] by (simp add: with_incarnation_def)
  have "drain (subscribe_in_channel (Some 1) 5 q) (map Inr []) =
      map Inr (filter (visible 5) (drop 1 (log @ [])))"
    by (rule resume_is_exact [where parse = uuid_parse_simple and evs = "[]" and q' = q]) (use t in auto)
  with t show ?thesis by auto
qed

text \<open>A cursor that the history cannot serve (nothing retained, ahead of the newest event, or older
  than the oldest retained one) is never answered silently: the first event received is a demand
  for a snapshot, nothing is replayed, and no other cursor is refused.\<close>

theorem unusable_cursor_demands_snapshot:
  assumes "tracks log q" and "length log < 2 ^ 64 - 1"
  shows "(pending_gap (subscribe_in_channel (Some after) ch q) \<noteq> None \<longleftrightarrow>
      log = [] \<or> length log < after \<or> after + max_size q < length log) \<and>
    (\<forall>gap. pending_gap (subscribe_in_channel (Some after) ch q) = Some gap \<longrightarrow>
      event_type gap = SnapshotRequired \<and>
      fst (recv (subscribe_in_channel (Some after) ch q) outcomes) = Some (Inr gap) \<and>
      replay (subscribe_in_channel (Some after) ch q) = [])"
proof -
  let ?s = "subscribe_in_channel (Some after) ch q"
  have gapless: "visible ch (gap_event q f t r reason)" "event_type (gap_event q f t r reason) = SnapshotRequired"
    for f t r reason
    by (simp_all add: gap_event_def snapshot_required_event_def bundle_now_def visible_def)
  have plan: "pending_gap ?s = snd (plan_replay (Some after) q)" "replay ?s = fst (plan_replay (Some after) q)"
    "sub_channel ?s = ch"
    by (simp_all add: subscribe_in_channel_def split: prod.splits)
  have shape: "event_type gap = SnapshotRequired \<and> visible ch gap \<and> replay ?s = []"
    if "pending_gap ?s = Some gap" for gap
    using that gapless unfolding plan by (auto simp: plan_replay_def Let_def split: if_splits)
  have "pending_gap ?s \<noteq> None \<longleftrightarrow> log = [] \<or> length log < after \<or> after + max_size q < length log"
  proof (cases "log = []")
    case True
    with assms(1) have "history q = []" by (simp add: tracks_def)
    with True show ?thesis by (simp add: plan plan_replay_def)
  next
    case False
    obtain ev evs where h: "history q = ev # evs" "event_id ev = Some (Suc (length log - max_size q))"
      using tracks_oldest [OF assms(1) False] by blast
    have sat: "after \<le> length log \<Longrightarrow> sat_add64 after 1 = Suc after" using assms(2) by (simp add: sat_add64_id)
    show ?thesis
      using False h sat tracks_latest [OF assms(1) False] by (auto simp: plan plan_replay_def Let_def split: if_splits)
  qed
  moreover have "fst (recv ?s outcomes) = Some (Inr gap)" if "pending_gap ?s = Some gap" for gap
    using shape [OF that] that by (simp add: recv_def plan(3))
  ultimately show ?thesis using shape by blast
qed

theorem unusable_cursor_demands_snapshot_witness:
  "\<exists>gap. pending_gap (subscribe_in_channel (Some 42) 5 (with_incarnation 2 9)) = Some gap \<and>
     event_type gap = SnapshotRequired"
proof -
  have t: "tracks [] (with_incarnation 2 9)" by (simp add: tracks_init)
  from unusable_cursor_demands_snapshot [OF t, of 42 5 "[]"] show ?thesis by auto
qed

section \<open>Indicators: what a client shows\<close>

definition shown :: "uuid \<Rightarrow> json \<Rightarrow> stream_bundle \<Rightarrow> json" where
  "shown ch i ev = (if event_type ev = Indicator \<and> visible ch ev then payload ev else i)"

abbreviation indicator_payload :: "indicator_type \<Rightarrow> json" where
  "indicator_payload i \<equiv> payload (indicator_event i)"

text \<open>A run of the queue with the events it broadcasts: pushes of other events, and the beginning
  and finishing of activities. The indicator constructor has no other user in the daemon.\<close>

inductive queue_run :: "(rtext \<Rightarrow> uuid option) \<Rightarrow> event_queue \<Rightarrow> stream_bundle list \<Rightarrow> event_queue \<Rightarrow> bool"
  for parse q0 where
  run_start: "queue_run parse q0 [] q0"
| run_push: "queue_run parse q0 es q \<Longrightarrow> event_type ev \<noteq> Indicator \<Longrightarrow> push parse ev q = (e, q') \<Longrightarrow>
     queue_run parse q0 (es @ [e]) q'"
| run_begin: "queue_run parse q0 es q \<Longrightarrow> hm_get (indicators q) g = None \<Longrightarrow>
     begin_indicator parse g ch i q = (bs, q') \<Longrightarrow> queue_run parse q0 (es @ bs) q'"
| run_finish: "queue_run parse q0 es q \<Longrightarrow> finish_indicator parse g q = (bs, q') \<Longrightarrow>
     queue_run parse q0 (es @ bs) q'"

lemma event_type_stamp [simp]: "event_type (stamp parse q ev) = event_type ev"
  and payload_stamp [simp]: "payload (stamp parse q ev) = payload ev"
  and channel_id_stamp [simp]: "channel_id (stamp parse q ev) = channel_id ev"
  by (simp_all add: stamp_def correlate_def split: option.splits)

lemma event_audience_only: "(a :: event_audience) = Owner"
  by (cases a) simp

lemma audience_stamp [simp]: "audience (stamp parse q ev) = Some Owner"
  using event_audience_only by (simp add: stamp_def correlate_def split: option.splits)

lemma push_fst: "push parse ev q = (e, q') \<Longrightarrow> e = stamp parse q ev \<and> indicators q' = indicators q"
  by (auto simp: push_def Let_def)

lemma indicator_event_fields [simp]:
  "event_type (indicator_event i) = Indicator" "audience (indicator_event i) = None"
  by (simp_all add: indicator_event_def bundle_now_def)

lemma indicator_payload_inj: "indicator_payload i = indicator_payload j \<longleftrightarrow> i = j"
  by (cases i; cases j; simp add: indicator_event_def bundle_now_def indicator_name_def lit_def)

lemma aggregate_other_insert:
  "hm_get m g = None \<Longrightarrow> c \<noteq> ch \<Longrightarrow>
   aggregate_indicator (hm_insert g (c, i) m) (Some ch) = aggregate_indicator m (Some ch)"
  by (simp add: aggregate_indicator_def hm_insert_fresh)

lemma filter_other_remove:
  "hm_ok m \<Longrightarrow> hm_get m g = Some (c, i) \<Longrightarrow> c \<noteq> ch \<Longrightarrow>
   filter (\<lambda>(key, _). key = ch) (map snd (hm_remove g m)) = filter (\<lambda>(key, _). key = ch) (map snd m)"
  by (induction m) (auto split: if_splits)

lemma aggregate_other_remove:
  "hm_ok m \<Longrightarrow> hm_get m g = Some (c, i) \<Longrightarrow> c \<noteq> ch \<Longrightarrow>
   aggregate_indicator (hm_remove g m) (Some ch) = aggregate_indicator m (Some ch)"
  using filter_other_remove [of m g c i ch] by (simp add: aggregate_indicator_def eq_commute)

lemma shown_own: "shown ch x (stamp parse q (ev\<lparr>channel_id := Some c\<rparr>)) =
    (if event_type ev = Indicator \<and> c = ch then payload ev else x)"
  by (simp add: shown_def visible_def)

lemma begin_indicator_shows:
  assumes "hm_get (indicators q) g = None" "begin_indicator parse g c i q = (bs, q')" "hm_ok (indicators q)"
  shows "hm_ok (indicators q') \<and>
    foldl (shown ch) (indicator_payload (channel_indicator ch q)) bs = indicator_payload (channel_indicator ch q')"
proof -
  define m where "m = hm_insert g (c, i) (indicators q)"
  have ok: "hm_ok m" using assms(3) by (simp add: m_def)
  show ?thesis
  proof (cases "aggregate_indicator (indicators q) (Some c) = aggregate_indicator m (Some c)")
    case True
    with assms(2) have "bs = []" "indicators q' = m"
      by (auto simp: begin_indicator_def Let_def m_def)
    then show ?thesis using True ok aggregate_other_insert [OF assms(1), of c ch i]
      by (cases "c = ch") (auto simp: channel_indicator_def m_def)
  next
    case False
    define q1 where "q1 = q\<lparr>indicators := m\<rparr>"
    have "bs = [stamp parse q1 ((indicator_event (aggregate_indicator m (Some c)))\<lparr>channel_id := Some c\<rparr>)]"
      "indicators q' = m"
      using assms(2) False
      by (auto simp: begin_indicator_def Let_def m_def [symmetric] q1_def push_in_channel_def push_def)
    then show ?thesis using ok aggregate_other_insert [OF assms(1), of c ch i]
      by (simp add: shown_own channel_indicator_def m_def)
  qed
qed

lemma finish_indicator_shows:
  assumes "finish_indicator parse g q = (bs, q')" "hm_ok (indicators q)"
  shows "hm_ok (indicators q') \<and>
    foldl (shown ch) (indicator_payload (channel_indicator ch q)) bs = indicator_payload (channel_indicator ch q')"
proof (cases "hm_get (indicators q) g")
  case None
  then have "g \<notin> fst ` set (indicators q)" by (simp add: map_of_eq_None_iff)
  with assms None have "bs = []" "indicators q' = indicators q"
    by (auto simp: finish_indicator_def Let_def delete_id)
  then show ?thesis using assms(2) by (simp add: channel_indicator_def)
next
  case (Some ci)
  obtain c i where ci: "ci = (c, i)" by fastforce
  define m where "m = hm_remove g (indicators q)"
  define q1 where "q1 = q\<lparr>indicators := m\<rparr>"
  have "bs = [stamp parse q1 ((indicator_event (aggregate_indicator m (Some c)))\<lparr>channel_id := Some c\<rparr>)]"
    "indicators q' = m"
    using assms(1) Some ci
    by (auto simp: finish_indicator_def Let_def m_def [symmetric] q1_def push_in_channel_def push_def)
  then show ?thesis using assms(2) Some ci aggregate_other_remove [OF assms(2), of g c i ch]
    by (simp add: shown_own channel_indicator_def m_def)
qed

lemma queue_run_shows:
  assumes "queue_run parse q0 es q" "hm_ok (indicators q0)"
  shows "hm_ok (indicators q) \<and>
    foldl (shown ch) (indicator_payload (channel_indicator ch q0)) es = indicator_payload (channel_indicator ch q)"
  using assms
proof (induction rule: queue_run.induct)
  case (run_push es q ev e q')
  with push_fst [OF run_push.hyps(3)] show ?case
    by (simp add: shown_def channel_indicator_def)
next
  case (run_begin es q g c i bs q')
  with begin_indicator_shows [OF run_begin.hyps(2,3), of ch] show ?case by simp
next
  case (run_finish es q g bs q')
  with finish_indicator_shows [OF run_finish.hyps(2), of ch] show ?case by simp
qed simp

text \<open>The indicator a client shows is always right. A client starts from the indicator of its
  subscription and applies the indicator events it may see; after any run of activities beginning
  and finishing in any channels, interleaved with any other events, what it shows is the most
  active indicator of its own channel's unfinished activities.\<close>

theorem client_indicator_is_current:
  assumes "queue_run parse q es q'" and "hm_ok (indicators q)"
    and "initial_indicator (subscribe_in_channel None ch q) = Some first"
  shows "foldl (shown ch) (payload first) es = indicator_payload (channel_indicator ch q')"
proof -
  have "payload first = indicator_payload (channel_indicator ch q)"
    using assms(3) by (auto simp: subscribe_in_channel_def channel_indicator_def split: prod.splits)
  with queue_run_shows [OF assms(1,2), of ch] show ?thesis by simp
qed

theorem client_indicator_is_current_witness:
  "\<exists>es q'. queue_run uuid_parse_simple (with_incarnation 4 9) es q' \<and>
     foldl (shown 5) (indicator_payload Idle) es = indicator_payload Streaming"
proof -
  let ?q = "with_incarnation 4 9"
  obtain bs q' where b: "begin_indicator uuid_parse_simple 1 5 Streaming ?q = (bs, q')" by fastforce
  have run: "queue_run uuid_parse_simple ?q bs q'"
    using run_begin [OF run_start _ b] by (simp add: with_incarnation_def)
  obtain first where first: "initial_indicator (subscribe_in_channel None 5 ?q) = Some first"
    "payload first = indicator_payload Idle"
    by (simp add: subscribe_in_channel_def plan_replay_def with_incarnation_def aggregate_indicator_def)
  have "channel_indicator 5 q' = Streaming"
    using b by (auto simp: begin_indicator_def with_incarnation_def aggregate_indicator_def
        channel_indicator_def push_in_channel_def push_def Let_def severity_def)
  moreover have "hm_ok (indicators ?q)" by (simp add: with_incarnation_def)
  ultimately show ?thesis
    using client_indicator_is_current [OF run _ first(1)] first(2) run by auto
qed

end
