(* ===== verification/Durable_Tables.thy ===== *)
theory Durable_Tables
  imports Provider_Context "HOL-Library.Product_Lexorder"
begin

text \<open>
  The durable tables of \<open>src/BoBeService/migrations/schema.sql\<close> that background work and
  conversations use, and the row types of \<open>db/agent_job_repo.rs\<close>, \<open>db/owner_input_repo.rs\<close>,
  \<open>db/agent_schedule_repo.rs\<close> and \<open>models/conversation.rs\<close>.

  A table is the list of its rows in \<open>rowid\<close> order. A statement or an IMMEDIATE transaction is
  one atomic function of the database. \<open>UPDATE .. WHERE\<close> is \<open>sql_update\<close>, \<open>DELETE\<close> a filter,
  \<open>INSERT\<close> an append that fails with a database error when a key is taken; \<open>ORDER BY\<close> is
  \<open>sort_key\<close>, stable where the statement leaves the order of equal keys open.

  Times are instants in UTC: nanoseconds since the epoch where the code takes them from
  \<open>Utc::now()\<close> (\<open>now\<close>), milliseconds where SQLite's \<open>strftime('%fZ')\<close> or a \<open>Millis\<close> text
  stores them (\<open>millis\<close>). The columns hold RFC 3339 texts, whose order is the order of the
  instants for the years 0 to 9999, which is the range considered. Columns that hold JSON of a
  value (\<open>budget_json\<close>, \<open>definition_json\<close>, \<open>choices_json\<close>) hold the value itself.
\<close>

section \<open>Times\<close>

definition millis :: "int \<Rightarrow> int" where
  "millis now = now div 1000000"

section \<open>Background jobs\<close>

datatype job_status = Queued | Running | CancelRequested | Completed | Failed | Cancelled
  | Interrupted | AwaitingInput

datatype delivery_status = DeliveryPending | Delivering | Committed | Presented
  | DeliveryInterrupted | Suppressed

record task_budget =
  budget_timeout :: "nat option"
  budget_turns :: "nat option"

record execution_limits =
  task_timeout_seconds :: nat
  task_max_turns :: nat

record workload_route =
  route_profile :: rtext
  route_model :: "rtext option"
  route_effort :: "rtext option"

record agent_job =
  j_id :: uuid
  j_source_key :: rtext
  j_channel :: "uuid option"
  j_goal :: "uuid option"
  j_schedule :: "uuid option"
  j_title :: rtext
  j_task :: rtext
  j_context :: rtext
  j_resume_context :: rtext
  j_timeout_seconds :: nat
  j_max_turns :: nat
  j_budget :: task_budget
  j_profile :: rtext
  j_model :: "rtext option"
  j_effort :: "rtext option"
  j_status :: job_status
  j_attempt :: int
  j_session :: "rtext option"
  j_output :: "rtext option"
  j_error :: "rtext option"
  j_delivery_id :: uuid
  j_delivery :: delivery_status
  j_delivery_after :: "int option"
  j_created_at :: int
  j_updated_at :: int

record job_input =
  in_title :: rtext
  in_task :: rtext
  in_context :: rtext
  in_budget :: task_budget
  in_channel :: "uuid option"
  in_goal :: "uuid option"
  in_schedule :: "uuid option"

section \<open>Questions to the owner\<close>

datatype input_kind = Approval | Information

datatype input_status = Pending | Answered | Declined | InputCancelled | Expired

record input_choice =
  choice_value :: rtext
  choice_label :: rtext

record ask_owner_request =
  ask_kind :: input_kind
  ask_question :: rtext
  ask_action :: rtext
  ask_task :: rtext
  ask_context :: rtext
  ask_choices :: "input_choice list"
  ask_expires_seconds :: nat
  ask_budget :: task_budget

record input_origin =
  origin_run :: uuid
  origin_job :: "uuid option"
  origin_channel :: uuid
  origin_goal :: "uuid option"

record owner_input =
  o_id :: uuid
  o_source_key :: rtext
  o_origin_run :: uuid
  o_origin_settled :: bool
  o_job :: "uuid option"
  o_resumed_job :: "uuid option"
  o_channel :: uuid
  o_goal :: "uuid option"
  o_kind :: input_kind
  o_question :: rtext
  o_action :: rtext
  o_prompt :: rtext
  o_choices :: "input_choice list"
  o_definition :: ask_owner_request
  o_status :: input_status
  o_expires_at :: int
  o_response :: "rtext option"
  o_response_id :: "uuid option"
  o_created_at :: int

record input_presentation =
  p_input :: uuid
  p_channel :: uuid
  p_turn :: "uuid option"
  p_presented_at :: "int option"

section \<open>Schedules\<close>

record schedule_input =
  si_title :: rtext
  si_task :: rtext
  si_context :: rtext
  si_at :: int
  si_every_seconds :: "nat option"
  si_goal :: "uuid option"
  si_budget :: task_budget

record agent_schedule =
  s_id :: uuid
  s_source_key :: rtext
  s_title :: rtext
  s_task :: rtext
  s_context :: rtext
  s_channel :: uuid
  s_goal :: "uuid option"
  s_next_run_at :: int
  s_every_seconds :: "nat option"
  s_enabled :: bool
  s_generation :: int
  s_last_job :: "uuid option"
  s_last_error :: "rtext option"
  s_created_at :: int
  s_updated_at :: int
  s_definition :: schedule_input
  s_budget :: task_budget

section \<open>Conversations\<close>

datatype conversation_state = PendingConversation | ActiveConversation | ClosedConversation

datatype turn_role = UserRole | AssistantRole

record conversation =
  c_id :: uuid
  c_channel :: uuid
  c_state :: conversation_state
  c_closed_at :: "int option"
  c_created_at :: int
  c_updated_at :: int

record conversation_turn =
  t_id :: uuid
  t_role :: turn_role
  t_content :: rtext
  t_complete :: bool
  t_conversation :: uuid
  t_created_at :: int
  t_updated_at :: int

record turn_presentation =
  tp_turn :: uuid
  tp_channel :: uuid
  tp_presented_at :: int

section \<open>The database\<close>

record database =
  jobs :: "agent_job list"
  schedules :: "agent_schedule list"
  tombstones :: "rtext list"
  goal_cadence :: "(int \<times> nat) option"
  inputs :: "owner_input list"
  input_presentations :: "input_presentation list"
  conversations :: "conversation list"
  conversation_turns :: "conversation_turn list"
  conversation_presentations :: "turn_presentation list"

definition empty_db :: database where
  "empty_db = \<lparr>jobs = [], schedules = [], tombstones = [], goal_cadence = None, inputs = [],
     input_presentations = [], conversations = [], conversation_turns = [],
     conversation_presentations = []\<rparr>"

section \<open>Statements\<close>

definition sql_update :: "('r \<Rightarrow> bool) \<Rightarrow> ('r \<Rightarrow> 'r) \<Rightarrow> 'r list \<Rightarrow> 'r list" where
  "sql_update p f rows = map (\<lambda>r. if p r then f r else r) rows"

definition insert_or_ignore :: "'k list \<Rightarrow> 'k list \<Rightarrow> 'k list" where
  "insert_or_ignore new keys = fold (\<lambda>k ks. if k \<in> set ks then ks else ks @ [k]) new keys"

text \<open>A transaction that fails leaves the database as it was.\<close>

type_synonym 'a outcome = "(app_error + 'a) \<times> database"

definition commit :: "database \<Rightarrow> app_error + 'a \<times> database \<Rightarrow> 'a outcome" where
  "commit db r = (case r of Inl e \<Rightarrow> (Inl e, db) | Inr (a, db') \<Rightarrow> (Inr a, db'))"

abbreviation update_jobs :: "(agent_job \<Rightarrow> bool) \<Rightarrow> (agent_job \<Rightarrow> agent_job) \<Rightarrow> database \<Rightarrow> database" where
  "update_jobs p f db \<equiv> db\<lparr>jobs := sql_update p f (jobs db)\<rparr>"

abbreviation update_inputs ::
  "(owner_input \<Rightarrow> bool) \<Rightarrow> (owner_input \<Rightarrow> owner_input) \<Rightarrow> database \<Rightarrow> database" where
  "update_inputs p f db \<equiv> db\<lparr>inputs := sql_update p f (inputs db)\<rparr>"

abbreviation update_schedules ::
  "(agent_schedule \<Rightarrow> bool) \<Rightarrow> (agent_schedule \<Rightarrow> agent_schedule) \<Rightarrow> database \<Rightarrow> database" where
  "update_schedules p f db \<equiv> db\<lparr>schedules := sql_update p f (schedules db)\<rparr>"

definition find_row :: "('r \<Rightarrow> bool) \<Rightarrow> 'r list \<Rightarrow> app_error \<Rightarrow> app_error + 'r" where
  "find_row p rows e = (case find p rows of Some r \<Rightarrow> Inr r | None \<Rightarrow> Inl e)"

section \<open>Lemmas about statements\<close>

lemma sql_update_simps [simp]:
  "sql_update p f [] = []"
  "sql_update p f (r # rows) = (if p r then f r else r) # sql_update p f rows"
  "length (sql_update p f rows) = length rows"
  by (simp_all add: sql_update_def)

lemma set_sql_update: "set (sql_update p f rows) = (\<lambda>r. if p r then f r else r) ` set rows"
  by (simp add: sql_update_def)

lemma in_sql_update: "r \<in> set rows \<Longrightarrow> (if p r then f r else r) \<in> set (sql_update p f rows)"
  unfolding set_sql_update by (rule imageI)

lemma sql_updateE:
  assumes "r' \<in> set (sql_update p f rows)"
  obtains r where "r \<in> set rows" "r' = (if p r then f r else r)"
  using assms unfolding set_sql_update by blast

lemma sql_update_key:
  "(\<And>r. p r \<Longrightarrow> key (f r) = key r) \<Longrightarrow> map key (sql_update p f rows) = map key rows"
  by (simp add: sql_update_def)

lemma sql_update_count_le:
  "(\<And>r. p r \<Longrightarrow> q (f r) \<Longrightarrow> q r) \<Longrightarrow> length (filter q (sql_update p f rows)) \<le> length (filter q rows)"
  by (induction rows) (auto intro: le_SucI)

lemma set_insert_or_ignore [simp]: "set (insert_or_ignore new keys) = set new \<union> set keys"
  by (induction new arbitrary: keys) (auto simp: insert_or_ignore_def)

lemma insert_or_ignore_distinct: "distinct keys \<Longrightarrow> distinct (insert_or_ignore new keys)"
  by (induction new arbitrary: keys) (auto simp: insert_or_ignore_def)

lemma commit_simps [simp]:
  "commit db (Inl e) = (Inl e, db)" "commit db (Inr (a, db')) = (Inr a, db')"
  by (simp_all add: commit_def)

lemma find_row_Inr: "find_row p rows e = Inr r \<Longrightarrow> r \<in> set rows \<and> p r"
  by (auto simp: find_row_def find_Some_iff split: option.splits)

lemma sort_key_Nil [simp]: "sort_key f xs = [] \<longleftrightarrow> xs = []"
proof -
  have "length (sort_key f xs) = length xs" by simp
  then show ?thesis by (metis length_0_conv)
qed

lemma sort_key_hd: "sort_key f xs = x # ys \<Longrightarrow> x \<in> set xs"
  by (metis list.set_intros(1) set_sort)

lemma filter_unique_key:
  assumes "distinct (map key xs)" "x \<in> set xs" "key x = k"
  shows "filter (\<lambda>y. key y = k) xs = [x]"
  using assms
proof (induction xs)
  case (Cons a xs)
  show ?case
  proof (cases "key a = k")
    case True
    then have "\<forall>y \<in> set xs. key y \<noteq> k" using Cons.prems(1) by (simp add: image_iff) metis
    then have "filter (\<lambda>y. key y = k) xs = []" "x \<notin> set xs" using Cons.prems(3) by (auto intro: filter_False)
    with True Cons.prems(2) show ?thesis by simp
  qed (use Cons in auto)
qed simp

lemma find_unique_key:
  assumes "distinct (map key xs)" "x \<in> set xs" "key x = k"
  shows "find (\<lambda>y. key y = k) xs = Some x"
proof -
  have "find (\<lambda>y. key y = k) xs = (case filter (\<lambda>y. key y = k) xs of [] \<Rightarrow> None | y # _ \<Rightarrow> Some y)"
    by (induction xs) auto
  with filter_unique_key [OF assms] show ?thesis by simp
qed

lemma filter_sql_update:
  "(\<And>r. key (f r) = key r) \<Longrightarrow>
   filter (\<lambda>r. key r = k) (sql_update (\<lambda>r. key r = k) f rows) = map f (filter (\<lambda>r. key r = k) rows)"
  by (induction rows) auto

end
