(* ===== verification/Agent_Jobs.thy ===== *)
theory Agent_Jobs
  imports Durable_Tables
begin

text \<open>
  The background work queue: \<open>src/BoBeService/src/db/agent_job_repo.rs\<close>. Each operation is a
  function of the database, with the clock (\<open>now\<close>, nanoseconds) and the identifiers that
  \<open>Uuid::new_v4()\<close> draws as arguments. The \<open>mutation\<close> lock and the IMMEDIATE transactions make
  each transaction atomic. \<open>cancel_job\<close>, \<open>suppress_delivery\<close>, \<open>finish_delivery\<close> and \<open>recover\<close> run
  several transactions, which are also operations of their own (\<open>cancel_transaction\<close> and so on),
  so that theory Background_Work can interleave them. Waking the workers is not modelled.
\<close>

definition MAX_OUTSTANDING :: nat where "MAX_OUTSTANDING = 16"
definition MAX_RETAINED :: nat where "MAX_RETAINED = 500"
definition MAX_CONTEXT_BYTES :: nat where "MAX_CONTEXT_BYTES = 16 * 1024"

section \<open>Conditions the statements share\<close>

definition active_status :: "job_status \<Rightarrow> bool" where
  "active_status s \<longleftrightarrow> s \<in> {Queued, Running, CancelRequested, AwaitingInput}"

definition outstanding :: "database \<Rightarrow> nat" where
  "outstanding db = length (filter (\<lambda>j. active_status (j_status j)) (jobs db))"

definition open_input :: "owner_input \<Rightarrow> bool" where
  "open_input i \<longleftrightarrow> o_status i \<in> {Pending, Answered} \<and> o_resumed_job i = None"

definition has_open_input :: "uuid \<Rightarrow> database \<Rightarrow> bool" where
  "has_open_input job db \<longleftrightarrow> list_ex (\<lambda>i. o_job i = Some job \<and> open_input i) (inputs db)"

definition finished_status :: "job_status \<Rightarrow> bool" where
  "finished_status s \<longleftrightarrow> s \<in> {Completed, Failed, Cancelled, Interrupted}"

definition delivery_over :: "delivery_status \<Rightarrow> bool" where
  "delivery_over d \<longleftrightarrow> d \<in> {Committed, Presented, Suppressed}"

definition deliverable_status :: "job_status \<Rightarrow> bool" where
  "deliverable_status s \<longleftrightarrow> s \<in> {Completed, Failed, Interrupted, AwaitingInput}"

definition queue_has_capacity :: "database \<Rightarrow> bool" where
  "queue_has_capacity db \<longleftrightarrow> outstanding db < MAX_OUTSTANDING"

section \<open>Budgets\<close>

definition resolve :: "execution_limits \<Rightarrow> task_budget \<Rightarrow> app_error + (nat \<times> nat)" where
  "resolve limits budget =
     (let timeout = (case budget_timeout budget of
            Some t \<Rightarrow> t | None \<Rightarrow> min 1800 (task_timeout_seconds limits));
          turns = (case budget_turns budget of
            Some n \<Rightarrow> n | None \<Rightarrow> min 64 (task_max_turns limits))
      in if timeout = 0 \<or> timeout > task_timeout_seconds limits \<or>
            turns = 0 \<or> turns > task_max_turns limits
         then Inl (Validation ''task budget must fit owner ceilings'')
         else Inr (timeout, turns))"

definition clamp_budget :: "execution_limits \<Rightarrow> task_budget \<Rightarrow> task_budget" where
  "clamp_budget limits budget =
     \<lparr>budget_timeout = map_option (\<lambda>t. min t (task_timeout_seconds limits)) (budget_timeout budget),
      budget_turns = map_option (\<lambda>n. min n (task_max_turns limits)) (budget_turns budget)\<rparr>"

section \<open>Submitting\<close>

definition insert_job :: "agent_job \<Rightarrow> database \<Rightarrow> app_error + database" where
  "insert_job j db =
     (if list_ex (\<lambda>r. j_id r = j_id j \<or> j_source_key r = j_source_key j \<or>
           j_delivery_id r = j_delivery_id j) (jobs db)
      then Inl (Database ''UNIQUE constraint failed'')
      else Inr (db\<lparr>jobs := jobs db @ [j]\<rparr>))"

definition new_job ::
  "int \<Rightarrow> uuid \<Rightarrow> uuid \<Rightarrow> rtext \<Rightarrow> job_input \<Rightarrow> nat \<Rightarrow> nat \<Rightarrow> workload_route \<Rightarrow> agent_job" where
  "new_job now jid delivery source_key input timeout turns route =
     \<lparr>j_id = jid, j_source_key = source_key, j_channel = in_channel input, j_goal = in_goal input,
      j_schedule = in_schedule input, j_title = in_title input, j_task = in_task input,
      j_context = in_context input, j_resume_context = [], j_timeout_seconds = timeout,
      j_max_turns = turns, j_budget = in_budget input, j_profile = route_profile route,
      j_model = route_model route, j_effort = route_effort route, j_status = Queued,
      j_attempt = 1, j_session = None, j_output = None, j_error = None, j_delivery_id = delivery,
      j_delivery = DeliveryPending, j_delivery_after = None, j_created_at = millis now,
      j_updated_at = millis now\<rparr>"

definition same_work :: "agent_job \<Rightarrow> job_input \<Rightarrow> bool" where
  "same_work existing input \<longleftrightarrow>
     j_task existing = in_task input \<and> j_context existing = in_context input \<and>
     j_title existing = in_title input \<and> j_channel existing = in_channel input \<and>
     j_goal existing = in_goal input \<and> j_schedule existing = in_schedule input \<and>
     j_budget existing = in_budget input"

definition enqueue_in ::
  "execution_limits \<Rightarrow> int \<Rightarrow> uuid \<Rightarrow> uuid \<Rightarrow> rtext \<Rightarrow> job_input \<Rightarrow> workload_route \<Rightarrow> database \<Rightarrow>
     app_error + agent_job \<times> database" where
  "enqueue_in limits now jid delivery source_key input route db =
     (if trim (in_title input) = [] \<or> str_len (in_title input) > 160 \<or>
         trim (in_task input) = [] \<or> str_len (in_task input) > 32 * 1024 \<or>
         str_len (in_context input) > MAX_CONTEXT_BYTES
      then Inl (Validation ''background work requires a title, task and bounded context'')
      else case find (\<lambda>j. j_source_key j = source_key) (jobs db) of
        Some existing \<Rightarrow>
          if \<not> same_work existing input
          then Inl (Conflict ''background request identity was reused with different work'')
          else Inr (existing, db)
      | None \<Rightarrow>
          (case resolve limits (in_budget input) of
             Inl e \<Rightarrow> Inl e
           | Inr (timeout, turns) \<Rightarrow>
               if source_key \<in> set (tombstones db)
               then Inl (RequestReplayUnsafe ''This task was retired and its old creation request cannot be repeated.'')
               else if MAX_OUTSTANDING \<le> outstanding db
               then Inl (Conflict ''the background work queue is full; finish or cancel work before starting more'')
               else let j = new_job now jid delivery source_key input timeout turns route in
                 case insert_job j db of Inl e \<Rightarrow> Inl e | Inr db' \<Rightarrow> Inr (j, db')))"

definition submit ::
  "execution_limits \<Rightarrow> int \<Rightarrow> uuid \<Rightarrow> uuid \<Rightarrow> rtext \<Rightarrow> job_input \<Rightarrow> workload_route \<Rightarrow> database \<Rightarrow>
     agent_job outcome" where
  "submit limits now jid delivery source_key input route db =
     commit db (enqueue_in limits now jid delivery source_key input route db)"

section \<open>Reading\<close>

definition get_job :: "uuid \<Rightarrow> database \<Rightarrow> app_error + agent_job" where
  "get_job jid db = find_row (\<lambda>j. j_id j = jid) (jobs db) (NotFound ''background job was not found'')"

definition list_jobs :: "database \<Rightarrow> agent_job list" where
  "list_jobs db = take 100 (sort_key (\<lambda>j. (- j_created_at j, - uint (j_id j))) (jobs db))"

definition next_queued :: "database \<Rightarrow> uuid option" where
  "next_queued db = map_option j_id (find (\<lambda>j. j_status j = Queued) (jobs db))"

definition next_delivery :: "int \<Rightarrow> database \<Rightarrow> uuid option" where
  "next_delivery now db =
     (case sort_key (\<lambda>j. (j_updated_at j, uint (j_id j)))
        (filter (\<lambda>j. deliverable_status (j_status j) \<and> j_delivery j = DeliveryPending \<and>
           (case j_delivery_after j of None \<Rightarrow> True | Some t \<Rightarrow> t \<le> millis now)) (jobs db)) of
        [] \<Rightarrow> None | j # _ \<Rightarrow> Some (j_id j))"

section \<open>Running\<close>

definition claim :: "execution_limits \<Rightarrow> int \<Rightarrow> uuid \<Rightarrow> database \<Rightarrow> bool \<times> database" where
  "claim limits now jid db =
     (list_ex (\<lambda>j. j_id j = jid \<and> j_status j = Queued) (jobs db),
      update_jobs (\<lambda>j. j_id j = jid \<and> j_status j = Queued)
        (\<lambda>j. j\<lparr>j_status := Running,
           j_timeout_seconds := min (case budget_timeout (j_budget j) of None \<Rightarrow> 1800 | Some t \<Rightarrow> t)
             (task_timeout_seconds limits),
           j_max_turns := min (case budget_turns (j_budget j) of None \<Rightarrow> 64 | Some n \<Rightarrow> n)
             (task_max_turns limits),
           j_updated_at := millis now\<rparr>) db)"

definition finish ::
  "int \<Rightarrow> uuid \<Rightarrow> job_status \<Rightarrow> rtext option \<Rightarrow> rtext option \<Rightarrow> rtext option \<Rightarrow> database \<Rightarrow> database" where
  "finish now jid status output session_id error db =
     (let refused = list_ex (\<lambda>i. o_job i = Some jid \<and> \<not> o_origin_settled i \<and>
            o_status i \<in> {Declined, InputCancelled, Expired}) (inputs db);
          db1 = update_jobs (\<lambda>j. j_id j = jid \<and> j_status j \<in> {Running, CancelRequested})
            (\<lambda>j. j\<lparr>j_status :=
                 (if j_status j = CancelRequested then Cancelled
                  else if has_open_input jid db then AwaitingInput
                  else if refused then Cancelled else status),
               j_output := output,
               j_session := (case session_id of Some s \<Rightarrow> Some s | None \<Rightarrow> j_session j),
               j_error := error, j_updated_at := millis now\<rparr>) db;
          db2 = update_inputs (\<lambda>i. o_origin_run i = jid) (\<lambda>i. i\<lparr>o_origin_settled := True\<rparr>) db1
      in update_jobs (\<lambda>j. j_id j = jid \<and> (j_status j = Cancelled \<or>
           list_ex (\<lambda>i. o_job i = Some jid \<and> o_status i = Answered \<and> o_resumed_job i = None)
             (inputs db2)))
           (\<lambda>j. j\<lparr>j_delivery := Suppressed\<rparr>) db2)"

section \<open>Retention\<close>

definition closed_input :: "owner_input \<Rightarrow> bool" where
  "closed_input i \<longleftrightarrow> o_status i \<noteq> Pending \<and> (o_status i \<noteq> Answered \<or> o_resumed_job i \<noteq> None)"

definition delivered_job :: "agent_job \<Rightarrow> bool" where
  "delivered_job j \<longleftrightarrow> delivery_over (j_delivery j) \<and> finished_status (j_status j)"

definition spent_schedule :: "database \<Rightarrow> agent_schedule \<Rightarrow> bool" where
  "spent_schedule db s \<longleftrightarrow> \<not> s_enabled s \<and> s_every_seconds s = None \<and>
     (case s_last_job s of None \<Rightarrow> False
      | Some job \<Rightarrow> \<not> list_ex (\<lambda>j. j_id j = job \<and> j_status j \<in> {Queued, Running, CancelRequested})
          (jobs db))"

definition input_key :: "rtext \<Rightarrow> rtext" where "input_key k = lit ''input:'' @ k"
definition schedule_key :: "rtext \<Rightarrow> rtext" where "schedule_key k = lit ''schedule:'' @ k"

definition retire :: "rtext list \<Rightarrow> database \<Rightarrow> database" where
  "retire keys db = db\<lparr>tombstones := insert_or_ignore keys (tombstones db)\<rparr>"

definition prune_inputs :: "database \<Rightarrow> database" where
  "prune_inputs db0 =
     (let db = retire (map (\<lambda>i. input_key (o_source_key i))
            (drop MAX_RETAINED (sort_key (\<lambda>i. - o_created_at i) (filter closed_input (inputs db0))))) db0;
          gone = (\<lambda>i. input_key (o_source_key i) \<in> set (tombstones db) \<and> closed_input i);
          kept = filter (\<lambda>i. \<not> gone i) (inputs db)
      in db\<lparr>inputs := kept,
            input_presentations := filter (\<lambda>p. \<not> list_ex (\<lambda>i. gone i \<and> o_id i = p_input p) (inputs db))
              (input_presentations db)\<rparr>)"

definition prune_jobs :: "database \<Rightarrow> database" where
  "prune_jobs db0 =
     (let db = retire (map j_source_key
            (drop MAX_RETAINED (sort_key (\<lambda>j. - j_updated_at j) (filter delivered_job (jobs db0))))) db0
      in db\<lparr>jobs := filter (\<lambda>j. \<not> (j_source_key j \<in> set (tombstones db) \<and> delivered_job j)) (jobs db)\<rparr>)"

definition prune_schedules :: "database \<Rightarrow> database" where
  "prune_schedules db0 =
     (let db = retire (map (\<lambda>s. schedule_key (s_source_key s))
            (drop MAX_RETAINED (sort_key (\<lambda>s. - s_updated_at s) (filter (spent_schedule db0) (schedules db0))))) db0
      in db\<lparr>schedules := filter (\<lambda>s. \<not> (\<not> s_enabled s \<and> schedule_key (s_source_key s) \<in> set (tombstones db)))
            (schedules db)\<rparr>)"

definition prune :: "database \<Rightarrow> database" where
  "prune db = prune_schedules (prune_jobs (prune_inputs db))"

section \<open>Cancelling and resuming\<close>

definition cancel_transaction :: "int \<Rightarrow> uuid \<Rightarrow> database \<Rightarrow> database" where
  "cancel_transaction now jid db =
     (let db1 = update_jobs (\<lambda>j. j_id j = jid \<and> j_status j \<in> {Queued, Running, AwaitingInput})
        (\<lambda>j. j\<lparr>j_status := (if j_status j \<in> {Queued, AwaitingInput} then Cancelled else CancelRequested),
           j_delivery := Suppressed, j_updated_at := millis now\<rparr>) db
      in update_inputs (\<lambda>i. o_job i = Some jid \<and> open_input i)
           (\<lambda>i. i\<lparr>o_status := InputCancelled\<rparr>) db1)"

definition cancel_job :: "int \<Rightarrow> uuid \<Rightarrow> database \<Rightarrow> agent_job outcome" where
  "cancel_job now jid db =
     (let db1 = cancel_transaction now jid db in
      case get_job jid db1 of Inl e \<Rightarrow> (Inl e, db1) | Inr job \<Rightarrow> (Inr job, prune db1))"

definition resume_in ::
  "int \<Rightarrow> uuid \<Rightarrow> uuid \<Rightarrow> rtext option \<Rightarrow> database \<Rightarrow> app_error + agent_job \<times> database" where
  "resume_in now delivery jid source db =
     (if MAX_OUTSTANDING \<le> outstanding db then Inl (Conflict ''the background work queue is full'')
      else
        let db1 = (case source of
              None \<Rightarrow> db
            | Some src \<Rightarrow> retire (map j_source_key
                (filter (\<lambda>j. j_id j = jid \<and> j_source_key j \<noteq> src) (jobs db))) db);
            p = (\<lambda>j. j_id j = jid \<and> j_status j \<in> {Interrupted, Failed} \<and> j_delivery j \<noteq> Delivering \<and>
              \<not> has_open_input jid db1);
            f = (\<lambda>j. j\<lparr>j_status := Queued, j_attempt := j_attempt j + 1, j_error := None,
              j_output := None, j_delivery := DeliveryPending, j_delivery_after := None,
              j_delivery_id := delivery,
              j_source_key := (case source of Some src \<Rightarrow> src | None \<Rightarrow> j_source_key j),
              j_channel := (if j_goal j \<noteq> None then None else j_channel j),
              j_updated_at := millis now\<rparr>);
            db2 = update_jobs p f db1
        in case find p (jobs db1) of
             None \<Rightarrow> Inl (Conflict ''only failed or interrupted background work with no result delivery in progress can be resumed'')
           | Some j \<Rightarrow>
               if list_ex (\<lambda>r. j_id r \<noteq> jid \<and> (j_delivery_id r = delivery \<or>
                    j_source_key r = j_source_key (f j))) (jobs db1)
               then Inl (Database ''UNIQUE constraint failed'')
               else Inr (f j, db2))"

definition resume :: "int \<Rightarrow> uuid \<Rightarrow> uuid \<Rightarrow> database \<Rightarrow> agent_job outcome" where
  "resume now delivery jid db = commit db (resume_in now delivery jid None db)"

section \<open>Delivering results\<close>

definition defer_delivery :: "int \<Rightarrow> uuid \<Rightarrow> uuid \<Rightarrow> nat \<Rightarrow> database \<Rightarrow> database" where
  "defer_delivery now jid delivery seconds db =
     update_jobs (\<lambda>j. j_id j = jid \<and> j_delivery_id j = delivery \<and>
         j_delivery j \<in> {DeliveryPending, Delivering})
       (\<lambda>j. j\<lparr>j_delivery := DeliveryPending,
          j_delivery_after := Some (millis (now + int (max 30 (min 3600 seconds)) * 1000000000))\<rparr>) db"

definition suppress_transaction :: "uuid \<Rightarrow> uuid \<Rightarrow> database \<Rightarrow> database" where
  "suppress_transaction jid delivery db =
     update_jobs (\<lambda>j. j_id j = jid \<and> j_delivery_id j = delivery \<and> j_delivery j = DeliveryPending)
       (\<lambda>j. j\<lparr>j_delivery := Suppressed\<rparr>) db"

definition suppress_delivery :: "uuid \<Rightarrow> uuid \<Rightarrow> database \<Rightarrow> database" where
  "suppress_delivery jid delivery db = prune (suppress_transaction jid delivery db)"

definition claimable :: "uuid \<Rightarrow> uuid \<Rightarrow> agent_job \<Rightarrow> bool" where
  "claimable jid delivery j \<longleftrightarrow> j_id j = jid \<and> j_delivery_id j = delivery \<and>
     j_delivery j = DeliveryPending \<and> deliverable_status (j_status j)"

definition claim_delivery :: "uuid \<Rightarrow> uuid \<Rightarrow> uuid \<Rightarrow> database \<Rightarrow> agent_job option \<times> database" where
  "claim_delivery jid delivery channel db =
     (let f = (\<lambda>j. j\<lparr>j_delivery := Delivering,
            j_channel := (if j_goal j \<noteq> None then Some channel
              else case j_channel j of Some c \<Rightarrow> Some c | None \<Rightarrow> Some channel)\<rparr>)
      in (map_option f (find (claimable jid delivery) (jobs db)),
          update_jobs (claimable jid delivery) f db))"

definition turn_complete :: "uuid \<Rightarrow> database \<Rightarrow> bool" where
  "turn_complete turn db \<longleftrightarrow> list_ex (\<lambda>t. t_id t = turn \<and> t_complete t) (conversation_turns db)"

definition turn_presented :: "uuid \<Rightarrow> uuid option \<Rightarrow> database \<Rightarrow> bool" where
  "turn_presented turn channel db \<longleftrightarrow>
     list_ex (\<lambda>p. tp_turn p = turn \<and> Some (tp_channel p) = channel) (conversation_presentations db)"

definition finish_delivery_transaction ::
  "int \<Rightarrow> uuid \<Rightarrow> uuid \<Rightarrow> bool \<Rightarrow> database \<Rightarrow> unit outcome" where
  "finish_delivery_transaction now jid delivery succeeded db =
     (let p = (\<lambda>j. j_id j = jid \<and> j_delivery_id j = delivery \<and> j_delivery j \<in> {Delivering, Presented})
      in if \<not> list_ex p (jobs db)
         then (Inl (Conflict ''background result delivery no longer belongs to this attempt''), db)
         else (Inr (), update_jobs p
           (\<lambda>j. j\<lparr>j_delivery :=
               (if turn_presented delivery (j_channel j) db then Presented
                else if turn_complete delivery db then Committed
                else if succeeded then Suppressed else DeliveryInterrupted),
              j_updated_at := millis now\<rparr>) db))"

definition finish_delivery :: "int \<Rightarrow> uuid \<Rightarrow> uuid \<Rightarrow> bool \<Rightarrow> database \<Rightarrow> unit outcome" where
  "finish_delivery now jid delivery succeeded db =
     (case finish_delivery_transaction now jid delivery succeeded db of
        (Inl e, db1) \<Rightarrow> (Inl e, db1) | (Inr u, db1) \<Rightarrow> (Inr u, prune db1))"

section \<open>Recovery after a restart\<close>

definition recover_jobs :: "int \<Rightarrow> database \<Rightarrow> database" where
  "recover_jobs now db =
     update_jobs (\<lambda>j. j_status j \<in> {Running, CancelRequested})
       (\<lambda>j. j\<lparr>j_status := (if j_status j = CancelRequested then Cancelled
            else if has_open_input (j_id j) db then AwaitingInput else Interrupted),
          j_error := Some (lit ''Daemon stopped during execution; external effects may be incomplete. Inspect before resuming.''),
          j_updated_at := millis now\<rparr>) db"

definition recover_deliveries :: "database \<Rightarrow> database" where
  "recover_deliveries db =
     (let db1 = update_jobs (\<lambda>j. j_delivery j = Delivering)
        (\<lambda>j. j\<lparr>j_delivery := (if turn_complete (j_delivery_id j) db then Committed
           else DeliveryInterrupted)\<rparr>) db
      in update_jobs (\<lambda>j. j_delivery j = Committed \<and> turn_presented (j_delivery_id j) (j_channel j) db1)
           (\<lambda>j. j\<lparr>j_delivery := Presented\<rparr>) db1)"

definition recover_transaction :: "int \<Rightarrow> database \<Rightarrow> database" where
  "recover_transaction now db =
     (let db1 = update_inputs (\<lambda>i. \<not> o_origin_settled i) (\<lambda>i. i\<lparr>o_origin_settled := True\<rparr>) db;
          db2 = recover_jobs now db1;
          db3 = update_inputs (\<lambda>i. open_input i \<and>
              list_ex (\<lambda>j. Some (j_id j) = o_job i \<and> j_status j = Cancelled) (jobs db2))
            (\<lambda>i. i\<lparr>o_status := InputCancelled\<rparr>) db2
      in recover_deliveries db3)"

definition expire_owner_inputs :: "int \<Rightarrow> database \<Rightarrow> database" where
  "expire_owner_inputs now db =
     (let db1 = update_inputs (\<lambda>i. o_status i = Pending \<and> o_expires_at i \<le> now)
            (\<lambda>i. i\<lparr>o_status := Expired\<rparr>) db
      in update_jobs (\<lambda>j. j_status j = AwaitingInput \<and>
             list_ex (\<lambda>i. o_job i = Some (j_id j) \<and> o_status i \<in> {Expired, InputCancelled, Declined})
               (inputs db1))
           (\<lambda>j. j\<lparr>j_status := Cancelled, j_delivery := Suppressed\<rparr>) db1)"

definition recover :: "int \<Rightarrow> database \<Rightarrow> database" where
  "recover now db = prune (expire_owner_inputs now (recover_transaction now db))"

end
