(* ===== verification/Conversations.thy ===== *)
theory Conversations
  imports Agent_Jobs
begin

text \<open>
  Conversations and their turns: \<open>src/BoBeService/src/models/conversation.rs\<close>,
  \<open>db/conversation_repo.rs\<close> and \<open>runtime/conversation_service.rs\<close>. The repository's operations are
  functions of the database; the service's are functions of the database and the drafts of the
  assistant turns that are streaming, one per conversation. The service runs under its
  \<open>lifecycle_lock\<close>, except \<open>push_assistant_stream_delta\<close>, which touches a draft only. An operation
  that fails half way keeps what it has already done, as in the code.

  Full-text recall (\<open>recall\<close>) reads only and is left out: it rests on SQLite's text functions.
\<close>

section \<open>The repository\<close>

definition open_state :: "conversation \<Rightarrow> bool" where
  "open_state c \<longleftrightarrow> c_state c \<in> {PendingConversation, ActiveConversation}"

definition save_conversation :: "conversation \<Rightarrow> database \<Rightarrow> database" where
  "save_conversation c db =
     (if list_ex (\<lambda>r. c_id r = c_id c) (conversations db)
      then db\<lparr>conversations := sql_update (\<lambda>r. c_id r = c_id c)
             (\<lambda>r. r\<lparr>c_state := c_state c, c_closed_at := c_closed_at c, c_updated_at := c_updated_at c\<rparr>)
             (conversations db)\<rparr>
      else db\<lparr>conversations := conversations db @ [c]\<rparr>)"

definition conversation_by_id :: "uuid \<Rightarrow> database \<Rightarrow> conversation option" where
  "conversation_by_id cid db = find (\<lambda>c. c_id c = cid) (conversations db)"

definition get_open_in_channel :: "uuid option \<Rightarrow> database \<Rightarrow> conversation option" where
  "get_open_in_channel channel db =
     (case sort_key (\<lambda>c. - c_updated_at c)
        (filter (\<lambda>c. open_state c \<and> (channel = None \<or> Some (c_channel c) = channel)) (conversations db)) of
        [] \<Rightarrow> None | c # _ \<Rightarrow> Some c)"

definition get_pending_or_active :: "database \<Rightarrow> conversation option" where
  "get_pending_or_active db = get_open_in_channel None db"

definition closed_order :: "conversation \<Rightarrow> nat \<times> int" where
  "closed_order c = (case c_closed_at c of Some t \<Rightarrow> (0, - t) | None \<Rightarrow> (1, 0))"

definition get_last_closed_with_turns :: "uuid option \<Rightarrow> database \<Rightarrow> conversation option" where
  "get_last_closed_with_turns channel db =
     (case sort_key closed_order
        (filter (\<lambda>c. c_state c = ClosedConversation \<and> (channel = None \<or> Some (c_channel c) = channel) \<and>
           list_ex (\<lambda>t. t_conversation t = c_id c) (conversation_turns db)) (conversations db)) of
        [] \<Rightarrow> None | c # _ \<Rightarrow> Some c)"

definition delete_if_empty_pending :: "uuid \<Rightarrow> database \<Rightarrow> bool \<times> database" where
  "delete_if_empty_pending cid db =
     (let p = (\<lambda>c. c_id c = cid \<and> c_state c = PendingConversation \<and>
            \<not> list_ex (\<lambda>t. t_conversation t = cid) (conversation_turns db))
      in (list_ex p (conversations db),
          db\<lparr>conversations := filter (\<lambda>c. \<not> p c) (conversations db)\<rparr>))"

definition update_state :: "int \<Rightarrow> uuid \<Rightarrow> conversation_state \<Rightarrow> database \<Rightarrow> conversation option \<times> database" where
  "update_state now cid state db =
     (let db1 = db\<lparr>conversations := sql_update (\<lambda>c. c_id c = cid)
            (\<lambda>c. c\<lparr>c_state := state,
               c_closed_at := (if state = ClosedConversation then Some now else c_closed_at c),
               c_updated_at := now\<rparr>) (conversations db)\<rparr>
      in if list_ex (\<lambda>c. c_id c = cid) (conversations db)
         then (conversation_by_id cid db1, db1) else (None, db1))"

definition add_turn :: "int \<Rightarrow> conversation_turn \<Rightarrow> database \<Rightarrow> conversation_turn outcome" where
  "add_turn now t db =
     (case conversation_by_id (t_conversation t) db of
        None \<Rightarrow> (Inl (NotFound ''Conversation not found''), db)
      | Some c \<Rightarrow>
          if c_state c = ClosedConversation
          then (Inl (Validation ''Cannot add turn to closed conversation''), db)
          else if list_ex (\<lambda>r. t_id r = t_id t) (conversation_turns db)
          then (Inl (Database ''UNIQUE constraint failed''), db)
          else (Inr t, db\<lparr>conversation_turns := conversation_turns db @ [t],
            conversations := sql_update (\<lambda>r. c_id r = t_conversation t)
              (\<lambda>r. r\<lparr>c_updated_at := now\<rparr>) (conversations db)\<rparr>))"

definition update_turn_content_and_completion ::
  "int \<Rightarrow> uuid \<Rightarrow> rtext \<Rightarrow> bool \<Rightarrow> database \<Rightarrow> conversation_turn option \<times> database" where
  "update_turn_content_and_completion now tid content is_complete db =
     (case find (\<lambda>t. t_id t = tid) (conversation_turns db) of
        None \<Rightarrow> (None, db)
      | Some t \<Rightarrow>
          let f = (\<lambda>r. r\<lparr>t_content := content, t_complete := is_complete, t_updated_at := now\<rparr>) in
          (Some (f t),
           db\<lparr>conversation_turns := sql_update (\<lambda>r. t_id r = tid) f (conversation_turns db),
              conversations := sql_update (\<lambda>c. c_id c = t_conversation t)
                (\<lambda>c. c\<lparr>c_updated_at := now\<rparr>) (conversations db)\<rparr>))"

definition get_recent_turns :: "uuid \<Rightarrow> nat \<Rightarrow> database \<Rightarrow> conversation_turn list" where
  "get_recent_turns cid limit db =
     sort_key (\<lambda>t. (t_created_at t, uint (t_id t)))
       (take limit (sort_key (\<lambda>t. (- t_created_at t, - uint (t_id t)))
         (filter (\<lambda>t. t_conversation t = cid) (conversation_turns db))))"

fun latest :: "int list \<Rightarrow> int option" where
  "latest [] = None"
| "latest (t # ts) = (case latest ts of None \<Rightarrow> Some t | Some u \<Rightarrow> Some (max t u))"

definition last_user_turn_at :: "uuid \<Rightarrow> database \<Rightarrow> int option" where
  "last_user_turn_at cid db = latest (map t_created_at
     (filter (\<lambda>t. t_conversation t = cid \<and> t_role t = UserRole) (conversation_turns db)))"

definition latest_user_turn_at :: "database \<Rightarrow> int option" where
  "latest_user_turn_at db = latest (map t_created_at
     (filter (\<lambda>t. t_role t = UserRole) (conversation_turns db)))"

definition count_turns :: "uuid \<Rightarrow> database \<Rightarrow> nat" where
  "count_turns cid db = length (filter (\<lambda>t. t_conversation t = cid) (conversation_turns db))"

definition list_open :: "database \<Rightarrow> conversation list" where
  "list_open db = sort_key (\<lambda>c. (c_updated_at c, uint (c_id c))) (filter open_state (conversations db))"

section \<open>Presentation\<close>

definition turn_channel :: "database \<Rightarrow> conversation_turn \<Rightarrow> uuid \<Rightarrow> bool" where
  "turn_channel db t channel \<longleftrightarrow>
     list_ex (\<lambda>c. c_id c = t_conversation t \<and> c_channel c = channel) (conversations db)"

definition acknowledge_presentation :: "int \<Rightarrow> uuid \<Rightarrow> uuid \<Rightarrow> database \<Rightarrow> unit outcome" where
  "acknowledge_presentation now turn channel db =
     (if \<not> list_ex (\<lambda>t. t_id t = turn \<and> turn_channel db t channel \<and> t_role t = AssistantRole \<and>
             t_complete t) (conversation_turns db)
      then (Inl (NotFound ''complete response was not found in this channel''), db)
      else
        let db1 = (if list_ex (\<lambda>p. tp_turn p = turn \<and> tp_channel p = channel) (conversation_presentations db)
                   then db
                   else db\<lparr>conversation_presentations := conversation_presentations db @
                     [\<lparr>tp_turn = turn, tp_channel = channel, tp_presented_at = now\<rparr>]\<rparr>);
            db2 = update_jobs (\<lambda>j. j_delivery_id j = turn \<and> j_channel j = Some channel \<and>
                j_delivery j \<in> {Delivering, Committed}) (\<lambda>j. j\<lparr>j_delivery := Presented\<rparr>) db1
        in (Inr (), db2\<lparr>input_presentations :=
             sql_update (\<lambda>p. p_turn p = Some turn \<and> p_channel p = channel \<and>
                 list_ex (\<lambda>i. o_id i = p_input p \<and> o_status i = Pending \<and> o_expires_at i > now) (inputs db2))
               (\<lambda>p. p\<lparr>p_presented_at :=
                  (case p_presented_at p of None \<Rightarrow> Some now | Some t \<Rightarrow> Some t)\<rparr>)
               (input_presentations db2)\<rparr>))"

definition unpresented_updates :: "uuid \<Rightarrow> database \<Rightarrow> conversation_turn list" where
  "unpresented_updates channel db =
     take 100 (sort_key t_created_at (filter (\<lambda>t.
       turn_channel db t channel \<and> t_role t = AssistantRole \<and> t_complete t \<and>
       (list_ex (\<lambda>j. j_delivery_id j = t_id t \<and> j_delivery j = Committed) (jobs db) \<or>
        list_ex (\<lambda>p. p_turn p = Some (t_id t) \<and> p_presented_at p = None \<and>
          list_ex (\<lambda>i. o_id i = p_input p \<and> o_status i = Pending) (inputs db)) (input_presentations db)) \<and>
       \<not> turn_presented (t_id t) (Some channel) db) (conversation_turns db)))"

section \<open>The service\<close>

record streaming_turn =
  draft_turn :: conversation_turn
  persisted :: bool

record conversation_service =
  store :: database
  drafts :: "(uuid, streaming_turn) hmap"

type_synonym 'a service = "(app_error + 'a) \<times> conversation_service"

definition and_then ::
  "'a service \<Rightarrow> ('a \<Rightarrow> conversation_service \<Rightarrow> 'b service) \<Rightarrow> 'b service" where
  "and_then r k = (case r of (Inl e, s) \<Rightarrow> (Inl e, s) | (Inr a, s) \<Rightarrow> k a s)"

definition on_store :: "conversation_service \<Rightarrow> 'a outcome \<Rightarrow> 'a service" where
  "on_store s r = (fst r, s\<lparr>store := snd r\<rparr>)"

definition new_conversation :: "int \<Rightarrow> uuid \<Rightarrow> conversation_state \<Rightarrow> uuid \<Rightarrow> conversation" where
  "new_conversation now cid state channel =
     \<lparr>c_id = cid, c_channel = channel, c_state = state, c_closed_at = None,
      c_created_at = now, c_updated_at = now\<rparr>"

definition new_turn :: "int \<Rightarrow> uuid \<Rightarrow> uuid \<Rightarrow> turn_role \<Rightarrow> rtext \<Rightarrow> bool \<Rightarrow> conversation_turn" where
  "new_turn now tid cid role content is_complete =
     \<lparr>t_id = tid, t_role = role, t_content = content, t_complete = is_complete,
      t_conversation = cid, t_created_at = now, t_updated_at = now\<rparr>"

definition is_stale_since :: "int \<Rightarrow> int \<Rightarrow> int option \<Rightarrow> conversation \<Rightarrow> bool" where
  "is_stale_since now auto_close_minutes last_user_at c \<longleftrightarrow>
     now - (case last_user_at of None \<Rightarrow> c_created_at c | Some t \<Rightarrow> t) \<ge>
     auto_close_minutes * 60 * 1000000000"

definition begin_assistant_stream_locked ::
  "int \<Rightarrow> uuid \<Rightarrow> uuid \<Rightarrow> conversation_service \<Rightarrow> conversation_service" where
  "begin_assistant_stream_locked now cid tid s =
     s\<lparr>drafts := hm_insert cid
        \<lparr>draft_turn = new_turn now tid cid AssistantRole [] False, persisted = False\<rparr> (drafts s)\<rparr>"

definition set_persisted :: "uuid \<Rightarrow> uuid \<Rightarrow> conversation_service \<Rightarrow> conversation_service" where
  "set_persisted cid tid s =
     s\<lparr>drafts := hm_modify cid (\<lambda>d. if t_id (draft_turn d) = tid then d\<lparr>persisted := True\<rparr> else d) (drafts s)\<rparr>"

definition sync_streaming_assistant_turn_locked ::
  "int \<Rightarrow> uuid \<Rightarrow> conversation_service \<Rightarrow> unit service" where
  "sync_streaming_assistant_turn_locked now cid s =
     (case hm_get (drafts s) cid of
        None \<Rightarrow> (Inr (), s)
      | Some d \<Rightarrow>
          let t = draft_turn d in
          if t_content t = [] then (Inr (), s)
          else if persisted d
          then (Inr (), s\<lparr>store := snd (update_turn_content_and_completion now (t_id t) (t_content t)
                 (t_complete t) (store s))\<rparr>)
          else and_then (on_store s (add_turn now t (store s)))
                 (\<lambda>_ s1. (Inr (), set_persisted cid (t_id t) s1)))"

definition open_or_create_pending_locked ::
  "int \<Rightarrow> uuid \<Rightarrow> uuid \<Rightarrow> conversation_service \<Rightarrow> conversation \<times> conversation_service" where
  "open_or_create_pending_locked now new_id channel s =
     (case get_open_in_channel (Some channel) (store s) of
        Some c \<Rightarrow> (c, s)
      | None \<Rightarrow>
          let c = new_conversation now new_id PendingConversation channel
          in (c, s\<lparr>store := save_conversation c (store s)\<rparr>))"

definition create_active_unlocked ::
  "int \<Rightarrow> uuid \<Rightarrow> uuid \<Rightarrow> rtext \<Rightarrow> uuid \<Rightarrow> conversation_service \<Rightarrow> conversation service" where
  "create_active_unlocked now new_id tid message channel s =
     (let c = new_conversation now new_id ActiveConversation channel;
          s1 = s\<lparr>store := save_conversation c (store s)\<rparr>
      in and_then (on_store s1 (add_turn now (new_turn now tid new_id UserRole message True) (store s1)))
           (\<lambda>_ s2. (Inr c, s2)))"

definition append_user_turn_or_create_active ::
  "int \<Rightarrow> uuid \<Rightarrow> uuid \<Rightarrow> rtext \<Rightarrow> uuid \<Rightarrow> conversation_service \<Rightarrow> conversation service" where
  "append_user_turn_or_create_active now new_id tid message channel s =
     (case get_open_in_channel (Some channel) (store s) of
        None \<Rightarrow> create_active_unlocked now new_id tid message channel s
      | Some c \<Rightarrow>
          and_then (sync_streaming_assistant_turn_locked now (c_id c) s) (\<lambda>_ s1.
            let (activated, s2) =
              (if c_state c = PendingConversation
               then (let (r, db) = update_state now (c_id c) ActiveConversation (store s1)
                     in (r, s1\<lparr>store := db\<rparr>))
               else (Some c, s1))
            in case activated of
                 None \<Rightarrow> (Inl (NotFound ''Conversation not found while activating pending conversation''), s2)
               | Some c2 \<Rightarrow>
                   and_then (on_store s2
                     (add_turn now (new_turn now tid (c_id c2) UserRole message True) (store s2)))
                     (\<lambda>_ s3. (Inr c2, s3))))"

definition begin_proactive_stream ::
  "int \<Rightarrow> uuid \<Rightarrow> uuid \<Rightarrow> conversation option \<Rightarrow> conversation_service \<Rightarrow>
     (conversation \<times> uuid) \<times> conversation_service" where
  "begin_proactive_stream now new_id tid preferred s =
     (let (c, s1) = (case preferred of
            Some p \<Rightarrow>
              (case conversation_by_id (c_id p) (store s) of
                 Some current \<Rightarrow>
                   if c_state current \<noteq> ClosedConversation then (current, s)
                   else open_or_create_pending_locked now new_id (c_channel p) s
               | None \<Rightarrow> open_or_create_pending_locked now new_id (c_channel p) s)
          | None \<Rightarrow> open_or_create_pending_locked now new_id owner_channel s)
      in ((c, tid), begin_assistant_stream_locked now (c_id c) tid s1))"

definition begin_assistant_stream ::
  "int \<Rightarrow> uuid \<Rightarrow> uuid \<Rightarrow> conversation_service \<Rightarrow> unit service" where
  "begin_assistant_stream now cid tid s =
     and_then (sync_streaming_assistant_turn_locked now cid s)
       (\<lambda>_ s1. (Inr (), begin_assistant_stream_locked now cid tid s1))"

definition push_assistant_stream_delta ::
  "int \<Rightarrow> uuid \<Rightarrow> rtext \<Rightarrow> conversation_service \<Rightarrow> conversation_service" where
  "push_assistant_stream_delta now cid delta s =
     (if delta = [] then s
      else s\<lparr>drafts := hm_modify cid
        (\<lambda>d. d\<lparr>draft_turn := (draft_turn d)\<lparr>t_content := t_content (draft_turn d) @ delta,
           t_updated_at := now\<rparr>\<rparr>) (drafts s)\<rparr>)"

text \<open>Writing a draft that is over: an update when a part of it is already stored.\<close>

definition store_draft ::
  "int \<Rightarrow> streaming_turn \<Rightarrow> conversation_service \<Rightarrow> conversation_turn option service" where
  "store_draft now d s =
     (let t = draft_turn d in
      if persisted d
      then (let (r, db) = update_turn_content_and_completion now (t_id t) (t_content t) (t_complete t) (store s)
            in (Inr r, s\<lparr>store := db\<rparr>))
      else and_then (on_store s (add_turn now t (store s))) (\<lambda>r s1. (Inr (Some r), s1)))"

definition finalize_assistant_stream ::
  "int \<Rightarrow> uuid \<Rightarrow> rtext \<Rightarrow> bool \<Rightarrow> conversation_service \<Rightarrow> conversation_turn option service" where
  "finalize_assistant_stream now cid final_content is_complete s =
     (case hm_get (drafts s) cid of
        None \<Rightarrow> (Inr None, s)
      | Some d \<Rightarrow>
          let s1 = s\<lparr>drafts := hm_remove cid (drafts s)\<rparr>;
              d1 = d\<lparr>draft_turn := (draft_turn d)\<lparr>t_content := final_content, t_complete := is_complete,
                t_updated_at := now\<rparr>\<rparr>
          in if final_content = [] then (Inr None, s1) else store_draft now d1 s1)"

definition discard_proactive_stream :: "uuid \<Rightarrow> conversation_service \<Rightarrow> conversation_service" where
  "discard_proactive_stream cid s =
     s\<lparr>drafts := hm_remove cid (drafts s), store := snd (delete_if_empty_pending cid (store s))\<rparr>"

definition settle_interrupted_stream_locked ::
  "int \<Rightarrow> uuid \<Rightarrow> conversation_service \<Rightarrow> unit service" where
  "settle_interrupted_stream_locked now cid s =
     (case hm_get (drafts s) cid of
        None \<Rightarrow> (Inr (), s)
      | Some d \<Rightarrow>
          let s1 = s\<lparr>drafts := hm_remove cid (drafts s)\<rparr> in
          if t_content (draft_turn d) = []
          then (Inr (), s1\<lparr>store := snd (delete_if_empty_pending cid (store s1))\<rparr>)
          else and_then
            (store_draft now (d\<lparr>draft_turn := (draft_turn d)\<lparr>t_complete := False, t_updated_at := now\<rparr>\<rparr>) s1)
            (\<lambda>_ s2. (Inr (), s2)))"

definition settle_interrupted_turn :: "int \<Rightarrow> uuid \<Rightarrow> conversation_service \<Rightarrow> unit service" where
  "settle_interrupted_turn now tid s =
     (case find (\<lambda>(cid, d). t_id (draft_turn d) = tid) (drafts s) of
        None \<Rightarrow> (Inr (), s)
      | Some (cid, d) \<Rightarrow> settle_interrupted_stream_locked now cid s)"

definition close_if_stale :: "int \<Rightarrow> uuid \<Rightarrow> int \<Rightarrow> conversation_service \<Rightarrow> nat option \<times> conversation_service" where
  "close_if_stale now cid auto_close_minutes s =
     (if hm_get (drafts s) cid \<noteq> None then (None, s)
      else case conversation_by_id cid (store s) of
        None \<Rightarrow> (None, s)
      | Some c \<Rightarrow>
          if \<not> is_stale_since now auto_close_minutes (last_user_turn_at cid (store s)) c then (None, s)
          else
            let (updated, db) = update_state now cid ClosedConversation (store s)
            in (if updated \<noteq> None then Some (count_turns cid db) else None, s\<lparr>store := db\<rparr>))"

definition get_latest_readable_conversation ::
  "nat \<Rightarrow> uuid option \<Rightarrow> database \<Rightarrow> (conversation \<times> conversation_turn list) option" where
  "get_latest_readable_conversation limit channel db =
     (let closed = map_option (\<lambda>c. (c, get_recent_turns (c_id c) limit db))
            (get_last_closed_with_turns channel db)
      in case get_open_in_channel channel db of
           None \<Rightarrow> closed
         | Some c \<Rightarrow>
             let turns = get_recent_turns (c_id c) limit db in
             if turns \<noteq> [] then Some (c, turns)
             else (case closed of Some r \<Rightarrow> Some r | None \<Rightarrow> Some (c, turns)))"

section \<open>Retention and purge\<close>

text \<open>\<open>prune_closed_conversations\<close> of \<open>services/storage_retention.rs\<close> on the tables of conversations (its part on
  message requests is in theory Message\_Requests), and the statements of \<open>api/handlers/privacy.rs\<close> on them.
  Deleting a turn deletes its presentations (\<open>ON DELETE CASCADE\<close>). A null \<open>closed_at\<close> is before no time, first
  in ascending and last in descending order.\<close>

definition CONVERSATION_PRUNE_BATCH_SIZE :: nat where "CONVERSATION_PRUNE_BATCH_SIZE = 100"

definition retained :: "nat \<Rightarrow> database \<Rightarrow> uuid list" where
  "retained keep db = map c_id (take keep
     (sort_key (\<lambda>c. (closed_order c, - uint (c_id c))) (filter (\<lambda>c. c_state c = ClosedConversation) (conversations db))))"

definition oldest_first :: "conversation \<Rightarrow> (nat \<times> int) \<times> int" where
  "oldest_first c = (case c_closed_at c of None \<Rightarrow> (0, 0) | Some t \<Rightarrow> (1, t), uint (c_id c))"

definition prune_candidates :: "int \<Rightarrow> nat \<Rightarrow> database \<Rightarrow> uuid list" where
  "prune_candidates cutoff keep db = map c_id (take CONVERSATION_PRUNE_BATCH_SIZE (sort_key oldest_first
     (filter (\<lambda>c. c_state c = ClosedConversation \<and>
        ((case c_closed_at c of None \<Rightarrow> False | Some t \<Rightarrow> t < cutoff) \<or> c_id c \<notin> set (retained keep db))) (conversations db))))"

definition delete_turns :: "(conversation_turn \<Rightarrow> bool) \<Rightarrow> database \<Rightarrow> database" where
  "delete_turns p db = db\<lparr>conversation_turns := filter (\<lambda>t. \<not> p t) (conversation_turns db),
     conversation_presentations := filter (\<lambda>x. \<not> list_ex (\<lambda>t. p t \<and> t_id t = tp_turn x) (conversation_turns db))
       (conversation_presentations db)\<rparr>"

definition delete_closed :: "uuid \<Rightarrow> database \<Rightarrow> database" where
  "delete_closed cid db = (delete_turns (\<lambda>t. t_conversation t = cid) db)
     \<lparr>conversations := filter (\<lambda>c. \<not> (c_id c = cid \<and> c_state c = ClosedConversation)) (conversations db)\<rparr>"

definition prune_closed_conversations :: "int \<Rightarrow> nat \<Rightarrow> nat \<Rightarrow> database \<Rightarrow> database" where
  "prune_closed_conversations now retention_days keep db =
     fold delete_closed (prune_candidates (now - int retention_days * 86400 * 1000000000) keep db) db"

definition purge_conversations :: "database \<Rightarrow> database" where
  "purge_conversations db = (delete_turns (\<lambda>_. True) db)\<lparr>conversations := []\<rparr>"

section \<open>What the repository's writes keep\<close>

text \<open>The part of the tables that the invariants speak of: identity, channel and state of the
  conversations, identity and conversation of the turns.\<close>

definition conv_shape :: "database \<Rightarrow> (uuid \<times> uuid \<times> conversation_state) list" where
  "conv_shape db = map (\<lambda>c. (c_id c, c_channel c, c_state c)) (conversations db)"

definition turn_shape :: "database \<Rightarrow> (uuid \<times> uuid) list" where
  "turn_shape db = map (\<lambda>t. (t_id t, t_conversation t)) (conversation_turns db)"

definition open_shape :: "uuid \<times> uuid \<times> conversation_state \<Rightarrow> bool" where
  "open_shape = (\<lambda>(cid, channel, state). state \<noteq> ClosedConversation)"

definition tables_inv :: "database \<Rightarrow> bool" where
  "tables_inv db \<longleftrightarrow> distinct (map fst (conv_shape db)) \<and>
     distinct (map (fst \<circ> snd) (filter open_shape (conv_shape db))) \<and>
     distinct (map fst (turn_shape db))"

definition is_open :: "uuid \<Rightarrow> database \<Rightarrow> bool" where
  "is_open cid db \<longleftrightarrow> (\<exists>channel state. (cid, channel, state) \<in> set (conv_shape db) \<and> state \<noteq> ClosedConversation)"

definition is_closed :: "uuid \<Rightarrow> database \<Rightarrow> bool" where
  "is_closed cid db \<longleftrightarrow> (\<exists>channel. (cid, channel, ClosedConversation) \<in> set (conv_shape db))"

definition turns_of :: "uuid \<Rightarrow> database \<Rightarrow> conversation_turn list" where
  "turns_of cid db = filter (\<lambda>t. t_conversation t = cid) (conversation_turns db)"

lemma open_state_iff: "open_state c \<longleftrightarrow> c_state c \<noteq> ClosedConversation"
  by (cases "c_state c") (auto simp: open_state_def)

lemma get_open_None:
  "get_open_in_channel (Some channel) db = None \<longleftrightarrow>
     (\<forall>c \<in> set (conversations db). open_state c \<longrightarrow> c_channel c \<noteq> channel)"
proof -
  have "get_open_in_channel (Some channel) db = None \<longleftrightarrow>
      filter (\<lambda>c. open_state c \<and> c_channel c = channel) (conversations db) = []"
    unfolding get_open_in_channel_def by (simp split: list.splits) (metis list.distinct(1) sort_key_Nil list.exhaust)
  then show ?thesis by (auto simp: filter_empty_conv)
qed

lemma get_open_Some:
  "get_open_in_channel (Some channel) db = Some c \<Longrightarrow>
     c \<in> set (conversations db) \<and> open_state c \<and> c_channel c = channel"
  by (auto simp: get_open_in_channel_def split: list.splits dest: sort_key_hd)

lemma conv_shape_update [simp]:
  "(\<And>c. p c \<Longrightarrow> c_id (f c) = c_id c \<and> c_channel (f c) = c_channel c \<and> c_state (f c) = c_state c) \<Longrightarrow>
   map (\<lambda>c. (c_id c, c_channel c, c_state c)) (sql_update p f cs) =
   map (\<lambda>c. (c_id c, c_channel c, c_state c)) cs"
  by (induction cs) auto

lemma turn_shape_update [simp]:
  "(\<And>t. p t \<Longrightarrow> t_id (f t) = t_id t \<and> t_conversation (f t) = t_conversation t) \<Longrightarrow>
   map (\<lambda>t. (t_id t, t_conversation t)) (sql_update p f ts) = map (\<lambda>t. (t_id t, t_conversation t)) ts"
  by (induction ts) auto

lemma conversation_by_id_shape:
  "conversation_by_id cid db = Some c \<Longrightarrow> c_id c = cid \<and> (cid, c_channel c, c_state c) \<in> set (conv_shape db)"
  by (auto simp: conversation_by_id_def find_Some_iff conv_shape_def)

lemma conversation_by_id_None: "conversation_by_id cid db = None \<longleftrightarrow> cid \<notin> fst ` set (conv_shape db)"
  by (auto simp: conversation_by_id_def find_None_iff conv_shape_def image_image)

lemma shape_unique:
  "tables_inv db \<Longrightarrow> (cid, ch, st) \<in> set (conv_shape db) \<Longrightarrow> (cid, ch', st') \<in> set (conv_shape db) \<Longrightarrow>
   ch' = ch \<and> st' = st"
  by (auto simp: tables_inv_def dest: eq_key_imp_eq_value)

lemma add_turn_cases:
  obtains (failed) e where "add_turn now t db = (Inl e, db)"
  | (added) db' where "add_turn now t db = (Inr t, db')" "conv_shape db' = conv_shape db"
      "conversation_turns db' = conversation_turns db @ [t]"
      "t_id t \<notin> fst ` set (turn_shape db)" "conversation_by_id (t_conversation t) db \<noteq> None"
      "tables_inv db \<Longrightarrow> is_open (t_conversation t) db"
proof (cases "\<exists>e. add_turn now t db = (Inl e, db)")
  case True
  then show ?thesis using failed by blast
next
  case False
  then obtain c where c: "conversation_by_id (t_conversation t) db = Some c" "c_state c \<noteq> ClosedConversation"
      "t_id t \<notin> fst ` set (turn_shape db)"
    by (force simp: add_turn_def turn_shape_def list_ex_iff image_image split: option.splits if_splits)
  with False show ?thesis
    using conversation_by_id_shape [OF c(1)]
    by (intro added [of "snd (add_turn now t db)"])
      (auto simp: add_turn_def conv_shape_def turn_shape_def list_ex_iff is_open_def split: option.splits if_splits)
qed

lemma update_turn_keeps:
  "conv_shape (snd (update_turn_content_and_completion now tid content done db)) = conv_shape db"
  "turn_shape (snd (update_turn_content_and_completion now tid content done db)) = turn_shape db"
  by (auto simp: update_turn_content_and_completion_def conv_shape_def turn_shape_def Let_def
      split: option.splits)

lemma update_state_shape:
  "conv_shape (snd (update_state now cid st db)) =
     map (\<lambda>(c, ch, s). (c, ch, if c = cid then st else s)) (conv_shape db)"
  "conversation_turns (snd (update_state now cid st db)) = conversation_turns db"
  by (auto simp: update_state_def Let_def conv_shape_def sql_update_def)

lemma save_fresh_shape:
  "conversation_by_id (c_id c) db = None \<Longrightarrow>
   conv_shape (save_conversation c db) = conv_shape db @ [(c_id c, c_channel c, c_state c)]"
  "conversation_turns (save_conversation c db) = conversation_turns db"
  by (auto simp: save_conversation_def conv_shape_def conversation_by_id_def find_None_iff list_ex_iff)

lemma delete_if_empty_shape:
  "conv_shape (snd (delete_if_empty_pending cid db)) =
     filter (\<lambda>(c, ch, s). \<not> (c = cid \<and> s = PendingConversation \<and> cid \<notin> snd ` set (turn_shape db)))
       (conv_shape db)"
  "conversation_turns (snd (delete_if_empty_pending cid db)) = conversation_turns db"
proof -
  have "list_ex (\<lambda>t. t_conversation t = cid) (conversation_turns db) \<longleftrightarrow> cid \<in> snd ` set (turn_shape db)"
    by (auto simp: list_ex_iff turn_shape_def image_image)
  then show "conv_shape (snd (delete_if_empty_pending cid db)) =
     filter (\<lambda>(c, ch, s). \<not> (c = cid \<and> s = PendingConversation \<and> cid \<notin> snd ` set (turn_shape db)))
       (conv_shape db)"
    by (simp add: delete_if_empty_pending_def Let_def conv_shape_def filter_map o_def)
qed (simp add: delete_if_empty_pending_def Let_def)

end
