(* ===== verification/Conversation_Steps.thy ===== *)
theory Conversation_Steps
  imports Conversations
begin

text \<open>
  The conversation service as a step system: what its operations keep, whatever their order.
  A step is one operation with a fresh identifier for the conversation or turn it may create.
\<close>

section \<open>The invariant\<close>

definition draft_ok :: "database \<Rightarrow> uuid \<Rightarrow> streaming_turn \<Rightarrow> bool" where
  "draft_ok db cid d \<longleftrightarrow> t_conversation (draft_turn d) = cid \<and>
     (if persisted d then (t_id (draft_turn d), cid) \<in> set (turn_shape db) \<and> is_open cid db
      else t_id (draft_turn d) \<notin> fst ` set (turn_shape db))"

definition service_inv :: "conversation_service \<Rightarrow> bool" where
  "service_inv s \<longleftrightarrow> tables_inv (store s) \<and>
     (\<forall>cid d. hm_get (drafts s) cid = Some d \<longrightarrow> draft_ok (store s) cid d) \<and>
     (\<forall>c c' d d'. hm_get (drafts s) c = Some d \<longrightarrow> hm_get (drafts s) c' = Some d' \<longrightarrow>
        t_id (draft_turn d) = t_id (draft_turn d') \<longrightarrow> c = c')"

definition fresh_turn :: "uuid \<Rightarrow> conversation_service \<Rightarrow> bool" where
  "fresh_turn tid s \<longleftrightarrow> tid \<notin> fst ` set (turn_shape (store s)) \<and>
     (\<forall>cid d. hm_get (drafts s) cid = Some d \<longrightarrow> t_id (draft_turn d) \<noteq> tid)"

definition fresh_conversation :: "uuid \<Rightarrow> conversation_service \<Rightarrow> bool" where
  "fresh_conversation cid s \<longleftrightarrow> conversation_by_id cid (store s) = None \<and>
     cid \<notin> snd ` set (turn_shape (store s)) \<and> hm_get (drafts s) cid = None"

lemma service_invI [intro?]:
  assumes "tables_inv (store s)"
    and "\<And>cid d. hm_get (drafts s) cid = Some d \<Longrightarrow> draft_ok (store s) cid d"
    and "\<And>c c' d d'. hm_get (drafts s) c = Some d \<Longrightarrow> hm_get (drafts s) c' = Some d' \<Longrightarrow>
        t_id (draft_turn d) = t_id (draft_turn d') \<Longrightarrow> c = c'"
  shows "service_inv s"
  using assms unfolding service_inv_def by blast

lemma service_invD:
  assumes "service_inv s"
  shows "tables_inv (store s)"
    and "hm_get (drafts s) cid = Some d \<Longrightarrow> draft_ok (store s) cid d"
    and "hm_get (drafts s) c = Some d \<Longrightarrow> hm_get (drafts s) c' = Some d' \<Longrightarrow>
        t_id (draft_turn d) = t_id (draft_turn d') \<Longrightarrow> c = c'"
  using assms unfolding service_inv_def by blast+

lemma is_open_cong: "conv_shape db = conv_shape db' \<Longrightarrow> is_open cid db = is_open cid db'"
  by (simp add: is_open_def)

lemma draft_ok_transfer:
  assumes "draft_ok db c d" and "is_open c db \<Longrightarrow> is_open c db'"
    and "set (turn_shape db) \<subseteq> set (turn_shape db')"
    and "t_id (draft_turn d) \<in> fst ` set (turn_shape db') \<Longrightarrow> \<not> persisted d \<Longrightarrow>
      t_id (draft_turn d) \<in> fst ` set (turn_shape db)"
  shows "draft_ok db' c d"
  using assms unfolding draft_ok_def by (cases "persisted d") auto

lemma draft_ok_same:
  assumes "draft_ok db c d" "t_id (draft_turn d') = t_id (draft_turn d)"
    "t_conversation (draft_turn d') = t_conversation (draft_turn d)" "persisted d' = persisted d"
  shows "draft_ok db c d'"
  using assms unfolding draft_ok_def by simp

lemma draft_ok_new:
  "tid \<notin> fst ` set (turn_shape db) \<Longrightarrow>
   draft_ok db cid \<lparr>draft_turn = new_turn now tid cid AssistantRole [] False, persisted = False\<rparr>"
  by (simp add: draft_ok_def new_turn_def)

section \<open>Single changes\<close>

lemma inv_same_shape:
  assumes "service_inv s" "conv_shape db = conv_shape (store s)" "turn_shape db = turn_shape (store s)"
  shows "service_inv (s\<lparr>store := db\<rparr>)"
proof
  show "tables_inv (store (s\<lparr>store := db\<rparr>))"
    using service_invD(1) [OF assms(1)] by (simp add: tables_inv_def assms)
  fix cid d assume "hm_get (drafts (s\<lparr>store := db\<rparr>)) cid = Some d"
  then show "draft_ok (store (s\<lparr>store := db\<rparr>)) cid d"
    using draft_ok_transfer [OF service_invD(2) [OF assms(1)], of cid d db]
      is_open_cong [of db "store s" cid] assms(2,3) by simp
qed (use service_invD(3) [OF assms(1)] in auto)

lemma inv_remove_draft:
  "service_inv s \<Longrightarrow> service_inv (s\<lparr>drafts := hm_remove cid (drafts s)\<rparr>)"
  unfolding service_inv_def by (auto simp: hm_simps)

lemma inv_modify_draft:
  assumes "service_inv s"
    and "\<And>d. t_id (draft_turn (f d)) = t_id (draft_turn d) \<and>
      t_conversation (draft_turn (f d)) = t_conversation (draft_turn d) \<and> persisted (f d) = persisted d"
  shows "service_inv (s\<lparr>drafts := hm_modify cid f (drafts s)\<rparr>)"
proof
  fix c d assume "hm_get (drafts (s\<lparr>drafts := hm_modify cid f (drafts s)\<rparr>)) c = Some d"
  then obtain d0 where "hm_get (drafts s) c = Some d0" "d = d0 \<or> d = f d0"
    by (auto simp: hm_simps split: if_splits)
  then show "draft_ok (store (s\<lparr>drafts := hm_modify cid f (drafts s)\<rparr>)) c d"
    using draft_ok_same [OF service_invD(2) [OF assms(1)]] assms(2) service_invD(2) [OF assms(1)] by auto
next
  fix c c' d d'
  assume "hm_get (drafts (s\<lparr>drafts := hm_modify cid f (drafts s)\<rparr>)) c = Some d"
    and "hm_get (drafts (s\<lparr>drafts := hm_modify cid f (drafts s)\<rparr>)) c' = Some d'"
    and e: "t_id (draft_turn d) = t_id (draft_turn d')"
  then obtain d0 d0' where "hm_get (drafts s) c = Some d0" "d = d0 \<or> d = f d0"
      "hm_get (drafts s) c' = Some d0'" "d' = d0' \<or> d' = f d0'"
    by (auto simp: hm_simps split: if_splits)
  moreover from this e have "t_id (draft_turn d0) = t_id (draft_turn d0')" using assms(2) by metis
  ultimately show "c = c'" using service_invD(3) [OF assms(1)] by blast
qed (use service_invD(1) [OF assms(1)] in simp)

lemma inv_new_draft:
  assumes "service_inv s" "fresh_turn tid s"
  shows "service_inv (begin_assistant_stream_locked now cid tid s)"
proof
  let ?s = "begin_assistant_stream_locked now cid tid s"
  fix c d assume "hm_get (drafts ?s) c = Some d"
  then show "draft_ok (store ?s) c d"
    using service_invD(2) [OF assms(1)] draft_ok_new assms(2)
    by (auto simp: begin_assistant_stream_locked_def hm_simps fresh_turn_def split: if_splits)
next
  let ?s = "begin_assistant_stream_locked now cid tid s"
  fix c c' d d'
  assume "hm_get (drafts ?s) c = Some d" "hm_get (drafts ?s) c' = Some d'"
    "t_id (draft_turn d) = t_id (draft_turn d')"
  moreover have "hm_get (drafts ?s) x = Some e \<Longrightarrow> x = cid \<and> t_id (draft_turn e) = tid \<or>
      x \<noteq> cid \<and> hm_get (drafts s) x = Some e \<and> t_id (draft_turn e) \<noteq> tid" for x e
    using assms(2)
    by (auto simp: begin_assistant_stream_locked_def hm_simps new_turn_def fresh_turn_def split: if_splits)
  ultimately show "c = c'" using service_invD(3) [OF assms(1)] by metis
qed (use service_invD(1) [OF assms(1)] in \<open>simp add: begin_assistant_stream_locked_def\<close>)

lemma tables_inv_append_turn:
  assumes "tables_inv db" "conv_shape db' = conv_shape db"
    "conversation_turns db' = conversation_turns db @ [t]" "t_id t \<notin> fst ` set (turn_shape db)"
  shows "tables_inv db'" "turn_shape db' = turn_shape db @ [(t_id t, t_conversation t)]"
proof -
  show ts: "turn_shape db' = turn_shape db @ [(t_id t, t_conversation t)]"
    using assms by (simp add: turn_shape_def)
  show "tables_inv db'" using assms by (simp add: tables_inv_def ts)
qed

lemma inv_append_turn:
  assumes inv: "service_inv s" and db: "conv_shape db = conv_shape (store s)"
    "conversation_turns db = conversation_turns (store s) @ [t]" "t_id t \<notin> fst ` set (turn_shape (store s))"
    and other: "\<And>c d. hm_get (drafts s) c = Some d \<Longrightarrow> t_id (draft_turn d) \<noteq> t_id t"
  shows "service_inv (s\<lparr>store := db\<rparr>)"
proof
  note ts = tables_inv_append_turn [OF service_invD(1) [OF inv] db]
  show "tables_inv (store (s\<lparr>store := db\<rparr>))" using ts(1) by simp
  fix c d assume d: "hm_get (drafts (s\<lparr>store := db\<rparr>)) c = Some d"
  then have "t_id (draft_turn d) \<noteq> t_id t" using other by auto
  then show "draft_ok (store (s\<lparr>store := db\<rparr>)) c d"
    using draft_ok_transfer [OF service_invD(2) [OF inv], of c d db] d is_open_cong [OF db(1)]
    by (auto simp: ts(2))
qed (use service_invD(3) [OF inv] in auto)

text \<open>Storing the draft of a conversation and marking it as stored.\<close>

lemma inv_persist_draft:
  assumes inv: "service_inv s" and d: "hm_get (drafts s) cid = Some d" "\<not> persisted d"
    and db: "conv_shape db = conv_shape (store s)"
    "conversation_turns db = conversation_turns (store s) @ [draft_turn d]"
    "t_id (draft_turn d) \<notin> fst ` set (turn_shape (store s))" "is_open cid (store s)"
  shows "service_inv (set_persisted cid (t_id (draft_turn d)) (s\<lparr>store := db\<rparr>))"
proof
  let ?s = "set_persisted cid (t_id (draft_turn d)) (s\<lparr>store := db\<rparr>)"
  note ts = tables_inv_append_turn [OF service_invD(1) [OF inv] db(1-3)]
  have cid: "t_conversation (draft_turn d) = cid"
    using service_invD(2) [OF inv d(1)] by (simp add: draft_ok_def)
  have g: "hm_get (drafts ?s) c = (if c = cid then Some (d\<lparr>persisted := True\<rparr>) else hm_get (drafts s) c)" for c
    by (simp add: set_persisted_def hm_simps d)
  show "tables_inv (store ?s)" using ts(1) by (simp add: set_persisted_def)
  have st: "store ?s = db" by (simp add: set_persisted_def)
  fix c e assume e: "hm_get (drafts ?s) c = Some e"
  show "draft_ok (store ?s) c e"
  proof (cases "c = cid")
    case True
    with e g have "e = d\<lparr>persisted := True\<rparr>" by simp
    then show ?thesis using True cid db(4) is_open_cong [OF db(1)] by (simp add: draft_ok_def ts(2) st)
  next
    case False
    with e g have "hm_get (drafts s) c = Some e" by simp
    moreover from this have "t_id (draft_turn e) \<noteq> t_id (draft_turn d)"
      using service_invD(3) [OF inv _ d(1)] False by blast
    ultimately show ?thesis
      using draft_ok_transfer [OF service_invD(2) [OF inv], of c e db] is_open_cong [OF db(1)]
      by (auto simp: ts(2) st)
  qed
next
  let ?s = "set_persisted cid (t_id (draft_turn d)) (s\<lparr>store := db\<rparr>)"
  fix c c' e e'
  assume "hm_get (drafts ?s) c = Some e" "hm_get (drafts ?s) c' = Some e'"
    "t_id (draft_turn e) = t_id (draft_turn e')"
  then show "c = c'"
    using service_invD(3) [OF inv] d(1) by (auto simp: set_persisted_def hm_simps split: if_splits)
qed

lemma inv_new_conversation:
  assumes inv: "service_inv s" and new: "conversation_by_id cid (store s) = None"
    and none: "get_open_in_channel (Some channel) (store s) = None" and st: "st \<noteq> ClosedConversation"
  shows "service_inv (s\<lparr>store := save_conversation (new_conversation now cid st channel) (store s)\<rparr>)"
proof
  let ?c = "new_conversation now cid st channel"
  have sh: "conv_shape (save_conversation ?c (store s)) = conv_shape (store s) @ [(cid, channel, st)]"
    using save_fresh_shape(1) [of ?c "store s"] new by (simp add: new_conversation_def)
  have ts: "turn_shape (save_conversation ?c (store s)) = turn_shape (store s)"
    by (simp add: turn_shape_def save_fresh_shape)
  have "channel \<notin> (fst \<circ> snd) ` {x \<in> set (conv_shape (store s)). open_shape x}"
  proof
    assume "channel \<in> (fst \<circ> snd) ` {x \<in> set (conv_shape (store s)). open_shape x}"
    then obtain c where "c \<in> set (conversations (store s))" "c_channel c = channel" "open_state c"
      by (auto simp: conv_shape_def open_shape_def open_state_iff)
    then show False using none by (simp add: get_open_None)
  qed
  moreover have "cid \<notin> fst ` set (conv_shape (store s))" using new by (simp add: conversation_by_id_None)
  ultimately show "tables_inv (store (s\<lparr>store := save_conversation ?c (store s)\<rparr>))"
    using service_invD(1) [OF inv] st by (auto simp: tables_inv_def sh ts open_shape_def)
  fix c d assume "hm_get (drafts (s\<lparr>store := save_conversation ?c (store s)\<rparr>)) c = Some d"
  then show "draft_ok (store (s\<lparr>store := save_conversation ?c (store s)\<rparr>)) c d"
    using draft_ok_transfer [OF service_invD(2) [OF inv], of c d "save_conversation ?c (store s)"]
    by (auto simp: ts sh is_open_def)
qed (use service_invD(3) [OF inv] in auto)

lemma distinct_map_filter_mono:
  "distinct (map f (filter P xs)) \<Longrightarrow> (\<And>x. x \<in> set xs \<Longrightarrow> Q x \<Longrightarrow> P x) \<Longrightarrow> distinct (map f (filter Q xs))"
  by (induction xs) (auto split: if_splits)

lemma is_open_in_shape: "is_open c db \<Longrightarrow> c \<in> fst ` set (conv_shape db)"
  by (force simp: is_open_def)

lemma is_open_update_state:
  "is_open c (snd (update_state now cid st db)) \<longleftrightarrow>
     (if c = cid then st \<noteq> ClosedConversation \<and> cid \<in> fst ` set (conv_shape db) else is_open c db)"
  by (force simp: is_open_def update_state_shape split: if_splits)

lemma turn_shape_update_state: "turn_shape (snd (update_state now cid st db)) = turn_shape db"
  by (simp add: turn_shape_def update_state_shape)

lemma tables_inv_update_state:
  assumes inv: "tables_inv db" and op: "st \<noteq> ClosedConversation \<Longrightarrow> is_open cid db"
  shows "tables_inv (snd (update_state now cid st db))"
proof -
  let ?g = "\<lambda>(c, ch, s). (c, ch, if c = cid then st else s)"
  have "open_shape x" if "x \<in> set (conv_shape db)" "open_shape (?g x)" for x
  proof (cases "st = ClosedConversation")
    case True
    with that show ?thesis by (cases x) (auto simp: open_shape_def split: if_splits)
  next
    case False
    obtain c ch s where x: "x = (c, ch, s)" by (cases x)
    show ?thesis
    proof (cases "c = cid")
      case True
      from op [OF False] obtain ch' s' where "(cid, ch', s') \<in> set (conv_shape db)" "s' \<noteq> ClosedConversation"
        by (auto simp: is_open_def)
      with shape_unique [OF inv this(1)] that(1) x True show ?thesis by (auto simp: open_shape_def)
    next
      case False
      with that x show ?thesis by (simp add: open_shape_def)
    qed
  qed
  note op_g = this
  have "distinct (map (fst \<circ> snd) (filter open_shape (conv_shape db)))"
    using inv by (simp add: tables_inv_def)
  then have "distinct (map (fst \<circ> snd) (filter (open_shape \<circ> ?g) (conv_shape db)))"
    by (rule distinct_map_filter_mono) (rule op_g, simp_all)
  moreover have "map (fst \<circ> snd) (filter open_shape (map ?g (conv_shape db))) =
      map (fst \<circ> snd) (filter (open_shape \<circ> ?g) (conv_shape db))"
    by (simp add: filter_map o_def case_prod_unfold)
  moreover have "map fst (map ?g (conv_shape db)) = map fst (conv_shape db)"
    by (simp add: o_def case_prod_unfold)
  ultimately show ?thesis
    using inv by (simp only: tables_inv_def update_state_shape turn_shape_def)
qed

lemma inv_update_state:
  assumes inv: "service_inv s" and op: "st \<noteq> ClosedConversation \<Longrightarrow> is_open cid (store s)"
    and cl: "st = ClosedConversation \<Longrightarrow> hm_get (drafts s) cid = None"
  shows "service_inv (s\<lparr>store := snd (update_state now cid st (store s))\<rparr>)"
proof
  show "tables_inv (store (s\<lparr>store := snd (update_state now cid st (store s))\<rparr>))"
    using tables_inv_update_state [OF service_invD(1) [OF inv] op] by simp
  fix c d assume d: "hm_get (drafts (s\<lparr>store := snd (update_state now cid st (store s))\<rparr>)) c = Some d"
  have "is_open c (store s) \<Longrightarrow> is_open c (snd (update_state now cid st (store s)))"
  proof (cases "c = cid")
    case True
    assume "is_open c (store s)"
    moreover have "st \<noteq> ClosedConversation" using cl d True by auto
    ultimately show ?thesis using True is_open_in_shape [of c "store s"] by (simp add: is_open_update_state)
  qed (simp add: is_open_update_state)
  then show "draft_ok (store (s\<lparr>store := snd (update_state now cid st (store s))\<rparr>)) c d"
    using draft_ok_transfer [OF service_invD(2) [OF inv], of c d "snd (update_state now cid st (store s))"] d
    by (simp add: turn_shape_update_state)
qed (use service_invD(3) [OF inv] in auto)

lemma inv_delete_if_empty:
  assumes inv: "service_inv s" and nd: "hm_get (drafts s) cid = None"
  shows "service_inv (s\<lparr>store := snd (delete_if_empty_pending cid (store s))\<rparr>)"
proof
  let ?db = "snd (delete_if_empty_pending cid (store s))"
  have ts: "turn_shape ?db = turn_shape (store s)"
    by (simp add: turn_shape_def delete_if_empty_shape)
  have "distinct (map (fst \<circ> snd) (filter open_shape (conv_shape (store s))))"
    using service_invD(1) [OF inv] by (simp add: tables_inv_def)
  then have "distinct (map (fst \<circ> snd) (filter open_shape (conv_shape ?db)))"
    unfolding delete_if_empty_shape filter_filter by (rule distinct_map_filter_mono) auto
  then show "tables_inv (store (s\<lparr>store := ?db\<rparr>))"
    using service_invD(1) [OF inv] by (simp add: tables_inv_def ts delete_if_empty_shape distinct_map_filter)
  fix c d assume d: "hm_get (drafts (s\<lparr>store := ?db\<rparr>)) c = Some d"
  then have "c \<noteq> cid" using nd by auto
  then have "is_open c (store s) \<Longrightarrow> is_open c ?db"
    by (auto simp: is_open_def delete_if_empty_shape)
  then show "draft_ok (store (s\<lparr>store := ?db\<rparr>)) c d"
    using draft_ok_transfer [OF service_invD(2) [OF inv], of c d ?db] d by (simp add: ts)
qed (use service_invD(3) [OF inv] in auto)

section \<open>Whole operations\<close>

lemma sync_cases [consumes 1, case_names failed unchanged updated stored]:
  assumes inv: "service_inv s"
  obtains (failed) e where "sync_streaming_assistant_turn_locked now cid s = (Inl e, s)"
  | (unchanged) "sync_streaming_assistant_turn_locked now cid s = (Inr (), s)"
  | (updated) d where "hm_get (drafts s) cid = Some d" "persisted d"
      "sync_streaming_assistant_turn_locked now cid s = (Inr (), s\<lparr>store := snd
         (update_turn_content_and_completion now (t_id (draft_turn d)) (t_content (draft_turn d))
           (t_complete (draft_turn d)) (store s))\<rparr>)"
  | (stored) d db where "hm_get (drafts s) cid = Some d" "\<not> persisted d"
      "conv_shape db = conv_shape (store s)"
      "conversation_turns db = conversation_turns (store s) @ [draft_turn d]"
      "t_id (draft_turn d) \<notin> fst ` set (turn_shape (store s))" "is_open cid (store s)"
      "sync_streaming_assistant_turn_locked now cid s =
         (Inr (), set_persisted cid (t_id (draft_turn d)) (s\<lparr>store := db\<rparr>))"
proof (cases "hm_get (drafts s) cid")
  case None
  then show ?thesis using unchanged by (simp add: sync_streaming_assistant_turn_locked_def)
next
  case (Some d)
  then have cid: "t_conversation (draft_turn d) = cid"
    using service_invD(2) [OF inv] by (simp add: draft_ok_def)
  show ?thesis
  proof (cases "t_content (draft_turn d) = []")
    case True
    with Some show ?thesis using unchanged by (simp add: sync_streaming_assistant_turn_locked_def)
  next
    case ne: False
    show ?thesis
    proof (cases "persisted d")
      case True
      with Some ne show ?thesis
        by (intro updated [OF Some True]) (simp add: sync_streaming_assistant_turn_locked_def Let_def)
    next
      case False
      show ?thesis
      proof (cases rule: add_turn_cases [of now "draft_turn d" "store s"])
        case (failed e)
        with Some ne False that(1) show ?thesis
          by (simp add: sync_streaming_assistant_turn_locked_def Let_def and_then_def on_store_def)
      next
        case (added db)
        with Some ne False cid show ?thesis
          using service_invD(1) [OF inv]
          by (intro stored [OF Some False added(2,3,4)])
            (simp_all add: sync_streaming_assistant_turn_locked_def Let_def and_then_def on_store_def)
      qed
    qed
  qed
qed

lemma inv_sync [inv_intros]:
  assumes "service_inv s"
  shows "service_inv (snd (sync_streaming_assistant_turn_locked now cid s))"
using assms
proof (cases rule: sync_cases [of s now cid])
  case (updated d)
  then show ?thesis using inv_same_shape [OF assms] by (simp add: update_turn_keeps)
next
  case (stored d db)
  then show ?thesis using inv_persist_draft [OF assms stored(1-6)] by simp
qed (use assms in simp_all)

lemma fresh_turn_sync:
  assumes inv: "service_inv s" and fr: "fresh_turn tid s"
  shows "fresh_turn tid (snd (sync_streaming_assistant_turn_locked now cid s))"
using inv
proof (cases rule: sync_cases [of s now cid])
  case (updated d)
  with fr show ?thesis by (simp add: fresh_turn_def update_turn_keeps)
next
  case (stored d db)
  have "turn_shape db = turn_shape (store s) @ [(t_id (draft_turn d), t_conversation (draft_turn d))]"
    using stored(4) by (simp add: turn_shape_def)
  with stored fr show ?thesis
    by (auto simp: fresh_turn_def set_persisted_def hm_simps split: if_splits)
qed (use fr in simp_all)

lemma conv_shape_sync:
  assumes "service_inv s"
  shows "conv_shape (store (snd (sync_streaming_assistant_turn_locked now cid s))) = conv_shape (store s)"
  using assms by (cases rule: sync_cases [of s now cid])
    (simp_all add: update_turn_keeps set_persisted_def)

lemma inv_add_turn:
  assumes inv: "service_inv s" and fr: "fresh_turn (t_id t) s"
  shows "service_inv (snd (on_store s (add_turn now t (store s))))"
proof (cases rule: add_turn_cases [of now t "store s"])
  case (failed e)
  with inv show ?thesis by (simp add: on_store_def)
next
  case (added db)
  then show ?thesis
    using inv_append_turn [OF inv added(2,3,4)] fr by (simp add: on_store_def fresh_turn_def)
qed

lemma and_then_snd:
  assumes "P (snd r)" and "\<And>a. fst r = Inr a \<Longrightarrow> P (snd (k a (snd r)))"
  shows "P (snd (and_then r k))"
  using assms by (cases r; cases "fst r") (auto simp: and_then_def)

lemma inv_open_or_create:
  assumes "service_inv s" "conversation_by_id new (store s) = None"
  shows "service_inv (snd (open_or_create_pending_locked now new channel s))"
  using assms inv_new_conversation [OF assms, of channel PendingConversation now]
  by (auto simp: open_or_create_pending_locked_def Let_def split: option.splits)

lemma fresh_turn_open_or_create:
  "fresh_turn tid s \<Longrightarrow> fresh_turn tid (snd (open_or_create_pending_locked now new channel s))"
  by (auto simp: open_or_create_pending_locked_def Let_def fresh_turn_def turn_shape_def save_fresh_shape
      split: option.splits)

lemma inv_begin_proactive:
  assumes "service_inv s" "conversation_by_id new (store s) = None" "fresh_turn tid s"
  shows "service_inv (snd (begin_proactive_stream now new tid preferred s))"
  using inv_open_or_create [OF assms(1,2)] fresh_turn_open_or_create [OF assms(3)] assms
  by (auto simp: begin_proactive_stream_def case_prod_unfold Let_def split: option.splits intro!: inv_new_draft)

lemma inv_begin_assistant:
  assumes "service_inv s" "fresh_turn tid s"
  shows "service_inv (snd (begin_assistant_stream now cid tid s))"
  unfolding begin_assistant_stream_def
  by (rule and_then_snd) (use inv_sync [OF assms(1)] inv_new_draft [OF inv_sync [OF assms(1)] fresh_turn_sync [OF assms]] in simp_all)

lemma open_is_open:
  "get_open_in_channel (Some channel) db = Some c \<Longrightarrow> is_open (c_id c) db"
  by (drule get_open_Some) (auto simp: is_open_def conv_shape_def open_state_iff)

lemma fresh_turn_store:
  "turn_shape db = turn_shape (store s) \<Longrightarrow> fresh_turn tid (s\<lparr>store := db\<rparr>) = fresh_turn tid s"
  by (simp add: fresh_turn_def)

lemma inv_activate_and_add:
  assumes inv: "service_inv s" and fr: "fresh_turn tid s" and op: "is_open (c_id c) (store s)"
  shows "service_inv (snd (let (activated, s2) =
        if c_state c = PendingConversation
        then (let (r, db) = update_state now (c_id c) ActiveConversation (store s) in (r, s\<lparr>store := db\<rparr>))
        else (Some c, s)
      in case activated of
           None \<Rightarrow> (Inl e, s2)
         | Some c2 \<Rightarrow> and_then (on_store s2
             (add_turn now (new_turn now tid (c_id c2) UserRole message True) (store s2)))
             (\<lambda>_ s3. (Inr c2, s3))))"
proof -
  have add: "service_inv (snd (and_then (on_store s2
      (add_turn now (new_turn now tid i UserRole message True) (store s2))) (\<lambda>_ s3. (Inr x, s3))))"
    if "service_inv s2" "fresh_turn tid s2" for s2 i and x :: conversation
  proof -
    have "service_inv (snd (on_store s2 (add_turn now (new_turn now tid i UserRole message True) (store s2))))"
      by (rule inv_add_turn [OF that(1)]) (use that(2) in \<open>simp add: new_turn_def\<close>)
    then show ?thesis by (intro and_then_snd [of service_inv]) simp_all
  qed
  show ?thesis
  proof (cases "c_state c = PendingConversation")
    case False
    with add [OF inv fr] show ?thesis by simp
  next
    case True
    let ?s2 = "s\<lparr>store := snd (update_state now (c_id c) ActiveConversation (store s))\<rparr>"
    have "service_inv ?s2" by (rule inv_update_state [OF inv]) (use op in simp_all)
    moreover have "fresh_turn tid ?s2" using fr by (simp add: fresh_turn_store turn_shape_update_state)
    ultimately show ?thesis
      using True add [of ?s2] by (simp add: case_prod_unfold Let_def split: option.split)
  qed
qed

lemma inv_append_user:
  assumes inv: "service_inv s" and new: "conversation_by_id new (store s) = None" and fr: "fresh_turn tid s"
  shows "service_inv (snd (append_user_turn_or_create_active now new tid message channel s))"
proof (cases "get_open_in_channel (Some channel) (store s)")
  case None
  let ?s1 = "s\<lparr>store := save_conversation (new_conversation now new ActiveConversation channel) (store s)\<rparr>"
  have "service_inv ?s1" using inv_new_conversation [OF inv new None] by simp
  moreover have "fresh_turn tid ?s1"
    using fr by (simp add: fresh_turn_store turn_shape_def save_fresh_shape)
  ultimately have "service_inv (snd (on_store ?s1
      (add_turn now (new_turn now tid new UserRole message True) (store ?s1))))"
    by (intro inv_add_turn) (simp_all add: new_turn_def)
  with None show ?thesis
    unfolding append_user_turn_or_create_active_def
    by (simp add: create_active_unlocked_def Let_def) (rule and_then_snd, simp_all)
next
  case (Some c)
  let ?s1 = "snd (sync_streaming_assistant_turn_locked now (c_id c) s)"
  have "is_open (c_id c) (store ?s1)"
    using open_is_open [OF Some] is_open_cong [OF conv_shape_sync [OF inv]] by simp
  then show ?thesis
    unfolding append_user_turn_or_create_active_def Some option.case
    by (intro and_then_snd [of service_inv] inv_activate_and_add inv_sync [OF inv] fresh_turn_sync [OF inv fr])
qed

lemma inv_store_draft:
  assumes inv: "service_inv s" and nd: "fresh_turn (t_id (draft_turn d)) s \<or> persisted d"
  shows "service_inv (snd (store_draft now d s))"
proof (cases "persisted d")
  case True
  then show ?thesis
    using inv_same_shape [OF inv update_turn_keeps] by (simp add: store_draft_def Let_def case_prod_unfold)
next
  case False
  with nd have "fresh_turn (t_id (draft_turn d)) s" by simp
  with False show ?thesis
    unfolding store_draft_def Let_def by (simp) (rule and_then_snd, simp_all add: inv_add_turn [OF inv])
qed

lemma removed_draft_fresh:
  assumes "service_inv s" "hm_get (drafts s) cid = Some d" "\<not> persisted d"
  shows "fresh_turn (t_id (draft_turn d)) (s\<lparr>drafts := hm_remove cid (drafts s)\<rparr>)"
  using service_invD(2) [OF assms(1,2)] service_invD(3) [OF assms(1) _ assms(2)] assms(3)
  by (auto simp: fresh_turn_def hm_simps draft_ok_def)

lemma inv_finalize:
  assumes "service_inv s"
  shows "service_inv (snd (finalize_assistant_stream now cid final done s))"
proof (cases "hm_get (drafts s) cid")
  case (Some d)
  then show ?thesis
    using inv_remove_draft [OF assms] removed_draft_fresh [OF assms Some]
    by (auto simp: finalize_assistant_stream_def Let_def intro!: inv_store_draft)
qed (use assms in \<open>simp add: finalize_assistant_stream_def\<close>)

lemma inv_discard:
  assumes "service_inv s"
  shows "service_inv (discard_proactive_stream cid s)"
  using inv_delete_if_empty [OF inv_remove_draft [OF assms], where cid = cid]
  by (simp add: discard_proactive_stream_def hm_simps)

lemma inv_settle_stream:
  assumes "service_inv s"
  shows "service_inv (snd (settle_interrupted_stream_locked now cid s))"
proof (cases "hm_get (drafts s) cid")
  case (Some d)
  let ?s1 = "s\<lparr>drafts := hm_remove cid (drafts s)\<rparr>"
  let ?d1 = "d\<lparr>draft_turn := (draft_turn d)\<lparr>t_complete := False, t_updated_at := now\<rparr>\<rparr>"
  have "service_inv (snd (store_draft now ?d1 ?s1))"
    using inv_remove_draft [OF assms] removed_draft_fresh [OF assms Some]
    by (auto intro!: inv_store_draft)
  then have "service_inv (snd (and_then (store_draft now ?d1 ?s1) (\<lambda>_ s2. (Inr (), s2))))"
    by (intro and_then_snd [of service_inv]) simp_all
  then show ?thesis
    using Some inv_delete_if_empty [OF inv_remove_draft [OF assms], where cid = cid]
    by (simp add: settle_interrupted_stream_locked_def Let_def hm_simps)
qed (use assms in \<open>simp add: settle_interrupted_stream_locked_def\<close>)

lemma inv_settle:
  "service_inv s \<Longrightarrow> service_inv (snd (settle_interrupted_turn now tid s))"
  by (auto simp: settle_interrupted_turn_def inv_settle_stream split: option.splits)

lemma inv_close:
  assumes "service_inv s"
  shows "service_inv (snd (close_if_stale now cid minutes s))"
  using assms inv_update_state [OF assms, of ClosedConversation cid now]
  by (auto simp: close_if_stale_def case_prod_unfold Let_def split: option.splits)

lemma inv_push:
  "service_inv s \<Longrightarrow> service_inv (push_assistant_stream_delta now cid delta s)"
  by (simp add: push_assistant_stream_delta_def inv_modify_draft)

lemma acknowledge_tables:
  "conversations (snd (acknowledge_presentation now turn channel db)) = conversations db"
  "conversation_turns (snd (acknowledge_presentation now turn channel db)) = conversation_turns db"
  by (simp_all add: acknowledge_presentation_def Let_def)

text \<open>Retention and purge.\<close>

lemma closed_not_open: "tables_inv db \<Longrightarrow> is_closed cid db \<Longrightarrow> \<not> is_open cid db"
  by (auto simp: is_closed_def is_open_def dest: shape_unique)

lemma delete_closed_tables:
  "conv_shape (delete_closed cid db) = filter (\<lambda>(i, ch, st). \<not> (i = cid \<and> st = ClosedConversation)) (conv_shape db)"
  "conversation_turns (delete_closed cid db) = filter (\<lambda>t. t_conversation t \<noteq> cid) (conversation_turns db)"
  "turn_shape (delete_closed cid db) = filter (\<lambda>(t, c). c \<noteq> cid) (turn_shape db)"
  by (simp_all add: delete_closed_def delete_turns_def conv_shape_def turn_shape_def filter_map o_def)

lemma tables_inv_delete_closed:
  assumes "tables_inv db"
  shows "tables_inv (delete_closed cid db)"
proof -
  have "filter open_shape (conv_shape (delete_closed cid db)) = filter open_shape (conv_shape db)"
    unfolding delete_closed_tables filter_filter by (rule filter_cong) (auto simp: open_shape_def)
  then show ?thesis
    using assms unfolding tables_inv_def by (simp add: delete_closed_tables distinct_map_filter)
qed

lemma open_delete_closed: "is_open c (delete_closed cid db) = is_open c db"
  by (auto simp: is_open_def delete_closed_tables)

lemma inv_delete_closed:
  assumes "service_inv s" "\<not> is_open cid (store s)"
  shows "service_inv (s\<lparr>store := delete_closed cid (store s)\<rparr>)"
proof
  show "tables_inv (store (s\<lparr>store := delete_closed cid (store s)\<rparr>))"
    using service_invD(1) [OF assms(1)] by (simp add: tables_inv_delete_closed)
  fix c d assume "hm_get (drafts (s\<lparr>store := delete_closed cid (store s)\<rparr>)) c = Some d"
  then have "draft_ok (store s) c d" using service_invD(2) [OF assms(1)] by simp
  then show "draft_ok (store (s\<lparr>store := delete_closed cid (store s)\<rparr>)) c d"
    using assms(2) by (force simp: draft_ok_def open_delete_closed delete_closed_tables split: if_splits)
qed (use service_invD(3) [OF assms(1)] in auto)

lemma candidates_closed: "cid \<in> set (prune_candidates cutoff keep db) \<Longrightarrow> is_closed cid db"
  by (force simp: prune_candidates_def is_closed_def conv_shape_def image_iff dest!: in_set_takeD)

lemma inv_prune_closed:
  assumes "service_inv s"
  shows "service_inv (s\<lparr>store := prune_closed_conversations now retention_days keep (store s)\<rparr>)"
proof -
  have "service_inv (s\<lparr>store := fold delete_closed cids db\<rparr>)"
    if "service_inv (s\<lparr>store := db\<rparr>)" "\<And>c. c \<in> set cids \<Longrightarrow> \<not> is_open c db" for cids db
    using that
  proof (induction cids arbitrary: db)
    case (Cons c cids)
    have "service_inv (s\<lparr>store := delete_closed c db\<rparr>)"
      using inv_delete_closed [OF Cons.prems(1), of c] Cons.prems(2) by simp
    then show ?case using Cons.IH [of "delete_closed c db"] Cons.prems(2) by (simp add: open_delete_closed)
  qed simp
  moreover have "\<not> is_open c (store s)" if "c \<in> set (prune_candidates cutoff keep (store s))" for c cutoff
    using candidates_closed [OF that] closed_not_open [OF service_invD(1) [OF assms]] by blast
  ultimately show ?thesis using assms by (simp add: prune_closed_conversations_def)
qed

lemma inv_purge:
  "drafts s = [] \<Longrightarrow> service_inv (s\<lparr>store := purge_conversations (store s)\<rparr>)"
  by (simp add: service_inv_def purge_conversations_def delete_turns_def tables_inv_def conv_shape_def turn_shape_def)

section \<open>Steps\<close>

text \<open>A step of the service. \<open>new_id\<close> and \<open>tid\<close> are drawn by \<open>Uuid::new_v4()\<close>; a proactive stream
  may prefer any conversation, an assistant stream names any. Presentations are acknowledged on
  the same tables; the retention pass deletes old closed conversations from them, and the owner's purge all
  conversations. A purge holds the maintenance permit, so no turn runs and no draft is there.\<close>

inductive service_step :: "conversation_service \<Rightarrow> conversation_service \<Rightarrow> bool" where
  user_turn: "conversation_by_id new_id (store s) = None \<Longrightarrow> fresh_turn tid s \<Longrightarrow>
    service_step s (snd (append_user_turn_or_create_active now new_id tid message channel s))"
| event_conversation: "conversation_by_id new_id (store s) = None \<Longrightarrow>
    service_step s (snd (open_or_create_pending_locked now new_id channel s))"
| proactive_stream: "conversation_by_id new_id (store s) = None \<Longrightarrow> fresh_turn tid s \<Longrightarrow>
    service_step s (snd (begin_proactive_stream now new_id tid preferred s))"
| assistant_stream: "fresh_turn tid s \<Longrightarrow>
    service_step s (snd (begin_assistant_stream now cid tid s))"
| stream_delta: "service_step s (push_assistant_stream_delta now cid delta s)"
| finalize_stream: "service_step s (snd (finalize_assistant_stream now cid final done s))"
| discard_stream: "service_step s (discard_proactive_stream cid s)"
| settle_turn: "service_step s (snd (settle_interrupted_turn now tid s))"
| close_stale: "service_step s (snd (close_if_stale now cid minutes s))"
| acknowledge: "service_step s (snd (on_store s (acknowledge_presentation now turn channel (store s))))"
| retention: "service_step s (s\<lparr>store := prune_closed_conversations now retention_days keep (store s)\<rparr>)"
| purge: "drafts s = [] \<Longrightarrow> service_step s (s\<lparr>store := purge_conversations (store s)\<rparr>)"

definition service_init :: "conversation_service \<Rightarrow> bool" where
  "service_init s \<longleftrightarrow> drafts s = [] \<and> tables_inv (store s)"

lemma service_step_inv:
  assumes "service_inv s" and "service_step s t"
  shows "service_inv t"
  using assms(2,1)
proof cases
  case (acknowledge now turn channel)
  then show ?thesis
    using assms(1)
    by (simp add: on_store_def inv_same_shape conv_shape_def turn_shape_def acknowledge_tables)
qed (simp_all add: inv_append_user inv_open_or_create inv_begin_proactive inv_begin_assistant inv_push
    inv_finalize inv_discard inv_settle inv_close inv_prune_closed inv_purge)

interpretation service_system: step_system service_init service_step service_inv
proof
  show "service_inv s" if "service_init s" for s
    using that by (simp add: service_init_def service_inv_def)
qed (rule service_step_inv)

section \<open>Closed conversations are frozen\<close>

definition frozen :: "database \<Rightarrow> database \<Rightarrow> bool" where
  "frozen db db' \<longleftrightarrow> (\<forall>cid. is_closed cid db \<longrightarrow> is_closed cid db' \<and> turns_of cid db' = turns_of cid db)"

lemma frozen_refl [simp]: "frozen db db"
  by (simp add: frozen_def)

lemma frozen_trans: "frozen db db' \<Longrightarrow> frozen db' db'' \<Longrightarrow> frozen db db''"
  by (auto simp: frozen_def)

lemma is_closed_cong: "conv_shape db = conv_shape db' \<Longrightarrow> is_closed cid db = is_closed cid db'"
  by (simp add: is_closed_def)

lemma frozen_same:
  "conv_shape db' = conv_shape db \<Longrightarrow> conversation_turns db' = conversation_turns db \<Longrightarrow> frozen db db'"
  by (simp add: frozen_def is_closed_def turns_of_def)

lemma frozen_append:
  assumes "tables_inv db" "conv_shape db' = conv_shape db"
    "conversation_turns db' = conversation_turns db @ [t]" "is_open (t_conversation t) db"
  shows "frozen db db'"
  using assms closed_not_open [OF assms(1)] is_closed_cong [OF assms(2)]
  by (auto simp: frozen_def turns_of_def)

lemma frozen_add_turn:
  assumes "tables_inv db"
  shows "frozen db (snd (add_turn now t db))"
  by (cases rule: add_turn_cases [of now t db]) (auto intro: frozen_append simp: assms)

lemma frozen_update_turn:
  assumes inv: "tables_inv db" and t: "(tid, cid) \<in> set (turn_shape db)" "is_open cid db"
  shows "frozen db (snd (update_turn_content_and_completion now tid content done db))"
proof -
  let ?f = "\<lambda>r. r\<lparr>t_content := content, t_complete := done, t_updated_at := now\<rparr>"
  have same: "turns_of c (db\<lparr>conversation_turns := sql_update (\<lambda>r. t_id r = tid) ?f (conversation_turns db),
      conversations := cs\<rparr>) = turns_of c db" if "c \<noteq> cid" for c cs
  proof -
    have "t_conversation r = cid" if "r \<in> set (conversation_turns db)" "t_id r = tid" for r
    proof -
      from that have "(tid, t_conversation r) \<in> set (turn_shape db)" by (force simp: turn_shape_def)
      moreover have "distinct (map fst (turn_shape db))" using inv by (simp add: tables_inv_def)
      ultimately show ?thesis using t(1) by (metis eq_key_imp_eq_value)
    qed
    then have "\<forall>r \<in> set rs. t_id r = tid \<longrightarrow> t_conversation r = cid" if "set rs \<subseteq> set (conversation_turns db)" for rs
      using that by blast
    then have "set rs \<subseteq> set (conversation_turns db) \<Longrightarrow>
        filter (\<lambda>t. t_conversation t = c) (sql_update (\<lambda>r. t_id r = tid) ?f rs) =
        filter (\<lambda>t. t_conversation t = c) rs" for rs
      using \<open>c \<noteq> cid\<close> by (induction rs) auto
    then show ?thesis by (simp add: turns_of_def)
  qed
  have "turns_of c (snd (update_turn_content_and_completion now tid content done db)) = turns_of c db"
    if "is_closed c db" for c
    using that t(2) closed_not_open [OF inv that] same [of c]
    by (auto simp: update_turn_content_and_completion_def Let_def split: option.splits)
  then show ?thesis
    using is_closed_cong [OF update_turn_keeps(1)] by (auto simp: frozen_def)
qed

lemma frozen_update_state:
  assumes "tables_inv db" and "st \<noteq> ClosedConversation \<Longrightarrow> is_open cid db"
  shows "frozen db (snd (update_state now cid st db))"
proof -
  have "is_closed c (snd (update_state now cid st db))" if "is_closed c db" for c
  proof -
    from that obtain ch where ch: "(c, ch, ClosedConversation) \<in> set (conv_shape db)"
      by (auto simp: is_closed_def)
    have "c = cid \<Longrightarrow> st = ClosedConversation" using assms closed_not_open [OF assms(1) that] by auto
    then show ?thesis using ch by (force simp: is_closed_def update_state_shape)
  qed
  then show ?thesis by (simp add: frozen_def turns_of_def update_state_shape)
qed

lemma frozen_save:
  "conversation_by_id (c_id c) db = None \<Longrightarrow> frozen db (save_conversation c db)"
  by (auto simp: frozen_def is_closed_def turns_of_def save_fresh_shape)

lemma frozen_delete: "frozen db (snd (delete_if_empty_pending cid db))"
  by (auto simp: frozen_def is_closed_def turns_of_def delete_if_empty_shape)

lemma frozen_sync:
  assumes "service_inv s"
  shows "frozen (store s) (store (snd (sync_streaming_assistant_turn_locked now cid s)))"
  using assms
proof (cases rule: sync_cases [of s now cid])
  case (updated d)
  have "(t_id (draft_turn d), cid) \<in> set (turn_shape (store s))" "is_open cid (store s)"
    using service_invD(2) [OF assms updated(1)] updated(2) by (simp_all add: draft_ok_def)
  then show ?thesis
    using updated(3) frozen_update_turn [OF service_invD(1) [OF assms]] by simp
next
  case (stored d db)
  then have "t_conversation (draft_turn d) = cid"
    using service_invD(2) [OF assms] by (simp add: draft_ok_def)
  with stored show ?thesis
    using service_invD(1) [OF assms] by (auto simp: set_persisted_def intro: frozen_append)
qed simp_all

lemma frozen_store_draft:
  assumes "tables_inv (store s)"
    and "persisted d \<Longrightarrow> (t_id (draft_turn d), cid) \<in> set (turn_shape (store s)) \<and> is_open cid (store s)"
  shows "frozen (store s) (store (snd (store_draft now d s)))"
  using assms frozen_add_turn [OF assms(1)] frozen_update_turn [OF assms(1), of "t_id (draft_turn d)" cid]
  by (auto simp: store_draft_def Let_def case_prod_unfold on_store_def
      intro!: and_then_snd [of "\<lambda>s'. frozen (store s) (store s')"])

lemma frozen_open_or_create:
  "conversation_by_id new (store s) = None \<Longrightarrow>
   frozen (store s) (store (snd (open_or_create_pending_locked now new channel s)))"
  by (auto simp: open_or_create_pending_locked_def Let_def frozen_save new_conversation_def split: option.splits)

lemma frozen_activate_and_add:
  assumes inv: "service_inv s" and op: "is_open (c_id c) (store s)"
  shows "frozen (store s) (store (snd (let (activated, s2) =
        if c_state c = PendingConversation
        then (let (r, db) = update_state now (c_id c) ActiveConversation (store s) in (r, s\<lparr>store := db\<rparr>))
        else (Some c, s)
      in case activated of
           None \<Rightarrow> (Inl e, s2)
         | Some c2 \<Rightarrow> and_then (on_store s2
             (add_turn now (new_turn now tid (c_id c2) UserRole message True) (store s2)))
             (\<lambda>_ s3. (Inr c2, s3)))))"
proof -
  have add: "frozen db (store (snd (and_then (on_store s2 (add_turn now t (store s2))) (\<lambda>_ s3. (Inr x, s3)))))"
    if "frozen db (store s2)" "tables_inv (store s2)" for db s2 t and x :: conversation
    using frozen_trans [OF that(1) frozen_add_turn [OF that(2)]]
    by (intro and_then_snd [of "\<lambda>s'. frozen db (store s')"]) (simp_all add: on_store_def)
  show ?thesis
  proof (cases "c_state c = PendingConversation")
    case False
    with add [of "store s" s] service_invD(1) [OF inv] show ?thesis by simp
  next
    case True
    let ?s2 = "s\<lparr>store := snd (update_state now (c_id c) ActiveConversation (store s))\<rparr>"
    have "tables_inv (store ?s2)" using tables_inv_update_state [OF service_invD(1) [OF inv] op] by simp
    moreover have "frozen (store s) (store ?s2)"
      using frozen_update_state [OF service_invD(1) [OF inv] op] by simp
    ultimately show ?thesis
      using True add [of "store s" ?s2] by (simp add: case_prod_unfold Let_def split: option.split)
  qed
qed

lemma frozen_append_user:
  assumes inv: "service_inv s" and new: "conversation_by_id new (store s) = None"
  shows "frozen (store s) (store (snd (append_user_turn_or_create_active now new tid message channel s)))"
proof (cases "get_open_in_channel (Some channel) (store s)")
  case None
  let ?c = "new_conversation now new ActiveConversation channel"
  let ?s1 = "s\<lparr>store := save_conversation ?c (store s)\<rparr>"
  have "tables_inv (store ?s1)"
    using service_invD(1) [OF inv_new_conversation [OF inv new None, of ActiveConversation now]] by simp
  moreover have "frozen (store s) (store ?s1)" using new by (simp add: frozen_save new_conversation_def)
  ultimately have "frozen (store s) (snd (add_turn now t (store ?s1)))" for t
    by (blast intro: frozen_trans frozen_add_turn)
  with None show ?thesis
    unfolding append_user_turn_or_create_active_def
    by (simp add: create_active_unlocked_def Let_def on_store_def)
      (rule and_then_snd [of "\<lambda>s'. frozen (store s) (store s')"], simp_all)
next
  case (Some c)
  let ?s1 = "snd (sync_streaming_assistant_turn_locked now (c_id c) s)"
  have op: "is_open (c_id c) (store ?s1)"
    using open_is_open [OF Some] is_open_cong [OF conv_shape_sync [OF inv]] by simp
  show ?thesis
    unfolding append_user_turn_or_create_active_def Some option.case
    by (intro and_then_snd [of "\<lambda>s'. frozen (store s) (store s')"] frozen_sync [OF inv]
        frozen_trans [OF frozen_sync [OF inv] frozen_activate_and_add [OF inv_sync [OF inv] op]])
qed

lemma frozen_settle_stream:
  assumes inv: "service_inv s"
  shows "frozen (store s) (store (snd (settle_interrupted_stream_locked now cid s)))"
proof (cases "hm_get (drafts s) cid")
  case (Some d)
  let ?s1 = "s\<lparr>drafts := hm_remove cid (drafts s)\<rparr>"
  let ?d1 = "d\<lparr>draft_turn := (draft_turn d)\<lparr>t_complete := False, t_updated_at := now\<rparr>\<rparr>"
  have "frozen (store ?s1) (store (snd (store_draft now ?d1 ?s1)))"
    using service_invD(1) [OF inv] service_invD(2) [OF inv Some]
    by (intro frozen_store_draft [of _ _ cid]) (auto simp: draft_ok_def)
  then have "frozen (store s) (store (snd (and_then (store_draft now ?d1 ?s1) (\<lambda>_ s2. (Inr (), s2)))))"
    by (intro and_then_snd [of "\<lambda>s'. frozen (store s) (store s')"]) simp_all
  with Some show ?thesis by (simp add: settle_interrupted_stream_locked_def Let_def frozen_delete)
qed (simp add: settle_interrupted_stream_locked_def)

lemma frozen_finalize:
  assumes inv: "service_inv s"
  shows "frozen (store s) (store (snd (finalize_assistant_stream now cid final done s)))"
proof (cases "hm_get (drafts s) cid")
  case (Some d)
  let ?s1 = "s\<lparr>drafts := hm_remove cid (drafts s)\<rparr>"
  let ?d1 = "d\<lparr>draft_turn := (draft_turn d)\<lparr>t_content := final, t_complete := done, t_updated_at := now\<rparr>\<rparr>"
  have "frozen (store ?s1) (store (snd (store_draft now ?d1 ?s1)))"
    using service_invD(1) [OF inv] service_invD(2) [OF inv Some]
    by (intro frozen_store_draft [of _ _ cid]) (auto simp: draft_ok_def)
  with Some show ?thesis by (simp add: finalize_assistant_stream_def Let_def)
qed (simp add: finalize_assistant_stream_def)

text \<open>Retention and purge keep a closed conversation whole or delete it whole.\<close>

definition gone :: "uuid \<Rightarrow> database \<Rightarrow> bool" where
  "gone cid db \<longleftrightarrow> conversation_by_id cid db = None \<and> turns_of cid db = []"

definition whole_or_gone :: "database \<Rightarrow> database \<Rightarrow> bool" where
  "whole_or_gone db db' \<longleftrightarrow> (\<forall>cid. (is_closed cid db \<longrightarrow> is_closed cid db' \<and> turns_of cid db' = turns_of cid db \<or> gone cid db') \<and>
     (gone cid db \<longrightarrow> gone cid db'))"

lemma whole_or_gone_trans: "whole_or_gone a b \<Longrightarrow> whole_or_gone b c \<Longrightarrow> whole_or_gone a c"
  unfolding whole_or_gone_def by metis

lemma whole_or_gone_delete:
  assumes "tables_inv db" "is_closed c db"
  shows "whole_or_gone db (delete_closed c db)"
proof -
  have "c_state x = ClosedConversation" if "x \<in> set (conversations db)" "c_id x = c" for x
  proof -
    have "(c, c_channel x, c_state x) \<in> set (conv_shape db)" using that by (force simp: conv_shape_def)
    then show ?thesis using assms shape_unique by (auto simp: is_closed_def)
  qed
  then have c: "gone c (delete_closed c db)"
    by (auto simp: gone_def conversation_by_id_def find_None_iff delete_closed_def delete_turns_def turns_of_def)
  have other: "is_closed i (delete_closed c db) = is_closed i db \<and> turns_of i (delete_closed c db) = turns_of i db" if "i \<noteq> c" for i
  proof -
    have "filter (\<lambda>t. t_conversation t = i \<and> t_conversation t \<noteq> c) ts = filter (\<lambda>t. t_conversation t = i) ts" for ts
      using that by (intro filter_cong) auto
    then show ?thesis using that by (auto simp: is_closed_def turns_of_def delete_closed_tables conj_commute)
  qed
  have "gone i (delete_closed c db)" if "gone i db" for i
    using that by (auto simp: gone_def conversation_by_id_def find_None_iff delete_closed_def delete_turns_def turns_of_def
        filter_empty_conv)
  then show ?thesis using c other unfolding whole_or_gone_def by metis
qed

lemma whole_or_gone_prune:
  assumes "tables_inv db"
  shows "whole_or_gone db (prune_closed_conversations now retention_days keep db)"
proof -
  have "whole_or_gone db (fold delete_closed cids db)" if "tables_inv db" "\<And>c. c \<in> set cids \<Longrightarrow> is_closed c db \<or> gone c db" for cids db
    using that
  proof (induction cids arbitrary: db)
    case (Cons c cids)
    have step: "whole_or_gone db (delete_closed c db)"
    proof (cases "is_closed c db")
      case False
      then have "gone c db" using Cons.prems(2) by auto
      then have "delete_closed c db = db"
        by (auto simp: gone_def conversation_by_id_def find_None_iff turns_of_def delete_closed_def delete_turns_def
            filter_empty_conv list_ex_iff intro!: database.equality filter_True)
      then show ?thesis by (simp add: whole_or_gone_def)
    qed (rule whole_or_gone_delete [OF Cons.prems(1)])
    moreover have "is_closed x (delete_closed c db) \<or> gone x (delete_closed c db)" if "x \<in> set cids" for x
      using step Cons.prems(2) [of x] that unfolding whole_or_gone_def by auto
    ultimately show ?case
      using Cons.IH [OF tables_inv_delete_closed [OF Cons.prems(1)]] whole_or_gone_trans by simp
  qed (simp add: whole_or_gone_def)
  then show ?thesis using assms candidates_closed unfolding prune_closed_conversations_def by blast
qed

lemma whole_or_gone_purge: "whole_or_gone db (purge_conversations db)"
  by (simp add: whole_or_gone_def gone_def purge_conversations_def delete_turns_def conversation_by_id_def turns_of_def)

definition deletes_conversations :: "database \<Rightarrow> database \<Rightarrow> bool" where
  "deletes_conversations db db' \<longleftrightarrow>
     (\<exists>now retention_days keep. db' = prune_closed_conversations now retention_days keep db) \<or> db' = purge_conversations db"

lemma frozen_step:
  assumes inv: "service_inv s" and "service_step s t"
  shows "frozen (store s) (store t) \<or> deletes_conversations (store s) (store t) \<and> whole_or_gone (store s) (store t)"
  using assms(2)
proof cases
  case (retention now retention_days keep)
  then show ?thesis
    using whole_or_gone_prune [OF service_invD(1) [OF inv]] unfolding deletes_conversations_def by auto
next
  case purge
  then show ?thesis using whole_or_gone_purge unfolding deletes_conversations_def by auto
next
  case (proactive_stream new_id tid now preferred)
  then show ?thesis
    using frozen_open_or_create [OF proactive_stream(2)]
    by (auto simp: begin_proactive_stream_def case_prod_unfold Let_def begin_assistant_stream_locked_def
        split: option.splits)
next
  case (assistant_stream tid now cid)
  show ?thesis
    unfolding assistant_stream begin_assistant_stream_def
    by (rule disjI1, rule and_then_snd [of "\<lambda>s'. frozen (store s) (store s')"])
      (simp_all add: frozen_sync [OF inv] begin_assistant_stream_locked_def)
next
  case (settle_turn now tid)
  then show ?thesis
    using frozen_settle_stream [OF inv]
    by (auto simp: settle_interrupted_turn_def split: option.splits)
next
  case (close_stale now cid minutes)
  then show ?thesis
    using frozen_update_state [OF service_invD(1) [OF inv], of ClosedConversation]
    by (auto simp: close_if_stale_def case_prod_unfold Let_def split: option.splits)
next
  case (acknowledge now turn channel)
  then show ?thesis
    by (simp add: on_store_def frozen_same conv_shape_def acknowledge_tables)
qed (simp_all add: frozen_append_user [OF inv] frozen_open_or_create push_assistant_stream_delta_def
    frozen_finalize [OF inv] discard_proactive_stream_def frozen_delete)

section \<open>Properties\<close>

text \<open>C3: A channel never has two open conversations. Whatever operations the service has run since
  its start, in any order and with any failures on the way, at most one conversation of a channel
  is pending or active, so that a reply, a proactive message and the owner's message of one
  channel meet in the same conversation.\<close>

theorem one_open_conversation_per_channel:
  assumes "reach service_init service_step s"
  shows "length (filter (\<lambda>c. open_state c \<and> c_channel c = channel) (conversations (store s))) \<le> 1"
proof -
  have "distinct (map (fst \<circ> snd) (filter open_shape (conv_shape (store s))))"
    using service_system.reachable_inv [OF assms] by (simp add: service_inv_def tables_inv_def)
  then have d: "distinct (map c_channel (filter open_state (conversations (store s))))"
    by (simp add: conv_shape_def filter_map o_def open_shape_def open_state_iff [abs_def])
  have "length (filter (\<lambda>c. c_channel c = channel) cs) \<le> 1" if "distinct (map c_channel cs)" for cs
    using that
  proof (induction cs)
    case (Cons a cs)
    show ?case
    proof (cases "c_channel a = channel")
      case True
      then have "\<forall>c \<in> set cs. c_channel c \<noteq> channel"
        using Cons.prems by (simp add: image_iff) metis
      then have "filter (\<lambda>c. c_channel c = channel) cs = []" by (rule filter_False)
      then show ?thesis by simp
    qed (use Cons in simp)
  qed simp
  from this [OF d] show ?thesis by (simp add: conj_commute)
qed

theorem one_open_conversation_per_channel_witness:
  "\<exists>s. reach service_init service_step s \<and> conversations (store s) \<noteq> [] \<and>
     length (filter (\<lambda>c. open_state c \<and> c_channel c = 7) (conversations (store s))) \<le> 1"
proof -
  let ?s0 = "\<lparr>store = empty_db, drafts = []\<rparr>"
  let ?s1 = "snd (append_user_turn_or_create_active 5 1 2 (lit ''hi'') 7 ?s0)"
  have "service_init ?s0"
    by (simp add: service_init_def tables_inv_def empty_db_def conv_shape_def turn_shape_def)
  moreover have "service_step ?s0 ?s1"
    by (rule user_turn) (simp_all add: empty_db_def conversation_by_id_def fresh_turn_def turn_shape_def)
  ultimately have r: "reach service_init service_step ?s1" by (blast intro: reach_init reach_step)
  moreover have "conversations (store ?s1) \<noteq> []"
    by (simp add: append_user_turn_or_create_active_def get_open_in_channel_def empty_db_def
        create_active_unlocked_def Let_def and_then_def on_store_def add_turn_def save_conversation_def
        conversation_by_id_def new_conversation_def new_turn_def)
  ultimately show ?thesis using one_open_conversation_per_channel [OF r, of 7] by blast
qed

text \<open>C4: A closed conversation is frozen. No operation reopens it and none adds, removes or rewrites
  a turn of it, not even the reply that was streaming when it was begun. Only the retention pass and the owner's
  purge delete it, and they delete it whole: the conversation with all of its turns.\<close>

theorem closed_conversations_are_frozen:
  assumes "reach service_init service_step s" and "service_step s t" and "is_closed cid (store s)"
  shows "is_closed cid (store t) \<and> turns_of cid (store t) = turns_of cid (store s) \<or>
    deletes_conversations (store s) (store t) \<and> conversation_by_id cid (store t) = None \<and> turns_of cid (store t) = []"
  using frozen_step [OF service_system.reachable_inv [OF assms(1)] assms(2)] assms(3)
  unfolding frozen_def whole_or_gone_def gone_def by blast

theorem closed_conversations_are_frozen_witness:
  "\<exists>s t. service_step s t \<and> is_closed 1 (store t) \<and> length (turns_of 1 (store t)) = 1"
proof -
  let ?c = "\<lparr>c_id = 1, c_channel = 7, c_state = ClosedConversation, c_closed_at = Some 4,
     c_created_at = 0, c_updated_at = 4\<rparr>"
  let ?t = "new_turn 0 9 1 UserRole (lit ''hi'') True"
  let ?s = "\<lparr>store = empty_db\<lparr>conversations := [?c], conversation_turns := [?t]\<rparr>, drafts = []\<rparr>"
  let ?u = "snd (append_user_turn_or_create_active 5 2 3 (lit ''again'') 7 ?s)"
  have "service_init ?s"
    by (simp add: service_init_def tables_inv_def empty_db_def conv_shape_def turn_shape_def open_shape_def)
  then have r: "reach service_init service_step ?s" by (rule reach_init)
  have st: "service_step ?s ?u"
    by (rule user_turn) (simp_all add: empty_db_def conversation_by_id_def fresh_turn_def turn_shape_def new_turn_def)
  have "is_closed 1 (store ?s)" by (simp add: is_closed_def conv_shape_def)
  note frozen_u = closed_conversations_are_frozen [OF r st this]
  have "length (turns_of 1 (store ?s)) = 1" by (simp add: turns_of_def new_turn_def)
  moreover have "turns_of 1 (store ?u) \<noteq> []"
    by (simp add: append_user_turn_or_create_active_def get_open_in_channel_def empty_db_def
        create_active_unlocked_def Let_def and_then_def on_store_def add_turn_def save_conversation_def
        conversation_by_id_def new_conversation_def new_turn_def turns_of_def open_state_def)
  ultimately have "is_closed 1 (store ?u) \<and> length (turns_of 1 (store ?u)) = 1" using frozen_u by auto
  with st show ?thesis by blast
qed

lemma store_draft_stores:
  assumes inv: "service_inv s" and ok: "draft_ok (store s) cid d" and op: "is_open cid (store s)"
  shows "\<exists>t. fst (store_draft now d s) = Inr (Some t) \<and> t_id t = t_id (draft_turn d) \<and>
     t_conversation t = cid \<and> t_content t = t_content (draft_turn d) \<and>
     t_complete t = t_complete (draft_turn d) \<and>
     filter (\<lambda>x. t_id x = t_id t) (conversation_turns (store (snd (store_draft now d s)))) = [t] \<and>
     drafts (snd (store_draft now d s)) = drafts s"
proof -
  let ?t = "draft_turn d" and ?db = "store s"
  have dt: "distinct (map t_id (conversation_turns ?db))"
    using service_invD(1) [OF inv] by (simp add: tables_inv_def turn_shape_def o_def)
  show ?thesis
  proof (cases "persisted d")
    case True
    with ok obtain t0 where t0: "t0 \<in> set (conversation_turns ?db)" "t_id t0 = t_id ?t" "t_conversation t0 = cid"
      by (auto simp: draft_ok_def turn_shape_def)
    let ?f = "\<lambda>r. r\<lparr>t_content := t_content ?t, t_complete := t_complete ?t, t_updated_at := now\<rparr>"
    have "update_turn_content_and_completion now (t_id ?t) (t_content ?t) (t_complete ?t) ?db =
        (Some (?f t0), ?db\<lparr>conversation_turns := sql_update (\<lambda>r. t_id r = t_id ?t) ?f (conversation_turns ?db),
              conversations := sql_update (\<lambda>c. c_id c = t_conversation t0)
                (\<lambda>c. c\<lparr>c_updated_at := now\<rparr>) (conversations ?db)\<rparr>)"
      by (simp add: update_turn_content_and_completion_def find_unique_key [OF dt t0(1,2)])
    moreover have "filter (\<lambda>r. t_id r = t_id ?t) (sql_update (\<lambda>r. t_id r = t_id ?t) ?f (conversation_turns ?db)) =
        [?f t0]"
      by (simp add: filter_sql_update filter_unique_key [OF dt t0(1,2)])
    ultimately show ?thesis using True t0 by (simp add: store_draft_def Let_def)
  next
    case False
    with ok have new: "t_conversation ?t = cid" "t_id ?t \<notin> fst ` set (turn_shape ?db)"
      by (simp_all add: draft_ok_def)
    then have not_stored: "\<not> list_ex (\<lambda>r. t_id r = t_id ?t) (conversation_turns ?db)"
      unfolding list_ex_iff turn_shape_def set_map image_image by (auto simp: image_iff)
    from op obtain c where c: "conversation_by_id cid ?db = Some c"
      using is_open_in_shape [OF op] conversation_by_id_None [of cid ?db] by (cases "conversation_by_id cid ?db") auto
    then have "c_state c \<noteq> ClosedConversation"
      using conversation_by_id_shape [OF c] closed_not_open [OF service_invD(1) [OF inv], of cid] op
      unfolding is_closed_def by metis
    then have "add_turn now ?t ?db = (Inr ?t, ?db\<lparr>conversation_turns := conversation_turns ?db @ [?t],
            conversations := sql_update (\<lambda>r. c_id r = t_conversation ?t)
              (\<lambda>r. r\<lparr>c_updated_at := now\<rparr>) (conversations ?db)\<rparr>)"
      using c new(1) not_stored by (simp add: add_turn_def)
    moreover have "filter (\<lambda>x. t_id x = t_id ?t) (conversation_turns ?db) = []"
      using not_stored by (simp add: filter_empty_conv list_ex_iff)
    ultimately show ?thesis
      using False new(1) by (simp add: store_draft_def Let_def and_then_def on_store_def)
  qed
qed

text \<open>A finished reply is stored, whole and once. When the stream of an open conversation ends
  with a text, exactly one turn of its identity is in the table afterwards, with that text and
  that completeness, whether or not a part of the reply had been stored before, and the draft is
  gone.\<close>

theorem finalized_reply_is_stored:
  assumes "reach service_init service_step s" and "hm_get (drafts s) cid = Some d"
    and "is_open cid (store s)" and "final \<noteq> []"
  shows "\<exists>t s'. finalize_assistant_stream now cid final done s = (Inr (Some t), s') \<and>
     t_id t = t_id (draft_turn d) \<and> t_conversation t = cid \<and> t_content t = final \<and> t_complete t = done \<and>
     filter (\<lambda>x. t_id x = t_id t) (conversation_turns (store s')) = [t] \<and> hm_get (drafts s') cid = None"
proof -
  note inv = service_system.reachable_inv [OF assms(1)]
  let ?s1 = "s\<lparr>drafts := hm_remove cid (drafts s)\<rparr>"
  let ?d = "d\<lparr>draft_turn := (draft_turn d)\<lparr>t_content := final, t_complete := done, t_updated_at := now\<rparr>\<rparr>"
  have "draft_ok (store ?s1) cid ?d"
    using draft_ok_same [OF service_invD(2) [OF inv assms(2)], of ?d] by simp
  then obtain t where "fst (store_draft now ?d ?s1) = Inr (Some t)" "t_id t = t_id (draft_turn d)"
      "t_conversation t = cid" "t_content t = final" "t_complete t = done"
      "filter (\<lambda>x. t_id x = t_id t) (conversation_turns (store (snd (store_draft now ?d ?s1)))) = [t]"
      "drafts (snd (store_draft now ?d ?s1)) = hm_remove cid (drafts s)"
    using store_draft_stores [OF inv_remove_draft [OF inv], of cid cid ?d now] assms(3) by auto
  moreover have "finalize_assistant_stream now cid final done s = store_draft now ?d ?s1"
    using assms(2,4) by (simp add: finalize_assistant_stream_def Let_def)
  ultimately show ?thesis
    by (intro exI [of _ t] exI [of _ "snd (store_draft now ?d ?s1)"]) (simp add: prod_eq_iff hm_simps)
qed

theorem finalized_reply_is_stored_witness:
  "\<exists>s t s'. finalize_assistant_stream 9 1 (lit ''hello'') True s = (Inr (Some t), s') \<and>
     t_content t = lit ''hello'' \<and> filter (\<lambda>x. t_id x = 3) (conversation_turns (store s')) = [t]"
proof -
  let ?c = "new_conversation 0 1 ActiveConversation 7"
  let ?s0 = "\<lparr>store = empty_db\<lparr>conversations := [?c]\<rparr>, drafts = []\<rparr>"
  let ?u = "snd (begin_assistant_stream 5 1 3 ?s0)"
  have "service_init ?s0"
    by (simp add: service_init_def tables_inv_def empty_db_def conv_shape_def turn_shape_def)
  moreover have "service_step ?s0 ?u"
    by (rule assistant_stream) (simp add: empty_db_def fresh_turn_def turn_shape_def)
  ultimately have r: "reach service_init service_step ?u" by (blast intro: reach_init reach_step)
  have s: "?u = \<lparr>store = empty_db\<lparr>conversations := [?c]\<rparr>,
      drafts = [(1, \<lparr>draft_turn = new_turn 5 3 1 AssistantRole [] False, persisted = False\<rparr>)]\<rparr>"
    by (simp add: begin_assistant_stream_def sync_streaming_assistant_turn_locked_def and_then_def
        begin_assistant_stream_locked_def)
  have d: "hm_get (drafts ?u) 1 = Some \<lparr>draft_turn = new_turn 5 3 1 AssistantRole [] False, persisted = False\<rparr>"
    by (simp add: s)
  have o: "is_open 1 (store ?u)" unfolding s by (simp add: is_open_def conv_shape_def new_conversation_def)
  have "lit ''hello'' \<noteq> []" by (simp add: lit_def)
  from finalized_reply_is_stored [OF r d o this, of 9 True]
  obtain t s' where "finalize_assistant_stream 9 1 (lit ''hello'') True ?u = (Inr (Some t), s')"
      "t_content t = lit ''hello''" "t_id t = 3" "filter (\<lambda>x. t_id x = t_id t) (conversation_turns (store s')) = [t]"
    by (auto simp: new_turn_def)
  then show ?thesis by (intro exI [of _ ?u] exI [of _ t] exI [of _ s']) simp
qed

end
