(* ===== verification/Owner_Inputs.thy ===== *)
theory Owner_Inputs
  imports Agent_Jobs
begin

text \<open>
  Questions to the owner: \<open>src/BoBeService/src/db/owner_input_repo.rs\<close>. A run may ask the owner
  for approval or information, settle its current turn and continue when the answer is
  released into new or resumed background work.

  What the code calls outside src/ comes in one record: how \<open>serde_json\<close> prints a value, how
  \<open>uuid\<close> and \<open>chrono\<close> print identifiers and times, the last instant \<open>chrono\<close> represents, and the
  Unicode lower-case mapping of the non-ASCII character at a position of a text (it may depend
  on the position, as for the Greek final sigma).
\<close>

record work_env =
  env_json :: "json \<Rightarrow> rtext"
  env_uuid :: "uuid \<Rightarrow> rtext"
  env_time :: "int \<Rightarrow> rtext"
  env_lower :: "rtext \<Rightarrow> nat \<Rightarrow> rtext"
  env_time_max :: int

section \<open>Matching an answer\<close>

definition to_lowercase :: "work_env \<Rightarrow> rtext \<Rightarrow> rtext" where
  "to_lowercase env s = concat (map (\<lambda>i. if s ! i < 128 then [to_ascii_lowercase (s ! i)]
     else env_lower env s i) [0..<length s])"

definition is_closing_mark :: "uchar \<Rightarrow> bool" where
  "is_closing_mark c \<longleftrightarrow> c \<in> {46, 33, 63}"

definition normalized :: "work_env \<Rightarrow> rtext \<Rightarrow> rtext" where
  "normalized env t = to_lowercase env (trim (rev (dropWhile is_closing_mark (rev (trim t)))))"

definition visible_in :: "uuid \<Rightarrow> owner_input \<Rightarrow> bool" where
  "visible_in channel i \<longleftrightarrow> o_channel i = channel \<or> o_goal i \<noteq> None"

definition choice_matches :: "work_env \<Rightarrow> rtext \<Rightarrow> input_choice \<Rightarrow> bool" where
  "choice_matches env wanted c \<longleftrightarrow>
     normalized env (choice_label c) = wanted \<or> normalized env (choice_value c) = wanted"

definition answer_value :: "work_env \<Rightarrow> owner_input \<Rightarrow> rtext \<Rightarrow> rtext option" where
  "answer_value env i response =
     (if o_kind i = Information \<and> o_choices i = [] then Some (trim response)
      else map_option choice_value
        (find (choice_matches env (normalized env response)) (o_choices i)))"

section \<open>Asking\<close>

definition default_choices :: "input_choice list" where
  "default_choices =
     [\<lparr>choice_value = lit ''approve'', choice_label = lit ''Yes''\<rparr>,
      \<lparr>choice_value = lit ''decline'', choice_label = lit ''No''\<rparr>]"

definition with_default_choices :: "ask_owner_request \<Rightarrow> ask_owner_request" where
  "with_default_choices input =
     (if ask_kind input = Approval \<and> ask_choices input = []
      then input\<lparr>ask_choices := default_choices\<rparr> else input)"

definition ask_is_valid :: "work_env \<Rightarrow> ask_owner_request \<Rightarrow> bool" where
  "ask_is_valid env input \<longleftrightarrow>
     (let cs = ask_choices input;
          values = map (\<lambda>c. normalized env (choice_value c)) cs;
          labels = map (\<lambda>c. normalized env (choice_label c)) cs
      in \<not> (trim (ask_question input) = []
           \<or> str_len (ask_question input) > 2000
           \<or> trim (ask_action input) = []
           \<or> str_len (ask_action input) > 2000
           \<or> trim (ask_task input) = []
           \<or> str_len (ask_task input) > 32768
           \<or> str_len (ask_context input) > 8000
           \<or> \<not> (60 \<le> ask_expires_seconds input \<and> ask_expires_seconds input \<le> 604800)
           \<or> length cs > 8
           \<or> length (remdups values) \<noteq> length cs
           \<or> length (remdups labels) \<noteq> length cs
           \<or> list_ex (\<lambda>c. trim (choice_value c) = [] \<or> str_len (choice_value c) > 128 \<or>
                trim (choice_label c) = [] \<or> str_len (choice_label c) > 128) cs
           \<or> list_ex (\<lambda>i. list_ex (\<lambda>j. i \<noteq> j \<and> values ! i = labels ! j) [0..<length cs])
                [0..<length cs]
           \<or> (ask_kind input = Approval \<and>
                (length (remdups values) \<noteq> 2 \<or>
                 \<not> list_ex (\<lambda>c. choice_value c = lit ''approve'') cs \<or>
                 \<not> list_ex (\<lambda>c. choice_value c = lit ''decline'') cs))))"

definition join_labels :: "input_choice list \<Rightarrow> rtext" where
  "join_labels cs = (case map choice_label cs of [] \<Rightarrow> []
     | l # ls \<Rightarrow> l @ concat (map (\<lambda>x. lit '', '' @ x) ls))"

abbreviation blank_line :: rtext where "blank_line \<equiv> [newline_char, newline_char]"

definition prompt_for :: "ask_owner_request \<Rightarrow> rtext" where
  "prompt_for input =
     (let p = (if sublist (ask_action input) (ask_question input) then ask_question input
               else ask_action input @ blank_line @ ask_question input)
      in if list_all (\<lambda>c. sublist (choice_label c) p) (ask_choices input) then p
         else p @ blank_line @ join_labels (ask_choices input))"

definition new_input ::
  "int \<Rightarrow> uuid \<Rightarrow> rtext \<Rightarrow> input_origin \<Rightarrow> ask_owner_request \<Rightarrow> owner_input" where
  "new_input now jid source origin input =
     \<lparr>o_id = jid, o_source_key = source, o_origin_run = origin_run origin,
      o_origin_settled = False, o_job = origin_job origin, o_resumed_job = None,
      o_channel = origin_channel origin, o_goal = origin_goal origin, o_kind = ask_kind input,
      o_question = ask_question input, o_action = ask_action input, o_prompt = prompt_for input,
      o_choices = ask_choices input, o_definition = input, o_status = Pending,
      o_expires_at = now + int (ask_expires_seconds input) * 1000000000,
      o_response = None, o_response_id = None, o_created_at = millis now\<rparr>"

definition ask_transaction ::
  "int \<Rightarrow> uuid \<Rightarrow> rtext \<Rightarrow> input_origin \<Rightarrow> ask_owner_request \<Rightarrow> database \<Rightarrow>
     app_error + owner_input \<times> database" where
  "ask_transaction now jid source origin input db =
     (case find (\<lambda>i. o_source_key i = source) (inputs db) of
        Some existing \<Rightarrow>
          if o_origin_run existing \<noteq> origin_run origin \<or> o_definition existing \<noteq> input
          then Inl (Conflict ''owner input identity was reused with different work'')
          else Inr (existing, db)
      | None \<Rightarrow>
          if 8 \<le> length (filter (\<lambda>i. o_status i = Pending) (inputs db)) \<or>
             list_ex (\<lambda>i. o_origin_run i = origin_run origin \<and> o_status i = Pending) (inputs db)
          then Inl (Conflict ''finish or cancel an existing owner question before asking another'')
          else if input_key source \<in> set (tombstones db)
          then Inl (RequestReplayUnsafe ''this owner question was retired and cannot be replayed'')
          else if list_ex (\<lambda>i. o_id i = jid) (inputs db)
          then Inl (Database ''UNIQUE constraint failed'')
          else
            let i = new_input now jid source origin input in
            Inr (i, db\<lparr>inputs := inputs db @ [i],
              input_presentations := input_presentations db @
                (if origin_job origin = None
                 then [\<lparr>p_input = jid, p_channel = origin_channel origin,
                        p_turn = Some (origin_run origin), p_presented_at = None\<rparr>]
                 else [])\<rparr>))"

definition ask_owner ::
  "work_env \<Rightarrow> execution_limits \<Rightarrow> int \<Rightarrow> uuid \<Rightarrow> rtext \<Rightarrow> input_origin \<Rightarrow> ask_owner_request \<Rightarrow>
     database \<Rightarrow> owner_input outcome" where
  "ask_owner env limits now jid source origin request db =
     (let input = with_default_choices request in
      if \<not> ask_is_valid env input
      then (Inl (Validation ''owner input requires an important, bounded question, action, continuation and unambiguous choices''), db)
      else case resolve limits (ask_budget input) of
        Inl e \<Rightarrow> (Inl e, db)
      | Inr _ \<Rightarrow> commit db (ask_transaction now jid source origin input db))"

section \<open>Reading\<close>

definition owner_input_of :: "uuid \<Rightarrow> database \<Rightarrow> app_error + owner_input" where
  "owner_input_of jid db =
     find_row (\<lambda>i. o_id i = jid) (inputs db) (NotFound ''owner question was not found'')"

definition pending_job_input :: "int \<Rightarrow> uuid \<Rightarrow> database \<Rightarrow> owner_input option" where
  "pending_job_input now job db =
     (case rev (filter (\<lambda>i. o_job i = Some job \<and> o_status i = Pending \<and> o_expires_at i > now)
        (inputs db)) of [] \<Rightarrow> None | i # _ \<Rightarrow> Some i)"

definition pending_first :: "owner_input \<Rightarrow> nat \<times> int" where
  "pending_first i = (if o_status i = Pending then 0 else 1, - o_created_at i)"

definition owner_inputs :: "uuid \<Rightarrow> database \<Rightarrow> owner_input list" where
  "owner_inputs channel db =
     take 32 (sort_key pending_first (filter (visible_in channel) (inputs db)))"

definition input_status_name :: "input_status \<Rightarrow> string" where
  "input_status_name s = (case s of Pending \<Rightarrow> ''pending'' | Answered \<Rightarrow> ''answered''
     | Declined \<Rightarrow> ''declined'' | InputCancelled \<Rightarrow> ''cancelled'' | Expired \<Rightarrow> ''expired'')"

definition input_kind_name :: "input_kind \<Rightarrow> string" where
  "input_kind_name k = (case k of Approval \<Rightarrow> ''approval'' | Information \<Rightarrow> ''information'')"

definition json_text_opt :: "rtext option \<Rightarrow> json" where
  "json_text_opt t = (case t of None \<Rightarrow> JNull | Some s \<Rightarrow> JStr s)"

definition input_fact :: "work_env \<Rightarrow> owner_input \<Rightarrow> json" where
  "input_fact env i = JObj
     [(''id'', JStr (env_uuid env (o_id i))),
      (''status'', JStr (lit (input_status_name (o_status i)))),
      (''kind'', JStr (lit (input_kind_name (o_kind i)))),
      (''action'', JStr (truncate_str (o_action i) 400)),
      (''question'', JStr (truncate_str (o_question i) 400)),
      (''response'', json_text_opt (map_option (\<lambda>r. truncate_str r 400) (o_response i))),
      (''resumed_job_id'', json_text_opt (map_option (env_uuid env) (o_resumed_job i)))]"

definition owner_input_context :: "work_env \<Rightarrow> uuid \<Rightarrow> uuid option \<Rightarrow> database \<Rightarrow> rtext" where
  "owner_input_context env channel goal db =
     (let records = take 4 (sort_key pending_first
            (filter (\<lambda>i. visible_in channel i \<and> (goal = None \<or> o_goal i = goal)) (inputs db)))
      in if records = [] then []
         else event_block (env_json env) (lit ''bobe.owner_input'') (JArr (map (input_fact env) records)))"

section \<open>Presenting\<close>

definition still_pending :: "int \<Rightarrow> uuid \<Rightarrow> owner_input \<Rightarrow> bool" where
  "still_pending now channel i \<longleftrightarrow>
     visible_in channel i \<and> o_status i = Pending \<and> \<not> o_expires_at i \<le> now"

definition upsert_presentation ::
  "uuid \<Rightarrow> uuid \<Rightarrow> (input_presentation \<Rightarrow> input_presentation) \<Rightarrow> database \<Rightarrow> database" where
  "upsert_presentation jid channel f db =
     (let key = (\<lambda>p. p_input p = jid \<and> p_channel p = channel);
          fresh = \<lparr>p_input = jid, p_channel = channel, p_turn = None, p_presented_at = None\<rparr>
      in db\<lparr>input_presentations :=
           (if list_ex key (input_presentations db)
            then sql_update key f (input_presentations db)
            else input_presentations db @ [f fresh])\<rparr>)"

definition offer_owner_input :: "int \<Rightarrow> uuid \<Rightarrow> uuid \<Rightarrow> uuid \<Rightarrow> database \<Rightarrow> owner_input outcome" where
  "offer_owner_input now jid run channel db =
     (case owner_input_of jid db of
        Inl e \<Rightarrow> (Inl e, db)
      | Inr i \<Rightarrow>
          if \<not> still_pending now channel i
          then (Inl (Conflict ''this question is not pending in this channel''), db)
          else (Inr i, upsert_presentation jid channel
            (\<lambda>p. p\<lparr>p_turn := Some run, p_presented_at := None\<rparr>) db))"

definition present_owner_input :: "int \<Rightarrow> int \<Rightarrow> uuid \<Rightarrow> uuid \<Rightarrow> database \<Rightarrow> unit outcome" where
  "present_owner_input now presented_at jid channel db =
     (case owner_input_of jid db of
        Inl e \<Rightarrow> (Inl e, db)
      | Inr i \<Rightarrow>
          if \<not> still_pending now channel i
          then (Inl (Conflict ''this question is no longer pending''), db)
          else (Inr (), upsert_presentation jid channel
            (\<lambda>p. p\<lparr>p_presented_at := Some presented_at\<rparr>) db))"

definition finish_input_origin :: "uuid \<Rightarrow> database \<Rightarrow> database" where
  "finish_input_origin run db =
     update_inputs (\<lambda>i. o_origin_run i = run) (\<lambda>i. i\<lparr>o_origin_settled := True\<rparr>) db"

section \<open>Answering\<close>

definition answer_transaction ::
  "work_env \<Rightarrow> int \<Rightarrow> uuid \<Rightarrow> uuid \<Rightarrow> rtext \<Rightarrow> uuid \<Rightarrow> database \<Rightarrow>
     app_error + owner_input \<times> database" where
  "answer_transaction env now jid response_id response channel db =
     (case owner_input_of jid db of
        Inl e \<Rightarrow> Inl e
      | Inr i \<Rightarrow>
          if \<not> visible_in channel i
          then Inl (NotFound ''owner question is not available in this channel'')
          else case answer_value env i response of
            None \<Rightarrow> Inl (Validation ''answer must match one of the offered choices'')
          | Some value \<Rightarrow>
              if o_response_id i = Some response_id then
                (if o_response i = Some value then Inr (i, db)
                 else Inl (Conflict ''response identity was reused with a different answer''))
              else if o_status i \<noteq> Pending \<or> o_expires_at i \<le> now
              then Inl (Conflict ''owner question is no longer pending'')
              else
                let declined = (o_kind i = Approval \<and> value = lit ''decline'');
                    f = (\<lambda>i. i\<lparr>o_status := (if declined then Declined else Answered),
                         o_response := Some value, o_response_id := Some response_id\<rparr>);
                    db1 = update_inputs (\<lambda>i. o_id i = jid) f db;
                    db2 = (if declined
                      then update_jobs (\<lambda>j. Some (j_id j) = o_job i \<and> j_status j = AwaitingInput)
                        (\<lambda>j. j\<lparr>j_status := Cancelled, j_delivery := Suppressed\<rparr>) db1
                      else db1)
                in Inr (f i, db2))"

definition answer_owner_input ::
  "work_env \<Rightarrow> int \<Rightarrow> uuid \<Rightarrow> uuid \<Rightarrow> rtext \<Rightarrow> uuid \<Rightarrow> database \<Rightarrow> owner_input outcome" where
  "answer_owner_input env now jid response_id response channel db =
     (if trim response = [] \<or> str_len response > 8192
      then (Inl (Validation ''answer requires 1-8192 bytes of text''), db)
      else commit db (answer_transaction env now jid response_id response channel db))"

text \<open>The last turn of a channel, in the order the turns were written.\<close>

definition last_turn_in :: "uuid \<Rightarrow> database \<Rightarrow> uuid option" where
  "last_turn_in channel db =
     (case rev (filter (\<lambda>t. list_ex (\<lambda>c. c_id c = t_conversation t \<and> c_channel c = channel)
        (conversations db)) (conversation_turns db)) of [] \<Rightarrow> None | t # _ \<Rightarrow> Some (t_id t))"

definition presented_recently :: "int \<Rightarrow> input_presentation \<Rightarrow> bool" where
  "presented_recently received_at p = (case p_presented_at p of None \<Rightarrow> False
     | Some at \<Rightarrow> received_at - 120 * 1000000000 < at \<and> at \<le> received_at)"

definition bindable :: "uuid \<Rightarrow> int \<Rightarrow> database \<Rightarrow> owner_input \<times> input_presentation \<Rightarrow> bool" where
  "bindable channel received_at db = (\<lambda>(i, p).
     p_input p = o_id i \<and> p_channel p = channel \<and> o_status i = Pending \<and>
     o_expires_at i > received_at \<and> presented_recently received_at p \<and>
     p_turn p \<noteq> None \<and> p_turn p = last_turn_in channel db \<and>
     list_ex (\<lambda>t. Some (t_id t) = p_turn p \<and> t_role t = AssistantRole \<and> t_complete t)
       (conversation_turns db))"

definition bind_presented_input ::
  "work_env \<Rightarrow> uuid \<Rightarrow> rtext \<Rightarrow> int \<Rightarrow> database \<Rightarrow> uuid option" where
  "bind_presented_input env channel t received_at db =
     (case sort_key (\<lambda>(i, p). - (case p_presented_at p of None \<Rightarrow> 0 | Some at \<Rightarrow> at))
        (filter (bindable channel received_at db)
          (List.product (inputs db) (input_presentations db))) of
        [] \<Rightarrow> None
      | (i, _) # _ \<Rightarrow> (if answer_value env i t = None then None else Some (o_id i)))"

definition cancel_input_transaction ::
  "uuid \<Rightarrow> uuid \<Rightarrow> database \<Rightarrow> app_error + unit \<times> database" where
  "cancel_input_transaction jid channel db =
     (case owner_input_of jid db of
        Inl e \<Rightarrow> Inl e
      | Inr i \<Rightarrow>
          if \<not> visible_in channel i
          then Inl (NotFound ''owner question is not available in this channel'')
          else if o_status i = Answered
          then Inl (Conflict ''this answer was already saved; stop its continuation task instead'')
          else
            let db1 = update_inputs (\<lambda>r. o_id r = jid \<and> o_status r = Pending)
                  (\<lambda>r. r\<lparr>o_status := InputCancelled\<rparr>) db
            in Inr ((), update_jobs (\<lambda>j. Some (j_id j) = o_job i \<and> j_status j = AwaitingInput)
                  (\<lambda>j. j\<lparr>j_status := Cancelled, j_delivery := Suppressed\<rparr>) db1))"

definition cancel_owner_input :: "uuid \<Rightarrow> uuid \<Rightarrow> database \<Rightarrow> owner_input outcome" where
  "cancel_owner_input jid channel db =
     (case cancel_input_transaction jid channel db of
        Inl e \<Rightarrow> (Inl e, db)
      | Inr (u, db1) \<Rightarrow> (owner_input_of jid db1, db1))"

section \<open>Releasing answers\<close>

definition answer_json :: "work_env \<Rightarrow> owner_input \<Rightarrow> json" where
  "answer_json env i = JObj
     [(''request_id'', JStr (env_uuid env (o_id i))),
      (''kind'', JStr (lit (input_kind_name (o_kind i)))),
      (''question'', JStr (o_question i)), (''action'', JStr (o_action i)),
      (''owner_answer'', json_text_opt (o_response i))]"

definition continuation :: "work_env \<Rightarrow> execution_limits \<Rightarrow> owner_input \<Rightarrow> job_input" where
  "continuation env limits i =
     \<lparr>in_title = truncate_str (o_action i) 160, in_task = ask_task (o_definition i),
      in_context = event_block (env_json env) (lit ''bobe.owner_response'') (answer_json env i) @
        [newline_char] @ ask_context (o_definition i),
      in_budget = clamp_budget limits (ask_budget (o_definition i)),
      in_channel = Some (o_channel i), in_goal = o_goal i, in_schedule = None\<rparr>"

definition released_job :: "owner_input \<Rightarrow> agent_job \<Rightarrow> bool" where
  "released_job i j \<longleftrightarrow> Some (j_id j) = o_job i \<and> j_status j = AwaitingInput \<and> j_delivery j \<noteq> Delivering"

definition mark_resumed :: "uuid \<Rightarrow> uuid \<Rightarrow> database \<Rightarrow> database" where
  "mark_resumed input job db =
     update_inputs (\<lambda>i. o_id i = input \<and> o_resumed_job i = None) (\<lambda>i. i\<lparr>o_resumed_job := Some job\<rparr>) db"

text \<open>The loop over the answers, oldest first. \<open>fresh\<close> draws the identifiers of the iteration of an
  answer: the new job and its delivery.\<close>

fun release_loop ::
  "work_env \<Rightarrow> execution_limits \<Rightarrow> int \<Rightarrow> (uuid \<Rightarrow> uuid \<times> uuid) \<Rightarrow> workload_route \<Rightarrow>
     owner_input list \<Rightarrow> database \<Rightarrow> app_error + database" where
  "release_loop env limits now fresh route [] db = Inr db"
| "release_loop env limits now fresh route (i # is) db =
     (case o_job i of
        Some job \<Rightarrow>
          if \<not> list_ex (released_job i) (jobs db)
          then release_loop env limits now fresh route is db
          else if list_ex (\<lambda>r. j_id r \<noteq> job \<and> j_delivery_id r = snd (fresh (o_id i))) (jobs db)
          then Inl (Database ''UNIQUE constraint failed'')
          else
            let db1 = update_jobs (released_job i)
                  (\<lambda>j. j\<lparr>j_status := Queued, j_attempt := j_attempt j + 1,
                     j_resume_context := env_json env (answer_json env i), j_output := None,
                     j_error := None, j_delivery_id := snd (fresh (o_id i)),
                     j_delivery := DeliveryPending, j_delivery_after := None,
                     j_updated_at := millis now\<rparr>) db
            in release_loop env limits now fresh route is (mark_resumed (o_id i) job db1)
      | None \<Rightarrow>
          if MAX_OUTSTANDING \<le> outstanding db then Inr db
          else case enqueue_in limits now (fst (fresh (o_id i))) (snd (fresh (o_id i)))
                 (lit ''owner-input:'' @ env_uuid env (o_id i)) (continuation env limits i) route db of
            Inl e \<Rightarrow> Inl e
          | Inr (j, db1) \<Rightarrow>
              release_loop env limits now fresh route is (mark_resumed (o_id i) (j_id j) db1))"

definition releasable :: "database \<Rightarrow> owner_input list" where
  "releasable db = take 8 (sort_key o_created_at
     (filter (\<lambda>i. o_status i = Answered \<and> o_origin_settled i \<and> o_resumed_job i = None) (inputs db)))"

definition release_owner_answers ::
  "work_env \<Rightarrow> execution_limits \<Rightarrow> int \<Rightarrow> (uuid \<Rightarrow> uuid \<times> uuid) \<Rightarrow> workload_route \<Rightarrow> database \<Rightarrow>
     unit outcome" where
  "release_owner_answers env limits now fresh route db =
     commit db (case release_loop env limits now fresh route (releasable db) db of
        Inl e \<Rightarrow> Inl e | Inr db' \<Rightarrow> Inr ((), db'))"

end
