(* ===== verification/Agent_Schedules.thy ===== *)
theory Agent_Schedules
  imports Owner_Inputs
begin

text \<open>
  Timed background work: \<open>src/BoBeService/src/db/agent_schedule_repo.rs\<close>, and the periodic review
  of goals: \<open>src/BoBeService/src/db/goal_review_repo.rs\<close>. An occurrence that was missed while the
  machine slept or work was running is coalesced: \<open>next_due\<close> steps over it on the grid of the
  schedule.
\<close>

definition MAX_ENABLED :: nat where "MAX_ENABLED = 64"

abbreviation second :: int where "second \<equiv> 1000000000"

section \<open>The next occurrence\<close>

text \<open>\<open>num_seconds\<close> truncates towards zero and \<open>max(0)\<close> drops a negative count.\<close>

definition next_due :: "int \<Rightarrow> int \<Rightarrow> nat \<Rightarrow> int \<Rightarrow> app_error + int" where
  "next_due time_max due interval now =
     (if interval = 0 then Inl (Validation ''schedule interval must be positive'')
      else
        let skipped = (if now < due then 0 else (now - due) div second) div int interval;
            next = due + (skipped + 1) * int interval * second
        in if next > time_max then Inl (Validation ''schedule time is out of range'') else Inr next)"

section \<open>Schedules\<close>

definition schedule_is_valid :: "schedule_input \<Rightarrow> bool" where
  "schedule_is_valid input \<longleftrightarrow>
     \<not> (trim (si_title input) = [] \<or> str_len (si_title input) > 160 \<or>
        trim (si_task input) = [] \<or> str_len (si_task input) > 32768 \<or>
        str_len (si_context input) > 12000 \<or>
        (case si_every_seconds input of None \<Rightarrow> False | Some n \<Rightarrow> n = 0 \<or> n > 31536000))"

definition holds_slot :: "agent_schedule \<Rightarrow> bool" where
  "holds_slot s \<longleftrightarrow> s_enabled s \<or> s_every_seconds s \<noteq> None \<or> s_last_job s = None"

definition active_schedules :: "database \<Rightarrow> nat" where
  "active_schedules db = length (filter holds_slot (schedules db))"

definition schedule_of :: "uuid \<Rightarrow> database \<Rightarrow> app_error + agent_schedule" where
  "schedule_of sid db =
     find_row (\<lambda>s. s_id s = sid) (schedules db) (NotFound ''schedule was not found'')"

definition new_schedule :: "int \<Rightarrow> uuid \<Rightarrow> rtext \<Rightarrow> schedule_input \<Rightarrow> uuid \<Rightarrow> agent_schedule" where
  "new_schedule now sid source input channel =
     \<lparr>s_id = sid, s_source_key = source, s_title = si_title input, s_task = si_task input,
      s_context = si_context input, s_channel = channel, s_goal = si_goal input,
      s_next_run_at = millis (si_at input), s_every_seconds = si_every_seconds input,
      s_enabled = True, s_generation = 1, s_last_job = None, s_last_error = None,
      s_created_at = millis now, s_updated_at = millis now, s_definition = input,
      s_budget = si_budget input\<rparr>"

definition create_schedule_transaction ::
  "int \<Rightarrow> uuid \<Rightarrow> rtext \<Rightarrow> schedule_input \<Rightarrow> uuid \<Rightarrow> database \<Rightarrow>
     app_error + agent_schedule \<times> database" where
  "create_schedule_transaction now sid source input channel db =
     (case find (\<lambda>s. s_source_key s = source) (schedules db) of
        Some existing \<Rightarrow>
          if s_definition existing \<noteq> input \<or> s_channel existing \<noteq> channel
          then Inl (Conflict ''schedule identity was reused for different work'')
          else Inr (existing, db)
      | None \<Rightarrow>
          if schedule_key source \<in> set (tombstones db)
          then Inl (RequestReplayUnsafe ''This schedule was removed and cannot be recreated by retrying its old request.'')
          else if MAX_ENABLED \<le> active_schedules db
          then Inl (Conflict ''active schedule limit reached'')
          else if list_ex (\<lambda>s. s_id s = sid) (schedules db)
          then Inl (Database ''UNIQUE constraint failed'')
          else let s = new_schedule now sid source input channel in
            Inr (s, db\<lparr>schedules := schedules db @ [s]\<rparr>))"

definition create_schedule ::
  "execution_limits \<Rightarrow> int \<Rightarrow> uuid \<Rightarrow> rtext \<Rightarrow> schedule_input \<Rightarrow> uuid \<Rightarrow> database \<Rightarrow>
     agent_schedule outcome" where
  "create_schedule limits now sid source input channel db =
     (if \<not> schedule_is_valid input
      then (Inl (Validation ''schedule requires a bounded title, task, context, UTC time and positive interval''), db)
      else case resolve limits (si_budget input) of
        Inl e \<Rightarrow> (Inl e, db)
      | Inr _ \<Rightarrow> commit db (create_schedule_transaction now sid source input channel db))"

definition list_schedules :: "database \<Rightarrow> agent_schedule list" where
  "list_schedules db = take 600 (sort_key
     (\<lambda>s. (if s_enabled s then 0 else 1 :: nat, s_next_run_at s, uint (s_id s))) (schedules db))"

definition is_due :: "int \<Rightarrow> agent_schedule \<Rightarrow> bool" where
  "is_due now s \<longleftrightarrow> s_enabled s \<and> s_next_run_at s \<le> millis now"

definition due_schedules :: "int \<Rightarrow> database \<Rightarrow> agent_schedule list" where
  "due_schedules now db =
     take 64 (sort_key (\<lambda>s. (s_next_run_at s, uint (s_id s))) (filter (is_due now) (schedules db)))"

text \<open>The row changes of enabling or disabling, and of dropping a schedule's waiting work.\<close>

definition cancel_queued_of :: "(agent_job \<Rightarrow> agent_job) \<Rightarrow> uuid \<Rightarrow> database \<Rightarrow> database" where
  "cancel_queued_of touch sid db =
     update_jobs (\<lambda>j. j_schedule j = Some sid \<and> j_status j = Queued)
       (\<lambda>j. touch (j\<lparr>j_status := Cancelled, j_delivery := Suppressed\<rparr>)) db"

definition set_enabled_transaction ::
  "int \<Rightarrow> uuid \<Rightarrow> bool \<Rightarrow> database \<Rightarrow> app_error + unit \<times> database" where
  "set_enabled_transaction now sid enabled db =
     (case schedule_of sid db of
        Inl e \<Rightarrow> Inl e
      | Inr current \<Rightarrow>
          if enabled \<and> \<not> s_enabled current \<and> s_every_seconds current = None \<and>
             s_last_job current \<noteq> None \<and> MAX_ENABLED \<le> active_schedules db
          then Inl (Conflict ''active schedule limit reached'')
          else
            let db1 = update_schedules (\<lambda>s. s_id s = sid \<and> s_enabled s \<noteq> enabled)
                  (\<lambda>s. s\<lparr>s_enabled := enabled, s_generation := s_generation s + 1,
                     s_last_error := None, s_updated_at := millis now\<rparr>) db
            in Inr ((), if enabled then db1
                 else cancel_queued_of (\<lambda>j. j\<lparr>j_updated_at := millis now\<rparr>) sid db1))"

definition set_schedule_enabled :: "int \<Rightarrow> uuid \<Rightarrow> bool \<Rightarrow> database \<Rightarrow> agent_schedule outcome" where
  "set_schedule_enabled now sid enabled db =
     (case set_enabled_transaction now sid enabled db of
        Inl e \<Rightarrow> (Inl e, db) | Inr (u, db1) \<Rightarrow> (schedule_of sid db1, db1))"

definition reschedule :: "int \<Rightarrow> uuid \<Rightarrow> int \<Rightarrow> int \<Rightarrow> database \<Rightarrow> agent_schedule outcome" where
  "reschedule now sid generation at db =
     (let p = (\<lambda>s. s_id s = sid \<and> s_generation s = generation) in
      if \<not> list_ex p (schedules db)
      then (Inl (Conflict ''schedule changed; read its current state before rescheduling''), db)
      else let db1 = update_schedules p
             (\<lambda>s. s\<lparr>s_next_run_at := millis at, s_generation := s_generation s + 1,
                s_last_error := None, s_updated_at := millis now\<rparr>) db
           in (schedule_of sid db1, db1))"

definition delete_transaction :: "uuid \<Rightarrow> database \<Rightarrow> app_error + unit \<times> database" where
  "delete_transaction sid db =
     (case schedule_of sid db of
        Inl e \<Rightarrow> Inl e
      | Inr s \<Rightarrow>
          let db1 = retire [schedule_key (s_source_key s)] db;
              db2 = cancel_queued_of (\<lambda>j. j) sid db1
          in Inr ((), db2\<lparr>schedules := filter (\<lambda>r. s_id r \<noteq> sid) (schedules db2)\<rparr>))"

definition delete_schedule :: "uuid \<Rightarrow> database \<Rightarrow> unit outcome" where
  "delete_schedule sid db = commit db (delete_transaction sid db)"

definition schedule_error :: "uuid \<Rightarrow> rtext \<Rightarrow> database \<Rightarrow> database" where
  "schedule_error sid err db =
     update_schedules (\<lambda>s. s_id s = sid) (\<lambda>s. s\<lparr>s_last_error := Some err\<rparr>) db"

section \<open>Turning a due schedule into work\<close>

definition schedule_active :: "uuid \<Rightarrow> database \<Rightarrow> bool" where
  "schedule_active sid db \<longleftrightarrow>
     list_ex (\<lambda>j. j_schedule j = Some sid \<and> active_status (j_status j)) (jobs db)"

text \<open>\<open>Uuid\<close>, \<open>i64\<close> and time as the text of the work's identity.\<close>

fun dec_digits :: "nat \<Rightarrow> rtext" where
  "dec_digits n = (if n < 10 then [48 + n] else dec_digits (n div 10) @ [48 + n mod 10])"

declare dec_digits.simps [simp del]

definition dec :: "int \<Rightarrow> rtext" where
  "dec n = (if n < 0 then 45 # dec_digits (nat (- n)) else dec_digits (nat n))"

definition occurrence_key :: "work_env \<Rightarrow> agent_schedule \<Rightarrow> rtext" where
  "occurrence_key env s =
     lit ''schedule:'' @ env_uuid env (s_id s) @ lit '':'' @ dec (s_generation s) @ lit '':'' @
     env_time env (s_next_run_at s)"

definition scheduled_work :: "work_env \<Rightarrow> execution_limits \<Rightarrow> int \<Rightarrow> agent_schedule \<Rightarrow> job_input" where
  "scheduled_work env limits now s =
     \<lparr>in_title = s_title s, in_task = s_task s,
      in_context = event_block (env_json env) (lit ''bobe.scheduled_work'')
          (JObj [(''intended_at'', JStr (env_time env (s_next_run_at s))),
                 (''woke_at'', JStr (env_time env (millis now))),
                 (''previous_job_id'', json_text_opt (map_option (env_uuid env) (s_last_job s)))]) @
        [newline_char] @ s_context s,
      in_budget = clamp_budget limits (s_budget s), in_channel = Some (s_channel s),
      in_goal = s_goal s, in_schedule = Some (s_id s)\<rparr>"

definition set_next_run :: "uuid \<Rightarrow> int \<Rightarrow> database \<Rightarrow> database" where
  "set_next_run sid next db =
     update_schedules (\<lambda>s. s_id s = sid) (\<lambda>s. s\<lparr>s_next_run_at := millis next\<rparr>) db"

definition enqueue_transaction ::
  "work_env \<Rightarrow> execution_limits \<Rightarrow> int \<Rightarrow> uuid \<times> uuid \<Rightarrow> uuid \<Rightarrow> workload_route \<Rightarrow> database \<Rightarrow>
     app_error + agent_job option \<times> database" where
  "enqueue_transaction env limits now fresh sid route db =
     (case find (\<lambda>s. s_id s = sid \<and> is_due now s) (schedules db) of
        None \<Rightarrow> Inr (None, db)
      | Some s \<Rightarrow>
          let due = s_next_run_at s * 1000000 in
          if schedule_active sid db then
            (case s_every_seconds s of
               None \<Rightarrow> Inr (None, db)
             | Some interval \<Rightarrow>
                 (case next_due (env_time_max env) due interval now of
                    Inl e \<Rightarrow> Inl e
                  | Inr next \<Rightarrow> Inr (None, set_next_run sid next db)))
          else
            (case enqueue_in limits now (fst fresh) (snd fresh) (occurrence_key env s)
                (scheduled_work env limits now s) route db of
               Inl e \<Rightarrow> Inl e
             | Inr (job, db1) \<Rightarrow>
                 (case (case s_every_seconds s of None \<Rightarrow> Inr None
                        | Some interval \<Rightarrow>
                            (case next_due (env_time_max env) due interval now of
                               Inl e \<Rightarrow> Inl e | Inr next \<Rightarrow> Inr (Some next))) of
                    Inl e \<Rightarrow> Inl e
                  | Inr next \<Rightarrow>
                      Inr (Some job, update_schedules (\<lambda>r. s_id r = sid)
                        (\<lambda>r. r\<lparr>s_enabled := (next \<noteq> None),
                           s_next_run_at := (case next of Some t \<Rightarrow> millis t | None \<Rightarrow> s_next_run_at s),
                           s_last_job := Some (j_id job), s_last_error := None,
                           s_updated_at := millis now\<rparr>) db1))))"

definition enqueue_schedule ::
  "work_env \<Rightarrow> execution_limits \<Rightarrow> int \<Rightarrow> uuid \<times> uuid \<Rightarrow> uuid \<Rightarrow> workload_route \<Rightarrow> database \<Rightarrow>
     agent_job option outcome" where
  "enqueue_schedule env limits now fresh sid route db =
     commit db (enqueue_transaction env limits now fresh sid route db)"

section \<open>Goal reviews\<close>

record goal_review_work =
  gr_priority :: nat
  gr_input :: job_input

definition PREVIOUS_OUTPUT_MAX_BYTES :: nat where "PREVIOUS_OUTPUT_MAX_BYTES = 8000"
definition PREVIOUS_ERROR_MAX_BYTES :: nat where "PREVIOUS_ERROR_MAX_BYTES = 1000"

definition job_status_name :: "job_status \<Rightarrow> string" where
  "job_status_name s = (case s of Queued \<Rightarrow> ''queued'' | Running \<Rightarrow> ''running''
     | CancelRequested \<Rightarrow> ''cancel_requested'' | Completed \<Rightarrow> ''completed'' | Failed \<Rightarrow> ''failed''
     | Cancelled \<Rightarrow> ''cancelled'' | Interrupted \<Rightarrow> ''interrupted'' | AwaitingInput \<Rightarrow> ''awaiting_input'')"

definition review_json :: "work_env \<Rightarrow> uuid \<Rightarrow> agent_job option \<Rightarrow> nat \<Rightarrow> json" where
  "review_json env goal previous output_bytes = JObj
     [(''goal_id'', JStr (env_uuid env goal)),
      (''previous_work'', case previous of None \<Rightarrow> JNull
         | Some job \<Rightarrow> JObj
             [(''status'', JStr (lit (job_status_name (j_status job)))),
              (''output'', json_text_opt (map_option (\<lambda>t. truncate_str t output_bytes) (j_output job))),
              (''error'', json_text_opt
                 (map_option (\<lambda>t. truncate_str t PREVIOUS_ERROR_MAX_BYTES) (j_error job)))])]"

fun review_context_within :: "work_env \<Rightarrow> uuid \<Rightarrow> agent_job option \<Rightarrow> nat \<Rightarrow> rtext" where
  "review_context_within env goal previous output_bytes =
     (let context = inert_json (env_json env) (review_json env goal previous output_bytes)
      in if str_len context \<le> MAX_CONTEXT_BYTES \<or> output_bytes = 0 then context
         else review_context_within env goal previous (output_bytes div 2))"

declare review_context_within.simps [simp del]

definition review_context :: "work_env \<Rightarrow> uuid \<Rightarrow> agent_job option \<Rightarrow> rtext" where
  "review_context env goal previous = review_context_within env goal previous PREVIOUS_OUTPUT_MAX_BYTES"

definition idle_goal_reviews :: "uuid \<Rightarrow> int \<Rightarrow> database \<Rightarrow> nat" where
  "idle_goal_reviews goal unchanged_since db =
     length (filter (\<lambda>j. j_goal j = Some goal \<and>
       map to_ascii_lowercase (take 5 (j_source_key j)) = lit ''goal:'' \<and>
       j_status j = Completed \<and> j_created_at j > millis unchanged_since) (jobs db))"

definition goal_review_due :: "int \<Rightarrow> nat \<Rightarrow> database \<Rightarrow> bool" where
  "goal_review_due now interval db =
     (case goal_cadence db of None \<Rightarrow> True
      | Some (due, previous) \<Rightarrow> due \<le> millis now \<or> interval \<noteq> previous)"

definition previous_job :: "uuid \<Rightarrow> database \<Rightarrow> agent_job option" where
  "previous_job goal db =
     (case sort_key (\<lambda>j. (- j_created_at j, - uint (j_id j)))
        (filter (\<lambda>j. j_goal j = Some goal) (jobs db)) of [] \<Rightarrow> None | j # _ \<Rightarrow> Some j)"

definition review_key :: "work_env \<Rightarrow> uuid \<Rightarrow> int \<Rightarrow> rtext" where
  "review_key env goal due = lit ''goal:'' @ env_uuid env goal @ lit '':'' @ env_time env due"

text \<open>\<open>pending\<close>: the goals to review, the longest unattended and then the most urgent first; a task
  without a goal is an error.\<close>

fun with_previous :: "goal_review_work list \<Rightarrow> database \<Rightarrow>
    app_error + (goal_review_work \<times> agent_job option) list" where
  "with_previous [] db = Inr []"
| "with_previous (task # work) db =
     (case in_goal (gr_input task) of
        None \<Rightarrow> Inl (Internal ''goal review has no goal identity'')
      | Some goal \<Rightarrow>
          (case with_previous work db of
             Inl e \<Rightarrow> Inl e | Inr rest \<Rightarrow> Inr ((task, previous_job goal db) # rest)))"

definition review_order :: "goal_review_work \<times> agent_job option \<Rightarrow> (nat \<times> int) \<times> nat" where
  "review_order = (\<lambda>(task, previous).
     (case previous of None \<Rightarrow> (0, 0) | Some job \<Rightarrow> (1, j_created_at job), gr_priority task))"

text \<open>The loop over the pending reviews: the number queued and whether every goal was served.\<close>

fun review_loop ::
  "work_env \<Rightarrow> execution_limits \<Rightarrow> int \<Rightarrow> (uuid \<Rightarrow> uuid \<times> uuid) \<Rightarrow> workload_route \<Rightarrow> int \<Rightarrow>
     (goal_review_work \<times> agent_job option) list \<Rightarrow> nat \<Rightarrow> nat \<Rightarrow> bool \<Rightarrow> database \<Rightarrow>
     app_error + (nat \<times> bool) \<times> database" where
  "review_loop env limits now fresh route due [] running queued complete db = Inr ((queued, complete), db)"
| "review_loop env limits now fresh route due ((task, previous) # rest) running queued complete db =
     (case in_goal (gr_input task) of
        None \<Rightarrow> Inl (Internal ''goal review lost its goal identity'')
      | Some goal \<Rightarrow>
          let source = review_key env goal due in
          if list_ex (\<lambda>i. o_goal i = Some goal \<and> open_input i) (inputs db)
          then review_loop env limits now fresh route due rest running queued complete db
          else if list_ex (\<lambda>j. j_source_key j = source) (jobs db) \<or> source \<in> set (tombstones db) \<or>
                  (case previous of None \<Rightarrow> False | Some job \<Rightarrow> active_status (j_status job))
          then review_loop env limits now fresh route due rest running queued complete db
          else if MAX_OUTSTANDING \<le> running then Inr ((queued, False), db)
          else
            (case previous of
               Some job \<Rightarrow>
                 if j_status job \<in> {Failed, Interrupted} then
                   if j_delivery job = Delivering
                   then review_loop env limits now fresh route due rest running queued False db
                   else (case resume_in now (snd (fresh goal)) (j_id job) (Some source) db of
                       Inl e \<Rightarrow> Inl e
                     | Inr (_, db1) \<Rightarrow>
                         review_loop env limits now fresh route due rest (running + 1) (queued + 1) complete db1)
                 else (case enqueue_in limits now (fst (fresh goal)) (snd (fresh goal)) source
                     ((gr_input task)\<lparr>in_context := review_context env goal (Some job)\<rparr>) route db of
                       Inl e \<Rightarrow> Inl e
                     | Inr (_, db1) \<Rightarrow>
                         review_loop env limits now fresh route due rest (running + 1) (queued + 1) complete db1)
             | None \<Rightarrow>
                 (case enqueue_in limits now (fst (fresh goal)) (snd (fresh goal)) source
                     ((gr_input task)\<lparr>in_context := review_context env goal None\<rparr>) route db of
                    Inl e \<Rightarrow> Inl e
                  | Inr (_, db1) \<Rightarrow>
                      review_loop env limits now fresh route due rest (running + 1) (queued + 1) complete db1)))"

definition review_transaction ::
  "work_env \<Rightarrow> execution_limits \<Rightarrow> int \<Rightarrow> (uuid \<Rightarrow> uuid \<times> uuid) \<Rightarrow> goal_review_work list \<Rightarrow>
     workload_route \<Rightarrow> nat \<Rightarrow> database \<Rightarrow> app_error + nat \<times> database" where
  "review_transaction env limits now fresh work route interval db0 =
     (let (due0, previous) = (case goal_cadence db0 of Some c \<Rightarrow> c | None \<Rightarrow> (millis now, interval));
          db1 = db0\<lparr>goal_cadence := Some (due0, previous)\<rparr>
      in case (if interval \<noteq> previous then
                 (case next_due (env_time_max env) now interval now of
                    Inl e \<Rightarrow> Inl e | Inr next \<Rightarrow> Inr (min due0 (millis next)))
               else Inr due0) of
           Inl e \<Rightarrow> Inl e
         | Inr due \<Rightarrow>
             let db2 = db1\<lparr>goal_cadence := Some (due, interval)\<rparr> in
             if due > millis now then Inr (0, db2)
             else
               (case with_previous work db2 of
                  Inl e \<Rightarrow> Inl e
                | Inr pending \<Rightarrow>
                    (case review_loop env limits now fresh route due (sort_key review_order pending)
                        (outstanding db2) 0 True db2 of
                       Inl e \<Rightarrow> Inl e
                     | Inr ((queued, complete), db3) \<Rightarrow>
                         if complete then
                           (case next_due (env_time_max env) (due * 1000000) interval now of
                              Inl e \<Rightarrow> Inl e
                            | Inr next \<Rightarrow> Inr (queued, db3\<lparr>goal_cadence := Some (millis next, interval)\<rparr>))
                         else Inr (queued, db3))))"

definition review_goals ::
  "work_env \<Rightarrow> execution_limits \<Rightarrow> int \<Rightarrow> (uuid \<Rightarrow> uuid \<times> uuid) \<Rightarrow> goal_review_work list \<Rightarrow>
     workload_route \<Rightarrow> nat \<Rightarrow> database \<Rightarrow> nat outcome" where
  "review_goals env limits now fresh work route interval db =
     (if interval = 0 then (Inl (Validation ''goal review interval must be positive''), db)
      else commit db (review_transaction env limits now fresh work route interval db))"

end
