(* ===== verification/Work_Laws.thy ===== *)
theory Work_Laws
  imports Conversations Agent_Schedules
begin

text \<open>
  What every transaction of the job, owner-input and schedule repositories keeps: the invariant
  \<open>work_inv\<close> (the bound on outstanding work, the identity of work, the question behind every job
  that waits for one) and the life cycle of each job. First the single SQL statements, then the
  loops, then the transactions, one lemma \<open>keeps_...\<close> each. Theory Background_Work makes them the
  steps of one system.
\<close>

section \<open>Invariant and life cycle\<close>

definition work_inv :: "database \<Rightarrow> bool" where
  "work_inv db \<longleftrightarrow> distinct (map j_id (jobs db)) \<and> distinct (map j_source_key (jobs db)) \<and>
     distinct (map o_id (inputs db)) \<and> outstanding db \<le> MAX_OUTSTANDING \<and>
     (\<forall>j \<in> set (jobs db). j_status j = AwaitingInput \<longrightarrow> has_open_input (j_id j) db)"

text \<open>A key that has named work: it names a job or is retired.\<close>

definition known_key :: "rtext \<Rightarrow> database \<Rightarrow> bool" where
  "known_key k db \<longleftrightarrow> k \<in> j_source_key ` set (jobs db) \<or> k \<in> set (tombstones db)"

text \<open>What no operation changes of a job, and what is final.\<close>

definition lifecycle :: "agent_job \<Rightarrow> agent_job \<Rightarrow> bool" where
  "lifecycle j j' \<longleftrightarrow> j_id j' = j_id j \<and> j_task j' = j_task j \<and> j_title j' = j_title j \<and>
     j_context j' = j_context j \<and> j_goal j' = j_goal j \<and> j_schedule j' = j_schedule j \<and>
     j_budget j' = j_budget j \<and> j_created_at j' = j_created_at j \<and> j_attempt j \<le> j_attempt j' \<and>
     (j_status j \<in> {Completed, Cancelled} \<longrightarrow> j_status j' = j_status j)"

definition same_attempt :: "agent_job \<Rightarrow> agent_job \<Rightarrow> bool" where
  "same_attempt j j' \<longleftrightarrow> lifecycle j j' \<and> j_delivery_id j' = j_delivery_id j \<and> j_attempt j' = j_attempt j"

definition undelivering :: "agent_job \<Rightarrow> agent_job \<Rightarrow> bool" where
  "undelivering j j' \<longleftrightarrow> lifecycle j j' \<and> (j_delivery j = Delivering \<longrightarrow> j' = j)"

lemma lifecycle_refl [simp]: "lifecycle j j"
  by (simp add: lifecycle_def)

lemma lifecycle_trans: "lifecycle a b \<Longrightarrow> lifecycle b c \<Longrightarrow> lifecycle a c"
  by (auto simp: lifecycle_def)

lemma same_attempt_refl: "same_attempt j j"
  by (simp add: same_attempt_def)

lemma same_attempt_trans: "same_attempt a b \<Longrightarrow> same_attempt b c \<Longrightarrow> same_attempt a c"
  by (auto simp: same_attempt_def intro: lifecycle_trans)

lemma undelivering_refl: "undelivering j j"
  by (simp add: undelivering_def)

lemma undelivering_trans: "undelivering a b \<Longrightarrow> undelivering b c \<Longrightarrow> undelivering a c"
  by (auto simp: undelivering_def intro: lifecycle_trans)

definition keeps :: "(agent_job \<Rightarrow> agent_job \<Rightarrow> bool) \<Rightarrow> database \<Rightarrow> database \<Rightarrow> bool" where
  "keeps R db db' \<longleftrightarrow> work_inv db' \<and> (\<forall>k. known_key k db \<longrightarrow> known_key k db') \<and>
     (\<forall>j \<in> set (jobs db). \<exists>j' \<in> set (jobs db'). R j j')"

lemma keeps_refl: "work_inv db \<Longrightarrow> (\<And>j. R j j) \<Longrightarrow> keeps R db db"
  by (auto simp: keeps_def)

lemma keeps_trans:
  assumes "keeps R a b" "keeps R b c" and "\<And>x y z. R x y \<Longrightarrow> R y z \<Longrightarrow> R x z"
  shows "keeps R a c"
  using assms unfolding keeps_def by meson

lemma keepsD: "keeps R db db' \<Longrightarrow> work_inv db'"
  by (simp add: keeps_def)

lemma work_invD:
  assumes "work_inv db"
  shows "distinct (map j_id (jobs db))" "distinct (map j_source_key (jobs db))"
    "distinct (map o_id (inputs db))" "outstanding db \<le> MAX_OUTSTANDING"
    "j \<in> set (jobs db) \<Longrightarrow> j_status j = AwaitingInput \<Longrightarrow> has_open_input (j_id j) db"
  using assms by (auto simp: work_inv_def)

section \<open>The effect of single statements\<close>

text \<open>Other tables: schedules, presentations, the cadence, conversations; more tombstones.\<close>

lemma keeps_other:
  assumes "work_inv db" "jobs db' = jobs db" "inputs db' = inputs db"
    "set (tombstones db) \<subseteq> set (tombstones db')" "\<And>j. R j j"
  shows "keeps R db db'"
  using assms by (auto simp: keeps_def work_inv_def outstanding_def has_open_input_def known_key_def)

lemma has_open_input_cong: "inputs db' = inputs db \<Longrightarrow> has_open_input k db' = has_open_input k db"
  by (simp add: has_open_input_def)

definition job_change :: "(agent_job \<Rightarrow> agent_job \<Rightarrow> bool) \<Rightarrow> database \<Rightarrow> agent_job \<Rightarrow> agent_job \<Rightarrow> bool" where
  "job_change R db j j' \<longleftrightarrow> R j j' \<and> j_id j' = j_id j \<and> j_source_key j' = j_source_key j \<and>
     (active_status (j_status j') \<longrightarrow> active_status (j_status j)) \<and>
     (j_status j' = AwaitingInput \<longrightarrow> j_status j = AwaitingInput \<or> has_open_input (j_id j) db)"

lemma sql_update_count_on:
  "(\<And>r. r \<in> set rows \<Longrightarrow> p r \<Longrightarrow> q (f r) \<Longrightarrow> q r) \<Longrightarrow>
   length (filter q (sql_update p f rows)) \<le> length (filter q rows)"
  by (induction rows) (auto intro: le_SucI)

lemma sql_update_key_on:
  "(\<And>r. r \<in> set rows \<Longrightarrow> p r \<Longrightarrow> key (f r) = key r) \<Longrightarrow> map key (sql_update p f rows) = map key rows"
  by (induction rows) auto

lemma keeps_update_jobs:
  assumes inv: "work_inv db" and refl: "\<And>j. R j j"
    and ch: "\<And>j. j \<in> set (jobs db) \<Longrightarrow> p j \<Longrightarrow> job_change R db j (f j)"
  shows "keeps R db (update_jobs p f db)"
proof -
  let ?db = "update_jobs p f db"
  have ids: "map j_id (jobs ?db) = map j_id (jobs db)"
    and keys: "map j_source_key (jobs ?db) = map j_source_key (jobs db)"
    using ch by (auto simp: job_change_def intro!: sql_update_key_on)
  have "outstanding ?db \<le> outstanding db"
    using ch by (auto simp: outstanding_def job_change_def intro!: sql_update_count_on)
  moreover have "has_open_input (j_id j') ?db" if "j' \<in> set (jobs ?db)" "j_status j' = AwaitingInput" for j'
  proof -
    from that(1) obtain j where j: "j \<in> set (jobs db)" "j' = (if p j then f j else j)"
      by (auto simp: set_sql_update)
    then have "j_id j' = j_id j" "j_status j = AwaitingInput \<or> has_open_input (j_id j) db"
      using ch [of j] that(2) by (auto simp: job_change_def split: if_splits)
    with work_invD(5) [OF inv j(1)] show ?thesis by (auto simp: has_open_input_def)
  qed
  moreover have "j_source_key ` set (jobs ?db) = j_source_key ` set (jobs db)"
    using keys by (metis list.set_map)
  moreover have "\<exists>j' \<in> set (jobs ?db). R j j'" if "j \<in> set (jobs db)" for j
    using that refl ch [of j] by (cases "p j") (auto simp: set_sql_update job_change_def)
  ultimately show ?thesis
    using work_invD [OF inv] ids keys by (auto simp: keeps_def work_inv_def known_key_def)
qed

definition input_change :: "database \<Rightarrow> owner_input \<Rightarrow> owner_input \<Rightarrow> bool" where
  "input_change db i i' \<longleftrightarrow> o_id i' = o_id i \<and>
     (open_input i \<longrightarrow> open_input i' \<and> o_job i' = o_job i \<or>
        \<not> (\<exists>j \<in> set (jobs db). Some (j_id j) = o_job i \<and> j_status j = AwaitingInput))"

lemma keeps_update_inputs:
  assumes inv: "work_inv db" and refl: "\<And>j. R j j"
    and ch: "\<And>i. i \<in> set (inputs db) \<Longrightarrow> p i \<Longrightarrow> input_change db i (f i)"
  shows "keeps R db (update_inputs p f db)"
proof -
  let ?db = "update_inputs p f db"
  have ids: "map o_id (inputs ?db) = map o_id (inputs db)"
    using ch by (auto simp: input_change_def intro!: sql_update_key_on)
  moreover have "has_open_input (j_id j) ?db" if j: "j \<in> set (jobs db)" "j_status j = AwaitingInput" for j
  proof -
    from work_invD(5) [OF inv j] obtain i where i: "i \<in> set (inputs db)" "o_job i = Some (j_id j)" "open_input i"
      by (auto simp: has_open_input_def list_ex_iff)
    let ?i = "if p i then f i else i"
    have "?i \<in> set (inputs ?db)" using i(1) by (auto simp: set_sql_update)
    moreover have "o_job ?i = Some (j_id j) \<and> open_input ?i"
      using i ch [OF i(1)] j by (auto simp: input_change_def)
    ultimately show ?thesis unfolding has_open_input_def list_ex_iff by blast
  qed
  ultimately show ?thesis
    using work_invD [OF inv] refl by (auto simp: keeps_def work_inv_def known_key_def outstanding_def)
qed

lemma update_commute:
  "update_jobs p f (update_inputs q g db) = update_inputs q g (update_jobs p f db)"
  by simp

lemma known_key_append: "known_key k db \<Longrightarrow> known_key k (db\<lparr>jobs := jobs db @ js\<rparr>)"
  by (auto simp: known_key_def)

lemma enqueue_in_cases:
  assumes "enqueue_in limits now jid delivery key input route db = Inr (j, db')"
  shows "(db' = db \<and> j \<in> set (jobs db) \<and> j_source_key j = key) \<or>
     (\<exists>timeout turns. j = new_job now jid delivery key input timeout turns route \<and>
        db' = db\<lparr>jobs := jobs db @ [j]\<rparr> \<and> outstanding db < MAX_OUTSTANDING \<and>
        jid \<notin> j_id ` set (jobs db) \<and> key \<notin> j_source_key ` set (jobs db) \<and>
        key \<notin> set (tombstones db))"
  using assms
  by (auto simp: enqueue_in_def insert_job_def new_job_def Let_def list_ex_iff find_Some_iff
      split: if_splits option.splits sum.splits prod.splits)

lemma keeps_enqueue_in:
  assumes inv: "work_inv db" and refl: "\<And>j. R j j"
    and eq: "enqueue_in limits now jid delivery key input route db = Inr (j, db')"
  shows "keeps R db db'"
  using enqueue_in_cases [OF eq]
proof (elim disjE exE conjE)
  assume "db' = db" then show ?thesis using keeps_refl [of db R] inv refl by simp
next
  fix timeout turns
  assume a: "j = new_job now jid delivery key input timeout turns route" "db' = db\<lparr>jobs := jobs db @ [j]\<rparr>"
    "outstanding db < MAX_OUTSTANDING" "jid \<notin> j_id ` set (jobs db)" "key \<notin> j_source_key ` set (jobs db)"
  then have "work_inv db'"
    using inv by (auto simp: work_inv_def outstanding_def has_open_input_def new_job_def active_status_def)
  with a refl show ?thesis by (auto simp: keeps_def intro: known_key_append)
qed

text \<open>Resuming changes one row.\<close>

lemma sql_update_none: "(\<And>r. r \<in> set rows \<Longrightarrow> \<not> p r) \<Longrightarrow> sql_update p f rows = rows"
  by (induction rows) auto

lemma sql_update_one_count:
  assumes "distinct (map key rows)" "\<And>r. p r \<Longrightarrow> key r = k"
  shows "length (filter q (sql_update p f rows)) \<le> Suc (length (filter q rows))"
  using assms(1)
proof (induction rows)
  case (Cons r rows)
  show ?case
  proof (cases "p r")
    case True
    then have "key r = k" using assms(2) by simp
    then have "sql_update p f rows = rows"
      using Cons.prems assms(2) by (intro sql_update_none) (auto simp: image_iff)
    with True show ?thesis by simp
  qed (use Cons in auto)
qed simp

lemma sql_update_one_distinct:
  assumes "distinct (map key rows)" "distinct (map g rows)" "\<And>r. p r \<Longrightarrow> key r = k"
    and "\<And>r r'. r \<in> set rows \<Longrightarrow> p r \<Longrightarrow> r' \<in> set rows \<Longrightarrow> key r' \<noteq> k \<Longrightarrow> g (f r) \<noteq> g r'"
  shows "distinct (map g (sql_update p f rows))"
  using assms(1,2,4)
proof (induction rows)
  case (Cons r rows)
  have IH: "distinct (map g (sql_update p f rows))"
    using Cons.IH Cons.prems by simp
  show ?case
  proof (cases "p r")
    case True
    then have k: "key r = k" using assms(3) by simp
    then have "sql_update p f rows = rows" and "\<forall>r' \<in> set rows. key r' \<noteq> k"
      using Cons.prems(1) assms(3) by (auto intro!: sql_update_none simp: image_iff)
    with True Cons.prems(2,3) show ?thesis by fastforce
  next
    case False
    have "g r \<notin> g ` set (sql_update p f rows)"
    proof
      assume "g r \<in> g ` set (sql_update p f rows)"
      then obtain r' where r': "r' \<in> set rows" "g r = g (if p r' then f r' else r')"
        by (auto simp: set_sql_update)
      show False
      proof (cases "p r'")
        case True
        then have "key r \<noteq> k" using assms(3) Cons.prems(1) r'(1) by (auto simp: image_iff)
        with Cons.prems(3) [of r' r] r' True show False by simp
      next
        case False
        with r' Cons.prems(2) show False by (auto simp: image_iff)
      qed
    qed
    with False IH show ?thesis by simp
  qed
qed simp

lemma keeps_resume_in:
  assumes inv: "work_inv db" and eq: "resume_in now delivery jid source db = Inr (j, db')"
  shows "keeps undelivering db db'"
proof -
  let ?retired = "case source of None \<Rightarrow> db | Some src \<Rightarrow> retire (map j_source_key
      (filter (\<lambda>j. j_id j = jid \<and> j_source_key j \<noteq> src) (jobs db))) db"
  let ?p = "\<lambda>j. j_id j = jid \<and> j_status j \<in> {Interrupted, Failed} \<and> j_delivery j \<noteq> Delivering \<and>
      \<not> has_open_input jid ?retired"
  let ?f = "\<lambda>j. j\<lparr>j_status := Queued, j_attempt := j_attempt j + 1, j_error := None,
      j_output := None, j_delivery := DeliveryPending, j_delivery_after := None,
      j_delivery_id := delivery,
      j_source_key := (case source of Some src \<Rightarrow> src | None \<Rightarrow> j_source_key j),
      j_channel := (if j_goal j \<noteq> None then None else j_channel j), j_updated_at := millis now\<rparr>"
  have jobs_eq: "jobs ?retired = jobs db" and inputs_eq: "inputs ?retired = inputs db"
    by (simp_all add: retire_def split: option.splits)
  from eq obtain j0 where free: "outstanding db < MAX_OUTSTANDING" and j0: "find ?p (jobs db) = Some j0"
    and uniq: "\<not> list_ex (\<lambda>r. j_id r \<noteq> jid \<and> (j_delivery_id r = delivery \<or>
        j_source_key r = j_source_key (?f j0))) (jobs db)"
    and db': "db' = update_jobs ?p ?f ?retired"
    unfolding resume_in_def Let_def jobs_eq by (auto split: if_splits option.splits)
  from j0 have j0m: "j0 \<in> set (jobs db)" "?p j0" by (auto simp: find_Some_iff)
  have only: "r = j0" if "r \<in> set (jobs db)" "j_id r = jid" for r
    using that j0m work_invD(1) [OF inv] by (metis (mono_tags, lifting) distinct_map inj_onD)
  have js: "jobs db' = sql_update ?p ?f (jobs db)" by (simp add: db' jobs_eq)
  have ids: "map j_id (jobs db') = map j_id (jobs db)"
    unfolding js by (rule sql_update_key) simp
  have cnt: "outstanding db' \<le> Suc (outstanding db)"
    unfolding outstanding_def js
    by (rule sql_update_one_count [where key = j_id and k = jid]) (use work_invD(1) [OF inv] in auto)
  have keys: "distinct (map j_source_key (jobs db'))"
    unfolding js
  proof (rule sql_update_one_distinct [where key = j_id and k = jid])
    fix r r' assume "r \<in> set (jobs db)" "?p r" "r' \<in> set (jobs db)" "j_id r' \<noteq> jid"
    moreover from this only have "r = j0" by simp
    ultimately show "j_source_key (?f r) \<noteq> j_source_key r'"
      using uniq by (auto simp: list_ex_iff)
  qed (use work_invD(1,2) [OF inv] in auto)
  have inp: "inputs db' = inputs db" by (simp add: db' inputs_eq)
  have "has_open_input (j_id r) db'" if "r \<in> set (jobs db')" "j_status r = AwaitingInput" for r
    using that work_invD(5) [OF inv, of r] unfolding has_open_input_cong [OF inp] js
    by (auto simp: set_sql_update split: if_splits)
  then have "work_inv db'"
    using work_invD(1,3) [OF inv] keys ids cnt free inp by (simp add: work_inv_def)
  moreover have "known_key k db'" if "known_key k db" for k
  proof -
    have tomb: "set (tombstones db) \<subseteq> set (tombstones db')"
      by (auto simp: db' retire_def split: option.splits)
    show ?thesis
    proof (cases "k \<in> set (tombstones db)")
      case True
      with tomb show ?thesis by (auto simp: known_key_def)
    next
      case False
      with that obtain r where r: "r \<in> set (jobs db)" "k = j_source_key r" by (auto simp: known_key_def)
      let ?r = "if ?p r then ?f r else r"
      have "?r \<in> set (jobs db')" unfolding js set_sql_update using r(1) by blast
      moreover have "j_source_key ?r = k \<or> k \<in> set (tombstones db')"
        using r by (cases source) (auto simp: db' retire_def)
      ultimately show ?thesis unfolding known_key_def by blast
    qed
  qed
  moreover have "\<exists>r' \<in> set (jobs db'). undelivering r r'" if "r \<in> set (jobs db)" for r
  proof -
    have "undelivering r (if ?p r then ?f r else r)"
      by (auto simp: undelivering_def lifecycle_def)
    then show ?thesis using that unfolding js set_sql_update by blast
  qed
  ultimately show ?thesis by (simp add: keeps_def)
qed

section \<open>Loops\<close>

definition snapshot_of :: "owner_input list \<Rightarrow> database \<Rightarrow> bool" where
  "snapshot_of is db \<longleftrightarrow> (\<forall>i \<in> set is. \<forall>r \<in> set (inputs db). o_id r = o_id i \<longrightarrow> o_job r = o_job i)"

lemma keeps_mark_resumed:
  assumes inv: "work_inv db" and snap: "snapshot_of (i # is) db"
    and none: "\<And>j. j \<in> set (jobs db) \<Longrightarrow> Some (j_id j) = o_job i \<Longrightarrow> j_status j \<noteq> AwaitingInput"
  shows "keeps undelivering db (mark_resumed (o_id i) job db) \<and> snapshot_of is (mark_resumed (o_id i) job db)"
proof
  show "keeps undelivering db (mark_resumed (o_id i) job db)"
    unfolding mark_resumed_def
    by (rule keeps_update_inputs [OF inv undelivering_refl])
      (use snap none in \<open>auto simp: input_change_def snapshot_of_def\<close>)
  show "snapshot_of is (mark_resumed (o_id i) job db)"
    using snap by (auto simp: snapshot_of_def mark_resumed_def set_sql_update split: if_splits)
qed

lemma snapshot_cong: "inputs db' = inputs db \<Longrightarrow> snapshot_of is db' = snapshot_of is db"
  by (simp add: snapshot_of_def)

lemma enqueue_in_inputs: "enqueue_in limits now jid delivery key input route db = Inr (j, db') \<Longrightarrow> inputs db' = inputs db"
  by (drule enqueue_in_cases) auto

lemma keeps_release_loop:
  "work_inv db \<Longrightarrow> snapshot_of is db \<Longrightarrow> release_loop env limits now fresh route is db = Inr db' \<Longrightarrow>
   keeps undelivering db db'"
proof (induction env limits now fresh route "is" db rule: release_loop.induct)
  case (1 env limits now fresh route db)
  then show ?case by (simp add: keeps_refl undelivering_refl)
next
  case (2 env limits now fresh route i "is" db)
  note inv = 2(4) and snap = 2(5) and run = 2(6)
  show ?case
  proof (cases "o_job i")
    case None
    show ?thesis
    proof (cases "MAX_OUTSTANDING \<le> outstanding db")
      case True
      with run None show ?thesis using keeps_refl [of db undelivering] inv undelivering_refl by simp
    next
      case False
      with run None obtain j db1
        where e: "enqueue_in limits now (fst (fresh (o_id i))) (snd (fresh (o_id i)))
            (lit ''owner-input:'' @ env_uuid env (o_id i)) (continuation env limits i) route db = Inr (j, db1)"
          and r: "release_loop env limits now fresh route is (mark_resumed (o_id i) (j_id j) db1) = Inr db'"
        by (auto split: sum.splits prod.splits)
      have k1: "keeps undelivering db db1" by (rule keeps_enqueue_in [OF inv undelivering_refl e])
      have snap1: "snapshot_of (i # is) db1" using snap snapshot_cong [OF enqueue_in_inputs [OF e]] by simp
      have k2: "keeps undelivering db1 (mark_resumed (o_id i) (j_id j) db1)"
        and snap2: "snapshot_of is (mark_resumed (o_id i) (j_id j) db1)"
        using keeps_mark_resumed [OF keepsD [OF k1] snap1] None by auto
      have "keeps undelivering (mark_resumed (o_id i) (j_id j) db1) db'"
        by (rule "2.IH"(1) [OF None False e refl keepsD [OF k2] snap2 r])
      with k1 k2 show ?thesis by (blast intro: keeps_trans undelivering_trans)
    qed
  next
    case (Some job)
    show ?thesis
    proof (cases "list_ex (released_job i) (jobs db)")
      case False
      with run Some show ?thesis using "2.IH"(2) [OF Some] False inv snap by (auto simp: snapshot_of_def)
    next
      case True
      let ?f = "\<lambda>j. j\<lparr>j_status := Queued, j_attempt := j_attempt j + 1,
          j_resume_context := env_json env (answer_json env i), j_output := None, j_error := None,
          j_delivery_id := snd (fresh (o_id i)), j_delivery := DeliveryPending,
          j_delivery_after := None, j_updated_at := millis now\<rparr>"
      let ?db1 = "update_jobs (released_job i) ?f db"
      from run Some True have nu: "\<not> list_ex (\<lambda>r. j_id r \<noteq> job \<and> j_delivery_id r = snd (fresh (o_id i))) (jobs db)"
        and r: "release_loop env limits now fresh route is (mark_resumed (o_id i) job ?db1) = Inr db'"
        by (auto simp: Let_def split: if_splits)
      have k1: "keeps undelivering db ?db1"
        by (rule keeps_update_jobs [OF inv undelivering_refl])
          (auto simp: job_change_def undelivering_def lifecycle_def released_job_def active_status_def)
      have snap1: "snapshot_of (i # is) ?db1" using snap by (simp add: snapshot_of_def)
      from True Some obtain j0 where j0: "j0 \<in> set (jobs db)" "released_job i j0" "j_id j0 = job"
        by (auto simp: list_ex_iff released_job_def)
      have "j_status j \<noteq> AwaitingInput" if "j \<in> set (jobs ?db1)" "Some (j_id j) = o_job i" for j
      proof -
        from that(1) obtain j1 where j1: "j1 \<in> set (jobs db)" "j = (if released_job i j1 then ?f j1 else j1)"
          by (auto simp: set_sql_update)
        have "j_id j1 = job" using j1(2) that(2) Some by (auto split: if_splits)
        then have "j1 = j0"
          using j0 j1(1) work_invD(1) [OF inv] by (metis distinct_map inj_onD)
        with j0(2) j1(2) show ?thesis by simp
      qed
      then have k2: "keeps undelivering ?db1 (mark_resumed (o_id i) job ?db1)"
        and snap2: "snapshot_of is (mark_resumed (o_id i) job ?db1)"
        using keeps_mark_resumed [OF keepsD [OF k1] snap1] by blast+
      have "keeps undelivering (mark_resumed (o_id i) job ?db1) db'"
        by (rule "2.IH"(3) [OF Some]) (use True nu keepsD [OF k2] snap2 r in auto)
      with k1 k2 show ?thesis by (blast intro: keeps_trans undelivering_trans)
    qed
  qed
qed

lemma review_loop_step:
  assumes "review_loop env limits now fresh route due (x # rest) running queued all db = Inr (r, db')"
  obtains db1 running' queued' all' where
    "db1 = db \<or>
     (\<exists>a b c d j. in_goal d = in_goal (gr_input (fst x)) \<and> enqueue_in limits now a b c d route db = Inr (j, db1)) \<or>
     (\<exists>a c job j. snd x = Some job \<and> resume_in now a (j_id job) c db = Inr (j, db1))"
    "db' = db1 \<or> review_loop env limits now fresh route due rest running' queued' all' db1 = Inr (r, db')"
proof -
  note fin = that
  obtain task previous where x: "x = (task, previous)" by (cases x)
  from assms obtain goal where g: "in_goal (gr_input task) = Some goal"
    unfolding x by (cases "in_goal (gr_input task)") auto
  show ?thesis
  proof (cases "list_ex (\<lambda>i. o_goal i = Some goal \<and> open_input i) (inputs db) \<or>
      list_ex (\<lambda>j. j_source_key j = review_key env goal due) (jobs db) \<or>
      review_key env goal due \<in> set (tombstones db) \<or>
      (case previous of None \<Rightarrow> False | Some job \<Rightarrow> active_status (j_status job))")
    case True
    then have "review_loop env limits now fresh route due rest running queued all db = Inr (r, db')"
      using assms unfolding x review_loop.simps g option.case Let_def by argo
    then show ?thesis by (intro that [of db running queued all]) simp_all
  next
    case False
    note no = this [unfolded de_Morgan_disj]
    show ?thesis
    proof (cases "MAX_OUTSTANDING \<le> running")
      case True
      with assms no have "db' = db" unfolding x review_loop.simps g option.case Let_def by (simp split: if_splits)
      then show ?thesis by (intro that [of db]) simp_all
    next
      case run: False
      note body = assms [unfolded x review_loop.simps g option.case Let_def if_not_P [OF run]]
      have enq: thesis if "(case enqueue_in limits now (fst (fresh goal)) (snd (fresh goal)) (review_key env goal due) inp route db of
          Inl e \<Rightarrow> Inl e | Inr (y, db1) \<Rightarrow> review_loop env limits now fresh route due rest (running + 1) (queued + 1) all db1)
          = Inr (r, db')" "in_goal inp = Some goal" for inp
      proof -
        from that(1) obtain j db1 where "enqueue_in limits now (fst (fresh goal)) (snd (fresh goal)) (review_key env goal due) inp route db = Inr (j, db1)"
            "review_loop env limits now fresh route due rest (running + 1) (queued + 1) all db1 = Inr (r, db')"
          by (auto split: sum.splits)
        then show ?thesis using that(2) g by (intro fin [of db1]) (auto simp: x)
      qed
      show ?thesis
      proof (cases previous)
        case None
        with body no enq g show ?thesis by simp
      next
        case (Some job)
        show ?thesis
        proof (cases "j_status job \<in> {Failed, Interrupted}")
          case False
          with body no enq g Some show ?thesis by simp
        next
          case failed: True
          show ?thesis
          proof (cases "j_delivery job = Delivering")
            case True
            with body no failed Some
            have "review_loop env limits now fresh route due rest running queued False db = Inr (r, db')" by simp
            then show ?thesis by (intro that [of db running queued False]) simp_all
          next
            case False
            with body no failed Some obtain j db1
              where "resume_in now (snd (fresh goal)) (j_id job) (Some (review_key env goal due)) db = Inr (j, db1)"
                "review_loop env limits now fresh route due rest (running + 1) (queued + 1) all db1 = Inr (r, db')"
              by (auto split: sum.splits)
            then show ?thesis using Some by (intro that [of db1]) (auto simp: x)
          qed
        qed
      qed
    qed
  qed
qed

lemma keeps_review_loop:
  "work_inv db \<Longrightarrow> review_loop env limits now fresh route due work running queued all db = Inr (r, db') \<Longrightarrow>
   keeps undelivering db db'"
proof (induction work arbitrary: db running queued all)
  case Nil
  then show ?case using keeps_refl [of db undelivering] undelivering_refl by simp
next
  case (Cons x rest)
  from Cons.prems(2) obtain db1 running' queued' all' where
    "db1 = db \<or>
     (\<exists>a b c d j. in_goal d = in_goal (gr_input (fst x)) \<and> enqueue_in limits now a b c d route db = Inr (j, db1)) \<or>
     (\<exists>a c job j. snd x = Some job \<and> resume_in now a (j_id job) c db = Inr (j, db1))" and
    rest: "db' = db1 \<or> review_loop env limits now fresh route due rest running' queued' all' db1 = Inr (r, db')"
    by (rule review_loop_step)
  then have one: "db1 = db \<or> (\<exists>a b c d j. enqueue_in limits now a b c d route db = Inr (j, db1)) \<or>
       (\<exists>a b c j. resume_in now a b c db = Inr (j, db1))" by blast
  from one have k: "keeps undelivering db db1"
    using keeps_refl [of db undelivering] keeps_enqueue_in [OF Cons.prems(1), of undelivering]
      keeps_resume_in [OF Cons.prems(1)] Cons.prems(1) undelivering_refl by blast
  from rest show ?case
    using k Cons.IH [OF keepsD [OF k]] by (blast intro: keeps_trans undelivering_trans)
qed

section \<open>The operations\<close>

lemmas job_change_defs = job_change_def same_attempt_def lifecycle_def active_status_def

lemma keeps_commit:
  assumes "work_inv db" "\<And>j. R j j" "\<And>a db'. r = Inr (a, db') \<Longrightarrow> keeps R db db'"
  shows "keeps R db (snd (commit db r))"
  using assms keeps_refl [of db R] by (cases r) auto

lemma keeps_same [simp]: "work_inv db \<Longrightarrow> keeps same_attempt db db"
  by (rule keeps_refl) (auto simp: same_attempt_refl)

lemma same_attempt_steps:
  "keeps same_attempt a b \<Longrightarrow> keeps same_attempt b c \<Longrightarrow> keeps same_attempt a c"
  by (blast intro: keeps_trans same_attempt_trans)

lemmas same_update_jobs = keeps_update_jobs [where R = same_attempt, OF _ same_attempt_refl]
lemmas same_update_inputs = keeps_update_inputs [where R = same_attempt, OF _ same_attempt_refl]
lemmas same_other = keeps_other [where R = same_attempt, OF _ _ _ _ same_attempt_refl]

lemma keeps_submit [inv_intros]:
  "work_inv db \<Longrightarrow> keeps same_attempt db (snd (submit limits now jid delivery key input route db))"
  unfolding submit_def
  by (rule keeps_commit) (auto intro: same_attempt_refl keeps_enqueue_in)

lemma keeps_claim [inv_intros]: "work_inv db \<Longrightarrow> keeps same_attempt db (snd (claim limits now jid db))"
  unfolding claim_def snd_conv
  by (rule same_update_jobs) (auto simp: job_change_defs)

lemma keeps_settle_inputs [inv_intros]:
  "work_inv db \<Longrightarrow> keeps same_attempt db (update_inputs p (\<lambda>i. i\<lparr>o_origin_settled := b\<rparr>) db)"
  by (rule same_update_inputs) (auto simp: input_change_def open_input_def)

lemma keeps_suppress_jobs [inv_intros]:
  "work_inv db \<Longrightarrow> keeps same_attempt db (update_jobs p (\<lambda>j. j\<lparr>j_delivery := d\<rparr>) db)"
  by (rule same_update_jobs) (auto simp: job_change_defs)

lemma keeps_finish [inv_intros]:
  assumes inv: "work_inv db" and st: "\<not> active_status status"
  shows "keeps same_attempt db (finish now jid status output session_id err db)"
proof -
  let ?refused = "list_ex (\<lambda>i. o_job i = Some jid \<and> \<not> o_origin_settled i \<and>
      o_status i \<in> {Declined, InputCancelled, Expired}) (inputs db)"
  let ?db1 = "update_jobs (\<lambda>j. j_id j = jid \<and> j_status j \<in> {Running, CancelRequested})
      (\<lambda>j. j\<lparr>j_status := (if j_status j = CancelRequested then Cancelled
           else if has_open_input jid db then AwaitingInput else if ?refused then Cancelled else status),
         j_output := output,
         j_session := (case session_id of Some s \<Rightarrow> Some s | None \<Rightarrow> j_session j),
         j_error := err, j_updated_at := millis now\<rparr>) db"
  let ?db2 = "update_inputs (\<lambda>i. o_origin_run i = jid) (\<lambda>i. i\<lparr>o_origin_settled := True\<rparr>) ?db1"
  have k1: "keeps same_attempt db ?db1"
    by (rule same_update_jobs [OF inv]) (use st in \<open>auto simp: job_change_defs\<close>)
  have k2: "keeps same_attempt db ?db2"
    by (rule same_attempt_steps [OF k1 keeps_settle_inputs [OF keepsD [OF k1]]])
  show ?thesis
    unfolding finish_def Let_def
    by (rule same_attempt_steps [OF k2 keeps_suppress_jobs [OF keepsD [OF k2]]])
qed

lemma keeps_cancel_jobs:
  assumes "work_inv db" "\<And>j. f j = j\<lparr>j_status := Cancelled, j_delivery := Suppressed\<rparr> \<or>
    f j = j\<lparr>j_status := Cancelled, j_delivery := Suppressed, j_updated_at := t\<rparr>"
    and "\<And>j. p j \<Longrightarrow> j_status j \<notin> {Completed, Cancelled}"
  shows "keeps same_attempt db (update_jobs p f db)"
proof (rule same_update_jobs [OF assms(1)])
  fix j assume "p j"
  then show "job_change same_attempt db j (f j)"
    using assms(2) [of j] assms(3) [of j] by (auto simp: job_change_defs)
qed

lemma input_change_close:
  assumes "o_job i = Some jid \<and> q" "\<And>j. j \<in> set (jobs db) \<Longrightarrow> j_id j = jid \<Longrightarrow> j_status j \<noteq> AwaitingInput"
  shows "input_change db i (i\<lparr>o_status := s\<rparr>)"
  using assms by (auto simp: input_change_def)

lemma keeps_cancel [inv_intros]:
  assumes inv: "work_inv db"
  shows "keeps same_attempt db (cancel_transaction now jid db)"
proof -
  let ?p = "\<lambda>j. j_id j = jid \<and> j_status j \<in> {Queued, Running, AwaitingInput}"
  let ?f = "\<lambda>j. j\<lparr>j_status := (if j_status j \<in> {Queued, AwaitingInput} then Cancelled else CancelRequested),
      j_delivery := Suppressed, j_updated_at := millis now\<rparr>"
  let ?db1 = "update_jobs ?p ?f db"
  have k1: "keeps same_attempt db ?db1"
    by (rule same_update_jobs [OF inv]) (auto simp: job_change_defs)
  have "keeps same_attempt ?db1 (update_inputs (\<lambda>i. o_job i = Some jid \<and> open_input i)
      (\<lambda>i. i\<lparr>o_status := InputCancelled\<rparr>) ?db1)"
  proof (rule same_update_inputs [OF keepsD [OF k1]])
    fix i assume "o_job i = Some jid \<and> open_input i"
    moreover have "j_status j \<noteq> AwaitingInput" if "j \<in> set (jobs ?db1)" "j_id j = jid" for j
    proof -
      from that(1) have "j \<in> set (sql_update ?p ?f (jobs db))" by simp
      then obtain j0 where j0: "j = (if ?p j0 then ?f j0 else j0)" by (rule sql_updateE)
      show ?thesis
      proof (cases "?p j0")
        case True
        then have "j = ?f j0" unfolding j0 by (rule if_P)
        then have "j_status j = (if j_status j0 \<in> {Queued, AwaitingInput} then Cancelled else CancelRequested)"
          by simp
        then show ?thesis by (simp split: if_splits)
      next
        case False
        then have "j = j0" unfolding j0 by (rule if_not_P)
        with False that(2) show ?thesis by simp
      qed
    qed
    ultimately show "input_change ?db1 i (i\<lparr>o_status := InputCancelled\<rparr>)"
      by (blast intro: input_change_close)
  qed
  with k1 show ?thesis unfolding cancel_transaction_def Let_def by (rule same_attempt_steps)
qed

lemma keeps_defer [inv_intros]:
  "work_inv db \<Longrightarrow> keeps same_attempt db (defer_delivery now jid delivery seconds db)"
  unfolding defer_delivery_def by (rule same_update_jobs) (auto simp: job_change_defs)

lemma keeps_suppress [inv_intros]:
  "work_inv db \<Longrightarrow> keeps same_attempt db (suppress_transaction jid delivery db)"
  unfolding suppress_transaction_def by (rule keeps_suppress_jobs)

lemma keeps_claim_delivery [inv_intros]:
  "work_inv db \<Longrightarrow> keeps same_attempt db (snd (claim_delivery jid delivery channel db))"
  unfolding claim_delivery_def Let_def snd_conv by (rule same_update_jobs) (auto simp: job_change_defs)

lemma keeps_finish_delivery [inv_intros]:
  assumes "work_inv db"
  shows "keeps same_attempt db (snd (finish_delivery_transaction now jid delivery ok db))"
  using assms
  by (auto simp: finish_delivery_transaction_def Let_def intro!: same_update_jobs) (auto simp: job_change_defs)

lemma keeps_recover_deliveries:
  assumes inv: "work_inv db"
  shows "keeps same_attempt db (recover_deliveries db)"
proof -
  let ?db1 = "update_jobs (\<lambda>j. j_delivery j = Delivering)
      (\<lambda>j. j\<lparr>j_delivery := (if turn_complete (j_delivery_id j) db then Committed
         else DeliveryInterrupted)\<rparr>) db"
  have k: "keeps same_attempt db ?db1"
    by (rule same_update_jobs [OF inv]) (auto simp: job_change_defs)
  show ?thesis
    unfolding recover_deliveries_def Let_def
    by (rule same_attempt_steps [OF k keeps_suppress_jobs [OF keepsD [OF k]]])
qed

lemma keeps_recover [inv_intros]:
  assumes inv: "work_inv db"
  shows "keeps same_attempt db (recover_transaction now db)"
proof -
  let ?db1 = "update_inputs (\<lambda>i. \<not> o_origin_settled i) (\<lambda>i. i\<lparr>o_origin_settled := True\<rparr>) db"
  let ?db2 = "recover_jobs now ?db1"
  let ?db3 = "update_inputs (\<lambda>i. open_input i \<and>
      list_ex (\<lambda>j. Some (j_id j) = o_job i \<and> j_status j = Cancelled) (jobs ?db2))
      (\<lambda>i. i\<lparr>o_status := InputCancelled\<rparr>) ?db2"
  have k1: "keeps same_attempt db ?db1" by (rule keeps_settle_inputs [OF inv])
  have k2: "keeps same_attempt ?db1 ?db2"
    unfolding recover_jobs_def
    by (rule same_update_jobs [OF keepsD [OF k1]]) (auto simp: job_change_defs)
  have "keeps same_attempt ?db2 ?db3"
  proof (rule same_update_inputs [OF keepsD [OF k2]])
    fix i assume i: "open_input i \<and> list_ex (\<lambda>j. Some (j_id j) = o_job i \<and> j_status j = Cancelled) (jobs ?db2)"
    then obtain j where j: "j \<in> set (jobs ?db2)" "Some (j_id j) = o_job i" "j_status j = Cancelled"
      by (auto simp: list_ex_iff)
    have "\<not> (\<exists>j' \<in> set (jobs ?db2). Some (j_id j') = o_job i \<and> j_status j' = AwaitingInput)"
    proof
      assume "\<exists>j' \<in> set (jobs ?db2). Some (j_id j') = o_job i \<and> j_status j' = AwaitingInput"
      then obtain j' where j': "j' \<in> set (jobs ?db2)" "Some (j_id j') = o_job i" "j_status j' = AwaitingInput" by blast
      then have "j' = j"
        using j work_invD(1) [OF keepsD [OF k2]] by (metis distinct_map inj_onD option.inject)
      with j j' show False by simp
    qed
    then show "input_change ?db2 i (i\<lparr>o_status := InputCancelled\<rparr>)" by (simp add: input_change_def)
  qed
  note k3 = same_attempt_steps [OF same_attempt_steps [OF k1 k2] this]
  have "keeps same_attempt ?db3 (recover_deliveries ?db3)"
    by (rule keeps_recover_deliveries [OF keepsD [OF k3]])
  with k3 show ?thesis unfolding recover_transaction_def Let_def by (rule same_attempt_steps)
qed

text \<open>Cancelling the waiting jobs of questions that are over, then closing the questions.\<close>

lemma keeps_close_inputs:
  assumes inv: "work_inv db"
    and pj: "\<And>j. pj j \<Longrightarrow> j_status j = AwaitingInput"
    and fj: "\<And>j. fj j = j\<lparr>j_status := Cancelled, j_delivery := Suppressed\<rparr>"
    and fi: "\<And>i. o_id (fi i) = o_id i"
    and cover: "\<And>i j. i \<in> set (inputs db) \<Longrightarrow> pi i \<Longrightarrow> open_input i \<Longrightarrow>
      \<not> (open_input (fi i) \<and> o_job (fi i) = o_job i) \<Longrightarrow>
      j \<in> set (jobs db) \<Longrightarrow> Some (j_id j) = o_job i \<Longrightarrow> j_status j = AwaitingInput \<Longrightarrow> pj j"
  shows "keeps same_attempt db (update_jobs pj fj (update_inputs pi fi db))"
proof -
  have k1: "keeps same_attempt db (update_jobs pj fj db)"
    by (rule same_update_jobs [OF inv]) (auto simp: job_change_defs fj dest!: pj)
  have "keeps same_attempt (update_jobs pj fj db) (update_inputs pi fi (update_jobs pj fj db))"
  proof (rule same_update_inputs [OF keepsD [OF k1]])
    fix i assume "i \<in> set (inputs (update_jobs pj fj db))" "pi i"
    then show "input_change (update_jobs pj fj db) i (fi i)"
      using cover [of i] fi fj by (auto simp: input_change_def set_sql_update split: if_splits)
  qed
  with k1 show ?thesis unfolding update_commute by (rule same_attempt_steps)
qed

lemma keeps_expire [inv_intros]:
  assumes inv: "work_inv db"
  shows "keeps same_attempt db (expire_owner_inputs now db)"
  unfolding expire_owner_inputs_def Let_def
proof (rule keeps_close_inputs [OF inv])
  fix i j
  assume "i \<in> set (inputs db)" "o_status i = Pending \<and> o_expires_at i \<le> now"
    "j \<in> set (jobs db)" "Some (j_id j) = o_job i" "j_status j = AwaitingInput"
  note ij = this
  let ?p = "\<lambda>i. o_status i = Pending \<and> o_expires_at i \<le> now"
  have "i\<lparr>o_status := Expired\<rparr> \<in> set (inputs (update_inputs ?p (\<lambda>i. i\<lparr>o_status := Expired\<rparr>) db))"
    using in_sql_update [OF ij(1), of ?p "\<lambda>i. i\<lparr>o_status := Expired\<rparr>"] ij(2) by simp
  then show "j_status j = AwaitingInput \<and> list_ex (\<lambda>i. o_job i = Some (j_id j) \<and>
      o_status i \<in> {Expired, InputCancelled, Declined})
      (inputs (update_inputs ?p (\<lambda>i. i\<lparr>o_status := Expired\<rparr>) db))"
    unfolding list_ex_iff using ij(4,5) by (intro conjI bexI [of _ "i\<lparr>o_status := Expired\<rparr>"]) simp_all
qed simp_all

lemma owner_input_found:
  assumes inv: "work_inv db" and "owner_input_of jid db = Inr i"
  shows "i \<in> set (inputs db)" "o_id i = jid" "r \<in> set (inputs db) \<Longrightarrow> o_id r = jid \<Longrightarrow> r = i"
proof -
  show i: "i \<in> set (inputs db)" "o_id i = jid"
    using assms(2) by (auto simp: owner_input_of_def dest: find_row_Inr)
  show "r = i" if "r \<in> set (inputs db)" "o_id r = jid"
    using that i work_invD(3) [OF inv] by (metis distinct_map inj_onD)
qed

lemma keeps_ask [inv_intros]:
  assumes inv: "work_inv db"
  shows "keeps same_attempt db (snd (ask_owner env limits now jid source origin request db))"
proof -
  have "keeps same_attempt db db'"
    if "ask_transaction now jid source origin input db = Inr (i, db')" for input i db'
  proof -
    show ?thesis
    proof (cases "db' = db")
      case False
      with that have db': "db' = db\<lparr>inputs := inputs db @ [new_input now jid source origin input],
            input_presentations := input_presentations db @ (if origin_job origin = None
              then [\<lparr>p_input = jid, p_channel = origin_channel origin,
                p_turn = Some (origin_run origin), p_presented_at = None\<rparr>] else [])\<rparr>"
        and new: "jid \<notin> o_id ` set (inputs db)"
        unfolding ask_transaction_def Let_def
        by (auto simp: list_ex_iff simp del: append_Nil2 split: option.splits if_splits)
      have "work_inv db'"
        using inv new unfolding db'
        by (auto simp: work_inv_def outstanding_def has_open_input_def new_input_def)
      then show ?thesis unfolding db' by (auto simp: keeps_def known_key_def intro: same_attempt_refl)
    qed (use inv in simp)
  qed
  then show ?thesis
    using inv by (auto simp: ask_owner_def Let_def same_attempt_refl intro!: keeps_commit split: sum.splits)
qed

lemma keeps_presentation [inv_intros]:
  "work_inv db \<Longrightarrow> keeps same_attempt db (upsert_presentation jid channel f db)"
  by (rule same_other) (auto simp: upsert_presentation_def Let_def)

lemma keeps_offer [inv_intros]:
  "work_inv db \<Longrightarrow> keeps same_attempt db (snd (offer_owner_input now jid run channel db))"
  by (auto simp: offer_owner_input_def keeps_presentation split: sum.splits)

lemma keeps_present [inv_intros]:
  "work_inv db \<Longrightarrow> keeps same_attempt db (snd (present_owner_input now at jid channel db))"
  by (auto simp: present_owner_input_def keeps_presentation split: sum.splits)

lemma keeps_answer [inv_intros]:
  assumes inv: "work_inv db"
  shows "keeps same_attempt db (snd (answer_owner_input env now jid response_id response channel db))"
proof -
  have "keeps same_attempt db db'"
    if eq: "answer_transaction env now jid response_id response channel db = Inr (r, db')" for r db'
  proof (cases "db' = db")
    case False
    from eq obtain i where i: "owner_input_of jid db = Inr i"
      by (cases "owner_input_of jid db") (simp_all add: answer_transaction_def)
    moreover from eq obtain v where "answer_value env i response = Some v"
      by (cases "answer_value env i response") (simp_all add: answer_transaction_def i split: if_splits)
    ultimately have db': "db' = (let declined = (o_kind i = Approval \<and> v = lit ''decline'');
          f = (\<lambda>i. i\<lparr>o_status := (if declined then Declined else Answered),
            o_response := Some v, o_response_id := Some response_id\<rparr>);
          db1 = update_inputs (\<lambda>i. o_id i = jid) f db
        in if declined then update_jobs (\<lambda>j. Some (j_id j) = o_job i \<and> j_status j = AwaitingInput)
             (\<lambda>j. j\<lparr>j_status := Cancelled, j_delivery := Suppressed\<rparr>) db1 else db1)"
      and pend: "o_status i = Pending"
      using eq False unfolding answer_transaction_def Let_def
      by (auto split: if_splits)
    note found = owner_input_found [OF inv i]
    show ?thesis
    proof (cases "o_kind i = Approval \<and> v = lit ''decline''")
      case True
      show ?thesis
        unfolding db' Let_def if_P [OF True]
        by (rule keeps_close_inputs [OF inv]) (use found(3) in auto)
    next
      case False
      show ?thesis
        unfolding db' Let_def if_not_P [OF False]
        by (rule same_update_inputs [OF inv]) (auto simp: input_change_def open_input_def)
    qed
  qed (use inv in simp)
  then show ?thesis
    using inv by (auto simp: answer_owner_input_def same_attempt_refl intro!: keeps_commit)
qed

lemma keeps_cancel_input [inv_intros]:
  assumes inv: "work_inv db"
  shows "keeps same_attempt db (snd (cancel_owner_input jid channel db))"
proof -
  have "keeps same_attempt db db'" if eq: "cancel_input_transaction jid channel db = Inr (r, db')" for r db'
  proof -
    from eq obtain i where i: "owner_input_of jid db = Inr i"
      and db': "db' = update_jobs (\<lambda>j. Some (j_id j) = o_job i \<and> j_status j = AwaitingInput)
          (\<lambda>j. j\<lparr>j_status := Cancelled, j_delivery := Suppressed\<rparr>)
          (update_inputs (\<lambda>r. o_id r = jid \<and> o_status r = Pending) (\<lambda>r. r\<lparr>o_status := InputCancelled\<rparr>) db)"
      by (auto simp: cancel_input_transaction_def Let_def split: sum.splits if_splits)
    show ?thesis
      unfolding db'
      by (rule keeps_close_inputs [OF inv]) (use owner_input_found(3) [OF inv i] in auto)
  qed
  then show ?thesis
    using inv by (auto simp: cancel_owner_input_def split: sum.splits)
qed

lemma keeps_schedule_tables:
  "work_inv db \<Longrightarrow> keeps same_attempt db (update_schedules p f db)"
  by (rule same_other) auto

lemma keeps_create_schedule [inv_intros]:
  assumes "work_inv db"
  shows "keeps same_attempt db (snd (create_schedule limits now sid source input channel db))"
proof -
  have "keeps same_attempt db db'"
    if "create_schedule_transaction now sid source i channel db = Inr (s, db')" for i s db'
    using that assms
    by (auto simp: create_schedule_transaction_def Let_def split: option.splits if_splits intro!: same_other)
  then show ?thesis
    using assms by (auto simp: create_schedule_def same_attempt_refl intro!: keeps_commit split: sum.splits)
qed

lemma keeps_cancel_queued:
  assumes "work_inv db" "t = (\<lambda>j. j) \<or> t = (\<lambda>j. j\<lparr>j_updated_at := n\<rparr>)"
  shows "keeps same_attempt db (cancel_queued_of t sid db)"
  unfolding cancel_queued_of_def
  by (rule keeps_cancel_jobs [OF assms(1), where t = n]) (use assms(2) in auto)

lemma keeps_set_enabled [inv_intros]:
  assumes inv: "work_inv db"
  shows "keeps same_attempt db (snd (set_schedule_enabled now sid enabled db))"
proof -
  have "keeps same_attempt db db'" if eq: "set_enabled_transaction now sid enabled db = Inr (u, db')" for u db'
  proof -
    let ?db1 = "update_schedules (\<lambda>s. s_id s = sid \<and> s_enabled s \<noteq> enabled)
        (\<lambda>s. s\<lparr>s_enabled := enabled, s_generation := s_generation s + 1, s_last_error := None,
           s_updated_at := millis now\<rparr>) db"
    have k: "keeps same_attempt db ?db1" by (rule keeps_schedule_tables [OF inv])
    from eq have "db' = ?db1 \<or> db' = cancel_queued_of (\<lambda>j. j\<lparr>j_updated_at := millis now\<rparr>) sid ?db1"
      by (auto simp: set_enabled_transaction_def Let_def split: sum.splits if_splits)
    then show ?thesis
      using k same_attempt_steps [OF k keeps_cancel_queued [OF keepsD [OF k]]] by blast
  qed
  then show ?thesis using inv by (auto simp: set_schedule_enabled_def split: sum.splits)
qed

lemma keeps_reschedule [inv_intros]:
  "work_inv db \<Longrightarrow> keeps same_attempt db (snd (reschedule now sid generation at db))"
  by (simp add: reschedule_def Let_def keeps_schedule_tables)

lemma keeps_delete_schedule [inv_intros]:
  assumes inv: "work_inv db"
  shows "keeps same_attempt db (snd (delete_schedule sid db))"
proof -
  have "keeps same_attempt db db'" if eq: "delete_transaction sid db = Inr (u, db')" for u db'
  proof -
    from eq obtain s where "schedule_of sid db = Inr s"
      by (cases "schedule_of sid db") (simp_all add: delete_transaction_def)
    with eq have db': "db' = (let db2 = cancel_queued_of (\<lambda>j. j) sid (retire [schedule_key (s_source_key s)] db)
        in db2\<lparr>schedules := filter (\<lambda>r. s_id r \<noteq> sid) (schedules db2)\<rparr>)"
      by (simp add: delete_transaction_def Let_def)
    let ?db1 = "retire [schedule_key (s_source_key s)] db"
    let ?db2 = "cancel_queued_of (\<lambda>j. j) sid ?db1"
    have k1: "keeps same_attempt db ?db1" by (rule same_other [OF inv]) (auto simp: retire_def)
    have k2: "keeps same_attempt ?db1 ?db2" by (rule keeps_cancel_queued [OF keepsD [OF k1]]) simp
    have "keeps same_attempt ?db2 db'"
      by (rule same_other [OF keepsD [OF k2]]) (auto simp: db' Let_def)
    with k1 k2 show ?thesis by (blast intro: same_attempt_steps)
  qed
  then show ?thesis
    using inv by (auto simp: delete_schedule_def same_attempt_refl intro!: keeps_commit)
qed

lemma keeps_enqueue_schedule [inv_intros]:
  assumes inv: "work_inv db"
  shows "keeps same_attempt db (snd (enqueue_schedule env limits now fresh sid route db))"
proof -
  have "keeps same_attempt db db'"
    if eq: "enqueue_transaction env limits now fresh sid route db = Inr (r, db')" for r db'
  proof -
    from eq consider "db' = db" | t where "db' = set_next_run sid t db"
      | a b c d j db1 p f where "enqueue_in limits now a b c d route db = Inr (j, db1)" "db' = update_schedules p f db1"
      by (auto simp: enqueue_transaction_def Let_def split: option.splits if_splits sum.splits prod.splits)
    then show ?thesis
    proof cases
      case 2
      then show ?thesis using keeps_schedule_tables [OF inv] by (simp add: set_next_run_def)
    next
      case 3
      have k: "keeps same_attempt db db1" by (rule keeps_enqueue_in [OF inv same_attempt_refl 3(1)])
      show ?thesis
        unfolding 3(2) by (rule same_attempt_steps [OF k keeps_schedule_tables [OF keepsD [OF k]]])
    qed (use inv in simp)
  qed
  then show ?thesis
    using inv by (auto simp: enqueue_schedule_def same_attempt_refl intro!: keeps_commit)
qed

lemma keeps_presented:
  assumes "work_inv db" "jobs db1 = jobs db" "inputs db1 = inputs db" "tombstones db1 = tombstones db"
  shows "keeps same_attempt db ((update_jobs p (\<lambda>j. j\<lparr>j_delivery := Presented\<rparr>) db1)\<lparr>input_presentations := ps\<rparr>)"
proof -
  have k1: "keeps same_attempt db db1" by (rule same_other [OF assms(1)]) (use assms in auto)
  have k2: "keeps same_attempt db1 (update_jobs p (\<lambda>j. j\<lparr>j_delivery := Presented\<rparr>) db1)"
    by (rule keeps_suppress_jobs [OF keepsD [OF k1]])
  show ?thesis
    by (rule same_attempt_steps [OF same_attempt_steps [OF k1 k2]])
      (rule same_other [OF keepsD [OF k2]]; simp)
qed

lemma keeps_snd_if:
  "(p \<Longrightarrow> keeps R db (snd a)) \<Longrightarrow> (\<not> p \<Longrightarrow> keeps R db (snd b)) \<Longrightarrow> keeps R db (snd (if p then a else b))"
  by simp

lemma keeps_acknowledge [inv_intros]:
  assumes "work_inv db"
  shows "keeps same_attempt db (snd (acknowledge_presentation now turn channel db))"
  unfolding acknowledge_presentation_def Let_def
  by (rule keeps_snd_if) (use assms in \<open>simp_all only: snd_conv keeps_same, rule keeps_presented, simp_all\<close>)

lemma keeps_resume [inv_intros]:
  "work_inv db \<Longrightarrow> keeps undelivering db (snd (resume now delivery jid db))"
  unfolding resume_def by (rule keeps_commit) (auto intro: undelivering_refl keeps_resume_in)

lemma keeps_release [inv_intros]:
  assumes inv: "work_inv db"
  shows "keeps undelivering db (snd (release_owner_answers env limits now fresh route db))"
proof -
  have sub: "set (releasable db) \<subseteq> set (inputs db)"
    unfolding releasable_def by (rule subset_trans [OF set_take_subset]) auto
  have "snapshot_of (releasable db) db"
    unfolding snapshot_of_def
  proof (intro ballI impI)
    fix i r assume "i \<in> set (releasable db)" "r \<in> set (inputs db)" "o_id r = o_id i"
    then have "r = i" using sub work_invD(3) [OF inv] by (metis distinct_map inj_onD subsetD)
    then show "o_job r = o_job i" by simp
  qed
  then show ?thesis
    unfolding release_owner_answers_def
    by (intro keeps_commit [OF inv undelivering_refl])
      (auto intro: keeps_release_loop [OF inv] split: sum.splits)
qed

lemma keeps_cadence:
  "work_inv db \<Longrightarrow> keeps undelivering db (db\<lparr>goal_cadence := c\<rparr>)"
  by (rule keeps_other) (auto intro: undelivering_refl)

lemma keeps_review [inv_intros]:
  assumes inv: "work_inv db"
  shows "keeps undelivering db (snd (review_goals env limits now fresh work route interval db))"
proof -
  have "keeps undelivering db db'"
    if eq: "review_transaction env limits now fresh work route interval db = Inr (n, db')" for n db'
  proof -
    from eq consider (idle) c where "db' = db\<lparr>goal_cadence := c\<rparr>"
      | (ran) c due w r db3 c' where "review_loop env limits now fresh route due w
           (outstanding (db\<lparr>goal_cadence := c\<rparr>)) 0 True (db\<lparr>goal_cadence := c\<rparr>) = Inr (r, db3)"
          "db' = db3 \<or> db' = db3\<lparr>goal_cadence := c'\<rparr>"
      by (auto simp: review_transaction_def Let_def split: prod.splits sum.splits if_splits) blast+
    then show ?thesis
    proof cases
      case idle
      then show ?thesis using keeps_cadence [OF inv] by simp
    next
      case ran
      note k1 = keeps_cadence [OF inv, of c]
      note k2 = keeps_review_loop [OF keepsD [OF k1] ran(1)]
      note k3 = keeps_cadence [OF keepsD [OF k2], of c']
      have "keeps undelivering db db3" by (rule keeps_trans [OF k1 k2]) (rule undelivering_trans)
      moreover from this k3 have "keeps undelivering db (db3\<lparr>goal_cadence := c'\<rparr>)"
        by (rule keeps_trans) (rule undelivering_trans)
      ultimately show ?thesis using ran(2) by blast
    qed
  qed
  then show ?thesis
    using inv keeps_refl [of db undelivering]
    by (auto simp: review_goals_def undelivering_refl intro!: keeps_commit)
qed

end
