(* ===== verification/Background_Work.thy ===== *)
theory Background_Work
  imports Work_Laws
begin

text \<open>
  Background work as a step system: every transaction of the job, owner-input and schedule
  repositories, in any order and with any arguments, interleaved with whatever the conversations
  do to their tables. The clock and the fresh identifiers are arguments of the steps, so nothing
  is assumed of them. The properties say what holds in every reachable state and what one step
  or any number of steps can do to a job.
\<close>

section \<open>Retention\<close>

lemma retire_simps [simp]:
  "jobs (retire ks db) = jobs db" "inputs (retire ks db) = inputs db"
  "schedules (retire ks db) = schedules db"
  "set (tombstones (retire ks db)) = set ks \<union> set (tombstones db)"
  by (auto simp: retire_def)

lemma prune_inputs_simps:
  "jobs (prune_inputs db) = jobs db" "set (tombstones db) \<subseteq> set (tombstones (prune_inputs db))"
  "inputs (prune_inputs db) = filter (\<lambda>i. \<not> (input_key (o_source_key i) \<in> set (tombstones (prune_inputs db)) \<and>
     closed_input i)) (inputs db)"
  by (auto simp: prune_inputs_def Let_def intro!: filter_cong)

lemma prune_jobs_simps:
  "inputs (prune_jobs db) = inputs db" "set (tombstones db) \<subseteq> set (tombstones (prune_jobs db))"
  "jobs (prune_jobs db) = filter (\<lambda>j. \<not> (j_source_key j \<in> set (tombstones (prune_jobs db)) \<and> delivered_job j)) (jobs db)"
  by (auto simp: prune_jobs_def Let_def intro!: filter_cong)

lemma prune_schedules_simps:
  "jobs (prune_schedules db) = jobs db" "inputs (prune_schedules db) = inputs db"
  "set (tombstones db) \<subseteq> set (tombstones (prune_schedules db))"
  by (auto simp: prune_schedules_def Let_def)

lemma closed_input_not_open: "closed_input i \<Longrightarrow> \<not> open_input i"
  by (auto simp: closed_input_def open_input_def)

lemma prune_laws:
  shows "j \<in> set (jobs db) \<Longrightarrow> j \<in> set (jobs (prune db)) \<or>
      delivered_job j \<and> j_source_key j \<in> set (tombstones (prune db))"
    and "set (tombstones db) \<subseteq> set (tombstones (prune db))"
    and "has_open_input job (prune db) = has_open_input job db"
  using prune_inputs_simps(2) [of db] prune_jobs_simps(2) [of "prune_inputs db"]
    prune_schedules_simps(3) [of "prune_jobs (prune_inputs db)"]
  by (auto simp: prune_def prune_inputs_simps(1) prune_jobs_simps(1,3) prune_schedules_simps(1,2)
      has_open_input_def list_ex_iff prune_inputs_simps(3) dest: closed_input_not_open)

lemma prune_jobs_filter: "\<exists>q. jobs (prune db) = filter q (jobs db)"
  by (auto simp: prune_def prune_schedules_simps(1) prune_jobs_simps(3) prune_inputs_simps(1))

lemma prune_inputs_filter: "\<exists>q. inputs (prune db) = filter q (inputs db)"
  by (auto simp: prune_def prune_schedules_simps(2) prune_jobs_simps(1) prune_inputs_simps(3))

lemma prune_work_inv: "work_inv db \<Longrightarrow> work_inv (prune db)"
proof -
  assume inv: "work_inv db"
  obtain q where q: "jobs (prune db) = filter q (jobs db)" using prune_jobs_filter by blast
  obtain r where r: "inputs (prune db) = filter r (inputs db)" using prune_inputs_filter by blast
  have "outstanding (prune db) \<le> outstanding db"
    unfolding outstanding_def q filter_filter by (rule length_filter_mono) simp
  with inv show ?thesis
    unfolding work_inv_def prune_laws(3) q r by (auto simp: distinct_map_filter)
qed

section \<open>Steps\<close>

text \<open>What a step may do to a job: nothing final changes, and a result that is being delivered
  keeps its attempt and its delivery.\<close>

definition held :: "agent_job \<Rightarrow> agent_job \<Rightarrow> bool" where
  "held j j' \<longleftrightarrow> lifecycle j j' \<and>
     (j_delivery j = Delivering \<longrightarrow> j_delivery_id j' = j_delivery_id j \<and> j_attempt j' = j_attempt j)"

definition advances :: "database \<Rightarrow> database \<Rightarrow> bool" where
  "advances db db' \<longleftrightarrow> work_inv db' \<and> (\<forall>k. known_key k db \<longrightarrow> known_key k db') \<and>
     (\<forall>j \<in> set (jobs db). (\<exists>j' \<in> set (jobs db'). held j j') \<or>
        delivered_job j \<and> j_source_key j \<in> set (tombstones db'))"

lemma held_refl: "held j j"
  by (simp add: held_def)

lemma advances_same: "keeps same_attempt db db' \<Longrightarrow> advances db db'"
  unfolding keeps_def advances_def held_def same_attempt_def by blast

lemma advances_undelivering: "keeps undelivering db db' \<Longrightarrow> advances db db'"
  unfolding keeps_def advances_def held_def undelivering_def by blast

lemma prune_known_key:
  assumes "known_key k db"
  shows "known_key k (prune db)"
proof (cases "k \<in> set (tombstones db)")
  case True
  then show ?thesis using prune_laws(2) [of db] by (auto simp: known_key_def)
next
  case False
  with assms obtain j where "j \<in> set (jobs db)" "k = j_source_key j" by (auto simp: known_key_def)
  then show ?thesis using prune_laws(1) [of j db] by (auto simp: known_key_def)
qed

lemma advances_prune: "work_inv db \<Longrightarrow> advances db (prune db)"
  unfolding advances_def
proof (intro conjI allI impI ballI)
  fix j assume "j \<in> set (jobs db)"
  then show "(\<exists>j' \<in> set (jobs (prune db)). held j j') \<or>
      delivered_job j \<and> j_source_key j \<in> set (tombstones (prune db))"
    using prune_laws(1) [of j db] by (metis held_refl)
qed (simp_all add: prune_work_inv prune_known_key)

text \<open>Conversations share the database and leave the tables of background work alone.\<close>

definition same_work_tables :: "database \<Rightarrow> database \<Rightarrow> bool" where
  "same_work_tables db db' \<longleftrightarrow> jobs db' = jobs db \<and> inputs db' = inputs db \<and>
     schedules db' = schedules db \<and> tombstones db' = tombstones db \<and> goal_cadence db' = goal_cadence db"

inductive work_step :: "work_env \<Rightarrow> execution_limits \<Rightarrow> database \<Rightarrow> database \<Rightarrow> bool"
  for env :: work_env and limits :: execution_limits where
  submits: "work_step env limits db (snd (submit limits now jid delivery key input route db))"
| claims: "work_step env limits db (snd (claim limits now jid db))"
| finishes: "finished_status status \<Longrightarrow>
    work_step env limits db (finish now jid status output session_id err db)"
| cancels: "work_step env limits db (cancel_transaction now jid db)"
| prunes: "work_step env limits db (prune db)"
| resumes: "work_step env limits db (snd (resume now delivery jid db))"
| defers: "work_step env limits db (defer_delivery now jid delivery seconds db)"
| suppresses: "work_step env limits db (suppress_transaction jid delivery db)"
| claims_delivery: "work_step env limits db (snd (claim_delivery jid delivery channel db))"
| finishes_delivery: "work_step env limits db (snd (finish_delivery_transaction now jid delivery ok db))"
| recovers: "work_step env limits db (recover_transaction now db)"
| expires: "work_step env limits db (expire_owner_inputs now db)"
| asks: "work_step env limits db (snd (ask_owner env limits now jid source origin request db))"
| offers: "work_step env limits db (snd (offer_owner_input now jid run channel db))"
| presents: "work_step env limits db (snd (present_owner_input now at jid channel db))"
| settles: "work_step env limits db (finish_input_origin run db)"
| answers: "work_step env limits db (snd (answer_owner_input env now jid response_id response channel db))"
| cancels_input: "work_step env limits db (snd (cancel_owner_input jid channel db))"
| releases: "work_step env limits db (snd (release_owner_answers env limits now fresh route db))"
| creates_schedule: "work_step env limits db (snd (create_schedule limits now sid source sinput channel db))"
| enables: "work_step env limits db (snd (set_schedule_enabled now sid enabled db))"
| reschedules: "work_step env limits db (snd (reschedule now sid generation at db))"
| deletes_schedule: "work_step env limits db (snd (delete_schedule sid db))"
| schedule_fails: "work_step env limits db (schedule_error sid msg db)"
| enqueues: "work_step env limits db (snd (enqueue_schedule env limits now pair sid route db))"
| reviews: "work_step env limits db (snd (review_goals env limits now fresh work route interval db))"
| acknowledges: "work_step env limits db (snd (acknowledge_presentation now turn channel db))"
| converses: "same_work_tables db db' \<Longrightarrow> work_step env limits db db'"

lemma finished_not_active: "finished_status s \<Longrightarrow> \<not> active_status s"
  by (auto simp: finished_status_def active_status_def)

lemma keeps_same_tables: "work_inv db \<Longrightarrow> same_work_tables db db' \<Longrightarrow> keeps same_attempt db db'"
  by (rule same_other) (auto simp: same_work_tables_def)

lemmas keeps_laws = keeps_submit keeps_claim keeps_finish [OF _ finished_not_active] keeps_cancel
  keeps_defer keeps_suppress keeps_claim_delivery keeps_finish_delivery keeps_recover keeps_expire
  keeps_ask keeps_offer keeps_present keeps_settle_inputs [folded finish_input_origin_def]
  keeps_answer keeps_cancel_input keeps_create_schedule keeps_set_enabled keeps_reschedule
  keeps_delete_schedule keeps_schedule_tables keeps_enqueue_schedule keeps_acknowledge

lemma work_step_advances:
  assumes "work_inv db" "work_step env limits db db'"
  shows "advances db db'"
  using assms(2)
proof cases
  case prunes
  then show ?thesis using advances_prune [OF assms(1)] by simp
next
  case resumes
  then show ?thesis using advances_undelivering [OF keeps_resume [OF assms(1)]] by simp
next
  case releases
  then show ?thesis using advances_undelivering [OF keeps_release [OF assms(1)]] by simp
next
  case converses
  then show ?thesis using advances_same [OF keeps_same_tables [OF assms(1)]] by simp
next
  case reviews
  then show ?thesis using advances_undelivering [OF keeps_review [OF assms(1)]] by simp
qed (auto intro!: advances_same keeps_laws assms(1) simp: finish_input_origin_def schedule_error_def)

interpretation work_system: step_system "\<lambda>db. db = empty_db" "work_step env limits" work_inv
proof
  show "work_inv db" if "db = empty_db" for db
    by (simp add: that work_inv_def empty_db_def outstanding_def)
  show "work_inv db'" if "work_inv db" "work_step env limits db db'" for db db'
    using work_step_advances [OF that] by (simp add: advances_def)
qed

abbreviation reachable_work :: "work_env \<Rightarrow> execution_limits \<Rightarrow> database \<Rightarrow> bool" where
  "reachable_work env limits \<equiv> reach (\<lambda>db. db = empty_db) (work_step env limits)"

lemma known_key_stays:
  "(work_step env limits)\<^sup>*\<^sup>* db db' \<Longrightarrow> work_inv db \<Longrightarrow> known_key k db \<Longrightarrow> work_inv db' \<and> known_key k db'"
proof (induction rule: rtranclp_induct)
  case (step y z)
  then show ?case using work_step_advances [of y env limits z] by (auto simp: advances_def)
qed simp

lemma submit_known_key:
  assumes "known_key key db"
  shows "snd (submit limits now jid delivery key input route db) = db"
proof (cases "find (\<lambda>j. j_source_key j = key) (jobs db)")
  case None
  with assms have "key \<in> set (tombstones db)" by (auto simp: known_key_def find_None_iff)
  with None show ?thesis
    by (cases "resolve limits (in_budget input)") (auto simp: submit_def enqueue_in_def case_prod_unfold)
qed (simp add: submit_def enqueue_in_def)

lemma submit_makes_known:
  assumes "submit limits now jid delivery key input route db = (Inr j, db')"
  shows "known_key key db'"
proof -
  from assms have "enqueue_in limits now jid delivery key input route db = Inr (j, db')"
    by (cases "enqueue_in limits now jid delivery key input route db") (auto simp: submit_def)
  from enqueue_in_cases [OF this] show ?thesis by (auto simp: known_key_def new_job_def)
qed

section \<open>A run\<close>

text \<open>A job that is submitted, claimed and asks the owner: once, or a second time after the owner
  has dismissed the first question. The witnesses below take their states from it.\<close>

definition plain_env :: work_env where
  "plain_env = \<lparr>env_json = (\<lambda>_. []), env_uuid = (\<lambda>_. []), env_time = (\<lambda>_. []), env_lower = (\<lambda>_ _. []),
     env_time_max = 10 ^ 20\<rparr>"

definition example_limits :: execution_limits where
  "example_limits = \<lparr>task_timeout_seconds = 3600, task_max_turns = 100\<rparr>"

definition example_budget :: task_budget where
  "example_budget = \<lparr>budget_timeout = None, budget_turns = None\<rparr>"

definition example_work :: job_input where
  "example_work = \<lparr>in_title = [116, 105], in_task = [116, 105], in_context = [],
     in_budget = example_budget, in_channel = None, in_goal = None, in_schedule = None\<rparr>"

definition example_route :: workload_route where
  "example_route = \<lparr>route_profile = [112], route_model = None, route_effort = None\<rparr>"

definition example_origin :: input_origin where
  "example_origin = \<lparr>origin_run = 1, origin_job = Some 1, origin_channel = 7, origin_goal = None\<rparr>"

definition example_question :: ask_owner_request where
  "example_question = \<lparr>ask_kind = Approval, ask_question = [111, 107], ask_action = [100, 101],
     ask_task = [103, 111], ask_context = [], ask_choices = [], ask_expires_seconds = 60,
     ask_budget = example_budget\<rparr>"

definition submitted_db :: database where
  "submitted_db = snd (submit example_limits 0 1 2 ([107]) example_work example_route empty_db)"
definition running_db :: database where "running_db = snd (claim example_limits 0 1 submitted_db)"
definition asked_db :: database where
  "asked_db = snd (ask_owner plain_env example_limits 0 5 ([113]) example_origin example_question running_db)"
definition reasked_db :: database where
  "reasked_db = snd (ask_owner plain_env example_limits 0 6 [114] example_origin example_question
     (snd (cancel_owner_input 5 7 asked_db)))"
definition stale_db :: database where "stale_db = finish 0 1 Completed None None None reasked_db"
definition waiting_db :: database where "waiting_db = finish 0 1 Completed None None None asked_db"



lemmas example_defs = plain_env_def example_limits_def example_budget_def example_work_def example_route_def
  example_origin_def example_question_def
lemmas text_eval = trim_def trim_start_def trim_end_def is_whitespace_def str_len_def utf8_len_def

lemma submitted_db: "submitted_db = empty_db\<lparr>jobs := [new_job 0 1 2 [107] example_work 1800 64 example_route]\<rparr>"
 by (simp add: submitted_db_def submit_def enqueue_in_def example_defs empty_db_def text_eval MAX_CONTEXT_BYTES_def
   resolve_def MAX_OUTSTANDING_def outstanding_def insert_job_def Let_def)
lemma running_db: "map j_status (jobs running_db) = [Running]"
 by (simp add: running_db_def submitted_db claim_def new_job_def)
lemma asked_db: "asked_db = running_db\<lparr>inputs := [new_input 0 5 [113] example_origin (with_default_choices example_question)]\<rparr>"
 by (simp add: asked_db_def ask_owner_def ask_is_valid_def with_default_choices_def default_choices_def ask_transaction_def example_defs text_eval
   running_db_def submitted_db claim_def empty_db_def resolve_def normalized_def to_lowercase_def lit_def is_closing_mark_def Let_def to_ascii_lowercase_def)
lemma waiting_db: "waiting_db = asked_db\<lparr>jobs := [(new_job 0 1 2 [107] example_work 1800 64 example_route)\<lparr>j_status := AwaitingInput\<rparr>],
     inputs := [(new_input 0 5 [113] example_origin (with_default_choices example_question))\<lparr>o_origin_settled := True\<rparr>]\<rparr>"
  by (simp add: waiting_db_def asked_db running_db_def submitted_db claim_def finish_def empty_db_def new_job_def
      has_open_input_def new_input_def open_input_def example_defs Let_def)

lemma waiting_db_reachable: "reachable_work plain_env example_limits waiting_db"
proof -
  note reach_step [where step = "work_step plain_env example_limits", trans]
  have "reachable_work plain_env example_limits empty_db" by (rule reach_init) simp
  also have "work_step plain_env example_limits empty_db submitted_db" unfolding submitted_db_def by (rule submits)
  also have "work_step plain_env example_limits submitted_db running_db" unfolding running_db_def by (rule claims)
  also have "work_step plain_env example_limits running_db asked_db" unfolding asked_db_def by (rule asks)
  also have "work_step plain_env example_limits asked_db waiting_db"
    unfolding waiting_db_def by (rule finishes) (simp add: finished_status_def)
  finally show ?thesis .
qed

section \<open>Properties of every reachable state\<close>

text \<open>C5: Whatever the order of the operations, at most 16 jobs are outstanding.\<close>

theorem outstanding_work_is_bounded:
  assumes "reachable_work env limits db"
  shows "outstanding db \<le> MAX_OUTSTANDING"
  using work_system.reachable_inv [OF assms] by (rule work_invD(4))

theorem outstanding_work_is_bounded_witness:
  "reachable_work plain_env example_limits waiting_db \<and> outstanding waiting_db = 1 \<and>
     outstanding waiting_db \<le> MAX_OUTSTANDING"
  using waiting_db_reachable outstanding_work_is_bounded [OF waiting_db_reachable]
  by (simp add: outstanding_def waiting_db active_status_def)

text \<open>C7: A job that waits for the owner always has a question that is still open: pending, or
  answered and not yet released.\<close>

theorem waiting_job_has_open_question:
  assumes "reachable_work env limits db" "j \<in> set (jobs db)" "j_status j = AwaitingInput"
  shows "\<exists>i \<in> set (inputs db). o_job i = Some (j_id j) \<and> o_status i \<in> {Pending, Answered} \<and> o_resumed_job i = None"
  using work_invD(5) [OF work_system.reachable_inv [OF assms(1)] assms(2,3)]
  by (auto simp: has_open_input_def open_input_def list_ex_iff)

theorem waiting_job_has_open_question_witness:
  "\<exists>i \<in> set (inputs waiting_db). o_job i = Some 1 \<and> o_status i \<in> {Pending, Answered} \<and> o_resumed_job i = None"
  using waiting_job_has_open_question [OF waiting_db_reachable, of "hd (jobs waiting_db)"]
  by (simp add: waiting_db new_job_def)

text \<open>C6: Work that was accepted under a key is never accepted again under it, however long ago
  that was and whatever has happened to the job since: a repeated submission changes nothing.\<close>

theorem work_is_accepted_once:
  assumes "reachable_work env limits db"
    and "submit limits now jid delivery key input route db = (Inr j, db1)"
    and "(work_step env limits)\<^sup>*\<^sup>* db1 db2"
  shows "snd (submit limits' now' jid' delivery' key input' route' db2) = db2"
proof -
  have "work_inv db1"
    using keepsD [OF keeps_submit [OF work_system.reachable_inv [OF assms(1)]]] assms(2) by (metis snd_conv)
  from known_key_stays [OF assms(3) this submit_makes_known [OF assms(2)]] show ?thesis
    by (blast intro: submit_known_key)
qed

theorem work_is_accepted_once_witness:
  "snd (submit example_limits 0 8 9 [107] example_work example_route running_db) = running_db"
proof (rule work_is_accepted_once)
  show "reachable_work plain_env example_limits empty_db" by (rule reach_init) simp
  have "submit example_limits 0 1 2 [107] example_work example_route empty_db =
      (Inr (new_job 0 1 2 [107] example_work 1800 64 example_route), submitted_db)"
    by (simp add: submitted_db submit_def enqueue_in_def example_defs empty_db_def text_eval
        MAX_CONTEXT_BYTES_def resolve_def MAX_OUTSTANDING_def outstanding_def insert_job_def Let_def)
  then show "submit example_limits 0 1 2 [107] example_work example_route empty_db =
      (Inr (new_job 0 1 2 [107] example_work 1800 64 example_route), submitted_db)" .
  show "(work_step plain_env example_limits)\<^sup>*\<^sup>* submitted_db running_db"
    unfolding running_db_def by (rule r_into_rtranclp) (rule claims)
qed

text \<open>No operation changes what a job is, and completed or cancelled work stays so; a job
  leaves the table only when it is finished and delivered, and then its key is retired.\<close>

theorem settled_work_stays_settled:
  assumes "reachable_work env limits db" "work_step env limits db db'" "j \<in> set (jobs db)"
  shows "(\<exists>j' \<in> set (jobs db'). j_id j' = j_id j \<and> j_task j' = j_task j \<and> j_context j' = j_context j \<and>
       (j_status j \<in> {Completed, Cancelled} \<longrightarrow> j_status j' = j_status j)) \<or>
     (j_status j \<in> {Completed, Failed, Cancelled, Interrupted} \<and>
      j_delivery j \<in> {Committed, Presented, Suppressed} \<and> j_source_key j \<in> set (tombstones db'))"
  using work_step_advances [OF work_system.reachable_inv [OF assms(1)] assms(2)] assms(3)
  unfolding advances_def held_def lifecycle_def delivered_job_def delivery_over_def finished_status_def
  by blast

theorem settled_work_stays_settled_witness:
  "\<exists>db db' j. work_step plain_env example_limits db db' \<and> j \<in> set (jobs db) \<and> j_status j = Cancelled \<and>
     (\<exists>j' \<in> set (jobs db'). j_id j' = j_id j \<and> j_status j' = Cancelled)"
proof -
  let ?db = "cancel_transaction 0 1 waiting_db"
  let ?j = "(new_job 0 1 2 [107] example_work 1800 64 example_route)\<lparr>j_status := Cancelled, j_delivery := Suppressed\<rparr>"
  have r: "reachable_work plain_env example_limits ?db"
    by (rule reach_step [OF waiting_db_reachable cancels])
  have j: "?j \<in> set (jobs ?db)"
    by (simp add: cancel_transaction_def Let_def waiting_db new_job_def)
  have s: "work_step plain_env example_limits ?db (snd (resume 0 3 1 ?db))" by (rule resumes)
  have keys: "tombstones (snd (resume 0 3 1 ?db)) = []"
    by (simp add: resume_def resume_in_def cancel_transaction_def Let_def waiting_db asked_db running_db_def
        submitted_db claim_def empty_db_def new_job_def outstanding_def active_status_def MAX_OUTSTANDING_def)
  have "\<exists>j' \<in> set (jobs (snd (resume 0 3 1 ?db))). j_id j' = j_id ?j \<and> j_status j' = Cancelled"
    using settled_work_stays_settled [OF r s j] keys by auto
  with s j show ?thesis by (intro exI [of _ ?db] exI [of _ "snd (resume 0 3 1 ?db)"] exI [of _ ?j]) simp
qed

text \<open>A result that is being delivered is not deleted, resumed or rerun under the delivery: its
  attempt and its delivery identity stay until the delivery has ended.\<close>

theorem delivery_keeps_its_attempt:
  assumes "reachable_work env limits db" "work_step env limits db db'" "j \<in> set (jobs db)"
    and "j_delivery j = Delivering"
  shows "\<exists>j' \<in> set (jobs db'). j_id j' = j_id j \<and> j_delivery_id j' = j_delivery_id j \<and> j_attempt j' = j_attempt j"
  using work_step_advances [OF work_system.reachable_inv [OF assms(1)] assms(2)] assms(3,4)
  unfolding advances_def held_def lifecycle_def delivered_job_def delivery_over_def by fastforce

theorem delivery_keeps_its_attempt_witness:
  "\<exists>db db' j. work_step plain_env example_limits db db' \<and> j \<in> set (jobs db) \<and> j_delivery j = Delivering \<and>
     (\<exists>j' \<in> set (jobs db'). j_id j' = j_id j \<and> j_delivery_id j' = 2)"
proof -
  let ?db = "snd (claim_delivery 1 2 7 waiting_db)"
  let ?j = "(new_job 0 1 2 [107] example_work 1800 64 example_route)\<lparr>j_status := AwaitingInput,
     j_delivery := Delivering, j_channel := Some 7\<rparr>"
  have r: "reachable_work plain_env example_limits ?db"
    by (rule reach_step [OF waiting_db_reachable claims_delivery])
  have j: "?j \<in> set (jobs ?db)" "j_delivery ?j = Delivering" "j_delivery_id ?j = 2"
    by (simp_all add: claim_delivery_def claimable_def Let_def waiting_db new_job_def deliverable_status_def example_work_def)
  have s: "work_step plain_env example_limits ?db (prune ?db)" by (rule prunes)
  have "\<exists>j' \<in> set (jobs (prune ?db)). j_id j' = j_id ?j \<and> j_delivery_id j' = 2"
    using delivery_keeps_its_attempt [OF r s j(1,2)] j(3) by auto
  with s j show ?thesis by (intro exI [of _ ?db] exI [of _ "prune ?db"] exI [of _ ?j]) simp
qed

section \<open>Properties of single operations\<close>

lemma in_sql_update_if: "r \<in> set rows \<Longrightarrow> p r \<Longrightarrow> f r \<in> set (sql_update p f rows)"
  using in_sql_update [of r rows p f] by simp

lemma updated_tables:
  "jobs (db\<lparr>jobs := js\<rparr>) = js" "inputs (db\<lparr>jobs := js\<rparr>) = inputs db"
  "inputs (db\<lparr>inputs := is\<rparr>) = is" "jobs (db\<lparr>inputs := is\<rparr>) = jobs db"
  by simp_all

lemma sql_update_member:
  assumes "r' \<in> set (sql_update p f rows)"
  obtains b r where "r \<in> set rows" "r' = (if b then f r else r)"
  using assms by (auto elim: sql_updateE)

lemma recover_settles_inputs: "\<forall>i \<in> set (inputs (recover_transaction now db)). o_origin_settled i"
proof
  fix i assume "i \<in> set (inputs (recover_transaction now db))"
  then obtain b i1 where
    i1: "i1 \<in> set (sql_update (\<lambda>i. \<not> o_origin_settled i) (\<lambda>i. i\<lparr>o_origin_settled := True\<rparr>) (inputs db))"
    and i: "i = (if b then i1\<lparr>o_status := InputCancelled\<rparr> else i1)"
    unfolding recover_transaction_def recover_deliveries_def recover_jobs_def Let_def updated_tables
    by (rule sql_update_member)
  from i1 obtain i0 where "i1 = (if \<not> o_origin_settled i0 then i0\<lparr>o_origin_settled := True\<rparr> else i0)"
    by (rule sql_updateE)
  with i show "o_origin_settled i" by simp
qed

lemma recover_jobs_settle:
  assumes "j \<in> set (jobs (recover_jobs now db))"
  shows "j_status j \<notin> {Running, CancelRequested}"
proof -
  from assms [unfolded recover_jobs_def, simplified] obtain j0 where
    j: "j = (if j_status j0 \<in> {Running, CancelRequested}
      then j0\<lparr>j_status := (if j_status j0 = CancelRequested then Cancelled
            else if has_open_input (j_id j0) db then AwaitingInput else Interrupted),
          j_error := Some (lit ''Daemon stopped during execution; external effects may be incomplete. Inspect before resuming.''),
          j_updated_at := millis now\<rparr> else j0)"
    by (auto elim!: sql_updateE)
  show ?thesis unfolding j by simp
qed

lemma recover_deliveries_settle:
  assumes "j \<in> set (jobs (recover_deliveries db))"
  shows "j_delivery j \<noteq> Delivering" "\<exists>j0 \<in> set (jobs db). j_status j = j_status j0"
proof -
  let ?f = "\<lambda>j. j\<lparr>j_delivery := (if turn_complete (j_delivery_id j) db then Committed else DeliveryInterrupted)\<rparr>"
  from assms obtain b j1 where j1: "j1 \<in> set (sql_update (\<lambda>j. j_delivery j = Delivering) ?f (jobs db))"
    and j: "j = (if b then j1\<lparr>j_delivery := Presented\<rparr> else j1)"
    unfolding recover_deliveries_def Let_def updated_tables by (rule sql_update_member)
  from j1 obtain j0 where j0: "j0 \<in> set (jobs db)" "j1 = (if j_delivery j0 = Delivering then ?f j0 else j0)"
    by (rule sql_updateE)
  show "j_delivery j \<noteq> Delivering" by (simp add: j j0(2))
  show "\<exists>j0 \<in> set (jobs db). j_status j = j_status j0"
    by (rule bexI [OF _ j0(1)]) (simp add: j j0(2))
qed

text \<open>C8: After a restart nothing runs and nothing is being delivered, every question is settled
  with its run, and no question is pending past its time.\<close>

theorem recovery_leaves_nothing_running:
  "(\<forall>j \<in> set (jobs (recover now db)). j_status j \<notin> {Running, CancelRequested} \<and> j_delivery j \<noteq> Delivering) \<and>
   (\<forall>i \<in> set (inputs (recover now db)). o_origin_settled i \<and> (o_status i = Pending \<longrightarrow> now < o_expires_at i))"
proof -
  let ?r = "recover_transaction now db"
  let ?e = "expire_owner_inputs now ?r"
  have rj: "\<forall>j \<in> set (jobs ?r). j_status j \<notin> {Running, CancelRequested} \<and> j_delivery j \<noteq> Delivering"
  proof
    fix j assume "j \<in> set (jobs ?r)"
    then show "j_status j \<notin> {Running, CancelRequested} \<and> j_delivery j \<noteq> Delivering"
      using recover_deliveries_settle [of j] recover_jobs_settle
      unfolding recover_transaction_def Let_def by fastforce
  qed
  have ri: "\<forall>i \<in> set (inputs ?r). o_origin_settled i"
    by (rule recover_settles_inputs)
  have ej: "\<forall>j \<in> set (jobs ?e). j_status j \<notin> {Running, CancelRequested} \<and> j_delivery j \<noteq> Delivering"
    using rj by (auto simp: expire_owner_inputs_def Let_def set_sql_update)
  have ei: "\<forall>i \<in> set (inputs ?e). o_origin_settled i \<and> (o_status i = Pending \<longrightarrow> now < o_expires_at i)"
    using ri by (auto simp: expire_owner_inputs_def Let_def set_sql_update)
  obtain p q where "jobs (prune ?e) = filter p (jobs ?e)" "inputs (prune ?e) = filter q (inputs ?e)"
    using prune_jobs_filter prune_inputs_filter by metis
  with ej ei show ?thesis by (simp add: recover_def)
qed

theorem recovery_leaves_nothing_running_witness:
  "map j_status (jobs running_db) = [Running] \<and>
   j_status (hd (jobs (recover 1 running_db))) \<notin> {Running, CancelRequested} \<and> j_id (hd (jobs (recover 1 running_db))) = 1"
proof -
  have r: "map j_status (jobs running_db) = [Running]"
    by (simp add: running_db_def submitted_db claim_def new_job_def)
  have j: "map j_id (jobs (recover 1 running_db)) = [1]"
    by (simp add: recover_def recover_transaction_def recover_jobs_def recover_deliveries_def Let_def
        running_db_def submitted_db claim_def new_job_def empty_db_def expire_owner_inputs_def prune_def
        prune_schedules_def prune_jobs_def prune_inputs_def retire_def has_open_input_def insert_or_ignore_def
        delivered_job_def delivery_over_def finished_status_def)
  then have "hd (jobs (recover 1 running_db)) \<in> set (jobs (recover 1 running_db))" "j_id (hd (jobs (recover 1 running_db))) = 1"
    by (cases "jobs (recover 1 running_db)"; simp)+
  with recovery_leaves_nothing_running [of 1 running_db] r show ?thesis by simp
qed

text \<open>The next occurrence of a schedule lies on its grid, in the future, and at most one
  interval after the later of now and the occurrence it follows: missed ones are coalesced.\<close>

theorem next_due_is_the_next_grid_point:
  assumes "next_due time_max due interval now = Inr t"
  shows "(\<exists>k > 0. t = due + k * (int interval * second)) \<and> now < t \<and>
    t \<le> max now due + int interval * second \<and> t \<le> time_max"
proof -
  let ?step = "int interval * second"
  let ?n = "(if now < due then 0 else (now - due) div second) div int interval"
  from assms have t: "t = due + (?n + 1) * ?step" "t \<le> time_max" and pos: "0 < ?step"
    by (auto simp: next_due_def Let_def algebra_simps split: if_splits)
  have n: "?n = (if now < due then 0 else (now - due) div ?step)"
    by (simp add: zdiv_zmult2_eq [symmetric] mult.commute)
  have n0: "0 \<le> ?n" by (cases "now < due") (auto intro!: div_int_pos_iff [THEN iffD2])
  have "now < t \<and> t \<le> max now due + ?step"
  proof (cases "now < due")
    case False
    have "(now - due) div ?step * ?step + (now - due) mod ?step = now - due" by (rule div_mult_mod_eq)
    moreover have "0 \<le> (now - due) mod ?step" "(now - due) mod ?step < ?step" using pos by simp_all
    ultimately show ?thesis using False t(1) n by (simp add: distrib_right)
  qed (use t(1) n pos in simp)
  with t n0 show ?thesis by (auto intro!: exI [of _ "?n + 1"])
qed

theorem next_due_is_the_next_grid_point_witness:
  "next_due (10 ^ 30) 0 60 (150 * second) = Inr (180 * second) \<and> 150 * second < 180 * second"
proof -
  have "next_due (10 ^ 30) 0 60 (150 * second) = Inr (180 * second)"
    by (simp add: next_due_def Let_def)
  with next_due_is_the_next_grid_point [OF this] show ?thesis by blast
qed

text \<open>An accepted question leaves no doubt: no response matches two of its choices.\<close>

theorem accepted_choices_are_unambiguous:
  assumes "ask_is_valid env request" "a < length (ask_choices request)" "b < length (ask_choices request)"
    and "choice_matches env wanted (ask_choices request ! a)"
    and "choice_matches env wanted (ask_choices request ! b)"
  shows "a = b"
proof -
  define vs where "vs = map (\<lambda>c. normalized env (choice_value c)) (ask_choices request)"
  define ls where "ls = map (\<lambda>c. normalized env (choice_label c)) (ask_choices request)"
  have len: "length vs = length (ask_choices request)" "length ls = length (ask_choices request)"
    by (simp_all add: vs_def ls_def)
  from assms(1) have "length (remdups vs) = length vs" "length (remdups ls) = length ls"
    unfolding ask_is_valid_def Let_def vs_def ls_def de_Morgan_disj not_not length_map by blast+
  then have dist: "distinct vs" "distinct ls" by (metis distinct_remdups length_remdups_card_conv card_distinct)+
  from assms(1) have "\<not> list_ex (\<lambda>i. list_ex (\<lambda>j. i \<noteq> j \<and> vs ! i = ls ! j) [0..<length (ask_choices request)])
      [0..<length (ask_choices request)]"
    unfolding ask_is_valid_def Let_def vs_def ls_def de_Morgan_disj not_not by blast
  then have cross: "vs ! i = ls ! j \<Longrightarrow> i = j" if "i < length vs" "j < length vs" for i j
    using that by (auto simp: list_ex_iff len Ball_def)
  have "(ls ! a = wanted \<or> vs ! a = wanted) \<and> (ls ! b = wanted \<or> vs ! b = wanted)"
    using assms(2-5) by (simp add: vs_def ls_def choice_matches_def)
  then show ?thesis
    using cross [of a b] cross [of b a] dist assms(2,3) len by (auto simp: nth_eq_iff_index_eq)
qed

theorem accepted_choices_are_unambiguous_witness:
  "\<not> choice_matches plain_env [121] \<lparr>choice_value = [98], choice_label = [110]\<rparr>"
proof
  let ?q = "example_question\<lparr>ask_kind := Information, ask_choices :=
     [\<lparr>choice_value = [97], choice_label = [121]\<rparr>, \<lparr>choice_value = [98], choice_label = [110]\<rparr>]\<rparr>"
  have "ask_is_valid plain_env ?q"
    by (simp add: ask_is_valid_def example_defs text_eval normalized_def to_lowercase_def
        is_closing_mark_def Let_def to_ascii_lowercase_def)
  moreover have "choice_matches plain_env [121] (ask_choices ?q ! 0)"
    by (simp add: choice_matches_def normalized_def to_lowercase_def text_eval is_closing_mark_def to_ascii_lowercase_def)
  moreover assume "choice_matches plain_env [121] \<lparr>choice_value = [98], choice_label = [110]\<rparr>"
  ultimately show False
    using accepted_choices_are_unambiguous [of plain_env ?q 0 1 "[121]"] by simp
qed

section \<open>Two ways an accepted answer is lost\<close>

text \<open>C9: The sweep of expired questions cancels a waiting job for any question of it that is over,
  also when a newer question of the job is still pending and may still be answered.\<close>

theorem sweep_cancels_work_with_a_newer_question:
  assumes "j \<in> set (jobs db)" "j_status j = AwaitingInput"
    and old: "i \<in> set (inputs db)" "o_job i = Some (j_id j)" "o_status i \<in> {Expired, InputCancelled, Declined}"
    and newer: "n \<in> set (inputs db)" "o_status n = Pending" "now < o_expires_at n"
  shows "j\<lparr>j_status := Cancelled, j_delivery := Suppressed\<rparr> \<in> set (jobs (expire_owner_inputs now db)) \<and>
    n \<in> set (inputs (expire_owner_inputs now db))"
proof
  let ?p = "\<lambda>i. o_status i = Pending \<and> o_expires_at i \<le> now"
  let ?is = "sql_update ?p (\<lambda>i. i\<lparr>o_status := Expired\<rparr>) (inputs db)"
  have "i \<in> set ?is" using in_sql_update [OF old(1), of ?p "\<lambda>i. i\<lparr>o_status := Expired\<rparr>"] old(3) by auto
  then have over: "list_ex (\<lambda>i. o_job i = Some (j_id j) \<and> o_status i \<in> {Expired, InputCancelled, Declined}) ?is"
    using old(2,3) by (auto simp: list_ex_iff)
  show "j\<lparr>j_status := Cancelled, j_delivery := Suppressed\<rparr> \<in> set (jobs (expire_owner_inputs now db))"
    unfolding expire_owner_inputs_def Let_def updated_tables
    by (rule in_sql_update_if [OF assms(1), where f = "\<lambda>j. j\<lparr>j_status := Cancelled, j_delivery := Suppressed\<rparr>"])
      (use over assms(2) in simp)
  show "n \<in> set (inputs (expire_owner_inputs now db))"
    using in_sql_update [OF newer(1), of ?p "\<lambda>i. i\<lparr>o_status := Expired\<rparr>"] newer(3)
    unfolding expire_owner_inputs_def Let_def updated_tables by simp
qed

lemma reasked_db: "reasked_db = running_db\<lparr>inputs :=
    [(new_input 0 5 [113] example_origin (with_default_choices example_question))\<lparr>o_status := InputCancelled\<rparr>,
     new_input 0 6 [114] example_origin (with_default_choices example_question)]\<rparr>"
  by (simp add: reasked_db_def asked_db cancel_owner_input_def cancel_input_transaction_def owner_input_of_def
      find_row_def visible_in_def new_input_def ask_owner_def ask_is_valid_def with_default_choices_def
      default_choices_def ask_transaction_def example_defs text_eval running_db_def submitted_db claim_def
      empty_db_def resolve_def normalized_def to_lowercase_def lit_def is_closing_mark_def Let_def
      to_ascii_lowercase_def new_job_def)

lemma stale_db: "stale_db = running_db\<lparr>
    jobs := [(new_job 0 1 2 [107] example_work 1800 64 example_route)\<lparr>j_status := AwaitingInput\<rparr>],
    inputs := [(new_input 0 5 [113] example_origin (with_default_choices example_question))\<lparr>
        o_status := InputCancelled, o_origin_settled := True\<rparr>,
      (new_input 0 6 [114] example_origin (with_default_choices example_question))\<lparr>o_origin_settled := True\<rparr>]\<rparr>"
  by (simp add: stale_db_def reasked_db running_db_def submitted_db claim_def finish_def empty_db_def new_job_def
      has_open_input_def new_input_def open_input_def example_defs Let_def)

lemma stale_db_reachable: "reachable_work plain_env example_limits stale_db"
proof -
  note reach_step [where step = "work_step plain_env example_limits", trans]
  have "reachable_work plain_env example_limits empty_db" by (rule reach_init) simp
  also have "work_step plain_env example_limits empty_db submitted_db" unfolding submitted_db_def by (rule submits)
  also have "work_step plain_env example_limits submitted_db running_db" unfolding running_db_def by (rule claims)
  also have "work_step plain_env example_limits running_db asked_db" unfolding asked_db_def by (rule asks)
  also have "work_step plain_env example_limits asked_db (snd (cancel_owner_input 5 7 asked_db))" by (rule cancels_input)
  also have "work_step plain_env example_limits (snd (cancel_owner_input 5 7 asked_db)) reasked_db"
    unfolding reasked_db_def by (rule asks)
  also have "work_step plain_env example_limits reasked_db stale_db"
    unfolding stale_db_def by (rule finishes) (simp add: finished_status_def)
  finally show ?thesis .
qed

theorem sweep_cancels_work_with_a_newer_question_witness:
  "reachable_work plain_env example_limits stale_db \<and>
   (\<exists>j \<in> set (jobs (expire_owner_inputs 1 stale_db)). j_id j = 1 \<and> j_status j = Cancelled) \<and>
   (\<exists>n \<in> set (inputs (expire_owner_inputs 1 stale_db)). o_job n = Some 1 \<and> o_status n = Pending)"
proof -
  let ?j = "hd (jobs stale_db)" and ?i = "hd (inputs stale_db)" and ?n = "hd (tl (inputs stale_db))"
  have "?j \<in> set (jobs stale_db)" "j_status ?j = AwaitingInput" "j_id ?j = 1" "?i \<in> set (inputs stale_db)"
    "o_job ?i = Some (j_id ?j)" "o_status ?i \<in> {Expired, InputCancelled, Declined}" "?n \<in> set (inputs stale_db)"
    "o_status ?n = Pending" "1 < o_expires_at ?n" "o_job ?n = Some 1"
    by (simp_all add: stale_db new_job_def new_input_def with_default_choices_def example_defs)
  note f = this
  have *: "?j\<lparr>j_status := Cancelled, j_delivery := Suppressed\<rparr> \<in> set (jobs (expire_owner_inputs 1 stale_db)) \<and>
      ?n \<in> set (inputs (expire_owner_inputs 1 stale_db))"
    by (rule sweep_cancels_work_with_a_newer_question [OF f(1,2,4,5,6,7,8,9)])
  then show ?thesis
    using f(3,8,10) stale_db_reachable
    by (intro conjI bexI [of _ "?j\<lparr>j_status := Cancelled, j_delivery := Suppressed\<rparr>"] bexI [of _ ?n]) simp_all
qed

text \<open>C10: A saved answer that belongs to no job and whose continuation does not fit the context limit makes the
  release fail when it is the first that can be released and the queue has room: the release changes
  nothing, so neither it nor any answer behind it becomes work, and the next release finds the same answer first.\<close>

theorem oversized_answer_blocks_every_release:
  assumes "releasable db = i # rest" "o_job i = None" "outstanding db < MAX_OUTSTANDING"
    and "MAX_CONTEXT_BYTES < str_len (in_context (continuation env limits i))"
  shows "release_owner_answers env limits now fresh route db =
    (Inl (Validation ''background work requires a title, task and bounded context''), db)"
  using assms by (simp add: release_owner_answers_def enqueue_in_def)

text \<open>The sizes an accepted question and an accepted answer may have do not rule this out.\<close>

fun json_strings :: "json \<Rightarrow> rtext" where
  "json_strings (JStr s) = s"
| "json_strings (JObj kvs) = concat (map (\<lambda>(k, v). case v of JStr s \<Rightarrow> s | _ \<Rightarrow> []) kvs)"
| "json_strings _ = []"

definition long_question :: owner_input where
  "long_question = (new_input 0 5 [113] \<lparr>origin_run = 3, origin_job = None, origin_channel = 7, origin_goal = None\<rparr>
     (example_question\<lparr>ask_kind := Information, ask_question := replicate 500 97, ask_context := replicate 8000 97\<rparr>))
     \<lparr>o_status := Answered, o_origin_settled := True, o_response := Some (replicate 8192 97)\<rparr>"

lemma str_len_escape_markers: "b \<noteq> [] \<Longrightarrow> str_len s \<le> str_len (escape_markers b s)"
proof (induction s)
  case (Cons c s)
  then obtain x b' where "b = x # b'" by (cases b) auto
  then have "1 \<le> str_len b" using utf8_len_pos [of x] by (simp add: Suc_leI)
  with Cons show ?case by (auto simp: utf8_len_def)
qed simp

lemma str_len_replicate: "str_len (replicate n c) = n * utf8_len c"
  by (induction n) auto

lemma long_continuation:
  "MAX_CONTEXT_BYTES < str_len (in_context (continuation (plain_env\<lparr>env_json := json_strings\<rparr>) example_limits long_question))"
proof -
  let ?json = "json_strings (answer_json (plain_env\<lparr>env_json := json_strings\<rparr>) long_question)"
  have "8692 \<le> str_len ?json"
    by (simp add: answer_json_def long_question_def new_input_def example_question_def str_len_replicate utf8_len_def
        json_text_opt_def)
  also have "\<dots> \<le> str_len (escape_markers (backslash # lit ''u005b'') ?json)"
    by (rule str_len_escape_markers) simp
  finally show ?thesis
    by (simp add: continuation_def event_block_def inert_json_def MAX_CONTEXT_BYTES_def)
      (simp add: long_question_def new_input_def str_len_replicate utf8_len_def)
qed

theorem oversized_answer_blocks_every_release_witness:
  "\<exists>env db. inputs db = [long_question] \<and> str_len (o_question long_question) \<le> 2000 \<and>
     str_len (ask_context (o_definition long_question)) \<le> 8000 \<and>
     o_response long_question = Some (replicate 8192 97) \<and>
     release_owner_answers env example_limits 0 (\<lambda>_. (8, 9)) example_route db =
       (Inl (Validation ''background work requires a title, task and bounded context''), db)"
proof -
  let ?env = "plain_env\<lparr>env_json := json_strings\<rparr>" and ?db = "empty_db\<lparr>inputs := [long_question]\<rparr>"
  have "release_owner_answers ?env example_limits 0 (\<lambda>_. (8, 9)) example_route ?db =
      (Inl (Validation ''background work requires a title, task and bounded context''), ?db)"
  proof (rule oversized_answer_blocks_every_release [OF _ _ _ long_continuation])
    show "releasable ?db = [long_question]" "o_job long_question = None" "outstanding ?db < MAX_OUTSTANDING"
      by (simp_all add: releasable_def empty_db_def long_question_def new_input_def outstanding_def MAX_OUTSTANDING_def)
  qed
  then show ?thesis
    by (intro exI [of _ ?env] exI [of _ ?db])
      (simp add: long_question_def new_input_def str_len_replicate utf8_len_def)
qed

end
