(* ===== verification/Run_Registry.thy ===== *)
theory Run_Registry
  imports BoBe_Prelude BoBe_Text
begin

text \<open>
  The runs in progress: \<open>src/BoBeService/src/runtime/run_registry.rs\<close>, and the handlers of
  \<open>api/handlers/conversation.rs\<close> that cancel a run and give it guidance while it works. A
  cancellation token is a reference; the registry maps a reference to whether it is cancelled, as
  clones of a token share their state. The mutex makes every method one step. \<open>sha256\<close> is the
  digest function of the sha2 crate.
\<close>

section \<open>State\<close>

type_synonym cancellation_ref = nat

datatype run_kind = UserRun | ProactiveRun | BackgroundRun | DeliveryRun | VoiceRun

record active_run =
  run_cancellation :: cancellation_ref
  run_channel :: "uuid option"
  run_kind_of :: run_kind
  run_stopping :: bool
  run_queued :: bool
  run_inputs :: "(uuid, byte list \<times> bool option) hmap"

record run_registry =
  active_runs :: "(uuid, active_run) hmap"
  token_cancelled :: "cancellation_ref \<Rightarrow> bool"

record run_status =
  st_id :: uuid
  st_channel :: "uuid option"
  st_kind :: run_kind
  st_stopping :: bool
  st_queued :: bool

definition new_registry :: run_registry where
  "new_registry = \<lparr>active_runs = [], token_cancelled = (\<lambda>_. False)\<rparr>"

definition cancel_ref :: "cancellation_ref \<Rightarrow> run_registry \<Rightarrow> run_registry" where
  "cancel_ref t r = r\<lparr>token_cancelled := (token_cancelled r)(t := True)\<rparr>"

section \<open>Operations\<close>

definition register_cancellation ::
  "uuid \<Rightarrow> cancellation_ref \<Rightarrow> run_kind \<Rightarrow> uuid option \<Rightarrow> run_registry \<Rightarrow> (app_error + unit) \<times> run_registry" where
  "register_cancellation run_id token kind channel r =
     (if hm_get (active_runs r) run_id \<noteq> None
      then (Inl (Conflict ''run is already registered''), r)
      else (Inr (), r\<lparr>active_runs := hm_insert run_id
        \<lparr>run_cancellation = token, run_channel = channel, run_kind_of = kind, run_stopping = False,
         run_queued = (kind = UserRun), run_inputs = []\<rparr> (active_runs r)\<rparr>))"

definition cancel_run_id :: "uuid \<Rightarrow> run_registry \<Rightarrow> bool \<times> run_registry" where
  "cancel_run_id run_id r =
     (case hm_get (active_runs r) run_id of
        None \<Rightarrow> (False, r)
      | Some run \<Rightarrow> (True, cancel_ref (run_cancellation run)
          (r\<lparr>active_runs := hm_modify run_id (\<lambda>x. x\<lparr>run_stopping := True\<rparr>) (active_runs r)\<rparr>)))"

definition started :: "uuid \<Rightarrow> run_registry \<Rightarrow> run_registry" where
  "started run_id r = r\<lparr>active_runs := hm_modify run_id (\<lambda>x. x\<lparr>run_queued := False\<rparr>) (active_runs r)\<rparr>"

definition input_digest :: "(nat list \<Rightarrow> byte list) \<Rightarrow> rtext \<Rightarrow> bool \<Rightarrow> byte list" where
  "input_digest sha256 t follow_up = sha256 ((if follow_up then 1 else 0) # as_bytes t)"

definition MAX_RUN_INPUTS :: nat where "MAX_RUN_INPUTS = 128"

definition begin_input ::
  "(nat list \<Rightarrow> byte list) \<Rightarrow> uuid \<Rightarrow> uuid \<Rightarrow> rtext \<Rightarrow> bool \<Rightarrow> run_registry \<Rightarrow> (app_error + bool) \<times> run_registry" where
  "begin_input sha256 run_id input_id t follow_up r =
     (let digest = input_digest sha256 t follow_up in
      case hm_get (active_runs r) run_id of
        None \<Rightarrow> (Inl (NotFound ''run is no longer active''), r)
      | Some run \<Rightarrow>
          (case hm_get (run_inputs run) input_id of
             Some (previous, result) \<Rightarrow>
               if previous \<noteq> digest
               then (Inl (Conflict ''input identity was reused with different content''), r)
               else (case result of
                   Some True \<Rightarrow> (Inr False, r)
                 | Some False \<Rightarrow> (Inl (RequestReplayUnsafe ''The earlier input was not confirmed. Inspect the current run before sending new guidance.''), r)
                 | None \<Rightarrow> (Inl (Conflict ''this input is still being submitted''), r))
           | None \<Rightarrow>
               if run_stopping run \<or> token_cancelled r (run_cancellation run)
               then (Inl (Conflict ''run is stopping''), r)
               else if MAX_RUN_INPUTS \<le> length (run_inputs run)
               then (Inl (Conflict ''run input limit reached''), r)
               else (Inr True, r\<lparr>active_runs := hm_modify run_id
                 (\<lambda>x. x\<lparr>run_inputs := hm_insert input_id (digest, None) (run_inputs x)\<rparr>) (active_runs r)\<rparr>)))"

definition finish_input :: "uuid \<Rightarrow> uuid \<Rightarrow> bool \<Rightarrow> run_registry \<Rightarrow> run_registry" where
  "finish_input run_id input_id success r =
     r\<lparr>active_runs := hm_modify run_id
        (\<lambda>x. x\<lparr>run_inputs := hm_modify input_id (\<lambda>(digest, _). (digest, Some success)) (run_inputs x)\<rparr>)
        (active_runs r)\<rparr>"

definition is_automation :: "uuid \<Rightarrow> active_run \<Rightarrow> bool" where
  "is_automation channel run \<longleftrightarrow>
     run_channel run = Some channel \<and> run_kind_of run \<in> {ProactiveRun, DeliveryRun}"

definition interrupt_automation :: "uuid \<Rightarrow> run_registry \<Rightarrow> run_registry" where
  "interrupt_automation channel r =
     fold (\<lambda>run_id r. snd (cancel_run_id run_id r))
       (map fst (filter (\<lambda>(_, run). is_automation channel run) (active_runs r))) r"

definition in_scope :: "uuid option \<Rightarrow> active_run \<Rightarrow> bool" where
  "in_scope channel run \<longleftrightarrow> channel = None \<or> run_channel run = channel"

definition kind_of_run :: "uuid \<Rightarrow> uuid option \<Rightarrow> run_registry \<Rightarrow> run_kind option" where
  "kind_of_run run_id channel r =
     (case hm_get (active_runs r) run_id of
        None \<Rightarrow> None | Some run \<Rightarrow> if in_scope channel run then Some (run_kind_of run) else None)"

definition list_runs :: "uuid option \<Rightarrow> run_registry \<Rightarrow> run_status list" where
  "list_runs channel r =
     map (\<lambda>(run_id, run). \<lparr>st_id = run_id, st_channel = run_channel run, st_kind = run_kind_of run,
          st_stopping = (run_stopping run \<or> token_cancelled r (run_cancellation run)),
          st_queued = run_queued run\<rparr>)
       (filter (\<lambda>(_, run). in_scope channel run) (active_runs r))"

definition finish_run :: "uuid \<Rightarrow> run_registry \<Rightarrow> run_registry" where
  "finish_run run_id r = r\<lparr>active_runs := hm_remove run_id (active_runs r)\<rparr>"

text \<open>\<open>RunRegistration::drop\<close>.\<close>

definition drop_registration :: "uuid \<Rightarrow> cancellation_ref \<Rightarrow> run_registry \<Rightarrow> run_registry" where
  "drop_registration run_id token r = finish_run run_id (cancel_ref token r)"

section \<open>Handlers\<close>

text \<open>\<open>cancel_run\<close>: stopping a background run also cancels its job (\<open>job_cancel\<close>, whose error is the
  handler's). \<open>submit_run_input\<close>: \<open>steer\<close> is what the worker does with new guidance.\<close>

definition cancel_run ::
  "(uuid \<Rightarrow> app_error + unit) \<Rightarrow> uuid \<Rightarrow> uuid option \<Rightarrow> run_registry \<Rightarrow> (app_error + unit) \<times> run_registry" where
  "cancel_run job_cancel run_id channel r =
     (case kind_of_run run_id channel r of
        None \<Rightarrow> (Inl (NotFound ''active run was not found in this channel''), r)
      | Some kind \<Rightarrow>
          (case (if kind = BackgroundRun then job_cancel run_id else Inr ()) of
             Inl e \<Rightarrow> (Inl e, r)
           | Inr _ \<Rightarrow> (let (found, r1) = cancel_run_id run_id r
               in if found then (Inr (), r1) else (Inl (NotFound ''active run was not found''), r1))))"

definition accept_run_input ::
  "(nat list \<Rightarrow> byte list) \<Rightarrow> uuid \<Rightarrow> uuid \<Rightarrow> rtext \<Rightarrow> bool \<Rightarrow> uuid option \<Rightarrow> run_registry \<Rightarrow>
     (app_error + bool) \<times> run_registry" where
  "accept_run_input sha256 run_id input_id t follow_up channel r =
     (if trim t = [] \<or> str_len t > 32768
      then (Inl (Validation ''run input requires 1-32768 bytes of text''), r)
      else if kind_of_run run_id channel r = None
      then (Inl (NotFound ''active run was not found in this channel''), r)
      else begin_input sha256 run_id input_id t follow_up r)"

definition settle_run_input :: "uuid \<Rightarrow> uuid \<Rightarrow> app_error + unit \<Rightarrow> run_registry \<Rightarrow> (app_error + unit) \<times> run_registry" where
  "settle_run_input run_id input_id steered r = (steered, finish_input run_id input_id (is_ok steered) r)"

section \<open>Steps\<close>

text \<open>Everything that happens to the registry while run \<open>run\<close> stays registered.\<close>

inductive registry_step :: "(nat list \<Rightarrow> byte list) \<Rightarrow> uuid \<Rightarrow> run_registry \<Rightarrow> run_registry \<Rightarrow> bool"
  for sha256 and run where
  "registry_step sha256 run r (snd (register_cancellation i token kind channel r))"
| "registry_step sha256 run r (snd (cancel_run_id i r))"
| "registry_step sha256 run r (started i r)"
| "registry_step sha256 run r (snd (accept_run_input sha256 i input t follow_up channel r))"
| "registry_step sha256 run r (finish_input i input ok r)"
| "registry_step sha256 run r (interrupt_automation channel r)"
| "registry_step sha256 run r (snd (cancel_run job_cancel i channel r))"
| "i \<noteq> run \<Longrightarrow> registry_step sha256 run r (drop_registration i token r)"

text \<open>What stays: an input that a run has taken keeps its digest.\<close>

definition taken :: "uuid \<Rightarrow> uuid \<Rightarrow> byte list \<Rightarrow> run_registry \<Rightarrow> bool" where
  "taken run input digest r \<longleftrightarrow>
     (\<exists>x result. hm_get (active_runs r) run = Some x \<and> hm_get (run_inputs x) input = Some (digest, result))"

lemma taken_modify:
  "taken run input d r \<Longrightarrow> (\<And>x result. hm_get (active_runs r) i = Some x \<Longrightarrow> i = run \<Longrightarrow>
     hm_get (run_inputs x) input = Some (d, result) \<Longrightarrow>
     \<exists>result'. hm_get (run_inputs (f x)) input = Some (d, result')) \<Longrightarrow>
   taken run input d (r\<lparr>active_runs := hm_modify i f (active_runs r)\<rparr>)"
  unfolding taken_def by (auto simp: hm_get_modify)

lemma taken_tokens [simp]: "taken run input d (r\<lparr>token_cancelled := t\<rparr>) = taken run input d r"
  "taken run input d (cancel_ref t' r) = taken run input d r"
  by (simp_all add: taken_def cancel_ref_def)

lemma taken_cancel: "taken run input d r \<Longrightarrow> taken run input d (snd (cancel_run_id i r))"
  by (auto simp: cancel_run_id_def intro!: taken_modify split: option.splits)

lemma taken_interrupt:
  assumes "taken run input d r"
  shows "taken run input d (interrupt_automation channel r)"
proof -
  have "taken run input d (fold (\<lambda>i r. snd (cancel_run_id i r)) ids r)" for ids
    using assms by (induction ids arbitrary: r) (auto intro: taken_cancel)
  then show ?thesis by (simp add: interrupt_automation_def)
qed

lemma taken_begin:
  "taken run input d r \<Longrightarrow> taken run input d (snd (begin_input sha256 i j t follow_up r))"
  by (auto simp: begin_input_def Let_def hm_get_insert intro!: taken_modify split: option.splits bool.splits)

lemma taken_step: "registry_step sha256 run r r' \<Longrightarrow> taken run input d r \<Longrightarrow> taken run input d r'"
proof (induction rule: registry_step.induct)
  case (1 r i token kind channel)
  then show ?case by (auto simp: register_cancellation_def taken_def hm_get_insert)
next
  case (7 r job_cancel i channel)
  then show ?case
    by (auto simp: cancel_run_def case_prod_unfold Let_def intro: taken_cancel split: option.splits sum.splits if_splits)
next
  case (8 i r token)
  then show ?case by (auto simp: drop_registration_def finish_run_def cancel_ref_def taken_def hm_get_remove)
qed (auto simp: started_def finish_input_def accept_run_input_def hm_get_modify
    intro: taken_cancel taken_interrupt taken_begin intro!: taken_modify)

text \<open>Guidance is handed to a run at most once: however often an input identity is submitted
  while the run is registered, and whatever happens in between, only the first submission is
  fresh.\<close>

theorem run_input_is_fresh_once:
  assumes "begin_input sha256 run input t follow_up r = (Inr True, r1)"
    and "(registry_step sha256 run)\<^sup>*\<^sup>* r1 r2"
  shows "begin_input sha256 run input t' follow_up' r2 \<noteq> (Inr True, r3)"
proof -
  let ?d = "input_digest sha256 t follow_up"
  from assms(1) have "taken run input ?d r1"
    by (auto simp: begin_input_def Let_def taken_def hm_get_modify hm_get_insert
        split: option.splits if_splits bool.splits)
  with assms(2) have "taken run input ?d r2"
    by (induction rule: rtranclp_induct) (auto intro: taken_step)
  then show ?thesis
    by (auto simp: begin_input_def Let_def taken_def split: bool.splits option.splits if_splits)
qed

theorem run_input_is_fresh_once_witness:
  "\<exists>r1 r2. begin_input (\<lambda>_. []) 1 5 [104] False
       (snd (register_cancellation 1 0 BackgroundRun None new_registry)) = (Inr True, r1) \<and>
     r2 = finish_input 1 5 True r1 \<and> begin_input (\<lambda>_. []) 1 5 [104] True r2 \<noteq> (Inr True, r2)"
proof -
  let ?r = "snd (register_cancellation 1 0 BackgroundRun None new_registry)"
  let ?r1 = "snd (begin_input (\<lambda>_. []) 1 5 [104] False ?r)"
  have b: "begin_input (\<lambda>_. []) 1 5 [104] False ?r = (Inr True, ?r1)"
    by (simp add: begin_input_def register_cancellation_def new_registry_def Let_def MAX_RUN_INPUTS_def)
  have "(registry_step (\<lambda>_. []) 1)\<^sup>*\<^sup>* ?r1 (finish_input 1 5 True ?r1)"
    by (rule r_into_rtranclp) (rule registry_step.intros)
  with run_input_is_fresh_once [OF b] b show ?thesis by blast
qed

end
