(* ===== verification/Message_Requests.thy ===== *)
theory Message_Requests
  imports Run_Registry Conversations
begin

text \<open>
  The owner's messages: \<open>src/BoBeService/src/runtime/message_requests.rs\<close>, with the retention of
  their rows in \<open>services/storage_retention.rs\<close>. A message is stored before it runs; a task per
  message waits for its turn, claims the row, binds the answer to a question if the message is
  one, and hands the text to the session.

  The task is a worker with a phase, one phase per stretch of code between two awaits, so that
  cancellation, shutdown and other messages can come in at every await. What the session, the
  turn queue and the personal-data lock answer are arguments of the steps. \<open>executed\<close> is a
  history variable: the identifiers whose text was handed to the session.
\<close>

section \<open>State\<close>

datatype request_status = RequestQueued | RequestRunning | RequestCompleted | RequestFailed

datatype request_outcome = OutcomeCompleted | OutcomeFailed | OutcomeDeferred

record message_request =
  rq_id :: uuid
  rq_channel :: uuid
  rq_device :: bool
  rq_digest :: "byte list"
  rq_content :: rtext
  rq_input :: "uuid option"
  rq_status :: request_status
  rq_created_at :: int
  rq_updated_at :: int

datatype worker_phase = AwaitingTurn | Admitted | Unclaimed | Claimed | Binding | Bound | Ready | Working

record request_worker =
  wk_id :: uuid
  wk_token :: cancellation_ref
  wk_phase :: worker_phase

record request_world =
  request_rows :: "message_request list"
  request_tombstones :: "uuid list"
  tables :: database
  registry :: run_registry
  workers :: "request_worker list"
  in_flight :: nat
  stopping :: bool
  executed :: "uuid list"

record request_acceptance =
  acc_message_id :: rtext
  acc_status :: request_status
  acc_replayed :: bool
  acc_started :: bool

text \<open>The sha2 crate, and how uuid prints an identifier.\<close>

record request_env =
  env_sha256 :: "nat list \<Rightarrow> byte list"
  env_print_id :: "uuid \<Rightarrow> rtext"

abbreviation update_requests ::
  "(message_request \<Rightarrow> bool) \<Rightarrow> (message_request \<Rightarrow> message_request) \<Rightarrow> request_world \<Rightarrow> request_world" where
  "update_requests p f w \<equiv> w\<lparr>request_rows := sql_update p f (request_rows w)\<rparr>"

definition unsafe_replay_error :: app_error where
  "unsafe_replay_error = RequestReplayUnsafe ''This message's earlier delivery was interrupted and cannot be retried safely. Check the conversation, then send it again as a new message if needed.''"

section \<open>Accepting a message\<close>

definition MAX_QUEUED_REQUESTS :: nat where "MAX_QUEUED_REQUESTS = 64"

definition queued_requests :: "request_world \<Rightarrow> message_request list" where
  "queued_requests w = filter (\<lambda>r. rq_status r = RequestQueued) (request_rows w)"

definition mark_failed :: "int \<Rightarrow> uuid \<Rightarrow> request_world \<Rightarrow> request_world" where
  "mark_failed now request w =
     update_requests (\<lambda>r. rq_id r = request) (\<lambda>r. r\<lparr>rq_status := RequestFailed, rq_updated_at := millis now\<rparr>) w"

definition start_request ::
  "app_error + unit \<Rightarrow> uuid \<Rightarrow> cancellation_ref \<Rightarrow> uuid \<Rightarrow> request_world \<Rightarrow> (app_error + unit) \<times> request_world" where
  "start_request queued request token channel w =
     (case queued of
        Inl e \<Rightarrow> (Inl e, w)
      | Inr _ \<Rightarrow>
          (case register_cancellation request token UserRun (Some channel) (registry w) of
             (Inl e, r) \<Rightarrow> (Inl e, w)
           | (Inr _, r) \<Rightarrow>
               (Inr (), w\<lparr>registry := r, in_flight := in_flight w + 1,
                  workers := workers w @ [\<lparr>wk_id = request, wk_token = token, wk_phase = AwaitingTurn\<rparr>]\<rparr>)))"

definition new_request ::
  "int \<Rightarrow> uuid \<Rightarrow> uuid \<Rightarrow> bool \<Rightarrow> byte list \<Rightarrow> rtext \<Rightarrow> uuid option \<Rightarrow> message_request" where
  "new_request now request channel device digest content owner_input =
     \<lparr>rq_id = request, rq_channel = channel, rq_device = device, rq_digest = digest,
      rq_content = content, rq_input = owner_input, rq_status = RequestQueued,
      rq_created_at = millis now, rq_updated_at = millis now\<rparr>"

definition submit_request ::
  "request_env \<Rightarrow> int \<Rightarrow> bool \<Rightarrow> app_error + uuid option \<Rightarrow> app_error + unit \<Rightarrow> uuid \<Rightarrow> rtext \<Rightarrow> bool \<Rightarrow>
     cancellation_ref \<Rightarrow> uuid \<Rightarrow> request_world \<Rightarrow> (app_error + request_acceptance) \<times> request_world" where
  "submit_request env now personal_free bound queue request content device token channel w =
     (if \<not> personal_free then (Inl (Conflict ''personal data maintenance is active''), w)
      else if stopping w
      then (Inl (ServiceUnavailable ''BoBe is stopping; retry this request after restart''), w)
      else if trim content = [] then (Inl (Validation ''content must not be empty''), w)
      else
        let digest = env_sha256 env (as_bytes content);
            message_id = message_id_for_turn (env_print_id env) request
        in case find (\<lambda>r. rq_id r = request) (request_rows w) of
             Some existing \<Rightarrow>
               if rq_channel existing \<noteq> channel \<or> rq_digest existing \<noteq> digest \<or> rq_content existing \<noteq> content
               then (Inl (Conflict ''request_id was already used for different content''), w)
               else if rq_status existing = RequestFailed then (Inl unsafe_replay_error, w)
               else (Inr \<lparr>acc_message_id = message_id, acc_status = rq_status existing,
                       acc_replayed = True, acc_started = False\<rparr>, w)
           | None \<Rightarrow>
               if request \<in> set (request_tombstones w) then (Inl unsafe_replay_error, w)
               else if MAX_QUEUED_REQUESTS \<le> length (queued_requests w)
               then (Inl (Conflict ''incoming message queue is full''), w)
               else case bound of
                 Inl e \<Rightarrow> (Inl e, w)
               | Inr owner_input \<Rightarrow>
                   let row = new_request now request channel device digest content owner_input;
                       w1 = w\<lparr>request_rows := request_rows w @ [row],
                         registry := interrupt_automation channel (registry w)\<rparr>
                   in case start_request queue request token channel w1 of
                        (Inl e, w2) \<Rightarrow> (Inl e, mark_failed now request w2)
                      | (Inr _, w2) \<Rightarrow>
                          (Inr \<lparr>acc_message_id = message_id, acc_status = RequestQueued,
                             acc_replayed = False, acc_started = True\<rparr>, w2))"

section \<open>Running a message\<close>

definition set_phase :: "uuid \<Rightarrow> worker_phase \<Rightarrow> request_world \<Rightarrow> request_world" where
  "set_phase request phase w =
     w\<lparr>workers := map (\<lambda>k. if wk_id k = request then k\<lparr>wk_phase := phase\<rparr> else k) (workers w)\<rparr>"

text \<open>The end of a task: its status is stored unless it is deferred to the next start; the
  registration is dropped.\<close>

definition settle_status :: "app_error + request_outcome \<Rightarrow> request_status" where
  "settle_status result = (case result of Inr OutcomeCompleted \<Rightarrow> RequestCompleted | _ \<Rightarrow> RequestFailed)"

definition store_outcome :: "int \<Rightarrow> uuid \<Rightarrow> app_error + request_outcome \<Rightarrow> request_world \<Rightarrow> request_world" where
  "store_outcome now request result w =
     (if result = Inr OutcomeDeferred then w
      else update_requests (\<lambda>r. rq_id r = request \<and> rq_status r \<in> {RequestQueued, RequestRunning})
             (\<lambda>r. r\<lparr>rq_status := settle_status result, rq_updated_at := millis now\<rparr>) w)"

definition end_worker :: "int \<Rightarrow> request_worker \<Rightarrow> app_error + request_outcome \<Rightarrow> request_world \<Rightarrow> request_world" where
  "end_worker now k result w =
     (let w1 = store_outcome now (wk_id k) result w
      in w1\<lparr>workers := filter (\<lambda>x. wk_id x \<noteq> wk_id k) (workers w1), in_flight := in_flight w1 - 1,
            registry := drop_registration (wk_id k) (wk_token k) (registry w1)\<rparr>)"

definition cancelled_run :: "request_worker \<Rightarrow> request_world \<Rightarrow> bool" where
  "cancelled_run k w \<longleftrightarrow> token_cancelled (registry w) (wk_token k)"

text \<open>The selection at the head of the task, and the personal-data lock.\<close>

definition await_turn :: "int \<Rightarrow> bool \<Rightarrow> request_worker \<Rightarrow> request_world \<Rightarrow> request_world" where
  "await_turn now admitted k w =
     (if cancelled_run k w then end_worker now k (Inr OutcomeFailed) w
      else if stopping w then end_worker now k (Inr OutcomeDeferred) w
      else if admitted then set_phase (wk_id k) Admitted w else w)"

definition enter_turn :: "int \<Rightarrow> bool \<Rightarrow> request_worker \<Rightarrow> request_world \<Rightarrow> request_world" where
  "enter_turn now personal_free k w =
     (if \<not> personal_free then end_worker now k (Inl (Conflict ''personal data maintenance is active'')) w
      else if stopping w then end_worker now k (Inr OutcomeDeferred) w
      else set_phase (wk_id k) Unclaimed w)"

definition claim_request :: "int \<Rightarrow> uuid \<Rightarrow> request_world \<Rightarrow> (app_error + unit) \<times> request_world" where
  "claim_request now request w =
     (let p = (\<lambda>r. rq_id r = request \<and> rq_status r = RequestQueued);
          w1 = update_requests p (\<lambda>r. r\<lparr>rq_status := RequestRunning, rq_updated_at := millis now\<rparr>) w
      in if length (filter p (request_rows w)) \<noteq> 1
         then (Inl (Conflict ''message request is no longer queued''), w1) else (Inr (), w1))"

definition run_claim :: "int \<Rightarrow> request_worker \<Rightarrow> request_world \<Rightarrow> request_world" where
  "run_claim now k w =
     (case claim_request now (wk_id k) w of
        (Inl e, w1) \<Rightarrow> end_worker now k (Inl e) w1
      | (Inr _, w1) \<Rightarrow> set_phase (wk_id k) Claimed w1)"

definition stop_before_execution ::
  "int \<Rightarrow> request_worker \<Rightarrow> request_world \<Rightarrow> request_outcome option \<times> request_world" where
  "stop_before_execution now k w =
     (if cancelled_run k w then (Some OutcomeFailed, w)
      else if \<not> stopping w then (None, w)
      else (Some OutcomeDeferred,
        update_requests (\<lambda>r. rq_id r = wk_id k \<and> rq_status r = RequestRunning)
          (\<lambda>r. r\<lparr>rq_status := RequestQueued, rq_updated_at := millis now\<rparr>) w))"

definition run_stop_check :: "int \<Rightarrow> worker_phase \<Rightarrow> request_worker \<Rightarrow> request_world \<Rightarrow> request_world" where
  "run_stop_check now next_phase k w =
     (case stop_before_execution now k w of
        (Some outcome, w1) \<Rightarrow> end_worker now k (Inr outcome) w1
      | (None, w1) \<Rightarrow> set_phase (wk_id k) next_phase w1)"

definition bind_answer :: "int \<Rightarrow> app_error + unit \<Rightarrow> request_worker \<Rightarrow> request_world \<Rightarrow> request_world" where
  "bind_answer now answer k w =
     (case answer of
        Inl e \<Rightarrow> end_worker now k (Inl e) w
      | Inr _ \<Rightarrow> set_phase (wk_id k) Bound w)"

definition begin_work :: "request_worker \<Rightarrow> request_world \<Rightarrow> request_world" where
  "begin_work k w =
     (set_phase (wk_id k) Working w)\<lparr>registry := started (wk_id k) (registry w), executed := wk_id k # executed w\<rparr>"

section \<open>Restart and retention\<close>

text \<open>Stopping the process ends the tasks, the registry and the tokens; the tables remain.\<close>

definition restart :: "request_world \<Rightarrow> request_world" where
  "restart w = w\<lparr>registry := new_registry, workers := [], in_flight := 0, stopping := False\<rparr>"

definition reconcile_interrupted_requests :: "int \<Rightarrow> request_world \<Rightarrow> request_world" where
  "reconcile_interrupted_requests now w =
     (let w1 = update_requests (\<lambda>r. rq_status r = RequestRunning \<and> turn_complete (rq_id r) (tables w))
            (\<lambda>r. r\<lparr>rq_status := RequestCompleted, rq_updated_at := millis now\<rparr>) w
      in update_requests (\<lambda>r. rq_status r = RequestRunning)
            (\<lambda>r. r\<lparr>rq_status := RequestFailed, rq_updated_at := millis now\<rparr>) w1)"

fun recover_loop ::
  "request_env \<Rightarrow> int \<Rightarrow> (uuid \<Rightarrow> app_error + unit) \<Rightarrow> (uuid \<Rightarrow> cancellation_ref) \<Rightarrow> message_request list \<Rightarrow>
     request_world \<Rightarrow> (app_error + unit) \<times> request_world" where
  "recover_loop env now queue fresh [] w = (Inr (), w)"
| "recover_loop env now queue fresh (r # rs) w =
     (if env_sha256 env (as_bytes (rq_content r)) \<noteq> rq_digest r
      then recover_loop env now queue fresh rs (mark_failed now (rq_id r) w)
      else case start_request (queue (rq_id r)) (rq_id r) (fresh (rq_id r)) (rq_channel r) w of
        (Inl e, w1) \<Rightarrow> (Inl e, w1)
      | (Inr _, w1) \<Rightarrow> recover_loop env now queue fresh rs w1)"

definition recover_requests ::
  "request_env \<Rightarrow> int \<Rightarrow> (uuid \<Rightarrow> app_error + unit) \<Rightarrow> (uuid \<Rightarrow> cancellation_ref) \<Rightarrow> request_world \<Rightarrow>
     (app_error + unit) \<times> request_world" where
  "recover_requests env now queue fresh w =
     (let w1 = reconcile_interrupted_requests now w;
          w2 = update_requests (\<lambda>r. rq_status r = RequestQueued \<and> rq_device r)
            (\<lambda>r. r\<lparr>rq_status := RequestFailed\<rparr>) w1
      in if MAX_QUEUED_REQUESTS < length (queued_requests w2)
         then (Inl (Config ''retained incoming queue exceeds its capacity''), w2)
         else recover_loop env now queue fresh (queued_requests w2) w2)"

definition completed_response :: "uuid \<Rightarrow> database \<Rightarrow> rtext option" where
  "completed_response request db =
     map_option t_content (find (\<lambda>t. t_id t = request \<and> t_role t = AssistantRole \<and> t_complete t) (conversation_turns db))"

definition retire_requests :: "(message_request \<Rightarrow> bool) \<Rightarrow> request_world \<Rightarrow> request_world" where
  "retire_requests p w =
     w\<lparr>request_tombstones := insert_or_ignore (map rq_id (filter p (request_rows w))) (request_tombstones w),
       request_rows := filter (\<lambda>r. \<not> p r) (request_rows w)\<rparr>"

definition prune_requests :: "int \<Rightarrow> request_world \<Rightarrow> request_world" where
  "prune_requests cutoff w =
     retire_requests (\<lambda>r. rq_created_at r < millis cutoff \<and> rq_status r \<in> {RequestCompleted, RequestFailed}) w"

definition purge_requests :: "request_world \<Rightarrow> request_world" where
  "purge_requests w = retire_requests (\<lambda>_. True) w"

section \<open>Steps\<close>

inductive request_step :: "request_env \<Rightarrow> request_world \<Rightarrow> request_world \<Rightarrow> bool" for env :: request_env where
  submits: "request_step env w (snd (submit_request env now personal_free bound queue request content device token channel w))"
| awaits: "k \<in> set (workers w) \<Longrightarrow> wk_phase k = AwaitingTurn \<Longrightarrow> request_step env w (await_turn now admitted k w)"
| enters: "k \<in> set (workers w) \<Longrightarrow> wk_phase k = Admitted \<Longrightarrow> request_step env w (enter_turn now personal_free k w)"
| claims_row: "k \<in> set (workers w) \<Longrightarrow> wk_phase k = Unclaimed \<Longrightarrow> request_step env w (run_claim now k w)"
| checks: "k \<in> set (workers w) \<Longrightarrow> wk_phase k = Claimed \<Longrightarrow> request_step env w (run_stop_check now Binding k w)"
| binds: "k \<in> set (workers w) \<Longrightarrow> wk_phase k = Binding \<Longrightarrow> request_step env w (bind_answer now answer k w)"
| rechecks: "k \<in> set (workers w) \<Longrightarrow> wk_phase k = Bound \<Longrightarrow> request_step env w (run_stop_check now Ready k w)"
| begins: "k \<in> set (workers w) \<Longrightarrow> wk_phase k = Ready \<Longrightarrow> request_step env w (begin_work k w)"
| finishes_work: "k \<in> set (workers w) \<Longrightarrow> wk_phase k = Working \<Longrightarrow> result \<noteq> Inr OutcomeDeferred \<Longrightarrow>
    request_step env w (end_worker now k result w)"
| stops: "request_step env w (w\<lparr>stopping := True\<rparr>)"
| restarts: "request_step env w (restart w)"
| recovers_requests: "request_step env w (snd (recover_requests env now queue fresh (restart w)))"
| retains: "request_step env w (prune_requests cutoff w)"
| purges: "request_step env w (purge_requests w)"
| other_tables: "request_step env w (w\<lparr>tables := db\<rparr>)"
| other_runs: "(\<And>k. k \<in> set (workers w) \<Longrightarrow> registry_step (env_sha256 env) (wk_id k) (registry w) r) \<Longrightarrow>
    request_step env w (w\<lparr>registry := r\<rparr>)"

section \<open>Invariant\<close>

definition known_request :: "uuid \<Rightarrow> request_world \<Rightarrow> bool" where
  "known_request i w \<longleftrightarrow> i \<in> rq_id ` set (request_rows w) \<or> i \<in> set (request_tombstones w)"

definition not_queued :: "uuid \<Rightarrow> request_world \<Rightarrow> bool" where
  "not_queued i w \<longleftrightarrow> (\<forall>r \<in> set (request_rows w). rq_id r = i \<longrightarrow> rq_status r \<noteq> RequestQueued)"

definition registered :: "uuid \<Rightarrow> run_registry \<Rightarrow> bool" where
  "registered i r \<longleftrightarrow> hm_get (active_runs r) i \<noteq> None"

definition claimed_phase :: "worker_phase \<Rightarrow> bool" where
  "claimed_phase p \<longleftrightarrow> p \<in> {Claimed, Binding, Bound, Ready, Working}"

definition worker_ok :: "request_world \<Rightarrow> request_worker \<Rightarrow> bool" where
  "worker_ok w k \<longleftrightarrow> known_request (wk_id k) w \<and> registered (wk_id k) (registry w) \<and>
     (claimed_phase (wk_phase k) \<longrightarrow> not_queued (wk_id k) w) \<and>
     (wk_phase k \<noteq> Working \<longrightarrow> wk_id k \<notin> set (executed w))"

definition request_inv :: "request_world \<Rightarrow> bool" where
  "request_inv w \<longleftrightarrow> distinct (map rq_id (request_rows w)) \<and> distinct (map wk_id (workers w)) \<and>
     distinct (executed w) \<and> (\<forall>i \<in> set (executed w). known_request i w \<and> not_queued i w) \<and>
     (\<forall>k \<in> set (workers w). worker_ok w k)"

lemma request_invD:
  assumes "request_inv w"
  shows "distinct (map rq_id (request_rows w))" "distinct (map wk_id (workers w))" "distinct (executed w)"
    "i \<in> set (executed w) \<Longrightarrow> known_request i w" "i \<in> set (executed w) \<Longrightarrow> not_queued i w"
    "k \<in> set (workers w) \<Longrightarrow> worker_ok w k"
  using assms by (auto simp: request_inv_def)

text \<open>A step that keeps the history: rows stay known and are not queued again behind a claim,
  registrations stay.\<close>

lemma request_inv_frame:
  assumes inv: "request_inv w"
    and rows: "distinct (map rq_id (request_rows w'))"
    and ws: "distinct (map wk_id (workers w'))" and ex: "executed w' = executed w"
    and known: "\<And>i. known_request i w \<Longrightarrow> known_request i w'"
    and nq: "\<And>i. i \<in> set (executed w) \<Longrightarrow> not_queued i w \<Longrightarrow> not_queued i w'"
    and wk: "\<And>k. k \<in> set (workers w') \<Longrightarrow> worker_ok w' k"
  shows "request_inv w'"
  using assms by (auto simp: request_inv_def)

text \<open>Row updates.\<close>

lemma known_update [simp]:
  "(\<And>r. p r \<Longrightarrow> rq_id (f r) = rq_id r) \<Longrightarrow> known_request i (update_requests p f w) = known_request i w"
  by (simp add: known_request_def) (metis (mono_tags, lifting) list.set_map sql_update_key)

lemma rows_update [simp]:
  "(\<And>r. p r \<Longrightarrow> rq_id (f r) = rq_id r) \<Longrightarrow> map rq_id (sql_update p f rows) = map rq_id rows"
  by (rule sql_update_key)

lemma not_queued_update:
  assumes "not_queued i w" "\<And>r. p r \<Longrightarrow> rq_id (f r) = rq_id r"
    and "\<And>r. p r \<Longrightarrow> rq_id r = i \<Longrightarrow> rq_status (f r) \<noteq> RequestQueued"
  shows "not_queued i (update_requests p f w)"
  using assms unfolding not_queued_def by (auto simp: set_sql_update)

lemma worker_ok_update:
  assumes "worker_ok w k" "\<And>r. p r \<Longrightarrow> rq_id (f r) = rq_id r"
    and "\<And>r. p r \<Longrightarrow> rq_id r = wk_id k \<Longrightarrow> rq_status (f r) \<noteq> RequestQueued"
  shows "worker_ok (update_requests p f w) k"
  using assms not_queued_update [of "wk_id k" w p f] by (auto simp: worker_ok_def)

lemma inv_update:
  assumes inv: "request_inv w" and "\<And>r. p r \<Longrightarrow> rq_id (f r) = rq_id r"
    and st: "\<And>r. p r \<Longrightarrow> rq_status (f r) \<noteq> RequestQueued"
  shows "request_inv (update_requests p f w)"
proof (rule request_inv_frame [OF inv])
  show "worker_ok (update_requests p f w) k" if "k \<in> set (workers (update_requests p f w))" for k
    using that worker_ok_update [of w k p f] request_invD(6) [OF inv] assms by simp
qed (use assms request_invD [OF inv] in \<open>auto intro: not_queued_update\<close>)

text \<open>Workers and the registry.\<close>

lemma world_frame [simp]:
  "known_request i (w\<lparr>workers := ks\<rparr>) = known_request i w" "not_queued i (w\<lparr>workers := ks\<rparr>) = not_queued i w"
  "known_request i (w\<lparr>in_flight := n\<rparr>) = known_request i w" "not_queued i (w\<lparr>in_flight := n\<rparr>) = not_queued i w"
  "known_request i (w\<lparr>registry := r\<rparr>) = known_request i w" "not_queued i (w\<lparr>registry := r\<rparr>) = not_queued i w"
  "known_request i (w\<lparr>stopping := b\<rparr>) = known_request i w" "not_queued i (w\<lparr>stopping := b\<rparr>) = not_queued i w"
  "known_request i (w\<lparr>executed := is\<rparr>) = known_request i w" "not_queued i (w\<lparr>executed := is\<rparr>) = not_queued i w"
  "known_request i (w\<lparr>tables := db\<rparr>) = known_request i w" "not_queued i (w\<lparr>tables := db\<rparr>) = not_queued i w"
  by (simp_all add: known_request_def not_queued_def)

lemma registered_drop: "registered i r \<Longrightarrow> i \<noteq> j \<Longrightarrow> registered i (drop_registration j t r)"
  by (simp add: registered_def drop_registration_def finish_run_def cancel_ref_def hm_get_remove)

lemma registered_modify [simp]:
  "registered i (r\<lparr>active_runs := hm_modify j f (active_runs r)\<rparr>) = registered i r"
  by (simp add: registered_def hm_get_modify)

lemma registered_cancel_ref [simp]: "registered i (cancel_ref t r) = registered i r"
  by (simp add: registered_def cancel_ref_def)

lemma registered_cancel [simp]: "registered i (snd (cancel_run_id j r)) = registered i r"
  by (auto simp: cancel_run_id_def split: option.splits)

lemma registered_interrupt [simp]: "registered i (interrupt_automation channel r) = registered i r"
proof -
  have "registered i (fold (\<lambda>j r. snd (cancel_run_id j r)) ids r) = registered i r" for ids
    by (induction ids arbitrary: r) auto
  then show ?thesis by (simp add: interrupt_automation_def)
qed

lemma registered_step: "registry_step sha i r r' \<Longrightarrow> registered i r \<Longrightarrow> registered i r'"
proof (induction rule: registry_step.induct)
  case (1 r j token kind channel)
  then show ?case by (auto simp: register_cancellation_def registered_def hm_get_insert)
next
  case (4 r j input t follow_up channel)
  then show ?case
    by (auto simp: accept_run_input_def begin_input_def Let_def split: option.splits bool.splits)
next
  case (7 r job_cancel j channel)
  then show ?case
    by (auto simp: cancel_run_def case_prod_unfold Let_def split: option.splits sum.splits)
next
  case (8 j r token)
  then show ?case by (auto intro: registered_drop)
qed (simp_all add: started_def finish_input_def)

section \<open>Every step keeps the invariant\<close>

lemma worker_unique: "request_inv w \<Longrightarrow> k \<in> set (workers w) \<Longrightarrow> x \<in> set (workers w) \<Longrightarrow> wk_id x = wk_id k \<Longrightarrow> x = k"
  using request_invD(2) [of w] by (metis distinct_map inj_onD)

lemma inv_drop_worker:
  assumes "request_inv w"
  shows "request_inv (w\<lparr>workers := filter (\<lambda>x. wk_id x \<noteq> i) (workers w), in_flight := n,
    registry := drop_registration i t (registry w)\<rparr>)" (is "request_inv ?w")
proof (rule request_inv_frame [OF assms])
  show "distinct (map wk_id (workers ?w))"
    using request_invD(2) [OF assms] by (simp add: distinct_map_filter)
  show "worker_ok ?w k" if "k \<in> set (workers ?w)" for k
    using that request_invD(6) [OF assms, of k] by (auto simp: worker_ok_def registered_drop)
qed (use request_invD(1) [OF assms] in simp_all)

lemma inv_end_worker:
  assumes "request_inv w"
  shows "request_inv (end_worker now k result w)"
proof -
  have "request_inv (store_outcome now (wk_id k) result w)"
    unfolding store_outcome_def
    by (cases result) (auto intro!: inv_update assms simp: settle_status_def split: request_outcome.splits)
  then show ?thesis unfolding end_worker_def Let_def by (rule inv_drop_worker)
qed

lemma worker_ids_phase: "map wk_id (workers (set_phase i p w)) = map wk_id (workers w)"
  by (auto simp: set_phase_def)

lemma inv_set_phase:
  assumes inv: "request_inv w" and "i \<notin> set (executed w)" and "claimed_phase p \<longrightarrow> not_queued i w"
  shows "request_inv (set_phase i p w)"
proof (rule request_inv_frame [OF inv])
  show "distinct (map wk_id (workers (set_phase i p w)))"
    using request_invD(2) [OF inv] by (simp only: worker_ids_phase)
  show "worker_ok (set_phase i p w) k" if "k \<in> set (workers (set_phase i p w))" for k
    using that request_invD(6) [OF inv] assms(2,3) by (auto simp: set_phase_def worker_ok_def)
qed (use request_invD(1) [OF inv] in \<open>simp_all add: set_phase_def\<close>)

lemma worker_ready:
  assumes "request_inv w" "k \<in> set (workers w)" "wk_phase k \<noteq> Working"
  shows "wk_id k \<notin> set (executed w)"
  using request_invD(6) [OF assms(1,2)] assms(3) by (simp add: worker_ok_def)

lemma worker_claimed:
  assumes "request_inv w" "k \<in> set (workers w)" "claimed_phase (wk_phase k)"
  shows "not_queued (wk_id k) w"
  using request_invD(6) [OF assms(1,2)] assms(3) by (simp add: worker_ok_def)

lemma inv_run_claim:
  assumes inv: "request_inv w" and k: "k \<in> set (workers w)" "wk_phase k = Unclaimed"
  shows "request_inv (run_claim now k w)"
proof -
  let ?w = "snd (claim_request now (wk_id k) w)"
  have inv1: "request_inv ?w" unfolding claim_request_def Let_def by (auto intro!: inv_update inv)
  have "not_queued (wk_id k) ?w" unfolding claim_request_def Let_def
    by (auto simp: not_queued_def set_sql_update)
  moreover have "executed ?w = executed w" by (simp add: claim_request_def Let_def)
  ultimately show ?thesis
    using worker_ready [OF inv k(1)] k(2) inv1
    by (auto simp: run_claim_def intro!: inv_end_worker inv_set_phase split: prod.splits sum.splits)
qed

lemma inv_stop_check:
  assumes inv: "request_inv w" and k: "k \<in> set (workers w)" "wk_phase k \<in> {Claimed, Bound}"
    and p: "p \<noteq> Working"
  shows "request_inv (run_stop_check now p k w)"
proof -
  have fresh: "wk_id k \<notin> set (executed w)" using worker_ready [OF inv k(1)] k(2) by auto
  have claimed: "not_queued (wk_id k) w" using worker_claimed [OF inv k(1)] k(2) by (auto simp: claimed_phase_def)
  let ?w = "update_requests (\<lambda>r. rq_id r = wk_id k \<and> rq_status r = RequestRunning)
      (\<lambda>r. r\<lparr>rq_status := RequestQueued, rq_updated_at := millis now\<rparr>) w"
  have "request_inv (end_worker now k (Inr OutcomeDeferred) ?w)" (is "request_inv ?e")
  proof (rule request_inv_frame [OF inv])
    show "worker_ok ?e x" if "x \<in> set (workers ?e)" for x
    proof -
      from that have x: "x \<in> set (workers w)" "wk_id x \<noteq> wk_id k"
        by (simp_all add: end_worker_def store_outcome_def Let_def)
      then have "worker_ok ?w x" using request_invD(6) [OF inv x(1)] by (intro worker_ok_update) auto
      then show ?thesis using x(2)
        by (auto simp: worker_ok_def end_worker_def store_outcome_def Let_def registered_drop)
    qed
    show "not_queued i ?e" if "i \<in> set (executed w)" "not_queued i w" for i
    proof -
      have "i \<noteq> wk_id k" using that(1) fresh by auto
      with that(2) have "not_queued i ?w" by (intro not_queued_update) auto
      then show ?thesis by (simp add: end_worker_def store_outcome_def Let_def)
    qed
  qed (use request_invD [OF inv] in \<open>simp_all add: end_worker_def store_outcome_def Let_def distinct_map_filter\<close>)
  then show ?thesis
    using inv fresh claimed p
    by (auto simp: run_stop_check_def stop_before_execution_def intro!: inv_end_worker inv_set_phase)
qed

lemma inv_begin_work:
  assumes inv: "request_inv w" and k: "k \<in> set (workers w)" "wk_phase k = Ready"
  shows "request_inv (begin_work k w)"
proof -
  have fresh: "wk_id k \<notin> set (executed w)" using worker_ready [OF inv k(1)] k(2) by auto
  have claimed: "not_queued (wk_id k) w" using worker_claimed [OF inv k(1)] k(2) by (auto simp: claimed_phase_def)
  have known: "known_request (wk_id k) w" using request_invD(6) [OF inv k(1)] by (simp add: worker_ok_def)
  let ?w = "set_phase (wk_id k) Working w"
  have inv1: "request_inv ?w" by (rule inv_set_phase [OF inv fresh]) (use claimed in simp)
  show ?thesis
    unfolding request_inv_def
  proof (intro conjI ballI)
    show "worker_ok (begin_work k w) x" if "x \<in> set (workers (begin_work k w))" for x
    proof -
      from that have x: "x \<in> set (workers ?w)" by (simp add: begin_work_def)
      show ?thesis
        using request_invD(6) [OF inv1 x] x
        by (auto simp: worker_ok_def begin_work_def started_def set_phase_def)
    qed
  qed (use request_invD [OF inv] fresh claimed known in
      \<open>auto simp: begin_work_def set_phase_def comp_def if_distrib intro: request_invD(2) [OF inv1, unfolded set_phase_def, simplified]\<close>)
qed

lemma inv_start:
  assumes inv: "request_inv w" and new: "i \<notin> set (executed w)" and known: "known_request i w"
  shows "request_inv (snd (start_request queued i token channel w))"
proof (cases "snd (start_request queued i token channel w) = w")
  case False
  then have free: "hm_get (active_runs (registry w)) i = None"
    by (auto simp: start_request_def register_cancellation_def split: sum.splits prod.splits if_splits)
  then have other: "wk_id k \<noteq> i" if "k \<in> set (workers w)" for k
    using request_invD(6) [OF inv that] by (auto simp: worker_ok_def registered_def)
  define r where "r = snd (register_cancellation i token UserRun (Some channel) (registry w))"
  have r: "registered j r" if "registered j (registry w) \<or> j = i" for j
    using that free by (auto simp: r_def register_cancellation_def registered_def hm_get_insert)
  from False free have w: "snd (start_request queued i token channel w) = w\<lparr>registry := r, in_flight := in_flight w + 1,
        workers := workers w @ [\<lparr>wk_id = i, wk_token = token, wk_phase = AwaitingTurn\<rparr>]\<rparr>"
    by (auto simp: start_request_def register_cancellation_def r_def split: sum.splits prod.splits if_splits)
  show ?thesis
    unfolding w
  proof (rule request_inv_frame [OF inv])
    fix k assume "k \<in> set (workers (w\<lparr>registry := r, in_flight := in_flight w + 1,
        workers := workers w @ [\<lparr>wk_id = i, wk_token = token, wk_phase = AwaitingTurn\<rparr>]\<rparr>))"
    then consider "k \<in> set (workers w)" | "k = \<lparr>wk_id = i, wk_token = token, wk_phase = AwaitingTurn\<rparr>" by auto
    then show "worker_ok (w\<lparr>registry := r, in_flight := in_flight w + 1,
        workers := workers w @ [\<lparr>wk_id = i, wk_token = token, wk_phase = AwaitingTurn\<rparr>]\<rparr>) k"
    proof cases
      case 1
      with request_invD(6) [OF inv 1] show ?thesis by (auto simp: worker_ok_def r)
    qed (use new known r in \<open>auto simp: worker_ok_def claimed_phase_def\<close>)
  qed (use request_invD [OF inv] other in auto)
qed (use inv in simp)

lemma inv_other_worker_frame:
  assumes "request_inv w" "request_rows w' = request_rows w" "request_tombstones w' = request_tombstones w"
    "executed w' = executed w" "workers w' = workers w"
    "\<And>k. k \<in> set (workers w) \<Longrightarrow> registered (wk_id k) (registry w')"
  shows "request_inv w'"
  using assms by (auto simp: request_inv_def worker_ok_def known_request_def not_queued_def)

lemma inv_new_row:
  assumes inv: "request_inv w" and new: "\<not> known_request (rq_id row) w"
  shows "request_inv (w\<lparr>request_rows := request_rows w @ [row], registry := interrupt_automation channel (registry w)\<rparr>)"
    (is "request_inv ?w")
proof -
  have nq: "not_queued i ?w" if "not_queued i w" "known_request i w" for i
    using that new by (auto simp: not_queued_def)
  show ?thesis
  proof (rule request_inv_frame [OF inv])
    show "worker_ok ?w k" if "k \<in> set (workers ?w)" for k
      using that request_invD(6) [OF inv, of k] nq [of "wk_id k"]
      by (auto simp: worker_ok_def known_request_def)
  qed (use request_invD [OF inv] new nq in \<open>auto simp: known_request_def\<close>)
qed

lemma submit_known_request:
  assumes "known_request request w"
  shows "snd (submit_request env now personal_free bound queue request content device token channel w) = w"
  using assms
  by (auto simp: submit_request_def Let_def known_request_def find_None_iff split: if_splits option.splits)

lemma inv_submit:
  assumes inv: "request_inv w"
  shows "request_inv (snd (submit_request env now personal_free bound queue request content device token channel w))"
    (is "request_inv (snd ?r)")
proof (cases "snd ?r = w")
  case False
  have unknown: "\<not> known_request request w"
    using False submit_known_request by blast
  from False obtain owner_input where bound: "bound = Inr owner_input"
    by (cases bound) (auto simp: submit_request_def Let_def split: if_splits option.splits)
  define row where "row = new_request now request channel device (env_sha256 env (as_bytes content)) content owner_input"
  have row: "rq_id row = request" by (simp add: row_def new_request_def)
  from False have r: "snd ?r = (case start_request queue request token channel (w\<lparr>request_rows := request_rows w @ [row],
        registry := interrupt_automation channel (registry w)\<rparr>) of
        (Inl e, w2) \<Rightarrow> mark_failed now request w2 | (Inr _, w2) \<Rightarrow> w2)"
    by (auto simp: submit_request_def Let_def bound row_def [symmetric] case_prod_unfold
        split: if_splits option.splits sum.splits)
  let ?w1 = "w\<lparr>request_rows := request_rows w @ [row], registry := interrupt_automation channel (registry w)\<rparr>"
  have inv1: "request_inv ?w1" by (rule inv_new_row [OF inv]) (use row unknown in simp)
  have "request \<notin> set (executed ?w1)" using unknown request_invD(4) [OF inv] by auto
  moreover have "known_request request ?w1" using row by (auto simp: known_request_def)
  ultimately have "request_inv (snd (start_request queue request token channel ?w1))"
    by (rule inv_start [OF inv1])
  then show ?thesis
    unfolding r by (auto simp: mark_failed_def intro!: inv_update split: prod.splits sum.splits)
qed (use inv in simp)

lemma inv_reconcile: "request_inv w \<Longrightarrow> request_inv (reconcile_interrupted_requests now w)"
  unfolding reconcile_interrupted_requests_def Let_def by (intro inv_update) auto

lemma inv_restart: "request_inv w \<Longrightarrow> request_inv (restart w)"
  by (auto simp: restart_def request_inv_def known_request_def not_queued_def)

lemma start_keeps:
  "executed (snd (start_request q i t c w)) = executed w" "known_request j (snd (start_request q i t c w)) = known_request j w"
  by (auto simp: start_request_def known_request_def split: sum.splits prod.splits)

lemma inv_recover_loop:
  "request_inv w \<Longrightarrow> (\<And>r. r \<in> set rs \<Longrightarrow> rq_id r \<notin> set (executed w) \<and> known_request (rq_id r) w) \<Longrightarrow>
   request_inv (snd (recover_loop env now queue fresh rs w))"
proof (induction env now queue fresh rs w rule: recover_loop.induct)
  case (2 env now queue fresh r rs w)
  have inv: "request_inv w" and rs: "rq_id x \<notin> set (executed w) \<and> known_request (rq_id x) w" if "x \<in> set (r # rs)" for x
    using 2(3) 2(4) [OF that] by auto
  show ?case
  proof (cases "env_sha256 env (as_bytes (rq_content r)) \<noteq> rq_digest r")
    case True
    have "request_inv (snd (recover_loop env now queue fresh rs (mark_failed now (rq_id r) w)))"
      by (rule "2.IH"(1) [OF True]) (use inv rs in \<open>auto simp: mark_failed_def intro!: inv_update\<close>)
    with True show ?thesis by simp
  next
    case False
    let ?s = "start_request (queue (rq_id r)) (rq_id r) (fresh (rq_id r)) (rq_channel r) w"
    have inv1: "request_inv (snd ?s)" by (rule inv_start) (use inv rs in auto)
    show ?thesis
    proof (cases "fst ?s")
      case (Inl e)
      with False inv1 show ?thesis by (simp add: case_prod_unfold)
    next
      case (Inr u)
      have "request_inv (snd (recover_loop env now queue fresh rs (snd ?s)))"
        by (rule "2.IH"(2) [OF False _ Inr]) (use inv1 rs in \<open>auto simp: start_keeps\<close>)
      with False Inr show ?thesis by (simp add: case_prod_unfold)
    qed
  qed
qed simp

lemma inv_recover_requests:
  assumes "request_inv w"
  shows "request_inv (snd (recover_requests env now queue fresh w))"
proof -
  let ?w = "update_requests (\<lambda>r. rq_status r = RequestQueued \<and> rq_device r) (\<lambda>r. r\<lparr>rq_status := RequestFailed\<rparr>)
      (reconcile_interrupted_requests now w)"
  have inv: "request_inv ?w" by (rule inv_update [OF inv_reconcile [OF assms]]) auto
  have "request_inv (snd (recover_loop env now queue fresh (queued_requests ?w) ?w))"
  proof (rule inv_recover_loop [OF inv])
    fix r assume "r \<in> set (queued_requests ?w)"
    then have r: "r \<in> set (request_rows ?w)" "rq_status r = RequestQueued" by (auto simp: queued_requests_def)
    then have "rq_id r \<notin> set (executed ?w)"
      using request_invD(5) [OF inv, of "rq_id r"] by (auto simp: not_queued_def)
    moreover from r(1) have "known_request (rq_id r) ?w" unfolding known_request_def by (intro disjI1 imageI)
    ultimately show "rq_id r \<notin> set (executed ?w) \<and> known_request (rq_id r) ?w" ..
  qed
  with inv show ?thesis unfolding recover_requests_def Let_def by simp
qed

lemma inv_retire:
  assumes inv: "request_inv w"
  shows "request_inv (retire_requests p w)"
proof -
  have known: "known_request i (retire_requests p w) \<longleftrightarrow> known_request i w" for i
    by (auto simp: known_request_def retire_requests_def)
  have nq: "not_queued i w \<Longrightarrow> not_queued i (retire_requests p w)" for i
    by (auto simp: not_queued_def retire_requests_def)
  show ?thesis
  proof (rule request_inv_frame [OF inv])
    show "worker_ok (retire_requests p w) k" if "k \<in> set (workers (retire_requests p w))" for k
      using that request_invD(6) [OF inv, of k] nq known by (auto simp: worker_ok_def retire_requests_def)
  qed (use request_invD [OF inv] nq known in \<open>auto simp: retire_requests_def distinct_map_filter\<close>)
qed

lemma request_step_inv:
  assumes inv: "request_inv w" and step: "request_step env w w'"
  shows "request_inv w'"
  using step
proof cases
  case (awaits k now admitted)
  then show ?thesis
    using inv worker_ready [OF inv awaits(2)]
    by (auto simp: await_turn_def claimed_phase_def intro!: inv_end_worker inv_set_phase)
next
  case (enters k now personal_free)
  then show ?thesis
    using inv worker_ready [OF inv enters(2)]
    by (auto simp: enter_turn_def claimed_phase_def intro!: inv_end_worker inv_set_phase)
next
  case (binds k now answer)
  then show ?thesis
    using inv worker_ready [OF inv binds(2)] worker_claimed [OF inv binds(2)]
    by (auto simp: bind_answer_def claimed_phase_def intro!: inv_end_worker inv_set_phase split: sum.splits)
next
  case (other_runs r)
  show ?thesis unfolding other_runs(1)
    by (rule inv_other_worker_frame [OF inv])
      (use other_runs(2) request_invD(6) [OF inv] in \<open>auto simp: worker_ok_def intro: registered_step\<close>)
qed (use inv request_invD(6) [OF inv] in \<open>auto simp: prune_requests_def purge_requests_def worker_ok_def
    intro!: inv_submit inv_run_claim inv_stop_check inv_begin_work inv_end_worker inv_restart inv_recover_requests
      inv_retire inv_other_worker_frame [OF inv]\<close>)

section \<open>Properties\<close>

definition request_init :: "request_world \<Rightarrow> bool" where
  "request_init w \<longleftrightarrow> request_rows w = [] \<and> request_tombstones w = [] \<and> workers w = [] \<and> executed w = []"

interpretation request_system: step_system request_init "request_step env" request_inv
proof
  show "request_inv w" if "request_init w" for w
    using that by (simp add: request_init_def request_inv_def)
qed (rule request_step_inv)

definition idle_world :: request_world where
  "idle_world = \<lparr>request_rows = [], request_tombstones = [], tables = empty_db, registry = new_registry,
     workers = [], in_flight = 0, stopping = False, executed = []\<rparr>"

definition hash_env :: request_env where
  "hash_env = \<lparr>env_sha256 = (\<lambda>bs. map of_nat bs), env_print_id = (\<lambda>_. [])\<rparr>"

definition hello :: "uuid \<Rightarrow> cancellation_ref \<Rightarrow> request_world \<Rightarrow> request_world" where
  "hello i t w = snd (submit_request hash_env 0 True (Inr None) (Inr ()) i [104] False t 7 w)"

definition claimed_world :: request_world where
  "claimed_world = (let w = hello 0 0 idle_world; k = \<lparr>wk_id = 0, wk_token = 0, wk_phase = AwaitingTurn\<rparr> in
     run_claim 0 (k\<lparr>wk_phase := Unclaimed\<rparr>) (enter_turn 0 True (k\<lparr>wk_phase := Admitted\<rparr>) (await_turn 0 True k w)))"

lemmas request_eval = hello_def submit_request_def idle_world_def hash_env_def trim_def trim_start_def trim_end_def
  is_whitespace_def queued_requests_def MAX_QUEUED_REQUESTS_def start_request_def register_cancellation_def
  interrupt_automation_def new_registry_def await_turn_def enter_turn_def run_claim_def claim_request_def
  cancelled_run_def set_phase_def new_request_def Let_def

definition greeting :: "uuid \<Rightarrow> message_request" where
  "greeting i = \<lparr>rq_id = i, rq_channel = 7, rq_device = False, rq_digest = map of_nat (as_bytes [104]),
     rq_content = [104], rq_input = None, rq_status = RequestQueued, rq_created_at = 0, rq_updated_at = 0\<rparr>"

lemma claimed_world:
  "request_rows claimed_world = [(greeting 0)\<lparr>rq_status := RequestRunning\<rparr>]"
  "workers claimed_world = [\<lparr>wk_id = 0, wk_token = 0, wk_phase = Claimed\<rparr>]"
  "request_tombstones claimed_world = []" "executed claimed_world = []" "stopping claimed_world = False"
  "registry claimed_world = snd (register_cancellation 0 0 UserRun (Some 7) new_registry)"
  by (simp_all add: claimed_world_def request_eval greeting_def millis_def)

lemma claimed_world_reachable: "reach request_init (request_step hash_env) claimed_world"
proof -
  note reach_step [where step = "request_step hash_env", trans]
  let ?k = "\<lparr>wk_id = 0, wk_token = 0, wk_phase = AwaitingTurn\<rparr>"
  have "reach request_init (request_step hash_env) idle_world"
    by (rule reach_init) (simp add: request_init_def idle_world_def)
  also have "request_step hash_env idle_world (hello 0 0 idle_world)" unfolding hello_def by (rule submits)
  also have "request_step hash_env (hello 0 0 idle_world) (await_turn 0 True ?k (hello 0 0 idle_world))"
    by (rule awaits) (simp_all add: request_eval)
  also have "request_step hash_env (await_turn 0 True ?k (hello 0 0 idle_world))
      (enter_turn 0 True (?k\<lparr>wk_phase := Admitted\<rparr>) (await_turn 0 True ?k (hello 0 0 idle_world)))"
    by (rule enters) (simp_all add: request_eval)
  also have "request_step hash_env (enter_turn 0 True (?k\<lparr>wk_phase := Admitted\<rparr>) (await_turn 0 True ?k (hello 0 0 idle_world)))
      claimed_world"
    unfolding claimed_world_def Let_def by (rule claims_row) (simp_all add: request_eval)
  finally show ?thesis .
qed

text \<open>C11: The text of a message is handed to the session at most once, across cancellations,
  shutdowns that put the message back into the queue, restarts and retention.\<close>

theorem message_is_executed_at_most_once:
  assumes "reach request_init (request_step env) w"
  shows "distinct (executed w)"
  using request_system.reachable_inv [OF assms] by (rule request_invD(3))

theorem message_is_executed_at_most_once_witness:
  "\<exists>w. reach request_init (request_step hash_env) w \<and> executed w = [0] \<and> distinct (executed w)"
proof -
  let ?k = "\<lparr>wk_id = 0, wk_token = 0, wk_phase = Claimed\<rparr>"
  let ?w1 = "run_stop_check 0 Binding ?k claimed_world"
  let ?w2 = "bind_answer 0 (Inr ()) (?k\<lparr>wk_phase := Binding\<rparr>) ?w1"
  let ?w3 = "run_stop_check 0 Ready (?k\<lparr>wk_phase := Bound\<rparr>) ?w2"
  let ?w4 = "begin_work (?k\<lparr>wk_phase := Ready\<rparr>) ?w3"
  note eval = claimed_world run_stop_check_def stop_before_execution_def cancelled_run_def set_phase_def
    register_cancellation_def new_registry_def bind_answer_def begin_work_def
  note reach_step [where step = "request_step hash_env", trans]
  note claimed_world_reachable
  also have "request_step hash_env claimed_world ?w1" by (rule checks) (simp_all add: eval)
  also have "request_step hash_env ?w1 ?w2" by (rule binds) (simp_all add: eval)
  also have "request_step hash_env ?w2 ?w3" by (rule rechecks) (simp_all add: eval)
  also have "request_step hash_env ?w3 ?w4" by (rule begins) (simp_all add: eval)
  finally have r: "reach request_init (request_step hash_env) ?w4" .
  moreover have "executed ?w4 = [0]" by (simp add: eval)
  ultimately show ?thesis using message_is_executed_at_most_once [OF r] by blast
qed

text \<open>Sending a known request again changes nothing and starts nothing: the answer repeats the
  state of the stored message, and only when channel and text are the same.\<close>

theorem resubmission_changes_nothing:
  assumes "known_request request w"
    and "submit_request env now personal_free bound queue request content device token channel w = (r, w')"
  shows "w' = w \<and> (case r of Inl e \<Rightarrow> True | Inr a \<Rightarrow> acc_replayed a \<and> \<not> acc_started a \<and>
     (\<exists>m \<in> set (request_rows w). rq_id m = request \<and> rq_channel m = channel \<and> rq_content m = content \<and>
        rq_status m = acc_status a \<and> rq_status m \<noteq> RequestFailed))"
proof
  show "w' = w" using submit_known_request [OF assms(1)] assms(2) by (metis snd_conv)
  show "case r of Inl e \<Rightarrow> True | Inr a \<Rightarrow> acc_replayed a \<and> \<not> acc_started a \<and>
     (\<exists>m \<in> set (request_rows w). rq_id m = request \<and> rq_channel m = channel \<and> rq_content m = content \<and>
        rq_status m = acc_status a \<and> rq_status m \<noteq> RequestFailed)"
  proof (cases "find (\<lambda>r. rq_id r = request) (request_rows w)")
    case None
    then have "request \<in> set (request_tombstones w)"
      using assms(1) by (auto simp: known_request_def find_None_iff)
    with None assms(2) show ?thesis
      by (auto simp: submit_request_def Let_def split: if_splits)
  next
    case (Some m)
    then have "m \<in> set (request_rows w)" "rq_id m = request" by (auto simp: find_Some_iff)
    with Some assms(2) show ?thesis by (auto simp: submit_request_def Let_def split: if_splits)
  qed
qed

theorem resubmission_changes_nothing_witness:
  "\<exists>a. submit_request hash_env 9 True (Inr None) (Inr ()) 0 [104] False 5 7 claimed_world = (Inr a, claimed_world) \<and>
     acc_status a = RequestRunning \<and> acc_replayed a \<and> \<not> acc_started a"
proof -
  have known: "known_request 0 claimed_world" by (simp add: known_request_def claimed_world greeting_def)
  let ?r = "submit_request hash_env 9 True (Inr None) (Inr ()) 0 [104] False 5 7 claimed_world"
  obtain a where a: "fst ?r = Inr a" "acc_status a = RequestRunning"
    by (simp add: submit_request_def claimed_world greeting_def hash_env_def trim_def trim_start_def
        trim_end_def is_whitespace_def Let_def)
  have "?r = (Inr a, snd ?r)" by (metis a(1) prod.collapse)
  from resubmission_changes_nothing [OF known this] this a(2) show ?thesis by auto
qed

section \<open>A shutdown can make the next start impossible\<close>

lemma count_update:
  assumes "\<And>r. p r \<Longrightarrow> \<not> q r" "\<And>r. p r \<Longrightarrow> q (f r)"
  shows "length (filter q (sql_update p f rows)) = length (filter q rows) + length (filter p rows)"
  by (induction rows) (use assms in auto)

lemma count_update_same:
  assumes "\<And>r. p r \<Longrightarrow> q (f r) = q r"
  shows "length (filter q (sql_update p f rows)) = length (filter q rows)"
  by (induction rows) (use assms in auto)

lemma update_nothing: "\<forall>r \<in> set rows. \<not> p r \<Longrightarrow> sql_update p f rows = rows"
  by (induction rows) auto

lemma all_update: "\<forall>r \<in> set rows. q r \<Longrightarrow> (\<And>r. q r \<Longrightarrow> q (f r)) \<Longrightarrow> \<forall>r \<in> set (sql_update p f rows). q r"
  by (auto simp: set_sql_update)

text \<open>C12: A message that is put back into the queue by a shutdown is not counted against the queue's
  bound, so 65 messages may be stored as queued; the next start then refuses the whole queue with
  a configuration error, starts none of them, and changes none of their rows.\<close>

theorem requeued_message_blocks_the_next_start:
  assumes "distinct (map rq_id (request_rows w))" "k \<in> set (workers w)" "wk_phase k = Claimed"
    and "stopping w" "\<not> cancelled_run k w"
    and "m \<in> set (request_rows w)" "rq_id m = wk_id k" "rq_status m = RequestRunning"
    and "length (queued_requests w) = MAX_QUEUED_REQUESTS"
    and "\<forall>r \<in> set (request_rows w). \<not> rq_device r"
  shows "fst (recover_requests env now' queue fresh (restart (run_stop_check now Binding k w))) =
      Inl (Config ''retained incoming queue exceeds its capacity'')"
proof -
  let ?p = "\<lambda>r. rq_id r = wk_id k \<and> rq_status r = RequestRunning"
  let ?f = "\<lambda>r. r\<lparr>rq_status := RequestQueued, rq_updated_at := millis now\<rparr>"
  let ?q = "\<lambda>r. rq_status r = RequestQueued"
  define rows where "rows = sql_update ?p ?f (request_rows w)"
  define rows' where "rows' = request_rows (reconcile_interrupted_requests now' (restart (run_stop_check now Binding k w)))"
  have rows: "request_rows (restart (run_stop_check now Binding k w)) = rows"
    using assms(4,5)
    by (simp add: rows_def restart_def run_stop_check_def stop_before_execution_def end_worker_def store_outcome_def Let_def)
  have "filter (\<lambda>r. rq_id r = wk_id k) (request_rows w) = [m]"
    by (rule filter_unique_key [OF assms(1,6,7)])
  moreover have "filter ?p (request_rows w) =
      filter (\<lambda>r. rq_status r = RequestRunning) (filter (\<lambda>r. rq_id r = wk_id k) (request_rows w))"
    by (simp add: conj_commute)
  ultimately have "filter ?p (request_rows w) = [m]" using assms(8) by simp
  then have "length (filter ?q rows) = Suc MAX_QUEUED_REQUESTS"
    using assms(9) unfolding rows_def by (subst count_update) (auto simp: queued_requests_def)
  moreover obtain p f p' f' where upd: "rows' = sql_update p' f' (sql_update p f rows)"
    and st: "\<And>r. p r \<Longrightarrow> ?q (f r) = ?q r" "\<And>r. p' r \<Longrightarrow> ?q (f' r) = ?q r"
    and dev: "\<And>r. rq_device (f r) = rq_device r" "\<And>r. rq_device (f' r) = rq_device r"
    by (rule that [of "\<lambda>r. rq_status r = RequestRunning" "\<lambda>r. r\<lparr>rq_status := RequestFailed, rq_updated_at := millis now'\<rparr>"
          "\<lambda>r. rq_status r = RequestRunning \<and> turn_complete (rq_id r) (tables (restart (run_stop_check now Binding k w)))"
          "\<lambda>r. r\<lparr>rq_status := RequestCompleted, rq_updated_at := millis now'\<rparr>"])
      (simp_all add: rows'_def reconcile_interrupted_requests_def Let_def rows)
  moreover from st have "length (filter ?q rows') = length (filter ?q rows)"
    unfolding upd by (simp add: count_update_same)
  moreover have "\<forall>r \<in> set rows'. \<not> rq_device r"
    unfolding upd rows_def by (intro all_update) (simp_all add: assms(10) dev)
  ultimately show ?thesis
    by (simp add: recover_requests_def Let_def update_nothing queued_requests_def rows'_def [symmetric])
qed

text \<open>The state of the theorem is reachable: one message is claimed, then 64 more arrive.\<close>

definition flooded :: "nat \<Rightarrow> request_world" where
  "flooded n = fold (\<lambda>i. hello (of_nat i) i) [1..<Suc n] claimed_world"

lemma of_nat_uuid_eq: "a < 2 ^ 100 \<Longrightarrow> b < 2 ^ 100 \<Longrightarrow> (of_nat a :: uuid) = of_nat b \<longleftrightarrow> a = b"
  by (simp add: word_of_nat_eq_iff take_bit_nat_eq_self)

definition flood_inv :: "nat \<Rightarrow> request_world \<Rightarrow> bool" where
  "flood_inv n w \<longleftrightarrow>
     request_rows w = (greeting 0)\<lparr>rq_status := RequestRunning\<rparr> # map (greeting \<circ> of_nat) [1..<Suc n] \<and>
     \<lparr>wk_id = 0, wk_token = 0, wk_phase = Claimed\<rparr> \<in> set (workers w) \<and>
     request_tombstones w = [] \<and> \<not> stopping w \<and>
     map fst (active_runs (registry w)) = map of_nat [0..<Suc n] \<and>
     (\<forall>x \<in> set (active_runs (registry w)). run_kind_of (snd x) = UserRun) \<and>
     \<not> token_cancelled (registry w) 0"

lemma flood_step:
  assumes w: "flood_inv n w" and n: "n < 64"
  shows "flood_inv (Suc n) (hello (of_nat (Suc n)) (Suc n) w)"
proof -
  note W = w [unfolded flood_inv_def]
  have other: "(of_nat (Suc n) :: uuid) \<noteq> of_nat i" if "i \<le> n" for i
    using that n by (subst of_nat_uuid_eq) auto
  have quiet: "interrupt_automation 7 (registry w) = registry w"
  proof -
    have "filter (\<lambda>(_, run). is_automation 7 run) (active_runs (registry w)) = []"
      using W by (auto simp: is_automation_def filter_empty_conv)
    then show ?thesis by (simp add: interrupt_automation_def)
  qed
  have "of_nat (Suc n) \<notin> set (map fst (active_runs (registry w)))"
    using W other by (fastforce simp del: upt_Suc of_nat_Suc simp: less_Suc_eq_le)
  then have free: "hm_get (active_runs (registry w)) (of_nat (Suc n)) = None"
    by (simp add: map_of_eq_None_iff)
  have "\<forall>r \<in> set (request_rows w). rq_id r \<noteq> of_nat (Suc n)"
    using W other [symmetric] other [of 0] by (fastforce simp: greeting_def less_Suc_eq_le simp del: upt_Suc of_nat_Suc)
  then have new: "find (\<lambda>r. rq_id r = of_nat (Suc n)) (request_rows w) = None"
    by (auto simp: find_None_iff)
  have "filter (\<lambda>r. rq_status r = RequestQueued) (map (greeting \<circ> of_nat) is) = map (greeting \<circ> of_nat) is" for "is"
    by (induction "is") (auto simp: greeting_def)
  then have "length (queued_requests w) = n" using W by (simp add: queued_requests_def greeting_def del: upt_Suc)
  with n have room: "\<not> MAX_QUEUED_REQUESTS \<le> length (queued_requests w)" by (simp add: MAX_QUEUED_REQUESTS_def)
  have step: "hello (of_nat (Suc n)) (Suc n) w = w\<lparr>request_rows := request_rows w @ [greeting (of_nat (Suc n))],
      registry := (registry w)\<lparr>active_runs := active_runs (registry w) @ [(of_nat (Suc n),
        \<lparr>run_cancellation = Suc n, run_channel = Some 7, run_kind_of = UserRun, run_stopping = False,
         run_queued = True, run_inputs = []\<rparr>)]\<rparr>,
      in_flight := in_flight w + 1,
      workers := workers w @ [\<lparr>wk_id = of_nat (Suc n), wk_token = Suc n, wk_phase = AwaitingTurn\<rparr>]\<rparr>"
    using W new room free quiet
    by (simp add: hello_def submit_request_def hash_env_def trim_def trim_start_def trim_end_def is_whitespace_def
        start_request_def register_cancellation_def new_request_def greeting_def Let_def hm_insert_fresh millis_def
        del: of_nat_Suc)
  show ?thesis
    using W unfolding flood_inv_def step by simp
qed

lemma flooded: "n \<le> 64 \<Longrightarrow> flood_inv n (flooded n) \<and> reach request_init (request_step hash_env) (flooded n)"
proof (induction n)
  case 0
  show ?case
    using claimed_world_reachable
    by (simp add: flood_inv_def flooded_def claimed_world register_cancellation_def new_registry_def)
next
  case (Suc n)
  have w: "flooded (Suc n) = hello (of_nat (Suc n)) (Suc n) (flooded n)" by (simp add: flooded_def)
  have "flood_inv n (flooded n)" and r: "reach request_init (request_step hash_env) (flooded n)"
    using Suc by auto
  then have "flood_inv (Suc n) (flooded (Suc n))" using Suc.prems unfolding w by (intro flood_step) auto
  moreover have "reach request_init (request_step hash_env) (flooded (Suc n))"
    by (rule reach_step [OF r]) (unfold w hello_def, rule submits)
  ultimately show ?case ..
qed

theorem requeued_message_blocks_the_next_start_witness:
  "\<exists>w k. reach request_init (request_step hash_env) w \<and> length (queued_requests w) = 64 \<and>
     fst (recover_requests hash_env 1 (\<lambda>_. Inr ()) (\<lambda>_. 0) (restart (run_stop_check 0 Binding k w))) =
       Inl (Config ''retained incoming queue exceeds its capacity'')"
proof -
  let ?w = "(flooded 64)\<lparr>stopping := True\<rparr>" and ?k = "\<lparr>wk_id = 0, wk_token = 0, wk_phase = Claimed\<rparr>"
  have f: "flood_inv 64 (flooded 64)" "reach request_init (request_step hash_env) (flooded 64)"
    using flooded [of 64] by simp_all
  have r: "reach request_init (request_step hash_env) ?w" by (rule reach_step [OF f(2) stops])
  have "filter (\<lambda>r. rq_status r = RequestQueued) (map (greeting \<circ> of_nat) is) = map (greeting \<circ> of_nat) is" for "is"
    by (induction "is") (auto simp: greeting_def)
  then have q: "length (queued_requests ?w) = 64"
    using f(1) by (simp add: flood_inv_def queued_requests_def greeting_def del: upt_Suc)
  have "fst (recover_requests hash_env 1 (\<lambda>_. Inr ()) (\<lambda>_. 0) (restart (run_stop_check 0 Binding ?k ?w))) =
      Inl (Config ''retained incoming queue exceeds its capacity'')"
  proof (rule requeued_message_blocks_the_next_start)
    show "distinct (map rq_id (request_rows ?w))"
      using request_invD(1) [OF request_system.reachable_inv [OF r]] .
    show "(greeting 0)\<lparr>rq_status := RequestRunning\<rparr> \<in> set (request_rows ?w)"
      using f(1) by (simp add: flood_inv_def)
    show "\<forall>r \<in> set (request_rows ?w). \<not> rq_device r"
      using f(1) by (auto simp: flood_inv_def greeting_def)
  qed (use f(1) q in \<open>auto simp: flood_inv_def cancelled_run_def greeting_def MAX_QUEUED_REQUESTS_def\<close>)
  with r q show ?thesis by blast
qed

end
