(* ===== verification/Access_Control.thy ===== *)
theory Access_Control
  imports BoBe_Prelude BoBe_Text "HOL-Library.List_Lexorder"
begin

text \<open>
  Who may do what over HTTP: \<open>src/BoBeService/src/api/scope.rs\<close>, \<open>api/principal.rs\<close> and the
  decisions of \<open>api/middleware.rs\<close> (the scope every route requires, the owner's and adapters'
  fixed tokens, which requests change personal data). A request is its method and path; the
  configured host is the address it parses to, or a name. Host and origin checks and the request
  log are left out.
\<close>

section \<open>Scopes\<close>

datatype scope = ConversationRead | ConversationWrite | MemoryRead | MemoryWrite | GoalsRead
  | GoalsWrite | SettingsRead | SettingsWrite | ProviderAdmin | VoiceSession | CaptureSubmit
  | BodyAdmin | EventsSubscribe

definition ALL_SCOPES :: "scope list" where
  "ALL_SCOPES = [ConversationRead, ConversationWrite, MemoryRead, MemoryWrite, GoalsRead, GoalsWrite,
     SettingsRead, SettingsWrite, ProviderAdmin, VoiceSession, CaptureSubmit, BodyAdmin, EventsSubscribe]"

definition scope_name :: "scope \<Rightarrow> rtext" where
  "scope_name s = lit (case s of ConversationRead \<Rightarrow> ''conversation_read''
     | ConversationWrite \<Rightarrow> ''conversation_write'' | MemoryRead \<Rightarrow> ''memory_read''
     | MemoryWrite \<Rightarrow> ''memory_write'' | GoalsRead \<Rightarrow> ''goals_read'' | GoalsWrite \<Rightarrow> ''goals_write''
     | SettingsRead \<Rightarrow> ''settings_read'' | SettingsWrite \<Rightarrow> ''settings_write''
     | ProviderAdmin \<Rightarrow> ''provider_admin'' | VoiceSession \<Rightarrow> ''voice_session''
     | CaptureSubmit \<Rightarrow> ''capture_submit'' | BodyAdmin \<Rightarrow> ''body_admin''
     | EventsSubscribe \<Rightarrow> ''events_subscribe'')"

definition parse_scope :: "rtext \<Rightarrow> scope option" where
  "parse_scope t = find (\<lambda>s. scope_name s = t) ALL_SCOPES"

datatype scope_profile = MacApp | Phone

definition PHONE_SCOPES :: "scope list" where
  "PHONE_SCOPES = [ConversationRead, ConversationWrite, MemoryRead, MemoryWrite, GoalsRead, GoalsWrite,
     SettingsRead, VoiceSession, EventsSubscribe]"

definition profile_from_kind :: "rtext \<Rightarrow> scope_profile option" where
  "profile_from_kind k =
     (if k = lit ''mac_app'' then Some MacApp else if k = lit ''phone'' then Some Phone else None)"

definition profile_kind :: "scope_profile \<Rightarrow> rtext" where
  "profile_kind p = lit (case p of MacApp \<Rightarrow> ''mac_app'' | Phone \<Rightarrow> ''phone'')"

definition profile_id :: "scope_profile \<Rightarrow> rtext" where
  "profile_id p = lit (case p of MacApp \<Rightarrow> ''mac_app.v1'' | Phone \<Rightarrow> ''phone.v1'')"

definition profile_endpoint_kind :: "scope_profile \<Rightarrow> rtext" where
  "profile_endpoint_kind p = lit (case p of MacApp \<Rightarrow> ''mac_app'' | Phone \<Rightarrow> ''other'')"

definition profile_default_label :: "scope_profile \<Rightarrow> rtext" where
  "profile_default_label p = lit (case p of MacApp \<Rightarrow> ''Mac'' | Phone \<Rightarrow> ''iPhone'')"

definition profile_scopes :: "scope_profile \<Rightarrow> scope list" where
  "profile_scopes p = (case p of MacApp \<Rightarrow> ALL_SCOPES | Phone \<Rightarrow> PHONE_SCOPES)"

type_synonym scope_set = "scope list"

definition scope_set_from :: "scope list \<Rightarrow> scope_set" where
  "scope_set_from scopes = remdups_adj (sort_key scope_name scopes)"

definition grant_requested :: "scope_set \<Rightarrow> scope list \<Rightarrow> scope list" where
  "grant_requested granted requested = filter (\<lambda>s. s \<in> set granted) requested"

section \<open>Principals\<close>

datatype principal_kind = OwnerPrincipal | EndpointPrincipal | AdapterPrincipal

record principal =
  pr_kind :: principal_kind
  pr_endpoint :: "rtext option"
  pr_credential :: "rtext option"
  pr_epoch :: "int option"
  pr_scopes :: scope_set

definition owner_principal :: principal where
  "owner_principal = \<lparr>pr_kind = OwnerPrincipal, pr_endpoint = None, pr_credential = None, pr_epoch = None,
     pr_scopes = ALL_SCOPES\<rparr>"

definition adapter_principal :: principal where
  "adapter_principal = \<lparr>pr_kind = AdapterPrincipal, pr_endpoint = None, pr_credential = None,
     pr_epoch = None, pr_scopes = [VoiceSession, CaptureSubmit]\<rparr>"

definition endpoint_principal :: "rtext \<Rightarrow> rtext \<Rightarrow> int \<Rightarrow> scope_set \<Rightarrow> principal" where
  "endpoint_principal endpoint credential epoch scopes =
     \<lparr>pr_kind = EndpointPrincipal, pr_endpoint = Some endpoint, pr_credential = Some credential,
      pr_epoch = Some epoch, pr_scopes = scopes\<rparr>"

definition conversation_channel :: "(nat list \<Rightarrow> byte list) \<Rightarrow> principal \<Rightarrow> uuid" where
  "conversation_channel sha256 p =
     (case pr_endpoint p of None \<Rightarrow> owner_channel | Some e \<Rightarrow> channel_for_endpoint sha256 e)"

section \<open>Routes\<close>

datatype http_method = GET | POST | PUT | PATCH | DELETE | OtherMethod

datatype route_scope = PublicRoute | RequiredScope scope | UnknownRoute

abbreviation under :: "string \<Rightarrow> rtext \<Rightarrow> bool" where
  "under p path \<equiv> starts_with (lit p) path"

definition at_or_under :: "string \<Rightarrow> rtext \<Rightarrow> bool" where
  "at_or_under p path \<longleftrightarrow> path = lit p \<or> under (p @ ''/'') path"

definition ends_with :: "rtext \<Rightarrow> rtext \<Rightarrow> bool" where
  "ends_with s t \<longleftrightarrow> strip_suffix s t \<noteq> None"

definition is_personal_data_mutation :: "http_method \<Rightarrow> rtext \<Rightarrow> bool" where
  "is_personal_data_mutation m path \<longleftrightarrow> m \<noteq> GET \<and>
     list_ex (\<lambda>p. at_or_under p path)
       [''/goals'', ''/memory'', ''/souls'', ''/user-profiles'', ''/skills'', ''/workspace'', ''/tools/mcp/config'']"

definition required_scope :: "http_method \<Rightarrow> rtext \<Rightarrow> route_scope" where
  "required_scope m path =
     (if path \<in> {lit ''/health'', lit ''/readyz'', lit ''/v1/hello''} \<or>
         (m = DELETE \<and> path = lit ''/endpoints/self'') then PublicRoute
      else if path = lit ''/events'' then RequiredScope EventsSubscribe
      else if path \<in> {lit ''/voice/stream'', lit ''/voice/preview''} then RequiredScope VoiceSession
      else if path = lit ''/conversation/current'' \<or>
         (under ''/conversation/'' path \<and> ends_with (lit ''/presented'') path)
      then RequiredScope ConversationRead
      else if path = lit ''/runs'' then RequiredScope ConversationRead
      else if path = lit ''/owner-input'' \<or> under ''/owner-input/'' path
      then RequiredScope (if m = GET then ConversationRead else ConversationWrite)
      else if under ''/runs/'' path \<and> sublist (lit ''/inputs/'') path then RequiredScope ProviderAdmin
      else if path = lit ''/message'' \<or> under ''/runs/'' path then RequiredScope ConversationWrite
      else if path = lit ''/privacy/data'' then RequiredScope SettingsWrite
      else if m = GET \<and> list_ex (\<lambda>p. at_or_under p path) [''/agent/jobs'', ''/agent/schedules'']
      then RequiredScope GoalsRead
      else if path = lit ''/memory'' \<or> under ''/souls'' path \<or> under ''/user-profiles'' path \<or>
         path = lit ''/skills'' \<or> under ''/skills/'' path \<or> path = lit ''/workspace'' \<or> under ''/workspace/'' path
      then RequiredScope (if m = GET then MemoryRead else MemoryWrite)
      else if path = lit ''/goals'' \<or> under ''/goals/'' path
      then RequiredScope (if m = GET then GoalsRead else GoalsWrite)
      else if path = lit ''/settings'' then RequiredScope (if m = GET then SettingsRead else SettingsWrite)
      else if path \<in> {lit ''/status'', lit ''/initialization''}
      then RequiredScope (if m = GET then SettingsRead else SettingsWrite)
      else if path = lit ''/config'' \<or> under ''/config/'' path then RequiredScope SettingsWrite
      else if under ''/body/requests/'' path then RequiredScope CaptureSubmit
      else if path = lit ''/endpoints'' \<or> under ''/endpoints/'' path \<or> path = lit ''/pairing/invitations''
      then RequiredScope BodyAdmin
      else if path = lit ''/diagnostics/provider'' then RequiredScope ProviderAdmin
      else if path = lit ''/providers'' \<or> path = lit ''/agent/jobs'' \<or> under ''/agent/jobs/'' path \<or>
         path = lit ''/agent/schedules'' \<or> under ''/agent/schedules/'' path \<or>
         path \<in> {lit ''/agent/context'', lit ''/agent/tools'', lit ''/agent/context/compact''} \<or>
         under ''/providers/'' path \<or> path = lit ''/provider-routes'' \<or> under ''/auth/'' path \<or>
         path = lit ''/models'' \<or> under ''/local-runtime/'' path \<or> under ''/tools/mcp/'' path \<or>
         under ''/voice/install/'' path
      then RequiredScope ProviderAdmin
      else UnknownRoute)"

definition scope_enforcement :: "principal \<Rightarrow> http_method \<Rightarrow> rtext \<Rightarrow> bool" where
  "scope_enforcement p m path =
     (case required_scope m path of
        PublicRoute \<Rightarrow> True | RequiredScope s \<Rightarrow> s \<in> set (pr_scopes p) | UnknownRoute \<Rightarrow> False)"

section \<open>Fixed tokens\<close>

datatype ip_addr = IPv4 "32 word" | IPv6 "128 word"

definition to_canonical :: "ip_addr \<Rightarrow> ip_addr" where
  "to_canonical a = (case a of IPv4 w \<Rightarrow> IPv4 w
     | IPv6 w \<Rightarrow> if drop_bit 32 w = 0xFFFF then IPv4 (ucast w) else IPv6 w)"

definition is_loopback :: "ip_addr \<Rightarrow> bool" where
  "is_loopback a = (case a of IPv4 w \<Rightarrow> drop_bit 24 w = 127 | IPv6 w \<Rightarrow> w = 1)"

datatype server_host = HostAddress ip_addr | HostName rtext

record server_config =
  sv_host :: server_host
  sv_allowed_hosts :: "rtext list"

definition is_networked :: "server_config \<Rightarrow> bool" where
  "is_networked c \<longleftrightarrow> (case sv_host c of HostAddress a \<Rightarrow> \<not> is_loopback a | HostName _ \<Rightarrow> True) \<or>
     sv_allowed_hosts c \<noteq> []"

definition owner_token_allowed :: "server_config \<Rightarrow> ip_addr option \<Rightarrow> bool" where
  "owner_token_allowed c peer \<longleftrightarrow> \<not> is_networked c \<or>
     ((case sv_host c of HostAddress a \<Rightarrow> \<not> is_loopback a | HostName _ \<Rightarrow> False) \<and>
      (case peer of None \<Rightarrow> False | Some p \<Rightarrow> is_loopback (to_canonical p)))"

text \<open>\<open>bearer_auth\<close>: the answer is the principal, or the status of a refusal. \<open>authenticate\<close> is the
  device trust repository's check of an endpoint token.\<close>

definition ENDPOINT_CREDENTIAL_PREFIX :: rtext where "ENDPOINT_CREDENTIAL_PREFIX = lit ''bobe_v2_''"

record api_token =
  tk_token :: "byte list"
  tk_principal :: principal

definition text_bytes :: "rtext \<Rightarrow> byte list" where
  "text_bytes t = map of_nat (as_bytes t)"

definition fixed_bearer_auth :: "api_token \<Rightarrow> rtext option \<Rightarrow> nat + principal" where
  "fixed_bearer_auth token header =
     (case Option.bind header (strip_prefix (lit ''Bearer '')) of
        None \<Rightarrow> Inl 401
      | Some v \<Rightarrow> if constant_time_eq (text_bytes v) (tk_token token) then Inr (tk_principal token) else Inl 401)"

definition bearer_auth ::
  "(rtext \<Rightarrow> app_error + principal option) \<Rightarrow> server_config \<Rightarrow> ip_addr option \<Rightarrow> api_token \<Rightarrow> rtext option \<Rightarrow>
     nat + principal" where
  "bearer_auth authenticate config peer token header =
     (let supplied = Option.bind header (strip_prefix (lit ''Bearer '')) in
      if (case supplied of None \<Rightarrow> False | Some v \<Rightarrow> starts_with ENDPOINT_CREDENTIAL_PREFIX v) then
        (case authenticate (the supplied) of
           Inr (Some p) \<Rightarrow> Inr p | Inr None \<Rightarrow> Inl 401 | Inl e \<Rightarrow> Inl 500)
      else if tk_token token = [] then Inl 401
      else if \<not> (case supplied of None \<Rightarrow> False
                 | Some v \<Rightarrow> constant_time_eq (text_bytes v) (tk_token token)) then Inl 401
      else if pr_kind (tk_principal token) = OwnerPrincipal \<and> \<not> owner_token_allowed config peer then Inl 401
      else Inr (tk_principal token))"

section \<open>Properties\<close>

lemma scope_name_inj: "scope_name a = scope_name b \<Longrightarrow> a = b"
  by (cases a; cases b) (simp_all add: scope_name_def lit_def)

lemma parse_scope_name [simp]: "parse_scope (scope_name s) = Some s"
proof -
  have "s \<in> set ALL_SCOPES" by (cases s) (simp_all add: ALL_SCOPES_def)
  then obtain x where "parse_scope (scope_name s) = Some x"
    unfolding parse_scope_def by (metis (mono_tags, lifting) find_None_iff not_Some_eq)
  moreover from this have "scope_name x = scope_name s" by (auto simp: parse_scope_def find_Some_iff)
  ultimately show ?thesis using scope_name_inj by simp
qed

lemma set_scope_set_from [simp]: "set (scope_set_from ss) = set ss"
  by (simp add: scope_set_from_def)

text \<open>The personal paths, one by one.\<close>

lemma lit_eqs:
  "lit [] = []" "lit p = lit q \<longleftrightarrow> p = q"
  "lit (c # p) = lit (d # q) @ r \<longleftrightarrow> c = d \<and> lit p = lit q @ r"
  "lit (d # q) @ r = lit (c # p) \<longleftrightarrow> c = d \<and> lit p = lit q @ r"
  "lit (c # p) \<noteq> []" "[] \<noteq> lit (c # p)"
  by (auto simp: lit_def inj_map_eq_map inj_of_char)

lemma starts_with_lit:
  "starts_with [] t" "starts_with (lit []) t"
  "starts_with (lit (c # p)) (lit (d # q) @ r) \<longleftrightarrow> c = d \<and> starts_with (lit p) (lit q @ r)"
  "starts_with (lit (c # p)) (lit (d # q)) \<longleftrightarrow> c = d \<and> starts_with (lit p) (lit q)"
  "\<not> starts_with (lit (c # p)) []"
  by (auto simp: starts_with_def lit_def)

lemmas path_eval = required_scope_def at_or_under_def lit_eqs starts_with_lit

definition personal_scope :: "http_method \<Rightarrow> rtext \<Rightarrow> bool" where
  "personal_scope m path \<longleftrightarrow> required_scope m path \<in>
     {RequiredScope MemoryWrite, RequiredScope GoalsWrite, RequiredScope ProviderAdmin, UnknownRoute}"

lemma at_or_underE:
  assumes "at_or_under p path"
  obtains "path = lit p" | r where "path = lit (p @ ''/'') @ r"
  using assms by (auto simp: at_or_under_def starts_with_prefix prefix_def)

lemma personal_goals:
  assumes "m \<noteq> GET" and "at_or_under ''/goals'' path"
  shows "personal_scope m path"
proof (rule at_or_underE [OF assms(2)])
  assume "path = lit ''/goals''"
  with assms(1) show ?thesis by (simp add: personal_scope_def path_eval)
next
  fix r
  assume "path = lit (''/goals'' @ ''/'') @ r"
  with assms(1) show ?thesis by (simp add: personal_scope_def path_eval)
qed

lemma personal_memory:
  assumes "m \<noteq> GET" and "at_or_under ''/memory'' path"
  shows "personal_scope m path"
proof (rule at_or_underE [OF assms(2)])
  assume "path = lit ''/memory''"
  with assms(1) show ?thesis by (simp add: personal_scope_def path_eval)
next
  fix r
  assume "path = lit (''/memory'' @ ''/'') @ r"
  with assms(1) show ?thesis by (simp add: personal_scope_def path_eval)
qed

lemma personal_souls:
  assumes "m \<noteq> GET" and "at_or_under ''/souls'' path"
  shows "personal_scope m path"
proof (rule at_or_underE [OF assms(2)])
  assume "path = lit ''/souls''"
  with assms(1) show ?thesis by (simp add: personal_scope_def path_eval)
next
  fix r
  assume "path = lit (''/souls'' @ ''/'') @ r"
  with assms(1) show ?thesis by (simp add: personal_scope_def path_eval)
qed

lemma personal_user_profiles:
  assumes "m \<noteq> GET" and "at_or_under ''/user-profiles'' path"
  shows "personal_scope m path"
proof (rule at_or_underE [OF assms(2)])
  assume "path = lit ''/user-profiles''"
  with assms(1) show ?thesis by (simp add: personal_scope_def path_eval)
next
  fix r
  assume "path = lit (''/user-profiles'' @ ''/'') @ r"
  with assms(1) show ?thesis by (simp add: personal_scope_def path_eval)
qed

lemma personal_skills:
  assumes "m \<noteq> GET" and "at_or_under ''/skills'' path"
  shows "personal_scope m path"
proof (rule at_or_underE [OF assms(2)])
  assume "path = lit ''/skills''"
  with assms(1) show ?thesis by (simp add: personal_scope_def path_eval)
next
  fix r
  assume "path = lit (''/skills'' @ ''/'') @ r"
  with assms(1) show ?thesis by (simp add: personal_scope_def path_eval)
qed

lemma personal_workspace:
  assumes "m \<noteq> GET" and "at_or_under ''/workspace'' path"
  shows "personal_scope m path"
proof (rule at_or_underE [OF assms(2)])
  assume "path = lit ''/workspace''"
  with assms(1) show ?thesis by (simp add: personal_scope_def path_eval)
next
  fix r
  assume "path = lit (''/workspace'' @ ''/'') @ r"
  with assms(1) show ?thesis by (simp add: personal_scope_def path_eval)
qed

lemma personal_tools_mcp_config:
  assumes "m \<noteq> GET" and "at_or_under ''/tools/mcp/config'' path"
  shows "personal_scope m path"
proof (rule at_or_underE [OF assms(2)])
  assume "path = lit ''/tools/mcp/config''"
  with assms(1) show ?thesis by (simp add: personal_scope_def path_eval)
next
  fix r
  assume "path = lit (''/tools/mcp/config'' @ ''/'') @ r"
  with assms(1) show ?thesis by (simp add: personal_scope_def path_eval)
qed

lemmas personal_paths = personal_goals personal_memory personal_souls personal_user_profiles personal_skills personal_workspace personal_tools_mcp_config

text \<open>A request that changes personal data needs a scope that allows writing it: no scope to read
  or to converse is enough, on any path and with any method.\<close>

theorem personal_data_needs_a_write_scope:
  assumes "is_personal_data_mutation m path" and "scope_enforcement p m path"
  shows "set (pr_scopes p) \<inter> {MemoryWrite, GoalsWrite, ProviderAdmin} \<noteq> {}"
proof -
  from assms(1) have "m \<noteq> GET" by (simp add: is_personal_data_mutation_def)
  moreover from assms(1) have "at_or_under ''/goals'' path \<or> at_or_under ''/memory'' path \<or> at_or_under ''/souls'' path \<or>
      at_or_under ''/user-profiles'' path \<or> at_or_under ''/skills'' path \<or> at_or_under ''/workspace'' path \<or>
      at_or_under ''/tools/mcp/config'' path"
    by (simp add: is_personal_data_mutation_def)
  ultimately have "personal_scope m path" by (elim disjE) (erule (1) personal_paths)+
  with assms(2) show ?thesis by (auto simp: personal_scope_def scope_enforcement_def)
qed

theorem personal_data_needs_a_write_scope_witness:
  "scope_enforcement (endpoint_principal [112] [99] 1 (profile_scopes Phone)) PUT (lit ''/goals/7'') \<and>
   set (profile_scopes Phone) \<inter> {MemoryWrite, GoalsWrite, ProviderAdmin} \<noteq> {}"
proof -
  let ?p = "endpoint_principal [112] [99] 1 (profile_scopes Phone)"
  have "scope_enforcement ?p PUT (lit ''/goals/7'')"
    by (simp add: scope_enforcement_def path_eval endpoint_principal_def profile_scopes_def PHONE_SCOPES_def)
  moreover have "is_personal_data_mutation PUT (lit ''/goals/7'')"
    by (simp add: is_personal_data_mutation_def path_eval)
  ultimately show ?thesis
    using personal_data_needs_a_write_scope [of PUT "lit ''/goals/7''" ?p]
    by (simp add: endpoint_principal_def)
qed

text \<open>On a networked server the owner's rights are only given to who presents the owner's token
  from the machine itself, and never to the holder of an endpoint token.\<close>

theorem owner_rights_stay_local:
  assumes "bearer_auth authenticate config peer token header = Inr p" "pr_kind p = OwnerPrincipal"
    and "is_networked config" "\<And>v q. authenticate v = Inr (Some q) \<Longrightarrow> pr_kind q = EndpointPrincipal"
  shows "(\<exists>v. header = Some (lit ''Bearer '' @ v) \<and> text_bytes v = tk_token token \<and> v \<noteq> []) \<and>
    (\<exists>a. peer = Some a \<and> is_loopback (to_canonical a))"
proof -
  obtain v where v: "header = Some (lit ''Bearer '' @ v)" "strip_prefix (lit ''Bearer '') (lit ''Bearer '' @ v) = Some v"
    using assms(1) by (auto simp: bearer_auth_def Let_def strip_prefix_Some split: option.splits if_splits Option.bind_splits)
  have "\<not> starts_with ENDPOINT_CREDENTIAL_PREFIX v"
    using assms(1,2,4) v by (auto simp: bearer_auth_def split: sum.splits option.splits)
  then have "constant_time_eq (text_bytes v) (tk_token token)" "tk_token token \<noteq> []" "p = tk_principal token"
    "owner_token_allowed config peer"
    using assms(1,2) v by (auto simp: bearer_auth_def split: if_splits)
  with assms(3) show ?thesis
    by (auto simp: v(1) constant_time_eq_iff owner_token_allowed_def text_bytes_def as_bytes_def split: option.splits)
qed

theorem owner_rights_stay_local_witness:
  "bearer_auth (\<lambda>_. Inr None) \<lparr>sv_host = HostAddress (IPv4 0), sv_allowed_hosts = []\<rparr> (Some (IPv4 0x7F000001))
     \<lparr>tk_token = [115], tk_principal = owner_principal\<rparr> (Some (lit ''Bearer '' @ [115])) = Inr owner_principal \<and>
   is_loopback (to_canonical (IPv4 0x7F000001))"
proof -
  let ?c = "\<lparr>sv_host = HostAddress (IPv4 0), sv_allowed_hosts = []\<rparr>" and ?t = "\<lparr>tk_token = [115], tk_principal = owner_principal\<rparr>"
  have "is_networked ?c" by (simp add: is_networked_def is_loopback_def)
  moreover have "strip_prefix (lit ''Bearer '') (lit ''Bearer '' @ [115]) = Some [115]" by simp
  ultimately have "bearer_auth (\<lambda>_. Inr None) ?c (Some (IPv4 0x7F000001)) ?t (Some (lit ''Bearer '' @ [115])) = Inr owner_principal"
    by (simp add: bearer_auth_def starts_with_def ENDPOINT_CREDENTIAL_PREFIX_def lit_def owner_principal_def
        owner_token_allowed_def is_networked_def is_loopback_def to_canonical_def constant_time_eq_iff
        text_bytes_def as_bytes_def utf8_char_def)
  from owner_rights_stay_local [OF this] this show ?thesis
    by (simp add: owner_principal_def is_networked_def is_loopback_def)
qed

end
