(* ===== verification/Device_Trust.thy ===== *)
theory Device_Trust
  imports Access_Control Durable_Tables
begin

text \<open>
  Paired devices: \<open>src/BoBeService/src/db/endpoint_repo.rs\<close> and \<open>db/device_trust_repo.rs\<close> on the
  tables \<open>endpoints\<close>, \<open>endpoint_credentials\<close> and \<open>endpoint_scope_grants\<close> of \<open>schema.sql\<close>, and the
  bearer tokens they issue. The sha2 crate, whether a text is JSON and how uuid prints an identifier
  with hyphens are parameters. A new identifier and the random secret are arguments. The checks and
  the update of \<open>authenticate_bearer\<close> are one step.
\<close>

section \<open>Tables\<close>

record endpoint_upsert =
  up_id :: rtext
  up_kind :: rtext
  up_label :: rtext
  up_room :: "rtext option"
  up_certificate :: "byte list option"
  up_protocol_min :: int
  up_protocol_max :: int
  up_capabilities :: rtext

record endpoint_row =
  ep_id :: rtext
  ep_kind :: rtext
  ep_label :: rtext
  ep_room :: "rtext option"
  ep_certificate :: "byte list option"
  ep_protocol_min :: int
  ep_protocol_max :: int
  ep_capabilities :: rtext
  ep_observed :: rtext
  ep_revoked_at :: "int option"
  ep_created_at :: int
  ep_updated_at :: int

datatype credential_kind = BearerCredential | BodyCertificate

record credential_row =
  cr_id :: rtext
  cr_endpoint :: rtext
  cr_kind :: credential_kind
  cr_lookup :: "rtext option"
  cr_verifier :: "byte list option"
  cr_certificate :: "byte list option"
  cr_epoch :: "int option"
  cr_generation :: int
  cr_last_used :: "int option"
  cr_revoked_at :: "int option"

record grant_row =
  gr_endpoint :: rtext
  gr_scope :: rtext
  gr_granted_at :: int
  gr_revoked_at :: "int option"

record trust_db =
  endpoints :: "endpoint_row list"
  credentials :: "credential_row list"
  grants :: "grant_row list"

type_synonym 'a trust_outcome = "(app_error + 'a) \<times> trust_db"

definition unique_violation :: app_error where
  "unique_violation = Database ''UNIQUE constraint failed''"

abbreviation live_endpoint :: "rtext \<Rightarrow> endpoint_row \<Rightarrow> bool" where
  "live_endpoint e r \<equiv> ep_id r = e \<and> ep_revoked_at r = None"

abbreviation live_bearer :: "rtext \<Rightarrow> credential_row \<Rightarrow> bool" where
  "live_bearer e c \<equiv> cr_endpoint c = e \<and> cr_kind c = BearerCredential \<and> cr_revoked_at c = None"

abbreviation live_grant :: "rtext \<Rightarrow> grant_row \<Rightarrow> bool" where
  "live_grant e g \<equiv> gr_endpoint g = e \<and> gr_revoked_at g = None"

section \<open>Endpoints\<close>

definition validate_endpoint :: "(rtext \<Rightarrow> bool) \<Rightarrow> endpoint_upsert \<Rightarrow> app_error + unit" where
  "validate_endpoint is_json u =
     (if up_id u = [] \<or> 64 < str_len (up_id u) then Inl (Config ''endpoint id must contain 1-64 characters'')
      else if up_id u = lit ''self'' then Inl (Config ''endpoint id self is reserved'')
      else if up_kind u \<notin> {lit ''physical_body'', lit ''mac_app'', lit ''other''}
      then Inl (Config ''unsupported endpoint kind'')
      else if trim (up_label u) = [] \<or> 128 < str_len (up_label u)
      then Inl (Config ''endpoint label must contain 1-128 characters'')
      else if up_protocol_min u < 1 \<or> up_protocol_max u < up_protocol_min u
      then Inl (Config ''invalid endpoint protocol range'')
      else if \<not> is_json (up_capabilities u) then Inl (Config ''invalid endpoint capabilities'')
      else if up_kind u = lit ''physical_body'' \<and>
         (case up_certificate u of None \<Rightarrow> True | Some d \<Rightarrow> length d \<noteq> 32)
      then Inl (Config ''physical body endpoint requires a SHA-256 certificate digest'')
      else Inr ())"

definition new_endpoint :: "int \<Rightarrow> endpoint_upsert \<Rightarrow> endpoint_row" where
  "new_endpoint now u =
     \<lparr>ep_id = up_id u, ep_kind = up_kind u, ep_label = up_label u, ep_room = up_room u,
      ep_certificate = up_certificate u, ep_protocol_min = up_protocol_min u,
      ep_protocol_max = up_protocol_max u, ep_capabilities = up_capabilities u, ep_observed = lit ''{}'',
      ep_revoked_at = None, ep_created_at = millis now, ep_updated_at = millis now\<rparr>"

definition merge_endpoint :: "int \<Rightarrow> endpoint_upsert \<Rightarrow> endpoint_row \<Rightarrow> endpoint_row" where
  "merge_endpoint now u r =
     r\<lparr>ep_kind := up_kind u, ep_label := up_label u, ep_room := up_room u, ep_certificate := up_certificate u,
       ep_protocol_min := up_protocol_min u, ep_protocol_max := up_protocol_max u,
       ep_capabilities := up_capabilities u, ep_updated_at := millis now\<rparr>"

definition upsert_active :: "int \<Rightarrow> endpoint_upsert \<Rightarrow> trust_db \<Rightarrow> unit trust_outcome" where
  "upsert_active now u db =
     (let taken = up_certificate u \<noteq> None \<and>
            list_ex (\<lambda>r. ep_id r \<noteq> up_id u \<and> ep_certificate r = up_certificate u) (endpoints db)
      in case find (\<lambda>r. ep_id r = up_id u) (endpoints db) of
           None \<Rightarrow> if taken then (Inl unique_violation, db)
                  else (Inr (), db\<lparr>endpoints := endpoints db @ [new_endpoint now u]\<rparr>)
         | Some r \<Rightarrow> if ep_revoked_at r \<noteq> None
                  then (Inl (Conflict ''endpoint is revoked and cannot be reactivated''), db)
                  else if taken then (Inl unique_violation, db)
                  else (Inr (), db\<lparr>endpoints :=
                     sql_update (live_endpoint (up_id u)) (merge_endpoint now u) (endpoints db)\<rparr>))"

definition body_credential_id :: "rtext \<Rightarrow> rtext" where
  "body_credential_id e = lit ''body-cert-'' @ e"

definition body_credential :: "rtext \<Rightarrow> byte list option \<Rightarrow> credential_row" where
  "body_credential e certificate =
     \<lparr>cr_id = body_credential_id e, cr_endpoint = e, cr_kind = BodyCertificate, cr_lookup = None,
      cr_verifier = None, cr_certificate = certificate, cr_epoch = None, cr_generation = 1,
      cr_last_used = None, cr_revoked_at = None\<rparr>"

definition upsert_body_credential :: "rtext \<Rightarrow> byte list option \<Rightarrow> trust_db \<Rightarrow> unit trust_outcome" where
  "upsert_body_credential e certificate db =
     (if certificate \<noteq> None \<and>
         list_ex (\<lambda>c. cr_id c \<noteq> body_credential_id e \<and> cr_certificate c = certificate) (credentials db)
      then (Inl unique_violation, db)
      else if list_ex (\<lambda>c. cr_id c = body_credential_id e) (credentials db)
      then (Inr (), db\<lparr>credentials := sql_update (\<lambda>c. cr_id c = body_credential_id e)
              (\<lambda>c. c\<lparr>cr_certificate := certificate, cr_revoked_at := None\<rparr>) (credentials db)\<rparr>)
      else if list_ex (\<lambda>c. cr_endpoint c = e \<and> cr_kind c = BodyCertificate \<and> cr_generation c = 1) (credentials db)
      then (Inl unique_violation, db)
      else (Inr (), db\<lparr>credentials := credentials db @ [body_credential e certificate]\<rparr>))"

definition upsert_endpoint :: "(rtext \<Rightarrow> bool) \<Rightarrow> int \<Rightarrow> endpoint_upsert \<Rightarrow> trust_db \<Rightarrow> unit trust_outcome" where
  "upsert_endpoint is_json now u db =
     (case validate_endpoint is_json u of
        Inl e \<Rightarrow> (Inl e, db)
      | Inr _ \<Rightarrow>
          (case upsert_active now u db of
             (Inl e, _) \<Rightarrow> (Inl e, db)
           | (Inr _, db1) \<Rightarrow>
               if up_kind u = lit ''physical_body'' then
                 (case upsert_body_credential (up_id u) (up_certificate u) db1 of
                    (Inl e, _) \<Rightarrow> (Inl e, db) | (Inr _, db2) \<Rightarrow> (Inr (), db2))
               else (Inr (), db1)))"

definition active_by_id :: "rtext \<Rightarrow> trust_db \<Rightarrow> endpoint_row option" where
  "active_by_id e db = find (live_endpoint e) (endpoints db)"

definition update_observed_capabilities ::
  "(rtext \<Rightarrow> bool) \<Rightarrow> int \<Rightarrow> rtext \<Rightarrow> rtext \<Rightarrow> trust_db \<Rightarrow> bool trust_outcome" where
  "update_observed_capabilities is_json now e capabilities db =
     (if \<not> is_json capabilities then (Inl (Config ''invalid endpoint capabilities''), db)
      else (Inr (length (filter (live_endpoint e) (endpoints db)) = 1),
        db\<lparr>endpoints := sql_update (live_endpoint e)
             (\<lambda>r. r\<lparr>ep_observed := capabilities, ep_updated_at := millis now\<rparr>) (endpoints db)\<rparr>))"

definition list_endpoints :: "trust_db \<Rightarrow> endpoint_row list" where
  "list_endpoints db = sort_key (\<lambda>r. (ep_created_at r, ep_id r)) (endpoints db)"

section \<open>Bearer tokens\<close>

definition SECRET_BYTES :: nat where "SECRET_BYTES = 32"

definition bearer_verifier :: "(nat list \<Rightarrow> byte list) \<Rightarrow> rtext \<Rightarrow> byte list \<Rightarrow> byte list" where
  "bearer_verifier sha256 lookup secret =
     sha256 (as_bytes (lit ''bobe.endpoint.bearer.v2'') @ [0] @ as_bytes lookup @ map unat secret)"

definition bearer_token :: "rtext \<Rightarrow> byte list \<Rightarrow> rtext" where
  "bearer_token lookup secret = ENDPOINT_CREDENTIAL_PREFIX @ lookup @ lit ''_'' @ hex_encode secret"

definition split_once :: "uchar \<Rightarrow> rtext \<Rightarrow> (rtext \<times> rtext) option" where
  "split_once c s = (case dropWhile (\<lambda>x. x \<noteq> c) s of
     [] \<Rightarrow> None | _ # rest \<Rightarrow> Some (takeWhile (\<lambda>x. x \<noteq> c) s, rest))"

definition parse_bearer :: "rtext \<Rightarrow> (rtext \<times> byte list) option" where
  "parse_bearer token =
     (case strip_prefix ENDPOINT_CREDENTIAL_PREFIX token of
        None \<Rightarrow> None
      | Some body \<Rightarrow>
          (case split_once (cp (CHR ''_'')) body of
             None \<Rightarrow> None
           | Some (lookup, encoded) \<Rightarrow>
               if str_len lookup \<noteq> 32 \<or> \<not> list_all (\<lambda>b. to_digit16 b \<noteq> None) (as_bytes lookup) then None
               else case hex_decode encoded of
                      None \<Rightarrow> None
                    | Some secret \<Rightarrow> if length secret = SECRET_BYTES then Some (lookup, secret) else None))"

section \<open>Trust\<close>

record issued_bearer =
  ib_endpoint :: rtext
  ib_token :: rtext
  ib_superseded :: "rtext list"

record authenticated =
  au_endpoint :: rtext
  au_credential :: rtext
  au_epoch :: int
  au_scopes :: scope_set

text \<open>The grants of an endpoint become the requested ones: others are revoked, missing ones inserted
  under the key of endpoint, scope and time.\<close>

definition revoke_other_grants :: "int \<Rightarrow> rtext \<Rightarrow> rtext set \<Rightarrow> trust_db \<Rightarrow> trust_db" where
  "revoke_other_grants now e requested db =
     db\<lparr>grants := sql_update (\<lambda>g. live_grant e g \<and> gr_scope g \<notin> requested)
          (\<lambda>g. g\<lparr>gr_revoked_at := Some (millis now)\<rparr>) (grants db)\<rparr>"

definition insert_grant :: "int \<Rightarrow> rtext \<Rightarrow> rtext \<Rightarrow> trust_db \<Rightarrow> unit trust_outcome" where
  "insert_grant now e s db =
     (if list_ex (\<lambda>g. gr_endpoint g = e \<and> gr_scope g = s \<and> gr_granted_at g = millis now) (grants db)
      then (Inl unique_violation, db)
      else (Inr (), db\<lparr>grants := grants db @
         [\<lparr>gr_endpoint = e, gr_scope = s, gr_granted_at = millis now, gr_revoked_at = None\<rparr>]\<rparr>))"

fun insert_grants :: "int \<Rightarrow> rtext \<Rightarrow> rtext list \<Rightarrow> trust_db \<Rightarrow> unit trust_outcome" where
  "insert_grants now e [] db = (Inr (), db)"
| "insert_grants now e (s # ss) db =
     (case insert_grant now e s db of
        (Inl x, db1) \<Rightarrow> (Inl x, db1)
      | (Inr _, db1) \<Rightarrow> insert_grants now e ss db1)"

definition next_generation :: "rtext \<Rightarrow> trust_db \<Rightarrow> int" where
  "next_generation e db =
     (case map cr_generation (filter (\<lambda>c. cr_endpoint c = e \<and> cr_kind c = BearerCredential) (credentials db)) of
        [] \<Rightarrow> 1 | g # gs \<Rightarrow> fold max gs g + 1)"

definition new_bearer :: "rtext \<Rightarrow> rtext \<Rightarrow> rtext \<Rightarrow> byte list \<Rightarrow> int \<Rightarrow> int \<Rightarrow> credential_row" where
  "new_bearer credential e lookup verifier epoch generation =
     \<lparr>cr_id = credential, cr_endpoint = e, cr_kind = BearerCredential, cr_lookup = Some lookup,
      cr_verifier = Some verifier, cr_certificate = None, cr_epoch = Some epoch,
      cr_generation = generation, cr_last_used = None, cr_revoked_at = None\<rparr>"

definition insert_credential :: "credential_row \<Rightarrow> trust_db \<Rightarrow> unit trust_outcome" where
  "insert_credential c db =
     (if list_ex (\<lambda>x. cr_id x = cr_id c \<or> (cr_lookup c \<noteq> None \<and> cr_lookup x = cr_lookup c) \<or>
           (cr_endpoint x = cr_endpoint c \<and> cr_kind x = cr_kind c \<and> cr_generation x = cr_generation c))
         (credentials db)
      then (Inl unique_violation, db)
      else (Inr (), db\<lparr>credentials := credentials db @ [c]\<rparr>))"

definition supersede_bearers :: "int \<Rightarrow> rtext \<Rightarrow> rtext \<Rightarrow> trust_db \<Rightarrow> trust_db" where
  "supersede_bearers now e credential db =
     db\<lparr>credentials := sql_update (\<lambda>c. live_bearer e c \<and> cr_id c \<noteq> credential)
          (\<lambda>c. c\<lparr>cr_revoked_at := Some (millis now)\<rparr>) (credentials db)\<rparr>"

record trust_env =
  tr_sha256 :: "nat list \<Rightarrow> byte list"
  tr_is_json :: "rtext \<Rightarrow> bool"
  tr_print_id :: "uuid \<Rightarrow> rtext"

definition enroll_transaction ::
  "trust_env \<Rightarrow> int \<Rightarrow> rtext \<Rightarrow> rtext \<Rightarrow> byte list \<Rightarrow> endpoint_upsert \<Rightarrow> scope list \<Rightarrow> int \<Rightarrow> trust_db \<Rightarrow>
     rtext list trust_outcome" where
  "enroll_transaction env now credential lookup secret u scopes epoch db =
     (case find (\<lambda>r. live_endpoint (up_id u) r \<and> ep_kind r \<noteq> up_kind u) (endpoints db) of
        Some _ \<Rightarrow> (Inl (Conflict ''endpoint is enrolled as another kind''), db)
      | None \<Rightarrow>
          (case upsert_active now u db of
             (Inl e, db1) \<Rightarrow> (Inl e, db1)
           | (Inr _, db1) \<Rightarrow>
               let active = map gr_scope (filter (live_grant (up_id u)) (grants db1));
                   db2 = revoke_other_grants now (up_id u) (scope_name ` set scopes) db1
               in case insert_grants now (up_id u) (map scope_name (filter (\<lambda>s. scope_name s \<notin> set active) scopes)) db2 of
                    (Inl e, db3) \<Rightarrow> (Inl e, db3)
                  | (Inr _, db3) \<Rightarrow>
                      let superseded = map cr_id (filter (live_bearer (up_id u)) (credentials db3));
                          c = new_bearer credential (up_id u) lookup (bearer_verifier (tr_sha256 env) lookup secret)
                                epoch (next_generation (up_id u) db3)
                      in case insert_credential c db3 of
                           (Inl e, db4) \<Rightarrow> (Inl e, db4)
                         | (Inr _, db4) \<Rightarrow> (Inr superseded, supersede_bearers now (up_id u) credential db4)))"

definition enroll_endpoint_with_bearer ::
  "trust_env \<Rightarrow> int \<Rightarrow> uuid \<Rightarrow> uuid \<Rightarrow> byte list \<Rightarrow> endpoint_upsert \<Rightarrow> scope list \<Rightarrow> int \<Rightarrow> trust_db \<Rightarrow>
     issued_bearer trust_outcome" where
  "enroll_endpoint_with_bearer env now credential lookup secret u scopes epoch db =
     (if epoch < 1 then (Inl (Config ''authority epoch must be positive''), db)
      else case validate_endpoint (tr_is_json env) u of
        Inl e \<Rightarrow> (Inl e, db)
      | Inr _ \<Rightarrow>
          if up_kind u = lit ''physical_body''
          then (Inl (Config ''bearer enrollment does not support physical body endpoints''), db)
          else (case enroll_transaction env now (tr_print_id env credential) (uuid_simple lookup) secret u scopes epoch db of
             (Inl e, _) \<Rightarrow> (Inl e, db)
           | (Inr superseded, db1) \<Rightarrow>
               (Inr \<lparr>ib_endpoint = up_id u, ib_token = bearer_token (uuid_simple lookup) secret,
                  ib_superseded = superseded\<rparr>, db1)))"

definition endpoint_scopes :: "rtext \<Rightarrow> trust_db \<Rightarrow> app_error + scope_set" where
  "endpoint_scopes e db =
     (let rows = map parse_scope (sort (map gr_scope (filter (live_grant e) (grants db))))
      in if None \<in> set rows then Inl (Config ''unknown stored scope'') else Inr (scope_set_from (map the rows)))"

definition FIVE_MINUTES :: int where "FIVE_MINUTES = 5 * 60 * 1000000000"

definition unused_for_five_minutes :: "int \<Rightarrow> credential_row \<Rightarrow> bool" where
  "unused_for_five_minutes now c \<longleftrightarrow>
     (case cr_last_used c of None \<Rightarrow> True | Some used \<Rightarrow> used \<le> millis (now - FIVE_MINUTES))"

definition bearer_row :: "rtext \<Rightarrow> trust_db \<Rightarrow> credential_row option" where
  "bearer_row lookup db =
     find (\<lambda>c. cr_lookup c = Some lookup \<and> cr_kind c = BearerCredential \<and> cr_revoked_at c = None \<and>
       list_ex (live_endpoint (cr_endpoint c)) (endpoints db)) (credentials db)"

definition authenticate_bearer ::
  "trust_env \<Rightarrow> int \<Rightarrow> rtext \<Rightarrow> int \<Rightarrow> trust_db \<Rightarrow> authenticated option trust_outcome" where
  "authenticate_bearer env now token epoch db =
     (case parse_bearer token of
        None \<Rightarrow> (Inr None, db)
      | Some (lookup, secret) \<Rightarrow>
          (case bearer_row lookup db of
             None \<Rightarrow> (Inr None, db)
           | Some c \<Rightarrow>
               if cr_epoch c \<noteq> Some epoch then (Inr None, db)
               else if \<not> constant_time_eq (case cr_verifier c of None \<Rightarrow> [] | Some v \<Rightarrow> v)
                      (bearer_verifier (tr_sha256 env) lookup secret)
               then (Inr None, db)
               else (case endpoint_scopes (cr_endpoint c) db of
                  Inl e \<Rightarrow> (Inl e, db)
                | Inr scopes \<Rightarrow>
                    (Inr (Some \<lparr>au_endpoint = cr_endpoint c, au_credential = cr_id c, au_epoch = epoch, au_scopes = scopes\<rparr>),
                     if unused_for_five_minutes now c
                     then db\<lparr>credentials := sql_update (\<lambda>x. cr_id x = cr_id c \<and> unused_for_five_minutes now x)
                            (\<lambda>x. x\<lparr>cr_last_used := Some (millis now)\<rparr>) (credentials db)\<rparr>
                     else db))))"

definition revoke_endpoint :: "int \<Rightarrow> rtext \<Rightarrow> trust_db \<Rightarrow> bool \<times> trust_db" where
  "revoke_endpoint now e db =
     (if length (filter (live_endpoint e) (endpoints db)) \<noteq> 1 then (False, db)
      else (True, db\<lparr>
        endpoints := sql_update (live_endpoint e)
          (\<lambda>r. r\<lparr>ep_revoked_at := Some (millis now), ep_updated_at := millis now\<rparr>) (endpoints db),
        credentials := sql_update (\<lambda>c. cr_endpoint c = e \<and> cr_revoked_at c = None)
          (\<lambda>c. c\<lparr>cr_revoked_at := Some (millis now)\<rparr>) (credentials db),
        grants := sql_update (live_grant e) (\<lambda>g. g\<lparr>gr_revoked_at := Some (millis now)\<rparr>) (grants db)\<rparr>))"

definition active_body_credentials :: "trust_db \<Rightarrow> (endpoint_row \<times> byte list) list" where
  "active_body_credentials db =
     concat (map (\<lambda>r. map (\<lambda>c. (r, case cr_certificate c of None \<Rightarrow> [] | Some d \<Rightarrow> d))
        (filter (\<lambda>c. cr_endpoint c = ep_id r \<and> cr_kind c = BodyCertificate \<and> cr_revoked_at c = None) (credentials db)))
      (filter (\<lambda>r. ep_kind r = lit ''physical_body'' \<and> ep_revoked_at r = None) (endpoints db)))"

text \<open>The authentication of \<open>bearer_auth\<close>.\<close>

definition endpoint_login ::
  "trust_env \<Rightarrow> int \<Rightarrow> int \<Rightarrow> trust_db \<Rightarrow> rtext \<Rightarrow> app_error + principal option" where
  "endpoint_login env now epoch db token =
     (case fst (authenticate_bearer env now token epoch db) of
        Inl e \<Rightarrow> Inl e
      | Inr None \<Rightarrow> Inr None
      | Inr (Some a) \<Rightarrow> Inr (Some (endpoint_principal (au_endpoint a) (au_credential a) (au_epoch a) (au_scopes a))))"

inductive trust_step :: "trust_env \<Rightarrow> trust_db \<Rightarrow> trust_db \<Rightarrow> bool" for env :: trust_env where
  upserts: "trust_step env db (snd (upsert_endpoint (tr_is_json env) now u db))"
| observes: "trust_step env db (snd (update_observed_capabilities (tr_is_json env) now e capabilities db))"
| enrolls: "trust_step env db (snd (enroll_endpoint_with_bearer env now credential lookup secret u scopes epoch db))"
| authenticates: "trust_step env db (snd (authenticate_bearer env now token epoch db))"
| revokes: "trust_step env db (snd (revoke_endpoint now e db))"

section \<open>Tokens\<close>

lemma length_uuid_simple: "length (uuid_simple u) = 32"
  by (simp add: uuid_simple_def length_hex_encode)

lemma hex_encode_digits: "x \<in> set (hex_encode bs) \<Longrightarrow> x < 128 \<and> to_digit16 x \<noteq> None \<and> x \<noteq> cp (CHR ''_'')"
  using nibbles_lt hex_digit_ascii to_digit16_hex_digit hex_digit_no_underscore
  by (fastforce simp: hex_encode_def)

lemma uuid_simple_digits: "x \<in> set (uuid_simple u) \<Longrightarrow> x < 128 \<and> to_digit16 x \<noteq> None \<and> x \<noteq> cp (CHR ''_'')"
  unfolding uuid_simple_def by (rule hex_encode_digits)

lemma as_bytes_uuid_simple: "as_bytes (uuid_simple u) = uuid_simple u"
  by (rule as_bytes_ascii) (use uuid_simple_digits in blast)

lemma str_len_uuid_simple: "str_len (uuid_simple u) = 32"
  by (metis as_bytes_uuid_simple length_as_bytes length_uuid_simple)

lemma split_once_append: "c \<notin> set a \<Longrightarrow> split_once c (a @ c # b) = Some (a, b)"
proof -
  assume "c \<notin> set a"
  then have "dropWhile (\<lambda>x. x \<noteq> c) (a @ c # b) = c # b" "takeWhile (\<lambda>x. x \<noteq> c) (a @ c # b) = a"
    by (induction a) auto
  then show ?thesis by (simp add: split_once_def)
qed

lemma parse_bearer_token:
  assumes "length secret = SECRET_BYTES"
  shows "parse_bearer (bearer_token (uuid_simple lookup) secret) = Some (uuid_simple lookup, secret)"
proof -
  have "cp (CHR ''_'') \<notin> set (uuid_simple lookup)" using uuid_simple_digits by blast
  then have "split_once (cp (CHR ''_'')) (uuid_simple lookup @ lit ''_'' @ hex_encode secret) =
      Some (uuid_simple lookup, hex_encode secret)"
    using split_once_append by (simp add: lit_def)
  moreover have "list_all (\<lambda>b. to_digit16 b \<noteq> None) (as_bytes (uuid_simple lookup))"
    using uuid_simple_digits by (auto simp: as_bytes_uuid_simple list_all_iff)
  ultimately show ?thesis
    using assms by (simp add: parse_bearer_def bearer_token_def str_len_uuid_simple hex_decode_encode)
qed

section \<open>What each operation does\<close>

lemma upsert_active_result:
  assumes "upsert_active now u db = (Inr (), db')"
  shows "\<exists>rows. db' = db\<lparr>endpoints := rows\<rparr>" and "list_ex (live_endpoint (up_id u)) (endpoints db')"
proof -
  show "\<exists>rows. db' = db\<lparr>endpoints := rows\<rparr>"
    using assms by (auto simp: upsert_active_def Let_def split: option.splits if_splits)
  show "list_ex (live_endpoint (up_id u)) (endpoints db')"
  proof (cases "find (\<lambda>r. ep_id r = up_id u) (endpoints db)")
    case None
    then show ?thesis using assms by (auto simp: upsert_active_def Let_def new_endpoint_def split: if_splits)
  next
    case (Some r)
    then have r: "r \<in> set (endpoints db)" "ep_id r = up_id u" by (auto simp: find_Some_iff)
    then have "ep_revoked_at r = None" and
      db': "endpoints db' = sql_update (live_endpoint (up_id u)) (merge_endpoint now u) (endpoints db)"
      using assms Some by (auto simp: upsert_active_def Let_def split: if_splits)
    with r have "merge_endpoint now u r \<in> set (endpoints db')"
      using in_sql_update [OF r(1), of "live_endpoint (up_id u)" "merge_endpoint now u"] by simp
    moreover have "live_endpoint (up_id u) (merge_endpoint now u r)"
      using r \<open>ep_revoked_at r = None\<close> by (simp add: merge_endpoint_def)
    ultimately show ?thesis unfolding list_ex_iff by blast
  qed
qed

lemma find_append: "find p (xs @ ys) = (case find p xs of None \<Rightarrow> find p ys | Some x \<Rightarrow> Some x)"
  by (induction xs) auto

lemma revoke_other_grants_fields [simp]:
  "endpoints (revoke_other_grants now e requested db) = endpoints db"
  "credentials (revoke_other_grants now e requested db) = credentials db"
  by (simp_all add: revoke_other_grants_def)

lemma supersede_fields [simp]:
  "endpoints (supersede_bearers now e c db) = endpoints db" "grants (supersede_bearers now e c db) = grants db"
  by (simp_all add: supersede_bearers_def)

lemma insert_grants_result:
  "insert_grants now e ss db = (Inr (), db') \<Longrightarrow>
     endpoints db' = endpoints db \<and> credentials db' = credentials db \<and>
     grants db' = grants db @
       map (\<lambda>s. \<lparr>gr_endpoint = e, gr_scope = s, gr_granted_at = millis now, gr_revoked_at = None\<rparr>) ss"
  by (induction ss arbitrary: db) (auto simp: insert_grant_def split: if_splits prod.splits sum.splits)

lemma enroll_transaction_result:
  assumes "enroll_transaction env now credential lookup secret u scopes epoch db = (Inr superseded, db')"
  obtains db1 db3 c where
    "upsert_active now u db = (Inr (), db1)"
    "insert_grants now (up_id u) (map scope_name (filter (\<lambda>s. scope_name s \<notin>
        set (map gr_scope (filter (live_grant (up_id u)) (grants db1)))) scopes))
        (revoke_other_grants now (up_id u) (scope_name ` set scopes) db1) = (Inr (), db3)"
    "c = new_bearer credential (up_id u) lookup (bearer_verifier (tr_sha256 env) lookup secret) epoch
        (next_generation (up_id u) db3)"
    "\<forall>x \<in> set (credentials db3). cr_id x \<noteq> credential \<and> cr_lookup x \<noteq> Some lookup"
    "db' = supersede_bearers now (up_id u) credential (db3\<lparr>credentials := credentials db3 @ [c]\<rparr>)"
  using assms
  by (auto simp: enroll_transaction_def insert_credential_def new_bearer_def Let_def list_ex_iff image_image
      split: option.splits prod.splits sum.splits if_splits)

lemma enroll_result:
  assumes "enroll_endpoint_with_bearer env now credential lookup secret u scopes epoch db = (Inr b, db')"
  shows "\<exists>superseded. enroll_transaction env now (tr_print_id env credential) (uuid_simple lookup) secret u scopes epoch db =
      (Inr superseded, db') \<and>
    b = \<lparr>ib_endpoint = up_id u, ib_token = bearer_token (uuid_simple lookup) secret, ib_superseded = superseded\<rparr>"
  using assms
  by (auto simp: enroll_endpoint_with_bearer_def split: if_splits sum.splits prod.splits)

lemma grants_of_update: "grants (db\<lparr>grants := x\<rparr>) = x"
  by simp

lemma live_scopes_after:
  assumes "insert_grants now e (map scope_name (filter (\<lambda>s. scope_name s \<notin>
        set (map gr_scope (filter (live_grant e) (grants db1)))) scopes))
        (revoke_other_grants now e (scope_name ` set scopes) db1) = (Inr (), db3)"
  shows "gr_scope ` {g \<in> set (grants db3). live_grant e g} = scope_name ` set scopes"
proof -
  let ?other = "\<lambda>g. live_grant e g \<and> gr_scope g \<notin> scope_name ` set scopes"
  let ?rows = "sql_update ?other (\<lambda>g. g\<lparr>gr_revoked_at := Some (millis now)\<rparr>) (grants db1)"
  let ?active = "gr_scope ` {g \<in> set (grants db1). live_grant e g}"
  let ?row = "\<lambda>s. \<lparr>gr_endpoint = e, gr_scope = s, gr_granted_at = millis now, gr_revoked_at = None\<rparr>"
  let ?new = "map scope_name (filter (\<lambda>s. scope_name s \<notin> ?active) scopes)"
  have kept: "gr_scope ` {g \<in> set ?rows. live_grant e g} = ?active \<inter> scope_name ` set scopes"
  proof -
    have "{g \<in> set ?rows. live_grant e g} = {g \<in> set (grants db1). live_grant e g \<and> gr_scope g \<in> scope_name ` set scopes}"
      unfolding set_sql_update by (rule set_eqI) (fastforce split: if_splits)
    then show ?thesis by blast
  qed
  have "set (map gr_scope (filter (live_grant e) (grants db1))) = ?active" by simp
  then have "grants db3 = ?rows @ map ?row ?new"
    using insert_grants_result [OF assms] by (simp only: revoke_other_grants_def grants_of_update)
  then have "{g \<in> set (grants db3). live_grant e g} = {g \<in> set ?rows. live_grant e g} \<union> set (map ?row ?new)"
    by auto
  then have "gr_scope ` {g \<in> set (grants db3). live_grant e g} = (?active \<inter> scope_name ` set scopes) \<union> set ?new"
    by (simp only: image_Un kept set_map image_image grant_row.simps image_ident)
  then show ?thesis by auto
qed

lemma endpoint_scopes_of:
  assumes "gr_scope ` {g \<in> set (grants db). live_grant e g} = scope_name ` set scopes"
  obtains ss where "endpoint_scopes e db = Inr ss" "set ss = set scopes"
proof -
  let ?rows = "map parse_scope (sort (map gr_scope (filter (live_grant e) (grants db))))"
  have "set ?rows = parse_scope ` gr_scope ` {g \<in> set (grants db). live_grant e g}" by auto
  also have "\<dots> = Some ` set scopes" unfolding assms image_image by simp
  finally have rows: "set ?rows = Some ` set scopes" .
  then have "None \<notin> set ?rows" by auto
  then have "endpoint_scopes e db = Inr (scope_set_from (map the ?rows))"
    unfolding endpoint_scopes_def Let_def by (rule if_not_P)
  moreover have "set (scope_set_from (map the ?rows)) = the ` set ?rows"
    by (simp only: set_scope_set_from set_map)
  then have "set (scope_set_from (map the ?rows)) = the ` Some ` set scopes" unfolding rows .
  then have "set (scope_set_from (map the ?rows)) = set scopes" by (simp add: image_image)
  ultimately show thesis by (rule that)
qed

section \<open>Properties\<close>

text \<open>Enrolling a device issues one token. It authenticates the device in the epoch it was issued
  in, with exactly the scopes asked for, and no other bearer credential of the device stays live.\<close>

theorem enrollment_issues_the_only_bearer:
  assumes "enroll_endpoint_with_bearer env now credential lookup secret u scopes epoch db = (Inr b, db')"
    and "length secret = SECRET_BYTES"
  shows "\<exists>a. fst (authenticate_bearer env later (ib_token b) epoch db') = Inr (Some a) \<and>
      au_endpoint a = up_id u \<and> au_credential a = tr_print_id env credential \<and> set (au_scopes a) = set scopes \<and>
      {c \<in> set (credentials db'). live_bearer (up_id u) c} =
        {c \<in> set (credentials db'). cr_id c = tr_print_id env credential}"
proof -
  let ?cid = "tr_print_id env credential" and ?l = "uuid_simple lookup" and ?e = "up_id u"
  obtain superseded where tx: "enroll_transaction env now ?cid ?l secret u scopes epoch db = (Inr superseded, db')"
    and b: "ib_token b = bearer_token ?l secret"
    using enroll_result [OF assms(1)] by auto
  obtain db1 db3 c where up: "upsert_active now u db = (Inr (), db1)"
    and gr: "insert_grants now ?e (map scope_name (filter (\<lambda>s. scope_name s \<notin>
        set (map gr_scope (filter (live_grant ?e) (grants db1)))) scopes))
        (revoke_other_grants now ?e (scope_name ` set scopes) db1) = (Inr (), db3)"
    and c: "c = new_bearer ?cid ?e ?l (bearer_verifier (tr_sha256 env) ?l secret) epoch (next_generation ?e db3)"
    and new: "\<forall>x \<in> set (credentials db3). cr_id x \<noteq> ?cid \<and> cr_lookup x \<noteq> Some ?l"
    and db': "db' = supersede_bearers now ?e ?cid (db3\<lparr>credentials := credentials db3 @ [c]\<rparr>)"
    using enroll_transaction_result [OF tx] by blast
  let ?old = "sql_update (\<lambda>x. live_bearer ?e x \<and> cr_id x \<noteq> ?cid) (\<lambda>x. x\<lparr>cr_revoked_at := Some (millis now)\<rparr>) (credentials db3)"
  have cs: "credentials db' = ?old @ [c]"
    by (simp add: db' supersede_bearers_def sql_update_def c new_bearer_def)
  have old: "\<forall>x \<in> set ?old. \<not> live_bearer ?e x \<and> cr_id x \<noteq> ?cid \<and> cr_lookup x \<noteq> Some ?l"
    using new by (auto simp: set_sql_update)
  have "endpoints db' = endpoints db1" using insert_grants_result [OF gr] by (simp add: db')
  with upsert_active_result(2) [OF up] have live: "list_ex (live_endpoint ?e) (endpoints db')" by simp
  have "find (\<lambda>x. cr_lookup x = Some ?l \<and> cr_kind x = BearerCredential \<and> cr_revoked_at x = None \<and>
      list_ex (live_endpoint (cr_endpoint x)) (endpoints db')) ?old = None"
    using old by (auto simp: find_None_iff)
  then have row: "bearer_row ?l db' = Some c"
    using live by (simp add: bearer_row_def cs find_append c new_bearer_def)
  have "gr_scope ` {g \<in> set (grants db'). live_grant ?e g} = scope_name ` set scopes"
    using live_scopes_after [OF gr] by (simp add: db')
  then obtain ss where ss: "endpoint_scopes ?e db' = Inr ss" "set ss = set scopes" by (rule endpoint_scopes_of)
  have "fst (authenticate_bearer env later (ib_token b) epoch db') =
      Inr (Some \<lparr>au_endpoint = ?e, au_credential = ?cid, au_epoch = epoch, au_scopes = ss\<rparr>)"
    using row ss by (simp add: authenticate_bearer_def b parse_bearer_token [OF assms(2)] c new_bearer_def constant_time_eq_iff)
  moreover have "{x \<in> set (credentials db'). live_bearer ?e x} = {x \<in> set (credentials db'). cr_id x = ?cid}"
    using old by (auto simp: cs c new_bearer_def)
  ultimately show ?thesis using ss(2) by auto
qed

text \<open>A phone and an empty registry.\<close>

definition demo_env :: trust_env where
  "demo_env = \<lparr>tr_sha256 = (\<lambda>_. []), tr_is_json = (\<lambda>_. True), tr_print_id = uuid_simple\<rparr>"

definition demo_phone :: endpoint_upsert where
  "demo_phone = \<lparr>up_id = [112], up_kind = lit ''other'', up_label = [80], up_room = None, up_certificate = None,
     up_protocol_min = 1, up_protocol_max = 1, up_capabilities = []\<rparr>"

definition no_devices :: trust_db where
  "no_devices = \<lparr>endpoints = [], credentials = [], grants = []\<rparr>"

definition phone_trusted :: trust_db where
  "phone_trusted = \<lparr>endpoints = [new_endpoint 0 demo_phone],
     credentials = [new_bearer (uuid_simple 1) [112] (uuid_simple 2) [] 1 1],
     grants = [\<lparr>gr_endpoint = [112], gr_scope = scope_name ConversationRead, gr_granted_at = 0, gr_revoked_at = None\<rparr>]\<rparr>"

lemma demo_phone_valid: "validate_endpoint (\<lambda>_. True) demo_phone = Inr ()"
  by (simp add: validate_endpoint_def demo_phone_def lit_def trim_def trim_start_def trim_end_def is_whitespace_def
      str_len_def utf8_len_def)

lemma phone_enrolls:
  "enroll_endpoint_with_bearer demo_env 0 1 2 (replicate 32 0) demo_phone [ConversationRead] 1 no_devices =
     (Inr \<lparr>ib_endpoint = [112], ib_token = bearer_token (uuid_simple 2) (replicate 32 0), ib_superseded = []\<rparr>,
      phone_trusted)"
proof -
  have "up_kind demo_phone \<noteq> lit ''physical_body''" "up_id demo_phone = [112]" "up_certificate demo_phone = None"
    by (simp_all add: demo_phone_def lit_def)
  moreover have "ep_id (new_endpoint 0 demo_phone) = [112]" "ep_kind (new_endpoint 0 demo_phone) = up_kind demo_phone"
    by (simp_all add: new_endpoint_def demo_phone_def)
  ultimately show ?thesis
    by (simp add: enroll_endpoint_with_bearer_def enroll_transaction_def demo_env_def demo_phone_valid no_devices_def
        upsert_active_def revoke_other_grants_def insert_grant_def next_generation_def insert_credential_def
        supersede_bearers_def new_bearer_def bearer_verifier_def phone_trusted_def millis_def)
qed

theorem enrollment_issues_the_only_bearer_witness:
  "\<exists>a. fst (authenticate_bearer demo_env 5 (bearer_token (uuid_simple 2) (replicate 32 0)) 1 phone_trusted) = Inr (Some a) \<and>
     au_endpoint a = [112] \<and> set (au_scopes a) = {ConversationRead}"
  using enrollment_issues_the_only_bearer [OF phone_enrolls, of 5]
  by (auto simp: SECRET_BYTES_def demo_phone_def)

text \<open>An endpoint that is shut has a row and no live one.\<close>

definition shut :: "rtext \<Rightarrow> trust_db \<Rightarrow> bool" where
  "shut e db \<longleftrightarrow> (\<exists>r \<in> set (endpoints db). ep_id r = e) \<and> (\<forall>r \<in> set (endpoints db). ep_id r = e \<longrightarrow> ep_revoked_at r \<noteq> None)"

lemma shut_cong: "shut e db \<Longrightarrow> endpoints db' = endpoints db \<Longrightarrow> shut e db'"
  by (simp add: shut_def)

lemma shut_sql_update:
  assumes "shut e db" "endpoints db' = sql_update p f (endpoints db)"
    and "\<And>r. ep_id (f r) = ep_id r" "\<And>r. ep_revoked_at r \<noteq> None \<Longrightarrow> ep_revoked_at (f r) \<noteq> None"
  shows "shut e db'"
  unfolding shut_def assms(2)
proof
  obtain r where "r \<in> set (endpoints db)" "ep_id r = e" using assms(1) by (auto simp: shut_def)
  then show "\<exists>r \<in> set (sql_update p f (endpoints db)). ep_id r = e"
    using in_sql_update [of r _ p f] assms(3) by (metis (full_types))
  show "\<forall>r \<in> set (sql_update p f (endpoints db)). ep_id r = e \<longrightarrow> ep_revoked_at r \<noteq> None"
  proof (intro ballI impI)
    fix r assume "r \<in> set (sql_update p f (endpoints db))" "ep_id r = e"
    then obtain x where "x \<in> set (endpoints db)" "r = (if p x then f x else x)" by (elim sql_updateE)
    with \<open>ep_id r = e\<close> show "ep_revoked_at r \<noteq> None"
      using assms(1,3,4) by (auto simp: shut_def split: if_splits)
  qed
qed

lemma shut_upsert:
  assumes "shut e db" "upsert_active now u db = (Inr (), db')"
  shows "shut e db'"
proof (cases "find (\<lambda>r. ep_id r = up_id u) (endpoints db)")
  case None
  then have "endpoints db' = endpoints db @ [new_endpoint now u]"
    using assms(2) by (auto simp: upsert_active_def Let_def split: if_splits)
  moreover have "up_id u \<noteq> e" using None assms(1) by (auto simp: shut_def find_None_iff)
  ultimately show ?thesis using assms(1) by (auto simp: shut_def new_endpoint_def)
next
  case (Some r)
  then have "endpoints db' = sql_update (live_endpoint (up_id u)) (merge_endpoint now u) (endpoints db)"
    using assms(2) by (auto simp: upsert_active_def Let_def split: if_splits)
  then show ?thesis by (rule shut_sql_update [OF assms(1)]) (simp_all add: merge_endpoint_def)
qed

lemma shut_body_credential: "shut e db \<Longrightarrow> shut e (snd (upsert_body_credential i certificate db))"
  by (erule shut_cong) (simp add: upsert_body_credential_def)

lemma shut_upsert_endpoint:
  assumes "shut e db"
  shows "shut e (snd (upsert_endpoint is_json now u db))"
proof (cases "validate_endpoint is_json u")
  case (Inr x)
  show ?thesis
  proof (cases "upsert_active now u db")
    case (Pair r db1)
    show ?thesis
    proof (cases r)
      case Inr': (Inr y)
      then have "shut e db1" using shut_upsert [OF assms] Pair by simp
      then show ?thesis
        using shut_body_credential [of e db1 "up_id u" "up_certificate u"] assms Inr Inr' Pair
        by (auto simp: upsert_endpoint_def split: prod.splits sum.splits)
    qed (simp add: upsert_endpoint_def Inr Pair assms)
  qed
qed (simp add: upsert_endpoint_def assms)

lemma shut_enroll:
  assumes "shut e db"
  shows "shut e (snd (enroll_endpoint_with_bearer env now credential lookup secret u scopes epoch db))"
proof (cases "enroll_endpoint_with_bearer env now credential lookup secret u scopes epoch db")
  case (Pair r db')
  show ?thesis
  proof (cases r)
    case (Inl x)
    then have "db' = db" using Pair
      by (auto simp: enroll_endpoint_with_bearer_def split: if_splits sum.splits prod.splits)
    then show ?thesis using assms Pair by simp
  next
    case (Inr b)
    then obtain superseded where "enroll_transaction env now (tr_print_id env credential) (uuid_simple lookup) secret u
        scopes epoch db = (Inr superseded, db')"
      using enroll_result Pair by metis
    then obtain db1 db3 c where up: "upsert_active now u db = (Inr (), db1)"
      and gr: "insert_grants now (up_id u) (map scope_name (filter (\<lambda>s. scope_name s \<notin>
        set (map gr_scope (filter (live_grant (up_id u)) (grants db1)))) scopes))
        (revoke_other_grants now (up_id u) (scope_name ` set scopes) db1) = (Inr (), db3)"
      and db': "db' = supersede_bearers now (up_id u) (tr_print_id env credential) (db3\<lparr>credentials := credentials db3 @ [c]\<rparr>)"
      by (rule enroll_transaction_result)
    have "endpoints db3 = endpoints db1" using insert_grants_result [OF gr] by simp
    then have "shut e db1" "endpoints db' = endpoints db1" using shut_upsert [OF assms up] by (simp_all add: db')
    then show ?thesis using Pair shut_cong by simp
  qed
qed

lemma authenticate_endpoints: "endpoints (snd (authenticate_bearer env now token epoch db)) = endpoints db"
  by (auto simp: authenticate_bearer_def split: option.splits prod.splits sum.splits)

lemma shut_observed: "shut e db \<Longrightarrow> shut e (snd (update_observed_capabilities is_json now i capabilities db))"
  by (cases "is_json capabilities")
    (auto simp: update_observed_capabilities_def intro: shut_sql_update)

lemma shut_revoke: "shut e db \<Longrightarrow> shut e (snd (revoke_endpoint now i db))"
  by (cases "length (filter (live_endpoint i) (endpoints db)) = 1")
    (auto simp: revoke_endpoint_def intro: shut_sql_update)

lemma shut_step: "trust_step env db db' \<Longrightarrow> shut e db \<Longrightarrow> shut e db'"
proof (induction rule: trust_step.induct)
  case (authenticates db now token epoch)
  then show ?case using shut_cong [OF _ authenticate_endpoints] by blast
qed (simp_all add: shut_upsert_endpoint shut_enroll shut_observed shut_revoke)

lemma shut_steps: "(trust_step env)\<^sup>*\<^sup>* db db' \<Longrightarrow> shut e db \<Longrightarrow> shut e db'"
  by (induction rule: rtranclp_induct) (auto intro: shut_step)

lemma revoke_shuts:
  assumes "revoke_endpoint now e db = (True, db')"
  shows "shut e db'"
proof -
  have one: "length (filter (live_endpoint e) (endpoints db)) = 1"
    using assms by (simp add: revoke_endpoint_def split: if_splits)
  then have "filter (live_endpoint e) (endpoints db) \<noteq> []" by (metis length_0_conv zero_neq_one)
  then obtain r where r: "r \<in> set (endpoints db)" "ep_id r = e"
    by (auto simp: filter_empty_conv)
  let ?f = "\<lambda>r. r\<lparr>ep_revoked_at := Some (millis now), ep_updated_at := millis now\<rparr>"
  have rows: "endpoints db' = sql_update (live_endpoint e) ?f (endpoints db)"
    using assms one by (auto simp: revoke_endpoint_def)
  have "(if live_endpoint e r then ?f r else r) \<in> set (endpoints db')"
    unfolding rows by (rule in_sql_update [OF r(1)])
  moreover have "ep_id (if live_endpoint e r then ?f r else r) = e" using r by simp
  moreover have "ep_revoked_at x \<noteq> None" if x: "x \<in> set (endpoints db')" "ep_id x = e" for x
  proof -
    obtain y where "x = (if live_endpoint e y then ?f y else y)"
      using x(1) unfolding rows by (rule sql_updateE)
    with x(2) show ?thesis by (cases "live_endpoint e y") simp_all
  qed
  ultimately show ?thesis unfolding shut_def by blast
qed

lemma authenticated_is_live:
  assumes "fst (authenticate_bearer env now token epoch db) = Inr (Some a)"
  shows "list_ex (live_endpoint (au_endpoint a)) (endpoints db)"
  using assms by (auto simp: authenticate_bearer_def bearer_row_def find_Some_iff
      split: option.splits prod.splits sum.splits if_splits)

text \<open>C13: A device that was revoked is not let in again (until the owner deletes all data, which
  empties the registry): whatever is upserted, enrolled, revoked or
  authenticated afterwards, no request is given the rights of that device, and its certificate is not
  among the trusted ones.\<close>

theorem revoked_device_stays_out:
  assumes "revoke_endpoint now e db = (True, db1)" and "(trust_step env)\<^sup>*\<^sup>* db1 db2"
    and "bearer_auth (endpoint_login env later epoch db2) config peer token header = Inr p"
    and "pr_endpoint (tk_principal token) = None"
  shows "pr_endpoint p \<noteq> Some e \<and> e \<notin> ep_id ` fst ` set (active_body_credentials db2)"
proof -
  have shut: "shut e db2" using shut_steps [OF assms(2) revoke_shuts [OF assms(1)]] .
  then have out: "\<not> list_ex (live_endpoint e) (endpoints db2)" by (auto simp: shut_def list_ex_iff)
  have "pr_endpoint p \<noteq> Some e"
  proof
    assume pe: "pr_endpoint p = Some e"
    with assms(4) have "p \<noteq> tk_principal token" by auto
    then obtain v where "endpoint_login env later epoch db2 v = Inr (Some p)"
      using assms(3) by (auto simp: bearer_auth_def Let_def split: if_splits sum.splits option.splits)
    then obtain a where "fst (authenticate_bearer env later v epoch db2) = Inr (Some a)" "au_endpoint a = e"
      using pe by (auto simp: endpoint_login_def endpoint_principal_def split: sum.splits option.splits)
    then show False using authenticated_is_live out by metis
  qed
  moreover have "e \<notin> ep_id ` fst ` set (active_body_credentials db2)"
    using shut by (auto simp: active_body_credentials_def shut_def)
  ultimately show ?thesis ..
qed

theorem revoked_device_stays_out_witness:
  "pr_endpoint owner_principal \<noteq> Some [112] \<and>
   [112] \<notin> ep_id ` fst ` set (active_body_credentials (snd (revoke_endpoint 9 [112] phone_trusted)))"
proof -
  let ?c = "\<lparr>sv_host = HostAddress (IPv4 0x7F000001), sv_allowed_hosts = []\<rparr>"
  let ?t = "\<lparr>tk_token = [115], tk_principal = owner_principal\<rparr>"
  let ?db = "snd (revoke_endpoint 9 [112] phone_trusted)"
  have revoked: "revoke_endpoint 9 [112] phone_trusted = (True, ?db)"
    by (simp add: revoke_endpoint_def phone_trusted_def new_endpoint_def demo_phone_def)
  have "strip_prefix (lit ''Bearer '') (lit ''Bearer '' @ [115]) = Some [115]" by simp
  then have "bearer_auth (endpoint_login demo_env 10 1 ?db) ?c None ?t (Some (lit ''Bearer '' @ [115])) = Inr owner_principal"
    by (simp add: bearer_auth_def starts_with_def ENDPOINT_CREDENTIAL_PREFIX_def lit_def
        owner_token_allowed_def is_networked_def is_loopback_def constant_time_eq_iff
        text_bytes_def as_bytes_def utf8_char_def)
  then show ?thesis
    using revoked_device_stays_out [OF revoked rtranclp.rtrancl_refl] by (simp add: owner_principal_def)
qed

end
