(* ===== verification/Pairing.thy ===== *)
theory Pairing
  imports BoBe_Prelude BoBe_Text Access_Control
begin

text \<open>
  Pairing a device by a six-digit code: \<open>src/BoBeService/src/api/pairing.rs\<close>. The password
  authenticated key exchange (crate \<open>bobe_pairing_core\<close> over \<open>opaque_ke\<close>) is a parameter: \<open>'i\<close> is its
  invitation, \<open>'s\<close> the server's half of an exchange, and the functions that start and finish an
  exchange are arguments. So are SHA-256, the random code and new identifiers. An \<open>Instant\<close> is a
  number of nanoseconds; a reservation that a request holds is settled by \<open>deliver\<close> or dropped.
\<close>

section \<open>State\<close>

definition NANOS :: nat where "NANOS = 1000000000"
definition INVITATION_TTL :: nat where "INVITATION_TTL = 5 * 60 * NANOS"
definition EXCHANGE_TTL :: nat where "EXCHANGE_TTL = 60 * NANOS"
definition RATE_WINDOW :: nat where "RATE_WINDOW = 60 * NANOS"
definition MAX_ATTEMPTS :: nat where "MAX_ATTEMPTS = 5"
definition MAX_ACTIVE_EXCHANGES :: nat where "MAX_ACTIVE_EXCHANGES = 5"
definition MAX_BEGINS_PER_SOURCE :: nat where "MAX_BEGINS_PER_SOURCE = 5"
definition MAX_BEGINS_PER_AUTHORITY :: nat where "MAX_BEGINS_PER_AUTHORITY = 20"
definition MAX_TRACKED_SOURCES :: nat where "MAX_TRACKED_SOURCES = 64"

record 'i active_invitation =
  iv_id :: uuid
  iv_invitation :: 'i
  iv_profile :: scope_profile
  iv_label :: rtext
  iv_expires_at :: nat
  iv_attempts :: nat

record 's exchange =
  ex_server :: 's
  ex_expires_at :: nat

record active_reservation =
  ar_id :: uuid
  ar_expires_at :: nat

record sealed_enrollment =
  se_nonce :: "byte list"
  se_ciphertext :: "byte list"

record delivered_enrollment =
  de_exchange :: uuid
  de_attempt :: "byte list"
  de_profile :: scope_profile
  de_sealed :: sealed_enrollment
  de_expires_at :: nat

record ('i, 's) pairing_state =
  invitation :: "'i active_invitation option"
  exchanges :: "(uuid, 's exchange) hmap"
  reservation :: "active_reservation option"
  delivered :: "delivered_enrollment option"
  authority_begins :: "nat list"
  source_begins :: "(ip_addr, nat list) hmap"

record finish_attempt =
  fa_exchange :: uuid
  fa_profile :: scope_profile
  fa_finalization :: "byte list"
  fa_context :: "byte list"
  fa_nonce :: "byte list"
  fa_enrollment :: "byte list"

record pairing_reservation =
  pr_id :: uuid
  pr_invitation :: uuid
  pr_exchange :: uuid
  pr_attempt :: "byte list"
  pr_session_key :: "byte list"
  pr_profile :: scope_profile
  pr_label :: rtext

datatype finished = FinishReserved pairing_reservation | FinishDelivered sealed_enrollment

record invitation_view =
  vw_code :: rtext
  vw_expires_in_seconds :: nat
  vw_label :: rtext

record pairing_begin_result =
  br_exchange :: uuid
  br_response :: "byte list"

text \<open>The digest of an attempt: every part after its length in eight bytes, most significant first.\<close>

definition u64_be_bytes :: "nat \<Rightarrow> nat list" where
  "u64_be_bytes n = map (\<lambda>i. n div 256 ^ i mod 256) [7, 6, 5, 4, 3, 2, 1, 0]"

definition framed :: "byte list \<Rightarrow> nat list" where
  "framed part = u64_be_bytes (length part) @ map unat part"

definition attempt_frames :: "finish_attempt \<Rightarrow> nat list" where
  "attempt_frames a =
     concat (map framed [fa_finalization a, fa_context a, fa_nonce a, fa_enrollment a])"

definition attempt_digest :: "(nat list \<Rightarrow> byte list) \<Rightarrow> finish_attempt \<Rightarrow> byte list" where
  "attempt_digest sha256 a = sha256 (attempt_frames a)"

section \<open>Operations\<close>

definition pairing_unavailable :: app_error where
  "pairing_unavailable = Unauthorized ''pairing is unavailable or expired''"

definition new_pairing :: "('i, 's) pairing_state" where
  "new_pairing = \<lparr>invitation = None, exchanges = [], reservation = None, delivered = None,
     authority_begins = [], source_begins = []\<rparr>"

text \<open>The code is the number below a million that was drawn, in six decimal digits.\<close>

definition pairing_code :: "nat \<Rightarrow> rtext" where
  "pairing_code n = map (\<lambda>i. 48 + n div 10 ^ i mod 10) [5, 4, 3, 2, 1, 0]"

definition create_invitation ::
  "(rtext \<Rightarrow> unit + 'i) \<Rightarrow> nat \<Rightarrow> nat \<Rightarrow> uuid \<Rightarrow> scope_profile \<Rightarrow> rtext \<Rightarrow> ('i, 's) pairing_state \<Rightarrow>
     (app_error + invitation_view) \<times> ('i, 's) pairing_state" where
  "create_invitation create now drawn fresh profile label s =
     (if trim label = [] \<or> 128 < str_len label
      then (Inl (Validation ''device label must contain 1-128 characters''), s)
      else case create (pairing_code drawn) of
        Inl _ \<Rightarrow> (Inl (Internal ''create pairing invitation''), s)
      | Inr i \<Rightarrow>
          (Inr \<lparr>vw_code = pairing_code drawn, vw_expires_in_seconds = INVITATION_TTL div NANOS, vw_label = label\<rparr>,
           \<lparr>invitation = Some \<lparr>iv_id = fresh, iv_invitation = i, iv_profile = profile, iv_label = label,
               iv_expires_at = now + INVITATION_TTL, iv_attempts = 0\<rparr>,
            exchanges = [], reservation = None, delivered = None, authority_begins = [], source_begins = []\<rparr>))"

definition invitation_profile :: "('i, 's) pairing_state \<Rightarrow> scope_profile option" where
  "invitation_profile s = map_option iv_profile (invitation s)"

definition completion_profile :: "uuid \<Rightarrow> ('i, 's) pairing_state \<Rightarrow> scope_profile option" where
  "completion_profile exchange s =
     (case delivered s of
        Some d \<Rightarrow> if de_exchange d = exchange then Some (de_profile d) else invitation_profile s
      | None \<Rightarrow> invitation_profile s)"

definition recent_begins :: "nat \<Rightarrow> nat list \<Rightarrow> nat list" where
  "recent_begins now begins = dropWhile (\<lambda>started. RATE_WINDOW \<le> now - started) begins"

definition purge :: "nat \<Rightarrow> ('i, 's) pairing_state \<Rightarrow> ('i, 's) pairing_state" where
  "purge now s =
     s\<lparr>exchanges := hm_retain (\<lambda>_ e. now < ex_expires_at e) (exchanges s),
       reservation := (case reservation s of
         Some r \<Rightarrow> if ar_expires_at r \<le> now then None else Some r | None \<Rightarrow> None),
       delivered := (case delivered s of
         Some d \<Rightarrow> if de_expires_at d \<le> now then None else Some d | None \<Rightarrow> None),
       authority_begins := recent_begins now (authority_begins s),
       source_begins := filter (\<lambda>(_, begins). begins \<noteq> [])
         (map (\<lambda>(source, begins). (source, recent_begins now begins)) (source_begins s))\<rparr>"

definition rate_limited :: "ip_addr \<Rightarrow> ('i, 's) pairing_state \<Rightarrow> bool" where
  "rate_limited source s \<longleftrightarrow>
     MAX_ACTIVE_EXCHANGES \<le> length (exchanges s) \<or>
     MAX_BEGINS_PER_AUTHORITY \<le> length (authority_begins s) \<or>
     (case hm_get (source_begins s) source of
        Some begins \<Rightarrow> MAX_BEGINS_PER_SOURCE \<le> length begins
      | None \<Rightarrow> MAX_TRACKED_SOURCES \<le> length (source_begins s))"

definition close_invitation :: "('i, 's) pairing_state \<Rightarrow> ('i, 's) pairing_state" where
  "close_invitation s = s\<lparr>invitation := None, exchanges := []\<rparr>"

definition begin_pairing ::
  "('i \<Rightarrow> byte list \<Rightarrow> byte list \<Rightarrow> unit + 's) \<Rightarrow> ('s \<Rightarrow> byte list) \<Rightarrow> nat \<Rightarrow> uuid \<Rightarrow> scope_profile \<Rightarrow>
     byte list \<Rightarrow> byte list \<Rightarrow> ip_addr \<Rightarrow> ('i, 's) pairing_state \<Rightarrow>
     (app_error + pairing_begin_result) \<times> ('i, 's) pairing_state" where
  "begin_pairing start response now fresh profile request context source s0 =
     (let s = purge now s0 in
      if reservation s \<noteq> None then (Inl pairing_unavailable, s)
      else case invitation s of
        None \<Rightarrow> (Inl pairing_unavailable, s)
      | Some i \<Rightarrow>
          if iv_expires_at i \<le> now \<or> MAX_ATTEMPTS \<le> iv_attempts i
          then (Inl pairing_unavailable, close_invitation s)
          else if iv_profile i \<noteq> profile then (Inl pairing_unavailable, s)
          else if rate_limited source s then (Inl pairing_unavailable, s)
          else (case start (iv_invitation i) request context of
             Inl _ \<Rightarrow> (Inl pairing_unavailable, s)
           | Inr server \<Rightarrow>
               (Inr \<lparr>br_exchange = fresh, br_response = response server\<rparr>,
                s\<lparr>exchanges := hm_insert fresh \<lparr>ex_server = server, ex_expires_at = now + EXCHANGE_TTL\<rparr> (exchanges s),
                  authority_begins := authority_begins s @ [now],
                  source_begins := hm_insert source
                    ((case hm_get (source_begins s) source of None \<Rightarrow> [] | Some begins \<Rightarrow> begins) @ [now])
                    (source_begins s)\<rparr>)))"

text \<open>\<open>finish\<close>: what is answered before the key is checked, or the exchange whose key is checked.\<close>

definition take_exchange ::
  "finish_attempt \<Rightarrow> ('i, 's) pairing_state \<Rightarrow> ((app_error + finished) + 's exchange) \<times> ('i, 's) pairing_state" where
  "take_exchange a s =
     (if reservation s \<noteq> None \<or>
         (case invitation s of None \<Rightarrow> True | Some i \<Rightarrow> iv_profile i \<noteq> fa_profile a)
      then (Inl (Inl pairing_unavailable), s)
      else case hm_get (exchanges s) (fa_exchange a) of
        None \<Rightarrow> (Inl (Inl pairing_unavailable), s)
      | Some e \<Rightarrow> (Inr e, s\<lparr>exchanges := hm_remove (fa_exchange a) (exchanges s)\<rparr>))"

definition claim_exchange ::
  "(nat list \<Rightarrow> byte list) \<Rightarrow> nat \<Rightarrow> finish_attempt \<Rightarrow> ('i, 's) pairing_state \<Rightarrow>
     ((app_error + finished) + 's exchange) \<times> ('i, 's) pairing_state" where
  "claim_exchange sha256 now a s0 =
     (let s = purge now s0 in
      case delivered s of
        None \<Rightarrow> take_exchange a s
      | Some d \<Rightarrow>
          if de_exchange d \<noteq> fa_exchange a then take_exchange a s
          else if de_attempt d = attempt_digest sha256 a \<and> de_profile d = fa_profile a
          then (Inl (Inr (FinishDelivered (de_sealed d))), s\<lparr>delivered := None\<rparr>)
          else (Inl (Inl pairing_unavailable), s))"

definition count_wrong_code :: "('i, 's) pairing_state \<Rightarrow> ('i, 's) pairing_state" where
  "count_wrong_code s =
     (case invitation s of
        None \<Rightarrow> s
      | Some i \<Rightarrow>
          if MAX_ATTEMPTS \<le> iv_attempts i + 1 then close_invitation s
          else s\<lparr>invitation := Some (i\<lparr>iv_attempts := iv_attempts i + 1\<rparr>)\<rparr>)"

definition reserve ::
  "(nat list \<Rightarrow> byte list) \<Rightarrow> nat \<Rightarrow> uuid \<Rightarrow> finish_attempt \<Rightarrow> byte list \<Rightarrow> ('i, 's) pairing_state \<Rightarrow>
     (app_error + finished) \<times> ('i, 's) pairing_state" where
  "reserve sha256 now fresh a key s =
     (case invitation s of
        None \<Rightarrow> (Inl pairing_unavailable, s)
      | Some i \<Rightarrow>
          (Inr (FinishReserved \<lparr>pr_id = fresh, pr_invitation = iv_id i, pr_exchange = fa_exchange a,
              pr_attempt = attempt_digest sha256 a, pr_session_key = key, pr_profile = iv_profile i,
              pr_label = iv_label i\<rparr>),
           s\<lparr>exchanges := [], reservation := Some \<lparr>ar_id = fresh, ar_expires_at = now + EXCHANGE_TTL\<rparr>\<rparr>))"

definition finish_pairing ::
  "(nat list \<Rightarrow> byte list) \<Rightarrow> ('s \<Rightarrow> byte list \<Rightarrow> byte list \<Rightarrow> unit + byte list) \<Rightarrow> nat \<Rightarrow> uuid \<Rightarrow> finish_attempt \<Rightarrow>
     ('i, 's) pairing_state \<Rightarrow> (app_error + finished) \<times> ('i, 's) pairing_state" where
  "finish_pairing sha256 check now fresh a s0 =
     (case claim_exchange sha256 now a s0 of
        (Inl answer, s) \<Rightarrow> (answer, s)
      | (Inr e, s) \<Rightarrow>
          (case check (ex_server e) (fa_finalization a) (fa_context a) of
             Inl _ \<Rightarrow> (Inl pairing_unavailable, count_wrong_code s)
           | Inr key \<Rightarrow> reserve sha256 now fresh a key s))"

definition release_reservation :: "nat \<Rightarrow> uuid \<Rightarrow> ('i, 's) pairing_state \<Rightarrow> ('i, 's) pairing_state" where
  "release_reservation now rid s =
     (if (case reservation s of None \<Rightarrow> True | Some r \<Rightarrow> ar_id r \<noteq> rid) then s
      else s\<lparr>reservation := None, exchanges := [],
        invitation := (case invitation s of
          Some i \<Rightarrow> if iv_expires_at i \<le> now then None else Some i | None \<Rightarrow> None)\<rparr>)"

definition deliver :: "nat \<Rightarrow> pairing_reservation \<Rightarrow> sealed_enrollment \<Rightarrow> ('i, 's) pairing_state \<Rightarrow> ('i, 's) pairing_state" where
  "deliver now r sealed s =
     (let s1 = (if (case reservation s of None \<Rightarrow> False | Some x \<Rightarrow> ar_id x = pr_id r)
                then s\<lparr>reservation := None\<rparr> else s);
          s2 = (if (case invitation s1 of None \<Rightarrow> False | Some i \<Rightarrow> iv_id i = pr_invitation r)
                then close_invitation s1 else s1)
      in s2\<lparr>delivered := Some \<lparr>de_exchange = pr_exchange r, de_attempt = pr_attempt r, de_profile = pr_profile r,
              de_sealed = sealed, de_expires_at = now + EXCHANGE_TTL\<rparr>\<rparr>)"

section \<open>The promised lifecycle\<close>

text \<open>What an invitation promises: how many wrong codes it has taken (\<open>None\<close> when there is no
  invitation) and whether a device holds it. A device is let on to the invitation only when no other
  holds it; the last wrong code closes it; only the owner opens one.\<close>

datatype lifecycle_event = Invite | WrongCode | Hold | Free | Close

type_synonym lifecycle = "nat option \<times> bool"

fun lifecycle_step :: "lifecycle_event \<Rightarrow> lifecycle \<Rightarrow> lifecycle option" where
  "lifecycle_step Invite _ = Some (Some 0, False)"
| "lifecycle_step WrongCode (Some n, False) = Some (if n + 1 < MAX_ATTEMPTS then Some (n + 1) else None, False)"
| "lifecycle_step Hold (Some n, False) = Some (Some n, True)"
| "lifecycle_step Free (w, True) = Some (w, False)"
| "lifecycle_step Close (Some n, h) = Some (None, h)"
| "lifecycle_step _ _ = None"

fun lifecycle_run :: "lifecycle_event list \<Rightarrow> lifecycle \<Rightarrow> lifecycle option" where
  "lifecycle_run [] l = Some l"
| "lifecycle_run (e # es) l = Option.bind (lifecycle_step e l) (lifecycle_run es)"

definition lifecycle_of :: "('i, 's) pairing_state \<Rightarrow> lifecycle" where
  "lifecycle_of s = (map_option iv_attempts (invitation s), reservation s \<noteq> None)"

datatype pairing_label = Invited | CodeRefused | Quiet

record ('i, 's) pairing_env =
  pe_sha256 :: "nat list \<Rightarrow> byte list"
  pe_create :: "rtext \<Rightarrow> unit + 'i"
  pe_start :: "'i \<Rightarrow> byte list \<Rightarrow> byte list \<Rightarrow> unit + 's"
  pe_response :: "'s \<Rightarrow> byte list"
  pe_check :: "'s \<Rightarrow> byte list \<Rightarrow> byte list \<Rightarrow> unit + byte list"

definition code_refused ::
  "('i, 's) pairing_env \<Rightarrow> nat \<Rightarrow> finish_attempt \<Rightarrow> ('i, 's) pairing_state \<Rightarrow> bool" where
  "code_refused env now a s \<longleftrightarrow>
     (case claim_exchange (pe_sha256 env) now a s of
        (Inr e, _) \<Rightarrow> \<not> is_ok (pe_check env (ex_server e) (fa_finalization a) (fa_context a))
      | _ \<Rightarrow> False)"

inductive pairing_step ::
  "('i, 's) pairing_env \<Rightarrow> pairing_label \<Rightarrow> ('i, 's) pairing_state \<Rightarrow> ('i, 's) pairing_state \<Rightarrow> bool"
  for env :: "('i, 's) pairing_env" where
  invites: "create_invitation (pe_create env) now drawn fresh profile label s = (Inr view, s') \<Longrightarrow>
    pairing_step env Invited s s'"
| begins_exchange: "pairing_step env Quiet s
    (snd (begin_pairing (pe_start env) (pe_response env) now fresh profile request context source s))"
| refuses: "code_refused env now a s \<Longrightarrow>
    pairing_step env CodeRefused s (snd (finish_pairing (pe_sha256 env) (pe_check env) now fresh a s))"
| finishes_exchange: "\<not> code_refused env now a s \<Longrightarrow>
    pairing_step env Quiet s (snd (finish_pairing (pe_sha256 env) (pe_check env) now fresh a s))"
| delivers: "pairing_step env Quiet s (deliver now r sealed s)"
| releases: "pairing_step env Quiet s (release_reservation now rid s)"

inductive pairing_run ::
  "('i, 's) pairing_env \<Rightarrow> pairing_label list \<Rightarrow> ('i, 's) pairing_state \<Rightarrow> ('i, 's) pairing_state \<Rightarrow> bool"
  for env :: "('i, 's) pairing_env" where
  run_stop: "pairing_run env [] s s"
| run_step: "pairing_step env l s t \<Longrightarrow> pairing_run env ls t u \<Longrightarrow> pairing_run env (l # ls) s u"

section \<open>Refinement\<close>

lemma lifecycle_run_append: "lifecycle_run (es @ fs) l = Option.bind (lifecycle_run es l) (lifecycle_run fs)"
  by (induction es arbitrary: l) (auto split: Option.bind_splits)

text \<open>A trace without an invitation, and the number of its wrong codes.\<close>

definition traces :: "nat \<Rightarrow> lifecycle \<Rightarrow> lifecycle \<Rightarrow> bool" where
  "traces n l l' \<longleftrightarrow> (\<exists>es. lifecycle_run es l = Some l' \<and> Invite \<notin> set es \<and> count_list es WrongCode = n)"

lemma traces_refl [simp]: "traces 0 l l"
  unfolding traces_def by (intro exI [of _ "[]"]) simp

lemma traces_trans:
  assumes "traces m a b" "traces n b c" shows "traces (m + n) a c"
proof -
  obtain es fs where "lifecycle_run es a = Some b" "Invite \<notin> set es" "count_list es WrongCode = m"
    "lifecycle_run fs b = Some c" "Invite \<notin> set fs" "count_list fs WrongCode = n"
    using assms by (auto simp: traces_def)
  then show ?thesis
    unfolding traces_def by (intro exI [of _ "es @ fs"]) (simp add: lifecycle_run_append)
qed

lemma traces_step: "lifecycle_step e l = Some l' \<Longrightarrow> e \<noteq> Invite \<Longrightarrow> traces (if e = WrongCode then 1 else 0) l l'"
  unfolding traces_def by (intro exI [of _ "[e]"]) simp

lemma lifecycle_of_updates [simp]:
  "lifecycle_of (s\<lparr>exchanges := x\<rparr>) = lifecycle_of s"
  "lifecycle_of (s\<lparr>delivered := d\<rparr>) = lifecycle_of s"
  "lifecycle_of (s\<lparr>authority_begins := b\<rparr>) = lifecycle_of s"
  "lifecycle_of (s\<lparr>source_begins := c\<rparr>) = lifecycle_of s"
  by (simp_all add: lifecycle_of_def)

lemma trace_free: "reservation s \<noteq> None \<Longrightarrow> traces 0 (lifecycle_of s) (lifecycle_of (s\<lparr>reservation := None\<rparr>))"
  using traces_step [of Free "lifecycle_of s"] by (simp add: lifecycle_of_def)

lemma trace_close: "traces 0 (lifecycle_of s) (lifecycle_of (s\<lparr>invitation := None\<rparr>))"
proof (cases "invitation s")
  case None
  then have "s\<lparr>invitation := None\<rparr> = s" by simp
  then show ?thesis by simp
next
  case (Some i)
  then show ?thesis using traces_step [of Close "lifecycle_of s"] by (simp add: lifecycle_of_def)
qed

lemma close_invitation_eq: "lifecycle_of (close_invitation s) = lifecycle_of (s\<lparr>invitation := None\<rparr>)"
  by (simp add: close_invitation_def lifecycle_of_def)

lemma trace_purge: "traces 0 (lifecycle_of s) (lifecycle_of (purge now s))"
proof -
  have p: "lifecycle_of (purge now s) = lifecycle_of (s\<lparr>reservation := (case reservation s of
         Some r \<Rightarrow> if ar_expires_at r \<le> now then None else Some r | None \<Rightarrow> None)\<rparr>)"
    by (simp add: purge_def lifecycle_of_def)
  show ?thesis
  proof (cases "\<exists>r. reservation s = Some r \<and> ar_expires_at r \<le> now")
    case True
    then have "lifecycle_of (purge now s) = lifecycle_of (s\<lparr>reservation := None\<rparr>)" using p by auto
    then show ?thesis using trace_free [of s] True by auto
  next
    case False
    then have "(case reservation s of Some r \<Rightarrow> if ar_expires_at r \<le> now then None else Some r | None \<Rightarrow> None) = reservation s"
      by (cases "reservation s") auto
    then have "lifecycle_of (purge now s) = lifecycle_of s" unfolding p by simp
    then show ?thesis by simp
  qed
qed

lemma trace_begin:
  "traces 0 (lifecycle_of s) (lifecycle_of (snd (begin_pairing start response now fresh profile request context source s)))"
proof -
  let ?p = "purge now s" and ?s = "snd (begin_pairing start response now fresh profile request context source s)"
  have "lifecycle_of ?s = lifecycle_of ?p \<or> ?s = close_invitation ?p"
    unfolding begin_pairing_def Let_def by (simp split: option.split sum.split)
  then have "traces 0 (lifecycle_of ?p) (lifecycle_of ?s)"
    using trace_close [of ?p] by (auto simp: close_invitation_eq)
  with traces_trans [OF trace_purge this] show ?thesis by simp
qed

lemma take_exchange_result:
  "take_exchange a s = (Inl x, s') \<Longrightarrow> s' = s"
  "take_exchange a s = (Inr e, s') \<Longrightarrow>
     lifecycle_of s' = lifecycle_of s \<and> reservation s' = None \<and> invitation s' \<noteq> None"
  by (auto simp: take_exchange_def split: if_splits option.splits)

lemma claim_exchange_result:
  "claim_exchange sha256 now a s = (Inl x, s') \<Longrightarrow> lifecycle_of s' = lifecycle_of (purge now s)"
  "claim_exchange sha256 now a s = (Inr e, s') \<Longrightarrow>
     lifecycle_of s' = lifecycle_of (purge now s) \<and> reservation s' = None \<and> invitation s' \<noteq> None"
  by (auto simp: claim_exchange_def Let_def dest: take_exchange_result split: option.splits if_splits)

lemma trace_wrong_code:
  assumes "reservation s = None" "invitation s \<noteq> None"
  shows "traces 1 (lifecycle_of s) (lifecycle_of (count_wrong_code s))"
proof -
  obtain i where i: "invitation s = Some i" using assms(2) by auto
  have "lifecycle_step WrongCode (lifecycle_of s) = Some (lifecycle_of (count_wrong_code s))"
    using assms(1) i by (simp add: count_wrong_code_def lifecycle_of_def close_invitation_def)
  from traces_step [OF this] show ?thesis by simp
qed

lemma trace_reserve:
  assumes "reservation s = None"
  shows "traces 0 (lifecycle_of s) (lifecycle_of (snd (reserve sha256 now fresh a key s)))"
  using assms traces_step [of Hold "lifecycle_of s"]
  by (auto simp: reserve_def lifecycle_of_def split: option.splits)

lemma trace_finish:
  "traces (if code_refused env now a s then 1 else 0) (lifecycle_of s)
     (lifecycle_of (snd (finish_pairing (pe_sha256 env) (pe_check env) now fresh a s)))"
proof (cases "claim_exchange (pe_sha256 env) now a s")
  case (Pair r s')
  show ?thesis
  proof (cases r)
    case (Inl answer)
    then show ?thesis using Pair claim_exchange_result(1) [of "pe_sha256 env" now a s answer s'] trace_purge [of s now]
      by (simp add: finish_pairing_def code_refused_def)
  next
    case (Inr e)
    have s': "lifecycle_of s' = lifecycle_of (purge now s)" "reservation s' = None" "invitation s' \<noteq> None"
      using claim_exchange_result(2) Pair Inr by metis+
    then have "traces 0 (lifecycle_of s) (lifecycle_of s')" using trace_purge [of s now] by simp
    from traces_trans [OF this trace_wrong_code [OF s'(2,3)]] traces_trans [OF this trace_reserve [OF s'(2)]]
    show ?thesis using Pair Inr by (simp add: finish_pairing_def code_refused_def is_ok_def split: sum.splits)
  qed
qed

lemma trace_deliver: "traces 0 (lifecycle_of s) (lifecycle_of (deliver now r sealed s))"
proof -
  define s1 where "s1 = (if (case reservation s of None \<Rightarrow> False | Some x \<Rightarrow> ar_id x = pr_id r)
                then s\<lparr>reservation := None\<rparr> else s)"
  have "traces 0 (lifecycle_of s) (lifecycle_of s1)"
    using trace_free [of s] by (auto simp: s1_def split: option.splits)
  moreover have "lifecycle_of (deliver now r sealed s) = lifecycle_of s1 \<or>
      lifecycle_of (deliver now r sealed s) = lifecycle_of (s1\<lparr>invitation := None\<rparr>)"
    by (simp add: deliver_def Let_def close_invitation_eq flip: s1_def)
  then have "traces 0 (lifecycle_of s1) (lifecycle_of (deliver now r sealed s))"
    using trace_close [of s1] by auto
  ultimately show ?thesis using traces_trans by fastforce
qed

lemma trace_release: "traces 0 (lifecycle_of s) (lifecycle_of (release_reservation now rid s))"
proof (cases "case reservation s of None \<Rightarrow> True | Some r \<Rightarrow> ar_id r \<noteq> rid")
  case False
  let ?s = "s\<lparr>reservation := None\<rparr>"
  have "lifecycle_of (release_reservation now rid s) = lifecycle_of ?s \<or>
      lifecycle_of (release_reservation now rid s) = lifecycle_of (?s\<lparr>invitation := None\<rparr>)"
    unfolding release_reservation_def if_not_P [OF False] by (simp add: lifecycle_of_def split: option.split)
  then have "traces 0 (lifecycle_of ?s) (lifecycle_of (release_reservation now rid s))"
    using trace_close [of ?s] by auto
  moreover have "reservation s \<noteq> None" using False by (cases "reservation s") auto
  ultimately show ?thesis using traces_trans [OF trace_free] by fastforce
qed (simp add: release_reservation_def)

lemma step_traces:
  assumes "pairing_step env l s s'" "l \<noteq> Invited"
  shows "traces (if l = CodeRefused then 1 else 0) (lifecycle_of s) (lifecycle_of s')"
  using assms
proof cases
  case (refuses now a fresh)
  then show ?thesis using trace_finish [of env now a s fresh] by simp
next
  case (finishes_exchange now a fresh)
  then show ?thesis using trace_finish [of env now a s fresh] by simp
qed (simp_all add: trace_begin trace_deliver trace_release)

lemma invited_lifecycle:
  assumes "pairing_step env Invited s s'"
  shows "lifecycle_of s' = (Some 0, False)"
  using assms by cases (auto simp: create_invitation_def lifecycle_of_def split: if_splits sum.splits)

text \<open>C14: The pairing manager refines the promised lifecycle: every operation is a run of it, only a
  new invitation opens one, and a refused code is one wrong code.\<close>

theorem pairing_refines_lifecycle:
  assumes "pairing_step env l s s'"
  shows "\<exists>es. lifecycle_run es (lifecycle_of s) = Some (lifecycle_of s') \<and>
     (Invite \<in> set es \<longrightarrow> l = Invited) \<and> count_list es WrongCode = (if l = CodeRefused then 1 else 0)"
proof (cases "l = Invited")
  case True
  with assms invited_lifecycle have "lifecycle_of s' = (Some 0, False)" by blast
  with True show ?thesis by (intro exI [of _ "[Invite]"]) simp
next
  case False
  with step_traces [OF assms] show ?thesis unfolding traces_def by blast
qed

text \<open>A key exchange that accepts one finalization, and an invitation with an exchange in progress.\<close>

definition demo_exchange :: "(unit, unit) pairing_env" where
  "demo_exchange = \<lparr>pe_sha256 = map of_nat, pe_create = Inr \<circ> (\<lambda>_. ()), pe_start = (\<lambda>_ _ _. Inr ()),
     pe_response = (\<lambda>_. []), pe_check = (\<lambda>_ f _. if f = [1] then Inr [] else Inl ())\<rparr>"

definition demo_attempt :: "byte list \<Rightarrow> finish_attempt" where
  "demo_attempt f = \<lparr>fa_exchange = 2, fa_profile = Phone, fa_finalization = f, fa_context = [], fa_nonce = [], fa_enrollment = []\<rparr>"

definition demo_invited :: "(unit, unit) pairing_state" where
  "demo_invited = \<lparr>invitation = Some \<lparr>iv_id = 1, iv_invitation = (), iv_profile = Phone, iv_label = [80],
       iv_expires_at = INVITATION_TTL, iv_attempts = 0\<rparr>,
     exchanges = [], reservation = None, delivered = None, authority_begins = [], source_begins = []\<rparr>"

definition demo_begun :: "(unit, unit) pairing_state" where
  "demo_begun = demo_invited\<lparr>exchanges := [(2, \<lparr>ex_server = (), ex_expires_at = EXCHANGE_TTL\<rparr>)],
     authority_begins := [0], source_begins := [(IPv4 0, [0])]\<rparr>"

lemma demo_invites: "pairing_step demo_exchange Invited new_pairing demo_invited"
proof (rule invites)
  show "create_invitation (pe_create demo_exchange) 0 7 1 Phone [80] new_pairing =
      (Inr \<lparr>vw_code = pairing_code 7, vw_expires_in_seconds = INVITATION_TTL div NANOS, vw_label = [80]\<rparr>, demo_invited)"
    by (simp add: create_invitation_def demo_exchange_def demo_invited_def trim_def trim_start_def trim_end_def
        is_whitespace_def str_len_def utf8_len_def)
qed

lemma demo_begins: "pairing_step demo_exchange Quiet demo_invited demo_begun"
proof -
  have "snd (begin_pairing (pe_start demo_exchange) (pe_response demo_exchange) 0 2 Phone [] [] (IPv4 0) demo_invited) = demo_begun"
    by (simp add: begin_pairing_def purge_def demo_exchange_def demo_invited_def demo_begun_def rate_limited_def
        INVITATION_TTL_def NANOS_def hm_retain_def recent_begins_def MAX_ATTEMPTS_def MAX_ACTIVE_EXCHANGES_def
        MAX_BEGINS_PER_AUTHORITY_def MAX_TRACKED_SOURCES_def)
  then show ?thesis using begins_exchange by metis
qed

lemma demo_refused: "code_refused demo_exchange 1 (demo_attempt [0]) demo_begun"
  by (simp add: code_refused_def claim_exchange_def take_exchange_def purge_def demo_begun_def demo_invited_def
      demo_attempt_def demo_exchange_def hm_retain_def EXCHANGE_TTL_def NANOS_def)

theorem pairing_refines_lifecycle_witness:
  "\<exists>es. lifecycle_run es (lifecycle_of (new_pairing :: (unit, unit) pairing_state)) = Some (lifecycle_of demo_invited) \<and>
     (Invite \<in> set es \<longrightarrow> Invited = Invited) \<and> count_list es WrongCode = 0"
  using pairing_refines_lifecycle [OF demo_invites] by simp

text \<open>The guesses that a code allows.\<close>

definition wrong_codes_left :: "lifecycle \<Rightarrow> nat" where
  "wrong_codes_left l = (case fst l of None \<Rightarrow> 0 | Some n \<Rightarrow> max 1 (MAX_ATTEMPTS - n))"

lemma wrong_codes_left_step:
  "lifecycle_step e l = Some l' \<Longrightarrow> e \<noteq> Invite \<Longrightarrow>
     wrong_codes_left l' + (if e = WrongCode then 1 else 0) \<le> wrong_codes_left l"
  by (induction e l rule: lifecycle_step.induct)
    (auto simp: wrong_codes_left_def MAX_ATTEMPTS_def split: if_splits)

lemma wrong_codes_bounded:
  "lifecycle_run es l = Some l' \<Longrightarrow> Invite \<notin> set es \<Longrightarrow>
     wrong_codes_left l' + count_list es WrongCode \<le> wrong_codes_left l"
proof (induction es arbitrary: l)
  case (Cons e es)
  then obtain m where m: "lifecycle_step e l = Some m" "lifecycle_run es m = Some l'"
    by (auto simp: bind_eq_Some_conv)
  from wrong_codes_left_step [OF m(1)] Cons.IH [OF m(2)] Cons.prems(2) show ?case by (auto split: if_splits)
qed simp

lemma run_traces:
  "pairing_run env ls s s' \<Longrightarrow> Invited \<notin> set ls \<Longrightarrow> traces (count_list ls CodeRefused) (lifecycle_of s) (lifecycle_of s')"
proof (induction rule: pairing_run.induct)
  case (run_step l s t ls u)
  from run_step have "l \<noteq> Invited" "traces (count_list ls CodeRefused) (lifecycle_of t) (lifecycle_of u)" by auto
  then show ?case using traces_trans [OF step_traces [OF run_step.hyps(1)], of "count_list ls CodeRefused" "lifecycle_of u"]
    by (auto split: if_splits)
qed simp

text \<open>C19: An invitation gives at most five guesses at its code: however requests begin, finish, expire
  and deliver, without a new invitation no more than \<open>MAX_ATTEMPTS\<close> keys are refused.\<close>

theorem a_code_allows_five_guesses:
  assumes "pairing_run env ls s s'" and "Invited \<notin> set ls"
  shows "count_list ls CodeRefused \<le> MAX_ATTEMPTS"
proof -
  obtain es where "lifecycle_run es (lifecycle_of s) = Some (lifecycle_of s')" "Invite \<notin> set es"
      "count_list es WrongCode = count_list ls CodeRefused"
    using run_traces [OF assms] by (auto simp: traces_def)
  then have "count_list ls CodeRefused \<le> wrong_codes_left (lifecycle_of s)"
    using wrong_codes_bounded [of es "lifecycle_of s" "lifecycle_of s'"] by simp
  also have "\<dots> \<le> MAX_ATTEMPTS" by (simp add: wrong_codes_left_def MAX_ATTEMPTS_def split: option.splits)
  finally show ?thesis .
qed

theorem a_code_allows_five_guesses_witness:
  "\<exists>s. pairing_run demo_exchange [Quiet, CodeRefused] demo_invited s \<and> count_list [Quiet, CodeRefused] CodeRefused \<le> MAX_ATTEMPTS"
proof -
  have "pairing_run demo_exchange [Quiet, CodeRefused] demo_invited
      (snd (finish_pairing (pe_sha256 demo_exchange) (pe_check demo_exchange) 1 9 (demo_attempt [0]) demo_begun))"
    by (rule run_step [OF demo_begins run_step [OF refuses [OF demo_refused] run_stop]])
  from a_code_allows_five_guesses [OF this] this show ?thesis by auto
qed

section \<open>Delivery\<close>

lemma mod_power_digits:
  "\<forall>i < k. n div 256 ^ i mod 256 = m div 256 ^ i mod 256 \<Longrightarrow> n mod 256 ^ k = (m :: nat) mod 256 ^ k"
proof (induction k)
  case (Suc k)
  have split: "x mod 256 ^ Suc k = 256 ^ k * (x div 256 ^ k mod 256) + x mod 256 ^ k" for x :: nat
    using mod_mult2_eq [of x "256 ^ k" 256] by (simp add: mult.commute)
  have "n div 256 ^ k mod 256 = m div 256 ^ k mod 256" "n mod 256 ^ k = m mod 256 ^ k" using Suc by simp_all
  then show ?case unfolding split by simp
qed simp

lemma u64_be_bytes_inj:
  assumes "u64_be_bytes n = u64_be_bytes m" "n < 2 ^ 64" "m < 2 ^ 64"
  shows "n = m"
proof -
  have "\<forall>i \<in> set [7, 6, 5, 4, 3, 2, 1, 0]. n div 256 ^ i mod 256 = m div 256 ^ i mod 256"
    using assms(1) unfolding u64_be_bytes_def map_eq_conv .
  moreover have "set [7, 6, 5, 4, 3, 2, 1, 0] = {i :: nat. i < 8}" by auto
  ultimately have "n mod 256 ^ 8 = m mod 256 ^ 8" by (intro mod_power_digits) blast
  with assms(2,3) show ?thesis by simp
qed

lemma framed_append_inj:
  assumes "framed p @ x = framed q @ y" "length p < 2 ^ 64" "length q < 2 ^ 64"
  shows "p = q \<and> x = y"
proof -
  have "length (u64_be_bytes (length p)) = length (u64_be_bytes (length q))" by (simp add: u64_be_bytes_def)
  then have "u64_be_bytes (length p) = u64_be_bytes (length q)" "map unat p @ x = map unat q @ y"
    using assms(1) by (simp_all add: framed_def)
  moreover from this(1) have "length p = length q" using u64_be_bytes_inj assms(2,3) by blast
  moreover have "inj (unat :: byte \<Rightarrow> nat)" by (rule injI) (simp add: word_unat_eq_iff)
  ultimately show ?thesis by (simp add: inj_map_eq_map)
qed

definition attempt_fits :: "finish_attempt \<Rightarrow> bool" where
  "attempt_fits a \<longleftrightarrow> list_all (\<lambda>p. length p < 2 ^ 64) [fa_finalization a, fa_context a, fa_nonce a, fa_enrollment a]"

lemma attempt_frames_inj:
  assumes "attempt_frames a = attempt_frames b" "attempt_fits a" "attempt_fits b"
  shows "fa_finalization a = fa_finalization b \<and> fa_context a = fa_context b \<and>
    fa_nonce a = fa_nonce b \<and> fa_enrollment a = fa_enrollment b"
proof -
  have fits: "length (fa_finalization a) < 2 ^ 64" "length (fa_context a) < 2 ^ 64" "length (fa_nonce a) < 2 ^ 64"
    "length (fa_enrollment a) < 2 ^ 64" "length (fa_finalization b) < 2 ^ 64" "length (fa_context b) < 2 ^ 64"
    "length (fa_nonce b) < 2 ^ 64" "length (fa_enrollment b) < 2 ^ 64"
    using assms(2,3) by (simp_all add: attempt_fits_def)
  have eq: "framed (fa_finalization a) @ framed (fa_context a) @ framed (fa_nonce a) @ framed (fa_enrollment a) @ [] =
      framed (fa_finalization b) @ framed (fa_context b) @ framed (fa_nonce b) @ framed (fa_enrollment b) @ []"
    using assms(1) by (simp add: attempt_frames_def)
  show ?thesis
    using framed_append_inj [OF eq fits(1,5)] framed_append_inj [OF _ fits(2,6)]
      framed_append_inj [OF _ fits(3,7)] framed_append_inj [OF _ fits(4,8)] by metis
qed

lemma delivered_after:
  "delivered (deliver now r sealed s) = Some \<lparr>de_exchange = pr_exchange r, de_attempt = pr_attempt r,
     de_profile = pr_profile r, de_sealed = sealed, de_expires_at = now + EXCHANGE_TTL\<rparr>"
  by (simp add: deliver_def Let_def)

lemma no_delivery_left:
  "delivered s = None \<Longrightarrow> fst (finish_pairing sha256 check now fresh a s) \<noteq> Inr (FinishDelivered sealed)"
  by (auto simp: finish_pairing_def claim_exchange_def take_exchange_def purge_def reserve_def Let_def
      split: option.splits sum.splits if_splits)

text \<open>An enrollment that was delivered but lost on its way is returned once more, and only to the
  very attempt it was made for (unless SHA-256 collides on two attempts).\<close>

theorem lost_enrollment_is_returned_once:
  assumes "pr_exchange r = fa_exchange b" "pr_profile r = fa_profile b" "pr_attempt r = attempt_digest sha256 b"
    and "fa_exchange a = fa_exchange b" "later < now + EXCHANGE_TTL"
    and "sha256 (attempt_frames a) = sha256 (attempt_frames b) \<Longrightarrow> attempt_frames a = attempt_frames b"
    and "attempt_fits a" "attempt_fits b"
  shows "fst (finish_pairing sha256 check later fresh a (deliver now r sealed s)) =
      (if a = b then Inr (FinishDelivered sealed) else Inl pairing_unavailable) \<and>
    (a = b \<longrightarrow> fst (finish_pairing sha256 check t fresh' c
      (snd (finish_pairing sha256 check later fresh a (deliver now r sealed s)))) \<noteq> Inr (FinishDelivered sealed'))"
proof -
  let ?s = "deliver now r sealed s"
  have purged: "delivered (purge later ?s) = delivered ?s"
    using assms(5) by (simp add: purge_def delivered_after)
  have same: "pr_attempt r = attempt_digest sha256 a \<and> pr_profile r = fa_profile a \<longleftrightarrow> a = b"
    using assms attempt_frames_inj [of a b] by (auto simp: attempt_digest_def intro: finish_attempt.equality)
  have "claim_exchange sha256 later a ?s =
      (if a = b then (Inl (Inr (FinishDelivered sealed)), (purge later ?s)\<lparr>delivered := None\<rparr>)
       else (Inl (Inl pairing_unavailable), purge later ?s))"
    using assms(1,4) same by (simp add: claim_exchange_def Let_def purged delivered_after)
  then have "finish_pairing sha256 check later fresh a ?s =
      (if a = b then (Inr (FinishDelivered sealed), (purge later ?s)\<lparr>delivered := None\<rparr>)
       else (Inl pairing_unavailable, purge later ?s))"
    by (simp add: finish_pairing_def)
  then show ?thesis by (cases "a = b") (simp_all add: no_delivery_left)
qed

theorem lost_enrollment_is_returned_once_witness:
  "fst (finish_pairing (map of_nat) (pe_check demo_exchange) 5 8 (demo_attempt [1])
     (deliver 3 \<lparr>pr_id = 4, pr_invitation = 1, pr_exchange = 2, pr_attempt = attempt_digest (map of_nat) (demo_attempt [1]),
        pr_session_key = [], pr_profile = Phone, pr_label = [80]\<rparr> \<lparr>se_nonce = [], se_ciphertext = [7]\<rparr> demo_invited)) =
   Inr (FinishDelivered \<lparr>se_nonce = [], se_ciphertext = [7]\<rparr>)"
proof -
  let ?r = "\<lparr>pr_id = 4, pr_invitation = 1, pr_exchange = 2, pr_attempt = attempt_digest (map of_nat) (demo_attempt [1]),
        pr_session_key = [], pr_profile = Phone, pr_label = [80]\<rparr>"
  have "attempt_fits (demo_attempt [1])" by (simp add: attempt_fits_def demo_attempt_def)
  moreover have "(5 :: nat) < 3 + EXCHANGE_TTL" by (simp add: EXCHANGE_TTL_def NANOS_def)
  ultimately show ?thesis
    using lost_enrollment_is_returned_once [of ?r "demo_attempt [1]" "map of_nat" "demo_attempt [1]" 5 3
        "pe_check demo_exchange" 8 "\<lparr>se_nonce = [], se_ciphertext = [7]\<rparr>" demo_invited]
    by (simp add: demo_attempt_def)
qed

end
