(* ===== verification/Goal_Documents.thy ===== *)
theory Goal_Documents
  imports BoBe_Prelude Owner_Inputs
begin

text \<open>
  The Markdown documents that hold goals: \<open>src/BoBeService/src/services/goals/goal_md.rs\<close> (printing
  and parsing), the store of one file per goal in \<open>file_store.rs\<close> and the service over it in
  \<open>goals_service.rs\<close>. How uuid and chrono print and parse, and the Unicode lower-case tables, are
  parameters. The directory is a map from file stems to texts; input and output errors are left out.
\<close>

section \<open>Lines\<close>

text \<open>\<open>str::lines\<close>: a line ends at a line feed, and a carriage return before it belongs to the end.\<close>

definition strip_cr :: "rtext \<Rightarrow> rtext" where
  "strip_cr l = (case strip_suffix [13] l of Some r \<Rightarrow> r | None \<Rightarrow> l)"

fun lines_from :: "rtext \<Rightarrow> rtext \<Rightarrow> rtext list" where
  "lines_from acc [] = (if acc = [] then [] else [acc])"
| "lines_from acc (c # cs) = (if c = 10 then strip_cr acc # lines_from [] cs else lines_from (acc @ [c]) cs)"

definition text_lines :: "rtext \<Rightarrow> rtext list" where
  "text_lines s = lines_from [] s"

fun split_first :: "rtext \<Rightarrow> rtext \<Rightarrow> (rtext \<times> rtext) option" where
  "split_first p [] = (if p = [] then Some ([], []) else None)"
| "split_first p (c # cs) =
     (case strip_prefix p (c # cs) of
        Some r \<Rightarrow> Some ([], r)
      | None \<Rightarrow> map_option (\<lambda>(a, b). (c # a, b)) (split_first p cs))"

section \<open>Documents\<close>

datatype goal_status = GoalActive | GoalCompleted | GoalArchived | GoalPaused

definition goal_status_text :: "goal_status \<Rightarrow> rtext" where
  "goal_status_text s = lit (case s of GoalActive \<Rightarrow> ''active'' | GoalCompleted \<Rightarrow> ''completed''
     | GoalArchived \<Rightarrow> ''archived'' | GoalPaused \<Rightarrow> ''paused'')"

record goal_doc =
  gd_id :: uuid
  gd_title :: rtext
  gd_status :: goal_status
  gd_priority :: nat
  gd_created :: int
  gd_updated :: int
  gd_summary :: rtext
  gd_why :: rtext
  gd_how :: rtext
  gd_patterns :: rtext
  gd_attitude :: rtext
  gd_questions :: rtext
  gd_notes :: rtext
  gd_extra :: "(rtext \<times> rtext) list"

record goal_env =
  ge_print_id :: "uuid \<Rightarrow> rtext"
  ge_parse_id :: "rtext \<Rightarrow> uuid option"
  ge_print_time :: "int \<Rightarrow> rtext"
  ge_parse_time :: "rtext \<Rightarrow> int option"
  ge_lower :: "rtext \<Rightarrow> nat \<Rightarrow> rtext"

datatype goal_parse_error =
    MissingId
  | InvalidId rtext
  | MissingTitle
  | InvalidStatus rtext
  | InvalidPriority rtext
  | InvalidTimestamp string rtext

definition new_goal :: "int \<Rightarrow> uuid \<Rightarrow> rtext \<Rightarrow> rtext \<Rightarrow> goal_doc" where
  "new_goal now fresh title summary =
     \<lparr>gd_id = fresh, gd_title = title, gd_status = GoalActive, gd_priority = 2, gd_created = now,
      gd_updated = now, gd_summary = summary, gd_why = [], gd_how = [], gd_patterns = [], gd_attitude = [],
      gd_questions = [], gd_notes = [], gd_extra = []\<rparr>"

text \<open>Decimal numbers of type \<open>u8\<close>: \<open>Display\<close> and \<open>parse::<u8>\<close>.\<close>

definition show_u8 :: "nat \<Rightarrow> rtext" where
  "show_u8 n = (if n < 10 then [48 + n]
     else if n < 100 then [48 + n div 10, 48 + n mod 10]
     else [48 + n div 100, 48 + n div 10 mod 10, 48 + n mod 10])"

definition parse_u8 :: "rtext \<Rightarrow> nat option" where
  "parse_u8 t =
     (let digits = (case t of c # r \<Rightarrow> if c = cp (CHR ''+'') then r else t | [] \<Rightarrow> [])
      in if digits = [] \<or> \<not> list_all is_ascii_digit digits then None
         else let n = foldl (\<lambda>a c. 10 * a + (c - 48)) 0 digits in if n < 256 then Some n else None)"

section \<open>Printing\<close>

definition LIVING_DOCUMENT_PREAMBLE :: rtext where
  "LIVING_DOCUMENT_PREAMBLE =
     lit ''> This is a living document. Update any section as you learn more'' @ [10] @
     lit ''> about the user's relationship to this goal.'' @ [10]"

definition canonical_sections :: "goal_doc \<Rightarrow> (rtext \<times> rtext) list" where
  "canonical_sections d =
     [(lit ''Summary'', gd_summary d),
      (lit ''Why It Matters'', gd_why d),
      (lit ''How They're Working On It'', gd_how d),
      (lit ''Patterns Observed'', gd_patterns d),
      (lit ''Attitude & Feelings'', gd_attitude d),
      (lit ''Open Questions'', gd_questions d),
      (lit ''Notes'', gd_notes d)]"

definition metadata_line :: "string \<Rightarrow> rtext \<Rightarrow> rtext" where
  "metadata_line key value = lit ''**'' @ lit key @ lit ''**: '' @ value @ [10]"

definition section_text :: "rtext \<times> rtext \<Rightarrow> rtext" where
  "section_text s = [10] @ lit ''## '' @ fst s @ [10] @
     (if trim (snd s) = [] then [] else [10] @ trim (snd s) @ [10])"

definition to_md :: "goal_env \<Rightarrow> goal_doc \<Rightarrow> rtext" where
  "to_md env d =
     LIVING_DOCUMENT_PREAMBLE @ [10] @ lit ''# '' @ trim (gd_title d) @ [10, 10] @
     metadata_line ''ID'' (ge_print_id env (gd_id d)) @
     metadata_line ''Status'' (goal_status_text (gd_status d)) @
     metadata_line ''Priority'' (show_u8 (gd_priority d)) @
     metadata_line ''Created'' (ge_print_time env (gd_created d)) @
     metadata_line ''Updated'' (ge_print_time env (gd_updated d)) @
     concat (map section_text (canonical_sections d @ gd_extra d))"

section \<open>Parsing\<close>

definition parse_metadata_line :: "rtext \<Rightarrow> (rtext \<times> rtext) option" where
  "parse_metadata_line line =
     (case strip_prefix (lit ''**'') (trim_start line) of
        None \<Rightarrow> None
      | Some r \<Rightarrow> map_option (\<lambda>(key, value). (key, trim value)) (split_first (lit ''**:'') r))"

definition lowercase_with :: "(rtext \<Rightarrow> nat \<Rightarrow> rtext) \<Rightarrow> rtext \<Rightarrow> rtext" where
  "lowercase_with lower s =
     concat (map (\<lambda>i. if s ! i < 128 then [to_ascii_lowercase (s ! i)] else lower s i) [0..<length s])"

definition parse_status :: "goal_env \<Rightarrow> rtext \<Rightarrow> goal_parse_error + goal_status" where
  "parse_status env value =
     (let v = lowercase_with (ge_lower env) value
      in if v = lit ''active'' then Inr GoalActive
         else if v = lit ''paused'' then Inr GoalPaused
         else if v = lit ''completed'' then Inr GoalCompleted
         else if v = lit ''archived'' then Inr GoalArchived
         else Inl (InvalidStatus v))"

definition parse_iso_8601 :: "goal_env \<Rightarrow> rtext \<Rightarrow> string \<Rightarrow> goal_parse_error + int" where
  "parse_iso_8601 env value field =
     (case ge_parse_time env value of Some t \<Rightarrow> Inr t | None \<Rightarrow> Inl (InvalidTimestamp field value))"

record goal_parse =
  gp_title :: "rtext option"
  gp_id :: "uuid option"
  gp_status :: goal_status
  gp_priority :: nat
  gp_created :: "int option"
  gp_updated :: "int option"
  gp_sections :: "(rtext \<times> rtext) list"
  gp_current :: "(rtext \<times> rtext) option"

definition parse_metadata :: "goal_env \<Rightarrow> rtext \<Rightarrow> rtext \<Rightarrow> goal_parse \<Rightarrow> goal_parse_error + goal_parse" where
  "parse_metadata env key value st =
     (if key = lit ''ID'' then
        (case ge_parse_id env value of Some i \<Rightarrow> Inr (st\<lparr>gp_id := Some i\<rparr>) | None \<Rightarrow> Inl (InvalidId value))
      else if key = lit ''Status'' then
        (case parse_status env value of Inr s \<Rightarrow> Inr (st\<lparr>gp_status := s\<rparr>) | Inl e \<Rightarrow> Inl e)
      else if key = lit ''Priority'' then
        (case parse_u8 value of Some p \<Rightarrow> Inr (st\<lparr>gp_priority := p\<rparr>) | None \<Rightarrow> Inl (InvalidPriority value))
      else if key = lit ''Created'' then
        (case parse_iso_8601 env value ''Created'' of Inr t \<Rightarrow> Inr (st\<lparr>gp_created := Some t\<rparr>) | Inl e \<Rightarrow> Inl e)
      else if key = lit ''Updated'' then
        (case parse_iso_8601 env value ''Updated'' of Inr t \<Rightarrow> Inr (st\<lparr>gp_updated := Some t\<rparr>) | Inl e \<Rightarrow> Inl e)
      else Inr st)"

definition finished_sections :: "goal_parse \<Rightarrow> (rtext \<times> rtext) list" where
  "finished_sections st = gp_sections st @ (case gp_current st of None \<Rightarrow> [] | Some s \<Rightarrow> [s])"

definition parse_line :: "goal_env \<Rightarrow> rtext \<Rightarrow> goal_parse \<Rightarrow> goal_parse_error + goal_parse" where
  "parse_line env raw st =
     (let line = trim_end raw in
      if gp_title st = None \<and> gp_current st = None \<and> starts_with (lit ''# '') line
      then Inr (st\<lparr>gp_title := Some (trim (drop 2 line))\<rparr>)
      else if starts_with (lit ''## '') line
      then Inr (st\<lparr>gp_sections := finished_sections st, gp_current := Some (trim (drop 3 line), [])\<rparr>)
      else case gp_current st of
        None \<Rightarrow>
          (case parse_metadata_line line of
             Some (key, value) \<Rightarrow> parse_metadata env key value st
           | None \<Rightarrow> Inr st)
      | Some (name, body) \<Rightarrow> Inr (st\<lparr>gp_current := Some (name, body @ line @ [10])\<rparr>))"

fun parse_lines :: "goal_env \<Rightarrow> rtext list \<Rightarrow> goal_parse \<Rightarrow> goal_parse_error + goal_parse" where
  "parse_lines env [] st = Inr st"
| "parse_lines env (l # ls) st =
     (case parse_line env l st of Inl e \<Rightarrow> Inl e | Inr st' \<Rightarrow> parse_lines env ls st')"

definition start_parse :: goal_parse where
  "start_parse = \<lparr>gp_title = None, gp_id = None, gp_status = GoalActive, gp_priority = 2, gp_created = None,
     gp_updated = None, gp_sections = [], gp_current = None\<rparr>"

definition put_section :: "rtext \<times> rtext \<Rightarrow> goal_doc \<Rightarrow> goal_doc" where
  "put_section s d =
     (let name = fst s; body = trim (snd s)
      in if name = lit ''Summary'' then d\<lparr>gd_summary := body\<rparr>
         else if name = lit ''Why It Matters'' then d\<lparr>gd_why := body\<rparr>
         else if name = lit ''How They're Working On It'' then d\<lparr>gd_how := body\<rparr>
         else if name = lit ''Patterns Observed'' then d\<lparr>gd_patterns := body\<rparr>
         else if name = lit ''Attitude & Feelings'' then d\<lparr>gd_attitude := body\<rparr>
         else if name = lit ''Open Questions'' then d\<lparr>gd_questions := body\<rparr>
         else if name = lit ''Notes'' then d\<lparr>gd_notes := body\<rparr>
         else d\<lparr>gd_extra := gd_extra d @ [(name, body)]\<rparr>)"

definition parse_goal :: "goal_env \<Rightarrow> int \<Rightarrow> rtext \<Rightarrow> goal_parse_error + goal_doc" where
  "parse_goal env now input =
     (case parse_lines env (text_lines input) start_parse of
        Inl e \<Rightarrow> Inl e
      | Inr st \<Rightarrow>
          (case gp_id st of
             None \<Rightarrow> Inl MissingId
           | Some i \<Rightarrow>
               (case gp_title st of
                  None \<Rightarrow> Inl MissingTitle
                | Some title \<Rightarrow>
                    Inr (fold put_section (finished_sections st)
                      \<lparr>gd_id = i, gd_title = title, gd_status = gp_status st, gd_priority = gp_priority st,
                       gd_created = (case gp_created st of Some t \<Rightarrow> t | None \<Rightarrow> now),
                       gd_updated = (case gp_updated st of Some t \<Rightarrow> t | None \<Rightarrow> now),
                       gd_summary = [], gd_why = [], gd_how = [], gd_patterns = [], gd_attitude = [],
                       gd_questions = [], gd_notes = [], gd_extra = []\<rparr>))))"

section \<open>The store\<close>

type_synonym goal_dir = "(rtext, rtext) hmap"

definition parse_for_path :: "goal_env \<Rightarrow> int \<Rightarrow> rtext \<Rightarrow> rtext \<Rightarrow> app_error + goal_doc" where
  "parse_for_path env now stem body =
     (case parse_goal env now body of
        Inl e \<Rightarrow> Inl (Internal ''could not parse goal file'')
      | Inr d \<Rightarrow>
          (case ge_parse_id env stem of
             None \<Rightarrow> Inl (Internal ''goal filename is not an ID'')
           | Some i \<Rightarrow>
               if gd_id d \<noteq> i then Inl (Internal ''goal filename ID does not match frontmatter ID'') else Inr d))"

definition parse_checked :: "goal_env \<Rightarrow> int \<Rightarrow> rtext \<Rightarrow> rtext \<Rightarrow> uuid \<Rightarrow> app_error + goal_doc" where
  "parse_checked env now stem body expected =
     (case parse_for_path env now stem body of
        Inl e \<Rightarrow> Inl e
      | Inr d \<Rightarrow> if gd_id d \<noteq> expected then Inl (Internal ''goal request ID does not match frontmatter ID'') else Inr d)"

definition list_goals :: "goal_env \<Rightarrow> int \<Rightarrow> goal_dir \<Rightarrow> goal_doc list" where
  "list_goals env now dir =
     concat (map (\<lambda>(stem, body). case parse_for_path env now stem body of Inr d \<Rightarrow> [d] | Inl _ \<Rightarrow> []) dir)"

definition get_goal :: "goal_env \<Rightarrow> int \<Rightarrow> uuid \<Rightarrow> goal_dir \<Rightarrow> app_error + goal_doc option" where
  "get_goal env now i dir =
     (case hm_get dir (ge_print_id env i) of
        None \<Rightarrow> Inr None
      | Some body \<Rightarrow>
          (case parse_checked env now (ge_print_id env i) body i of Inl e \<Rightarrow> Inl e | Inr d \<Rightarrow> Inr (Some d)))"

definition save_goal :: "goal_env \<Rightarrow> goal_doc \<Rightarrow> goal_dir \<Rightarrow> goal_dir" where
  "save_goal env d dir = hm_insert (ge_print_id env (gd_id d)) (to_md env d) dir"

definition save_if_absent :: "goal_env \<Rightarrow> goal_doc \<Rightarrow> goal_dir \<Rightarrow> bool \<times> goal_dir" where
  "save_if_absent env d dir =
     (if hm_get dir (ge_print_id env (gd_id d)) \<noteq> None then (False, dir) else (True, save_goal env d dir))"

text \<open>The document is written under the name of the request.\<close>

definition update_file ::
  "goal_env \<Rightarrow> int \<Rightarrow> uuid \<Rightarrow> (goal_doc \<Rightarrow> goal_doc) \<Rightarrow> goal_dir \<Rightarrow> (app_error + goal_doc option) \<times> goal_dir" where
  "update_file env now i mutate dir =
     (case hm_get dir (ge_print_id env i) of
        None \<Rightarrow> (Inr None, dir)
      | Some body \<Rightarrow>
          (case parse_checked env now (ge_print_id env i) body i of
             Inl e \<Rightarrow> (Inl e, dir)
           | Inr d \<Rightarrow> (Inr (Some (mutate d)), hm_insert (ge_print_id env i) (to_md env (mutate d)) dir)))"

definition delete_goal :: "goal_env \<Rightarrow> uuid \<Rightarrow> goal_dir \<Rightarrow> bool \<times> goal_dir" where
  "delete_goal env i dir = (hm_get dir (ge_print_id env i) \<noteq> None, hm_remove (ge_print_id env i) dir)"

definition delete_all_goals :: "goal_dir \<Rightarrow> nat \<times> goal_dir" where
  "delete_all_goals dir = (length dir, [])"

section \<open>The service\<close>

record goal_patch =
  pt_title :: "rtext option"
  pt_status :: "goal_status option"
  pt_priority :: "nat option"
  pt_summary :: "rtext option"
  pt_why :: "rtext option"
  pt_how :: "rtext option"
  pt_patterns :: "rtext option"
  pt_attitude :: "rtext option"
  pt_questions :: "rtext option"
  pt_notes :: "rtext option"

definition normalize_title :: "rtext \<Rightarrow> app_error + rtext" where
  "normalize_title title =
     (let t = trim title in
      if t = [] then Inl (Validation ''title must not be empty'')
      else if 13 \<in> set t \<or> 10 \<in> set t then Inl (Validation ''title must be a single line'')
      else Inr t)"

definition validate_priority :: "nat \<Rightarrow> app_error + unit" where
  "validate_priority p = (if 5 < p then Inl (Validation ''priority must be 0-5 (5 = highest)'') else Inr ())"

definition section_has_heading :: "rtext \<Rightarrow> bool" where
  "section_has_heading value \<longleftrightarrow>
     list_ex (\<lambda>l. starts_with (lit ''# '') (trim_start l) \<or> starts_with (lit ''## '') (trim_start l)) (text_lines value)"

definition validate_section_text :: "rtext \<Rightarrow> app_error + unit" where
  "validate_section_text value =
     (if section_has_heading value then Inl (Validation ''must not contain Markdown section headings'') else Inr ())"

fun validate_sections :: "rtext list \<Rightarrow> app_error + unit" where
  "validate_sections [] = Inr ()"
| "validate_sections (v # vs) = (case validate_section_text v of Inl e \<Rightarrow> Inl e | Inr _ \<Rightarrow> validate_sections vs)"

definition validate_goal_sections :: "goal_doc \<Rightarrow> app_error + unit" where
  "validate_goal_sections d = validate_sections (map snd (canonical_sections d))"

definition prepare_new :: "int \<Rightarrow> goal_doc \<Rightarrow> app_error + goal_doc" where
  "prepare_new now d =
     (case normalize_title (gd_title d) of
        Inl e \<Rightarrow> Inl e
      | Inr title \<Rightarrow>
          (case validate_priority (gd_priority d) of
             Inl e \<Rightarrow> Inl e
           | Inr _ \<Rightarrow>
               (case validate_goal_sections (d\<lparr>gd_title := title\<rparr>) of
                  Inl e \<Rightarrow> Inl e
                | Inr _ \<Rightarrow> Inr (d\<lparr>gd_title := title, gd_created := now, gd_updated := now\<rparr>))))"

definition create_goal ::
  "goal_env \<Rightarrow> int \<Rightarrow> uuid \<Rightarrow> goal_doc \<Rightarrow> goal_dir \<Rightarrow> (app_error + goal_doc) \<times> goal_dir" where
  "create_goal env now fresh d dir =
     (case prepare_new now (d\<lparr>gd_id := fresh\<rparr>) of
        Inl e \<Rightarrow> (Inl e, dir)
      | Inr d' \<Rightarrow> (Inr d', save_goal env d' dir))"

definition create_if_absent :: "goal_env \<Rightarrow> int \<Rightarrow> goal_doc \<Rightarrow> goal_dir \<Rightarrow> (app_error + bool) \<times> goal_dir" where
  "create_if_absent env now d dir =
     (case prepare_new now d of
        Inl e \<Rightarrow> (Inl e, dir)
      | Inr d' \<Rightarrow> (case save_if_absent env d' dir of (b, dir') \<Rightarrow> (Inr b, dir')))"

definition with_some :: "'a option \<Rightarrow> ('a \<Rightarrow> goal_doc \<Rightarrow> goal_doc) \<Rightarrow> goal_doc \<Rightarrow> goal_doc" where
  "with_some v f d = (case v of None \<Rightarrow> d | Some x \<Rightarrow> f x d)"

definition patch_is_empty :: "goal_patch \<Rightarrow> bool" where
  "patch_is_empty p \<longleftrightarrow> p = \<lparr>pt_title = None, pt_status = None, pt_priority = None, pt_summary = None, pt_why = None,
     pt_how = None, pt_patterns = None, pt_attitude = None, pt_questions = None, pt_notes = None\<rparr>"

definition apply_patch :: "int \<Rightarrow> rtext option \<Rightarrow> goal_patch \<Rightarrow> goal_doc \<Rightarrow> goal_doc" where
  "apply_patch now title p d =
     (let d1 = with_some title (\<lambda>x d. d\<lparr>gd_title := x\<rparr>)
          (with_some (pt_status p) (\<lambda>x d. d\<lparr>gd_status := x\<rparr>)
          (with_some (pt_priority p) (\<lambda>x d. d\<lparr>gd_priority := x\<rparr>)
          (with_some (pt_summary p) (\<lambda>x d. d\<lparr>gd_summary := x\<rparr>)
          (with_some (pt_why p) (\<lambda>x d. d\<lparr>gd_why := x\<rparr>)
          (with_some (pt_how p) (\<lambda>x d. d\<lparr>gd_how := x\<rparr>)
          (with_some (pt_patterns p) (\<lambda>x d. d\<lparr>gd_patterns := x\<rparr>)
          (with_some (pt_attitude p) (\<lambda>x d. d\<lparr>gd_attitude := x\<rparr>)
          (with_some (pt_questions p) (\<lambda>x d. d\<lparr>gd_questions := x\<rparr>)
          (with_some (pt_notes p) (\<lambda>x d. d\<lparr>gd_notes := x\<rparr>) d)))))))))
      in if patch_is_empty p then d1 else d1\<lparr>gd_updated := now\<rparr>)"

definition patch_sections :: "goal_patch \<Rightarrow> rtext list" where
  "patch_sections p = List.map_filter id [pt_summary p, pt_why p, pt_how p, pt_patterns p, pt_attitude p, pt_questions p, pt_notes p]"

definition update_goal ::
  "goal_env \<Rightarrow> int \<Rightarrow> uuid \<Rightarrow> goal_patch \<Rightarrow> goal_dir \<Rightarrow> (app_error + goal_doc option) \<times> goal_dir" where
  "update_goal env now i p dir =
     (case (case pt_title p of None \<Rightarrow> Inr None | Some t \<Rightarrow> map_sum id Some (normalize_title t)) of
        Inl e \<Rightarrow> (Inl e, dir)
      | Inr title \<Rightarrow>
          (case (case pt_priority p of None \<Rightarrow> Inr () | Some q \<Rightarrow> validate_priority q) of
             Inl e \<Rightarrow> (Inl e, dir)
           | Inr _ \<Rightarrow>
               (case validate_sections (patch_sections p) of
                  Inl e \<Rightarrow> (Inl e, dir)
                | Inr _ \<Rightarrow> update_file env now i (apply_patch now title p) dir)))"

definition set_goal_status ::
  "goal_env \<Rightarrow> int \<Rightarrow> uuid \<Rightarrow> goal_status \<Rightarrow> goal_dir \<Rightarrow> (app_error + goal_doc option) \<times> goal_dir" where
  "set_goal_status env now i s dir =
     update_goal env now i \<lparr>pt_title = None, pt_status = Some s, pt_priority = None, pt_summary = None, pt_why = None,
       pt_how = None, pt_patterns = None, pt_attitude = None, pt_questions = None, pt_notes = None\<rparr> dir"

definition sort_goals :: "goal_doc list \<Rightarrow> goal_doc list" where
  "sort_goals ds = sort_key (\<lambda>d. (- int (gd_priority d), - gd_updated d)) ds"

definition list_all_goals :: "goal_env \<Rightarrow> int \<Rightarrow> goal_dir \<Rightarrow> goal_doc list" where
  "list_all_goals env now dir = sort_goals (list_goals env now dir)"

definition list_active_goals :: "goal_env \<Rightarrow> int \<Rightarrow> goal_dir \<Rightarrow> goal_doc list" where
  "list_active_goals env now dir = sort_goals (filter (\<lambda>d. gd_status d = GoalActive) (list_goals env now dir))"

section \<open>Lemmas on lines\<close>

lemma lines_no_newline: "10 \<notin> set u \<Longrightarrow> lines_from acc (u @ q) = lines_from (acc @ u) q"
  by (induction u arbitrary: acc) auto

lemma text_lines_newline: "10 \<notin> set l \<Longrightarrow> text_lines (l @ 10 # rest) = strip_cr l # text_lines rest"
  by (simp add: text_lines_def lines_no_newline)

lemma strip_cr_id: "l = [] \<or> last l \<noteq> 13 \<Longrightarrow> strip_cr l = l"
  by (auto simp: strip_cr_def strip_suffix_Some split: option.split)

lemma lines_from_append:
  "b \<noteq> [] \<Longrightarrow> last b \<noteq> 10 \<Longrightarrow> last b \<noteq> 13 \<Longrightarrow>
     lines_from acc (b @ 10 # rest) = lines_from acc b @ text_lines rest"
proof (induction b arbitrary: acc)
  case (Cons c cs)
  show ?case
  proof (cases cs)
    case Nil
    with Cons.prems show ?thesis by (simp add: text_lines_def strip_cr_id)
  next
    case (Cons d ds)
    with Cons.IH Cons.prems show ?thesis by auto
  qed
qed simp

lemma text_lines_append:
  "b \<noteq> [] \<Longrightarrow> last b \<noteq> 10 \<Longrightarrow> last b \<noteq> 13 \<Longrightarrow> text_lines (b @ 10 # rest) = text_lines b @ text_lines rest"
  unfolding text_lines_def [of b] text_lines_def [of "b @ 10 # rest"] by (rule lines_from_append)

lemma whitespace_ends: "is_whitespace 10" "is_whitespace 13" "is_whitespace 32"
  by (simp_all add: is_whitespace_def)

lemma trim_end_nonspace: "\<not> is_whitespace c \<Longrightarrow> trim_end (a @ [c]) = a @ [c]"
  by (simp add: trim_end_def)

lemma trim_end_last: "s \<noteq> [] \<Longrightarrow> \<not> is_whitespace (last s) \<Longrightarrow> trim_end (a @ s) = a @ s"
  using trim_end_nonspace [of "last s" "a @ butlast s"] by simp

lemma trim_end_space: "is_whitespace c \<Longrightarrow> trim_end (a @ [c]) = trim_end a"
  by (simp add: trim_end_def)

lemma trim_start_space: "is_whitespace c \<Longrightarrow> trim_start (c # a) = trim_start a"
  by (simp add: trim_start_def)

lemma trim_space: "is_whitespace c \<Longrightarrow> trim (c # a) = trim a"
  by (simp add: trim_def trim_start_space)

lemma trim_space_end:
  assumes "is_whitespace c"
  shows "trim (a @ [c]) = trim a"
proof (cases "\<forall>x \<in> set a. is_whitespace x")
  case True
  then have "trim_start (a @ [c]) = []" "trim_start a = []" using assms by (auto simp: trim_start_def dropWhile_append3)
  then show ?thesis by (simp add: trim_def)
next
  case False
  then obtain x where "x \<in> set a" "\<not> is_whitespace x" by blast
  then have "trim_start (a @ [c]) = trim_start a @ [c]" by (simp add: trim_start_def dropWhile_append1)
  with assms show ?thesis by (simp add: trim_def trim_end_space)
qed

lemma trim_Nil [simp]: "trim [] = []"
  by (simp add: trim_def trim_start_def trim_end_def)

section \<open>What parsing recovers\<close>

definition plain :: "rtext \<Rightarrow> bool" where
  "plain t \<longleftrightarrow> t \<noteq> [] \<and> trimmed t \<and> 10 \<notin> set t"

lemma plain_facts:
  "plain t \<Longrightarrow> t \<noteq> []" "plain t \<Longrightarrow> 10 \<notin> set t" "plain t \<Longrightarrow> trim t = t"
  "plain t \<Longrightarrow> trim_end (a @ t) = a @ t" "plain t \<Longrightarrow> strip_cr (a @ t) = a @ t"
  using whitespace_ends by (auto simp: plain_def trimmed_def trim_end_last trim_trimmed intro!: strip_cr_id)

text \<open>A section body as it is read back: the lines of its trimmed text without trailing space.\<close>

definition read_lines :: "rtext list \<Rightarrow> rtext" where
  "read_lines ls = concat (map (\<lambda>l. trim_end l @ [10]) ls)"

definition normal_body :: "rtext \<Rightarrow> rtext" where
  "normal_body b = trim (read_lines (text_lines (trim b)))"

definition heading_free :: "rtext \<Rightarrow> bool" where
  "heading_free b \<longleftrightarrow> list_all (\<lambda>l. \<not> starts_with (lit ''## '') (trim_end l)) (text_lines (trim b))"

lemma parse_body_lines:
  "gp_current st = Some (n, b) \<Longrightarrow> list_all (\<lambda>l. \<not> starts_with (lit ''## '') (trim_end l)) ls \<Longrightarrow>
     parse_lines env ls st = Inr (st\<lparr>gp_current := Some (n, b @ read_lines ls)\<rparr>)"
proof (induction ls arbitrary: st b)
  case Nil
  then show ?case by (simp add: read_lines_def)
next
  case (Cons l ls)
  then have "parse_line env l st = Inr (st\<lparr>gp_current := Some (n, b @ trim_end l @ [10])\<rparr>)"
    by (simp add: parse_line_def Let_def)
  then show ?case using Cons.IH [of "st\<lparr>gp_current := Some (n, b @ trim_end l @ [10])\<rparr>" "b @ trim_end l @ [10]"] Cons.prems
    by (simp add: read_lines_def)
qed

lemma parse_lines_append:
  "parse_lines env (ls @ ms) st = (case parse_lines env ls st of Inl e \<Rightarrow> Inl e | Inr st' \<Rightarrow> parse_lines env ms st')"
  by (induction ls arbitrary: st) (auto split: sum.split)

lemma parse_heading:
  assumes "plain n" "gp_title st \<noteq> None"
  shows "parse_line env (lit ''## '' @ n) st = Inr (st\<lparr>gp_sections := finished_sections st, gp_current := Some (n, [])\<rparr>)"
proof -
  have "starts_with (lit ''## '') (lit ''## '' @ n)" by (simp add: starts_with_def)
  moreover have "drop 3 (lit ''## '' @ n) = n" by (simp add: lit_def)
  ultimately show ?thesis using assms plain_facts [OF assms(1)] by (auto simp: parse_line_def Let_def)
qed

lemma parse_blank:
  "parse_line env [] st = Inr (case gp_current st of None \<Rightarrow> st | Some (n, b) \<Rightarrow> st\<lparr>gp_current := Some (n, b @ [10])\<rparr>)"
  by (auto simp: parse_line_def Let_def trim_end_def starts_with_def lit_def parse_metadata_line_def trim_start_def
      split: option.split)

lemma section_lines:
  assumes "plain n"
  shows "text_lines (section_text (n, b) @ rest) =
    [[], lit ''## '' @ n] @ (if trim b = [] then [] else [] # text_lines (trim b)) @ text_lines rest"
proof -
  have "10 \<notin> set (lit ''## '' @ n)" using plain_facts(2) [OF assms] by (simp add: lit_def)
  then have "text_lines (lit ''## '' @ n @ 10 # x) = (lit ''## '' @ n) # text_lines x" for x
    using text_lines_newline [of "lit ''## '' @ n" x] plain_facts(5) [OF assms] by simp
  moreover have "text_lines (10 # x) = [] # text_lines x" for x
    using text_lines_newline [of "[]" x] by (simp add: strip_cr_id)
  moreover have "text_lines (trim b @ 10 # rest) = text_lines (trim b) @ text_lines rest" if "trim b \<noteq> []"
    using that last_trim [OF that] whitespace_ends by (intro text_lines_append) metis+
  ultimately show ?thesis by (simp add: section_text_def)
qed

definition header_of where
  "header_of st = (gp_title st, gp_id st, gp_status st, gp_priority st, gp_created st, gp_updated st)"

abbreviation trim_bodies :: "(rtext \<times> rtext) list \<Rightarrow> (rtext \<times> rtext) list" where
  "trim_bodies secs \<equiv> map (\<lambda>(n, b). (n, trim b)) secs"

lemma parse_blank_between:
  "\<exists>st'. parse_line env [] st = Inr st' \<and> header_of st' = header_of st \<and>
     trim_bodies (finished_sections st') = trim_bodies (finished_sections st)"
  using trim_space_end [OF whitespace_ends(1)]
  by (auto simp: parse_blank header_of_def finished_sections_def split: option.split)

lemma parse_one_section:
  assumes "plain n" "heading_free b" "gp_title st \<noteq> None"
  shows "\<exists>st'. parse_lines env ([[], lit ''## '' @ n] @ (if trim b = [] then [] else [] # text_lines (trim b))) st = Inr st' \<and>
    header_of st' = header_of st \<and>
    trim_bodies (finished_sections st') = trim_bodies (finished_sections st) @ [(n, normal_body b)]"
proof -
  obtain st1 where st1: "parse_line env [] st = Inr st1" "header_of st1 = header_of st"
    "trim_bodies (finished_sections st1) = trim_bodies (finished_sections st)"
    using parse_blank_between by blast
  let ?st2 = "st1\<lparr>gp_sections := finished_sections st1, gp_current := Some (n, [])\<rparr>"
  have "gp_title st1 \<noteq> None" using assms(3) st1(2) by (simp add: header_of_def)
  then have st2: "parse_line env (lit ''## '' @ n) st1 = Inr ?st2" by (rule parse_heading [OF assms(1)])
  show ?thesis
  proof (cases "trim b = []")
    case True
    then have "normal_body b = []" by (simp add: normal_body_def read_lines_def text_lines_def)
    then show ?thesis using True st1 st2 by (simp add: header_of_def finished_sections_def)
  next
    case False
    let ?ls = "[] # text_lines (trim b)"
    have ls: "list_all (\<lambda>l. \<not> starts_with (lit ''## '') (trim_end l)) ?ls"
      using assms(2) by (simp add: heading_free_def trim_end_def starts_with_def lit_def)
    have "parse_lines env ?ls ?st2 = Inr (?st2\<lparr>gp_current := Some (n, [] @ read_lines ?ls)\<rparr>)"
      by (rule parse_body_lines [OF _ ls]) simp
    moreover have "trim (read_lines ?ls) = normal_body b"
      using trim_space [OF whitespace_ends(1)] by (simp add: read_lines_def normal_body_def trim_end_def)
    ultimately show ?thesis using False st1 st2 by (simp add: header_of_def finished_sections_def)
  qed
qed

lemma parse_sections:
  assumes "\<forall>s \<in> set secs. plain (fst s) \<and> heading_free (snd s)" "gp_title st \<noteq> None"
  shows "\<exists>st'. parse_lines env (text_lines (concat (map section_text secs))) st = Inr st' \<and>
    header_of st' = header_of st \<and>
    trim_bodies (finished_sections st') = trim_bodies (finished_sections st) @ map (\<lambda>(n, b). (n, normal_body b)) secs"
  using assms
proof (induction secs arbitrary: st)
  case Nil
  then show ?case by (simp add: text_lines_def)
next
  case (Cons s secs)
  obtain n b where s: "s = (n, b)" by (cases s)
  obtain st1 where st1: "parse_lines env ([[], lit ''## '' @ n] @ (if trim b = [] then [] else [] # text_lines (trim b))) st = Inr st1"
    "header_of st1 = header_of st"
    "trim_bodies (finished_sections st1) = trim_bodies (finished_sections st) @ [(n, normal_body b)]"
    using parse_one_section [of n b st env] Cons.prems s by auto
  have "gp_title st1 \<noteq> None" using Cons.prems(2) st1(2) by (simp add: header_of_def)
  then obtain st2 where st2: "parse_lines env (text_lines (concat (map section_text secs))) st1 = Inr st2"
    "header_of st2 = header_of st1"
    "trim_bodies (finished_sections st2) = trim_bodies (finished_sections st1) @ map (\<lambda>(n, b). (n, normal_body b)) secs"
    using Cons.IH [of st1] Cons.prems(1) by auto
  have "text_lines (concat (map section_text (s # secs))) =
      ([[], lit ''## '' @ n] @ (if trim b = [] then [] else [] # text_lines (trim b))) @ text_lines (concat (map section_text secs))"
    using section_lines [of n b] Cons.prems(1) s by simp
  then have "parse_lines env (text_lines (concat (map section_text (s # secs)))) st = Inr st2"
    using st1(1) st2(1) by (simp only: parse_lines_append sum.case)
  with st1 st2 s show ?case by simp
qed

section \<open>The header\<close>

lemma split_first_key:
  "42 \<notin> set key \<Longrightarrow> split_first (lit ''**:'') (key @ lit ''**:'' @ r) = Some (key, r)"
  by (induction key) (auto simp: lit_def)

lemma parse_metadata_line_of:
  assumes "42 \<notin> set (lit key)" "plain v"
  shows "parse_metadata_line (lit ''**'' @ lit key @ lit ''**: '' @ v) = Some (lit key, v)"
proof -
  let ?line = "lit ''**'' @ lit key @ lit ''**: '' @ v"
  have "\<not> is_whitespace (hd ?line)" by (simp add: lit_def is_whitespace_def)
  then have "trim_start ?line = ?line" unfolding trim_start_id by (simp add: lit_def)
  moreover have "split_first (lit ''**:'') (lit key @ lit ''**: '' @ v) = Some (lit key, 32 # v)"
    using split_first_key [OF assms(1), of "32 # v"] by (simp add: lit_def)
  moreover have "trim (32 # v) = v"
    using trim_space [OF whitespace_ends(3)] plain_facts(3) [OF assms(2)] by simp
  ultimately show ?thesis by (simp add: parse_metadata_line_def)
qed

lemma parse_metadata_of:
  assumes "42 \<notin> set (lit key)" "plain v" "gp_current st = None"
  shows "parse_line env (lit ''**'' @ lit key @ lit ''**: '' @ v) st = parse_metadata env (lit key) v st"
proof -
  let ?line = "lit ''**'' @ lit key @ lit ''**: '' @ v"
  have "trim_end ?line = ?line"
    using plain_facts(4) [OF assms(2), of "lit ''**'' @ lit key @ lit ''**: ''"] by simp
  moreover have "\<not> starts_with (lit ''# '') ?line" "\<not> starts_with (lit ''## '') ?line"
    by (simp_all add: starts_with_def lit_def)
  ultimately show ?thesis
    using assms(3) parse_metadata_line_of [OF assms(1,2)] by (simp add: parse_line_def Let_def)
qed

lemma metadata_lines:
  assumes "plain v" "10 \<notin> set (lit key)"
  shows "text_lines (metadata_line key v @ rest) = (lit ''**'' @ lit key @ lit ''**: '' @ v) # text_lines rest"
proof -
  let ?line = "lit ''**'' @ lit key @ lit ''**: '' @ v"
  have "10 \<notin> set ?line" using plain_facts(2) [OF assms(1)] assms(2) by (simp add: lit_def)
  moreover have "strip_cr ?line = ?line"
    using plain_facts(5) [OF assms(1), of "lit ''**'' @ lit key @ lit ''**: ''"] by simp
  ultimately show ?thesis using text_lines_newline [of ?line rest] by (simp add: metadata_line_def)
qed

lemma show_u8_digits: "n < 256 \<Longrightarrow> plain (show_u8 n)"
  by (auto simp: show_u8_def plain_def trimmed_def is_whitespace_def)

lemma parse_show_u8:
  assumes "n < 256" shows "parse_u8 (show_u8 n) = Some n"
proof -
  have digit: "is_ascii_digit (48 + k)" "48 + k \<noteq> cp (CHR ''+'')" if "k < 10" for k
    using that by (simp_all add: is_ascii_digit_def)
  have small: "n div 10 mod 10 < 10" "n mod 10 < 10" "n div 100 < 10" "n < 100 \<Longrightarrow> n div 10 < 10"
    using assms by simp_all
  have sum: "10 * (n div 10) + n mod 10 = n" "10 * (n div 100) + n div 10 mod 10 = n div 10"
    using div_mult2_eq [of n 10 10] by (simp_all add: mult_div_mod_eq)
  consider "n < 10" | "10 \<le> n" "n < 100" | "100 \<le> n" by linarith
  then show ?thesis
  proof cases
    case 1
    then show ?thesis using digit [of n] assms by (simp add: parse_u8_def show_u8_def)
  next
    case 2
    then show ?thesis using digit small sum assms by (simp add: parse_u8_def show_u8_def)
  next
    case 3
    then have "show_u8 n = [48 + n div 100, 48 + n div 10 mod 10, 48 + n mod 10]" by (simp add: show_u8_def)
    then show ?thesis using digit small sum assms by (simp add: parse_u8_def)
  qed
qed

lemma lowercase_ascii:
  assumes "\<forall>c \<in> set s. c < 128 \<and> to_ascii_lowercase c = c"
  shows "lowercase_with lower s = s"
proof -
  have "lowercase_with lower s = concat (map (\<lambda>i. [s ! i]) [0..<length s])"
    unfolding lowercase_with_def using assms by (intro arg_cong [where f = concat] map_cong) auto
  also have "\<dots> = map (\<lambda>i. s ! i) [0..<length s]" by (induction s rule: rev_induct) (auto simp: concat_map_singleton)
  finally show ?thesis by (simp add: map_nth)
qed

lemma parse_status_text: "parse_status env (goal_status_text s) = Inr s"
proof -
  have "lowercase_with (ge_lower env) (goal_status_text s) = goal_status_text s"
    by (rule lowercase_ascii) (cases s; simp add: goal_status_text_def lit_def to_ascii_lowercase_def)
  then show ?thesis by (cases s) (simp_all add: parse_status_def goal_status_text_def lit_def)
qed

lemma plain_status_text: "plain (goal_status_text s)"
  by (cases s) (simp_all add: goal_status_text_def plain_def trimmed_def lit_def is_whitespace_def)

text \<open>A document that can be printed: one line of title, bodies without a heading at the start of a
  line, further sections with names of their own.\<close>

definition canonical_names :: "rtext list" where
  "canonical_names = map lit [''Summary'', ''Why It Matters'', ''How They're Working On It'', ''Patterns Observed'',
     ''Attitude & Feelings'', ''Open Questions'', ''Notes'']"

definition goal_ok :: "goal_doc \<Rightarrow> bool" where
  "goal_ok d \<longleftrightarrow> plain (trim (gd_title d)) \<and> gd_priority d < 256 \<and>
     list_all (\<lambda>s. heading_free (snd s)) (canonical_sections d) \<and>
     list_all (\<lambda>s. plain (fst s) \<and> fst s \<notin> set canonical_names \<and> heading_free (snd s)) (gd_extra d)"

text \<open>The identifier and the times of a document are read back from what is printed, times to the
  second.\<close>

definition whole_seconds :: "int \<Rightarrow> int" where
  "whole_seconds t = t div 1000000000 * 1000000000"

definition goal_texts_ok :: "goal_env \<Rightarrow> goal_doc \<Rightarrow> bool" where
  "goal_texts_ok env d \<longleftrightarrow>
     plain (ge_print_id env (gd_id d)) \<and> ge_parse_id env (ge_print_id env (gd_id d)) = Some (gd_id d) \<and>
     (\<forall>t \<in> {gd_created d, gd_updated d}. plain (ge_print_time env t) \<and>
       ge_parse_time env (ge_print_time env t) = Some (whole_seconds t))"

definition normal_goal :: "goal_doc \<Rightarrow> goal_doc" where
  "normal_goal d = d\<lparr>gd_title := trim (gd_title d), gd_created := whole_seconds (gd_created d),
     gd_updated := whole_seconds (gd_updated d), gd_summary := normal_body (gd_summary d),
     gd_why := normal_body (gd_why d), gd_how := normal_body (gd_how d), gd_patterns := normal_body (gd_patterns d),
     gd_attitude := normal_body (gd_attitude d), gd_questions := normal_body (gd_questions d),
     gd_notes := normal_body (gd_notes d), gd_extra := map (\<lambda>(n, b). (n, normal_body b)) (gd_extra d)\<rparr>"

abbreviation preamble_line1 :: rtext where
  "preamble_line1 \<equiv> lit ''> This is a living document. Update any section as you learn more''"

abbreviation preamble_line2 :: rtext where
  "preamble_line2 \<equiv> lit ''> about the user's relationship to this goal.''"

lemma preamble_lines:
  "text_lines (LIVING_DOCUMENT_PREAMBLE @ rest) = preamble_line1 # preamble_line2 # text_lines rest"
proof -
  have "10 \<notin> set preamble_line1" "10 \<notin> set preamble_line2" "strip_cr preamble_line1 = preamble_line1"
    "strip_cr preamble_line2 = preamble_line2"
    by (simp_all add: lit_def strip_cr_id)
  then show ?thesis
    by (simp add: LIVING_DOCUMENT_PREAMBLE_def text_lines_newline)
qed

lemma parse_preamble:
  "parse_line env preamble_line1 start_parse = Inr start_parse"
  "parse_line env preamble_line2 start_parse = Inr start_parse"
proof -
  have "trim_end preamble_line1 = preamble_line1" "trim_end preamble_line2 = preamble_line2"
    by (simp_all add: trim_end_id) (simp_all add: lit_def is_whitespace_def)
  moreover have "\<not> starts_with (lit ''# '') preamble_line1" "\<not> starts_with (lit ''# '') preamble_line2"
    "\<not> starts_with (lit ''## '') preamble_line1" "\<not> starts_with (lit ''## '') preamble_line2"
    "parse_metadata_line preamble_line1 = None" "parse_metadata_line preamble_line2 = None"
    by (simp_all add: starts_with_def lit_def parse_metadata_line_def trim_start_def is_whitespace_def)
  ultimately show "parse_line env preamble_line1 start_parse = Inr start_parse"
    "parse_line env preamble_line2 start_parse = Inr start_parse"
    by (simp_all add: parse_line_def Let_def start_parse_def)
qed

lemma parse_title:
  assumes "plain t" "gp_title st = None" "gp_current st = None"
  shows "parse_line env (lit ''# '' @ t) st = Inr (st\<lparr>gp_title := Some t\<rparr>)"
proof -
  have "starts_with (lit ''# '') (lit ''# '' @ t)" by (simp add: starts_with_def)
  moreover have "drop 2 (lit ''# '' @ t) = t" by (simp add: lit_def)
  ultimately show ?thesis using assms plain_facts [OF assms(1)] by (simp add: parse_line_def Let_def)
qed

lemma put_trimmed: "put_section (n, trim b) = put_section (n, b)"
  by (rule ext) (simp add: put_section_def)

lemma put_sections_trimmed: "fold put_section (trim_bodies secs) d = fold put_section secs d"
  by (induction secs arbitrary: d) (auto simp: put_trimmed)

lemma trim_normal_body [simp]: "trim (normal_body b) = normal_body b"
  by (simp add: normal_body_def)

lemma put_extra:
  "list_all (\<lambda>s. fst s \<notin> set canonical_names) secs \<Longrightarrow>
     fold put_section (map (\<lambda>(n, b). (n, normal_body b)) secs) d =
       d\<lparr>gd_extra := gd_extra d @ map (\<lambda>(n, b). (n, normal_body b)) secs\<rparr>"
proof (induction secs arbitrary: d)
  case (Cons s secs)
  then have "put_section (fst s, normal_body (snd s)) d = d\<lparr>gd_extra := gd_extra d @ [(fst s, normal_body (snd s))]\<rparr>"
    by (simp add: put_section_def canonical_names_def)
  with Cons show ?case by (simp add: case_prod_unfold)
qed simp

lemma canonical_distinct: "distinct canonical_names"
  by (simp add: canonical_names_def lit_def)

lemmas canonical_differ = canonical_distinct [unfolded canonical_names_def, simplified]

lemma put_canonical:
  "fold put_section (map (\<lambda>(n, b). (n, normal_body b)) (canonical_sections d)) base =
     base\<lparr>gd_summary := normal_body (gd_summary d), gd_why := normal_body (gd_why d), gd_how := normal_body (gd_how d),
       gd_patterns := normal_body (gd_patterns d), gd_attitude := normal_body (gd_attitude d),
       gd_questions := normal_body (gd_questions d), gd_notes := normal_body (gd_notes d)\<rparr>"
  using canonical_differ by (simp add: canonical_sections_def put_section_def not_sym)

lemma no_asterisk: "42 \<notin> set (lit ''ID'')" "42 \<notin> set (lit ''Status'')" "42 \<notin> set (lit ''Priority'')"
    "42 \<notin> set (lit ''Created'')" "42 \<notin> set (lit ''Updated'')"
  and no_newline: "10 \<notin> set (lit ''ID'')" "10 \<notin> set (lit ''Status'')" "10 \<notin> set (lit ''Priority'')"
    "10 \<notin> set (lit ''Created'')" "10 \<notin> set (lit ''Updated'')"
  and metadata_keys: "distinct (map lit [''ID'', ''Status'', ''Priority'', ''Created'', ''Updated''])"
  by (simp_all add: lit_def)

lemmas metadata_differ = metadata_keys [simplified]

text \<open>The parser after the header of a printed document.\<close>

definition parsed_header :: "goal_env \<Rightarrow> goal_doc \<Rightarrow> goal_parse" where
  "parsed_header env d = \<lparr>gp_title = Some (trim (gd_title d)), gp_id = Some (gd_id d), gp_status = gd_status d,
     gp_priority = gd_priority d, gp_created = Some (whole_seconds (gd_created d)),
     gp_updated = Some (whole_seconds (gd_updated d)), gp_sections = [], gp_current = None\<rparr>"

lemma parse_header:
  assumes "plain (trim (gd_title d))" "gd_priority d < 256" "goal_texts_ok env d"
  shows "parse_lines env (text_lines (to_md env d)) start_parse =
    parse_lines env (text_lines (concat (map section_text (canonical_sections d @ gd_extra d)))) (parsed_header env d)"
proof -
  let ?t = "trim (gd_title d)" and ?i = "ge_print_id env (gd_id d)" and ?s = "goal_status_text (gd_status d)"
  let ?p = "show_u8 (gd_priority d)" and ?c = "ge_print_time env (gd_created d)" and ?u = "ge_print_time env (gd_updated d)"
  let ?rest = "concat (map section_text (canonical_sections d @ gd_extra d))"
  have texts: "plain ?i" "plain ?s" "plain ?p" "plain ?c" "plain ?u"
    "ge_parse_id env ?i = Some (gd_id d)" "ge_parse_time env ?c = Some (whole_seconds (gd_created d))"
    "ge_parse_time env ?u = Some (whole_seconds (gd_updated d))"
    using assms(3) plain_status_text show_u8_digits [OF assms(2)] by (simp_all add: goal_texts_ok_def)
  let ?m = "\<lambda>key v. lit ''**'' @ lit key @ lit ''**: '' @ v"
  have title: "10 \<notin> set (lit ''# '' @ ?t)" "strip_cr (lit ''# '' @ ?t) = lit ''# '' @ ?t"
    using plain_facts(2) [OF assms(1)] plain_facts(5) [OF assms(1), of "lit ''# ''"] by (simp add: lit_def, simp)
  have blank: "text_lines (10 # x) = [] # text_lines x" for x
    using text_lines_newline [of "[]" x] by (simp add: strip_cr_id)
  have "text_lines (to_md env d) = [preamble_line1, preamble_line2, [], lit ''# '' @ ?t, []] @
      [?m ''ID'' ?i, ?m ''Status'' ?s, ?m ''Priority'' ?p, ?m ''Created'' ?c, ?m ''Updated'' ?u] @ text_lines ?rest"
    using text_lines_newline [OF title(1)] title(2)
    by (simp add: to_md_def preamble_lines blank metadata_lines texts no_newline)
  moreover have start: "gp_title start_parse = None" "gp_current start_parse = None" by (simp_all add: start_parse_def)
  let ?s1 = "start_parse\<lparr>gp_title := Some ?t\<rparr>"
  have "parse_lines env [preamble_line1, preamble_line2, [], lit ''# '' @ ?t, []] start_parse = Inr ?s1"
    using parse_title [OF assms(1) start, of env] by (simp add: parse_preamble parse_blank start)
  moreover have "parse_lines env [?m ''ID'' ?i, ?m ''Status'' ?s, ?m ''Priority'' ?p, ?m ''Created'' ?c, ?m ''Updated'' ?u] ?s1 =
      Inr (parsed_header env d)"
    using metadata_differ
    by (simp add: parse_metadata_of no_asterisk texts parse_metadata_def start_parse_def parsed_header_def
        parse_status_text parse_show_u8 [OF assms(2)] parse_iso_8601_def not_sym)
  ultimately show ?thesis by (simp only: parse_lines_append sum.case)
qed

lemma parse_to_md:
  assumes "goal_ok d" "goal_texts_ok env d"
  shows "parse_goal env now (to_md env d) = Inr (normal_goal d)"
proof -
  let ?secs = "canonical_sections d @ gd_extra d"
  have "\<forall>s \<in> set (canonical_sections d). plain (fst s)"
    by (auto simp: canonical_sections_def plain_def trimmed_def lit_def is_whitespace_def)
  then have "\<forall>s \<in> set ?secs. plain (fst s) \<and> heading_free (snd s)"
    using assms(1) by (auto simp: goal_ok_def list_all_iff)
  then obtain st where st: "parse_lines env (text_lines (concat (map section_text ?secs))) (parsed_header env d) = Inr st"
    "header_of st = header_of (parsed_header env d)"
    "trim_bodies (finished_sections st) = map (\<lambda>(n, b). (n, normal_body b)) ?secs"
    using parse_sections [of ?secs "parsed_header env d" env] by (auto simp: parsed_header_def finished_sections_def)
  have "parse_lines env (text_lines (to_md env d)) start_parse = Inr st"
    using parse_header assms st(1) by (simp add: goal_ok_def)
  moreover have "fold put_section (finished_sections st) base =
      fold put_section (map (\<lambda>(n, b). (n, normal_body b)) ?secs) base" for base
    using put_sections_trimmed [of "finished_sections st"] st(3) by simp
  moreover have "list_all (\<lambda>s. fst s \<notin> set canonical_names) (gd_extra d)"
    using assms(1) by (auto simp: goal_ok_def list_all_iff)
  ultimately show ?thesis
    using st(2) by (simp add: parse_goal_def header_of_def parsed_header_def put_canonical put_extra normal_goal_def)
qed

section \<open>What the service accepts\<close>

lemma lines_from_first:
  "last a \<noteq> 13 \<Longrightarrow> a \<noteq> [] \<Longrightarrow> \<exists>v ls. lines_from (a @ x) q = (a @ v) # ls"
proof (induction q arbitrary: x)
  case (Cons c cs)
  show ?case
  proof (cases "c = 10")
    case True
    have "\<exists>v. strip_cr (a @ x) = a @ v"
    proof (cases "x = []")
      case True
      then show ?thesis using Cons.prems by (simp add: strip_cr_id)
    next
      case False
      then have ax: "a @ x = (a @ butlast x) @ [last x]" by simp
      show ?thesis
      proof (cases "last x = 13")
        case True
        then have "strip_suffix [13] (a @ x) = Some (a @ butlast x)" unfolding strip_suffix_Some using ax by simp
        then show ?thesis by (simp add: strip_cr_def)
      next
        case no: False
        then have "strip_cr (a @ x) = a @ x" using False by (intro strip_cr_id) simp
        then show ?thesis by blast
      qed
    qed
    with True show ?thesis by auto
  next
    case False
    then show ?thesis using Cons.IH [of "x @ [c]"] Cons.prems by simp
  qed
qed simp

lemma heading_line:
  assumes "\<forall>c \<in> set w. is_whitespace c"
  shows "\<exists>l \<in> set (text_lines (w @ lit ''## '' @ q)). starts_with (lit ''## '') (trim_start l)"
proof -
  have step: "\<exists>l \<in> set (lines_from acc (w @ lit ''## '' @ q)). starts_with (lit ''## '') (trim_start l)"
    if "\<forall>c \<in> set acc. is_whitespace c" "\<forall>c \<in> set w. is_whitespace c" for acc
    using that
  proof (induction w arbitrary: acc)
    case Nil
    have "10 \<notin> set (lit ''## '')" by (simp add: lit_def)
    then have "lines_from acc (lit ''## '' @ q) = lines_from ((acc @ lit ''## '') @ []) q"
      using lines_no_newline by simp
    moreover have "last (acc @ lit ''## '') \<noteq> 13" "acc @ lit ''## '' \<noteq> []" by (simp_all add: lit_def)
    ultimately obtain v ls where first: "lines_from acc (lit ''## '' @ q) = ((acc @ lit ''## '') @ v) # ls"
      using lines_from_first by metis
    have "trim_start ((acc @ lit ''## '') @ v) = lit ''## '' @ v"
      using Nil(1) by (simp add: trim_start_def dropWhile_append3 lit_def is_whitespace_def)
    then show ?case using first by (simp add: starts_with_def)
  next
    case (Cons c w)
    show ?case
    proof (cases "c = 10")
      case True
      then show ?thesis using Cons.IH [of "[]"] Cons.prems by auto
    next
      case False
      then show ?thesis using Cons.IH [of "acc @ [c]"] Cons.prems by auto
    qed
  qed
  show ?thesis unfolding text_lines_def using step [of "[]"] assms by simp
qed

lemma lines_after:
  assumes "p = [] \<or> last p = 10"
  shows "set (text_lines r) \<subseteq> set (text_lines (p @ r))"
proof (cases "p = []")
  case False
  then obtain p' where p: "p = p' @ [10]" using assms by (metis append_butlast_last_id)
  have "\<exists>x. lines_from acc (p' @ 10 # r) = x @ text_lines r" for acc
  proof (induction p' arbitrary: acc)
    case Nil
    show ?case by (intro exI [of _ "[strip_cr acc]"]) (simp add: text_lines_def)
  next
    case (Cons c cs)
    then show ?case by (cases "c = 10") (metis append_Cons lines_from.simps(2))+
  qed
  then obtain x where "lines_from [] (p' @ 10 # r) = x @ text_lines r" by blast
  then have "text_lines (p @ r) = x @ text_lines r" by (simp add: text_lines_def p)
  then show ?thesis by simp
qed simp

lemma line_position:
  "l \<in> set (lines_from acc s) \<Longrightarrow> \<exists>p q. acc @ s = p @ l @ q \<and> (p = [] \<or> last p = 10)"
proof (induction s arbitrary: acc)
  case Nil
  then show ?case by (intro exI [of _ "[]"]) (simp split: if_splits)
next
  case (Cons c cs)
  show ?case
  proof (cases "c = 10")
    case True
    with Cons.prems consider "l = strip_cr acc" | "l \<in> set (lines_from [] cs)" by auto
    then show ?thesis
    proof cases
      case 1
      have "\<exists>r. acc = strip_cr acc @ r" by (auto simp: strip_cr_def strip_suffix_Some split: option.split)
      then obtain r where "acc = strip_cr acc @ r" by blast
      then have "acc @ c # cs = [] @ strip_cr acc @ (r @ c # cs)" by (metis append_Nil append_assoc)
      then show ?thesis unfolding 1 by blast
    next
      case 2
      then obtain p q where "cs = p @ l @ q" "p = [] \<or> last p = 10" using Cons.IH [of "[]"] by auto
      then have "acc @ c # cs = (acc @ 10 # p) @ l @ q" "last (acc @ 10 # p) = 10" using True by auto
      then show ?thesis by blast
    qed
  next
    case False
    then show ?thesis using Cons.IH [of "acc @ [c]"] Cons.prems by simp
  qed
qed

lemma trim_surrounded:
  "\<exists>w w'. b = w @ trim b @ w' \<and> (\<forall>c \<in> set w. is_whitespace c)"
proof -
  obtain w' where "trim_start b = trim b @ w'"
    using trim_end_prefix [of "trim_start b"] by (auto simp: prefix_def trim_def)
  then have "b = takeWhile is_whitespace b @ trim b @ w'"
    by (metis takeWhile_dropWhile_id trim_start_def)
  moreover have "\<forall>c \<in> set (takeWhile is_whitespace b). is_whitespace c" by (auto dest: set_takeWhileD)
  ultimately show ?thesis by blast
qed

lemma validated_heading_free:
  assumes "validate_section_text b = Inr ()"
  shows "heading_free b"
proof (rule ccontr)
  assume "\<not> heading_free b"
  then obtain l where l: "l \<in> set (text_lines (trim b))" "starts_with (lit ''## '') (trim_end l)"
    by (auto simp: heading_free_def list_all_iff)
  obtain v where v: "l = lit ''## '' @ v"
    using l(2) trim_end_prefix [of l] by (auto simp: starts_with_def strip_prefix_Some prefix_def)
  obtain p q where pq: "trim b = p @ l @ q" "p = [] \<or> last p = 10"
    using line_position [of l "[]" "trim b"] l(1) by (auto simp: text_lines_def)
  obtain w w' where w: "b = w @ trim b @ w'" "\<forall>c \<in> set w. is_whitespace c" using trim_surrounded by blast
  have "\<exists>l \<in> set (text_lines b). starts_with (lit ''## '') (trim_start l)"
  proof (cases "p = []")
    case True
    then show ?thesis using heading_line [OF w(2), of "v @ q @ w'"] w(1) pq(1) v by simp
  next
    case False
    then have "last (w @ p) = 10" using pq(2) by simp
    moreover have "b = (w @ p) @ lit ''## '' @ (v @ q @ w')" using w(1) pq(1) v by simp
    ultimately have "set (text_lines (lit ''## '' @ v @ q @ w')) \<subseteq> set (text_lines b)"
      using lines_after [of "w @ p" "lit ''## '' @ v @ q @ w'"] by simp
    moreover have "\<exists>l \<in> set (text_lines (lit ''## '' @ v @ q @ w')). starts_with (lit ''## '') (trim_start l)"
      using heading_line [of "[]" "v @ q @ w'"] by simp
    ultimately show ?thesis by blast
  qed
  then show False using assms by (auto simp: validate_section_text_def section_has_heading_def list_ex_iff split: if_splits)
qed

lemma validated_sections: "validate_sections vs = Inr () \<Longrightarrow> v \<in> set vs \<Longrightarrow> heading_free v"
  by (induction vs) (auto intro: validated_heading_free split: sum.splits)

lemma prepared_goal_ok:
  assumes "prepare_new now d = Inr d'" "gd_extra d = []"
  shows "goal_ok d'"
proof -
  obtain t where t: "normalize_title (gd_title d) = Inr t" "validate_priority (gd_priority d) = Inr ()"
    "validate_goal_sections (d\<lparr>gd_title := t\<rparr>) = Inr ()" "d' = d\<lparr>gd_title := t, gd_created := now, gd_updated := now\<rparr>"
    using assms(1) by (auto simp: prepare_new_def split: sum.splits)
  have "plain t" "trim t = t"
    using t(1) by (auto simp: normalize_title_def Let_def plain_def split: if_splits)
  moreover have "gd_priority d \<le> 5" using t(2) by (simp add: validate_priority_def split: if_splits)
  moreover have "heading_free (snd s)" if "s \<in> set (canonical_sections d')" for s
    using that validated_sections [OF t(3) [unfolded validate_goal_sections_def], of "snd s"]
    by (force simp: t(4) canonical_sections_def)
  ultimately show ?thesis using assms(2) by (simp add: goal_ok_def t(4) list_all_iff)
qed

text \<open>C15: A goal the service accepts is stored so that it reads back as itself, except that its texts
  lose surrounding space and space at the ends of lines, and its times the fraction of a second.\<close>

theorem accepted_goal_reads_back:
  assumes "create_goal env now fresh d dir = (Inr d', dir')" and "gd_extra d = []" and "goal_texts_ok env d'"
  shows "get_goal env later fresh dir' = Inr (Some (normal_goal d'))"
proof -
  have d': "prepare_new now (d\<lparr>gd_id := fresh\<rparr>) = Inr d'" "dir' = save_goal env d' dir"
    using assms(1) by (auto simp: create_goal_def split: sum.splits)
  then have i: "gd_id d' = fresh" by (auto simp: prepare_new_def split: sum.splits)
  have "goal_ok d'" by (rule prepared_goal_ok [OF d'(1)]) (simp add: assms(2))
  then have "parse_goal env later (to_md env d') = Inr (normal_goal d')" using assms(3) by (rule parse_to_md)
  moreover have "ge_parse_id env (ge_print_id env fresh) = Some fresh" using assms(3) i by (simp add: goal_texts_ok_def)
  ultimately show ?thesis
    by (simp add: get_goal_def d'(2) save_goal_def hm_simps i parse_checked_def parse_for_path_def normal_goal_def)
qed

definition demo_texts :: goal_env where
  "demo_texts = \<lparr>ge_print_id = (\<lambda>_. [49]), ge_parse_id = (\<lambda>_. Some 1), ge_print_time = (\<lambda>_. [48]),
     ge_parse_time = (\<lambda>_. Some 0), ge_lower = (\<lambda>_ _. [])\<rparr>"

theorem accepted_goal_reads_back_witness:
  "get_goal demo_texts 9 1 (save_goal demo_texts (new_goal 0 1 [71] [82, 10, 83]) []) =
     Inr (Some (normal_goal (new_goal 0 1 [71] [82, 10, 83])))"
proof -
  have clean: "validate_section_text [] = Inr ()" "validate_section_text [82, 10, 83] = Inr ()"
    by (simp_all add: validate_section_text_def section_has_heading_def text_lines_def strip_cr_id starts_with_def
        trim_start_def is_whitespace_def lit_def)
  have "normalize_title [71] = Inr [71]"
    by (simp add: normalize_title_def trim_def trim_start_def trim_end_def is_whitespace_def)
  with clean have "create_goal demo_texts 0 1 (new_goal 0 7 [71] [82, 10, 83]) [] =
      (Inr (new_goal 0 1 [71] [82, 10, 83]), save_goal demo_texts (new_goal 0 1 [71] [82, 10, 83]) [])"
    by (simp add: create_goal_def prepare_new_def new_goal_def validate_priority_def validate_goal_sections_def
        canonical_sections_def)
  moreover have "goal_texts_ok demo_texts (new_goal 0 1 [71] [82, 10, 83])"
    by (simp add: goal_texts_ok_def demo_texts_def new_goal_def plain_def trimmed_def is_whitespace_def whole_seconds_def)
  ultimately show ?thesis
    using accepted_goal_reads_back [of demo_texts 0 1 "new_goal 0 7 [71] [82, 10, 83]" "[]"] by (simp add: new_goal_def)
qed

end
