(* ===== verification/Reply_Streaming.thy ===== *)
theory Reply_Streaming
  imports Event_Queue
begin

text \<open>
  How the assistant's stream becomes one reply: \<open>src/BoBeService/src/runtime/response_streamer.rs\<close>.
  The stream of the provider is the list of what \<open>timeout_at(deadline, stream.next())\<close> returns, each
  with the instant (in nanoseconds) it was read at; an empty list is a closed stream. The events
  pushed to the queue and the texts given to \<open>on_text_delta\<close> are kept in order in the state. The
  measurement of stalls, which is only logged, is left out.
\<close>

section \<open>Deltas and delivery\<close>

datatype chat_delta =
    MessageDelta rtext rtext
  | MessageComplete rtext rtext
  | ToolStart rtext rtext
  | ToolComplete rtext rtext bool
  | ChatError rtext
  | ChatDone

datatype stream_item = NextDelta nat chat_delta | DeadlinePassed

datatype stream_delivery = Sse | SseWithLiveObserver | ChannelSse uuid bool | EndpointOnly

definition is_endpoint_only :: "stream_delivery \<Rightarrow> bool" where
  "is_endpoint_only d \<longleftrightarrow> d = EndpointOnly"

definition emits_sse :: "stream_delivery \<Rightarrow> bool" where
  "emits_sse d = (case d of EndpointOnly \<Rightarrow> False | _ \<Rightarrow> True)"

definition has_irreversible_observer :: "stream_delivery \<Rightarrow> bool" where
  "has_irreversible_observer d =
     (case d of SseWithLiveObserver \<Rightarrow> True | EndpointOnly \<Rightarrow> True | ChannelSse _ live \<Rightarrow> live | Sse \<Rightarrow> False)"

definition in_channel :: "uuid \<Rightarrow> stream_delivery \<Rightarrow> stream_delivery" where
  "in_channel c d = (if is_endpoint_only d then d else ChannelSse c (has_irreversible_observer d))"

definition delivery_channel :: "stream_delivery \<Rightarrow> uuid option" where
  "delivery_channel d =
     (case d of ChannelSse c _ \<Rightarrow> Some c | Sse \<Rightarrow> Some owner_channel | SseWithLiveObserver \<Rightarrow> Some owner_channel
      | EndpointOnly \<Rightarrow> None)"

section \<open>The messages of a reply\<close>

type_synonym response_messages = "(rtext \<times> rtext) list"

datatype response_update = Append rtext | Replace rtext

fun join :: "rtext \<Rightarrow> rtext list \<Rightarrow> rtext" where
  "join sep [] = []"
| "join sep [x] = x"
| "join sep (x # y # zs) = x @ sep @ join sep (y # zs)"

definition body :: "response_messages \<Rightarrow> rtext" where
  "body ms = join [10, 10] (filter (\<lambda>b. b \<noteq> []) (map snd ms))"

definition message_index :: "rtext \<Rightarrow> response_messages \<Rightarrow> nat \<times> response_messages" where
  "message_index i ms =
     (if list_ex (\<lambda>m. fst m = i) ms then (length (takeWhile (\<lambda>m. fst m \<noteq> i) ms), ms)
      else (length ms, ms @ [(i, [])]))"

definition some_text :: "response_messages \<Rightarrow> bool" where
  "some_text ms = list_ex (\<lambda>m. snd m \<noteq> []) ms"

definition append_message :: "rtext \<Rightarrow> rtext \<Rightarrow> response_messages \<Rightarrow> response_update \<times> response_messages" where
  "append_message i text ms0 =
     (case message_index i ms0 of (n, ms) \<Rightarrow>
        let old = snd (ms ! n);
            separator = (old = [] \<and> text \<noteq> [] \<and> some_text (take n ms));
            ms1 = ms[n := (fst (ms ! n), old @ text)]
        in (if some_text (drop (n + 1) ms1) then Replace (body ms1)
            else Append (if separator then [10, 10] @ text else text), ms1))"

definition complete_message :: "rtext \<Rightarrow> rtext \<Rightarrow> response_messages \<Rightarrow> response_update \<times> response_messages" where
  "complete_message i content ms0 =
     (case message_index i ms0 of (n, ms) \<Rightarrow>
        (case strip_prefix (snd (ms ! n)) content of
           Some rest \<Rightarrow> append_message i rest ms
         | None \<Rightarrow> let ms1 = ms[n := (fst (ms ! n), content)] in (Replace (body ms1), ms1)))"

section \<open>Streaming\<close>

record stream_state =
  ss_msg_id :: rtext
  ss_start :: nat
  ss_sequence :: nat
  ss_full :: rtext
  ss_success :: bool
  ss_first_token :: "nat option"
  ss_observed :: "rtext list"
  ss_pushed :: "(uuid \<times> stream_bundle) list"

record stream_result =
  sr_message_id :: rtext
  sr_full_response :: rtext
  sr_chunk_count :: nat
  sr_duration :: nat
  sr_success :: bool
  sr_first_token :: "nat option"

definition new_stream :: "nat \<Rightarrow> rtext \<Rightarrow> stream_state" where
  "new_stream now msg = \<lparr>ss_msg_id = msg, ss_start = now, ss_sequence = 0, ss_full = [], ss_success = True,
     ss_first_token = None, ss_observed = [], ss_pushed = []\<rparr>"

definition mark_stream_failed :: "stream_state \<Rightarrow> stream_state" where
  "mark_stream_failed s = s\<lparr>ss_success := False\<rparr>"

text \<open>Every push is made under \<open>emits_sse\<close>, which is when there is a channel to push to.\<close>

definition push_event :: "stream_delivery \<Rightarrow> stream_bundle \<Rightarrow> stream_state \<Rightarrow> stream_state" where
  "push_event d event s =
     (case delivery_channel d of
        Some c \<Rightarrow> s\<lparr>ss_pushed := ss_pushed s @ [(c, event)]\<rparr> | None \<Rightarrow> s)"

definition stream_error :: "stream_delivery \<Rightarrow> string \<Rightarrow> rtext \<Rightarrow> stream_state \<Rightarrow> stream_state" where
  "stream_error d code message s =
     (let s1 = mark_stream_failed s
      in if emits_sse d then push_event d (error_event (ss_msg_id s1) (lit code) message True) s1 else s1)"

definition emit_suffix :: "nat \<Rightarrow> stream_delivery \<Rightarrow> rtext \<Rightarrow> stream_state \<Rightarrow> stream_state" where
  "emit_suffix now d text s =
     (if text = [] then s
      else
        let s1 = s\<lparr>ss_first_token := (case ss_first_token s of None \<Rightarrow> Some now | Some t \<Rightarrow> Some t),
              ss_observed := ss_observed s @ [text]\<rparr>;
            s2 = (if emits_sse d then push_event d (text_delta_event (ss_msg_id s1) text False) s1 else s1)
        in s2\<lparr>ss_full := ss_full s2 @ text, ss_sequence := ss_sequence s2 + 1\<rparr>)"

definition deliver_update :: "nat \<Rightarrow> stream_delivery \<Rightarrow> response_update \<Rightarrow> stream_state \<Rightarrow> stream_state" where
  "deliver_update now d u s =
     (case u of
        Append text \<Rightarrow> emit_suffix now d text s
      | Replace b \<Rightarrow>
          (case strip_prefix (ss_full s) b of
             Some text \<Rightarrow> emit_suffix now d text s
           | None \<Rightarrow>
               if has_irreversible_observer d
               then stream_error d ''RESPONSE_DIVERGED'' (lit ''The assistant response changed after delivery began'') s
               else s\<lparr>ss_full := b\<rparr>))"

fun stream_loop ::
  "stream_delivery \<Rightarrow> stream_item list \<Rightarrow> response_messages \<Rightarrow> stream_state \<Rightarrow> stream_state" where
  "stream_loop d [] ms s =
     stream_error d ''CHAT_STREAM_CLOSED'' (lit ''Assistant stream closed before completing the turn'') s"
| "stream_loop d (DeadlinePassed # items) ms s =
     stream_error d ''CHAT_STREAM_TIMEOUT'' (lit ''Assistant turn exceeded its execution deadline'') s"
| "stream_loop d (NextDelta now delta # items) ms s =
     (case delta of
        MessageDelta i text \<Rightarrow>
          if text = [] then stream_loop d items ms s
          else (case append_message i text ms of (u, ms') \<Rightarrow>
            let s' = deliver_update now d u s in if ss_success s' then stream_loop d items ms' s' else s')
      | MessageComplete i content \<Rightarrow>
          (case complete_message i content ms of (u, ms') \<Rightarrow>
            let s' = deliver_update now d u s in if ss_success s' then stream_loop d items ms' s' else s')
      | ToolStart i name \<Rightarrow>
          stream_loop d items ms
            (if emits_sse d then push_event d (tool_call_start_event (ss_msg_id s) name i) s else s)
      | ToolComplete i name ok \<Rightarrow>
          stream_loop d items ms
            (if emits_sse d then push_event d (tool_call_complete_event (ss_msg_id s) name i ok) s else s)
      | ChatError message \<Rightarrow> stream_error d ''CHAT_ERROR'' message s
      | ChatDone \<Rightarrow> s)"

definition finish_stream :: "nat \<Rightarrow> stream_state \<Rightarrow> stream_result" where
  "finish_stream now s = \<lparr>sr_message_id = ss_msg_id s, sr_full_response = ss_full s, sr_chunk_count = ss_sequence s,
     sr_duration = now - ss_start s, sr_success = ss_success s,
     sr_first_token = map_option (\<lambda>t. t - ss_start s) (ss_first_token s)\<rparr>"

definition stream_reply :: "nat \<Rightarrow> rtext \<Rightarrow> stream_delivery \<Rightarrow> stream_item list \<Rightarrow> stream_state" where
  "stream_reply now msg d items = stream_loop d items [] (new_stream now msg)"

definition emit_terminal :: "stream_delivery \<Rightarrow> stream_state \<Rightarrow> stream_state" where
  "emit_terminal d s =
     (if emits_sse d then push_event d (end_of_turn_event (ss_msg_id s) (ss_full s)) s else s)"

section \<open>The reply a stream stands for\<close>

text \<open>Independent of delivery: the messages in the order of their first mention, each with the texts of
  its deltas or, once complete, its content; the empty ones left out.\<close>

definition set_message :: "rtext \<Rightarrow> (rtext \<Rightarrow> rtext) \<Rightarrow> response_messages \<Rightarrow> response_messages" where
  "set_message i f ms = (case message_index i ms of (n, ms') \<Rightarrow> ms'[n := (i, f (snd (ms' ! n)))])"

fun reply_messages :: "stream_item list \<Rightarrow> response_messages \<Rightarrow> response_messages" where
  "reply_messages (NextDelta _ (MessageDelta i text) # items) ms =
     reply_messages items (if text = [] then ms else set_message i (\<lambda>b. b @ text) ms)"
| "reply_messages (NextDelta _ (MessageComplete i content) # items) ms =
     reply_messages items (set_message i (\<lambda>_. content) ms)"
| "reply_messages (NextDelta _ ChatDone # items) ms = ms"
| "reply_messages (_ # items) ms = reply_messages items ms"
| "reply_messages [] ms = ms"

definition reply_text :: "stream_item list \<Rightarrow> rtext" where
  "reply_text items = body (reply_messages items [])"

section \<open>Lemmas\<close>

lemma join_snoc: "join sep (xs @ [x]) = (if xs = [] then x else join sep xs @ sep @ x)"
  by (induction sep xs rule: join.induct) auto

lemma message_index_split:
  "message_index i ms = (n, ms') \<Longrightarrow>
     n < length ms' \<and> fst (ms' ! n) = i \<and> body ms' = body ms \<and> list_ex (\<lambda>m. fst m = i) ms' \<and>
     message_index i ms' = (n, ms')"
proof (cases "list_ex (\<lambda>m. fst m = i) ms")
  case True
  assume m: "message_index i ms = (n, ms')"
  with True have n: "n = length (takeWhile (\<lambda>m. fst m \<noteq> i) ms)" "ms' = ms" by (auto simp: message_index_def)
  have "length (takeWhile (\<lambda>m. fst m \<noteq> i) ms) < length ms"
    using True by (metis (mono_tags, lifting) length_takeWhile_le linorder_neqE_nat list_ex_iff not_less takeWhile_eq_all_conv takeWhile_eq_take take_all_iff)
  then show ?thesis using nth_length_takeWhile [of "\<lambda>m. fst m \<noteq> i" ms] True m n by simp
next
  case False
  assume "message_index i ms = (n, ms')"
  with False have n: "n = length ms" "ms' = ms @ [(i, [])]" by (auto simp: message_index_def)
  have "takeWhile (\<lambda>m. fst m \<noteq> i) (ms @ [(i, [])]) = ms" using False by (simp add: takeWhile_append list_ex_iff) 
  then show ?thesis using n by (simp add: message_index_def body_def)
qed

lemma body_at:
  assumes "n < length ms" "\<not> some_text (drop (n + 1) ms)"
  shows "body (ms[n := (k, b)]) =
    (if b = [] then body (take n ms)
     else if some_text (take n ms) then body (take n ms) @ [10, 10] @ b else b)"
proof -
  have ms: "ms[n := (k, b)] = take n ms @ (k, b) # drop (n + 1) ms"
    using assms(1) by (simp add: upd_conv_take_nth_drop)
  have "filter (\<lambda>b. b \<noteq> []) (map snd (drop (n + 1) ms)) = []"
    using assms(2) by (auto simp: some_text_def list_ex_iff filter_empty_conv)
  moreover have "filter (\<lambda>b. b \<noteq> []) (map snd (take n ms)) = [] \<longleftrightarrow> \<not> some_text (take n ms)"
    by (auto simp: some_text_def list_ex_iff filter_empty_conv)
  ultimately show ?thesis by (simp add: ms body_def join_snoc)
qed

lemma body_no_text: "\<not> some_text ms \<Longrightarrow> body ms = []"
  by (induction ms) (auto simp: some_text_def body_def)

text \<open>An update says how the body changed.\<close>

definition says :: "response_update \<Rightarrow> rtext \<Rightarrow> rtext \<Rightarrow> bool" where
  "says u b b' = (case u of Append text \<Rightarrow> b' = b @ text | Replace t \<Rightarrow> t = b')"

lemma append_message_says:
  assumes "append_message i text ms = (u, ms')"
  shows "says u (body ms) (body ms')" "ms' = set_message i (\<lambda>b. b @ text) ms"
proof -
  obtain n m where m: "message_index i ms = (n, m)" by force
  then have n: "n < length m" "fst (m ! n) = i" "body m = body ms" using message_index_split by blast+
  let ?old = "snd (m ! n)"
  have ms': "ms' = m[n := (i, ?old @ text)]"
    using assms m n(2) by (simp add: append_message_def Let_def)
  then show "ms' = set_message i (\<lambda>b. b @ text) ms" by (simp add: set_message_def m)
  have mn: "m = m[n := (i, ?old)]" using n by (metis list_update_id prod.collapse)
  have after: "drop (n + 1) ms' = drop (n + 1) m" by (simp add: ms')
  show "says u (body ms) (body ms')"
  proof (cases "some_text (drop (n + 1) m)")
    case True
    then show ?thesis using assms m n(2) after by (auto simp: append_message_def Let_def says_def)
  next
    case False
    have u: "u = Append (if ?old = [] \<and> text \<noteq> [] \<and> some_text (take n m) then [10, 10] @ text else text)"
      using assms m False after ms' n(2) by (simp add: append_message_def Let_def)
    have "body ms = body (m[n := (i, ?old)])" using mn n(3) by simp
    then show ?thesis
      using body_at [OF n(1) False, of i ?old] body_at [OF n(1) False, of i "?old @ text"] body_no_text [of "take n m"]
      by (cases "some_text (take n m)"; cases "?old = []"; cases "text = []") (simp_all add: u ms' says_def)
  qed
qed

lemma complete_message_says:
  assumes "complete_message i content ms = (u, ms')"
  shows "says u (body ms) (body ms')" "ms' = set_message i (\<lambda>_. content) ms"
proof -
  obtain n m where m: "message_index i ms = (n, m)" by force
  then have n: "n < length m" "fst (m ! n) = i" "body m = body ms" "message_index i m = (n, m)"
    using message_index_split by blast+
  have "says u (body ms) (body ms') \<and> ms' = set_message i (\<lambda>_. content) ms"
  proof (cases "strip_prefix (snd (m ! n)) content")
    case None
    then show ?thesis using assms m n by (auto simp: complete_message_def Let_def says_def set_message_def)
  next
    case (Some rest)
    then have c: "content = snd (m ! n) @ rest" by (simp add: strip_prefix_Some)
    have "append_message i rest m = (u, ms')" using assms m Some by (simp add: complete_message_def)
    from append_message_says [OF this] show ?thesis using n m c by (simp add: set_message_def)
  qed
  then show "says u (body ms) (body ms')" "ms' = set_message i (\<lambda>_. content) ms" by blast+
qed

lemma push_event_fields [simp]:
  "ss_full (push_event d e s) = ss_full s" "ss_success (push_event d e s) = ss_success s"
  "ss_observed (push_event d e s) = ss_observed s" "ss_sequence (push_event d e s) = ss_sequence s"
  by (simp_all add: push_event_def split: option.split)

lemma stream_error_fields [simp]:
  "ss_full (stream_error d c m s) = ss_full s" "\<not> ss_success (stream_error d c m s)"
  "ss_observed (stream_error d c m s) = ss_observed s" "ss_sequence (stream_error d c m s) = ss_sequence s"
  by (simp_all add: stream_error_def mark_stream_failed_def Let_def)

lemma emit_suffix_fields:
  "ss_full (emit_suffix now d text s) = ss_full s @ text"
  "ss_success (emit_suffix now d text s) = ss_success s"
  "concat (ss_observed (emit_suffix now d text s)) = concat (ss_observed s) @ text"
  by (simp_all add: emit_suffix_def Let_def)

lemma deliver_update_says:
  assumes "says u (ss_full s) b"
  shows "ss_success (deliver_update now d u s) \<Longrightarrow> ss_full (deliver_update now d u s) = b"
    and "has_irreversible_observer d \<Longrightarrow> concat (ss_observed s) = ss_full s \<Longrightarrow>
      concat (ss_observed (deliver_update now d u s)) = ss_full (deliver_update now d u s)"
  using assms
  by (auto simp: deliver_update_def says_def emit_suffix_fields strip_prefix_Some
      split: response_update.splits option.splits if_splits)

lemma stream_loop_reply:
  assumes "ss_full s = body ms" "has_irreversible_observer d \<Longrightarrow> concat (ss_observed s) = ss_full s"
  shows "(ss_success (stream_loop d items ms s) \<longrightarrow> ss_full (stream_loop d items ms s) = body (reply_messages items ms)) \<and>
    (has_irreversible_observer d \<longrightarrow>
       concat (ss_observed (stream_loop d items ms s)) = ss_full (stream_loop d items ms s))"
  using assms
proof (induction d items ms s rule: stream_loop.induct [case_names closed deadline next_delta])
  case (next_delta d tick delta items ms s)
  show ?case
  proof (cases delta)
    case (MessageDelta i t)
    show ?thesis
    proof (cases "t = []")
      case True
      then show ?thesis using next_delta MessageDelta by simp
    next
      case False
      obtain u ms' where a: "append_message i t ms = (u, ms')" by force
      let ?s = "deliver_update tick d u s"
      have says: "says u (ss_full s) (body ms')" and ms': "ms' = set_message i (\<lambda>b. b @ t) ms"
        using append_message_says [OF a] next_delta.prems(1) by simp_all
      note d = deliver_update_says [OF says, where now = tick and d = d]
      show ?thesis
      proof (cases "ss_success ?s")
        case True
        then show ?thesis using next_delta.IH(2) [OF MessageDelta False a [symmetric] refl True] d next_delta.prems(2) False a ms' MessageDelta
          by (simp add: Let_def)
      next
        case no: False
        then show ?thesis using d next_delta.prems(2) False a MessageDelta by (simp add: Let_def)
      qed
    qed
  next
    case (MessageComplete i content)
    obtain u ms' where a: "complete_message i content ms = (u, ms')" by force
    let ?s = "deliver_update tick d u s"
    have says: "says u (ss_full s) (body ms')" and ms': "ms' = set_message i (\<lambda>_. content) ms"
      using complete_message_says [OF a] next_delta.prems(1) by simp_all
    note d = deliver_update_says [OF says, where now = tick and d = d]
    show ?thesis
    proof (cases "ss_success ?s")
      case True
      then show ?thesis using next_delta.IH(3) [OF MessageComplete a [symmetric] refl True] d next_delta.prems(2) a ms' MessageComplete
        by (simp add: Let_def)
    next
      case no: False
      then show ?thesis using d next_delta.prems(2) a MessageComplete by (simp add: Let_def)
    qed
  next
    case (ToolStart i name)
    then show ?thesis using next_delta.IH(4) [OF ToolStart] next_delta.prems by simp
  next
    case (ToolComplete i name ok)
    then show ?thesis using next_delta.IH(5) [OF ToolComplete] next_delta.prems by simp
  qed (use next_delta.prems in simp_all)
qed simp_all

text \<open>C16: A stream that succeeds yields exactly the reply it stands for, whatever the order in which
  its messages grow, complete or change; and when what was said cannot be taken back, the texts given
  to the observer are always the text of the result, even of a stream that fails.\<close>

theorem streamed_reply_is_the_reply:
  "(ss_success (stream_reply now msg d items) \<longrightarrow>
     sr_full_response (finish_stream later (stream_reply now msg d items)) = reply_text items) \<and>
   (has_irreversible_observer d \<longrightarrow>
     concat (ss_observed (stream_reply now msg d items)) =
       sr_full_response (finish_stream later (stream_reply now msg d items)))"
  using stream_loop_reply [of "new_stream now msg" "[]" d items]
  by (simp add: stream_reply_def finish_stream_def reply_text_def new_stream_def body_def)

theorem streamed_reply_is_the_reply_witness:
  "ss_success (stream_reply 0 [109] SseWithLiveObserver
     [NextDelta 1 (MessageDelta [97] [104]), NextDelta 2 (MessageDelta [98] [33]), NextDelta 3 (MessageComplete [98] [33, 63]), NextDelta 4 ChatDone]) \<and>
   concat (ss_observed (stream_reply 0 [109] SseWithLiveObserver
     [NextDelta 1 (MessageDelta [97] [104]), NextDelta 2 (MessageDelta [98] [33]), NextDelta 3 (MessageComplete [98] [33, 63]), NextDelta 4 ChatDone])) =
   [104, 10, 10, 33, 63]"
proof -
  let ?items = "[NextDelta 1 (MessageDelta [97] [104]), NextDelta 2 (MessageDelta [98] [33]), NextDelta 3 (MessageComplete [98] [33, 63]), NextDelta 4 ChatDone]"
  have "ss_success (stream_reply 0 [109] SseWithLiveObserver ?items)"
    by (simp add: stream_reply_def new_stream_def append_message_def complete_message_def message_index_def some_text_def
        deliver_update_def emit_suffix_def emits_sse_def push_event_def delivery_channel_def Let_def)
  moreover have "reply_text ?items = [104, 10, 10, 33, 63]"
    by (simp add: reply_text_def set_message_def message_index_def body_def)
  moreover have "has_irreversible_observer SseWithLiveObserver" by (simp add: has_irreversible_observer_def)
  ultimately show ?thesis using streamed_reply_is_the_reply [of 0 "[109]" SseWithLiveObserver ?items 9] by simp
qed

end
