(* ===== verification/Speech_Text.thy ===== *)
theory Speech_Text
  imports BoBe_Text
begin

text \<open>
  From streamed text to sentences to speak: the fence filter of
  \<open>src/BoBeService/src/voice/text_prep/markdown_strip.rs\<close>, the sentence buffer of
  \<open>sentence_buffer.rs\<close> in the same directory and the pipeline over both in
  \<open>voice/sentence_pipeline.rs\<close>. The Unicode tables (upper case, alphanumeric, lower case) and
  \<open>strip_markdown\<close>, which is made of replacements by the regex crate, are parameters. The loop of
  \<open>release\<close> is a partial function, so that its returning is a fact that is proved.
\<close>

section \<open>Code fences\<close>

record fence_filter =
  ff_in_fence :: bool
  ff_backticks :: nat

definition new_fences :: fence_filter where
  "new_fences = \<lparr>ff_in_fence = False, ff_backticks = 0\<rparr>"

abbreviation backtick :: uchar where "backtick \<equiv> 96"

definition release_backticks :: "fence_filter \<Rightarrow> rtext \<times> fence_filter" where
  "release_backticks f =
     (if ff_in_fence f then [] else replicate (ff_backticks f) backtick, f\<lparr>ff_backticks := 0\<rparr>)"

definition fence_char :: "uchar \<Rightarrow> fence_filter \<Rightarrow> rtext \<times> fence_filter" where
  "fence_char c f =
     (if c = backtick then
        (if ff_backticks f + 1 = 3 then ([], \<lparr>ff_in_fence = (\<not> ff_in_fence f), ff_backticks = 0\<rparr>)
         else ([], f\<lparr>ff_backticks := ff_backticks f + 1\<rparr>))
      else case release_backticks f of
        (pending, f') \<Rightarrow> (pending @ (if ff_in_fence f' then [] else [c]), f'))"

fun fence_feed :: "rtext \<Rightarrow> fence_filter \<Rightarrow> rtext \<times> fence_filter" where
  "fence_feed [] f = ([], f)"
| "fence_feed (c # cs) f =
     (case fence_char c f of (v, f1) \<Rightarrow> case fence_feed cs f1 of (v', f2) \<Rightarrow> (v @ v', f2))"

definition fence_flush :: "fence_filter \<Rightarrow> rtext \<times> fence_filter" where
  "fence_flush f = release_backticks f"

section \<open>Sentences\<close>

record speech_env =
  se_uppercase :: "uchar \<Rightarrow> bool"
  se_alphanumeric :: "uchar \<Rightarrow> bool"
  se_lowercase :: "rtext \<Rightarrow> rtext"
  se_strip_markdown :: "rtext \<Rightarrow> bool \<Rightarrow> rtext"

definition ABBREVIATIONS :: "rtext list" where
  "ABBREVIATIONS = map lit [''mr.'', ''mrs.'', ''ms.'', ''dr.'', ''st.'', ''jr.'', ''sr.'', ''inc.'', ''ltd.'',
     ''co.'', ''ph.d.'', ''m.d.'', ''u.s.'', ''u.k.'', ''u.s.a.'', ''etc.'', ''vs.'', ''i.e.'', ''e.g.'', ''a.m.'',
     ''p.m.'', ''fig.'']"

definition LIST_MARKER_MAX_DIGITS :: nat where "LIST_MARKER_MAX_DIGITS = 3"

record sentence =
  sn_text :: rtext
  sn_starts_line :: bool

record sentence_buffer =
  sb_buffer :: rtext
  sb_starts_line :: bool

definition new_buffer :: sentence_buffer where
  "new_buffer = \<lparr>sb_buffer = [], sb_starts_line = True\<rparr>"

datatype boundary = BoundaryHere | NoBoundary | Undecided

definition ends_sentence :: "uchar \<Rightarrow> bool" where
  "ends_sentence c \<longleftrightarrow> c \<in> {46, 33, 63, 0x3002, 0xFF01, 0xFF1F}"

definition closes_sentence :: "uchar \<Rightarrow> bool" where
  "closes_sentence c \<longleftrightarrow> c \<in> {42, 95, 96, 34, 39, 41, 93, 0x201D, 0x2019, 0x300D, 0x300F, 0xFF09}"

definition boundary_after :: "speech_env \<Rightarrow> rtext \<Rightarrow> boundary" where
  "boundary_after env rest =
     (case rest of
        [] \<Rightarrow> Undecided
      | first # _ \<Rightarrow>
          if \<not> is_whitespace first then NoBoundary
          else case dropWhile (\<lambda>c. c \<noteq> 10 \<and> is_whitespace c) rest of
            [] \<Rightarrow> Undecided
          | next_char # others \<Rightarrow>
              if next_char = 10 then BoundaryHere
              else if se_uppercase env next_char \<or> next_char \<in> {34, 39, 0x201C, 0x2018} then BoundaryHere
              else if \<not> is_ascii_digit next_char then NoBoundary
              else
                let digits = length (takeWhile is_ascii_digit (next_char # others))
                in case drop digits (next_char # others) of
                     [] \<Rightarrow> Undecided
                   | dot # [] \<Rightarrow> if dot = 46 then Undecided else NoBoundary
                   | dot # following # _ \<Rightarrow>
                       if dot = 46 \<and> is_whitespace following \<and> digits \<le> LIST_MARKER_MAX_DIGITS
                       then BoundaryHere else NoBoundary)"

definition begins_with_line_break :: "rtext \<Rightarrow> bool" where
  "begins_with_line_break cs \<longleftrightarrow> 10 \<in> set (takeWhile is_whitespace cs)"

definition ends_with_abbreviation :: "speech_env \<Rightarrow> rtext \<Rightarrow> bool" where
  "ends_with_abbreviation env segment \<longleftrightarrow>
     list_ex (\<lambda>a. case strip_suffix a segment of
         None \<Rightarrow> False
       | Some before \<Rightarrow> before = [] \<or> \<not> se_alphanumeric env (last before)) ABBREVIATIONS"

definition is_list_marker :: "rtext \<Rightarrow> bool" where
  "is_list_marker segment \<longleftrightarrow>
     (case strip_suffix [46] segment of
        None \<Rightarrow> False
      | Some digits \<Rightarrow> 1 \<le> str_len digits \<and> str_len digits \<le> LIST_MARKER_MAX_DIGITS \<and> list_all is_ascii_digit digits)"

text \<open>The variables of the loop of \<open>release\<close>.\<close>

record release_state =
  rl_start :: nat
  rl_i :: nat
  rl_starts_line :: bool
  rl_sentences :: "sentence list"

definition sentence_end :: "rtext \<Rightarrow> nat \<Rightarrow> nat" where
  "sentence_end chars i = i + length (takeWhile closes_sentence (drop (i + 1) chars))"

definition slice :: "nat \<Rightarrow> nat \<Rightarrow> rtext \<Rightarrow> rtext" where
  "slice a b chars = take (b - a) (drop a chars)"

definition emit_sentence :: "rtext \<Rightarrow> nat \<Rightarrow> release_state \<Rightarrow> release_state" where
  "emit_sentence chars e s =
     (let segment = slice (rl_start s) (e + 1) chars;
          spaces = takeWhile is_whitespace (drop (e + 1) chars);
          i = e + 1 + length spaces
      in \<lparr>rl_start = i, rl_i = i, rl_starts_line = (10 \<in> set spaces),
          rl_sentences = rl_sentences s @
            [\<lparr>sn_text = trim segment, sn_starts_line = (rl_starts_line s \<or> begins_with_line_break segment)\<rparr>]\<rparr>)"

text \<open>One round of the loop; \<open>None\<close> is its \<open>break\<close>.\<close>

definition release_step :: "speech_env \<Rightarrow> bool \<Rightarrow> rtext \<Rightarrow> release_state \<Rightarrow> release_state option" where
  "release_step env paused chars s =
     (let i = rl_i s; c = chars ! i; advanced = s\<lparr>rl_i := i + 1\<rparr> in
      if \<not> ends_sentence c then Some advanced
      else
        let e = sentence_end chars i;
            b = (if is_ascii c then boundary_after env (drop (e + 1) chars) else BoundaryHere)
        in if b = Undecided \<and> \<not> paused then None
           else if b = NoBoundary then Some advanced
           else
             let segment = slice (rl_start s) (i + 1) chars
             in if ends_with_abbreviation env (se_lowercase env segment) \<or> is_list_marker (trim segment) then Some advanced
                else Some (emit_sentence chars e s))"

partial_function (option) release_loop ::
  "speech_env \<Rightarrow> bool \<Rightarrow> rtext \<Rightarrow> release_state \<Rightarrow> release_state option" where
  "release_loop env paused chars s =
     (if rl_i s < length chars then
        (case release_step env paused chars s of
           None \<Rightarrow> Some s | Some s' \<Rightarrow> release_loop env paused chars s')
      else Some s)"

definition release :: "speech_env \<Rightarrow> bool \<Rightarrow> sentence_buffer \<Rightarrow> (sentence list \<times> sentence_buffer) option" where
  "release env paused b =
     map_option (\<lambda>s. (rl_sentences s, \<lparr>sb_buffer = drop (rl_start s) (sb_buffer b), sb_starts_line = rl_starts_line s\<rparr>))
       (release_loop env paused (sb_buffer b)
          \<lparr>rl_start = 0, rl_i = 0, rl_starts_line = sb_starts_line b, rl_sentences = []\<rparr>)"

definition sentence_feed :: "speech_env \<Rightarrow> rtext \<Rightarrow> sentence_buffer \<Rightarrow> (sentence list \<times> sentence_buffer) option" where
  "sentence_feed env t b = release env False (b\<lparr>sb_buffer := sb_buffer b @ t\<rparr>)"

definition sentence_settle :: "speech_env \<Rightarrow> sentence_buffer \<Rightarrow> (sentence list \<times> sentence_buffer) option" where
  "sentence_settle env b = release env True b"

definition sentence_flush :: "sentence_buffer \<Rightarrow> sentence list \<times> sentence_buffer" where
  "sentence_flush b =
     (let remaining = sb_buffer b; t = trim remaining
      in (if t = [] then []
          else [\<lparr>sn_text = t, sn_starts_line = (sb_starts_line b \<or> begins_with_line_break remaining)\<rparr>],
          b\<lparr>sb_buffer := []\<rparr>))"

section \<open>The pipeline\<close>

record sentence_pipeline =
  sp_fences :: fence_filter
  sp_buffer :: sentence_buffer

definition new_pipeline :: sentence_pipeline where
  "new_pipeline = \<lparr>sp_fences = new_fences, sp_buffer = new_buffer\<rparr>"

definition speakable :: "speech_env \<Rightarrow> sentence list \<Rightarrow> rtext list" where
  "speakable env sentences =
     filter (list_ex (se_alphanumeric env))
       (map (\<lambda>s. trim (se_strip_markdown env (sn_text s) (sn_starts_line s))) sentences)"

definition pipeline_feed :: "speech_env \<Rightarrow> rtext \<Rightarrow> sentence_pipeline \<Rightarrow> (rtext list \<times> sentence_pipeline) option" where
  "pipeline_feed env delta p =
     (case fence_feed delta (sp_fences p) of (visible, f) \<Rightarrow>
        if visible = [] then Some ([], p\<lparr>sp_fences := f\<rparr>)
        else map_option (\<lambda>(sentences, b). (speakable env sentences, \<lparr>sp_fences = f, sp_buffer = b\<rparr>))
          (sentence_feed env visible (sp_buffer p)))"

definition pipeline_settle :: "speech_env \<Rightarrow> sentence_pipeline \<Rightarrow> (rtext list \<times> sentence_pipeline) option" where
  "pipeline_settle env p =
     map_option (\<lambda>(sentences, b). (speakable env sentences, p\<lparr>sp_buffer := b\<rparr>)) (sentence_settle env (sp_buffer p))"

definition pipeline_flush :: "speech_env \<Rightarrow> sentence_pipeline \<Rightarrow> (rtext list \<times> sentence_pipeline) option" where
  "pipeline_flush env p =
     (case fence_flush (sp_fences p) of (tail, f) \<Rightarrow>
        map_option (\<lambda>(sentences, b). case sentence_flush b of
            (last_sentences, b') \<Rightarrow>
              (speakable env (sentences @ last_sentences), \<lparr>sp_fences = f, sp_buffer = b'\<rparr>))
          (sentence_feed env tail (sp_buffer p)))"

section \<open>Fences are removed\<close>

text \<open>The text outside fences: a fence is opened and closed by three backticks, and an open one hides
  the rest.\<close>

function outside_fences :: "bool \<Rightarrow> rtext \<Rightarrow> rtext" where
  "outside_fences inside s =
     (case s of
        [] \<Rightarrow> []
      | c # cs \<Rightarrow>
          (case strip_prefix [backtick, backtick, backtick] s of
             Some r \<Rightarrow> outside_fences (\<not> inside) r
           | None \<Rightarrow> (if inside then [] else [c]) @ outside_fences inside cs))"
  by pat_completeness auto
termination
  by (relation "measure (\<lambda>(_, s). length s)") (auto simp: strip_prefix_Some split: if_splits)

declare outside_fences.simps [simp del]

lemma outside_simps:
  "outside_fences inside [] = []"
  "outside_fences inside (backtick # backtick # backtick # r) = outside_fences (\<not> inside) r"
  "c \<noteq> backtick \<Longrightarrow> outside_fences inside (c # cs) = (if inside then [] else [c]) @ outside_fences inside cs"
  "strip_prefix [backtick, backtick] cs = None \<Longrightarrow>
     outside_fences inside (backtick # cs) = (if inside then [] else [backtick]) @ outside_fences inside cs"
  by (subst outside_fences.simps; simp)+

lemma outside_pending:
  assumes "n < 3" "s = [] \<or> hd s \<noteq> backtick"
  shows "outside_fences inside (replicate n backtick @ s) =
    (if inside then [] else replicate n backtick) @ outside_fences inside s"
proof -
  consider "n = 0" | "n = 1" | "n = 2" using assms(1) by linarith
  then show ?thesis using assms(2)
    by cases (cases s; auto simp: outside_simps numeral_2_eq_2)+
qed

lemma fence_feed_outside:
  "ff_backticks f < 3 \<Longrightarrow> fence_feed s f = (v, f') \<Longrightarrow>
     v @ fst (fence_flush f') = outside_fences (ff_in_fence f) (replicate (ff_backticks f) backtick @ s) \<and>
     ff_backticks f' < 3"
proof (induction s arbitrary: f v)
  case Nil
  then show ?case using outside_pending [of "ff_backticks f" "[]" "ff_in_fence f"]
    by (auto simp: fence_flush_def release_backticks_def outside_simps)
next
  case (Cons c cs)
  obtain v1 f1 where one: "fence_char c f = (v1, f1)" by force
  obtain v2 where two: "fence_feed cs f1 = (v2, f')" "v = v1 @ v2"
    using Cons.prems(2) one by (auto split: prod.splits)
  show ?case
  proof (cases "c = backtick")
    case True
    show ?thesis
    proof (cases "ff_backticks f = 2")
      case t: True
      then have "v1 = []" "f1 = \<lparr>ff_in_fence = (\<not> ff_in_fence f), ff_backticks = 0\<rparr>"
        using one True by (auto simp: fence_char_def)
      then show ?thesis using Cons.IH [of f1 v2] two True t by (simp add: outside_simps numeral_2_eq_2)
    next
      case False
      then have "v1 = []" "f1 = f\<lparr>ff_backticks := ff_backticks f + 1\<rparr>" "ff_backticks f1 < 3"
        using one True Cons.prems(1) by (auto simp: fence_char_def)
      then show ?thesis using Cons.IH [of f1 v2] two True
        by (simp add: replicate_app_Cons_same)
    qed
  next
    case False
    then have v1: "v1 = (if ff_in_fence f then [] else replicate (ff_backticks f) backtick @ [c])"
      and f1: "f1 = f\<lparr>ff_backticks := 0\<rparr>"
      using one by (auto simp: fence_char_def release_backticks_def)
    have "v2 @ fst (fence_flush f') = outside_fences (ff_in_fence f) cs \<and> ff_backticks f' < 3"
      using Cons.IH [of f1 v2] two f1 by simp
    then show ?thesis
      using outside_pending [OF Cons.prems(1), of "c # cs" "ff_in_fence f"] False two(2) v1
      by (auto simp: outside_simps)
  qed
qed

lemma fence_feed_append:
  "fence_feed (a @ b) f =
     (case fence_feed a f of (v, f1) \<Rightarrow> case fence_feed b f1 of (v', f2) \<Rightarrow> (v @ v', f2))"
  by (induction a arbitrary: f) (auto split: prod.splits)

fun fence_feed_all :: "rtext list \<Rightarrow> fence_filter \<Rightarrow> rtext \<times> fence_filter" where
  "fence_feed_all [] f = ([], f)"
| "fence_feed_all (d # ds) f =
     (case fence_feed d f of (v, f1) \<Rightarrow> case fence_feed_all ds f1 of (v', f2) \<Rightarrow> (v @ v', f2))"

lemma fence_feed_all_concat: "fence_feed_all ds f = fence_feed (concat ds) f"
  by (induction ds arbitrary: f) (auto simp: fence_feed_append split: prod.splits)

text \<open>C17: However a reply is cut into deltas, what the fence filter lets through is the reply without
  its fenced code, and no backtick of the text outside is lost.\<close>

theorem only_fenced_code_is_hidden:
  "fst (fence_feed_all ds new_fences) @ fst (fence_flush (snd (fence_feed_all ds new_fences))) =
     outside_fences False (concat ds)"
  using fence_feed_outside [of new_fences "concat ds" "fst (fence_feed_all ds new_fences)" "snd (fence_feed_all ds new_fences)"]
  by (simp add: fence_feed_all_concat new_fences_def)

section \<open>Sentences are released\<close>

text \<open>The text without white space, and the white space trimming takes away.\<close>

definition nonspace :: "rtext \<Rightarrow> rtext" where
  "nonspace s = filter (\<lambda>c. \<not> is_whitespace c) s"

lemma nonspace_append [simp]: "nonspace (a @ b) = nonspace a @ nonspace b"
  by (simp add: nonspace_def)

lemma nonspace_Nil [simp]: "nonspace [] = []"
  by (simp add: nonspace_def)

lemma nonspace_dropWhile: "nonspace (dropWhile is_whitespace s) = nonspace s"
  by (induction s) (auto simp: nonspace_def)

lemma nonspace_rev: "nonspace (rev s) = rev (nonspace s)"
  by (simp add: nonspace_def rev_filter)

lemma nonspace_trim [simp]: "nonspace (trim s) = nonspace s"
  by (simp add: trim_def trim_start_def trim_end_def nonspace_rev nonspace_dropWhile)

lemma nonspace_spaces: "\<forall>c \<in> set s. is_whitespace c \<Longrightarrow> nonspace s = []"
  by (simp add: nonspace_def filter_empty_conv)

lemma slice_rest: "a \<le> b \<Longrightarrow> slice a b s @ drop b s = drop a s"
  unfolding slice_def by (metis append_take_drop_id drop_drop le_add_diff_inverse2)

lemma sentence_end_bounds:
  assumes "i < length chars"
  shows "i \<le> sentence_end chars i" "sentence_end chars i < length chars"
proof -
  have "length (takeWhile closes_sentence (drop (i + 1) chars)) \<le> length chars - (i + 1)"
    using length_takeWhile_le [of closes_sentence "drop (i + 1) chars"] by simp
  with assms show "i \<le> sentence_end chars i" "sentence_end chars i < length chars"
    by (simp_all add: sentence_end_def)
qed

text \<open>What a round of the loop keeps: the sentences and the rest hold the text, and the index grows.\<close>

definition release_keeps :: "rtext \<Rightarrow> release_state \<Rightarrow> bool" where
  "release_keeps chars s \<longleftrightarrow> rl_start s \<le> rl_i s \<and>
     nonspace (concat (map sn_text (rl_sentences s))) @ nonspace (drop (rl_start s) chars) = nonspace chars"

lemma emit_sentence_keeps:
  assumes "release_keeps chars s" "rl_i s \<le> e"
  shows "release_keeps chars (emit_sentence chars e s) \<and> rl_i s < rl_i (emit_sentence chars e s)"
proof -
  let ?segment = "slice (rl_start s) (e + 1) chars"
  let ?spaces = "takeWhile is_whitespace (drop (e + 1) chars)"
  let ?i = "e + 1 + length ?spaces"
  have "drop (rl_start s) chars = ?segment @ ?spaces @ drop ?i chars"
  proof -
    have "drop ?i chars = dropWhile is_whitespace (drop (e + 1) chars)"
      by (metis add.commute drop_drop dropWhile_eq_drop)
    then have "?spaces @ drop ?i chars = drop (e + 1) chars" by simp
    moreover have "rl_start s \<le> e + 1" using assms by (simp add: release_keeps_def)
    ultimately show ?thesis using slice_rest by metis
  qed
  moreover have "nonspace ?spaces = []" by (intro nonspace_spaces) (auto dest: set_takeWhileD)
  ultimately have "nonspace (drop (rl_start s) chars) = nonspace ?segment @ nonspace (drop ?i chars)" by simp
  then show ?thesis using assms by (simp add: release_keeps_def emit_sentence_def Let_def)
qed

lemma release_step_keeps:
  assumes "release_keeps chars s" "rl_i s < length chars" "release_step env paused chars s = Some s'"
  shows "release_keeps chars s' \<and> rl_i s < rl_i s'"
proof -
  let ?advanced = "s\<lparr>rl_i := rl_i s + 1\<rparr>"
  have "s' = ?advanced \<or> s' = emit_sentence chars (sentence_end chars (rl_i s)) s"
    using assms(3) unfolding release_step_def Let_def by (auto split: if_splits)
  then show ?thesis
    using assms(1) emit_sentence_keeps [OF assms(1) sentence_end_bounds(1) [OF assms(2)]]
    by (auto simp: release_keeps_def)
qed

lemma release_loop_returns:
  "release_keeps chars s \<Longrightarrow> \<exists>s'. release_loop env paused chars s = Some s' \<and> release_keeps chars s'"
proof (induction "length chars - rl_i s" arbitrary: s rule: less_induct)
  case less
  show ?case
  proof (cases "rl_i s < length chars")
    case True
    show ?thesis
    proof (cases "release_step env paused chars s")
      case None
      then show ?thesis using True less.prems by (simp add: release_loop.simps [of env paused chars s])
    next
      case (Some t)
      have "release_keeps chars t" "rl_i s < rl_i t" using release_step_keeps [OF less.prems True Some] by auto
      then have "\<exists>s'. release_loop env paused chars t = Some s' \<and> release_keeps chars s'"
        using less.hyps [of t] True diff_less_mono2 by blast
      then show ?thesis using True Some by (simp add: release_loop.simps [of env paused chars s])
    qed
  qed (use less.prems in \<open>simp add: release_loop.simps [of env paused chars s]\<close>)
qed

lemma release_returns:
  "\<exists>out b'. release env paused b = Some (out, b') \<and>
     nonspace (concat (map sn_text out)) @ nonspace (sb_buffer b') = nonspace (sb_buffer b)"
  using release_loop_returns [of "sb_buffer b" "\<lparr>rl_start = 0, rl_i = 0, rl_starts_line = sb_starts_line b, rl_sentences = []\<rparr>" env paused]
  by (fastforce simp: release_def release_keeps_def)

text \<open>A stream of texts (\<open>Some\<close>) and pauses (\<open>None\<close>), ended by a flush.\<close>

fun sentences_of :: "speech_env \<Rightarrow> rtext option list \<Rightarrow> sentence_buffer \<Rightarrow> sentence list option" where
  "sentences_of env [] b = Some (fst (sentence_flush b))"
| "sentences_of env (x # xs) b =
     (case (case x of Some t \<Rightarrow> sentence_feed env t b | None \<Rightarrow> sentence_settle env b) of
        None \<Rightarrow> None
      | Some (out, b') \<Rightarrow> map_option ((@) out) (sentences_of env xs b'))"

definition streamed_text :: "rtext option list \<Rightarrow> rtext" where
  "streamed_text xs = concat (map (\<lambda>x. case x of Some t \<Rightarrow> t | None \<Rightarrow> []) xs)"

lemma sentences_of_returns:
  "\<exists>out. sentences_of env xs b = Some out \<and>
     nonspace (concat (map sn_text out)) = nonspace (sb_buffer b) @ nonspace (streamed_text xs)"
proof (induction xs arbitrary: b)
  case Nil
  then show ?case
    using nonspace_trim [of "sb_buffer b"] by (auto simp: sentence_flush_def Let_def streamed_text_def simp del: nonspace_trim)
next
  case (Cons x xs)
  obtain out b' where one: "(case x of Some t \<Rightarrow> sentence_feed env t b | None \<Rightarrow> sentence_settle env b) = Some (out, b')"
    "nonspace (concat (map sn_text out)) @ nonspace (sb_buffer b') =
       nonspace (sb_buffer b) @ nonspace (case x of Some t \<Rightarrow> t | None \<Rightarrow> [])"
  proof (cases x)
    case None
    then show ?thesis using release_returns [of env True b] that by (auto simp: sentence_settle_def)
  next
    case (Some t)
    then show ?thesis using release_returns [of env False "b\<lparr>sb_buffer := sb_buffer b @ t\<rparr>"] that
      by (auto simp: sentence_feed_def)
  qed
  obtain rest where rest: "sentences_of env xs b' = Some rest"
    "nonspace (concat (map sn_text rest)) = nonspace (sb_buffer b') @ nonspace (streamed_text xs)"
    using Cons.IH by blast
  have "nonspace (concat (map sn_text (out @ rest))) = nonspace (sb_buffer b) @ nonspace (streamed_text (x # xs))"
    using one(2) rest(2) by (simp add: streamed_text_def)
  then show ?case using one(1) rest(1) by simp
qed

text \<open>C18: The search for sentence ends always returns, and however a text is cut into pieces and
  interrupted by pauses, the sentences released hold all of it but white space, in order.\<close>

theorem every_word_is_released:
  "\<exists>out. sentences_of env xs new_buffer = Some out \<and>
     nonspace (concat (map sn_text out)) = nonspace (streamed_text xs)"
  using sentences_of_returns [of env xs new_buffer] by (simp add: new_buffer_def)

end
