(* ===== verification/Connections.thy ===== *)
theory Connections
  imports BoBe_Prelude BoBe_Text Event_Queue Access_Control
begin

text \<open>
  The bodies connected to the daemon and what it asks of them:
  \<open>src/BoBeService/src/util/sse/connection_manager.rs\<close> and \<open>body_requests.rs\<close>, the handlers
  \<open>api/handlers/events.rs\<close> and \<open>body_requests.rs\<close>, and the disconnections of \<open>app_state.rs\<close>.

  The mutex makes every method one step; \<open>request\<close>, which waits for the answer without the lock, is
  three: it sends (\<open>request_begin\<close>), its deadline may pass (\<open>deadline_passed\<close>), and it forgets the
  request and returns (\<open>request_end\<close>). The one-shot channel of a request is the entry of \<open>answers\<close>
  under its identifier: dropping the sender without an answer makes it \<open>Dropped\<close>, and the receiver is
  gone once the deadline has passed. Entries are kept, so that a fresh identifier is one without entry.
  A cancellation token and a request channel are references, shared by a connection and its lease.
\<close>

section \<open>What a body can be asked\<close>

definition SCREEN_TEXT_MAX_CHARS :: nat where "SCREEN_TEXT_MAX_CHARS = 6000"
definition SCREEN_LABEL_MAX_CHARS :: nat where "SCREEN_LABEL_MAX_CHARS = 512"
definition REASON_MAX_CHARS :: nat where "REASON_MAX_CHARS = 200"

datatype body_action = ScreenRead

definition ALL_ACTIONS :: "body_action list" where
  "ALL_ACTIONS = [ScreenRead]"

fun action_name :: "body_action \<Rightarrow> rtext" where
  "action_name ScreenRead = lit ''screen.read''"

fun action_bit :: "body_action \<Rightarrow> byte" where
  "action_bit ScreenRead = 1"

definition action_from_wire :: "rtext \<Rightarrow> body_action option" where
  "action_from_wire name = find (\<lambda>a. action_name a = name) ALL_ACTIONS"

type_synonym body_actions = byte

fun split_commas :: "rtext \<Rightarrow> rtext list" where
  "split_commas [] = [[]]"
| "split_commas (c # cs) =
     (if c = cp (CHR '','') then [] # split_commas cs
      else (case split_commas cs of [] \<Rightarrow> [[c]] | w # ws \<Rightarrow> (c # w) # ws))"

definition actions_from_header :: "rtext option \<Rightarrow> body_actions" where
  "actions_from_header value =
     fold (\<lambda>name actions. case action_from_wire name of
            Some a \<Rightarrow> actions OR action_bit a | None \<Rightarrow> actions)
       (filter (\<lambda>name. name \<noteq> []) (map trim (split_commas (case value of None \<Rightarrow> [] | Some v \<Rightarrow> v)))) 0"

definition actions_contain :: "body_actions \<Rightarrow> body_action \<Rightarrow> bool" where
  "actions_contain actions a \<longleftrightarrow> actions AND action_bit a \<noteq> 0"

datatype body_reply = Completed json | Declined rtext | Failed rtext

datatype body_request_error = NoBody | Busy | Gone | TimedOut | BodyDeclined rtext | BodyFailed rtext
  | InvalidAnswer

abbreviation bounded :: "rtext \<Rightarrow> nat \<Rightarrow> rtext" where
  "bounded value max_chars \<equiv> take max_chars value"

fun from_reply :: "body_reply \<Rightarrow> body_request_error + json" where
  "from_reply (Completed result) = Inr result"
| "from_reply (Declined reason) = Inl (BodyDeclined (bounded reason REASON_MAX_CHARS))"
| "from_reply (Failed reason) = Inl (BodyFailed (bounded reason REASON_MAX_CHARS))"

record screen_reading =
  sr_text :: rtext
  sr_application :: "rtext option"
  sr_window_title :: "rtext option"

definition reading_label :: "rtext option \<Rightarrow> rtext option" where
  "reading_label value =
     (case value of None \<Rightarrow> None
      | Some v \<Rightarrow> (let l = bounded (trim v) SCREEN_LABEL_MAX_CHARS in if l = [] then None else Some l))"

text \<open>An optional field may be missing or null.\<close>

definition optional_field :: "json option \<Rightarrow> body_request_error + rtext option" where
  "optional_field f =
     (case f of None \<Rightarrow> Inr None | Some JNull \<Rightarrow> Inr None | Some (JStr v) \<Rightarrow> Inr (Some v)
      | Some _ \<Rightarrow> Inl InvalidAnswer)"

definition reading_from_result :: "json \<Rightarrow> body_request_error + screen_reading" where
  "reading_from_result result =
     (case result of
        JObj members \<Rightarrow>
          (if \<exists>f \<in> set members. fst f \<notin> {''text'', ''application'', ''window_title''} then Inl InvalidAnswer
           else (case (map_of members ''text'', optional_field (map_of members ''application''),
                   optional_field (map_of members ''window_title'')) of
               (Some (JStr t), Inr application, Inr window_title) \<Rightarrow>
                 Inr \<lparr>sr_text = bounded t SCREEN_TEXT_MAX_CHARS, sr_application = reading_label application,
                      sr_window_title = reading_label window_title\<rparr>
             | _ \<Rightarrow> Inl InvalidAnswer))
      | _ \<Rightarrow> Inl InvalidAnswer)"

definition body_request_event :: "rtext \<Rightarrow> body_action \<Rightarrow> nat \<Rightarrow> stream_bundle" where
  "body_request_event request_id action deadline_ms = bundle_now BodyRequest request_id
     (JObj [(''request_id'', JStr request_id), (''action'', JStr (action_name action)),
        (''deadline_ms'', JNum (int (min u64_max deadline_ms)))])"

section \<open>Connections\<close>

definition BODY_REQUEST_QUEUE :: nat where "BODY_REQUEST_QUEUE = 4"

type_synonym token_ref = nat
type_synonym channel_ref = nat

record request_channel =
  ch_unread :: "stream_bundle list"
  ch_open :: bool

record body_connection =
  cn_endpoint :: "rtext option"
  cn_credential :: "rtext option"
  cn_actions :: body_actions
  cn_requests :: "channel_ref option"
  cn_token :: token_ref
  cn_updates :: bool
  cn_connected_at :: nat

datatype answer_slot = Waiting | Answered body_reply | Dropped | Expired

record connection_state =
  connections :: "(rtext, body_connection) hmap"
  pending :: "(rtext, rtext) hmap"
  answers :: "(rtext, answer_slot) hmap"
  channels :: "channel_ref \<Rightarrow> request_channel"
  cancelled :: "token_ref \<Rightarrow> bool"

definition new_connections :: connection_state where
  "new_connections = \<lparr>connections = [], pending = [], answers = [],
     channels = (\<lambda>_. \<lparr>ch_unread = [], ch_open = True\<rparr>), cancelled = (\<lambda>_. False)\<rparr>"

definition connection_id_of :: "uuid \<Rightarrow> rtext" where
  "connection_id_of u = lit ''conn_'' @ take 8 (uuid_simple u)"

definition connect_inner ::
  "uuid \<Rightarrow> token_ref \<Rightarrow> nat \<Rightarrow> principal \<Rightarrow> body_actions \<Rightarrow> channel_ref option \<Rightarrow> bool \<Rightarrow>
     connection_state \<Rightarrow> connection_state" where
  "connect_inner u token now p actions requests updates s =
     s\<lparr>connections := hm_insert (connection_id_of u)
        \<lparr>cn_endpoint = pr_endpoint p, cn_credential = pr_credential p, cn_actions = actions,
         cn_requests = requests, cn_token = token, cn_updates = updates, cn_connected_at = now\<rparr>
        (connections s)\<rparr>"

definition connect_body ::
  "uuid \<Rightarrow> token_ref \<Rightarrow> channel_ref \<Rightarrow> nat \<Rightarrow> principal \<Rightarrow> body_actions \<Rightarrow> connection_state \<Rightarrow> connection_state" where
  "connect_body u token channel now p actions s =
     connect_inner u token now p (if CaptureSubmit \<in> set (pr_scopes p) then actions else 0) (Some channel) True s"

definition connect_voice :: "uuid \<Rightarrow> token_ref \<Rightarrow> nat \<Rightarrow> principal \<Rightarrow> connection_state \<Rightarrow> connection_state" where
  "connect_voice u token now p s = connect_inner u token now p 0 None False s"

text \<open>Forgetting pending requests drops the senders of their answers.\<close>

definition forget_pending :: "(rtext \<Rightarrow> rtext \<Rightarrow> bool) \<Rightarrow> connection_state \<Rightarrow> connection_state" where
  "forget_pending gone s =
     s\<lparr>pending := hm_retain (\<lambda>rid cid. \<not> gone rid cid) (pending s),
       answers := map (\<lambda>(rid, a). (rid, if a = Waiting \<and> (case hm_get (pending s) rid of
           None \<Rightarrow> False | Some cid \<Rightarrow> gone rid cid) then Dropped else a)) (answers s)\<rparr>"

definition disconnect :: "rtext \<Rightarrow> connection_state \<Rightarrow> connection_state" where
  "disconnect cid s =
     (case hm_get (connections s) cid of
        None \<Rightarrow> s
      | Some _ \<Rightarrow> forget_pending (\<lambda>_ c. c = cid) (s\<lparr>connections := hm_remove cid (connections s)\<rparr>))"

definition can_serve :: "connection_state \<Rightarrow> body_action \<Rightarrow> body_connection \<Rightarrow> bool" where
  "can_serve s action c \<longleftrightarrow>
     cn_updates c \<and> cn_requests c \<noteq> None \<and> \<not> cancelled s (cn_token c) \<and> actions_contain (cn_actions c) action"

definition serves :: "body_action \<Rightarrow> connection_state \<Rightarrow> bool" where
  "serves action s \<longleftrightarrow> (\<exists>c \<in> set (connections s). can_serve s action (snd c))"

text \<open>\<open>max_by_key\<close>: the last of the greatest elements.\<close>

fun last_max :: "('a \<Rightarrow> nat) \<Rightarrow> 'a list \<Rightarrow> 'a option" where
  "last_max key [] = None"
| "last_max key (x # xs) =
     (case last_max key xs of None \<Rightarrow> Some x | Some y \<Rightarrow> if key y < key x then Some x else Some y)"

lemma last_max_in: "last_max key xs = Some x \<Longrightarrow> x \<in> set xs"
  by (induction xs arbitrary: x) (auto split: option.splits if_splits)

definition request_id_of :: "uuid \<Rightarrow> rtext" where
  "request_id_of u = lit ''breq_'' @ uuid_simple u"

definition request_begin ::
  "uuid \<Rightarrow> body_action \<Rightarrow> nat \<Rightarrow> connection_state \<Rightarrow> (body_request_error + rtext) \<times> connection_state" where
  "request_begin u action deadline_ms s =
     (case last_max (\<lambda>(_, c). cn_connected_at c) (filter (\<lambda>(_, c). can_serve s action c) (connections s)) of
        None \<Rightarrow> (Inl NoBody, s)
      | Some (cid, c) \<Rightarrow>
          (case cn_requests c of
             None \<Rightarrow> (Inl NoBody, s)
           | Some ch \<Rightarrow>
               (if \<not> ch_open (channels s ch) then (Inl Gone, s)
                else if BODY_REQUEST_QUEUE \<le> length (ch_unread (channels s ch)) then (Inl Busy, s)
                else (let rid = request_id_of u in
                  (Inr rid, s\<lparr>channels := (channels s)(ch := (channels s ch)\<lparr>ch_unread :=
                        ch_unread (channels s ch) @ [body_request_event rid action deadline_ms]\<rparr>),
                      pending := hm_insert rid cid (pending s),
                      answers := hm_insert rid Waiting (answers s)\<rparr>)))))"

definition deadline_passed :: "rtext \<Rightarrow> connection_state \<Rightarrow> connection_state" where
  "deadline_passed rid s =
     s\<lparr>answers := hm_modify rid (\<lambda>a. if a = Waiting then Expired else a) (answers s)\<rparr>"

text \<open>The requester resumes only when its slot is settled: \<open>None\<close> while it waits.\<close>

definition request_end ::
  "rtext \<Rightarrow> connection_state \<Rightarrow> (body_request_error + json) option \<times> connection_state" where
  "request_end rid s =
     (case hm_get (answers s) rid of
        None \<Rightarrow> (None, s)
      | Some Waiting \<Rightarrow> (None, s)
      | Some (Answered reply) \<Rightarrow> (Some (from_reply reply), s\<lparr>pending := hm_remove rid (pending s)\<rparr>)
      | Some Dropped \<Rightarrow> (Some (Inl Gone), s\<lparr>pending := hm_remove rid (pending s)\<rparr>)
      | Some Expired \<Rightarrow> (Some (Inl TimedOut), s\<lparr>pending := hm_remove rid (pending s)\<rparr>))"

definition answered_by_its_body :: "principal \<Rightarrow> rtext \<Rightarrow> connection_state \<Rightarrow> bool" where
  "answered_by_its_body p rid s \<longleftrightarrow>
     (case hm_get (pending s) rid of
        None \<Rightarrow> False
      | Some cid \<Rightarrow>
          (case hm_get (connections s) cid of
             None \<Rightarrow> False
           | Some c \<Rightarrow> cn_endpoint c = pr_endpoint p \<and> cn_credential c = pr_credential p))"

text \<open>Sending to a requester that has given up has no effect.\<close>

definition complete_request ::
  "principal \<Rightarrow> rtext \<Rightarrow> body_reply \<Rightarrow> connection_state \<Rightarrow> (app_error + unit) \<times> connection_state" where
  "complete_request p rid reply s =
     (if \<not> answered_by_its_body p rid s then (Inl (NotFound ''body request''), s)
      else (Inr (), s\<lparr>pending := hm_remove rid (pending s),
             answers := hm_modify rid (\<lambda>a. if a = Waiting then Answered reply else a) (answers s)\<rparr>))"

definition connection_channel :: "(nat list \<Rightarrow> byte list) \<Rightarrow> body_connection \<Rightarrow> uuid" where
  "connection_channel sha256 c =
     (case cn_endpoint c of None \<Rightarrow> owner_channel | Some e \<Rightarrow> channel_for_endpoint sha256 e)"

definition has_channel :: "(nat list \<Rightarrow> byte list) \<Rightarrow> uuid \<Rightarrow> connection_state \<Rightarrow> bool" where
  "has_channel sha256 channel s \<longleftrightarrow>
     (\<exists>(_, c) \<in> set (connections s). cn_updates c \<and> \<not> cancelled s (cn_token c) \<and>
        connection_channel sha256 c = channel)"

text \<open>\<open>max_by_key\<close> with the key \<open>(channel == preferred, connected)\<close>: the last of the greatest pairs.\<close>

fun last_offer :: "uuid \<Rightarrow> (uuid \<times> nat) list \<Rightarrow> (uuid \<times> nat) option" where
  "last_offer preferred [] = None"
| "last_offer preferred (x # xs) =
     (case last_offer preferred xs of
        None \<Rightarrow> Some x
      | Some y \<Rightarrow>
          (if (fst x = preferred \<and> fst y \<noteq> preferred) \<or>
              ((fst x = preferred) = (fst y = preferred) \<and> snd y < snd x)
           then Some x else Some y))"

definition offer_channel ::
  "(nat list \<Rightarrow> byte list) \<Rightarrow> uuid \<Rightarrow> bool \<Rightarrow> connection_state \<Rightarrow> uuid option" where
  "offer_channel sha256 preferred screen_only s =
     map_option fst (last_offer preferred
       (map (\<lambda>(_, c). (connection_channel sha256 c, cn_connected_at c))
         (filter (\<lambda>(_, c). cn_updates c \<and> \<not> cancelled s (cn_token c) \<and>
              (screen_only \<longrightarrow> actions_contain (cn_actions c) ScreenRead)) (connections s))))"

definition cancel_matching :: "(body_connection \<Rightarrow> bool) \<Rightarrow> connection_state \<Rightarrow> nat \<times> connection_state" where
  "cancel_matching matches s =
     (let tokens = map (\<lambda>(_, c). cn_token c) (filter (\<lambda>(_, c). matches c) (connections s))
      in (length tokens, s\<lparr>cancelled := (\<lambda>t. cancelled s t \<or> t \<in> set tokens)\<rparr>))"

definition disconnect_endpoint :: "rtext \<Rightarrow> connection_state \<Rightarrow> nat \<times> connection_state" where
  "disconnect_endpoint e s = cancel_matching (\<lambda>c. cn_endpoint c = Some e) s"

definition disconnect_credential :: "rtext \<Rightarrow> connection_state \<Rightarrow> nat \<times> connection_state" where
  "disconnect_credential k s = cancel_matching (\<lambda>c. cn_credential c = Some k) s"

definition disconnect_credentials :: "rtext list \<Rightarrow> connection_state \<Rightarrow> connection_state" where
  "disconnect_credentials ks s = fold (\<lambda>k s. snd (disconnect_credential k s)) ks s"

definition disconnect_all :: "connection_state \<Rightarrow> connection_state" where
  "disconnect_all s =
     (let s1 = (forget_pending (\<lambda>_ _. True) s)\<lparr>connections := []\<rparr>
      in s1\<lparr>cancelled := (\<lambda>t. cancelled s t \<or> t \<in> set (map (\<lambda>(_, c). cn_token c) (connections s)))\<rparr>)"

text \<open>The stream's side of a request channel: it reads the oldest request, and closes the channel
  when it is dropped.\<close>

definition read_request :: "channel_ref \<Rightarrow> connection_state \<Rightarrow> stream_bundle option \<times> connection_state" where
  "read_request ch s =
     (case ch_unread (channels s ch) of
        [] \<Rightarrow> (None, s)
      | b # bs \<Rightarrow> (Some b, s\<lparr>channels := (channels s)(ch := (channels s ch)\<lparr>ch_unread := bs\<rparr>)\<rparr>))"

definition close_stream :: "channel_ref \<Rightarrow> connection_state \<Rightarrow> connection_state" where
  "close_stream ch s = s\<lparr>channels := (channels s)(ch := \<lparr>ch_unread = [], ch_open = False\<rparr>)\<rparr>"

section \<open>The event stream of a connection\<close>

text \<open>\<open>stream_events\<close>: the first event, and the loop over what the \<open>select!\<close> yields, in its order
  (cancellation, a request, the queue).\<close>

datatype stream_input = Revoked | BodyAsked stream_bundle | FromQueue "recv_error + stream_bundle"

definition stream_cursor :: "uuid option \<Rightarrow> uuid \<Rightarrow> nat option \<Rightarrow> nat option" where
  "stream_cursor client_incarnation current after =
     (if client_incarnation \<noteq> None \<and> client_incarnation \<noteq> Some current then None else after)"

definition initial_event ::
  "uuid option \<Rightarrow> uuid \<Rightarrow> nat option \<Rightarrow> nat option \<Rightarrow> stream_bundle option \<Rightarrow> stream_bundle option" where
  "initial_event client_incarnation current after resume_at indicator =
     (if client_incarnation \<noteq> None \<and> client_incarnation \<noteq> Some current
      then Some ((snapshot_required_event (map_option (\<lambda>v. sat_add64 v 1) after) None resume_at
              ''runtime_incarnation_changed'')\<lparr>runtime_incarnation_id := Some current, audience := Some Owner\<rparr>)
      else if after = None then indicator else None)"

definition slow_consumer_event :: "uuid \<Rightarrow> nat option \<Rightarrow> stream_bundle" where
  "slow_consumer_event current latest =
     (snapshot_required_event None None latest ''slow_consumer'')
        \<lparr>runtime_incarnation_id := Some current, audience := Some Owner\<rparr>"

fun sse_loop :: "uuid \<Rightarrow> nat option \<Rightarrow> stream_input list \<Rightarrow> stream_bundle list" where
  "sse_loop current latest [] = []"
| "sse_loop current latest (Revoked # is) = []"
| "sse_loop current latest (BodyAsked b # is) = b # sse_loop current latest is"
| "sse_loop current latest (FromQueue (Inr b) # is) =
     b # (if event_type b = SnapshotRequired then [] else sse_loop current latest is)"
| "sse_loop current latest (FromQueue (Inl (Lagged missed)) # is) = [slow_consumer_event current latest]"
| "sse_loop current latest (FromQueue (Inl Closed) # is) = []"

definition stream_events ::
  "uuid \<Rightarrow> nat option \<Rightarrow> stream_bundle option \<Rightarrow> stream_input list \<Rightarrow> stream_bundle list" where
  "stream_events current latest first_event is =
     (case first_event of
        Some b \<Rightarrow> b # (if event_type b = SnapshotRequired then [] else sse_loop current latest is)
      | None \<Rightarrow> sse_loop current latest is)"


section \<open>What happens over time\<close>

datatype body_event =
    Connects uuid token_ref channel_ref nat principal body_actions
  | ConnectsVoice uuid token_ref nat principal
  | LeaseDropped rtext
  | Asks uuid body_action nat
  | Replies principal rtext body_reply
  | DeadlinePasses rtext
  | Resumes rtext
  | EndpointRevoked rtext
  | CredentialRevoked rtext
  | AllDisconnected
  | ReadsRequest channel_ref
  | StreamCloses channel_ref

fun body_event_step :: "body_event \<Rightarrow> connection_state \<Rightarrow> connection_state" where
  "body_event_step (Connects u token ch now p actions) s = connect_body u token ch now p actions s"
| "body_event_step (ConnectsVoice u token now p) s = connect_voice u token now p s"
| "body_event_step (LeaseDropped cid) s = disconnect cid s"
| "body_event_step (Asks u action deadline) s = snd (request_begin u action deadline s)"
| "body_event_step (Replies p rid reply) s = snd (complete_request p rid reply s)"
| "body_event_step (DeadlinePasses rid) s = deadline_passed rid s"
| "body_event_step (Resumes rid) s = snd (request_end rid s)"
| "body_event_step (EndpointRevoked e) s = snd (disconnect_endpoint e s)"
| "body_event_step (CredentialRevoked k) s = snd (disconnect_credential k s)"
| "body_event_step AllDisconnected s = disconnect_all s"
| "body_event_step (ReadsRequest ch) s = snd (read_request ch s)"
| "body_event_step (StreamCloses ch) s = close_stream ch s"

text \<open>Fresh identifiers: a new request has no answer slot yet, a new connection neither an entry nor a
  cancelled token.\<close>

fun event_allowed :: "connection_state \<Rightarrow> body_event \<Rightarrow> bool" where
  "event_allowed s (Connects u token ch now p actions) \<longleftrightarrow>
     hm_get (connections s) (connection_id_of u) = None \<and> \<not> cancelled s token"
| "event_allowed s (ConnectsVoice u token now p) \<longleftrightarrow>
     hm_get (connections s) (connection_id_of u) = None \<and> \<not> cancelled s token"
| "event_allowed s (Asks u action deadline) \<longleftrightarrow> hm_get (answers s) (request_id_of u) = None"
| "event_allowed s _ \<longleftrightarrow> True"

inductive body_trace :: "connection_state \<Rightarrow> body_event list \<Rightarrow> connection_state \<Rightarrow> bool" where
  trace_nil: "body_trace s [] s"
| trace_snoc: "body_trace s es t \<Longrightarrow> event_allowed t e \<Longrightarrow> body_trace s (es @ [e]) (body_event_step e t)"

inductive_cases trace_nilE: "body_trace s [] t"

inductive connection_step :: "connection_state \<Rightarrow> connection_state \<Rightarrow> bool" where
  "event_allowed s e \<Longrightarrow> connection_step s (body_event_step e s)"

definition connection_init :: "connection_state \<Rightarrow> bool" where
  "connection_init s \<longleftrightarrow> s = new_connections"

subsection \<open>Every waiting request has a connected body\<close>

definition conn_inv :: "connection_state \<Rightarrow> bool" where
  "conn_inv s \<longleftrightarrow> hm_ok (connections s) \<and> hm_ok (pending s) \<and> hm_ok (answers s) \<and>
     (\<forall>rid cid. hm_get (pending s) rid = Some cid \<longrightarrow>
        hm_get (connections s) cid \<noteq> None \<and> hm_get (answers s) rid \<in> {Some Waiting, Some Expired}) \<and>
     (\<forall>rid. hm_get (answers s) rid = Some Waiting \<longrightarrow> hm_get (pending s) rid \<noteq> None) \<and>
     (\<forall>ch. length (ch_unread (channels s ch)) \<le> BODY_REQUEST_QUEUE)"

lemma conn_invD:
  assumes "conn_inv s"
  shows "hm_ok (connections s)" "hm_ok (pending s)" "hm_ok (answers s)"
    "hm_get (pending s) rid = Some cid \<Longrightarrow> hm_get (connections s) cid \<noteq> None"
    "hm_get (pending s) rid = Some cid \<Longrightarrow> hm_get (answers s) rid \<in> {Some Waiting, Some Expired}"
    "hm_get (answers s) rid = Some Waiting \<Longrightarrow> hm_get (pending s) rid \<noteq> None"
    "length (ch_unread (channels s ch)) \<le> BODY_REQUEST_QUEUE"
  using assms unfolding conn_inv_def by blast+

declare map_of_eq_Some_iff [simp del]

lemma get_map_values: "hm_get (map (\<lambda>(k, v). (k, f k v)) m) k = map_option (f k) (hm_get m k)"
  by (induction m) auto

lemma keys_map_values: "map fst (map (\<lambda>(k, v). (k, f k v)) m) = map fst m"
  by (induction m) auto

lemma answers_forget:
  "hm_get (answers (forget_pending gone s)) rid =
     map_option (\<lambda>a. if a = Waiting \<and> (case hm_get (pending s) rid of None \<Rightarrow> False | Some cid \<Rightarrow> gone rid cid)
        then Dropped else a) (hm_get (answers s) rid)"
  by (simp add: forget_pending_def get_map_values [of "\<lambda>rid a. if a = Waiting \<and> (case hm_get (pending s) rid of
           None \<Rightarrow> False | Some cid \<Rightarrow> gone rid cid) then Dropped else a"])

lemma forget_fields [simp]:
  "connections (forget_pending gone s) = connections s" "channels (forget_pending gone s) = channels s"
  "cancelled (forget_pending gone s) = cancelled s"
  "pending (forget_pending gone s) = hm_retain (\<lambda>rid cid. \<not> gone rid cid) (pending s)"
  "map fst (answers (forget_pending gone s)) = map fst (answers s)"
  by (simp_all add: forget_pending_def case_prod_unfold)

lemma conn_inv_forget:
  assumes ok: "hm_ok (pending s)" "hm_ok (answers s)" "hm_ok (connections s)"
    and kept: "\<And>rid cid. hm_get (pending s) rid = Some cid \<Longrightarrow>
        (gone rid cid \<or> hm_get (connections s) cid \<noteq> None) \<and> hm_get (answers s) rid \<in> {Some Waiting, Some Expired}"
    and waits: "\<And>rid. hm_get (answers s) rid = Some Waiting \<Longrightarrow> hm_get (pending s) rid \<noteq> None"
    and room: "\<And>ch. length (ch_unread (channels s ch)) \<le> BODY_REQUEST_QUEUE"
  shows "conn_inv (forget_pending gone s)"
  unfolding conn_inv_def forget_fields answers_forget hm_get_retain [OF ok(1)]
  using ok room kept by (auto split: option.splits if_splits dest: waits)

lemma conn_inv_disconnect: "conn_inv s \<Longrightarrow> conn_inv (disconnect cid s)"
  unfolding disconnect_def
  by (auto split: option.splits intro!: conn_inv_forget dest: conn_invD simp: hm_get_remove)

lemma conn_inv_all: 
  assumes "conn_inv s" shows "conn_inv (disconnect_all s)"
proof -
  have "pending (forget_pending (\<lambda>_ _. True) s) = []" by (simp add: hm_retain_def)
  moreover have "conn_inv (forget_pending (\<lambda>_ _. True) s)"
    by (rule conn_inv_forget) (use assms in \<open>auto dest: conn_invD\<close>)
  ultimately show ?thesis by (simp add: conn_inv_def disconnect_all_def Let_def)
qed

lemma conn_inv_connect:
  "conn_inv s \<Longrightarrow> conn_inv (connect_inner u token now p actions requests updates s)"
  by (simp add: conn_inv_def connect_inner_def hm_get_insert)

lemma conn_inv_ask:
  assumes inv: "conn_inv s" and new: "hm_get (answers s) (request_id_of u) = None"
  shows "conn_inv (snd (request_begin u action deadline s))"
proof (cases "last_max (\<lambda>(_, c). cn_connected_at c) (filter (\<lambda>(_, c). can_serve s action c) (connections s))")
  case None
  then show ?thesis using inv by (simp add: request_begin_def)
next
  case (Some idc)
  obtain cid c where idc: "idc = (cid, c)" by (cases idc)
  have "hm_get (connections s) cid \<noteq> None"
    using last_max_in [OF Some] weak_map_of_SomeI [of cid c "connections s"] by (auto simp: idc)
  then show ?thesis
    using inv new Some by (auto simp: idc request_begin_def conn_inv_def hm_get_insert Let_def split: option.splits)
qed


lemma conn_inv_cancel: "conn_inv s \<Longrightarrow> conn_inv (snd (cancel_matching matches s))"
  by (simp add: conn_inv_def cancel_matching_def Let_def)

lemma conn_inv_step: "conn_inv s \<Longrightarrow> event_allowed s e \<Longrightarrow> conn_inv (body_event_step e s)"
proof (cases e)
  case (Asks u action deadline)
  assume "conn_inv s" "event_allowed s e"
  then show ?thesis using Asks conn_inv_ask by simp
next
  case (Replies p rid reply)
  assume "conn_inv s"
  then show ?thesis using Replies
    by (auto simp: complete_request_def conn_inv_def hm_get_remove hm_get_modify answered_by_its_body_def
        split: if_splits)
next
  case (DeadlinePasses rid)
  assume "conn_inv s"
  then show ?thesis using DeadlinePasses
    by (fastforce simp: deadline_passed_def conn_inv_def hm_get_modify split: if_splits)
next
  case (Resumes rid)
  assume "conn_inv s"
  then show ?thesis using Resumes
    by (auto simp: request_end_def conn_inv_def hm_get_remove
        split: option.splits answer_slot.splits if_splits)
next
  case (ReadsRequest ch)
  assume inv: "conn_inv s"
  show ?thesis
  proof (cases "ch_unread (channels s ch)")
    case Nil
    then show ?thesis using inv ReadsRequest by (simp add: read_request_def)
  next
    case (Cons b bs)
    have "length bs \<le> BODY_REQUEST_QUEUE" using conn_invD(7) [OF inv, of ch] Cons by simp
    with inv Cons ReadsRequest show ?thesis by (auto simp: read_request_def conn_inv_def)
  qed
next
  case (StreamCloses ch)
  assume "conn_inv s"
  then show ?thesis using StreamCloses
    by (auto simp: close_stream_def conn_inv_def)
qed (simp_all add: connect_body_def connect_voice_def conn_inv_connect conn_inv_disconnect conn_inv_all
    disconnect_endpoint_def disconnect_credential_def conn_inv_cancel)

lemma conn_inv_init: "connection_init s \<Longrightarrow> conn_inv s"
  by (simp add: connection_init_def new_connections_def conn_inv_def)

interpretation body_connections: step_system connection_init connection_step conn_inv
  by unfold_locales (auto simp: conn_inv_init elim!: connection_step.cases intro: conn_inv_step)

text \<open>C20: A request that waits for its answer always has an end: it was sent to a body that is still
  connected; when that body leaves, or all are disconnected, the requester learns that it is gone, and
  when the deadline passes that the body was too slow. No request waits for a body that has left.\<close>

theorem waiting_request_can_always_end:
  assumes "reach connection_init connection_step s" and w: "hm_get (answers s) rid = Some Waiting"
  shows "\<exists>cid. hm_get (pending s) rid = Some cid \<and> hm_get (connections s) cid \<noteq> None \<and>
     fst (request_end rid (disconnect cid s)) = Some (Inl Gone) \<and>
     fst (request_end rid (disconnect_all s)) = Some (Inl Gone) \<and>
     fst (request_end rid (deadline_passed rid s)) = Some (Inl TimedOut)"
proof -
  have inv: "conn_inv s" by (rule body_connections.reachable_inv [OF assms(1)])
  obtain cid where cid: "hm_get (pending s) rid = Some cid" using conn_invD(6) [OF inv w] by blast
  obtain c where c: "hm_get (connections s) cid = Some c" using conn_invD(4) [OF inv cid] by blast
  have "hm_get (answers (disconnect cid s)) rid = Some Dropped"
    unfolding disconnect_def c option.case answers_forget by (simp add: w cid)
  moreover have "hm_get (answers (disconnect_all s)) rid = Some Dropped"
    using answers_forget [of "\<lambda>_ _. True" s rid] by (simp add: disconnect_all_def Let_def w cid)
  moreover have "hm_get (answers (deadline_passed rid s)) rid = Some Expired"
    by (simp add: deadline_passed_def hm_get_modify w)
  ultimately show ?thesis using cid c by (auto simp: request_end_def)
qed

subsection \<open>Only the body that was asked can answer\<close>

definition awaited ::
  "rtext \<Rightarrow> rtext \<Rightarrow> body_connection \<Rightarrow> body_event list \<Rightarrow> connection_state \<Rightarrow> bool" where
  "awaited rid cid c es t \<longleftrightarrow>
     (hm_get (pending t) rid \<noteq> None \<longrightarrow>
        hm_get (pending t) rid = Some cid \<and> hm_get (connections t) cid = Some c) \<and>
     hm_get (answers t) rid \<noteq> None \<and>
     (\<forall>r. hm_get (answers t) rid = Some (Answered r) \<longrightarrow>
        (\<exists>p. Replies p rid r \<in> set es \<and> pr_endpoint p = cn_endpoint c \<and> pr_credential p = cn_credential c))"

lemma awaited_more: "awaited rid cid c es t \<Longrightarrow> awaited rid cid c (es @ [e]) t"
  by (auto simp: awaited_def)

lemma awaited_forget:
  assumes "awaited rid cid c es t" and "hm_ok (pending t)"
  shows "awaited rid cid c es (forget_pending gone t)"
  using assms(1) unfolding awaited_def forget_fields answers_forget hm_get_retain [OF assms(2)]
  by (auto split: option.splits if_splits)

lemma awaited_reply:
  assumes "awaited rid cid c es t"
  shows "awaited rid cid c (es @ [Replies p rid' r]) (snd (complete_request p rid' r t))"
  using assms
  by (auto simp: awaited_def complete_request_def answered_by_its_body_def hm_get_remove hm_get_modify
      split: option.splits if_splits)

lemma awaited_ask:
  assumes "awaited rid cid c es t" and "hm_get (answers t) (request_id_of u) = None"
  shows "awaited rid cid c es (snd (request_begin u action deadline t))"
  using assms by (auto simp: awaited_def request_begin_def Let_def hm_get_insert split: option.splits)


lemma awaited_disconnect:
  assumes "awaited rid cid c es t" and "hm_ok (pending t)"
  shows "awaited rid cid c es (disconnect cid' t)"
  using assms(1) unfolding disconnect_def awaited_def
  by (auto simp: answers_forget hm_get_retain [OF assms(2)] hm_get_remove split: option.splits if_splits)

lemma awaited_all:
  assumes "awaited rid cid c es t" and "hm_ok (pending t)"
  shows "awaited rid cid c es (disconnect_all t)"
proof -
  have "pending (forget_pending (\<lambda>_ _. True) t) = []" by (simp add: hm_retain_def)
  with awaited_forget [OF assms, of "\<lambda>_ _. True"] show ?thesis
    by (simp add: awaited_def disconnect_all_def Let_def)
qed

lemma awaited_connect:
  assumes "awaited rid cid c es t" and "hm_get (connections t) (connection_id_of u) = None"
  shows "awaited rid cid c es (connect_inner u token now p actions requests updates t)"
  using assms by (auto simp: awaited_def connect_inner_def hm_get_insert)

lemma awaited_step:
  assumes a: "awaited rid cid c es t" and "conn_inv t" and ok: "event_allowed t e"
  shows "awaited rid cid c (es @ [e]) (body_event_step e t)"
proof (cases e)
  case (Replies p rid' r)
  then show ?thesis using awaited_reply [OF a] by simp
next
  case (Asks u action deadline)
  then show ?thesis using awaited_more [OF awaited_ask [OF a]] ok by simp
next
  case (LeaseDropped cid')
  then show ?thesis using awaited_more [OF awaited_disconnect [OF a conn_invD(2) [OF assms(2)]]] by simp
next
  case AllDisconnected
  then show ?thesis using awaited_more [OF awaited_all [OF a conn_invD(2) [OF assms(2)]]] by simp
next
  case (DeadlinePasses rid')
  have "awaited rid cid c es (deadline_passed rid' t)"
    using a by (auto simp: awaited_def deadline_passed_def hm_get_modify split: if_splits)
  then show ?thesis using DeadlinePasses awaited_more by simp
next
  case (Resumes rid')
  have "awaited rid cid c es (snd (request_end rid' t))"
    using a by (auto simp: awaited_def request_end_def hm_get_remove split: option.splits answer_slot.splits)
  then show ?thesis using Resumes awaited_more by simp
next
  case (ReadsRequest ch)
  have "awaited rid cid c es (snd (read_request ch t))"
    using a by (auto simp: awaited_def read_request_def split: list.splits)
  then show ?thesis using ReadsRequest awaited_more by simp
next
  case (Connects u token ch now p actions)
  then show ?thesis using awaited_more [OF awaited_connect [OF a]] ok by (simp add: connect_body_def)
next
  case (ConnectsVoice u token now p)
  then show ?thesis using awaited_more [OF awaited_connect [OF a]] ok by (simp add: connect_voice_def)
qed (use a in \<open>auto simp: awaited_def disconnect_endpoint_def disconnect_credential_def
   cancel_matching_def close_stream_def Let_def\<close>)

lemma trace_inv: "body_trace s es t \<Longrightarrow> conn_inv s \<Longrightarrow> conn_inv t"
  by (induction rule: body_trace.induct) (auto intro: conn_inv_step)

lemma awaited_trace:
  "body_trace s es t \<Longrightarrow> conn_inv s \<Longrightarrow> awaited rid cid c [] s \<Longrightarrow> awaited rid cid c es t"
  by (induction rule: body_trace.induct) (auto intro: awaited_step trace_inv)

lemma request_begin_sends:
  assumes "request_begin u action deadline s = (Inr rid, s1)"
  obtains cid c ch where "rid = request_id_of u" "(cid, c) \<in> set (connections s)" "can_serve s action c"
    "cn_requests c = Some ch" "ch_open (channels s ch)" "hm_get (pending s1) rid = Some cid"
    "hm_get (answers s1) rid = Some Waiting" "connections s1 = connections s"
proof -
  from assms obtain cid c where m: "last_max (\<lambda>(_, c). cn_connected_at c)
      (filter (\<lambda>(_, c). can_serve s action c) (connections s)) = Some (cid, c)"
    by (auto simp: request_begin_def split: option.splits)
  have "(cid, c) \<in> set (connections s)" "can_serve s action c" using last_max_in [OF m] by auto
  moreover from assms m obtain ch where "cn_requests c = Some ch"
    by (auto simp: request_begin_def split: option.splits)
  ultimately show thesis using assms m that
    by (auto simp: request_begin_def Let_def hm_get_insert split: if_splits)
qed

text \<open>C19: A request is answered only by the body it was sent to. If the requester of a request that was
  sent over a connection holds an answer, whatever happened in between, then a principal with exactly
  the endpoint and the credential of that connection sent this answer, and it is what the requester
  gets.\<close>

theorem only_the_asked_body_answers:
  assumes "reach connection_init connection_step s"
    and "event_allowed s (Asks u action deadline)"
    and "request_begin u action deadline s = (Inr rid, s1)"
    and "hm_get (pending s1) rid = Some cid" "hm_get (connections s1) cid = Some c"
    and "body_trace s1 es s2" and "hm_get (answers s2) rid = Some (Answered reply)"
  shows "\<exists>p. Replies p rid reply \<in> set es \<and> pr_endpoint p = cn_endpoint c \<and> pr_credential p = cn_credential c \<and>
     fst (request_end rid s2) = Some (from_reply reply)"
proof -
  have "conn_inv s" by (rule body_connections.reachable_inv [OF assms(1)])
  then have "conn_inv s1" using conn_inv_step [OF _ assms(2)] assms(3) by simp
  moreover have "hm_get (answers s1) rid = Some Waiting" by (rule request_begin_sends [OF assms(3)])
  then have "awaited rid cid c [] s1" using assms(4,5) by (simp add: awaited_def)
  ultimately have "awaited rid cid c es s2" using awaited_trace assms(6) by blast
  then show ?thesis using assms(7) by (auto simp: awaited_def request_end_def)
qed


text \<open>A Mac that may submit captures connects and offers its screen.\<close>

definition mac_principal :: principal where
  "mac_principal = endpoint_principal [109] [107] 1 (profile_scopes MacApp)"

definition mac_connected :: connection_state where
  "mac_connected = connect_body 1 0 0 5 mac_principal 1 new_connections"

definition mac_connection :: body_connection where
  "mac_connection = \<lparr>cn_endpoint = Some [109], cn_credential = Some [107], cn_actions = 1, cn_requests = Some 0,
     cn_token = 0, cn_updates = True, cn_connected_at = 5\<rparr>"

lemma mac_connected_state:
  "mac_connected = new_connections\<lparr>connections := [(connection_id_of 1, mac_connection)]\<rparr>"
  by (simp add: mac_connected_def mac_connection_def mac_principal_def connect_body_def connect_inner_def
      endpoint_principal_def profile_scopes_def ALL_SCOPES_def new_connections_def)

lemma mac_reached: "reach connection_init connection_step mac_connected"
proof -
  have "event_allowed new_connections (Connects 1 0 0 5 mac_principal 1)"
    by (simp add: new_connections_def)
  then have "connection_step new_connections mac_connected"
    using connection_step.intros [of new_connections "Connects 1 0 0 5 mac_principal 1"]
    by (simp add: mac_connected_def)
  moreover have "reach connection_init connection_step new_connections"
    by (rule reach_init) (simp add: connection_init_def)
  ultimately show ?thesis by (rule reach_step [rotated])
qed

definition mac_asked :: connection_state where
  "mac_asked = new_connections\<lparr>connections := [(connection_id_of 1, mac_connection)],
     channels := (channels new_connections)
       (0 := \<lparr>ch_unread = [body_request_event (request_id_of 2) ScreenRead 20000], ch_open = True\<rparr>),
     pending := [(request_id_of 2, connection_id_of 1)], answers := [(request_id_of 2, Waiting)]\<rparr>"

lemma mac_asks: "request_begin 2 ScreenRead 20000 mac_connected = (Inr (request_id_of 2), mac_asked)"
  by (simp add: request_begin_def mac_connected_state mac_asked_def mac_connection_def new_connections_def
      can_serve_def actions_contain_def BODY_REQUEST_QUEUE_def Let_def)

lemma mac_may_ask: "event_allowed mac_connected (Asks 2 ScreenRead 20000)"
  by (simp add: mac_connected_state new_connections_def)

theorem waiting_request_can_always_end_witness:
  "fst (request_end (request_id_of 2) (disconnect (connection_id_of 1) mac_asked)) = Some (Inl Gone)"
proof -
  have "connection_step mac_connected mac_asked"
    using connection_step.intros [OF mac_may_ask] by (simp add: mac_asks)
  with mac_reached have r: "reach connection_init connection_step mac_asked" by (rule reach_step)
  have w: "hm_get (answers mac_asked) (request_id_of 2) = Some Waiting" by (simp add: mac_asked_def)
  have "hm_get (pending mac_asked) (request_id_of 2) = Some (connection_id_of 1)" by (simp add: mac_asked_def)
  then show ?thesis using waiting_request_can_always_end [OF r w] by auto
qed

theorem only_the_asked_body_answers_witness:
  "\<exists>p. Replies p (request_id_of 2) (Declined [110]) \<in> set [Replies mac_principal (request_id_of 2) (Declined [110])] \<and>
     pr_endpoint p = Some [109] \<and> pr_credential p = Some [107]"
proof -
  let ?e = "Replies mac_principal (request_id_of 2) (Declined [110])"
  let ?s2 = "body_event_step ?e mac_asked"
  have t: "body_trace mac_asked [?e] ?s2" using trace_snoc [OF trace_nil, of mac_asked ?e] by simp
  have a: "hm_get (answers ?s2) (request_id_of 2) = Some (Answered (Declined [110]))"
    by (simp add: complete_request_def answered_by_its_body_def mac_asked_def mac_connection_def
        mac_principal_def endpoint_principal_def hm_modify_def)
  show ?thesis
    using only_the_asked_body_answers [OF mac_reached mac_may_ask mac_asks, of "connection_id_of 1" mac_connection, OF _ _ t a]
    by (simp add: mac_asked_def mac_connection_def)
qed

subsection \<open>Revocation\<close>

definition cut_off :: "rtext \<Rightarrow> connection_state \<Rightarrow> bool" where
  "cut_off e s \<longleftrightarrow> (\<forall>(cid, c) \<in> set (connections s). cn_endpoint c = Some e \<longrightarrow> cancelled s (cn_token c))"

fun reconnects :: "rtext \<Rightarrow> body_event \<Rightarrow> bool" where
  "reconnects e (Connects u token ch now p actions) \<longleftrightarrow> pr_endpoint p = Some e"
| "reconnects e (ConnectsVoice u token now p) \<longleftrightarrow> pr_endpoint p = Some e"
| "reconnects e _ \<longleftrightarrow> False"

lemma cut_off_cancel: "cut_off e s \<Longrightarrow> cut_off e (snd (cancel_matching matches s))"
  by (auto simp: cut_off_def cancel_matching_def Let_def)

lemma hm_insert_in: "kv \<in> set (hm_insert k v m) \<Longrightarrow> kv = (k, v) \<or> kv \<in> set m"
  by (induction m) (auto split: if_splits)

lemma cut_off_connect:
  "cut_off e s \<Longrightarrow> pr_endpoint p \<noteq> Some e \<Longrightarrow> cut_off e (connect_inner u token now p actions requests updates s)"
  by (auto simp: cut_off_def connect_inner_def dest!: hm_insert_in)

lemma cut_off_same:
  "cut_off e s \<Longrightarrow> connections s' = connections s \<Longrightarrow> cancelled s' = cancelled s \<Longrightarrow> cut_off e s'"
  by (simp add: cut_off_def)

lemma cut_off_step: "cut_off e s \<Longrightarrow> \<not> reconnects e ev \<Longrightarrow> cut_off e (body_event_step ev s)"
proof (cases ev)
  case (LeaseDropped cid)
  assume "cut_off e s"
  then show ?thesis using LeaseDropped
    by (auto simp: disconnect_def cut_off_def AList.delete_eq split: option.splits)
next
  case AllDisconnected
  then show ?thesis by (simp add: disconnect_all_def cut_off_def Let_def)
qed (auto simp: connect_body_def connect_voice_def disconnect_endpoint_def disconnect_credential_def
    request_begin_def complete_request_def deadline_passed_def request_end_def read_request_def close_stream_def
    Let_def intro: cut_off_cancel cut_off_connect elim: cut_off_same
    split: option.splits answer_slot.splits list.splits)


lemma cut_off_trace:
  "body_trace s es t \<Longrightarrow> cut_off e s \<Longrightarrow> \<forall>ev \<in> set es. \<not> reconnects e ev \<Longrightarrow> cut_off e t"
  by (induction rule: body_trace.induct) (auto intro: cut_off_step)

lemma cut_off_revoked: "cut_off e (snd (disconnect_endpoint e s))"
  by (force simp: cut_off_def disconnect_endpoint_def cancel_matching_def Let_def)

text \<open>After an endpoint is revoked its connections are dead even before they close: whatever
  happens, until it connects again, each of them stays cancelled, none can serve an action, and every
  request goes to a connection of somebody else.\<close>

theorem revoked_endpoint_is_never_asked:
  assumes "body_trace (snd (disconnect_endpoint e s)) es t" and "\<forall>ev \<in> set es. \<not> reconnects e ev"
  shows "(request_begin u action deadline t = (Inr rid, t') \<longrightarrow>
      (\<exists>cid c. hm_get (pending t') rid = Some cid \<and> (cid, c) \<in> set (connections t) \<and> cn_endpoint c \<noteq> Some e)) \<and>
    (\<forall>(cid, c) \<in> set (connections t). cn_endpoint c = Some e \<longrightarrow>
       cancelled t (cn_token c) \<and> \<not> can_serve t action c)"
proof -
  have c: "cut_off e t" by (rule cut_off_trace [OF assms(1) cut_off_revoked assms(2)])
  then have no: "(cid, c) \<in> set (connections t) \<Longrightarrow> can_serve t action c \<Longrightarrow> cn_endpoint c \<noteq> Some e" for cid c
    by (auto simp: cut_off_def can_serve_def)
  have "\<exists>cid c. hm_get (pending t') rid = Some cid \<and> (cid, c) \<in> set (connections t) \<and> cn_endpoint c \<noteq> Some e"
    if "request_begin u action deadline t = (Inr rid, t')"
    using request_begin_sends [OF that] no by metis
  then show ?thesis using c no by (auto simp: cut_off_def)
qed

theorem revoked_endpoint_is_never_asked_witness:
  "\<not> can_serve (snd (disconnect_endpoint [109] mac_connected)) ScreenRead mac_connection \<and>
   can_serve mac_connected ScreenRead mac_connection"
proof -
  have "(connection_id_of 1, mac_connection) \<in> set (connections (snd (disconnect_endpoint [109] mac_connected)))"
    by (simp add: disconnect_endpoint_def cancel_matching_def mac_connected_state Let_def)
  moreover have "can_serve mac_connected ScreenRead mac_connection"
    by (simp add: can_serve_def mac_connected_state mac_connection_def actions_contain_def new_connections_def)
  ultimately show ?thesis
    using revoked_endpoint_is_never_asked [OF trace_nil, where e = "[109]" and s = mac_connected]
    by (force simp: mac_connection_def)
qed

section \<open>What a header offers and what a stream shows\<close>

lemma actions_fold_contains:
  "actions_contain (fold (\<lambda>name actions. case action_from_wire name of
       Some a \<Rightarrow> actions OR action_bit a | None \<Rightarrow> actions) names acc) ScreenRead \<longleftrightarrow>
     actions_contain acc ScreenRead \<or> lit ''screen.read'' \<in> set names"
proof (induction names arbitrary: acc)
  case (Cons n ns)
  have "(acc OR 1) AND 1 = (1 :: byte)" by (rule bit_word_eqI) (auto simp: bit_simps)
  then have "actions_contain (acc OR 1) ScreenRead" by (simp add: actions_contain_def)
  moreover have "action_from_wire n = (if n = lit ''screen.read'' then Some ScreenRead else None)"
    by (simp add: action_from_wire_def ALL_ACTIONS_def eq_commute)
  ultimately show ?case by (simp add: Cons.IH eq_commute)
qed simp

text \<open>A header offers the screen iff one of its entries, trimmed, is the name of the action; unknown
  entries are ignored.\<close>

lemma header_offers_screen:
  "actions_contain (actions_from_header (Some v)) ScreenRead \<longleftrightarrow>
     lit ''screen.read'' \<in> trim ` set (split_commas v)"
proof -
  have "lit ''screen.read'' \<noteq> []" "\<not> actions_contain 0 ScreenRead" by (simp_all add: lit_def actions_contain_def)
  then show ?thesis unfolding actions_from_header_def actions_fold_contains by auto
qed

text \<open>A body without the capture scope is never asked, whatever its header offers.\<close>

lemma capture_scope_needed:
  "CaptureSubmit \<notin> set (pr_scopes p) \<Longrightarrow>
   connect_body u token ch now p actions s = connect_body u token ch now p 0 s"
  by (simp add: connect_body_def)

text \<open>A stream ends with its first demand for a snapshot.\<close>

lemma loop_ends_with_snapshot:
  "sse_loop current latest is = xs @ b # ys \<Longrightarrow> event_type b = SnapshotRequired \<Longrightarrow>
   \<forall>r. BodyAsked r \<in> set is \<longrightarrow> event_type r \<noteq> SnapshotRequired \<Longrightarrow> ys = []"
  by (induction current latest "is" arbitrary: xs rule: sse_loop.induct)
    (auto simp: Cons_eq_append_conv split: if_splits)

lemma stream_ends_with_snapshot:
  "stream_events current latest first_event is = xs @ b # ys \<Longrightarrow> event_type b = SnapshotRequired \<Longrightarrow>
   \<forall>r. BodyAsked r \<in> set is \<longrightarrow> event_type r \<noteq> SnapshotRequired \<Longrightarrow> ys = []"
  by (auto simp: stream_events_def Cons_eq_append_conv split: option.splits if_splits
      dest: loop_ends_with_snapshot)

end
