(* ===== verification/Update_Offers.thy ===== *)
theory Update_Offers
  imports BoBe_Prelude BoBe_Text
begin

text \<open>
  Offering firmware to bodies: \<open>UpdateOffers\<close> of \<open>src/BoBeService/src/body/gateway.rs\<close> with the reports
  of \<open>body/protocol.rs\<close> it reads. A body is offered a newer build once per connection; a refusal that
  may pass (busy, battery) is tried again after a growing delay, any other end settles the build for
  good. Instants are milliseconds of the process's clock; a map entry is kept per device.
\<close>

section \<open>State\<close>

definition UPDATE_RETRY_FLOOR :: nat where "UPDATE_RETRY_FLOOR = 5000"
definition UPDATE_RETRY_INITIAL :: nat where "UPDATE_RETRY_INITIAL = 30000"
definition UPDATE_RETRY_MAX :: nat where "UPDATE_RETRY_MAX = 900000"

datatype update_refusal = RefusedBusy | BatteryUnknown | LowBattery

definition refusal_from_reason :: "rtext option \<Rightarrow> update_refusal option" where
  "refusal_from_reason reason =
     (case reason of None \<Rightarrow> None
      | Some r \<Rightarrow>
          if r = lit ''busy'' then Some RefusedBusy
          else if r = lit ''battery_unknown'' then Some BatteryUnknown
          else if r = lit ''low_battery'' then Some LowBattery
          else None)"

datatype update_progress =
    Offered nat nat nat \<comment> \<open>build, generation, refusals\<close>
  | Deferred nat nat update_refusal nat bool \<comment> \<open>build, refusals, refusal, refused at, cleared\<close>
  | Settled nat

type_synonym update_offers = "(rtext, update_progress) hmap"

datatype offer_decision = SendOffer | AlreadyOffered | RetryLater | Suppressed | NotNewer | NotConfigured
  | NoHealthYet | StaleConnection

record health_report =
  hr_build :: nat
  hr_lifecycle :: "rtext option"
  hr_turn :: "rtext option"

record battery_state =
  bs_percent :: nat
  bs_charging :: bool

record update_report =
  ur_phase :: rtext
  ur_progress :: nat
  ur_reason :: "rtext option"

definition KNOWN_PHASES :: "rtext list" where
  "KNOWN_PHASES = map lit [''accepted'', ''downloading'', ''verifying'', ''ready'', ''rebooting'', ''failed'', ''rejected'']"

definition report_fields_valid :: "update_report \<Rightarrow> bool" where
  "report_fields_valid r \<longleftrightarrow> ur_phase r \<noteq> [] \<and> str_len (ur_phase r) \<le> 32 \<and> ur_progress r \<le> 100 \<and>
     (case ur_reason r of None \<Rightarrow> True | Some reason \<Rightarrow> reason \<noteq> [] \<and> str_len reason \<le> 64)"

definition has_known_phase :: "update_report \<Rightarrow> bool" where
  "has_known_phase r \<longleftrightarrow> ur_phase r \<in> set KNOWN_PHASES"

section \<open>Operations\<close>

text \<open>\<open>saturating_pow\<close> of a \<open>u32\<close> and \<open>saturating_mul\<close> of a \<open>Duration\<close>: the product never exceeds what
  a \<open>Duration\<close> holds, as both factors are small enough.\<close>

definition sat_pow2_32 :: "nat \<Rightarrow> nat" where
  "sat_pow2_32 n = min (2 ^ 32 - 1) (2 ^ n)"

definition update_retry_delay :: "nat \<Rightarrow> nat" where
  "update_retry_delay refusals = min (UPDATE_RETRY_INITIAL * sat_pow2_32 (refusals - 1)) UPDATE_RETRY_MAX"

definition offer_now :: "rtext \<Rightarrow> nat \<Rightarrow> nat \<Rightarrow> nat \<Rightarrow> update_offers \<Rightarrow> offer_decision \<times> update_offers" where
  "offer_now device generation build refusals u =
     (SendOffer, hm_insert device (Offered build generation refusals) u)"

definition classify ::
  "rtext \<Rightarrow> nat \<Rightarrow> nat \<Rightarrow> nat \<Rightarrow> nat \<Rightarrow> update_offers \<Rightarrow> offer_decision \<times> update_offers" where
  "classify device generation offer_build running_build now u =
     (if running_build = 0 then (NoHealthYet, u)
      else if running_build \<ge> offer_build then (NotNewer, u)
      else (case hm_get u device of
          Some (Settled build) \<Rightarrow>
            if build = offer_build then (Suppressed, u) else offer_now device generation offer_build 0 u
        | Some (Offered build offered_on refusals) \<Rightarrow>
            if build = offer_build
            then (if offered_on = generation then (AlreadyOffered, u)
                  else (Suppressed, hm_insert device (Settled build) u))
            else offer_now device generation offer_build 0 u
        | Some (Deferred build refusals refusal refused_at cleared) \<Rightarrow>
            if build = offer_build
            then (if now - refused_at < (if cleared then UPDATE_RETRY_FLOOR else update_retry_delay refusals)
                  then (RetryLater, u)
                  else offer_now device generation offer_build refusals u)
            else offer_now device generation offer_build 0 u
        | None \<Rightarrow> offer_now device generation offer_build 0 u))"

definition delivery_failed :: "rtext \<Rightarrow> nat \<Rightarrow> update_offers \<Rightarrow> update_offers" where
  "delivery_failed device generation u =
     (case hm_get u device of
        Some (Offered _ offered_on _) \<Rightarrow> if offered_on = generation then hm_remove device u else u
      | _ \<Rightarrow> u)"

definition U32_MAX :: nat where "U32_MAX = 2 ^ 32 - 1"

definition record_state :: "rtext \<Rightarrow> nat \<Rightarrow> update_report \<Rightarrow> nat \<Rightarrow> update_offers \<Rightarrow> update_offers" where
  "record_state device generation report now u =
     (case hm_get u device of
        Some (Offered build offered_on refusals) \<Rightarrow>
          if offered_on \<noteq> generation then u
          else (case (if ur_phase report = lit ''failed'' then refusal_from_reason (ur_reason report) else None) of
              Some refusal \<Rightarrow> hm_insert device (Deferred build (min U32_MAX (refusals + 1)) refusal now False) u
            | None \<Rightarrow> hm_insert device (Settled build) u)
      | _ \<Rightarrow> u)"

definition observe :: "rtext \<Rightarrow> (update_refusal \<Rightarrow> bool) \<Rightarrow> update_offers \<Rightarrow> update_offers" where
  "observe device clears u =
     (case hm_get u device of
        Some (Deferred build refusals refusal refused_at cleared) \<Rightarrow>
          if clears refusal then hm_insert device (Deferred build refusals refusal refused_at True) u else u
      | _ \<Rightarrow> u)"

definition observe_health :: "rtext \<Rightarrow> health_report \<Rightarrow> update_offers \<Rightarrow> update_offers" where
  "observe_health device h u =
     (let idle = (hr_lifecycle h = Some (lit ''online'') \<and> hr_turn h = Some (lit ''idle''))
      in observe device (\<lambda>refusal. refusal = RefusedBusy \<and> idle) u)"

definition observe_battery :: "rtext \<Rightarrow> battery_state \<Rightarrow> update_offers \<Rightarrow> update_offers" where
  "observe_battery device b u =
     observe device (\<lambda>refusal. case refusal of BatteryUnknown \<Rightarrow> True | LowBattery \<Rightarrow> bs_charging b
        | RefusedBusy \<Rightarrow> False) u"

section \<open>What happens to a device's offers\<close>

datatype offer_event =
    Health nat nat health_report nat \<comment> \<open>generation, build on offer, report, now\<close>
  | Battery battery_state
  | DeliveryFailed nat
  | UpdateReported nat update_report nat

fun offer_step :: "rtext \<Rightarrow> offer_event \<Rightarrow> update_offers \<Rightarrow> offer_decision option \<times> update_offers" where
  "offer_step device (Health generation build h now) u =
     (let (d, u') = classify device generation build (hr_build h) now (observe_health device h u) in (Some d, u'))"
| "offer_step device (Battery b) u = (None, observe_battery device b u)"
| "offer_step device (DeliveryFailed generation) u = (None, delivery_failed device generation u)"
| "offer_step device (UpdateReported generation report now) u = (None, record_state device generation report now u)"

text \<open>The decisions of a sequence of events.\<close>

fun offer_run :: "rtext \<Rightarrow> offer_event list \<Rightarrow> update_offers \<Rightarrow> offer_decision list \<times> update_offers" where
  "offer_run device [] u = ([], u)"
| "offer_run device (e # es) u =
     (let (d, u1) = offer_step device e u; (ds, u2) = offer_run device es u1
      in ((case d of None \<Rightarrow> ds | Some d \<Rightarrow> d # ds), u2))"

fun offers_build :: "nat \<Rightarrow> offer_event \<Rightarrow> bool" where
  "offers_build build (Health _ b _ _) \<longleftrightarrow> b = build"
| "offers_build build _ \<longleftrightarrow> True"

lemma settled_step:
  "hm_get u device = Some (Settled build) \<Longrightarrow> offers_build build e \<Longrightarrow>
   fst (offer_step device e u) \<noteq> Some SendOffer \<and> hm_get (snd (offer_step device e u)) device = Some (Settled build)"
  by (cases e) (auto simp: classify_def observe_health_def observe_battery_def observe_def delivery_failed_def
      record_state_def Let_def)

lemma settled_run:
  "hm_get u device = Some (Settled build) \<Longrightarrow> \<forall>e \<in> set es. offers_build build e \<Longrightarrow>
   SendOffer \<notin> set (fst (offer_run device es u))"
proof (induction es arbitrary: u)
  case (Cons e es)
  have s: "fst (offer_step device e u) \<noteq> Some SendOffer"
      "hm_get (snd (offer_step device e u)) device = Some (Settled build)"
    using settled_step [OF Cons.prems(1), of e] Cons.prems(2) by auto
  then show ?case using Cons.IH [OF s(2)] Cons.prems(2)
    by (auto simp: case_prod_unfold Let_def split: option.splits)
qed simp

text \<open>A build that failed for good is never offered to the device again: once the body has reported
  an end that is no passing refusal for an offer it received, no report, no reconnection and no
  passage of time makes the daemon send the same build to it, until the endpoint is revoked or the
  daemon restarts.\<close>

theorem failed_update_is_never_repeated:
  assumes "hm_get u device = Some (Offered build generation refusals)"
    and "ur_phase report = lit ''failed'' \<Longrightarrow> refusal_from_reason (ur_reason report) = None"
    and "\<forall>e \<in> set es. offers_build build e"
  shows "SendOffer \<notin> set (fst (offer_run device es (record_state device generation report now u)))"
proof -
  have "hm_get (record_state device generation report now u) device = Some (Settled build)"
    using assms(1,2) by (simp add: record_state_def hm_get_insert split: option.splits)
  then show ?thesis using assms(3) by (rule settled_run)
qed

theorem failed_update_is_never_repeated_witness:
  "SendOffer \<notin> set (fst (offer_run [98] [Health 9 5 \<lparr>hr_build = 4, hr_lifecycle = None, hr_turn = None\<rparr> 99]
     (record_state [98] 7 \<lparr>ur_phase = lit ''rejected'', ur_progress = 0, ur_reason = None\<rparr> 10 [([98], Offered 5 7 0)])))"
proof (rule failed_update_is_never_repeated [where build = 5 and refusals = 0])
  show "\<forall>e \<in> set [Health 9 5 \<lparr>hr_build = 4, hr_lifecycle = None, hr_turn = None\<rparr> 99]. offers_build 5 e"
    by simp
qed (simp_all add: lit_def)

lemma refused_update_is_retried_in_bounds_parts:
  assumes "hm_get u device = Some (Deferred build refusals refusal refused_at cleared)"
    and "hr_build h \<noteq> 0" "hr_build h < build" "0 < refusals"
  shows "fst (offer_step device (Health generation build h now) u) =
      Some (if now - refused_at <
          (if cleared \<or> refusal = RefusedBusy \<and> hr_lifecycle h = Some (lit ''online'') \<and> hr_turn h = Some (lit ''idle'')
           then 5000 else update_retry_delay refusals)
        then RetryLater else SendOffer)"
    and "30000 \<le> update_retry_delay refusals" "update_retry_delay refusals \<le> 900000"
    and "update_retry_delay refusals \<le> update_retry_delay (Suc refusals)"
proof -
  show "fst (offer_step device (Health generation build h now) u) =
      Some (if now - refused_at <
          (if cleared \<or> refusal = RefusedBusy \<and> hr_lifecycle h = Some (lit ''online'') \<and> hr_turn h = Some (lit ''idle'')
           then 5000 else update_retry_delay refusals)
        then RetryLater else SendOffer)"
    using assms by (auto simp: observe_health_def observe_def classify_def offer_now_def hm_get_insert
        UPDATE_RETRY_FLOOR_def Let_def)
  have "1 \<le> sat_pow2_32 (refusals - 1)" by (simp add: sat_pow2_32_def)
  then show "30000 \<le> update_retry_delay refusals" "update_retry_delay refusals \<le> 900000"
    by (simp_all add: update_retry_delay_def UPDATE_RETRY_INITIAL_def UPDATE_RETRY_MAX_def)
  have "sat_pow2_32 (refusals - 1) \<le> sat_pow2_32 refusals"
    unfolding sat_pow2_32_def by (intro min.mono order_refl power_increasing) simp_all
  then show "update_retry_delay refusals \<le> update_retry_delay (Suc refusals)"
    by (simp add: update_retry_delay_def UPDATE_RETRY_INITIAL_def min_le_iff_disj)
qed

text \<open>C: A passing refusal is tried again, but not at once: after a refusal of build \<open>build\<close> at time
  \<open>refused_at\<close> the next health report leads to the same offer exactly when 5 seconds have passed and
  the cause is gone, or otherwise when the growing delay, between 30 seconds and 15 minutes, has.\<close>

theorem refused_update_is_retried_in_bounds:
  assumes "hm_get u device = Some (Deferred build refusals refusal refused_at cleared)"
    and "hr_build h \<noteq> 0" "hr_build h < build" "0 < refusals"
  shows "(fst (offer_step device (Health generation build h now) u) =
      Some (if now - refused_at <
          (if cleared \<or> refusal = RefusedBusy \<and> hr_lifecycle h = Some (lit ''online'') \<and> hr_turn h = Some (lit ''idle'')
           then 5000 else update_retry_delay refusals)
        then RetryLater else SendOffer)) \<and>
    (30000 \<le> update_retry_delay refusals) \<and>
    (update_retry_delay refusals \<le> 900000) \<and>
    (update_retry_delay refusals \<le> update_retry_delay (Suc refusals))"
  by (intro conjI impI refused_update_is_retried_in_bounds_parts [OF assms])

theorem refused_update_is_retried_in_bounds_witness:
  "fst (offer_step [98] (Health 3 5 \<lparr>hr_build = 4, hr_lifecycle = None, hr_turn = None\<rparr> 4000)
     [([98], Deferred 5 1 LowBattery 1000 True)]) = Some RetryLater"
  using refused_update_is_retried_in_bounds
    [of "[([98], Deferred 5 1 LowBattery 1000 True)]" "[98]" 5 1 LowBattery 1000 True
        "\<lparr>hr_build = 4, hr_lifecycle = None, hr_turn = None\<rparr>" 3 4000] by simp

end
