(* ===== verification/Playback.thy ===== *)
theory Playback
  imports BoBe_Prelude
begin

text \<open>
  The playback of a spoken reply on a body: the \<open>PlaybackState\<close> of
  \<open>src/BoBeService/src/body/gateway.rs\<close> and what the critical sections of \<open>queue_body_pcm\<close>,
  \<open>apply_playback_credit\<close>, \<open>flush_playback\<close>, \<open>mark_tts_end\<close> and \<open>playback_drained\<close> do to it. A frame
  is 20 ms of sound, 480 samples. The body grants credit for the frames it can hold; the daemon keeps
  the rest in order. The random stream identifier is an argument.
\<close>

section \<open>State\<close>

definition MAX_PLAYBACK_CREDIT_MS :: nat where "MAX_PLAYBACK_CREDIT_MS = 300"
definition AUDIO_FRAME_DURATION_MS :: nat where "AUDIO_FRAME_DURATION_MS = 20"
definition SPEAKER_PCM_BYTES :: nat where "SPEAKER_PCM_BYTES = 960"
definition MAX_PLAYBACK_CREDIT_FRAMES :: nat where
  "MAX_PLAYBACK_CREDIT_FRAMES = MAX_PLAYBACK_CREDIT_MS div AUDIO_FRAME_DURATION_MS"
definition MAX_PENDING_PLAYBACK_FRAMES :: nat where "MAX_PENDING_PLAYBACK_FRAMES = 1500"

type_synonym pcm = "8 word list"

record playback =
  pb_stream :: "32 word"
  pb_next_sequence :: "32 word"
  pb_ready :: bool
  pb_credit :: nat
  pb_frames_sent :: nat
  pb_played :: nat
  pb_pending :: "pcm list"
  pb_closing :: bool
  pb_close_sent :: bool
  pb_drained :: bool

definition new_playback :: "32 word \<Rightarrow> playback" where
  "new_playback random = \<lparr>pb_stream = (if random = 0 then 1 else random), pb_next_sequence = 0, pb_ready = False,
     pb_credit = 0, pb_frames_sent = 0, pb_played = 0, pb_pending = [], pb_closing = False,
     pb_close_sent = False, pb_drained = False\<rparr>"

section \<open>Operations\<close>

definition queue_frame :: "pcm \<Rightarrow> playback \<Rightarrow> bool \<times> playback" where
  "queue_frame pcm p =
     (if length (pb_pending p) < MAX_PENDING_PLAYBACK_FRAMES
      then (True, p\<lparr>pb_pending := pb_pending p @ [pcm]\<rparr>) else (False, p))"

definition sat_mul64 :: "nat \<Rightarrow> nat \<Rightarrow> nat" where
  "sat_mul64 a b = min u64_max (a * b)"

datatype credit_result = CreditRefused | CreditIgnored | CreditApplied

definition grant_credit :: "nat \<Rightarrow> playback \<Rightarrow> credit_result \<times> playback" where
  "grant_credit credit_ms p =
     (let played_frames = pb_played p div 480;
          outstanding = pb_frames_sent p - played_frames;
          derived = MAX_PLAYBACK_CREDIT_FRAMES - outstanding
      in (CreditApplied, p\<lparr>pb_ready := True,
            pb_credit := min (min (credit_ms div 20) MAX_PLAYBACK_CREDIT_FRAMES) derived\<rparr>))"

definition credit_playback :: "32 word \<Rightarrow> nat \<Rightarrow> nat option \<Rightarrow> playback \<Rightarrow> credit_result \<times> playback" where
  "credit_playback stream credit_ms played p =
     (if pb_stream p \<noteq> stream \<or> credit_ms > MAX_PLAYBACK_CREDIT_MS then (CreditRefused, p)
      else (case played of
          Some n \<Rightarrow>
            (if n mod 480 \<noteq> 0 \<or> n > sat_mul64 (pb_frames_sent p) 480 then (CreditRefused, p)
             else if n \<le> pb_played p then (CreditIgnored, p)
             else grant_credit credit_ms (p\<lparr>pb_played := n\<rparr>))
        | None \<Rightarrow> if pb_ready p then (CreditIgnored, p) else grant_credit credit_ms p))"

text \<open>The loop of \<open>flush_playback\<close>: frames leave while there is credit.\<close>

function flush_frames :: "playback \<Rightarrow> (32 word \<times> pcm) list \<times> playback" where
  "flush_frames p =
     (if pb_credit p > 0 then
        (case pb_pending p of
           [] \<Rightarrow> ([], p)
         | pcm # rest \<Rightarrow>
             (let (frames, p') = flush_frames (p\<lparr>pb_next_sequence := pb_next_sequence p + 1,
                    pb_credit := pb_credit p - 1, pb_frames_sent := sat_add64 (pb_frames_sent p) 1, pb_pending := rest\<rparr>)
              in ((pb_next_sequence p, pcm) # frames, p')))
      else ([], p))"
  by auto
termination by (relation "measure (\<lambda>p. length (pb_pending p))") auto

declare flush_frames.simps [simp del]

definition flush :: "playback \<Rightarrow> (32 word \<times> pcm) list \<times> bool \<times> playback" where
  "flush p =
     (let (frames, p1) = flush_frames p;
          close = (pb_closing p1 \<and> pb_pending p1 = [] \<and> \<not> pb_close_sent p1)
      in (frames, close, if close then p1\<lparr>pb_close_sent := True\<rparr> else p1))"

definition end_playback :: "playback \<Rightarrow> playback" where
  "end_playback p = p\<lparr>pb_closing := True\<rparr>"

definition body_drained :: "32 word \<Rightarrow> playback \<Rightarrow> bool \<times> playback" where
  "body_drained stream p =
     (if pb_stream p \<noteq> stream \<or> \<not> pb_close_sent p then (False, p) else (True, p\<lparr>pb_drained := True\<rparr>))"

definition fully_played :: "playback \<Rightarrow> bool" where
  "fully_played p \<longleftrightarrow> pb_close_sent p \<and> pb_pending p = [] \<and> pb_drained p"

section \<open>A reply on its way\<close>

text \<open>What the daemon has accepted for a playback and what it has sent, in order.\<close>

datatype playback_event = Frame pcm | Credit "32 word" nat "nat option" | Flush | TtsEnd | Drained "32 word"

record playback_history =
  ph_playback :: playback
  ph_accepted :: "pcm list"
  ph_sent :: "(32 word \<times> pcm) list"

fun playback_step :: "playback_event \<Rightarrow> playback_history \<Rightarrow> playback_history" where
  "playback_step (Frame pcm) h =
     (let (ok, p) = queue_frame pcm (ph_playback h)
      in h\<lparr>ph_playback := p, ph_accepted := ph_accepted h @ (if ok then [pcm] else [])\<rparr>)"
| "playback_step (Credit stream ms played) h =
     h\<lparr>ph_playback := snd (credit_playback stream ms played (ph_playback h))\<rparr>"
| "playback_step Flush h =
     (let (frames, _, p) = flush (ph_playback h) in h\<lparr>ph_playback := p, ph_sent := ph_sent h @ frames\<rparr>)"
| "playback_step TtsEnd h = h\<lparr>ph_playback := end_playback (ph_playback h)\<rparr>"
| "playback_step (Drained stream) h = h\<lparr>ph_playback := snd (body_drained stream (ph_playback h))\<rparr>"

text \<open>No frame is queued once the end has been announced: the lease has left the phases in which
  \<open>queue_body_pcm\<close> accepts frames (theory Voice_Leases).\<close>

fun playback_allowed :: "playback_history \<Rightarrow> playback_event \<Rightarrow> bool" where
  "playback_allowed h (Frame _) \<longleftrightarrow> \<not> pb_close_sent (ph_playback h)"
| "playback_allowed h _ \<longleftrightarrow> True"

definition new_history :: "32 word \<Rightarrow> playback_history" where
  "new_history random = \<lparr>ph_playback = new_playback random, ph_accepted = [], ph_sent = []\<rparr>"

inductive playback_reach :: "32 word \<Rightarrow> playback_history \<Rightarrow> bool" for random where
  playback_start: "playback_reach random (new_history random)"
| playback_next: "playback_reach random h \<Longrightarrow> playback_allowed h e \<Longrightarrow> playback_reach random (playback_step e h)"

definition numbered :: "(32 word \<times> pcm) list \<Rightarrow> bool" where
  "numbered frames \<longleftrightarrow> map fst frames = map of_nat [0..<length frames]"

definition playback_inv :: "playback_history \<Rightarrow> bool" where
  "playback_inv h \<longleftrightarrow>
     (let p = ph_playback h in
      map snd (ph_sent h) @ pb_pending p = ph_accepted h \<and> numbered (ph_sent h) \<and>
      pb_next_sequence p = of_nat (length (ph_sent h)) \<and> pb_frames_sent p = min u64_max (length (ph_sent h)) \<and>
      pb_credit p + (pb_frames_sent p - pb_played p div 480) \<le> MAX_PLAYBACK_CREDIT_FRAMES \<and>
      pb_played p div 480 \<le> pb_frames_sent p \<and> length (pb_pending p) \<le> MAX_PENDING_PLAYBACK_FRAMES \<and>
      (pb_close_sent p \<longrightarrow> pb_pending p = []) \<and> (pb_drained p \<longrightarrow> pb_close_sent p))"

lemma playback_invD:
  assumes "playback_inv h"
  shows "map snd (ph_sent h) @ pb_pending (ph_playback h) = ph_accepted h" "numbered (ph_sent h)"
    "pb_frames_sent (ph_playback h) = min u64_max (length (ph_sent h))"
    "pb_credit (ph_playback h) + (pb_frames_sent (ph_playback h) - pb_played (ph_playback h) div 480)
       \<le> MAX_PLAYBACK_CREDIT_FRAMES"
    "pb_played (ph_playback h) div 480 \<le> pb_frames_sent (ph_playback h)"
    "length (pb_pending (ph_playback h)) \<le> MAX_PENDING_PLAYBACK_FRAMES"
    "pb_close_sent (ph_playback h) \<Longrightarrow> pb_pending (ph_playback h) = []"
  using assms unfolding playback_inv_def Let_def by blast+

lemma numbered_snoc: "numbered frames \<Longrightarrow> n = of_nat (length frames) \<Longrightarrow> numbered (frames @ [(n, pcm)])"
  by (simp add: numbered_def)

lemma flush_frames_inv:
  "playback_inv h \<Longrightarrow> flush_frames (ph_playback h) = (frames, p) \<Longrightarrow>
   playback_inv (h\<lparr>ph_playback := p, ph_sent := ph_sent h @ frames\<rparr>) \<and>
   pb_close_sent p = pb_close_sent (ph_playback h) \<and> pb_drained p = pb_drained (ph_playback h)"
proof (induction "length (pb_pending (ph_playback h))" arbitrary: h frames)
  case 0
  then have "frames = []" "p = ph_playback h" by (auto simp: flush_frames.simps [of "ph_playback h"] split: if_splits)
  then show ?case using 0 by simp
next
  case (Suc n)
  let ?p = "ph_playback h"
  obtain pcm rest where pend: "pb_pending ?p = pcm # rest" using Suc.hyps(2) by (cases "pb_pending ?p") auto
  show ?case
  proof (cases "pb_credit ?p > 0")
    case False
    then have "frames = []" "p = ?p" using Suc.prems(2) by (auto simp: flush_frames.simps [of ?p])
    then show ?thesis using Suc.prems(1) by (cases h) simp
  next
    case True
    let ?q = "?p\<lparr>pb_next_sequence := pb_next_sequence ?p + 1, pb_credit := pb_credit ?p - 1,
       pb_frames_sent := sat_add64 (pb_frames_sent ?p) 1, pb_pending := rest\<rparr>"
    let ?h = "h\<lparr>ph_playback := ?q, ph_sent := ph_sent h @ [(pb_next_sequence ?p, pcm)]\<rparr>"
    obtain fs where fs: "flush_frames ?q = (fs, p)" "frames = (pb_next_sequence ?p, pcm) # fs"
      using Suc.prems(2) True pend by (auto simp: flush_frames.simps [of ?p] split: prod.splits)
    note inv = Suc.prems(1)
    have sent: "sat_add64 (pb_frames_sent ?p) 1 = min u64_max (length (ph_sent h) + 1)"
      unfolding playback_invD(3) [OF inv] by (simp add: sat_add64_def)
    have "pb_credit ?p - 1 + (sat_add64 (pb_frames_sent ?p) 1 - pb_played ?p div 480) \<le> MAX_PLAYBACK_CREDIT_FRAMES"
      and "pb_played ?p div 480 \<le> sat_add64 (pb_frames_sent ?p) 1"
      using playback_invD(3,4,5) [OF inv] True unfolding sat_add64_def by linarith+
    with inv pend sent have "playback_inv ?h"
      unfolding playback_inv_def Let_def by (auto intro: numbered_snoc)
    from Suc.hyps(1) [OF _ this] fs pend Suc.hyps(2) show ?thesis by simp
  qed
qed

lemma playback_inv_flush:
  assumes "playback_inv h" shows "playback_inv (playback_step Flush h)"
proof -
  obtain frames p where f: "flush_frames (ph_playback h) = (frames, p)" by (cases "flush_frames (ph_playback h)")
  from flush_frames_inv [OF assms f] show ?thesis by (auto simp: flush_def f Let_def playback_inv_def)
qed

lemma played_bound: "n \<le> sat_mul64 a 480 \<Longrightarrow> n div 480 \<le> a"
proof -
  assume "n \<le> sat_mul64 a 480"
  then have "n \<le> a * 480" by (simp add: sat_mul64_def)
  then show ?thesis using div_le_mono [of n "a * 480" 480] by simp
qed

lemma playback_inv_set_credit:
  assumes "playback_inv h" and "n div 480 \<le> pb_frames_sent (ph_playback h)"
    and "c + (pb_frames_sent (ph_playback h) - n div 480) \<le> MAX_PLAYBACK_CREDIT_FRAMES"
  shows "playback_inv (h\<lparr>ph_playback := ph_playback h\<lparr>pb_played := n, pb_ready := True, pb_credit := c\<rparr>\<rparr>)"
proof -
  let ?h = "h\<lparr>ph_playback := ph_playback h\<lparr>pb_played := n, pb_ready := True, pb_credit := c\<rparr>\<rparr>"
  have fields: "ph_sent ?h = ph_sent h" "ph_accepted ?h = ph_accepted h"
    "pb_pending (ph_playback ?h) = pb_pending (ph_playback h)" "pb_credit (ph_playback ?h) = c"
    "pb_next_sequence (ph_playback ?h) = pb_next_sequence (ph_playback h)"
    "pb_frames_sent (ph_playback ?h) = pb_frames_sent (ph_playback h)" "pb_played (ph_playback ?h) = n"
    "pb_close_sent (ph_playback ?h) = pb_close_sent (ph_playback h)"
    "pb_drained (ph_playback ?h) = pb_drained (ph_playback h)" by simp_all
  show ?thesis using assms unfolding playback_inv_def Let_def fields by blast
qed

lemma granted_fits:
  fixes f q r m :: nat
  assumes "c + (f - q) \<le> m" "q \<le> r" shows "min (min a m) (m - (f - r)) + (f - r) \<le> m"
proof -
  have "f - r \<le> m" using assms by simp
  moreover have "min (min a m) (m - (f - r)) \<le> m - (f - r)" by (rule min.cobounded2)
  ultimately show ?thesis using le_diff_conv2 by blast
qed

lemma playback_inv_grant:
  assumes "playback_inv h" and "pb_played (ph_playback h) \<le> n" "n div 480 \<le> pb_frames_sent (ph_playback h)"
  shows "playback_inv (h\<lparr>ph_playback := snd (grant_credit ms (ph_playback h\<lparr>pb_played := n\<rparr>))\<rparr>)"
proof -
  let ?c = "min (min (ms div 20) MAX_PLAYBACK_CREDIT_FRAMES)
      (MAX_PLAYBACK_CREDIT_FRAMES - (pb_frames_sent (ph_playback h) - n div 480))"
  have "?c + (pb_frames_sent (ph_playback h) - n div 480) \<le> MAX_PLAYBACK_CREDIT_FRAMES"
    by (rule granted_fits [OF playback_invD(4) [OF assms(1)] div_le_mono [OF assms(2)]])
  from playback_inv_set_credit [OF assms(1,3) this] show ?thesis by (simp add: grant_credit_def Let_def)
qed

lemma playback_inv_credit:
  assumes inv: "playback_inv h" shows "playback_inv (playback_step (Credit stream ms played) h)"
proof -
  have same: "playback_inv (h\<lparr>ph_playback := ph_playback h\<rparr>)" using inv by (cases h) simp
  have played: "pb_played (ph_playback h) div 480 \<le> pb_frames_sent (ph_playback h)"
    by (rule playback_invD(5) [OF inv])
  have "playback_inv (h\<lparr>ph_playback := snd (grant_credit ms (ph_playback h))\<rparr>)"
    using playback_inv_grant [OF inv order_refl played, of ms] by simp
  then show ?thesis
    using same playback_inv_grant [OF inv] played_bound
    by (auto simp: credit_playback_def split: option.splits)
qed

lemma playback_inv_step: "playback_inv h \<Longrightarrow> playback_allowed h e \<Longrightarrow> playback_inv (playback_step e h)"
proof (cases e)
  case (Frame pcm)
  assume "playback_inv h" "playback_allowed h e"
  then show ?thesis using Frame by (auto simp: playback_inv_def queue_frame_def Let_def)
next
  case (Credit stream ms played)
  assume "playback_inv h"
  then show ?thesis unfolding Credit by (rule playback_inv_credit)
next
  case Flush
  assume "playback_inv h"
  then show ?thesis unfolding Flush by (rule playback_inv_flush)
next
  case TtsEnd
  assume "playback_inv h"
  then show ?thesis unfolding TtsEnd by (auto simp: playback_inv_def end_playback_def Let_def)
next
  case (Drained stream)
  assume "playback_inv h"
  then show ?thesis unfolding Drained by (auto simp: playback_inv_def body_drained_def Let_def)
qed

lemma playback_inv_new: "playback_inv (new_history random)"
  by (simp add: playback_inv_def new_history_def new_playback_def numbered_def u64_max_def Let_def)

lemma playback_reach_inv: "playback_reach random h \<Longrightarrow> playback_inv h"
  by (induction rule: playback_reach.induct) (auto intro: playback_inv_new playback_inv_step)

lemma playback_is_in_order_and_bounded_parts:
  assumes "playback_reach random h"
  shows "map snd (ph_sent h) @ pb_pending (ph_playback h) = ph_accepted h"
    and "map fst (ph_sent h) = map of_nat [0..<length (ph_sent h)]"
    and "min u64_max (length (ph_sent h)) \<le> pb_played (ph_playback h) div 480 + 15"
    and "length (pb_pending (ph_playback h)) \<le> 1500"
    and "fully_played (ph_playback h) \<Longrightarrow> map snd (ph_sent h) = ph_accepted h"
  using playback_invD [OF playback_reach_inv [OF assms]]
  by (auto simp: numbered_def MAX_PLAYBACK_CREDIT_FRAMES_def MAX_PLAYBACK_CREDIT_MS_def
      AUDIO_FRAME_DURATION_MS_def MAX_PENDING_PLAYBACK_FRAMES_def fully_played_def)

text \<open>C24: Whatever the body reports and however credit, frames and flushes interleave, the frames sent
  are the accepted ones in their order and numbered from zero (modulo the wrap of the counter), at
  most 300 ms of sound (15 frames) are sent and not reported as played, at most 1500 frames wait, and
  when the playback counts as fully played every accepted frame has been sent.\<close>

theorem playback_is_in_order_and_bounded:
  assumes "playback_reach random h"
  shows "(map snd (ph_sent h) @ pb_pending (ph_playback h) = ph_accepted h) \<and>
    (map fst (ph_sent h) = map of_nat [0..<length (ph_sent h)]) \<and>
    (min u64_max (length (ph_sent h)) \<le> pb_played (ph_playback h) div 480 + 15) \<and>
    (length (pb_pending (ph_playback h)) \<le> 1500) \<and>
    (fully_played (ph_playback h) \<longrightarrow> map snd (ph_sent h) = ph_accepted h)"
  by (intro conjI impI playback_is_in_order_and_bounded_parts [OF assms])

theorem playback_is_in_order_and_bounded_witness:
  "\<exists>h. playback_reach 7 h \<and> fully_played (ph_playback h) \<and> map snd (ph_sent h) = [[1], [2]] \<and>
     map fst (ph_sent h) = [0, 1]"
proof -
  let ?h = "fold playback_step [Frame [1], Frame [2], Credit 7 40 None, TtsEnd, Flush, Drained 7] (new_history 7)"
  have e: "?h = \<lparr>ph_playback = \<lparr>pb_stream = 7, pb_next_sequence = 2, pb_ready = True, pb_credit = 0, pb_frames_sent = 2,
       pb_played = 0, pb_pending = [], pb_closing = True, pb_close_sent = True, pb_drained = True\<rparr>,
       ph_accepted = [[1], [2]], ph_sent = [(0, [1]), (1, [2])]\<rparr>"
    by (simp add: new_history_def new_playback_def queue_frame_def MAX_PENDING_PLAYBACK_FRAMES_def
        credit_playback_def grant_credit_def MAX_PLAYBACK_CREDIT_FRAMES_def MAX_PLAYBACK_CREDIT_MS_def
        AUDIO_FRAME_DURATION_MS_def flush_def flush_frames.simps end_playback_def body_drained_def
        sat_add64_def u64_max_def Let_def)
  let ?h1 = "playback_step (Frame [1]) (new_history 7)"
  have open0: "\<not> pb_close_sent (ph_playback (new_history 7))" and open1: "\<not> pb_close_sent (ph_playback ?h1)"
    by (auto simp: new_history_def new_playback_def queue_frame_def Let_def)
  have r: "playback_reach 7 ?h1" by (rule playback_next [OF playback_start]) (use open0 in simp)
  have "playback_reach 7 (playback_step (Frame [2]) ?h1)" by (rule playback_next [OF r]) (use open1 in simp)
  then have "playback_reach 7 (playback_step TtsEnd (playback_step (Credit 7 40 None) (playback_step (Frame [2]) ?h1)))"
    by (intro playback_next [where e = TtsEnd] playback_next [where e = "Credit 7 40 None"]) simp_all
  then have "playback_reach 7 ?h"
    unfolding fold.simps comp_def id_def
    by (intro playback_next [where e = Flush] playback_next [where e = "Drained 7"]) simp_all
  then show ?thesis using playback_is_in_order_and_bounded [of 7 ?h] e by (auto simp: fully_played_def)
qed

end
