(* ===== verification/Voice_Leases.thy ===== *)
theory Voice_Leases
  imports BoBe_Prelude BoBe_Text Update_Offers Playback
begin

text \<open>
  The voice lease of a body: \<open>GatewayState\<close> and \<open>BodyGateway\<close> of
  \<open>src/BoBeService/src/body/gateway.rs\<close>. At most one body at a time captures speech, waits for the reply
  and plays it; its lease is named by a route and moves through phases.

  The state is behind one mutex, and an asynchronous method takes it once or several times, with
  messages to the body or the speech adapter in between. Each critical section is one definition; what
  a method does next (a message, a release, a turn) is the value the section returns. The step
  relation allows the sections in any order and a release to begin at any time, so what is proved of
  it holds for every interleaving of the methods. \<open>Instant::now()\<close> is the argument \<open>now\<close>, in
  milliseconds; fresh identifiers and the outcomes of the speech engine, of turn admission and of
  sending are arguments. Abort handles and disconnect tokens are references. Opus decoding, the face,
  captions and the sensor state are left out.
\<close>

section \<open>State\<close>

definition LEASE_TTL :: nat where "LEASE_TTL = 120000"
definition LEASE_HARD_TTL :: nat where "LEASE_HARD_TTL = 600000"
definition CAPTURE_IDLE_TTL :: nat where "CAPTURE_IDLE_TTL = LEASE_TTL"
definition TRANSCRIPTION_TTL :: nat where "TRANSCRIPTION_TTL = 45000"
definition GENERATION_PROGRESS_TTL :: nat where "GENERATION_PROGRESS_TTL = 120000"
definition PLAYBACK_PROGRESS_TTL :: nat where "PLAYBACK_PROGRESS_TTL = 30000"
definition MEDIA_FLAG_DISCONTINUITY :: "16 word" where "MEDIA_FLAG_DISCONTINUITY = 1"

datatype lease_phase = Granted | Capturing | Transcribing | Generating | Playing | Draining | Releasing

record route =
  rt_device :: rtext
  rt_generation :: nat
  rt_session :: uuid
  rt_lease :: uuid
  rt_turn :: rtext
  rt_stream :: "32 word"

type_synonym task_ref = nat

record adapter_connection =
  ad_generation :: nat
  ad_disconnect :: nat

record body_link =
  bl_generation :: nat
  bl_session :: uuid
  bl_disconnect :: nat
  bl_last_seen :: nat
  bl_preempted :: "route option"

record voice_lease =
  vl_route :: route
  vl_request :: rtext
  vl_trigger :: rtext
  vl_phase :: lease_phase
  vl_deadline :: nat
  vl_hard_deadline :: nat
  vl_admission :: bool
  vl_expiry_abort :: "task_ref option"
  vl_turn_abort :: "task_ref option"
  vl_turn_finished :: "task_ref option"
  vl_generation_complete :: bool
  vl_stt :: bool
  vl_next_capture :: "32 word option"
  vl_playback :: "playback option"

record release_context =
  rc_expiry_abort :: "task_ref option"
  rc_turn_abort :: "task_ref option"
  rc_turn_finished :: "task_ref option"
  rc_adapter :: "adapter_connection option"

record gateway =
  gw_next_generation :: nat
  gw_bodies :: "(rtext, body_link) hmap"
  gw_adapter :: "adapter_connection option"
  gw_lease :: "voice_lease option"
  gw_offers :: update_offers
  gw_disconnected :: "nat \<Rightarrow> bool"

definition new_gateway :: gateway where
  "new_gateway = \<lparr>gw_next_generation = 1, gw_bodies = [], gw_adapter = None, gw_lease = None, gw_offers = [],
     gw_disconnected = (\<lambda>_. False)\<rparr>"

text \<open>\<open>VoiceLease::advance\<close> and \<open>touch\<close>.\<close>

definition advance :: "lease_phase \<Rightarrow> nat \<Rightarrow> nat \<Rightarrow> voice_lease \<Rightarrow> voice_lease" where
  "advance phase ttl now l = l\<lparr>vl_phase := phase, vl_deadline := min (now + ttl) (vl_hard_deadline l)\<rparr>"

definition touch :: "nat \<Rightarrow> nat \<Rightarrow> voice_lease \<Rightarrow> voice_lease" where
  "touch ttl now l = l\<lparr>vl_deadline := min (now + ttl) (vl_hard_deadline l)\<rparr>"

definition lease_is_routable :: "voice_lease \<Rightarrow> route \<Rightarrow> bool" where
  "lease_is_routable l r \<longleftrightarrow> vl_route l = r \<and> vl_phase l \<noteq> Releasing"

abbreviation set_lease :: "voice_lease \<Rightarrow> gateway \<Rightarrow> gateway" where
  "set_lease l s \<equiv> s\<lparr>gw_lease := Some l\<rparr>"

section \<open>Releasing a lease\<close>

definition begin_lease_release :: "route \<Rightarrow> gateway \<Rightarrow> release_context option \<times> gateway" where
  "begin_lease_release r s =
     (case gw_lease s of
        None \<Rightarrow> (None, s)
      | Some l \<Rightarrow>
          if vl_route l \<noteq> r \<or> vl_phase l = Releasing then (None, s)
          else (Some \<lparr>rc_expiry_abort = vl_expiry_abort l, rc_turn_abort = vl_turn_abort l,
                  rc_turn_finished = vl_turn_finished l, rc_adapter = gw_adapter s\<rparr>,
                set_lease (l\<lparr>vl_phase := Releasing, vl_expiry_abort := None, vl_turn_abort := None,
                  vl_turn_finished := None\<rparr>) s))"

definition finish_lease_release :: "route \<Rightarrow> gateway \<Rightarrow> bool \<times> gateway" where
  "finish_lease_release r s =
     (case gw_lease s of
        None \<Rightarrow> (False, s)
      | Some l \<Rightarrow> if vl_route l = r \<and> vl_phase l = Releasing then (True, s\<lparr>gw_lease := None\<rparr>) else (False, s))"

definition remove_adapter :: "nat \<Rightarrow> gateway \<Rightarrow> nat option \<times> gateway" where
  "remove_adapter generation s =
     (case gw_adapter s of
        None \<Rightarrow> (None, s)
      | Some a \<Rightarrow> if ad_generation a = generation then (Some (ad_disconnect a), s\<lparr>gw_adapter := None\<rparr>) else (None, s))"

definition cancel_link :: "nat option \<Rightarrow> gateway \<Rightarrow> gateway" where
  "cancel_link t s = (case t of None \<Rightarrow> s | Some t \<Rightarrow> s\<lparr>gw_disconnected := (gw_disconnected s)(t := True)\<rparr>)"

definition invalidate_adapter :: "nat \<Rightarrow> gateway \<Rightarrow> gateway" where
  "invalidate_adapter generation s = (let (t, s1) = remove_adapter generation s in cancel_link t s1)"

definition has_body :: "rtext \<Rightarrow> nat \<Rightarrow> gateway \<Rightarrow> bool" where
  "has_body device generation s \<longleftrightarrow>
     (case hm_get (gw_bodies s) device of None \<Rightarrow> False | Some b \<Rightarrow> bl_generation b = generation)"

definition invalidate_body :: "rtext \<Rightarrow> nat \<Rightarrow> gateway \<Rightarrow> gateway" where
  "invalidate_body device generation s =
     (case hm_get (gw_bodies s) device of
        None \<Rightarrow> s
      | Some b \<Rightarrow> if bl_generation b = generation
          then cancel_link (Some (bl_disconnect b)) (s\<lparr>gw_bodies := hm_remove device (gw_bodies s)\<rparr>) else s)"

text \<open>\<open>finish_release\<close>, once the turn of the lease has ended: \<open>adapter_told\<close> and \<open>body_told\<close> are the
  outcomes of the last messages. The guard drops the lease however the task ends.\<close>

definition finish_release :: "route \<Rightarrow> release_context \<Rightarrow> bool \<Rightarrow> bool \<Rightarrow> gateway \<Rightarrow> gateway" where
  "finish_release r ctx adapter_told body_told s =
     (let s1 = (case rc_adapter ctx of Some a \<Rightarrow> if adapter_told then s else invalidate_adapter (ad_generation a) s
                | None \<Rightarrow> s);
          s2 = (if has_body (rt_device r) (rt_generation r) s1 \<and> body_told then s1
                else invalidate_body (rt_device r) (rt_generation r) s1)
      in snd (finish_lease_release r s2))"

definition release_route :: "route \<Rightarrow> bool \<Rightarrow> bool \<Rightarrow> gateway \<Rightarrow> gateway" where
  "release_route r adapter_told body_told s =
     (let (ctx, s1) = begin_lease_release r s
      in case ctx of None \<Rightarrow> s1 | Some ctx \<Rightarrow> finish_release r ctx adapter_told body_told s1)"

section \<open>Connections\<close>

text \<open>\<open>register_body\<close>: the new generation and the route of a lease of the connection it replaces.\<close>

definition lease_route_of :: "rtext \<Rightarrow> nat \<Rightarrow> gateway \<Rightarrow> route option" where
  "lease_route_of device generation s =
     (case gw_lease s of None \<Rightarrow> None
      | Some l \<Rightarrow> if rt_device (vl_route l) = device \<and> rt_generation (vl_route l) = generation
          then Some (vl_route l) else None)"

definition register_body :: "rtext \<Rightarrow> nat \<Rightarrow> uuid \<Rightarrow> nat \<Rightarrow> gateway \<Rightarrow> (nat \<times> route option) \<times> gateway" where
  "register_body device token session now s =
     (let previous = hm_get (gw_bodies s) device;
          superseded = (case previous of None \<Rightarrow> None | Some b \<Rightarrow> lease_route_of device (bl_generation b) s);
          generation = gw_next_generation s;
          s1 = s\<lparr>gw_next_generation := generation + 1,
                 gw_bodies := hm_insert device \<lparr>bl_generation = generation, bl_session = session,
                     bl_disconnect = token, bl_last_seen = now, bl_preempted = None\<rparr> (hm_remove device (gw_bodies s))\<rparr>
      in ((generation, superseded), cancel_link (map_option bl_disconnect previous) s1))"

definition revoke_body :: "rtext \<Rightarrow> gateway \<Rightarrow> route option \<times> gateway" where
  "revoke_body device s =
     (let route = (case gw_lease s of None \<Rightarrow> None
            | Some l \<Rightarrow> if rt_device (vl_route l) = device then Some (vl_route l) else None);
          connection = hm_get (gw_bodies s) device
      in (route, cancel_link (map_option bl_disconnect connection)
           (s\<lparr>gw_bodies := hm_remove device (gw_bodies s), gw_offers := hm_remove device (gw_offers s)\<rparr>)))"

definition unregister_body :: "rtext \<Rightarrow> nat \<Rightarrow> gateway \<Rightarrow> route option \<times> gateway" where
  "unregister_body device generation s =
     (if \<not> has_body device generation s then (None, s)
      else (lease_route_of device generation s, s\<lparr>gw_bodies := hm_remove device (gw_bodies s)\<rparr>))"

definition touch_body :: "rtext \<Rightarrow> nat \<Rightarrow> nat \<Rightarrow> gateway \<Rightarrow> bool \<times> gateway" where
  "touch_body device generation now s =
     (if has_body device generation s
      then (True, s\<lparr>gw_bodies := hm_modify device (\<lambda>b. b\<lparr>bl_last_seen := now\<rparr>) (gw_bodies s)\<rparr>)
      else (False, s))"

definition register_adapter :: "nat \<Rightarrow> gateway \<Rightarrow> (string + nat) \<times> gateway" where
  "register_adapter token s =
     (if gw_adapter s \<noteq> None then (Inl ''adapter_already_connected'', s)
      else (Inr (gw_next_generation s), s\<lparr>gw_next_generation := gw_next_generation s + 1,
              gw_adapter := Some \<lparr>ad_generation = gw_next_generation s, ad_disconnect = token\<rparr>\<rparr>))"

definition unregister_adapter :: "nat \<Rightarrow> gateway \<Rightarrow> route option \<times> gateway" where
  "unregister_adapter generation s =
     (let (t, s1) = remove_adapter generation s in
      case t of
        None \<Rightarrow> (None, s)
      | Some t \<Rightarrow> ((case gw_lease s1 of None \<Rightarrow> None | Some l \<Rightarrow> if vl_stt l then None else Some (vl_route l)),
                  cancel_link (Some t) s1))"

definition active_route_for_body :: "rtext \<Rightarrow> nat \<Rightarrow> gateway \<Rightarrow> route option" where
  "active_route_for_body device generation s =
     (case gw_lease s of
        None \<Rightarrow> None
      | Some l \<Rightarrow> if vl_phase l \<noteq> Releasing \<and> rt_device (vl_route l) = device \<and> rt_generation (vl_route l) = generation
          then Some (vl_route l) else None)"

section \<open>Granting a lease\<close>

definition preempt_for :: "rtext \<Rightarrow> gateway \<Rightarrow> (string + (route \<times> release_context) option) \<times> gateway" where
  "preempt_for trigger s =
     (case gw_lease s of
        None \<Rightarrow> (Inr None, s)
      | Some l \<Rightarrow>
          if trigger \<noteq> lit ''action_button'' \<or> vl_trigger l \<noteq> lit ''wake_word'' \<or> vl_phase l \<noteq> Granted
          then (Inl ''another_endpoint_owns_voice_lease'', s)
          else (let r = vl_route l; (ctx, s1) = begin_lease_release r s in
            case ctx of
              None \<Rightarrow> (Inl ''another_endpoint_owns_voice_lease'', s1)
            | Some ctx \<Rightarrow> (Inr (Some (r, ctx)),
                (if has_body (rt_device r) (rt_generation r) s1
                 then s1\<lparr>gw_bodies := hm_modify (rt_device r) (\<lambda>b. b\<lparr>bl_preempted := Some r\<rparr>) (gw_bodies s1)\<rparr>
                 else s1))))"

definition preempted_route :: "rtext \<Rightarrow> nat \<Rightarrow> 32 word \<Rightarrow> gateway \<Rightarrow> route option" where
  "preempted_route device generation stream s =
     (case hm_get (gw_bodies s) device of
        None \<Rightarrow> None
      | Some b \<Rightarrow> if bl_generation b \<noteq> generation then None
          else (case bl_preempted b of None \<Rightarrow> None | Some r \<Rightarrow> if rt_stream r = stream then Some r else None))"

text \<open>The two sections of \<open>acquire_lease\<close>. \<open>engine\<close> is a viable speech engine of the daemon, which may
  fail to open a stream; \<open>admitted\<close> is the answer of turn admission.\<close>

definition acquire_begin ::
  "rtext \<Rightarrow> nat \<Rightarrow> rtext \<Rightarrow> rtext \<Rightarrow> 32 word \<Rightarrow> bool \<Rightarrow> gateway \<Rightarrow>
     (string + (route \<times> release_context) option) \<times> gateway" where
  "acquire_begin device generation request trigger stream viable s =
     (if request = [] \<or> str_len request > 64 \<or> stream = 0 then (Inl ''invalid_capture_request'', s)
      else (case hm_get (gw_bodies s) device of
          None \<Rightarrow> (Inl ''body_not_connected'', s)
        | Some b \<Rightarrow>
            if bl_generation b \<noteq> generation then (Inl ''stale_connection_generation'', s)
            else (let s1 = s\<lparr>gw_bodies := hm_modify device (\<lambda>b. b\<lparr>bl_preempted := None\<rparr>) (gw_bodies s)\<rparr>
              in if gw_adapter s1 = None \<and> \<not> viable then (Inl ''speech_engine_unavailable'', s1)
                 else preempt_for trigger s1)))"

definition acquire_grant ::
  "rtext \<Rightarrow> nat \<Rightarrow> rtext \<Rightarrow> rtext \<Rightarrow> 32 word \<Rightarrow> bool option \<Rightarrow> bool \<Rightarrow> uuid \<Rightarrow> rtext \<Rightarrow> nat \<Rightarrow> gateway \<Rightarrow>
     (string + route) \<times> gateway" where
  "acquire_grant device generation request trigger stream engine admitted lease_id turn_id now s =
     (if gw_lease s \<noteq> None then (Inl ''another_endpoint_owns_voice_lease'', s)
      else (case hm_get (gw_bodies s) device of
          None \<Rightarrow> (Inl ''body_not_connected'', s)
        | Some b \<Rightarrow>
            if bl_generation b \<noteq> generation then (Inl ''stale_connection_generation'', s)
            else if gw_adapter s = None \<and> engine = None then (Inl ''speech_engine_unavailable'', s)
            else if \<not> admitted then (Inl ''agent_turn_unavailable'', s)
            else if engine = Some False then (Inl ''speech_engine_unavailable'', s)
            else (let r = \<lparr>rt_device = device, rt_generation = generation, rt_session = bl_session b,
                       rt_lease = lease_id, rt_turn = turn_id, rt_stream = stream\<rparr>
              in (Inr r, set_lease \<lparr>vl_route = r, vl_request = request, vl_trigger = trigger, vl_phase = Granted,
                    vl_deadline = now + LEASE_TTL, vl_hard_deadline = now + LEASE_HARD_TTL, vl_admission = True,
                    vl_expiry_abort = None, vl_turn_abort = None, vl_turn_finished = None,
                    vl_generation_complete = False, vl_stt = (engine \<noteq> None), vl_next_capture = None,
                    vl_playback = None\<rparr> s))))"

text \<open>A section that acts on the routable lease of a route, and answers \<open>refused\<close> otherwise.\<close>

definition on_lease :: "route \<Rightarrow> 'a \<Rightarrow> (voice_lease \<Rightarrow> 'a \<times> voice_lease) \<Rightarrow> gateway \<Rightarrow> 'a \<times> gateway" where
  "on_lease r refused f s =
     (case gw_lease s of
        None \<Rightarrow> (refused, s)
      | Some l \<Rightarrow> if \<not> lease_is_routable l r then (refused, s) else (let (a, l') = f l in (a, set_lease l' s)))"

definition attach_expiry_abort :: "route \<Rightarrow> task_ref \<Rightarrow> gateway \<Rightarrow> bool \<times> gateway" where
  "attach_expiry_abort r task s = on_lease r False (\<lambda>l. (True, l\<lparr>vl_expiry_abort := Some task\<rparr>)) s"

definition cancel_capture_request :: "rtext \<Rightarrow> nat \<Rightarrow> rtext \<Rightarrow> 32 word \<Rightarrow> gateway \<Rightarrow> route option" where
  "cancel_capture_request device generation request stream s =
     (case gw_lease s of
        None \<Rightarrow> None
      | Some l \<Rightarrow> if rt_device (vl_route l) = device \<and> rt_generation (vl_route l) = generation \<and>
            rt_stream (vl_route l) = stream \<and> vl_request l = request \<and> vl_phase l \<in> {Granted, Capturing}
          then Some (vl_route l) else None)"

section \<open>Capturing\<close>

text \<open>What follows a section: nothing, or the adapter is told (with a lease that has no stream of its
  own), or the events of the lease's own speech stream are handled.\<close>

datatype stt_event = SttPartial rtext | SttFinal rtext

datatype capture_next = CaptureDone | TellAdapter "adapter_connection option" | HandleEvents "stt_event list"

definition open_capture :: "route \<Rightarrow> nat \<Rightarrow> gateway \<Rightarrow> (string + capture_next) \<times> gateway" where
  "open_capture r now s =
     (case gw_lease s of
        None \<Rightarrow> (Inl ''voice_lease_missing'', s)
      | Some l \<Rightarrow>
          if \<not> lease_is_routable l r then (Inl ''stale_voice_route'', s)
          else if vl_phase l \<noteq> Granted then (Inl ''invalid_capture_state'', s)
          else ((if vl_stt l then Inr CaptureDone
                 else if gw_adapter s = None then Inl ''speech_adapter_unavailable''
                 else Inr (TellAdapter (gw_adapter s))),
                set_lease (advance Capturing CAPTURE_IDLE_TTL now l) s))"

text \<open>\<open>finished\<close> is what the stream's \<open>finish\<close> returns, \<open>None\<close> for an error.\<close>

definition close_capture :: "route \<Rightarrow> stt_event list option \<Rightarrow> nat \<Rightarrow> gateway \<Rightarrow> (string + capture_next) \<times> gateway" where
  "close_capture r finished now s =
     (case gw_lease s of
        None \<Rightarrow> (Inl ''voice_lease_missing'', s)
      | Some l \<Rightarrow>
          if \<not> lease_is_routable l r then (Inl ''stale_voice_route'', s)
          else if vl_phase l \<noteq> Capturing then (Inl ''invalid_capture_state'', s)
          else ((if vl_stt l
                 then (case finished of None \<Rightarrow> Inl ''speech_recognition_failed'' | Some es \<Rightarrow> Inr (HandleEvents es))
                 else Inr (TellAdapter (gw_adapter s))),
                set_lease (advance Transcribing TRANSCRIPTION_TTL now l) s))"

definition accept_capture_sequence :: "32 word option \<Rightarrow> 32 word \<Rightarrow> 16 word \<Rightarrow> bool \<times> 32 word option" where
  "accept_capture_sequence expected sequence flags =
     (if expected \<noteq> None \<and> expected \<noteq> Some sequence \<and> Bit_Operations.and flags MEDIA_FLAG_DISCONTINUITY = 0
      then (False, expected) else (True, Some (sequence + 1)))"

text \<open>\<open>None\<close>: the frame is dropped. \<open>recognised\<close> is what the stream makes of the frame, \<open>None\<close> for an
  error, after which the route is released.\<close>

datatype microphone_next = FrameRefused | FrameFailed | FrameNext capture_next

definition forward_microphone ::
  "route \<Rightarrow> 32 word \<Rightarrow> 16 word \<Rightarrow> stt_event list option \<Rightarrow> nat \<Rightarrow> gateway \<Rightarrow> microphone_next \<times> gateway" where
  "forward_microphone r sequence flags recognised now s =
     on_lease r FrameRefused (\<lambda>l.
       if vl_phase l \<noteq> Capturing then (FrameRefused, l)
       else (let (ok, expected) = accept_capture_sequence (vl_next_capture l) sequence flags in
         if \<not> ok then (FrameRefused, l)
         else ((if vl_stt l
                then (case recognised of None \<Rightarrow> FrameFailed | Some es \<Rightarrow> FrameNext (HandleEvents es))
                else FrameNext (TellAdapter (gw_adapter s))),
               touch CAPTURE_IDLE_TTL now (l\<lparr>vl_next_capture := expected\<rparr>)))) s"

text \<open>\<open>send_active_adapter_message\<close>: the adapter must be the current one and the route still active.\<close>

datatype adapter_output = OutputSent | OutputStale | OutputFailed

definition adapter_output_of :: "route \<Rightarrow> adapter_connection \<Rightarrow> bool \<Rightarrow> gateway \<Rightarrow> adapter_output" where
  "adapter_output_of r a sent s =
     (if (case gw_adapter s of None \<Rightarrow> False | Some b \<Rightarrow> ad_generation b = ad_generation a) \<and>
         (case gw_lease s of None \<Rightarrow> False | Some l \<Rightarrow> lease_is_routable l r)
      then (if sent then OutputSent else OutputFailed) else OutputStale)"

section \<open>Transcripts and turns\<close>

datatype input_disposition = Accepted | Stale | Invalid

definition classify_adapter_route :: "route \<Rightarrow> nat \<Rightarrow> uuid \<Rightarrow> bool \<Rightarrow> input_disposition" where
  "classify_adapter_route r generation lease_id expected =
     (if rt_generation r \<noteq> generation \<or> rt_lease r \<noteq> lease_id then Stale
      else if expected then Accepted else Invalid)"

definition transcript_partial :: "nat \<Rightarrow> uuid \<Rightarrow> nat \<Rightarrow> gateway \<Rightarrow> input_disposition \<times> gateway" where
  "transcript_partial generation lease_id now s =
     (case gw_lease s of
        None \<Rightarrow> (Stale, s)
      | Some l \<Rightarrow>
          (let d = classify_adapter_route (vl_route l) generation lease_id (vl_phase l \<in> {Capturing, Transcribing})
           in if d \<noteq> Accepted then (d, s) else (Accepted, set_lease (touch TRANSCRIPTION_TTL now l) s)))"

text \<open>An accepted empty transcript releases the route it returns; an accepted text starts a turn on it.\<close>

definition transcript_empty :: "nat \<Rightarrow> uuid \<Rightarrow> gateway \<Rightarrow> input_disposition \<times> route option" where
  "transcript_empty generation lease_id s =
     (case gw_lease s of
        None \<Rightarrow> (Stale, None)
      | Some l \<Rightarrow>
          (let d = classify_adapter_route (vl_route l) generation lease_id (vl_phase l = Transcribing)
           in (d, if d = Accepted then Some (vl_route l) else None)))"

datatype transcript_next = NoTurn | ReleaseEmpty route | StartTurn route rtext

definition transcript_final ::
  "nat \<Rightarrow> uuid \<Rightarrow> rtext \<Rightarrow> nat \<Rightarrow> gateway \<Rightarrow> (input_disposition \<times> transcript_next) \<times> gateway" where
  "transcript_final generation lease_id t now s =
     (let trimmed = trim t in
      if trimmed = []
      then (case transcript_empty generation lease_id s of
              (d, Some r) \<Rightarrow> ((d, ReleaseEmpty r), s) | (d, None) \<Rightarrow> ((d, NoTurn), s))
      else if length trimmed > 16000 then ((Invalid, NoTurn), s)
      else (case gw_lease s of
          None \<Rightarrow> ((Stale, NoTurn), s)
        | Some l \<Rightarrow>
            (let d = classify_adapter_route (vl_route l) generation lease_id (vl_phase l = Transcribing) in
             if d \<noteq> Accepted then ((d, NoTurn), s)
             else (let s1 = set_lease (advance Generating GENERATION_PROGRESS_TTL now l) s in
                if \<not> vl_admission l then ((Invalid, NoTurn), s1)
                else ((Accepted, StartTurn (vl_route l) trimmed), s1)))))"

text \<open>\<open>spawn_turn\<close> attaches the turn's task to the lease, or aborts it; \<open>turn_task_finished\<close> says whether
  the route is released at once (nothing was to be played).\<close>

definition attach_turn :: "route \<Rightarrow> task_ref \<Rightarrow> gateway \<Rightarrow> bool \<times> gateway" where
  "attach_turn r task s =
     on_lease r False (\<lambda>l. (True, l\<lparr>vl_turn_abort := Some task, vl_turn_finished := Some task\<rparr>)) s"

datatype finished_next = NotActive | ReleaseComplete | CheckDrained

definition turn_task_finished :: "route \<Rightarrow> gateway \<Rightarrow> finished_next \<times> gateway" where
  "turn_task_finished r s =
     on_lease r NotActive (\<lambda>l.
       (if vl_playback l = None then ReleaseComplete else CheckDrained,
        l\<lparr>vl_generation_complete := True, vl_turn_abort := None\<rparr>)) s"

section \<open>Playback\<close>

datatype queue_next = FrameInvalid | FrameIgnored | FrameOverflow | FrameQueued bool

definition queue_body_pcm :: "route \<Rightarrow> pcm \<Rightarrow> 32 word \<Rightarrow> nat \<Rightarrow> gateway \<Rightarrow> queue_next \<times> gateway" where
  "queue_body_pcm r pcm random now s =
     (if length pcm \<noteq> SPEAKER_PCM_BYTES then (FrameInvalid, s)
      else on_lease r FrameIgnored (\<lambda>l.
        if vl_phase l \<notin> {Generating, Playing} then (FrameIgnored, l)
        else (let l1 = touch PLAYBACK_PROGRESS_TTL now l;
                  open_body = (vl_playback l1 = None);
                  l2 = (if open_body
                        then advance Playing PLAYBACK_PROGRESS_TTL now (l1\<lparr>vl_playback := Some (new_playback random)\<rparr>)
                        else l1)
              in case vl_playback l2 of
                   None \<Rightarrow> (FrameIgnored, l2)
                 | Some p \<Rightarrow> (let (queued, p') = queue_frame pcm p
                     in (if queued then FrameQueued open_body else FrameOverflow, l2\<lparr>vl_playback := Some p'\<rparr>)))) s)"

record playback_credit =
  pc_lease :: uuid
  pc_turn :: rtext
  pc_stream :: "32 word"
  pc_credit_ms :: nat
  pc_played :: "nat option"

definition apply_playback_credit :: "route \<Rightarrow> playback_credit \<Rightarrow> nat \<Rightarrow> gateway \<Rightarrow> credit_result \<times> gateway" where
  "apply_playback_credit r c now s =
     on_lease r CreditRefused (\<lambda>l.
       if pc_lease c \<noteq> rt_lease r \<or> pc_turn c \<noteq> rt_turn r then (CreditRefused, l)
       else (case vl_playback l of
           None \<Rightarrow> (CreditRefused, l)
         | Some p \<Rightarrow>
             (let (res, p') = credit_playback (pc_stream c) (pc_credit_ms c) (pc_played c) p;
                  l1 = l\<lparr>vl_playback := Some p'\<rparr>
              in (res, if res = CreditApplied then touch PLAYBACK_PROGRESS_TTL now l1 else l1)))) s"

definition playback_drained :: "route \<Rightarrow> 32 word \<Rightarrow> gateway \<Rightarrow> bool \<times> gateway" where
  "playback_drained r stream s =
     on_lease r False (\<lambda>l.
       if vl_phase l \<noteq> Draining then (False, l)
       else (case vl_playback l of
           None \<Rightarrow> (False, l)
         | Some p \<Rightarrow> (let (ok, p') = body_drained stream p in (ok, l\<lparr>vl_playback := Some p'\<rparr>)))) s"

definition playback_failed :: "route \<Rightarrow> 32 word \<Rightarrow> gateway \<Rightarrow> bool" where
  "playback_failed r stream s \<longleftrightarrow>
     (case gw_lease s of
        None \<Rightarrow> False
      | Some l \<Rightarrow> lease_is_routable l r \<and>
          (case vl_playback l of None \<Rightarrow> False | Some p \<Rightarrow> pb_stream p = stream))"

text \<open>\<open>flush_playback\<close>: without the body of the route it is released; else the frames there is credit for
  leave, with the announcement of the end when nothing is left.\<close>

datatype flush_next = FlushNoBody | FlushNothing | FlushFrames "(32 word \<times> pcm) list" bool "32 word"

definition flush_playback :: "route \<Rightarrow> nat \<Rightarrow> gateway \<Rightarrow> flush_next \<times> gateway" where
  "flush_playback r now s =
     (if \<not> has_body (rt_device r) (rt_generation r) s then (FlushNoBody, s)
      else on_lease r FlushNothing (\<lambda>l.
        case vl_playback l of
          None \<Rightarrow> (FlushNothing, l)
        | Some p \<Rightarrow>
            (let (frames, close, p') = flush p; l1 = l\<lparr>vl_playback := Some p'\<rparr>
             in (FlushFrames frames close (pb_stream p),
                 if close then advance Draining PLAYBACK_PROGRESS_TTL now l1 else l1))) s)"

definition mark_tts_end :: "route \<Rightarrow> gateway \<Rightarrow> bool \<times> gateway" where
  "mark_tts_end r s =
     on_lease r False (\<lambda>l. case vl_playback l of
         None \<Rightarrow> (False, l) | Some p \<Rightarrow> (True, l\<lparr>vl_playback := Some (end_playback p)\<rparr>)) s"

definition release_if_drained :: "route \<Rightarrow> gateway \<Rightarrow> bool" where
  "release_if_drained r s \<longleftrightarrow>
     (case gw_lease s of
        None \<Rightarrow> False
      | Some l \<Rightarrow> lease_is_routable l r \<and> vl_generation_complete l \<and>
          (case vl_playback l of None \<Rightarrow> False | Some p \<Rightarrow> fully_played p))"

text \<open>The two sections of \<open>watch_lease_expiry\<close>: the deadline to sleep until, and the check after it.\<close>

definition watch_deadline :: "route \<Rightarrow> gateway \<Rightarrow> nat option" where
  "watch_deadline r s =
     (case gw_lease s of None \<Rightarrow> None | Some l \<Rightarrow> if lease_is_routable l r then Some (vl_deadline l) else None)"

definition expire_lease :: "route \<Rightarrow> nat \<Rightarrow> gateway \<Rightarrow> bool \<times> gateway" where
  "expire_lease r now s =
     on_lease r False (\<lambda>l. if vl_deadline l \<le> now then (True, l\<lparr>vl_expiry_abort := None\<rparr>) else (False, l)) s"

section \<open>Firmware offers\<close>

text \<open>\<open>configured\<close> is the build of the offer, if there is one.\<close>

definition classify_offer ::
  "nat option \<Rightarrow> rtext \<Rightarrow> nat \<Rightarrow> health_report \<Rightarrow> nat \<Rightarrow> gateway \<Rightarrow> offer_decision \<times> gateway" where
  "classify_offer configured device generation h now s =
     (case configured of
        None \<Rightarrow> (NotConfigured, s)
      | Some build \<Rightarrow>
          if \<not> has_body device generation s then (StaleConnection, s)
          else (let (d, u) = classify device generation build (hr_build h) now (observe_health device h (gw_offers s))
                in (d, s\<lparr>gw_offers := u\<rparr>)))"

definition record_battery :: "rtext \<Rightarrow> nat \<Rightarrow> battery_state \<Rightarrow> gateway \<Rightarrow> gateway" where
  "record_battery device generation b s =
     (if has_body device generation s then s\<lparr>gw_offers := observe_battery device b (gw_offers s)\<rparr> else s)"

definition offer_not_delivered :: "rtext \<Rightarrow> nat \<Rightarrow> gateway \<Rightarrow> gateway" where
  "offer_not_delivered device generation s = s\<lparr>gw_offers := delivery_failed device generation (gw_offers s)\<rparr>"

definition record_update_state :: "rtext \<Rightarrow> nat \<Rightarrow> update_report \<Rightarrow> nat \<Rightarrow> gateway \<Rightarrow> gateway" where
  "record_update_state device generation report now s =
     (if has_body device generation s then s\<lparr>gw_offers := record_state device generation report now (gw_offers s)\<rparr> else s)"

section \<open>What happens over time\<close>

datatype gateway_event =
    BodyRegisters rtext nat uuid nat
  | BodyRevoked rtext
  | BodyUnregisters rtext nat
  | BodyTouched rtext nat nat
  | AdapterRegisters nat
  | AdapterUnregisters nat
  | ReleaseBegins route
  | ReleaseFinishes route
  | AdapterInvalid nat
  | BodyInvalid rtext nat
  | CaptureAsked rtext nat rtext rtext "32 word" bool
  | LeaseGranted rtext nat rtext rtext "32 word" "bool option" bool uuid rtext nat
  | ExpiryAttached route task_ref
  | CaptureOpens route nat
  | CaptureCloses route "stt_event list option" nat
  | MicrophoneFrame route "32 word" "16 word" "stt_event list option" nat
  | PartialHeard nat uuid nat
  | FinalHeard nat uuid rtext nat
  | TurnAttached route task_ref
  | TurnFinishes route
  | SpeechFrame route pcm "32 word" nat
  | CreditReported route playback_credit nat
  | BodyPlayedAll route "32 word"
  | PlaybackFlushed route nat
  | SpeechEnds route
  | ExpiryChecked route nat
  | HealthReported "nat option" rtext nat health_report nat
  | BatteryReported rtext nat battery_state
  | OfferUndelivered rtext nat
  | UpdateStateReported rtext nat update_report nat

text \<open>A run keeps, next to the state, the frames accepted for the current lease and those sent.\<close>

record voice_run =
  vr_gateway :: gateway
  vr_accepted :: "pcm list"
  vr_sent :: "(32 word \<times> pcm) list"

fun gateway_step :: "gateway_event \<Rightarrow> gateway \<Rightarrow> gateway" where
  "gateway_step (BodyRegisters device token session now) s = snd (register_body device token session now s)"
| "gateway_step (BodyRevoked device) s = snd (revoke_body device s)"
| "gateway_step (BodyUnregisters device generation) s = snd (unregister_body device generation s)"
| "gateway_step (BodyTouched device generation now) s = snd (touch_body device generation now s)"
| "gateway_step (AdapterRegisters token) s = snd (register_adapter token s)"
| "gateway_step (AdapterUnregisters generation) s = snd (unregister_adapter generation s)"
| "gateway_step (ReleaseBegins r) s = snd (begin_lease_release r s)"
| "gateway_step (ReleaseFinishes r) s = snd (finish_lease_release r s)"
| "gateway_step (AdapterInvalid generation) s = invalidate_adapter generation s"
| "gateway_step (BodyInvalid device generation) s = invalidate_body device generation s"
| "gateway_step (CaptureAsked device generation request trigger stream viable) s =
     snd (acquire_begin device generation request trigger stream viable s)"
| "gateway_step (LeaseGranted device generation request trigger stream engine admitted lease_id turn_id now) s =
     snd (acquire_grant device generation request trigger stream engine admitted lease_id turn_id now s)"
| "gateway_step (ExpiryAttached r task) s = snd (attach_expiry_abort r task s)"
| "gateway_step (CaptureOpens r now) s = snd (open_capture r now s)"
| "gateway_step (CaptureCloses r finished now) s = snd (close_capture r finished now s)"
| "gateway_step (MicrophoneFrame r sequence flags recognised now) s =
     snd (forward_microphone r sequence flags recognised now s)"
| "gateway_step (PartialHeard generation lease_id now) s = snd (transcript_partial generation lease_id now s)"
| "gateway_step (FinalHeard generation lease_id t now) s = snd (transcript_final generation lease_id t now s)"
| "gateway_step (TurnAttached r task) s = snd (attach_turn r task s)"
| "gateway_step (TurnFinishes r) s = snd (turn_task_finished r s)"
| "gateway_step (SpeechFrame r pcm random now) s = snd (queue_body_pcm r pcm random now s)"
| "gateway_step (CreditReported r c now) s = snd (apply_playback_credit r c now s)"
| "gateway_step (BodyPlayedAll r stream) s = snd (playback_drained r stream s)"
| "gateway_step (PlaybackFlushed r now) s = snd (flush_playback r now s)"
| "gateway_step (SpeechEnds r) s = snd (mark_tts_end r s)"
| "gateway_step (ExpiryChecked r now) s = snd (expire_lease r now s)"
| "gateway_step (HealthReported configured device generation h now) s =
     snd (classify_offer configured device generation h now s)"
| "gateway_step (BatteryReported device generation b) s = record_battery device generation b s"
| "gateway_step (OfferUndelivered device generation) s = offer_not_delivered device generation s"
| "gateway_step (UpdateStateReported device generation report now) s = record_update_state device generation report now s"

fun run_step :: "gateway_event \<Rightarrow> voice_run \<Rightarrow> voice_run" where
  "run_step (LeaseGranted device generation request trigger stream engine admitted lease_id turn_id now) v =
     (case acquire_grant device generation request trigger stream engine admitted lease_id turn_id now (vr_gateway v) of
        (Inr _, s) \<Rightarrow> \<lparr>vr_gateway = s, vr_accepted = [], vr_sent = []\<rparr>
      | (Inl _, s) \<Rightarrow> v\<lparr>vr_gateway := s\<rparr>)"
| "run_step (SpeechFrame r pcm random now) v =
     (case queue_body_pcm r pcm random now (vr_gateway v) of
        (FrameQueued _, s) \<Rightarrow> v\<lparr>vr_gateway := s, vr_accepted := vr_accepted v @ [pcm]\<rparr>
      | (_, s) \<Rightarrow> v\<lparr>vr_gateway := s\<rparr>)"
| "run_step (PlaybackFlushed r now) v =
     (case flush_playback r now (vr_gateway v) of
        (FlushFrames frames _ _, s) \<Rightarrow> v\<lparr>vr_gateway := s, vr_sent := vr_sent v @ frames\<rparr>
      | (_, s) \<Rightarrow> v\<lparr>vr_gateway := s\<rparr>)"
| "run_step e v = v\<lparr>vr_gateway := gateway_step e (vr_gateway v)\<rparr>"

inductive voice_step :: "voice_run \<Rightarrow> voice_run \<Rightarrow> bool" where
  "voice_step v (run_step e v)"

definition voice_init :: "voice_run \<Rightarrow> bool" where
  "voice_init v \<longleftrightarrow> v = \<lparr>vr_gateway = new_gateway, vr_accepted = [], vr_sent = []\<rparr>"

subsection \<open>The invariant of a lease\<close>

fun phase_rank :: "lease_phase \<Rightarrow> nat" where
  "phase_rank Granted = 0" | "phase_rank Capturing = 1" | "phase_rank Transcribing = 2" | "phase_rank Generating = 3"
| "phase_rank Playing = 4" | "phase_rank Draining = 5" | "phase_rank Releasing = 6"

definition lease_inv :: "voice_lease \<Rightarrow> pcm list \<Rightarrow> (32 word \<times> pcm) list \<Rightarrow> bool" where
  "lease_inv l accepted sent \<longleftrightarrow>
     vl_deadline l \<le> vl_hard_deadline l \<and> vl_admission l \<and>
     (case vl_playback l of
        None \<Rightarrow> vl_phase l \<notin> {Playing, Draining} \<and> accepted = [] \<and> sent = []
      | Some p \<Rightarrow> vl_phase l \<in> {Playing, Draining, Releasing} \<and> (pb_close_sent p \<longrightarrow> vl_phase l \<noteq> Playing) \<and>
          playback_inv \<lparr>ph_playback = p, ph_accepted = accepted, ph_sent = sent\<rparr>)"

definition same_lease :: "voice_lease \<Rightarrow> voice_lease \<Rightarrow> bool" where
  "same_lease l l' \<longleftrightarrow> vl_route l' = vl_route l \<and> vl_request l' = vl_request l \<and> vl_trigger l' = vl_trigger l \<and>
     vl_hard_deadline l' = vl_hard_deadline l \<and> phase_rank (vl_phase l) \<le> phase_rank (vl_phase l')"

definition run_inv :: "voice_run \<Rightarrow> bool" where
  "run_inv v \<longleftrightarrow> (\<forall>l. gw_lease (vr_gateway v) = Some l \<longrightarrow> lease_inv l (vr_accepted v) (vr_sent v))"

definition lease_moves :: "gateway \<Rightarrow> gateway \<Rightarrow> bool" where
  "lease_moves s s' \<longleftrightarrow>
     (\<forall>l. gw_lease s = Some l \<longrightarrow>
        (case gw_lease s' of None \<Rightarrow> vl_phase l = Releasing | Some l' \<Rightarrow> same_lease l l'))"

lemma same_lease_refl [simp]: "same_lease l l"
  by (simp add: same_lease_def)

lemma lease_moves_same: "gw_lease s' = gw_lease s \<Longrightarrow> lease_moves s s'"
  by (simp add: lease_moves_def)

lemma run_inv_same:
  "run_inv v \<Longrightarrow> gw_lease s' = gw_lease (vr_gateway v) \<Longrightarrow> run_inv (v\<lparr>vr_gateway := s'\<rparr>)"
  by (simp add: run_inv_def)

lemma on_lease_cases:
  obtains "on_lease r refused f s = (refused, s)"
  | l where "gw_lease s = Some l" "lease_is_routable l r" "on_lease r refused f s = (fst (f l), set_lease (snd (f l)) s)"
proof (cases "gw_lease s")
  case None
  then show thesis using that(1) by (simp add: on_lease_def)
next
  case (Some l)
  then show thesis using that by (cases "lease_is_routable l r") (simp_all add: on_lease_def case_prod_unfold Let_def)
qed

text \<open>A section that keeps the history: it preserves the invariant of the lease and its identity.\<close>

definition keeps_lease :: "(voice_lease \<Rightarrow> 'a \<times> voice_lease) \<Rightarrow> bool" where
  "keeps_lease f \<longleftrightarrow> (\<forall>l accepted sent. lease_inv l accepted sent \<longrightarrow> vl_phase l \<noteq> Releasing \<longrightarrow>
     lease_inv (snd (f l)) accepted sent \<and> same_lease l (snd (f l)))"

lemma on_lease_keeps:
  assumes "keeps_lease f" and "run_inv v"
  shows "run_inv (v\<lparr>vr_gateway := snd (on_lease r refused f (vr_gateway v))\<rparr>) \<and>
     lease_moves (vr_gateway v) (snd (on_lease r refused f (vr_gateway v)))"
proof (rule on_lease_cases [of r refused f "vr_gateway v"])
  assume "on_lease r refused f (vr_gateway v) = (refused, vr_gateway v)"
  then show ?thesis using assms(2) by (simp add: lease_moves_same)
next
  fix l assume l: "gw_lease (vr_gateway v) = Some l" "lease_is_routable l r"
    "on_lease r refused f (vr_gateway v) = (fst (f l), set_lease (snd (f l)) (vr_gateway v))"
  then have "lease_inv (snd (f l)) (vr_accepted v) (vr_sent v)" "same_lease l (snd (f l))"
    using assms by (auto simp: keeps_lease_def run_inv_def lease_is_routable_def)
  then show ?thesis using l by (simp add: run_inv_def lease_moves_def)
qed

lemma set_lease_keeps:
  assumes "run_inv v" and "gw_lease (vr_gateway v) = Some l"
    and "lease_inv l (vr_accepted v) (vr_sent v) \<Longrightarrow> lease_inv l' (vr_accepted v) (vr_sent v) \<and> same_lease l l'"
  shows "run_inv (v\<lparr>vr_gateway := set_lease l' (vr_gateway v)\<rparr>)" "lease_moves (vr_gateway v) (set_lease l' (vr_gateway v))"
  using assms by (auto simp: run_inv_def lease_moves_def)


lemma lease_inv_advance:
  "lease_inv l accepted sent \<Longrightarrow> vl_playback l = None \<Longrightarrow> phase \<notin> {Playing, Draining} \<Longrightarrow>
   phase_rank (vl_phase l) \<le> phase_rank phase \<Longrightarrow>
   lease_inv (advance phase ttl now l) accepted sent \<and> same_lease l (advance phase ttl now l)"
  by (auto simp: lease_inv_def advance_def same_lease_def)

lemma no_playback_yet:
  "lease_inv l accepted sent \<Longrightarrow> vl_phase l \<notin> {Playing, Draining, Releasing} \<Longrightarrow> vl_playback l = None"
  by (auto simp: lease_inv_def split: option.splits)

lemma lease_inv_touch:
  "lease_inv l accepted sent \<Longrightarrow> lease_inv (touch ttl now l) accepted sent \<and> same_lease l (touch ttl now l)"
  by (auto simp: lease_inv_def touch_def same_lease_def split: option.splits)

lemma lease_inv_fields:
  "lease_inv (l\<lparr>vl_expiry_abort := a\<rparr>) accepted sent = lease_inv l accepted sent"
  "lease_inv (l\<lparr>vl_turn_abort := b\<rparr>) accepted sent = lease_inv l accepted sent"
  "lease_inv (l\<lparr>vl_turn_finished := c\<rparr>) accepted sent = lease_inv l accepted sent"
  "lease_inv (l\<lparr>vl_generation_complete := d\<rparr>) accepted sent = lease_inv l accepted sent"
  "lease_inv (l\<lparr>vl_next_capture := e\<rparr>) accepted sent = lease_inv l accepted sent"
  by (cases "vl_playback l"; simp add: lease_inv_def)+

lemma same_lease_fields [simp]:
  "same_lease l (l'\<lparr>vl_expiry_abort := a\<rparr>) = same_lease l l'" "same_lease l (l'\<lparr>vl_turn_abort := b\<rparr>) = same_lease l l'"
  "same_lease l (l'\<lparr>vl_turn_finished := c\<rparr>) = same_lease l l'"
  "same_lease l (l'\<lparr>vl_generation_complete := d\<rparr>) = same_lease l l'"
  "same_lease l (l'\<lparr>vl_next_capture := e\<rparr>) = same_lease l l'" "same_lease l (l'\<lparr>vl_playback := p\<rparr>) = same_lease l l'"
  "same_lease l (touch ttl now l') = same_lease l l'"
  by (simp_all add: same_lease_def touch_def)

lemma keeps_microphone:
  "keeps_lease (\<lambda>l. if vl_phase l \<noteq> Capturing then (FrameRefused, l)
       else (let (ok, expected) = accept_capture_sequence (vl_next_capture l) sequence flags in
         if \<not> ok then (FrameRefused, l)
         else ((if vl_stt l
                then (case recognised of None \<Rightarrow> FrameFailed | Some es \<Rightarrow> FrameNext (HandleEvents es))
                else FrameNext (TellAdapter a)),
               touch CAPTURE_IDLE_TTL now (l\<lparr>vl_next_capture := expected\<rparr>))))"
  by (auto simp: keeps_lease_def case_prod_unfold Let_def lease_inv_touch lease_inv_fields)

lemma keeps_credit:
  "keeps_lease (\<lambda>l.
       if pc_lease c \<noteq> rt_lease r \<or> pc_turn c \<noteq> rt_turn r then (CreditRefused, l)
       else (case vl_playback l of
           None \<Rightarrow> (CreditRefused, l)
         | Some p \<Rightarrow>
             (let (res, p') = credit_playback (pc_stream c) (pc_credit_ms c) (pc_played c) p;
                  l1 = l\<lparr>vl_playback := Some p'\<rparr>
              in (res, if res = CreditApplied then touch PLAYBACK_PROGRESS_TTL now l1 else l1))))"
proof -
  have close: "pb_close_sent (snd (credit_playback st ms pl p)) = pb_close_sent p" for st ms pl p
    by (simp add: credit_playback_def grant_credit_def Let_def split: option.splits)
  have "lease_inv (l\<lparr>vl_playback := Some (snd (credit_playback st ms pl p))\<rparr>) accepted sent"
    if "lease_inv l accepted sent" "vl_playback l = Some p" for l accepted sent p st ms pl
    using that playback_inv_credit [of "\<lparr>ph_playback = p, ph_accepted = accepted, ph_sent = sent\<rparr>" st ms pl]
    by (simp add: lease_inv_def close)
  then show ?thesis
    by (auto simp: keeps_lease_def case_prod_unfold Let_def lease_inv_touch split: option.splits)
qed

lemma keeps_drained:
  "keeps_lease (\<lambda>l.
       if vl_phase l \<noteq> Draining then (False, l)
       else (case vl_playback l of
           None \<Rightarrow> (False, l)
         | Some p \<Rightarrow> (let (ok, p') = body_drained stream p in (ok, l\<lparr>vl_playback := Some p'\<rparr>))))"
proof -
  have "lease_inv (l\<lparr>vl_playback := Some (snd (body_drained stream p))\<rparr>) accepted sent"
    if "lease_inv l accepted sent" "vl_playback l = Some p" for l accepted sent p
    using that playback_inv_step [of "\<lparr>ph_playback = p, ph_accepted = accepted, ph_sent = sent\<rparr>" "Drained stream"]
    by (simp add: lease_inv_def body_drained_def split: if_splits)
  then show ?thesis by (auto simp: keeps_lease_def case_prod_unfold Let_def split: option.splits)
qed

lemma keeps_tts_end:
  "keeps_lease (\<lambda>l. case vl_playback l of
         None \<Rightarrow> (False, l) | Some p \<Rightarrow> (True, l\<lparr>vl_playback := Some (end_playback p)\<rparr>))"
proof -
  have "lease_inv (l\<lparr>vl_playback := Some (end_playback p)\<rparr>) accepted sent"
    if "lease_inv l accepted sent" "vl_playback l = Some p" for l accepted sent p
    using that playback_inv_step [of "\<lparr>ph_playback = p, ph_accepted = accepted, ph_sent = sent\<rparr>" TtsEnd]
    by (simp add: lease_inv_def end_playback_def)
  then show ?thesis by (auto simp: keeps_lease_def split: option.splits)
qed

lemma keeps_simple:
  "keeps_lease (\<lambda>l. (True, l\<lparr>vl_expiry_abort := Some task\<rparr>))"
  "keeps_lease (\<lambda>l. (True, l\<lparr>vl_turn_abort := Some task, vl_turn_finished := Some task\<rparr>))"
  "keeps_lease (\<lambda>l. (g l, l\<lparr>vl_generation_complete := True, vl_turn_abort := None\<rparr>))"
  "keeps_lease (\<lambda>l. if vl_deadline l \<le> now then (True, l\<lparr>vl_expiry_abort := None\<rparr>) else (False, l))"
  by (simp_all add: keeps_lease_def lease_inv_fields)


lemma lease_unchanged [simp]:
  "gw_lease (cancel_link t s) = gw_lease s" "gw_lease (snd (remove_adapter g s)) = gw_lease s"
  "gw_lease (invalidate_adapter g s) = gw_lease s" "gw_lease (invalidate_body device g s) = gw_lease s"
  "gw_lease (snd (register_body device token session now s)) = gw_lease s"
  "gw_lease (snd (revoke_body device s)) = gw_lease s" "gw_lease (snd (unregister_body device g s)) = gw_lease s"
  "gw_lease (snd (touch_body device g now s)) = gw_lease s" "gw_lease (snd (register_adapter token s)) = gw_lease s"
  "gw_lease (snd (classify_offer configured device g h now s)) = gw_lease s"
  "gw_lease (record_battery device g b s) = gw_lease s" "gw_lease (offer_not_delivered device g s) = gw_lease s"
  "gw_lease (record_update_state device g report now s) = gw_lease s"
  by (simp_all add: cancel_link_def remove_adapter_def invalidate_adapter_def invalidate_body_def register_body_def
      revoke_body_def unregister_body_def touch_body_def register_adapter_def classify_offer_def record_battery_def
      offer_not_delivered_def record_update_state_def Let_def case_prod_unfold split: option.splits)

lemma lease_unregister_adapter [simp]: "gw_lease (snd (unregister_adapter g s)) = gw_lease s"
  using lease_unchanged(2) [of g s] by (simp add: unregister_adapter_def Let_def case_prod_unfold split: option.splits)

abbreviation step_ok :: "voice_run \<Rightarrow> gateway \<Rightarrow> bool" where
  "step_ok v s' \<equiv> run_inv (v\<lparr>vr_gateway := s'\<rparr>) \<and> lease_moves (vr_gateway v) s'"

lemma step_ok_same: "run_inv v \<Longrightarrow> gw_lease s' = gw_lease (vr_gateway v) \<Longrightarrow> step_ok v s'"
  by (simp add: run_inv_same lease_moves_same)

lemma run_invD: "run_inv v \<Longrightarrow> gw_lease (vr_gateway v) = Some l \<Longrightarrow> lease_inv l (vr_accepted v) (vr_sent v)"
  by (simp add: run_inv_def)

lemma step_ok_set:
  "run_inv v \<Longrightarrow> gw_lease (vr_gateway v) = Some l \<Longrightarrow> gw_lease s' = Some l' \<Longrightarrow>
   lease_inv l' (vr_accepted v) (vr_sent v) \<and> same_lease l l' \<Longrightarrow> step_ok v s'"
  by (simp add: run_inv_def lease_moves_def)

lemma release_begins_ok: "run_inv v \<Longrightarrow> step_ok v (snd (begin_lease_release r (vr_gateway v)))"
proof (cases "gw_lease (vr_gateway v)")
  case None
  assume "run_inv v"
  then show ?thesis using None by (simp add: begin_lease_release_def step_ok_same)
next
  case (Some l)
  assume inv: "run_inv v"
  let ?l = "l\<lparr>vl_phase := Releasing, vl_expiry_abort := None, vl_turn_abort := None, vl_turn_finished := None\<rparr>"
  have "lease_inv ?l (vr_accepted v) (vr_sent v)" "same_lease l ?l"
    using run_invD [OF inv Some] by (cases "vl_playback l"; cases "vl_phase l"; simp add: lease_inv_def same_lease_def)+
  then show ?thesis using step_ok_set [OF inv Some, of _ ?l] step_ok_same [OF inv refl]
    by (auto simp: begin_lease_release_def Some)
qed

lemma release_finishes_ok: "run_inv v \<Longrightarrow> step_ok v (snd (finish_lease_release r (vr_gateway v)))"
  by (auto simp: finish_lease_release_def run_inv_def lease_moves_def split: option.splits)

lemma step_ok_cong: "step_ok v s' \<Longrightarrow> gw_lease s'' = gw_lease s' \<Longrightarrow> step_ok v s''"
  by (simp add: run_inv_def lease_moves_def)

lemma preempt_lease:
  "gw_lease (snd (preempt_for trigger s)) = gw_lease s \<or>
   (\<exists>r. gw_lease (snd (preempt_for trigger s)) = gw_lease (snd (begin_lease_release r s)))"
  by (auto simp: preempt_for_def case_prod_unfold Let_def split: option.splits)

lemma begin_release_lease:
  "gw_lease s = gw_lease s' \<Longrightarrow> gw_lease (snd (begin_lease_release r s)) = gw_lease (snd (begin_lease_release r s'))"
  by (auto simp: begin_lease_release_def split: option.splits)

lemma capture_asked_lease:
  "gw_lease (snd (acquire_begin device g request trigger stream viable s)) = gw_lease s \<or>
   (\<exists>r. gw_lease (snd (acquire_begin device g request trigger stream viable s)) = gw_lease (snd (begin_lease_release r s)))"
proof -
  let ?s = "s\<lparr>gw_bodies := hm_modify device (\<lambda>b. b\<lparr>bl_preempted := None\<rparr>) (gw_bodies s)\<rparr>"
  have "gw_lease (snd (begin_lease_release r ?s)) = gw_lease (snd (begin_lease_release r s))" for r
    by (rule begin_release_lease) simp
  then show ?thesis using preempt_lease [of trigger ?s]
    by (auto simp: acquire_begin_def Let_def split: option.splits)
qed

lemma capture_asked_ok: "run_inv v \<Longrightarrow> step_ok v (snd (acquire_begin device g request trigger stream viable (vr_gateway v)))"
  using capture_asked_lease [of device g request trigger stream viable "vr_gateway v"] step_ok_cong release_begins_ok
    step_ok_same by meson

lemma capture_opens_ok: "run_inv v \<Longrightarrow> step_ok v (snd (open_capture r now (vr_gateway v)))"
  using lease_inv_advance [OF _ no_playback_yet]
  by (auto simp: open_capture_def run_inv_def lease_moves_def split: option.splits)

lemma capture_closes_ok: "run_inv v \<Longrightarrow> step_ok v (snd (close_capture r finished now (vr_gateway v)))"
  using lease_inv_advance [OF _ no_playback_yet]
  by (auto simp: close_capture_def run_inv_def lease_moves_def split: option.splits)

lemma partial_heard_ok: "run_inv v \<Longrightarrow> step_ok v (snd (transcript_partial g lease_id now (vr_gateway v)))"
  by (auto simp: transcript_partial_def Let_def run_inv_def lease_moves_def lease_inv_touch split: option.splits)

lemma final_heard_ok: "run_inv v \<Longrightarrow> step_ok v (snd (transcript_final g lease_id t now (vr_gateway v)))"
  using lease_inv_advance [OF _ no_playback_yet]
  by (auto simp: transcript_final_def Let_def run_inv_def lease_moves_def classify_adapter_route_def
      split: option.splits prod.splits if_splits)


abbreviation moves_ok :: "voice_run \<Rightarrow> voice_run \<Rightarrow> bool" where
  "moves_ok v v' \<equiv> run_inv v' \<and> lease_moves (vr_gateway v) (vr_gateway v')"

lemma granted_ok:
  assumes "run_inv v"
  shows "moves_ok v (run_step (LeaseGranted device g request trigger stream engine admitted lease_id turn_id now) v)"
proof -
  have "gw_lease (vr_gateway v) = None \<or>
      acquire_grant device g request trigger stream engine admitted lease_id turn_id now (vr_gateway v) =
        (Inl ''another_endpoint_owns_voice_lease'', vr_gateway v)"
    by (simp add: acquire_grant_def)
  then show ?thesis using assms
    by (auto simp: acquire_grant_def Let_def run_inv_def lease_moves_def lease_inv_def LEASE_TTL_def LEASE_HARD_TTL_def
        split: option.splits)
qed

text \<open>The lease after a frame is queued: a fresh playback is opened first.\<close>

definition opened :: "32 word \<Rightarrow> nat \<Rightarrow> voice_lease \<Rightarrow> voice_lease" where
  "opened random now l =
     (let l1 = touch PLAYBACK_PROGRESS_TTL now l in
      if vl_playback l1 = None
      then advance Playing PLAYBACK_PROGRESS_TTL now (l1\<lparr>vl_playback := Some (new_playback random)\<rparr>) else l1)"

lemma opened_inv:
  assumes "lease_inv l accepted sent" "vl_phase l \<in> {Generating, Playing}"
  shows "lease_inv (opened random now l) accepted sent" "same_lease l (opened random now l)"
    "\<exists>p. vl_playback (opened random now l) = Some p \<and> vl_phase (opened random now l) = Playing"
proof -
  have new: "playback_inv \<lparr>ph_playback = new_playback random, ph_accepted = [], ph_sent = []\<rparr>"
    using playback_inv_new [of random] by (simp add: new_history_def)
  have drained: "\<not> pb_close_sent (new_playback random)" by (simp add: new_playback_def)
  show "lease_inv (opened random now l) accepted sent" "same_lease l (opened random now l)"
    "\<exists>p. vl_playback (opened random now l) = Some p \<and> vl_phase (opened random now l) = Playing"
    using assms new drained
    by (cases "vl_playback l"; auto simp: opened_def Let_def lease_inv_def touch_def advance_def same_lease_def)+
qed

lemma touch_playback: "vl_playback (touch ttl now l) = vl_playback l"
  by (simp add: touch_def)

lemma queue_body_pcm_eq:
  "queue_body_pcm r pcm random now s =
     (if length pcm \<noteq> SPEAKER_PCM_BYTES then (FrameInvalid, s)
      else on_lease r FrameIgnored (\<lambda>l.
        if vl_phase l \<notin> {Generating, Playing} then (FrameIgnored, l)
        else (case vl_playback (opened random now l) of
             None \<Rightarrow> (FrameIgnored, opened random now l)
           | Some p \<Rightarrow> (let (queued, p') = queue_frame pcm p
               in (if queued then FrameQueued (vl_playback l = None) else FrameOverflow,
                   (opened random now l)\<lparr>vl_playback := Some p'\<rparr>)))) s)"
  unfolding queue_body_pcm_def opened_def Let_def touch_playback by (rule refl)

lemma queued_ok: "run_inv v \<Longrightarrow> moves_ok v (run_step (SpeechFrame r pcm random now) v)"
proof -
  assume inv: "run_inv v"
  let ?f = "\<lambda>l. if vl_phase l \<notin> {Generating, Playing} then (FrameIgnored, l)
        else (case vl_playback (opened random now l) of
             None \<Rightarrow> (FrameIgnored, opened random now l)
           | Some p \<Rightarrow> (let (queued, p') = queue_frame pcm p
               in (if queued then FrameQueued (vl_playback l = None) else FrameOverflow,
                   (opened random now l)\<lparr>vl_playback := Some p'\<rparr>)))"
  show ?thesis
  proof (cases "length pcm \<noteq> SPEAKER_PCM_BYTES")
    case True
    then show ?thesis using inv by (simp add: queue_body_pcm_eq lease_moves_same)
  next
    case False
    show ?thesis
    proof (rule on_lease_cases [of r FrameIgnored ?f "vr_gateway v"])
      assume "on_lease r FrameIgnored ?f (vr_gateway v) = (FrameIgnored, vr_gateway v)"
      then show ?thesis using inv False by (simp add: queue_body_pcm_eq lease_moves_same)
    next
      fix l
      assume l: "gw_lease (vr_gateway v) = Some l"
        and eq: "on_lease r FrameIgnored ?f (vr_gateway v) = (fst (?f l), set_lease (snd (?f l)) (vr_gateway v))"
      have li: "lease_inv l (vr_accepted v) (vr_sent v)" by (rule run_invD [OF inv l])
      show ?thesis
      proof (cases "vl_phase l \<in> {Generating, Playing}")
        case off: False
        then show ?thesis using inv False eq l li
          by (simp add: queue_body_pcm_eq lease_moves_def run_inv_def)
      next
        case on: True
        note o = opened_inv [OF li on, of random now]
        obtain p where p: "vl_playback (opened random now l) = Some p" "vl_phase (opened random now l) = Playing"
          using o(3) by blast
        have "\<not> pb_close_sent p" "playback_inv \<lparr>ph_playback = p, ph_accepted = vr_accepted v, ph_sent = vr_sent v\<rparr>"
          using o(1) p by (auto simp: lease_inv_def)
        then have q: "playback_inv (playback_step (Frame pcm) \<lparr>ph_playback = p, ph_accepted = vr_accepted v, ph_sent = vr_sent v\<rparr>)"
            "\<not> pb_close_sent (snd (queue_frame pcm p))"
          using playback_inv_step [of "\<lparr>ph_playback = p, ph_accepted = vr_accepted v, ph_sent = vr_sent v\<rparr>" "Frame pcm"]
          by (auto simp: queue_frame_def)
        have "lease_inv ((opened random now l)\<lparr>vl_playback := Some (snd (queue_frame pcm p))\<rparr>)
            (vr_accepted v @ (if fst (queue_frame pcm p) then [pcm] else [])) (vr_sent v)"
          using o(1) p q by (simp add: lease_inv_def case_prod_unfold Let_def)
        then show ?thesis using False eq l on p o(2)
          by (cases "queue_frame pcm p") (auto simp: queue_body_pcm_eq lease_moves_def run_inv_def Let_def)
      qed
    qed
  qed
qed

lemma flush_close:
  assumes "playback_inv h" and "flush (ph_playback h) = (frames, close, p')"
  shows "pb_close_sent p' = (close \<or> pb_close_sent (ph_playback h))"
proof -
  obtain fs q where f: "flush_frames (ph_playback h) = (fs, q)" by (cases "flush_frames (ph_playback h)")
  with flush_frames_inv [OF assms(1) f] assms(2) show ?thesis by (auto simp: flush_def Let_def split: if_splits)
qed

lemma flushed_ok: "run_inv v \<Longrightarrow> moves_ok v (run_step (PlaybackFlushed r now) v)"
proof -
  assume inv: "run_inv v"
  let ?f = "\<lambda>l. case vl_playback l of
          None \<Rightarrow> (FlushNothing, l)
        | Some p \<Rightarrow>
            (let (frames, close, p') = flush p; l1 = l\<lparr>vl_playback := Some p'\<rparr>
             in (FlushFrames frames close (pb_stream p),
                 if close then advance Draining PLAYBACK_PROGRESS_TTL now l1 else l1))"
  have same: ?thesis if "flush_playback r now (vr_gateway v) \<in> {(FlushNoBody, vr_gateway v), (FlushNothing, vr_gateway v)}"
    using that inv by (auto simp: lease_moves_same)
  show ?thesis
  proof (cases "has_body (rt_device r) (rt_generation r) (vr_gateway v)")
    case False
    then show ?thesis by (intro same) (simp add: flush_playback_def)
  next
    case True
    show ?thesis
    proof (rule on_lease_cases [of r FlushNothing ?f "vr_gateway v"])
      assume "on_lease r FlushNothing ?f (vr_gateway v) = (FlushNothing, vr_gateway v)"
      then show ?thesis using True by (intro same) (simp add: flush_playback_def)
    next
      fix l
      assume l: "gw_lease (vr_gateway v) = Some l" "lease_is_routable l r"
        and eq: "on_lease r FlushNothing ?f (vr_gateway v) = (fst (?f l), set_lease (snd (?f l)) (vr_gateway v))"
      have li: "lease_inv l (vr_accepted v) (vr_sent v)" by (rule run_invD [OF inv l(1)])
      show ?thesis
      proof (cases "vl_playback l")
        case None
        then show ?thesis using True eq l li by (simp add: flush_playback_def lease_moves_def run_inv_def)
      next
        case (Some p)
        let ?h = "\<lparr>ph_playback = p, ph_accepted = vr_accepted v, ph_sent = vr_sent v\<rparr>"
        obtain frames close p' where f: "flush p = (frames, close, p')" by (cases "flush p")
        have h: "playback_inv ?h" "vl_phase l \<in> {Playing, Draining}" "pb_close_sent p \<Longrightarrow> vl_phase l \<noteq> Playing"
          using li Some l(2) by (auto simp: lease_inv_def lease_is_routable_def)
        from playback_inv_flush [OF h(1)]
        have i: "playback_inv \<lparr>ph_playback = p', ph_accepted = vr_accepted v, ph_sent = vr_sent v @ frames\<rparr>"
          by (simp add: f)
        have "pb_close_sent p' = (close \<or> pb_close_sent p)"
          using flush_close [OF h(1)] f by simp
        then have "lease_inv (snd (?f l)) (vr_accepted v) (vr_sent v @ frames)" "same_lease l (snd (?f l))"
          using li i h(2,3) by (cases close; auto simp: Some f lease_inv_def advance_def same_lease_def Let_def)+
        moreover have "fst (?f l) = FlushFrames frames close (pb_stream p)" by (simp add: Some f Let_def)
        ultimately show ?thesis using True eq l(1)
          by (simp add: flush_playback_def lease_moves_def run_inv_def del: split_paired_All)
      qed
    qed
  qed
qed


lemma run_step_ok: "run_inv v \<Longrightarrow> moves_ok v (run_step e v)"
proof (cases e)
  case (LeaseGranted device g request trigger stream engine admitted lease_id turn_id now)
  assume "run_inv v"
  then show ?thesis unfolding LeaseGranted by (rule granted_ok)
next
  case (SpeechFrame r pcm random now)
  assume "run_inv v"
  then show ?thesis unfolding SpeechFrame by (rule queued_ok)
next
  case (PlaybackFlushed r now)
  assume "run_inv v"
  then show ?thesis unfolding PlaybackFlushed by (rule flushed_ok)
next
  case (CaptureAsked device g request trigger stream viable)
  assume "run_inv v"
  then show ?thesis using capture_asked_ok CaptureAsked by simp
next
  case (ReleaseBegins r)
  assume "run_inv v"
  then show ?thesis using release_begins_ok ReleaseBegins by simp
next
  case (ReleaseFinishes r)
  assume "run_inv v"
  then show ?thesis using release_finishes_ok ReleaseFinishes by simp
next
  case (CaptureOpens r now)
  assume "run_inv v"
  then show ?thesis using capture_opens_ok CaptureOpens by simp
next
  case (CaptureCloses r finished now)
  assume "run_inv v"
  then show ?thesis using capture_closes_ok CaptureCloses by simp
next
  case (PartialHeard g lease_id now)
  assume "run_inv v"
  then show ?thesis using partial_heard_ok PartialHeard by simp
next
  case (FinalHeard g lease_id t now)
  assume "run_inv v"
  then show ?thesis using final_heard_ok FinalHeard by simp
next
  case (MicrophoneFrame r sequence flags recognised now)
  assume "run_inv v"
  then show ?thesis using on_lease_keeps [OF keeps_microphone] MicrophoneFrame by (simp add: forward_microphone_def)
next
  case (CreditReported r c now)
  assume "run_inv v"
  then show ?thesis using on_lease_keeps [OF keeps_credit] CreditReported by (simp add: apply_playback_credit_def)
next
  case (BodyPlayedAll r stream)
  assume "run_inv v"
  then show ?thesis using on_lease_keeps [OF keeps_drained] BodyPlayedAll by (simp add: playback_drained_def)
next
  case (SpeechEnds r)
  assume "run_inv v"
  then show ?thesis using on_lease_keeps [OF keeps_tts_end] SpeechEnds by (simp add: mark_tts_end_def)
next
  case (ExpiryAttached r task)
  assume "run_inv v"
  then show ?thesis using on_lease_keeps [OF keeps_simple(1)] ExpiryAttached by (simp add: attach_expiry_abort_def)
next
  case (TurnAttached r task)
  assume "run_inv v"
  then show ?thesis using on_lease_keeps [OF keeps_simple(2)] TurnAttached by (simp add: attach_turn_def)
next
  case (TurnFinishes r)
  assume "run_inv v"
  then show ?thesis using on_lease_keeps [OF keeps_simple(3)] TurnFinishes by (simp add: turn_task_finished_def)
next
  case (ExpiryChecked r now)
  assume "run_inv v"
  then show ?thesis using on_lease_keeps [OF keeps_simple(4)] ExpiryChecked by (simp add: expire_lease_def)
qed (simp_all add: run_inv_same lease_moves_same)

interpretation voice_system: step_system voice_init voice_step run_inv
proof
  show "run_inv s" if "voice_init s" for s using that by (simp add: voice_init_def run_inv_def new_gateway_def)
  show "run_inv t" if "run_inv s" "voice_step s t" for s t
    using that(2,1) by (cases rule: voice_step.cases) (auto dest: run_step_ok)
qed

text \<open>C21: The voice changes hands only through a release: a lease, once granted, stays the one lease with
  its route, request and hard deadline, moves only forward through its phases, and ends only from the
  phase of its release, so that no second body is given the voice before the last messages of the
  first are out.\<close>

theorem voice_changes_hands_only_after_release:
  assumes "reach voice_init voice_step v" and "voice_step v v'" and "gw_lease (vr_gateway v) = Some l"
  shows "case gw_lease (vr_gateway v') of
      None \<Rightarrow> vl_phase l = Releasing
    | Some l' \<Rightarrow> vl_route l' = vl_route l \<and> vl_request l' = vl_request l \<and>
        vl_hard_deadline l' = vl_hard_deadline l \<and> phase_rank (vl_phase l) \<le> phase_rank (vl_phase l')"
proof -
  have "run_inv v" by (rule voice_system.reachable_inv [OF assms(1)])
  from assms(2) have "lease_moves (vr_gateway v) (vr_gateway v')"
    using run_step_ok [OF \<open>run_inv v\<close>] by (auto elim: voice_step.cases)
  then show ?thesis using assms(3) by (auto simp: lease_moves_def same_lease_def split: option.splits)
qed

lemma every_lease_is_released_by_its_hard_deadline_parts:
  assumes "reach voice_init voice_step v" and l: "gw_lease (vr_gateway v) = Some l" "vl_phase l \<noteq> Releasing"
    and "vl_hard_deadline l \<le> now"
  shows "fst (expire_lease (vl_route l) now (vr_gateway v))"
    and "gw_lease (release_route (vl_route l) adapter_told body_told (snd (expire_lease (vl_route l) now (vr_gateway v)))) = None"
proof -
  have "vl_deadline l \<le> now"
    using voice_system.reachable_inv [OF assms(1)] l assms(4) by (auto simp: run_inv_def lease_inv_def)
  then have e: "expire_lease (vl_route l) now (vr_gateway v) =
      (True, set_lease (l\<lparr>vl_expiry_abort := None\<rparr>) (vr_gateway v))"
    using l by (simp add: expire_lease_def on_lease_def lease_is_routable_def)
  then show "fst (expire_lease (vl_route l) now (vr_gateway v))" by simp
  show "gw_lease (release_route (vl_route l) adapter_told body_told (snd (expire_lease (vl_route l) now (vr_gateway v)))) = None"
    unfolding e using l
    by (auto simp: release_route_def begin_lease_release_def finish_release_def finish_lease_release_def Let_def
        split: option.splits)
qed

text \<open>C22: No lease outlives its hard deadline of ten minutes: at any later moment the watch of the lease
  finds it expired, whatever progress kept extending it, and the release it begins ends with no lease
  once the turn has stopped, whether or not the body and the adapter can still be told.\<close>

theorem every_lease_is_released_by_its_hard_deadline:
  assumes "reach voice_init voice_step v" and l: "gw_lease (vr_gateway v) = Some l" "vl_phase l \<noteq> Releasing"
    and "vl_hard_deadline l \<le> now"
  shows "(fst (expire_lease (vl_route l) now (vr_gateway v))) \<and>
    (gw_lease (release_route (vl_route l) adapter_told body_told (snd (expire_lease (vl_route l) now (vr_gateway v)))) = None)"
  by (intro conjI impI every_lease_is_released_by_its_hard_deadline_parts [OF assms])

lemma drained_lease_delivered_everything_parts:
  assumes "reach voice_init voice_step v" and "release_if_drained r (vr_gateway v)"
  shows "map snd (vr_sent v) = vr_accepted v"
    and "\<exists>l p. gw_lease (vr_gateway v) = Some l \<and> vl_route l = r \<and> vl_playback l = Some p \<and>
       pb_close_sent p \<and> pb_drained p \<and> vl_generation_complete l"
proof -
  obtain l p where l: "gw_lease (vr_gateway v) = Some l" "vl_route l = r" "vl_playback l = Some p"
      "fully_played p" "vl_generation_complete l"
    using assms(2) by (auto simp: release_if_drained_def lease_is_routable_def split: option.splits)
  have "lease_inv l (vr_accepted v) (vr_sent v)"
    by (rule run_invD [OF voice_system.reachable_inv [OF assms(1)] l(1)])
  then have "playback_inv \<lparr>ph_playback = p, ph_accepted = vr_accepted v, ph_sent = vr_sent v\<rparr>"
    by (simp add: lease_inv_def l(3))
  from playback_invD(1) [OF this] l(4) show "map snd (vr_sent v) = vr_accepted v"
    by (simp add: fully_played_def)
  show "\<exists>l p. gw_lease (vr_gateway v) = Some l \<and> vl_route l = r \<and> vl_playback l = Some p \<and>
       pb_close_sent p \<and> pb_drained p \<and> vl_generation_complete l"
    using l by (auto simp: fully_played_def)
qed

text \<open>A reply counts as delivered only when all of it was: when the lease is found drained, every frame
  of speech that was accepted for it has been sent to the body in its order, and the body has
  confirmed the end of the stream after the daemon announced it.\<close>

theorem drained_lease_delivered_everything:
  assumes "reach voice_init voice_step v" and "release_if_drained r (vr_gateway v)"
  shows "(map snd (vr_sent v) = vr_accepted v) \<and>
    (\<exists>l p. gw_lease (vr_gateway v) = Some l \<and> vl_route l = r \<and> vl_playback l = Some p \<and>
       pb_close_sent p \<and> pb_drained p \<and> vl_generation_complete l)"
  by (intro conjI impI drained_lease_delivered_everything_parts [OF assms])


subsection \<open>A spoken exchange\<close>

definition voice_start :: voice_run where
  "voice_start = \<lparr>vr_gateway = new_gateway, vr_accepted = [], vr_sent = []\<rparr>"

lemma runs_reach: "reach voice_init voice_step (fold run_step es voice_start)"
proof (induction es rule: rev_induct)
  case Nil
  then show ?case by (simp add: reach_init voice_init_def voice_start_def)
next
  case (snoc e es)
  then show ?case by (simp add: reach_step voice_step.intros)
qed

definition silence :: pcm where
  "silence = replicate SPEAKER_PCM_BYTES 0"

definition sample_route :: route where
  "sample_route = \<lparr>rt_device = [98], rt_generation = 1, rt_session = 5, rt_lease = 7, rt_turn = [116], rt_stream = 3\<rparr>"

definition granting :: "gateway_event list" where
  "granting = [BodyRegisters [98] 0 5 0, LeaseGranted [98] 1 [114] [] 3 (Some True) True 7 [116] 100]"

definition speaking :: "gateway_event list" where
  "speaking = [CaptureOpens sample_route 200, CaptureCloses sample_route (Some []) 300,
     FinalHeard 1 7 [104] 400, SpeechFrame sample_route silence 9 500,
     CreditReported sample_route \<lparr>pc_lease = 7, pc_turn = [116], pc_stream = 9, pc_credit_ms = 300, pc_played = None\<rparr> 600,
     SpeechEnds sample_route, PlaybackFlushed sample_route 700, BodyPlayedAll sample_route 9, TurnFinishes sample_route]"

definition granted_lease :: voice_lease where
  "granted_lease = \<lparr>vl_route = sample_route, vl_request = [114], vl_trigger = [], vl_phase = Granted,
     vl_deadline = 120100, vl_hard_deadline = 600100, vl_admission = True, vl_expiry_abort = None, vl_turn_abort = None,
     vl_turn_finished = None, vl_generation_complete = False, vl_stt = True, vl_next_capture = None, vl_playback = None\<rparr>"

lemma granting_run:
  "fold run_step granting voice_start = \<lparr>vr_gateway = new_gateway\<lparr>gw_next_generation := 2,
      gw_bodies := [([98], \<lparr>bl_generation = 1, bl_session = 5, bl_disconnect = 0, bl_last_seen = 0, bl_preempted = None\<rparr>)],
      gw_lease := Some granted_lease\<rparr>, vr_accepted = [], vr_sent = []\<rparr>"
  by (simp add: granting_def voice_start_def register_body_def new_gateway_def acquire_grant_def cancel_link_def
      Let_def granted_lease_def sample_route_def LEASE_TTL_def LEASE_HARD_TTL_def)

theorem voice_changes_hands_only_after_release_witness:
  "case gw_lease (vr_gateway (run_step (ReleaseBegins sample_route) (fold run_step granting voice_start))) of
     None \<Rightarrow> False | Some l' \<Rightarrow> vl_route l' = sample_route"
proof -
  let ?v = "fold run_step granting voice_start"
  have l: "gw_lease (vr_gateway ?v) = Some granted_lease" by (simp add: granting_run)
  have r: "vl_route granted_lease = sample_route" "vl_phase granted_lease = Granted" by (simp_all add: granted_lease_def)
  show ?thesis
    using voice_changes_hands_only_after_release [OF runs_reach voice_step.intros l, of "ReleaseBegins sample_route"]
    by (auto simp: r split: option.splits)
qed

theorem every_lease_is_released_by_its_hard_deadline_witness:
  "gw_lease (release_route sample_route False False
     (snd (expire_lease sample_route 700000 (vr_gateway (fold run_step granting voice_start))))) = None"
proof -
  have l: "gw_lease (vr_gateway (fold run_step granting voice_start)) = Some granted_lease" by (simp add: granting_run)
  have p: "vl_phase granted_lease \<noteq> Releasing" "vl_hard_deadline granted_lease \<le> 700000" "vl_route granted_lease = sample_route"
    by (simp_all add: granted_lease_def)
  show ?thesis using every_lease_is_released_by_its_hard_deadline [OF runs_reach l p(1,2), of False False]
    by (simp only: p(3))
qed

lemma spoken:
  "release_if_drained sample_route (vr_gateway (fold run_step speaking (fold run_step granting voice_start)))"
  "vr_accepted (fold run_step speaking (fold run_step granting voice_start)) = [silence]"
proof -
  have len: "length silence = SPEAKER_PCM_BYTES" by (simp add: silence_def)
  let ?v = "fold run_step speaking (fold run_step granting voice_start)"
  have "release_if_drained sample_route (vr_gateway ?v) \<and> vr_accepted ?v = [silence]"
    unfolding granting_run
    by (simp add: speaking_def new_gateway_def granted_lease_def open_capture_def close_capture_def transcript_final_def
        lease_is_routable_def advance_def touch_def classify_adapter_route_def Let_def sample_route_def
        queue_body_pcm_def on_lease_def len new_playback_def queue_frame_def apply_playback_credit_def credit_playback_def
        grant_credit_def mark_tts_end_def end_playback_def flush_playback_def has_body_def flush_def flush_frames.simps
        playback_drained_def body_drained_def turn_task_finished_def release_if_drained_def fully_played_def
        MAX_PLAYBACK_CREDIT_MS_def MAX_PLAYBACK_CREDIT_FRAMES_def AUDIO_FRAME_DURATION_MS_def
        MAX_PENDING_PLAYBACK_FRAMES_def trim_def trim_start_def trim_end_def is_whitespace_def)
  then show "release_if_drained sample_route (vr_gateway ?v)" "vr_accepted ?v = [silence]" by simp_all
qed

theorem drained_lease_delivered_everything_witness:
  "map snd (vr_sent (fold run_step speaking (fold run_step granting voice_start))) = [silence]"
  using drained_lease_delivered_everything [of "fold run_step speaking (fold run_step granting voice_start)" sample_route]
    spoken runs_reach [of "granting @ speaking"] by simp

end
