(* ===== verification/Body_Protocol.thy ===== *)
theory Body_Protocol
  imports BoBe_Prelude BoBe_Text Playback
begin

unbundle bit_operations_syntax

text \<open>
  The wire protocol of bodies and speech adapters: \<open>src/BoBeService/src/body/protocol.rs\<close> (the binary
  media headers, the version negotiation), \<open>capabilities.rs\<close> (what a body claims and what it was
  approved for) and the hello checks of \<open>handlers.rs\<close>. The JSON decoding of the messages by serde is
  left out: a decoded message is a record.
\<close>

section \<open>Big-endian integers\<close>

text \<open>\<open>to_be_bytes\<close> of an integer of \<open>n\<close> bytes, and \<open>from_be_bytes\<close>.\<close>

definition be_bytes :: "nat \<Rightarrow> 'a::len word \<Rightarrow> byte list" where
  "be_bytes n w = rev (map (\<lambda>i. ucast (drop_bit (8 * i) w)) [0..<n])"

definition from_be_bytes :: "byte list \<Rightarrow> 'a::len word" where
  "from_be_bytes bs = foldl (\<lambda>a b. push_bit 8 a OR ucast b) 0 bs"

lemma length_be_bytes [simp]: "length (be_bytes n w) = n"
  by (simp add: be_bytes_def)

lemma push_next_byte:
  "push_bit (8 * n) (push_bit 8 a OR ucast (ucast (drop_bit (8 * n) w) :: byte)) OR take_bit (8 * n) w =
     push_bit (8 * Suc n) a OR take_bit (8 * Suc n) (w :: 'a::len word)"
  by (rule bit_word_eqI) (auto simp: bit_simps add.commute)

lemma foldl_be_bytes:
  "foldl (\<lambda>a b. push_bit 8 a OR ucast b) a (be_bytes n w) = push_bit (8 * n) a OR take_bit (8 * n) (w :: 'a::len word)"
proof (induction n arbitrary: a)
  case 0
  show ?case by (simp add: be_bytes_def)
next
  case (Suc n)
  show ?case using Suc.IH [of "push_bit 8 a OR ucast (ucast (drop_bit (8 * n) w) :: byte)"] push_next_byte [of n a w]
    by (simp add: be_bytes_def)
qed

lemma from_be_be_bytes: "LENGTH('a::len) \<le> 8 * n \<Longrightarrow> from_be_bytes (be_bytes n (w :: 'a word)) = w"
  by (simp add: from_be_bytes_def foldl_be_bytes take_bit_word_eq_self)

section \<open>Media frames\<close>

definition PROTOCOL_MAJOR :: byte where "PROTOCOL_MAJOR = 1"
definition MIN_SUPPORTED_PROTOCOL_MINOR :: byte where "MIN_SUPPORTED_PROTOCOL_MINOR = 1"
definition PROTOCOL_MINOR :: byte where "PROTOCOL_MINOR = 2"
definition ADAPTER_PROTOCOL_MINOR :: byte where "ADAPTER_PROTOCOL_MINOR = 1"
definition MAX_CONTROL_BYTES :: nat where "MAX_CONTROL_BYTES = 4096"
definition MEDIA_HEADER_LEN :: nat where "MEDIA_HEADER_LEN = 20"
definition ADAPTER_MEDIA_HEADER_LEN :: nat where "ADAPTER_MEDIA_HEADER_LEN = 40"
definition MIC_PCM_BYTES :: nat where "MIC_PCM_BYTES = 640"
definition FLAG_DISCONTINUITY :: "16 word" where "FLAG_DISCONTINUITY = 1"

record media_header =
  mh_kind :: byte
  mh_flags :: "16 word"
  mh_stream :: "32 word"
  mh_sequence :: "32 word"
  mh_monotonic_us :: "64 word"

definition byte_range :: "nat \<Rightarrow> nat \<Rightarrow> 'a list \<Rightarrow> 'a list" where
  "byte_range a b xs = take (b - a) (drop a xs)"

definition parse_media_header :: "byte list \<Rightarrow> media_header option" where
  "parse_media_header frame =
     (if length frame < MEDIA_HEADER_LEN then None
      else if frame ! 0 \<noteq> PROTOCOL_MAJOR then None
      else (let kind = frame ! 1;
                flags = from_be_bytes (byte_range 2 4 frame) :: 16 word;
                stream = from_be_bytes (byte_range 4 8 frame) :: 32 word;
                sequence = from_be_bytes (byte_range 8 12 frame) :: 32 word;
                monotonic_us = from_be_bytes (byte_range 12 20 frame) :: 64 word
            in if (kind \<noteq> 1 \<and> kind \<noteq> 2) \<or> flags AND NOT FLAG_DISCONTINUITY \<noteq> 0 \<or> stream = 0 then None
               else Some \<lparr>mh_kind = kind, mh_flags = flags, mh_stream = stream, mh_sequence = sequence,
                      mh_monotonic_us = monotonic_us\<rparr>))"

definition validate_microphone_frame :: "byte list \<Rightarrow> media_header option" where
  "validate_microphone_frame frame =
     (case parse_media_header frame of
        None \<Rightarrow> None
      | Some h \<Rightarrow> if mh_kind h = 1 \<and> length frame = MEDIA_HEADER_LEN + MIC_PCM_BYTES then Some h else None)"

definition encode_speaker_frame :: "32 word \<Rightarrow> 32 word \<Rightarrow> 64 word \<Rightarrow> byte list \<Rightarrow> byte list option" where
  "encode_speaker_frame stream sequence monotonic_us pcm =
     (if stream = 0 \<or> length pcm \<noteq> SPEAKER_PCM_BYTES then None
      else Some ([PROTOCOL_MAJOR, 2] @ be_bytes 2 (0 :: 16 word) @ be_bytes 4 stream @ be_bytes 4 sequence @
             be_bytes 8 monotonic_us @ pcm))"

record adapter_media_header =
  ah_generation :: "64 word"
  ah_lease :: uuid
  ah_stream :: "32 word"
  ah_sequence :: "32 word"

definition encode_adapter_frame :: "adapter_media_header \<Rightarrow> byte list \<Rightarrow> byte list" where
  "encode_adapter_frame h payload =
     [PROTOCOL_MAJOR, 1] @ be_bytes 2 (0 :: 16 word) @ be_bytes 8 (ah_generation h) @ be_bytes 16 (ah_lease h) @
     be_bytes 4 (ah_stream h) @ be_bytes 4 (ah_sequence h) @ be_bytes 4 (0 :: 32 word) @ payload"

lemma byte_range_at: "length xs = a \<Longrightarrow> length ys = b - a \<Longrightarrow> byte_range a b (xs @ ys @ zs) = ys"
  by (simp add: byte_range_def)

lemma speaker_frame_reads_back_parts:
  assumes "encode_speaker_frame stream sequence monotonic_us pcm = Some frame"
  shows "parse_media_header frame = Some \<lparr>mh_kind = 2, mh_flags = 0, mh_stream = stream, mh_sequence = sequence,
       mh_monotonic_us = monotonic_us\<rparr>"
    and "drop MEDIA_HEADER_LEN frame = pcm" and "length frame = 980"
    and "validate_microphone_frame frame = None"
proof -
  let ?z = "be_bytes 2 (0 :: 16 word)" and ?st = "be_bytes 4 stream" and ?sq = "be_bytes 4 sequence"
    and ?us = "be_bytes 8 monotonic_us"
  have f: "frame = [1, 2] @ ?z @ ?st @ ?sq @ ?us @ pcm" and ok: "stream \<noteq> 0" "length pcm = 960"
    using assms by (auto simp: encode_speaker_frame_def PROTOCOL_MAJOR_def SPEAKER_PCM_BYTES_def split: if_splits)
  have s: "byte_range 2 4 frame = ?z" "byte_range 4 8 frame = ?st" "byte_range 8 12 frame = ?sq" "byte_range 12 20 frame = ?us"
    using byte_range_at [of "[1, 2]" 2 ?z 4] byte_range_at [of "[1, 2] @ ?z" 4 ?st 8]
      byte_range_at [of "[1, 2] @ ?z @ ?st" 8 ?sq 12] byte_range_at [of "[1, 2] @ ?z @ ?st @ ?sq" 12 ?us 20]
    by (simp_all add: f)
  show len: "length frame = 980" using ok by (simp add: f)
  show "drop MEDIA_HEADER_LEN frame = pcm" by (simp add: f MEDIA_HEADER_LEN_def)
  have "frame ! 0 = 1" "frame ! 1 = 2" by (simp_all add: f)
  then show p: "parse_media_header frame = Some \<lparr>mh_kind = 2, mh_flags = 0, mh_stream = stream, mh_sequence = sequence,
       mh_monotonic_us = monotonic_us\<rparr>"
    using len ok unfolding parse_media_header_def Let_def s
    by (simp add: from_be_be_bytes PROTOCOL_MAJOR_def MEDIA_HEADER_LEN_def)
  then show "validate_microphone_frame frame = None" by (simp add: validate_microphone_frame_def)
qed

text \<open>A speech frame reads back: the body's header parser, the same as the daemon's, gets from an
  encoded frame exactly the stream, the sequence number and the time it was encoded with and no flag,
  the rest of the frame is the sound, and the frame cannot be taken for one of a microphone.\<close>

theorem speaker_frame_reads_back:
  assumes "encode_speaker_frame stream sequence monotonic_us pcm = Some frame"
  shows "(parse_media_header frame = Some \<lparr>mh_kind = 2, mh_flags = 0, mh_stream = stream, mh_sequence = sequence,
       mh_monotonic_us = monotonic_us\<rparr>) \<and>
    (drop MEDIA_HEADER_LEN frame = pcm) \<and>
    (length frame = 980) \<and>
    (validate_microphone_frame frame = None)"
  by (intro conjI impI speaker_frame_reads_back_parts [OF assms])

theorem speaker_frame_reads_back_witness:
  "map_option mh_sequence (parse_media_header
     (the (encode_speaker_frame 9 300 5 (replicate SPEAKER_PCM_BYTES 0)))) = Some 300"
proof -
  obtain frame where f: "encode_speaker_frame 9 300 5 (replicate SPEAKER_PCM_BYTES 0) = Some frame"
    by (simp add: encode_speaker_frame_def)
  then show ?thesis using speaker_frame_reads_back [OF f] by simp
qed

text \<open>An accepted microphone frame has one fixed length and a stream.\<close>

lemma microphone_frame_bounds:
  "validate_microphone_frame frame = Some h \<Longrightarrow> length frame = 660 \<and> mh_stream h \<noteq> 0 \<and> mh_kind h = 1"
  by (auto simp: validate_microphone_frame_def parse_media_header_def MEDIA_HEADER_LEN_def MIC_PCM_BYTES_def Let_def
      split: option.splits if_splits)

lemma adapter_frame_length: "length (encode_adapter_frame h payload) = ADAPTER_MEDIA_HEADER_LEN + length payload"
  by (simp add: encode_adapter_frame_def ADAPTER_MEDIA_HEADER_LEN_def)

section \<open>Capabilities\<close>

record text_display =
  td_columns :: nat
  td_rows :: nat

record body_display =
  bd_width :: nat
  bd_height :: nat
  bd_face_schema :: nat

record body_capabilities =
  cap_microphone :: bool
  cap_speaker :: bool
  cap_battery :: bool
  cap_aec :: bool
  cap_wake_word :: bool
  cap_text_input :: bool
  cap_text_output :: bool
  cap_actions :: bool
  cap_sensors :: bool
  cap_display :: "body_display option"
  cap_text_display :: "text_display option"

record body_limits =
  lim_max_control_bytes :: nat
  lim_max_playback_credit_ms :: nat

definition approved_flag :: "string \<Rightarrow> json \<Rightarrow> bool" where
  "approved_flag name approved =
     (case approved of JObj members \<Rightarrow> map_of members name = Some (JBool True) | _ \<Rightarrow> False)"

definition authorized_by :: "byte \<Rightarrow> json \<Rightarrow> body_capabilities \<Rightarrow> bool" where
  "authorized_by minor approved c =
     (if minor < 2 \<and> approved = JObj [] then True
      else (\<forall>(name, requested) \<in> set [(''microphone'', cap_microphone c), (''speaker'', cap_speaker c),
              (''text_input'', cap_text_input c), (''text_output'', cap_text_output c),
              (''actions'', cap_actions c), (''sensors'', cap_sensors c)].
            requested \<longrightarrow> approved_flag name approved))"

definition validates_audio_turn :: "body_limits \<Rightarrow> body_capabilities \<Rightarrow> bool" where
  "validates_audio_turn lim c \<longleftrightarrow> cap_microphone c \<and> cap_speaker c \<and> lim_max_control_bytes lim \<ge> 1024 \<and>
     lim_max_playback_credit_ms lim \<ge> AUDIO_FRAME_DURATION_MS"

definition validates_registration :: "byte \<Rightarrow> body_limits \<Rightarrow> body_capabilities \<Rightarrow> bool" where
  "validates_registration minor lim c =
     (if lim_max_control_bytes lim < 1024 \<or> lim_max_control_bytes lim > MAX_CONTROL_BYTES
         \<or> lim_max_playback_credit_ms lim > MAX_PLAYBACK_CREDIT_MS
         \<or> ((cap_aec c \<or> cap_wake_word c) \<and> \<not> cap_microphone c)
         \<or> (cap_speaker c \<and> lim_max_playback_credit_ms lim < 20)
         \<or> (case cap_display c of None \<Rightarrow> False
             | Some d \<Rightarrow> bd_width d = 0 \<or> bd_height d = 0 \<or> bd_width d > 4096 \<or> bd_height d > 4096 \<or> bd_face_schema d \<noteq> 1)
         \<or> (case cap_text_display c of None \<Rightarrow> False
             | Some d \<Rightarrow> \<not> cap_text_output c \<or> \<not> (1 \<le> td_columns d \<and> td_columns d \<le> 240)
                 \<or> \<not> (1 \<le> td_rows d \<and> td_rows d \<le> 240))
      then False
      else if minor < 2
      then \<not> cap_text_input c \<and> \<not> cap_text_output c \<and> \<not> cap_actions c \<and> \<not> cap_sensors c \<and>
           cap_text_display c = None \<and> validates_audio_turn lim c
      else validates_audio_turn lim c \<or> cap_text_input c \<or> cap_text_output c \<or> cap_actions c \<or> cap_sensors c)"

section \<open>Hello\<close>

record body_hello =
  bh_major :: byte
  bh_minor :: byte
  bh_device :: rtext
  bh_boot :: rtext
  bh_firmware :: rtext
  bh_hardware :: rtext
  bh_capabilities :: body_capabilities
  bh_limits :: body_limits

definition negotiate_protocol_minor :: "body_hello \<Rightarrow> byte option" where
  "negotiate_protocol_minor h =
     (if bh_major h = PROTOCOL_MAJOR \<and> MIN_SUPPORTED_PROTOCOL_MINOR \<le> bh_minor h \<and> bh_minor h \<le> PROTOCOL_MINOR
      then Some (bh_minor h) else None)"

definition valid_hello :: "body_hello \<Rightarrow> bool" where
  "valid_hello h \<longleftrightarrow> bh_device h \<noteq> [] \<and> str_len (bh_device h) \<le> 64 \<and> str_len (bh_boot h) = 32 \<and>
     str_len (bh_firmware h) \<le> 64 \<and> str_len (bh_hardware h) \<le> 64"

text \<open>The checks of \<open>handle_body\<close> between the hello and the registration. \<open>endpoint_of\<close> is the active
  endpoint the device names, with its kind, certificate digest, protocol range and approved
  capabilities; the peer is known by its certificate.\<close>

record body_endpoint =
  be_kind :: rtext
  be_certificate :: "byte list option"
  be_protocol_min :: int
  be_protocol_max :: int
  be_approved :: json

record peer_identity =
  pi_endpoint :: rtext
  pi_certificate :: "byte list"

definition admit_body :: "(rtext \<Rightarrow> body_endpoint option) \<Rightarrow> peer_identity \<Rightarrow> body_hello \<Rightarrow> byte option" where
  "admit_body endpoint_of peer h =
     (case negotiate_protocol_minor h of
        None \<Rightarrow> None
      | Some minor \<Rightarrow>
          (case endpoint_of (bh_device h) of
             None \<Rightarrow> None
           | Some e \<Rightarrow>
               if \<not> valid_hello h \<or> pi_endpoint peer \<noteq> bh_device h \<or> be_kind e \<noteq> lit ''physical_body''
                  \<or> be_certificate e \<noteq> Some (pi_certificate peer)
                  \<or> \<not> validates_registration minor (bh_limits h) (bh_capabilities h)
                  \<or> \<not> authorized_by minor (be_approved e) (bh_capabilities h)
               then None
               else if be_protocol_min e \<le> uint minor \<and> uint minor \<le> be_protocol_max e then Some minor else None))"

record adapter_format =
  af_codec :: rtext
  af_sample_rate_hz :: nat
  af_channels :: nat
  af_frame_duration_ms :: nat

definition valid_adapter_contract :: "byte \<Rightarrow> byte \<Rightarrow> adapter_format \<Rightarrow> bool" where
  "valid_adapter_contract major minor f \<longleftrightarrow> major = PROTOCOL_MAJOR \<and> minor = ADAPTER_PROTOCOL_MINOR \<and>
     af_codec f = lit ''pcm_s16le'' \<and> af_sample_rate_hz f = 16000 \<and> af_channels f = 1 \<and>
     af_frame_duration_ms f = AUDIO_FRAME_DURATION_MS"

text \<open>A body comes in only as itself and only with what it was approved for: the connection's
  certificate is the one enrolled for the very device the hello names, and every input or output it
  declares was approved, except for the microphone and speaker of a body of the first protocol
  enrolled without a list.\<close>

theorem admitted_body_is_approved:
  assumes "admit_body endpoint_of peer h = Some minor"
  shows "\<exists>e. endpoint_of (bh_device h) = Some e \<and> pi_endpoint peer = bh_device h \<and>
      be_certificate e = Some (pi_certificate peer) \<and> be_kind e = lit ''physical_body'' \<and>
      (cap_text_input (bh_capabilities h) \<longrightarrow> approved_flag ''text_input'' (be_approved e)) \<and>
      (cap_text_output (bh_capabilities h) \<longrightarrow> approved_flag ''text_output'' (be_approved e)) \<and>
      (cap_actions (bh_capabilities h) \<longrightarrow> approved_flag ''actions'' (be_approved e)) \<and>
      (cap_sensors (bh_capabilities h) \<longrightarrow> approved_flag ''sensors'' (be_approved e)) \<and>
      (cap_microphone (bh_capabilities h) \<or> cap_speaker (bh_capabilities h) \<longrightarrow>
         minor < 2 \<and> be_approved e = JObj [] \<or>
         (cap_microphone (bh_capabilities h) \<longrightarrow> approved_flag ''microphone'' (be_approved e)) \<and>
         (cap_speaker (bh_capabilities h) \<longrightarrow> approved_flag ''speaker'' (be_approved e)))"
proof -
  obtain e where e: "endpoint_of (bh_device h) = Some e" "pi_endpoint peer = bh_device h"
      "be_certificate e = Some (pi_certificate peer)" "be_kind e = lit ''physical_body''"
      "validates_registration minor (bh_limits h) (bh_capabilities h)"
      "authorized_by minor (be_approved e) (bh_capabilities h)"
    using assms by (auto simp: admit_body_def split: option.splits if_splits)
  show ?thesis
  proof (cases "minor < 2 \<and> be_approved e = JObj []")
    case True
    then have "\<not> cap_text_input (bh_capabilities h)" "\<not> cap_text_output (bh_capabilities h)"
        "\<not> cap_actions (bh_capabilities h)" "\<not> cap_sensors (bh_capabilities h)"
      using e(5) by (auto simp: validates_registration_def split: if_splits)
    then show ?thesis using e True by blast
  next
    case False
    then show ?thesis using e by (auto simp: authorized_by_def)
  qed
qed

definition sample_hello :: body_hello where
  "sample_hello = \<lparr>bh_major = 1, bh_minor = 2, bh_device = [98], bh_boot = replicate 32 97, bh_firmware = [], bh_hardware = [],
     bh_capabilities = \<lparr>cap_microphone = False, cap_speaker = False, cap_battery = False, cap_aec = False,
       cap_wake_word = False, cap_text_input = False, cap_text_output = False, cap_actions = False, cap_sensors = True,
       cap_display = None, cap_text_display = None\<rparr>,
     bh_limits = \<lparr>lim_max_control_bytes = 2048, lim_max_playback_credit_ms = 0\<rparr>\<rparr>"

definition sample_endpoint :: body_endpoint where
  "sample_endpoint = \<lparr>be_kind = lit ''physical_body'', be_certificate = Some [9], be_protocol_min = 1, be_protocol_max = 2,
     be_approved = JObj [(''sensors'', JBool True)]\<rparr>"

theorem admitted_body_is_approved_witness:
  "admit_body (\<lambda>_. Some sample_endpoint) \<lparr>pi_endpoint = [98], pi_certificate = [9]\<rparr> sample_hello = Some 2 \<and>
   approved_flag ''sensors'' (be_approved sample_endpoint)"
proof -
  let ?p = "\<lparr>pi_endpoint = [98], pi_certificate = [9]\<rparr>"
  have a: "admit_body (\<lambda>_. Some sample_endpoint) ?p sample_hello = Some 2"
    by (simp add: admit_body_def negotiate_protocol_minor_def sample_hello_def sample_endpoint_def valid_hello_def
        validates_registration_def authorized_by_def approved_flag_def PROTOCOL_MAJOR_def PROTOCOL_MINOR_def
        MIN_SUPPORTED_PROTOCOL_MINOR_def str_len_def utf8_len_def sum_list_replicate MAX_CONTROL_BYTES_def MAX_PLAYBACK_CREDIT_MS_def)
  have "cap_sensors (bh_capabilities sample_hello)" by (simp add: sample_hello_def)
  with admitted_body_is_approved [OF a] have "approved_flag ''sensors'' (be_approved sample_endpoint)" by auto
  with a show ?thesis by simp
qed

end
