(* ===== verification/Body_Control.thy ===== *)
theory Body_Control
  imports Voice_Leases Body_Protocol
begin

text \<open>
  What a body's messages do: the methods of \<open>src/BoBeService/src/body/gateway.rs\<close> put together from the
  sections of theory Voice_Leases, and the handlers of \<open>body/handlers.rs\<close> that call them. The methods
  are followed from their first section to their last; the outcomes of what they wait for are in the
  environment. The expressions shown on the face and the text of error messages are left out, and
  input and sensor messages are described in theory Body_Interactions.
\<close>

section \<open>Environment\<close>

record control_env =
  ce_now :: nat
  ce_reply_sent :: bool
  ce_adapter_sent :: bool
  ce_adapter_told :: bool
  ce_body_told :: bool
  ce_frames_sent :: bool
  ce_open_sent :: bool
  ce_offer_delivered :: bool
  ce_finished :: "stt_event list option"
  ce_recognised :: "stt_event list option"
  ce_engine :: "bool option"
  ce_admitted :: bool
  ce_lease_id :: uuid
  ce_turn_id :: rtext
  ce_expiry_task :: task_ref
  ce_turn_task :: task_ref
  ce_voice_engine :: bool
  ce_offer_build :: "nat option"
  ce_random :: "32 word"

definition release_voice :: "control_env \<Rightarrow> route \<Rightarrow> gateway \<Rightarrow> gateway" where
  "release_voice env r s = release_route r (ce_adapter_told env) (ce_body_told env) s"

section \<open>Capture\<close>

text \<open>\<open>send_active_adapter_json\<close> and what its callers make of the outcome.\<close>

definition tell_adapter :: "control_env \<Rightarrow> route \<Rightarrow> adapter_connection \<Rightarrow> gateway \<Rightarrow> (string + unit) \<times> gateway" where
  "tell_adapter env r a s =
     (case adapter_output_of r a (ce_adapter_sent env) s of
        OutputSent \<Rightarrow> (Inr (), s)
      | OutputStale \<Rightarrow> (Inl ''stale_voice_route'', s)
      | OutputFailed \<Rightarrow> (Inl ''speech_adapter_send_failed'', release_voice env r s))"

definition open_capture_call :: "control_env \<Rightarrow> route \<Rightarrow> gateway \<Rightarrow> (string + unit) \<times> gateway" where
  "open_capture_call env r s =
     (case open_capture r (ce_now env) s of
        (Inl e, s1) \<Rightarrow> (Inl e, s1)
      | (Inr (TellAdapter (Some a)), s1) \<Rightarrow> tell_adapter env r a s1
      | (Inr _, s1) \<Rightarrow> (Inr (), s1))"

text \<open>\<open>spawn_turn\<close>, and what follows an accepted transcript.\<close>

definition spawn_turn :: "control_env \<Rightarrow> route \<Rightarrow> gateway \<Rightarrow> gateway" where
  "spawn_turn env r s =
     (if \<not> ce_voice_engine env then release_voice env r s else snd (attach_turn r (ce_turn_task env) s))"

definition follow_transcript :: "control_env \<Rightarrow> transcript_next \<Rightarrow> gateway \<Rightarrow> gateway" where
  "follow_transcript env next s =
     (case next of NoTurn \<Rightarrow> s | ReleaseEmpty r \<Rightarrow> release_voice env r s | StartTurn r _ \<Rightarrow> spawn_turn env r s)"

definition transcript_final_call :: "control_env \<Rightarrow> nat \<Rightarrow> uuid \<Rightarrow> rtext \<Rightarrow> gateway \<Rightarrow> input_disposition \<times> gateway" where
  "transcript_final_call env generation lease_id t s =
     (let ((d, follow), s1) = transcript_final generation lease_id t (ce_now env) s
      in (d, follow_transcript env follow s1))"

definition transcript_empty_call :: "control_env \<Rightarrow> nat \<Rightarrow> uuid \<Rightarrow> gateway \<Rightarrow> input_disposition \<times> gateway" where
  "transcript_empty_call env generation lease_id s =
     (case transcript_empty generation lease_id s of
        (d, Some r) \<Rightarrow> (d, release_voice env r s) | (d, None) \<Rightarrow> (d, s))"

fun handle_stt_events :: "control_env \<Rightarrow> route \<Rightarrow> stt_event list \<Rightarrow> gateway \<Rightarrow> (string + unit) \<times> gateway" where
  "handle_stt_events env r [] s = (Inr (), s)"
| "handle_stt_events env r (SttPartial t # es) s =
     (let (d, s1) = transcript_partial (rt_generation r) (rt_lease r) (ce_now env) s in
      if d \<noteq> Accepted then (Inl ''stale_voice_route'', s1) else handle_stt_events env r es s1)"
| "handle_stt_events env r (SttFinal t # es) s =
     (let (d, s1) = transcript_final_call env (rt_generation r) (rt_lease r) t s in
      if d \<noteq> Accepted then (Inl ''speech_recognition_failed'', s1) else handle_stt_events env r es s1)"

definition is_final :: "stt_event \<Rightarrow> bool" where
  "is_final e \<longleftrightarrow> (case e of SttFinal _ \<Rightarrow> True | SttPartial _ \<Rightarrow> False)"

definition close_capture_call :: "control_env \<Rightarrow> route \<Rightarrow> gateway \<Rightarrow> (string + unit) \<times> gateway" where
  "close_capture_call env r s =
     (case close_capture r (ce_finished env) (ce_now env) s of
        (Inl e, s1) \<Rightarrow> (Inl e, s1)
      | (Inr (HandleEvents es), s1) \<Rightarrow>
          (if list_ex is_final es then handle_stt_events env r es s1
           else (case transcript_empty_call env (rt_generation r) (rt_lease r) s1 of
               (d, s2) \<Rightarrow> (if d = Accepted then Inr () else Inl ''speech_recognition_failed'', s2)))
      | (Inr (TellAdapter (Some a)), s1) \<Rightarrow> tell_adapter env r a s1
      | (Inr (TellAdapter None), s1) \<Rightarrow> (Inl ''speech_adapter_unavailable'', s1)
      | (Inr CaptureDone, s1) \<Rightarrow> (Inr (), s1))"

definition forward_microphone_call ::
  "control_env \<Rightarrow> route \<Rightarrow> 32 word \<Rightarrow> 16 word \<Rightarrow> gateway \<Rightarrow> bool \<times> gateway" where
  "forward_microphone_call env r sequence flags s =
     (case forward_microphone r sequence flags (ce_recognised env) (ce_now env) s of
        (FrameRefused, s1) \<Rightarrow> (False, s1)
      | (FrameFailed, s1) \<Rightarrow> (False, release_voice env r s1)
      | (FrameNext (HandleEvents es), s1) \<Rightarrow>
          (case handle_stt_events env r es s1 of (Inl _, s2) \<Rightarrow> (False, s2) | (Inr _, s2) \<Rightarrow> (True, s2))
      | (FrameNext (TellAdapter (Some a)), s1) \<Rightarrow>
          (case tell_adapter env r a s1 of (Inl _, s2) \<Rightarrow> (False, s2) | (Inr _, s2) \<Rightarrow> (True, s2))
      | (FrameNext (TellAdapter None), s1) \<Rightarrow> (False, release_voice env r s1)
      | (FrameNext CaptureDone, s1) \<Rightarrow> (True, s1))"

text \<open>\<open>acquire_lease\<close> and \<open>request_capture\<close>: the reason of a refusal, or the route of the lease.\<close>

definition acquire_lease ::
  "control_env \<Rightarrow> rtext \<Rightarrow> nat \<Rightarrow> rtext \<Rightarrow> rtext \<Rightarrow> 32 word \<Rightarrow> gateway \<Rightarrow> (string + route) \<times> gateway" where
  "acquire_lease env device generation request trigger stream s =
     (case acquire_begin device generation request trigger stream (ce_engine env \<noteq> None) s of
        (Inl e, s1) \<Rightarrow> (Inl e, s1)
      | (Inr preempted, s1) \<Rightarrow>
          (let s2 = (case preempted of None \<Rightarrow> s1
                 | Some (r, ctx) \<Rightarrow> finish_release r ctx (ce_adapter_told env) (ce_body_told env) s1)
           in acquire_grant device generation request trigger stream (ce_engine env) (ce_admitted env)
                (ce_lease_id env) (ce_turn_id env) (ce_now env) s2))"

definition request_capture ::
  "control_env \<Rightarrow> rtext \<Rightarrow> nat \<Rightarrow> rtext \<Rightarrow> rtext \<Rightarrow> 32 word \<Rightarrow> gateway \<Rightarrow> bool \<times> gateway" where
  "request_capture env device generation request trigger stream s =
     (case acquire_lease env device generation request trigger stream s of
        (Inl _, s1) \<Rightarrow> (ce_reply_sent env, s1)
      | (Inr r, s1) \<Rightarrow>
          if \<not> ce_reply_sent env then (False, s1)
          else (True, snd (attach_expiry_abort r (ce_expiry_task env) s1)))"

section \<open>Playback\<close>

definition flush_call :: "control_env \<Rightarrow> route \<Rightarrow> gateway \<Rightarrow> gateway" where
  "flush_call env r s =
     (case flush_playback r (ce_now env) s of
        (FlushNoBody, s1) \<Rightarrow> release_voice env r s1
      | (FlushNothing, s1) \<Rightarrow> s1
      | (FlushFrames frames close stream, s1) \<Rightarrow>
          if (frames \<noteq> [] \<or> close) \<and> \<not> ce_frames_sent env then release_voice env r s1 else s1)"

definition release_if_drained_call :: "control_env \<Rightarrow> route \<Rightarrow> gateway \<Rightarrow> gateway" where
  "release_if_drained_call env r s = (if release_if_drained r s then release_voice env r s else s)"

definition apply_credit_call :: "control_env \<Rightarrow> route \<Rightarrow> playback_credit \<Rightarrow> gateway \<Rightarrow> bool \<times> gateway" where
  "apply_credit_call env r c s =
     (case apply_playback_credit r c (ce_now env) s of
        (CreditRefused, s1) \<Rightarrow> (False, s1)
      | (CreditIgnored, s1) \<Rightarrow> (True, s1)
      | (CreditApplied, s1) \<Rightarrow> (True, release_if_drained_call env r (flush_call env r s1)))"

definition playback_drained_call :: "control_env \<Rightarrow> route \<Rightarrow> 32 word \<Rightarrow> gateway \<Rightarrow> bool \<times> gateway" where
  "playback_drained_call env r stream s =
     (case playback_drained r stream s of
        (False, s1) \<Rightarrow> (False, s1) | (True, s1) \<Rightarrow> (True, release_if_drained_call env r s1))"

definition playback_failed_call :: "control_env \<Rightarrow> route \<Rightarrow> 32 word \<Rightarrow> gateway \<Rightarrow> bool \<times> gateway" where
  "playback_failed_call env r stream s =
     (if playback_failed r stream s then (True, release_voice env r s) else (False, s))"

text \<open>The speech of a turn: \<open>queue_body_pcm\<close>, \<open>mark_tts_end\<close>, and the end of its task.\<close>

definition speech_frame_call :: "control_env \<Rightarrow> route \<Rightarrow> pcm \<Rightarrow> gateway \<Rightarrow> gateway" where
  "speech_frame_call env r pcm s =
     (case queue_body_pcm r pcm (ce_random env) (ce_now env) s of
        (FrameInvalid, s1) \<Rightarrow> release_voice env r s1
      | (FrameIgnored, s1) \<Rightarrow> s1
      | (FrameOverflow, s1) \<Rightarrow> release_voice env r s1
      | (FrameQueued open_body, s1) \<Rightarrow>
          if open_body \<and> \<not> ce_open_sent env then release_voice env r s1 else flush_call env r s1)"

definition speech_ends_call :: "control_env \<Rightarrow> route \<Rightarrow> gateway \<Rightarrow> gateway" where
  "speech_ends_call env r s =
     (case mark_tts_end r s of
        (False, s1) \<Rightarrow> s1 | (True, s1) \<Rightarrow> release_if_drained_call env r (flush_call env r s1))"

definition turn_finished_call :: "control_env \<Rightarrow> route \<Rightarrow> gateway \<Rightarrow> gateway" where
  "turn_finished_call env r s =
     (case turn_task_finished r s of
        (NotActive, s1) \<Rightarrow> s1
      | (ReleaseComplete, s1) \<Rightarrow> release_voice env r s1
      | (CheckDrained, s1) \<Rightarrow> release_if_drained_call env r s1)"

section \<open>Messages of a body\<close>

record capture_request =
  cr_request :: rtext
  cr_stream :: "32 word"
  cr_trigger :: rtext
  cr_codec :: rtext
  cr_sample_rate_hz :: nat
  cr_channels :: nat
  cr_frame_duration_ms :: nat

record routed_control =
  rs_lease :: uuid
  rs_turn :: rtext
  rs_stream :: "32 word"
  rs_reason :: "rtext option"

datatype wake_outcome = WakeWon | WakeLost | WakePreempted

datatype body_control =
    CaptureRequestMsg capture_request
  | CaptureCancelMsg rtext "32 word"
  | CaptureOpenMsg routed_control
  | CaptureCloseMsg routed_control
  | PlaybackReadyMsg playback_credit
  | PlaybackAckMsg playback_credit
  | PlaybackDrainedMsg routed_control
  | PlaybackFailedMsg routed_control
  | HealthMsg health_report
  | BatteryMsg battery_state
  | UpdateStateMsg update_report
  | ButtonMsg

definition matches_route_control :: "route \<Rightarrow> routed_control \<Rightarrow> bool" where
  "matches_route_control r c \<longleftrightarrow> rs_lease c = rt_lease r \<and> rs_turn c = rt_turn r"

definition refuse_preempted_capture :: "control_env \<Rightarrow> rtext \<Rightarrow> nat \<Rightarrow> routed_control \<Rightarrow> bool \<Rightarrow> gateway \<Rightarrow> bool" where
  "refuse_preempted_capture env device generation c respond s \<longleftrightarrow>
     (case preempted_route device generation (rs_stream c) s of
        None \<Rightarrow> False
      | Some r \<Rightarrow> rt_lease r = rs_lease c \<and> rt_turn r = rs_turn c \<and> (\<not> respond \<or> ce_reply_sent env))"

definition valid_capture_request :: "capture_request \<Rightarrow> bool" where
  "valid_capture_request q \<longleftrightarrow> cr_codec q = lit ''pcm_s16le'' \<and> cr_sample_rate_hz q = 16000 \<and> cr_channels q = 1 \<and>
     cr_frame_duration_ms q = AUDIO_FRAME_DURATION_MS \<and> cr_trigger q \<in> {lit ''action_button'', lit ''wake_word''}"

text \<open>\<open>handle_body_control\<close>: \<open>connection\<close> is what \<open>interaction_connection\<close> finds, \<open>wake\<close> the decision of the
  wake arbitration. A message that is answered \<open>False\<close> ends the connection.\<close>

definition on_active_route ::
  "rtext \<Rightarrow> nat \<Rightarrow> (route \<Rightarrow> gateway \<Rightarrow> bool \<times> gateway) \<Rightarrow> gateway \<Rightarrow> bool \<times> gateway" where
  "on_active_route device generation f s =
     (case active_route_for_body device generation s of None \<Rightarrow> (False, s) | Some r \<Rightarrow> f r s)"

definition handle_capture_open :: "control_env \<Rightarrow> rtext \<Rightarrow> nat \<Rightarrow> routed_control \<Rightarrow> gateway \<Rightarrow> bool \<times> gateway" where
  "handle_capture_open env device generation c s =
     (case active_route_for_body device generation s of
        None \<Rightarrow> (refuse_preempted_capture env device generation c True s, s)
      | Some r \<Rightarrow>
          if \<not> matches_route_control r c \<or> rs_stream c \<noteq> rt_stream r then (False, s)
          else (case open_capture_call env r s of
              (Inr _, s1) \<Rightarrow> (True, s1)
            | (Inl _, s1) \<Rightarrow> (refuse_preempted_capture env device generation c True s1, s1)))"

definition handle_capture_close :: "control_env \<Rightarrow> rtext \<Rightarrow> nat \<Rightarrow> routed_control \<Rightarrow> gateway \<Rightarrow> bool \<times> gateway" where
  "handle_capture_close env device generation c s =
     (case active_route_for_body device generation s of
        None \<Rightarrow> (refuse_preempted_capture env device generation c False s, s)
      | Some r \<Rightarrow>
          if \<not> matches_route_control r c \<or> rs_stream c \<noteq> rt_stream r then (False, s)
          else if (case rs_reason c of None \<Rightarrow> False | Some reason \<Rightarrow> reason \<notin> {lit ''button_released'', lit ''vad_end''})
          then (True, release_voice env r s)
          else (case close_capture_call env r s of (Inl _, s1) \<Rightarrow> (False, s1) | (Inr _, s1) \<Rightarrow> (True, s1)))"

definition handle_health :: "control_env \<Rightarrow> rtext \<Rightarrow> nat \<Rightarrow> health_report \<Rightarrow> gateway \<Rightarrow> bool \<times> gateway" where
  "handle_health env device generation h s =
     (case classify_offer (ce_offer_build env) device generation h (ce_now env) s of
        (SendOffer, s1) \<Rightarrow>
          if ce_offer_delivered env then (True, s1) else (False, offer_not_delivered device generation s1)
      | (_, s1) \<Rightarrow> (True, s1))"

definition handle_body_control ::
  "control_env \<Rightarrow> (body_capabilities \<times> body_limits) option \<Rightarrow> wake_outcome \<Rightarrow> rtext \<Rightarrow> nat \<Rightarrow> body_control \<Rightarrow>
     gateway \<Rightarrow> bool \<times> gateway" where
  "handle_body_control env connection wake device generation message s =
     (case message of
        CaptureRequestMsg q \<Rightarrow>
          (if (case connection of None \<Rightarrow> True | Some (cap, lim) \<Rightarrow> \<not> validates_audio_turn lim cap) then (False, s)
           else if \<not> valid_capture_request q then (False, s)
           else if cr_trigger q = lit ''wake_word'' \<and> wake \<noteq> WakeWon then (ce_reply_sent env, s)
           else request_capture env device generation (cr_request q) (cr_trigger q) (cr_stream q) s)
      | CaptureCancelMsg request stream \<Rightarrow>
          (case cancel_capture_request device generation request stream s of
             None \<Rightarrow> (True, s) | Some r \<Rightarrow> (True, release_voice env r s))
      | CaptureOpenMsg c \<Rightarrow> handle_capture_open env device generation c s
      | CaptureCloseMsg c \<Rightarrow> handle_capture_close env device generation c s
      | PlaybackReadyMsg c \<Rightarrow> on_active_route device generation
          (\<lambda>r s. if pc_played c \<noteq> None then (False, s) else apply_credit_call env r c s) s
      | PlaybackAckMsg c \<Rightarrow> on_active_route device generation
          (\<lambda>r s. if pc_played c = None then (False, s) else apply_credit_call env r c s) s
      | PlaybackDrainedMsg c \<Rightarrow> on_active_route device generation
          (\<lambda>r s. if \<not> matches_route_control r c \<or> rs_reason c \<noteq> None then (False, s)
             else playback_drained_call env r (rs_stream c) s) s
      | PlaybackFailedMsg c \<Rightarrow> on_active_route device generation
          (\<lambda>r s. if rs_reason c = None \<or> rs_reason c = Some [] \<or> \<not> matches_route_control r c then (False, s)
             else playback_failed_call env r (rs_stream c) s) s
      | HealthMsg h \<Rightarrow> handle_health env device generation h s
      | BatteryMsg b \<Rightarrow> if bs_percent b > 100 then (False, s) else (True, record_battery device generation b s)
      | UpdateStateMsg u \<Rightarrow>
          (if \<not> report_fields_valid u then (False, s)
           else if \<not> has_known_phase u then (True, s)
           else (True, record_update_state device generation u (ce_now env) s))
      | ButtonMsg \<Rightarrow> (True, s))"

text \<open>A binary message: a microphone frame of the active capture, or of a preempted one.\<close>

definition handle_body_frame :: "control_env \<Rightarrow> rtext \<Rightarrow> nat \<Rightarrow> byte list \<Rightarrow> gateway \<Rightarrow> bool \<times> gateway" where
  "handle_body_frame env device generation frame s =
     (case validate_microphone_frame frame of
        None \<Rightarrow> (False, s)
      | Some h \<Rightarrow>
          (let (forwarded, s1) =
             (case active_route_for_body device generation s of
                Some r \<Rightarrow> if rt_stream r = mh_stream h
                  then forward_microphone_call env r (mh_sequence h) (mh_flags h) s else (False, s)
              | None \<Rightarrow> (False, s))
           in (forwarded \<or> preempted_route device generation (mh_stream h) s1 \<noteq> None, s1)))"

text \<open>Messages of the speech adapter; an answer \<open>Invalid\<close> ends its connection.\<close>

datatype adapter_control =
    AdapterHello
  | TranscriptPartialMsg nat uuid rtext
  | TranscriptFinalMsg nat uuid rtext
  | TranscriptEmptyMsg nat uuid

definition handle_adapter_control :: "control_env \<Rightarrow> adapter_control \<Rightarrow> gateway \<Rightarrow> input_disposition \<times> gateway" where
  "handle_adapter_control env message s =
     (case message of
        AdapterHello \<Rightarrow> (Invalid, s)
      | TranscriptPartialMsg generation lease_id t \<Rightarrow> transcript_partial generation lease_id (ce_now env) s
      | TranscriptFinalMsg generation lease_id t \<Rightarrow> transcript_final_call env generation lease_id t s
      | TranscriptEmptyMsg generation lease_id \<Rightarrow> transcript_empty_call env generation lease_id s)"

section \<open>Who can touch a lease\<close>

definition owns_lease :: "rtext \<Rightarrow> nat \<Rightarrow> voice_lease \<Rightarrow> bool" where
  "owns_lease device generation l \<longleftrightarrow> rt_device (vl_route l) = device \<and> rt_generation (vl_route l) = generation"

fun presses_button :: "body_control \<Rightarrow> bool" where
  "presses_button (CaptureRequestMsg q) \<longleftrightarrow> cr_trigger q = lit ''action_button''"
| "presses_button _ \<longleftrightarrow> False"

lemma foreign_no_route:
  "gw_lease s = Some l \<Longrightarrow> \<not> owns_lease device generation l \<Longrightarrow> active_route_for_body device generation s = None"
  by (simp add: active_route_for_body_def owns_lease_def)

lemma foreign_capture:
  assumes "gw_lease s = Some l"
    and "trigger = lit ''action_button'' \<Longrightarrow> vl_trigger l \<noteq> lit ''wake_word'' \<or> vl_phase l \<noteq> Granted"
  shows "gw_lease (snd (request_capture env device generation request trigger stream s)) = Some l"
proof -
  let ?a = "acquire_begin device generation request trigger stream (ce_engine env \<noteq> None) s"
  have "gw_lease (snd ?a) = Some l" "\<exists>e. fst ?a = Inl e"
    using assms by (auto simp: acquire_begin_def preempt_for_def Let_def split: option.splits)
  then have "\<exists>e. acquire_lease env device generation request trigger stream s = (Inl e, snd ?a)"
    by (cases ?a) (auto simp: acquire_lease_def)
  then show ?thesis using \<open>gw_lease (snd ?a) = Some l\<close> by (auto simp: request_capture_def)
qed

lemma foreign_body_cannot_touch_the_lease_parts:
  assumes "gw_lease s = Some l" and "\<not> owns_lease device generation l"
    and "presses_button message \<Longrightarrow> vl_trigger l \<noteq> lit ''wake_word'' \<or> vl_phase l \<noteq> Granted"
  shows "gw_lease (snd (handle_body_control env connection wake device generation message s)) = Some l"
    and "gw_lease (snd (handle_body_frame env device generation frame s)) = Some l"
proof -
  note none = foreign_no_route [OF assms(1,2)]
  show "gw_lease (snd (handle_body_frame env device generation frame s)) = Some l"
    using none assms(1) by (auto simp: handle_body_frame_def split: option.splits)
  show "gw_lease (snd (handle_body_control env connection wake device generation message s)) = Some l"
  proof (cases message)
    case (CaptureRequestMsg q)
    then show ?thesis using assms foreign_capture [OF assms(1)] by (auto simp: handle_body_control_def)
  next
    case (CaptureCancelMsg request stream)
    have "cancel_capture_request device generation request stream s = None"
      using assms(1,2) by (auto simp: cancel_capture_request_def owns_lease_def)
    then show ?thesis using CaptureCancelMsg assms(1) by (simp add: handle_body_control_def)
  next
    case (HealthMsg h)
    have "gw_lease (snd (handle_health env device generation h s)) = gw_lease s"
    proof -
      obtain d s1 where c: "classify_offer (ce_offer_build env) device generation h (ce_now env) s = (d, s1)"
        by (cases "classify_offer (ce_offer_build env) device generation h (ce_now env) s")
      then have "gw_lease s1 = gw_lease s"
        using lease_unchanged(10) [of "ce_offer_build env" device generation h "ce_now env" s] by simp
      then show ?thesis by (cases d) (auto simp: handle_health_def c offer_not_delivered_def)
    qed
    then show ?thesis using HealthMsg assms(1) by (simp add: handle_body_control_def)
  qed (use assms(1) none in \<open>simp_all add: handle_body_control_def handle_capture_open_def handle_capture_close_def
      on_active_route_def\<close>)
qed

text \<open>C23: A body cannot touch the voice lease of another: whatever it sends, the lease of another body, or
  of an older connection of the same one, stays exactly as it is, except that an explicit press of the
  action button takes the voice from a wake word that has not begun to record.\<close>

theorem foreign_body_cannot_touch_the_lease:
  assumes "gw_lease s = Some l" and "\<not> owns_lease device generation l"
    and "presses_button message \<Longrightarrow> vl_trigger l \<noteq> lit ''wake_word'' \<or> vl_phase l \<noteq> Granted"
  shows "(gw_lease (snd (handle_body_control env connection wake device generation message s)) = Some l) \<and>
    (gw_lease (snd (handle_body_frame env device generation frame s)) = Some l)"
  by (intro conjI impI foreign_body_cannot_touch_the_lease_parts [OF assms])

definition quiet_env :: control_env where
  "quiet_env = \<lparr>ce_now = 200, ce_reply_sent = True, ce_adapter_sent = True, ce_adapter_told = True, ce_body_told = True,
     ce_frames_sent = True, ce_open_sent = True, ce_offer_delivered = True, ce_finished = None, ce_recognised = None,
     ce_engine = None, ce_admitted = True, ce_lease_id = 8, ce_turn_id = [117], ce_expiry_task = 1, ce_turn_task = 2,
     ce_voice_engine = True, ce_offer_build = None, ce_random = 4\<rparr>"

theorem foreign_body_cannot_touch_the_lease_witness:
  "gw_lease (snd (handle_body_control quiet_env None WakeWon [99] 1
     (CaptureCloseMsg \<lparr>rs_lease = 7, rs_turn = [116], rs_stream = 3, rs_reason = Some [120]\<rparr>)
     (vr_gateway (fold run_step granting voice_start)))) = Some granted_lease"
proof -
  have "gw_lease (vr_gateway (fold run_step granting voice_start)) = Some granted_lease" by (simp add: granting_run)
  moreover have "\<not> owns_lease [99] 1 granted_lease" by (simp add: owns_lease_def granted_lease_def sample_route_def)
  ultimately show ?thesis
    using foreign_body_cannot_touch_the_lease [where message =
        "CaptureCloseMsg \<lparr>rs_lease = 7, rs_turn = [116], rs_stream = 3, rs_reason = Some [120]\<rparr>"]
    by (meson presses_button.simps)
qed

end
