(* ===== verification/Body_Interactions.thy ===== *)
theory Body_Interactions
  imports BoBe_Prelude BoBe_Text Body_Protocol "HOL-Library.List_Lexorder"
begin

unbundle bit_operations_syntax

text \<open>
  Text, actions and sensors of a body: \<open>src/BoBeService/src/body/interactions.rs\<close>. A decoded message is
  a value; \<open>sha256\<close> is the digest function of the sha2 crate and \<open>show_uuid\<close> the text of an identifier.
  What becomes of a submitted request is described in theory Message_Requests. Instants are
  nanoseconds, and the sensor tokens are counted in billionths without the rounding of \<open>f64\<close>.
\<close>

definition MAX_SENSORS :: nat where "MAX_SENSORS = 16"
definition SENSOR_TTL :: nat where "SENSOR_TTL = 300000000000"
definition TEXT_MAX_BYTES :: nat where "TEXT_MAX_BYTES = 1024"
definition TEXT_CHUNK_BYTES :: nat where "TEXT_CHUNK_BYTES = 512"
definition CAPTION_MAX_BYTES :: nat where "CAPTION_MAX_BYTES = 140"

section \<open>Names and identifiers\<close>

definition is_ascii_alphanumeric :: "uchar \<Rightarrow> bool" where
  "is_ascii_alphanumeric c \<longleftrightarrow> (48 \<le> c \<and> c \<le> 57) \<or> (65 \<le> c \<and> c \<le> 90) \<or> (97 \<le> c \<and> c \<le> 122)"

definition valid_name :: "rtext \<Rightarrow> nat \<Rightarrow> bool" where
  "valid_name name maximum \<longleftrightarrow> name \<noteq> [] \<and> str_len name \<le> maximum \<and>
     (\<forall>c \<in> set name. is_ascii_alphanumeric c \<or> c \<in> {cp (CHR ''_''), cp (CHR ''-''), cp (CHR ''.'')})"

definition scoped_request :: "(nat list \<Rightarrow> byte list) \<Rightarrow> (uuid \<Rightarrow> rtext) \<Rightarrow> rtext \<Rightarrow> uuid \<Rightarrow> uuid" where
  "scoped_request sha256 show_uuid device request =
     (let bytes = take 16 (sha256 (as_bytes (lit ''bobe-device:'' @ device @ lit '':'' @ show_uuid request)));
          bytes = bytes[6 := (bytes ! 6 AND 0x0f) OR 0x80];
          bytes = bytes[8 := (bytes ! 8 AND 0x3f) OR 0x80]
      in uuid_from_bytes bytes)"

section \<open>Text on a display\<close>

record display_message =
  dm_sequence :: nat
  dm_clear :: bool
  dm_final :: bool
  dm_text :: rtext

definition chunk_bytes :: "body_limits \<Rightarrow> nat" where
  "chunk_bytes lim = max 1 (min TEXT_CHUNK_BYTES ((lim_max_control_bytes lim - 256) div 6))"

definition replace_nul :: "rtext \<Rightarrow> rtext" where
  "replace_nul t = map (\<lambda>c. if c = 0 then 0xFFFD else c) t"

definition sat_add32 :: "nat \<Rightarrow> nat \<Rightarrow> nat" where
  "sat_add32 a b = min (2 ^ 32 - 1) (a + b)"

text \<open>The loop of \<open>display_text\<close>: \<open>sends n\<close> is whether the message with sequence number \<open>n\<close> can be sent.\<close>

lemma byte_drop_shorter:
  assumes "is_char_boundary s i" "0 < i" "s \<noteq> []" shows "length (byte_drop i s) < length s"
proof -
  have "byte_take i s \<noteq> []" using str_len_byte_take [OF assms(1)] assms(2) by auto
  moreover have "length (byte_take i s) + length (byte_drop i s) = length s"
    using byte_take_drop [of i s] by (metis length_append)
  ultimately show ?thesis by (cases "byte_take i s") auto
qed

function display_loop :: "nat \<Rightarrow> (nat \<Rightarrow> bool) \<Rightarrow> nat \<Rightarrow> rtext \<Rightarrow> display_message list \<times> nat \<times> bool" where
  "display_loop maximum sends sequence remaining =
     (if remaining = [] then ([], sequence, True)
      else (let e = boundary_at_or_before remaining (min maximum (str_len remaining)) in
        if e = 0 then ([], sequence, False)
        else (let m = \<lparr>dm_sequence = sequence, dm_clear = (sequence = 0), dm_final = False,
                       dm_text = byte_take e remaining\<rparr> in
          if \<not> sends sequence then ([m], sequence, False)
          else (let (ms, n, ok) = display_loop maximum sends (sat_add32 sequence 1) (byte_drop e remaining)
                in (m # ms, n, ok)))))"
  by auto
termination
  by (relation "measure (\<lambda>(_, _, _, r). length r)") (auto intro!: byte_drop_shorter boundary_at_or_before)

declare display_loop.simps [simp del]

definition display_text ::
  "body_limits \<Rightarrow> (nat \<Rightarrow> bool) \<Rightarrow> nat \<Rightarrow> rtext \<Rightarrow> bool \<Rightarrow> display_message list \<times> nat \<times> bool" where
  "display_text lim sends sequence t final_chunk =
     (let (ms, n, ok) = display_loop (chunk_bytes lim) sends sequence (replace_nul t) in
      if ok \<and> final_chunk
      then (ms @ [\<lparr>dm_sequence = n, dm_clear = (n = 0), dm_final = True, dm_text = []\<rparr>], n, sends n)
      else (ms, n, ok))"

lemma first_boundary:
  assumes "s \<noteq> []" "4 \<le> maximum" shows "0 < boundary_at_or_before s (min maximum (str_len s))"
proof -
  obtain c cs where s: "s = c # cs" using assms(1) by (cases s) auto
  have "is_char_boundary s (utf8_len c)" using boundary_of_append [of "[c]" cs] by (simp add: s)
  moreover have "utf8_len c \<le> min maximum (str_len s)"
    using assms(2) utf8_len_le [of c] by (simp add: s del: utf8_len_le)
  ultimately have "utf8_len c \<le> boundary_at_or_before s (min maximum (str_len s))"
    by (rule boundary_at_or_before(3))
  then show ?thesis using utf8_len_pos [of c] by linarith
qed

lemma display_loop_delivers:
  assumes "\<forall>n. sends n" "4 \<le> maximum"
  shows "\<exists>ms n. display_loop maximum sends sequence remaining = (ms, n, True) \<and> concat (map dm_text ms) = remaining \<and>
     (\<forall>m \<in> set ms. dm_text m \<noteq> [] \<and> str_len (dm_text m) \<le> maximum \<and> \<not> dm_final m \<and> dm_clear m = (dm_sequence m = 0)) \<and>
     (sequence + length ms < 2 ^ 32 \<longrightarrow> map dm_sequence ms = [sequence..<sequence + length ms] \<and> n = sequence + length ms)"
proof (induction "length remaining" arbitrary: remaining sequence rule: less_induct)
  case less
  show ?case
  proof (cases "remaining = []")
    case True
    then show ?thesis
      by (intro exI [of _ "[]"] exI [of _ sequence]) (simp add: display_loop.simps [of maximum sends sequence "[]"])
  next
    case False
    let ?e = "boundary_at_or_before remaining (min maximum (str_len remaining))"
    have e: "0 < ?e" "?e \<le> maximum" "is_char_boundary remaining ?e"
      using first_boundary [OF False assms(2)] boundary_at_or_before(1) [of remaining "min maximum (str_len remaining)"]
        boundary_at_or_before(2) by auto
    from less.hyps [OF byte_drop_shorter [OF e(3,1) False], of "sat_add32 sequence 1"]
    obtain ms n where IH: "display_loop maximum sends (sat_add32 sequence 1) (byte_drop ?e remaining) = (ms, n, True)"
      "concat (map dm_text ms) = byte_drop ?e remaining"
      "\<forall>m \<in> set ms. dm_text m \<noteq> [] \<and> str_len (dm_text m) \<le> maximum \<and> \<not> dm_final m \<and> dm_clear m = (dm_sequence m = 0)"
      "sat_add32 sequence 1 + length ms < 2 ^ 32 \<longrightarrow>
         map dm_sequence ms = [sat_add32 sequence 1..<sat_add32 sequence 1 + length ms] \<and> n = sat_add32 sequence 1 + length ms"
      by blast
    let ?m = "\<lparr>dm_sequence = sequence, dm_clear = (sequence = 0), dm_final = False, dm_text = byte_take ?e remaining\<rparr>"
    have "display_loop maximum sends sequence remaining = (?m # ms, n, True)"
      using False e(1) assms(1) IH(1) by (simp add: display_loop.simps [of maximum sends sequence remaining] Let_def)
    moreover have "byte_take ?e remaining \<noteq> []" "str_len (byte_take ?e remaining) \<le> maximum"
      using str_len_byte_take [OF e(3)] e(1,2) by auto
    moreover have "sequence + length (?m # ms) < 2 ^ 32 \<longrightarrow>
        map dm_sequence (?m # ms) = [sequence..<sequence + length (?m # ms)] \<and> n = sequence + length (?m # ms)"
    proof
      assume l: "sequence + length (?m # ms) < 2 ^ 32"
      then have "sat_add32 sequence 1 = Suc sequence" by (simp add: sat_add32_def)
      with l IH(4) show "map dm_sequence (?m # ms) = [sequence..<sequence + length (?m # ms)] \<and> n = sequence + length (?m # ms)"
        by (simp add: upt_conv_Cons [of sequence] del: upt_Suc)
    qed
    ultimately show ?thesis using IH(2,3) by (intro exI [of _ "?m # ms"] exI [of _ n]) (auto simp: byte_take_drop)
  qed
qed

lemma chunk_bytes_bounds:
  "1024 \<le> lim_max_control_bytes lim \<Longrightarrow> 128 \<le> chunk_bytes lim \<and> chunk_bytes lim \<le> 512 \<and>
     256 + 6 * chunk_bytes lim \<le> lim_max_control_bytes lim"
  by (simp add: chunk_bytes_def TEXT_CHUNK_BYTES_def) linarith

text \<open>A text shown on a body arrives whole: over a connection that takes the messages of a registered
  body, the texts of the messages put together are the text with its NUL characters replaced, cut only
  between characters into chunks that fit the body's control messages even when every byte is escaped
  to six; they are numbered from zero, the first clears the display and the last one is final.\<close>

theorem displayed_text_arrives_whole:
  assumes "1024 \<le> lim_max_control_bytes lim" and "\<forall>n. sends n" and "length t < 2 ^ 31"
  shows "\<exists>ms n. display_text lim sends 0 t True = (ms, n, True) \<and> concat (map dm_text ms) = replace_nul t \<and>
     map dm_sequence ms = [0..<length ms] \<and> map dm_clear ms = True # replicate (length ms - 1) False \<and>
     map dm_final ms = replicate (length ms - 1) False @ [True] \<and>
     (\<forall>m \<in> set ms. 256 + 6 * str_len (dm_text m) \<le> lim_max_control_bytes lim)"
proof -
  note cb = chunk_bytes_bounds [OF assms(1)]
  obtain ms n where d: "display_loop (chunk_bytes lim) sends 0 (replace_nul t) = (ms, n, True)"
    "concat (map dm_text ms) = replace_nul t"
    "\<forall>m \<in> set ms. dm_text m \<noteq> [] \<and> str_len (dm_text m) \<le> chunk_bytes lim \<and> \<not> dm_final m \<and> dm_clear m = (dm_sequence m = 0)"
    "length ms < 2 ^ 32 \<longrightarrow> map dm_sequence ms = [0..<length ms] \<and> n = length ms"
    using display_loop_delivers [OF assms(2), of "chunk_bytes lim" 0 "replace_nul t"] cb by auto
  have "length ms \<le> length (concat (map dm_text ms))" using d(3)
  proof (induction ms)
    case (Cons m ms)
    then show ?case by (cases "dm_text m") auto
  qed simp
  then have "length ms \<le> length t" by (simp add: d(2) replace_nul_def)
  then have n: "map dm_sequence ms = [0..<length ms]" "n = length ms" using d(4) assms(3) by auto
  let ?ms = "ms @ [\<lparr>dm_sequence = n, dm_clear = (n = 0), dm_final = True, dm_text = []\<rparr>]"
  have r: "display_text lim sends 0 t True = (?ms, n, True)"
    using d(1) assms(2) by (simp add: display_text_def Let_def)
  have seq: "map dm_sequence ?ms = [0..<length ?ms]" by (simp add: n)
  have "map dm_clear ?ms = map (\<lambda>k. k = 0) (map dm_sequence ?ms)" using d(3) by auto
  also have "\<dots> = True # replicate (length ?ms - 1) False"
    unfolding seq by (auto simp: upt_rec [of 0] map_replicate_const intro!: nth_equalityI simp del: upt_Suc)
  finally have clear: "map dm_clear ?ms = True # replicate (length ?ms - 1) False" .
  have final: "map dm_final ?ms = replicate (length ?ms - 1) False @ [True]"
    using d(3) by (auto intro!: nth_equalityI simp: nth_append)
  have "256 + 6 * str_len (dm_text m) \<le> lim_max_control_bytes lim" if "m \<in> set ?ms" for m
  proof -
    have "str_len (dm_text m) \<le> chunk_bytes lim" using that d(3) by auto
    then show ?thesis using cb by linarith
  qed
  with r seq clear final d(2) show ?thesis by (intro exI [of _ ?ms] exI [of _ n]) auto
qed

theorem displayed_text_arrives_whole_witness:
  "\<exists>ms n. display_text \<lparr>lim_max_control_bytes = 1024, lim_max_playback_credit_ms = 0\<rparr> (\<lambda>_. True) 0 [104, 0] True = (ms, n, True) \<and>
     concat (map dm_text ms) = [104, 0xFFFD]"
  using displayed_text_arrives_whole
    [of "\<lparr>lim_max_control_bytes = 1024, lim_max_playback_credit_ms = 0\<rparr>" "\<lambda>_. True" "[104, 0]"]
  by (simp add: replace_nul_def) blast


text \<open>\<open>bounded_caption\<close>: the characters of the trimmed text as long as they fit.\<close>

fun caption_loop :: "nat \<Rightarrow> rtext \<Rightarrow> rtext" where
  "caption_loop used [] = []"
| "caption_loop used (c # cs) =
     (if used + utf8_len c > CAPTION_MAX_BYTES then [] else c # caption_loop (used + utf8_len c) cs)"

definition bounded_caption :: "rtext \<Rightarrow> rtext" where
  "bounded_caption t = caption_loop 0 (trim t)"

lemma bounded_caption_fits: "str_len (bounded_caption t) \<le> CAPTION_MAX_BYTES"
proof -
  have "used + str_len (caption_loop used cs) \<le> CAPTION_MAX_BYTES" if "used \<le> CAPTION_MAX_BYTES" for used cs
    using that by (induction used cs rule: caption_loop.induct) (auto simp: add.assoc)
  from this [of 0] show ?thesis by (simp add: bounded_caption_def)
qed

section \<open>Text and actions from a device\<close>

datatype device_input =
    InputText uuid rtext
  | InputAction uuid rtext rtext
  | InputCancel uuid

text \<open>What the handler does: answer the request with a status and a code, submit its content, or cancel
  the active request and answer.\<close>

datatype input_outcome =
    InputResult uuid string string
  | SubmitInput uuid rtext
  | CancelActive uuid

definition device_input_outcome :: "body_capabilities \<Rightarrow> uuid option \<Rightarrow> device_input \<Rightarrow> input_outcome" where
  "device_input_outcome cap active i =
     (case i of
        InputText rid t \<Rightarrow>
          (if \<not> cap_text_input cap then InputResult rid ''rejected'' ''not_supported''
           else if trim t = [] \<or> str_len t > TEXT_MAX_BYTES \<or> 0 \<in> set t then InputResult rid ''rejected'' ''invalid_text''
           else SubmitInput rid t)
      | InputAction rid action label \<Rightarrow>
          (if \<not> cap_actions cap then InputResult rid ''rejected'' ''not_supported''
           else if \<not> valid_name action 64 \<or> str_len label > 128 \<or> 0 \<in> set label
           then InputResult rid ''rejected'' ''invalid_action''
           else SubmitInput rid (lit ''I pressed the device action '' @ [39] @ action @ [39] @ lit '' ('' @ label @ lit '').''))
      | InputCancel rid \<Rightarrow>
          (if active = Some rid then CancelActive rid else InputResult rid ''rejected'' ''not_active''))"

text \<open>\<open>submit_device_input\<close> after the answer of \<open>MessageRequests::submit\<close>: the answer sent to the device,
  with the completed text to display first, and the request that is active afterwards.\<close>

record submit_accepted =
  sa_started :: bool
  sa_replayed :: bool
  sa_status :: string

datatype submit_answer =
    AnswerBusy
  | AnswerRejected string
  | AnswerRunning
  | AnswerUnavailable
  | AnswerCompleted "rtext option"
  | AnswerAccepted bool

definition submit_error_code :: "app_error \<Rightarrow> string" where
  "submit_error_code e = (case e of RequestReplayUnsafe _ \<Rightarrow> ''unsafe_retry'' | Conflict _ \<Rightarrow> ''busy_or_conflict''
     | Validation _ \<Rightarrow> ''invalid_request'' | _ \<Rightarrow> ''request_failed'')"

definition submit_device_input ::
  "body_capabilities \<Rightarrow> uuid \<Rightarrow> (unit \<Rightarrow> app_error + submit_accepted) \<Rightarrow> (unit \<Rightarrow> app_error + rtext option) \<Rightarrow>
     uuid option \<Rightarrow> submit_answer \<times> uuid option" where
  "submit_device_input cap rid submit completed_response active =
     (if active \<noteq> None \<and> active \<noteq> Some rid then (AnswerBusy, active)
      else (case submit () of
          Inl e \<Rightarrow> (AnswerRejected (submit_error_code e), active)
        | Inr a \<Rightarrow>
            if \<not> sa_started a
            then (if active \<noteq> None \<or> sa_status a \<in> {''queued'', ''running''} then (AnswerRunning, active)
                  else if cap_text_output cap
                  then (case completed_response () of Inr (Some t) \<Rightarrow> (AnswerCompleted (Some t), active)
                        | _ \<Rightarrow> (AnswerUnavailable, active))
                  else (AnswerCompleted None, active))
            else (AnswerAccepted (sa_replayed a), Some rid)))"

text \<open>The task of an accepted request clears the active one when its events end.\<close>

definition input_ended :: "uuid \<Rightarrow> uuid option \<Rightarrow> uuid option" where
  "input_ended rid active = (if active = Some rid then None else active)"

lemma one_active_input:
  "submit_device_input cap rid submit completed_response (Some other) = (answer, active) \<Longrightarrow> other \<noteq> rid \<Longrightarrow>
   answer = AnswerBusy \<and> active = Some other"
  by (simp add: submit_device_input_def)

text \<open>\<open>send_device_text\<close>: the errors before the text is displayed.\<close>

definition check_device_text :: "rtext \<Rightarrow> body_capabilities option \<Rightarrow> app_error + body_capabilities" where
  "check_device_text t connection =
     (if t = [] \<or> str_len t > 16 * 1024 \<or> 0 \<in> set t
      then Inl (Validation ''display text must contain 1 to 16384 UTF-8 bytes without NUL'')
      else (case connection of
          None \<Rightarrow> Inl (Conflict ''device is not connected'')
        | Some cap \<Rightarrow> if \<not> cap_text_output cap then Inl (Validation ''device has no text output capability'') else Inr cap))"

definition send_device_text ::
  "rtext \<Rightarrow> (body_capabilities \<times> body_limits) option \<Rightarrow> (nat \<Rightarrow> bool) \<Rightarrow> app_error + unit" where
  "send_device_text t connection sends =
     (case check_device_text t (map_option fst connection) of
        Inl e \<Rightarrow> Inl e
      | Inr _ \<Rightarrow> (case display_text (snd (the connection)) sends 0 t True of
            (_, _, True) \<Rightarrow> Inr () | (_, _, False) \<Rightarrow> Inl (Conflict ''device disconnected during delivery'')))"

section \<open>Sensors\<close>

record sensor_sample =
  ss_name :: rtext
  ss_sequence :: nat
  ss_value :: json
  ss_unit :: rtext

record sensor_state =
  sn_generation :: nat
  sn_sensors :: "(rtext, sensor_sample \<times> nat \<times> nat) hmap"
  sn_last :: "nat option"
  sn_tokens :: nat

definition FULL_TOKENS :: nat where "FULL_TOKENS = 10000000000"
definition ONE_TOKEN :: nat where "ONE_TOKEN = 1000000000"

definition valid_sample :: "body_capabilities \<Rightarrow> sensor_sample \<Rightarrow> bool" where
  "valid_sample cap i \<longleftrightarrow> cap_sensors cap \<and> valid_name (ss_name i) 32 \<and> str_len (ss_unit i) \<le> 16 \<and>
     (\<forall>c \<in> set (ss_unit i). \<not> (c < 32 \<or> c = 127)) \<and>
     (case ss_value i of JBool _ \<Rightarrow> True | JNum _ \<Rightarrow> True | _ \<Rightarrow> False)"

datatype sensor_outcome = SensorClosed | SensorError string | SensorAck

definition refill :: "nat \<Rightarrow> sensor_state \<Rightarrow> sensor_state" where
  "refill now s =
     s\<lparr>sn_sensors := hm_retain (\<lambda>_ (_, at, _). now - at < SENSOR_TTL) (sn_sensors s),
       sn_tokens := (case sn_last s of None \<Rightarrow> FULL_TOKENS
           | Some earlier \<Rightarrow> min FULL_TOKENS (sn_tokens s + (now - earlier) * 10)),
       sn_last := Some now\<rparr>"

text \<open>The value \<open>True\<close> says that the sample was recorded.\<close>

definition record_sensor ::
  "body_capabilities \<Rightarrow> nat \<Rightarrow> bool \<Rightarrow> sensor_sample \<Rightarrow> nat \<Rightarrow> sensor_state \<Rightarrow> (sensor_outcome \<times> bool) \<times> sensor_state" where
  "record_sensor cap generation disconnected i now s =
     (if \<not> valid_sample cap i then ((SensorClosed, False), s)
      else if sn_generation s \<noteq> generation \<or> disconnected then ((SensorClosed, False), s)
      else (let s1 = refill now s; existing = hm_get (sn_sensors s1) (ss_name i) in
        case (case existing of None \<Rightarrow> None
              | Some (sample, _, recorded) \<Rightarrow>
                  if recorded = generation \<and> ss_sequence i \<le> ss_sequence sample then Some sample else None) of
          Some sample \<Rightarrow>
            ((if ss_sequence i = ss_sequence sample \<and> ss_value i = ss_value sample \<and> ss_unit i = ss_unit sample
              then SensorAck else SensorError ''stale_sensor_sequence'', False), s1)
        | None \<Rightarrow>
            if sn_tokens s1 < ONE_TOKEN then ((SensorError ''sensor_rate_limited'', False), s1)
            else if existing = None \<and> MAX_SENSORS \<le> length (sn_sensors s1)
            then ((SensorError ''sensor_limit'', False), s1)
            else ((SensorAck, True), s1\<lparr>sn_tokens := sn_tokens s1 - ONE_TOKEN,
                    sn_sensors := hm_insert (ss_name i) (i, now, generation) (sn_sensors s1)\<rparr>)))"

definition sensor_snapshot :: "nat \<Rightarrow> sensor_state \<Rightarrow> sensor_sample list" where
  "sensor_snapshot now s =
     map (\<lambda>(_, sample, _, _). sample)
       (filter (\<lambda>(_, _, at, _). now - at < SENSOR_TTL) (sort_key fst (sn_sensors s)))"

definition clear_samples :: "sensor_state \<Rightarrow> sensor_state" where
  "clear_samples s = s\<lparr>sn_sensors := []\<rparr>"

definition new_sensors :: "nat \<Rightarrow> sensor_state" where
  "new_sensors generation = \<lparr>sn_generation = generation, sn_sensors = [], sn_last = None, sn_tokens = 0\<rparr>"

text \<open>A sequence of samples with the times they arrive at, and how many were recorded.\<close>

fun sensor_run ::
  "body_capabilities \<Rightarrow> nat \<Rightarrow> (sensor_sample \<times> nat) list \<Rightarrow> sensor_state \<Rightarrow> nat \<times> sensor_state" where
  "sensor_run cap generation [] s = (0, s)"
| "sensor_run cap generation ((i, now) # rest) s =
     (let ((_, recorded), s1) = record_sensor cap generation False i now s;
          (n, s2) = sensor_run cap generation rest s1
      in ((if recorded then 1 else 0) + n, s2))"

definition available :: "sensor_state \<Rightarrow> nat \<Rightarrow> nat" where
  "available s t = (case sn_last s of None \<Rightarrow> FULL_TOKENS | Some earlier \<Rightarrow> min FULL_TOKENS (sn_tokens s + (t - earlier) * 10))"

definition seen_before :: "sensor_state \<Rightarrow> nat \<Rightarrow> bool" where
  "seen_before s t \<longleftrightarrow> (case sn_last s of None \<Rightarrow> True | Some earlier \<Rightarrow> earlier \<le> t)"

lemma refill_fields [simp]:
  "sn_tokens (refill now s) = available s now" "sn_last (refill now s) = Some now"
  "sn_generation (refill now s) = sn_generation s"
  by (simp_all add: refill_def available_def)

lemma refill_fewer: "length (sn_sensors (refill now s)) \<le> length (sn_sensors s)"
  by (simp add: refill_def hm_retain_def)

lemma available_later:
  assumes "seen_before s t" "t \<le> t'" shows "available s t' \<le> available s t + (t' - t) * 10"
proof (cases "sn_last s")
  case (Some earlier)
  then have "(t' - earlier) * 10 = (t - earlier) * 10 + (t' - t) * 10" using assms by (simp add: seen_before_def)
  moreover have "min a (b + (c + d)) \<le> min a (b + c) + d" for a b c d :: nat by (simp add: min_def)
  ultimately show ?thesis by (simp add: available_def Some)
qed (simp add: available_def)

lemma length_insert_present: "hm_get m k \<noteq> None \<Longrightarrow> length (hm_insert k v m) = length m"
  by (induction m) auto

text \<open>A sample either leaves the state alone, or refills the tokens and takes one if it is recorded.\<close>

lemma record_sensor_cases:
  assumes "record_sensor cap generation d i now s = ((outcome, recorded), s1)"
  obtains "s1 = s" "\<not> recorded"
  | "sn_last s1 = Some now" "sn_tokens s1 + (if recorded then ONE_TOKEN else 0) = available s now"
    "length (sn_sensors s) \<le> MAX_SENSORS \<Longrightarrow> length (sn_sensors s1) \<le> MAX_SENSORS"
proof (cases "valid_sample cap i \<and> sn_generation s = generation \<and> \<not> d")
  case False
  then show ?thesis using assms that(1) by (auto simp: record_sensor_def split: if_splits)
next
  case True
  let ?s = "refill now s"
  have len: "length (hm_insert k v (sn_sensors ?s)) \<le> MAX_SENSORS"
    if "length (sn_sensors s) \<le> MAX_SENSORS" "hm_get (sn_sensors ?s) k \<noteq> None \<or> \<not> MAX_SENSORS \<le> length (sn_sensors ?s)" for k v
  proof (cases "hm_get (sn_sensors ?s) k")
    case None
    then show ?thesis using that(2) by (simp add: hm_insert_fresh)
  next
    case (Some w)
    then have "length (hm_insert k v (sn_sensors ?s)) = length (sn_sensors ?s)"
      by (simp add: length_insert_present)
    then show ?thesis using that(1) refill_fewer [of now s] by simp
  qed
  show ?thesis
    using assms True len [of "ss_name i" "(i, now, generation)"] refill_fewer [of now s]
    by (intro that(2)) (auto simp: record_sensor_def Let_def split: if_splits option.splits prod.splits)
qed

lemma sensor_run_bound:
  assumes "sorted (t # map snd samples)" "seen_before s t" "\<forall>(i, now) \<in> set samples. now \<le> e" "t \<le> e"
  shows "fst (sensor_run cap generation samples s) * ONE_TOKEN \<le> available s t + (e - t) * 10"
  using assms
proof (induction samples arbitrary: s t)
  case (Cons x rest)
  obtain i now where x: "x = (i, now)" by (cases x)
  obtain outcome recorded s1 where r: "record_sensor cap generation False i now s = ((outcome, recorded), s1)"
    by (cases "record_sensor cap generation False i now s") (cases "fst (record_sensor cap generation False i now s)", auto)
  have t: "t \<le> now" "now \<le> e" "sorted (now # map snd rest)" using Cons.prems by (auto simp: x)
  have later: "available s now \<le> available s t + (now - t) * 10" by (rule available_later [OF Cons.prems(2) t(1)])
  have split: "(now - t) * 10 + (e - now) * 10 = (e - t) * 10" using t by simp
  have n: "fst (sensor_run cap generation (x # rest) s) = (if recorded then 1 else 0) + fst (sensor_run cap generation rest s1)"
    by (simp add: x r case_prod_unfold Let_def)
  have rest: "\<forall>(i, now) \<in> set rest. now \<le> e" using Cons.prems(3) by simp
  show ?case
  proof (cases rule: record_sensor_cases [OF r])
    case 1
    have "seen_before s now" using Cons.prems(2) t(1) by (auto simp: seen_before_def split: option.splits)
    from Cons.IH [OF t(3) this rest t(2)] show ?thesis using later split 1 n by simp
  next
    case 2
    have "seen_before s1 now" by (simp add: seen_before_def 2)
    from Cons.IH [OF t(3) this rest t(2)]
    have "fst (sensor_run cap generation rest s1) * ONE_TOKEN \<le> sn_tokens s1 + (e - now) * 10"
      by (simp add: available_def 2)
    then show ?thesis using later split 2(2) unfolding n by (cases recorded) simp_all
  qed
qed simp

lemma sensor_data_is_rate_limited_parts:
  assumes "sorted (map snd samples)" and "\<forall>(i, now) \<in> set samples. t \<le> now \<and> now \<le> t + span"
    and "seen_before s t" and "length (sn_sensors s) \<le> 16"
  shows "fst (sensor_run cap generation samples s) * 1000000000 \<le> 10 * 1000000000 + 10 * span"
    and "length (sn_sensors (snd (sensor_run cap generation samples s))) \<le> 16"
proof -
  have "sorted (t # map snd samples)" using assms(1,2) by (auto simp: case_prod_unfold)
  from sensor_run_bound [OF this assms(3), of "t + span" cap generation]
  have "fst (sensor_run cap generation samples s) * ONE_TOKEN \<le> available s t + span * 10" using assms(2) by auto
  moreover have "available s t \<le> FULL_TOKENS" by (simp add: available_def split: option.splits)
  ultimately show "fst (sensor_run cap generation samples s) * 1000000000 \<le> 10 * 1000000000 + 10 * span"
    by (simp add: FULL_TOKENS_def ONE_TOKEN_def)
  show "length (sn_sensors (snd (sensor_run cap generation samples s))) \<le> 16"
    using assms(4)
  proof (induction samples arbitrary: s)
    case (Cons x rest)
    obtain i now where x: "x = (i, now)" by (cases x)
    obtain outcome recorded s1 where r: "record_sensor cap generation False i now s = ((outcome, recorded), s1)"
      by (cases "record_sensor cap generation False i now s") (cases "fst (record_sensor cap generation False i now s)", auto)
    have "length (sn_sensors s1) \<le> 16"
      using Cons.prems by (cases rule: record_sensor_cases [OF r]) (simp_all add: MAX_SENSORS_def)
    from Cons.IH [OF this] show ?case by (simp add: x r case_prod_unfold Let_def)
  qed simp
qed

text \<open>A device cannot flood the daemon with sensor data: of the samples that arrive within any span
  of time at most ten, and ten more for every second of it, are recorded, and the samples of at most
  sixteen sensors are kept.\<close>

theorem sensor_data_is_rate_limited:
  assumes "sorted (map snd samples)" and "\<forall>(i, now) \<in> set samples. t \<le> now \<and> now \<le> t + span"
    and "seen_before s t" and "length (sn_sensors s) \<le> 16"
  shows "(fst (sensor_run cap generation samples s) * 1000000000 \<le> 10 * 1000000000 + 10 * span) \<and>
    (length (sn_sensors (snd (sensor_run cap generation samples s))) \<le> 16)"
  by (intro conjI impI sensor_data_is_rate_limited_parts [OF assms])

definition sample_reading :: "nat \<Rightarrow> sensor_sample" where
  "sample_reading n = \<lparr>ss_name = [116], ss_sequence = n, ss_value = JNum 20, ss_unit = []\<rparr>"

theorem sensor_data_is_rate_limited_witness:
  "fst (sensor_run (bh_capabilities sample_hello) 1 [(sample_reading 1, 5), (sample_reading 2, 7)] (new_sensors 1)) * 1000000000
     \<le> 10 * 1000000000 + 10 * 2 \<and>
   fst (sensor_run (bh_capabilities sample_hello) 1 [(sample_reading 1, 5), (sample_reading 2, 7)] (new_sensors 1)) = 2"
proof -
  have "fst (sensor_run (bh_capabilities sample_hello) 1 [(sample_reading 1, 5), (sample_reading 2, 7)] (new_sensors 1)) = 2"
    by (simp add: new_sensors_def record_sensor_def valid_sample_def sample_reading_def sample_hello_def valid_name_def
        is_ascii_alphanumeric_def utf8_len_def refill_def hm_retain_def FULL_TOKENS_def ONE_TOKEN_def MAX_SENSORS_def
        SENSOR_TTL_def Let_def)
  then show ?thesis
    using sensor_data_is_rate_limited [of "[(sample_reading 1, 5), (sample_reading 2, 7)]" 5 2 "new_sensors 1"
        "bh_capabilities sample_hello" 1] by (simp add: new_sensors_def seen_before_def)
qed

end
