(* ===== verification/Wake_Arbitration.thy ===== *)
theory Wake_Arbitration
  imports BoBe_Prelude BoBe_Text "HOL-Library.List_Lexorder"
begin

unbundle bit_operations_syntax

text \<open>
  Which body answers a spoken wake word: \<open>src/BoBeService/src/body/wake_arbitrator.rs\<close>. Bodies that
  hear it submit a candidate; those of one window of 150 ms form a round, whose best candidate wins.
  \<open>submit\<close> takes the lock twice: \<open>submit_begin\<close> joins or opens a round, \<open>submit_end\<close> decides after the
  deadline. Instants are milliseconds. An \<open>f32\<close> is its 32 bits, compared as \<open>total_cmp\<close> does; strings
  compare by code points, which is the order of their UTF-8 bytes.
\<close>

section \<open>State\<close>

definition WINDOW :: nat where "WINDOW = 150"

type_synonym f32 = "32 word"

record wake_candidate =
  wc_endpoint :: rtext
  wc_request :: rtext
  wc_confidence :: f32
  wc_snr :: f32
  wc_energy :: f32

datatype wake_decision = Winner | Lost | ExplicitCapturePreempted

record wake_round =
  wr_id :: "64 word"
  wr_deadline :: nat
  wr_candidates :: "(rtext, wake_candidate) hmap"
  wr_winner :: "rtext option"
  wr_preempted :: bool

record wake_arbitrator =
  wa_round :: "wake_round option"
  wa_next :: "64 word"

definition new_arbitrator :: wake_arbitrator where
  "new_arbitrator = \<lparr>wa_round = None, wa_next = 0\<rparr>"

section \<open>Operations\<close>

definition candidate_key :: "wake_candidate \<Rightarrow> rtext" where
  "candidate_key c = wc_endpoint c @ lit '':'' @ wc_request c"

text \<open>\<open>f32::total_cmp\<close>: the bits of a negative number are flipped but for the sign, and the results are
  compared as signed integers.\<close>

definition total_key :: "f32 \<Rightarrow> int" where
  "total_key w = sint (w XOR drop_bit 1 (signed_drop_bit 31 w))"

text \<open>\<open>compare_candidates left right\<close> is not \<open>Greater\<close>: the lexicographic order of confidence, signal
  to noise ratio, energy, and the endpoints the other way round.\<close>

definition not_greater :: "wake_candidate \<Rightarrow> wake_candidate \<Rightarrow> bool" where
  "not_greater l r \<longleftrightarrow>
     (if total_key (wc_confidence l) \<noteq> total_key (wc_confidence r)
      then total_key (wc_confidence l) < total_key (wc_confidence r)
      else if total_key (wc_snr l) \<noteq> total_key (wc_snr r) then total_key (wc_snr l) < total_key (wc_snr r)
      else if total_key (wc_energy l) \<noteq> total_key (wc_energy r) then total_key (wc_energy l) < total_key (wc_energy r)
      else wc_endpoint r \<le> wc_endpoint l)"

text \<open>\<open>max_by\<close>: the last of the greatest elements.\<close>

fun best_candidate :: "wake_candidate list \<Rightarrow> wake_candidate option" where
  "best_candidate [] = None"
| "best_candidate (c # cs) =
     (case best_candidate cs of None \<Rightarrow> Some c | Some d \<Rightarrow> if not_greater c d then Some d else Some c)"

definition submit_begin ::
  "wake_candidate \<Rightarrow> nat \<Rightarrow> wake_arbitrator \<Rightarrow> (64 word \<times> nat) \<times> wake_arbitrator" where
  "submit_begin c now a =
     (let (r, next) =
        (case wa_round a of
           Some r \<Rightarrow>
             if wr_deadline r \<le> now \<or> wr_preempted r
             then (\<lparr>wr_id = wa_next a + 1, wr_deadline = now + WINDOW, wr_candidates = [], wr_winner = None,
                    wr_preempted = False\<rparr>, wa_next a + 1)
             else (r, wa_next a)
         | None \<Rightarrow> (\<lparr>wr_id = wa_next a + 1, wr_deadline = now + WINDOW, wr_candidates = [], wr_winner = None,
                    wr_preempted = False\<rparr>, wa_next a + 1))
      in ((wr_id r, wr_deadline r),
          a\<lparr>wa_round := Some (r\<lparr>wr_candidates := hm_insert (candidate_key c) c (wr_candidates r)\<rparr>), wa_next := next\<rparr>))"

definition round_winner :: "wake_round \<Rightarrow> rtext" where
  "round_winner r =
     (case wr_winner r of
        Some w \<Rightarrow> w
      | None \<Rightarrow> (case best_candidate (map snd (wr_candidates r)) of None \<Rightarrow> [] | Some c \<Rightarrow> candidate_key c))"

definition submit_end :: "64 word \<Rightarrow> rtext \<Rightarrow> wake_arbitrator \<Rightarrow> wake_decision \<times> wake_arbitrator" where
  "submit_end round_id key a =
     (case wa_round a of
        None \<Rightarrow> (Lost, a)
      | Some r \<Rightarrow>
          (if wr_id r \<noteq> round_id then (Lost, a)
           else if wr_preempted r then (ExplicitCapturePreempted, a)
           else (if round_winner r = key then Winner else Lost,
                 a\<lparr>wa_round := Some (r\<lparr>wr_winner := Some (round_winner r)\<rparr>)\<rparr>)))"

definition preempt_pending :: "nat \<Rightarrow> wake_arbitrator \<Rightarrow> wake_arbitrator" where
  "preempt_pending now a =
     (case wa_round a of
        None \<Rightarrow> a
      | Some r \<Rightarrow> if now < wr_deadline r then a\<lparr>wa_round := Some (r\<lparr>wr_preempted := True\<rparr>)\<rparr> else a)"

section \<open>One window\<close>

text \<open>The candidates of a window: the first opens the round at \<open>t\<close>, the others join it before its end.\<close>

definition joined :: "(wake_candidate \<times> nat) list \<Rightarrow> wake_arbitrator \<Rightarrow> wake_arbitrator" where
  "joined cs a = fold (\<lambda>(c, now) a. snd (submit_begin c now a)) cs a"

definition decided :: "64 word \<Rightarrow> rtext list \<Rightarrow> wake_arbitrator \<Rightarrow> wake_arbitrator" where
  "decided rid keys a = fold (\<lambda>k a. snd (submit_end rid k a)) keys a"

lemma not_greater_total: "not_greater a b \<or> not_greater b a"
  by (auto simp: not_greater_def)

lemma not_greater_trans: "not_greater a b \<Longrightarrow> not_greater b c \<Longrightarrow> not_greater a c"
  by (auto simp: not_greater_def split: if_splits)

lemma best_candidate_None: "best_candidate cs = None \<longleftrightarrow> cs = []"
  by (cases cs) (auto split: option.splits)

lemma best_candidate_max:
  "best_candidate cs = Some d \<Longrightarrow> d \<in> set cs \<and> (\<forall>c \<in> set cs. not_greater c d)"
proof (induction cs arbitrary: d)
  case (Cons c cs)
  have refl: "not_greater d d" for d using not_greater_total by blast
  show ?case
  proof (cases "best_candidate cs")
    case None
    then have "cs = []" by (simp add: best_candidate_None)
    then show ?thesis using Cons.prems refl by simp
  next
    case (Some e)
    note e = Cons.IH [OF Some]
    show ?thesis
    proof (cases "not_greater c e")
      case True
      then show ?thesis using Cons.prems Some e by auto
    next
      case False
      then have "not_greater e c" using not_greater_total by blast
      then show ?thesis using Cons.prems Some e False refl by (auto intro: not_greater_trans)
    qed
  qed
qed simp

definition open_round :: "64 word \<Rightarrow> nat \<Rightarrow> (rtext, wake_candidate) hmap \<Rightarrow> wake_round" where
  "open_round rid deadline cs =
     \<lparr>wr_id = rid, wr_deadline = deadline, wr_candidates = cs, wr_winner = None, wr_preempted = False\<rparr>"

lemma joined_round:
  "wa_round a = Some (open_round rid deadline cs) \<Longrightarrow> \<forall>(c, now) \<in> set late. now < deadline \<Longrightarrow>
   wa_round (joined late a) =
     Some (open_round rid deadline (fold (\<lambda>(c, _). hm_insert (candidate_key c) c) late cs)) \<and>
   wa_next (joined late a) = wa_next a"
proof (induction late arbitrary: a cs)
  case (Cons cn late)
  obtain c now where cn: "cn = (c, now)" by (cases cn)
  have "wa_round (snd (submit_begin c now a)) = Some (open_round rid deadline (hm_insert (candidate_key c) c cs))"
       "wa_next (snd (submit_begin c now a)) = wa_next a"
    using Cons.prems by (auto simp: submit_begin_def open_round_def cn Let_def)
  from Cons.IH [OF this(1)] this(2) Cons.prems(2) show ?case by (simp add: joined_def cn)
qed (simp add: joined_def)

text \<open>The winner of a round, once fixed, stays.\<close>

lemma decided_round:
  "wa_round a = Some r \<Longrightarrow> wr_id r = rid \<Longrightarrow> \<not> wr_preempted r \<Longrightarrow>
   \<exists>r'. wa_round (decided rid keys a) = Some r' \<and> wr_id r' = rid \<and> \<not> wr_preempted r' \<and>
      round_winner r' = round_winner r"
proof (induction keys arbitrary: a r)
  case (Cons k keys)
  let ?r = "r\<lparr>wr_winner := Some (round_winner r)\<rparr>"
  have "wa_round (snd (submit_end rid k a)) = Some ?r" using Cons.prems by (simp add: submit_end_def)
  from Cons.IH [OF this] Cons.prems show ?case by (simp add: decided_def round_winner_def)
qed (simp add: decided_def)

lemma submit_end_decides:
  "wa_round a = Some r \<Longrightarrow> wr_id r = rid \<Longrightarrow> \<not> wr_preempted r \<Longrightarrow>
   fst (submit_end rid k a) = (if k = round_winner r then Winner else Lost)"
  by (auto simp: submit_end_def)

lemma entered_fresh:
  "distinct (map (candidate_key \<circ> fst) late) \<Longrightarrow> \<forall>c \<in> set late. candidate_key (fst c) \<notin> fst ` set m \<Longrightarrow>
   fold (\<lambda>(c, _). hm_insert (candidate_key c) c) late m = m @ map (\<lambda>(c, _). (candidate_key c, c)) late"
proof (induction late arbitrary: m)
  case (Cons cn late)
  have "hm_get m (candidate_key (fst cn)) = None" using Cons.prems(2) by (simp add: map_of_eq_None_iff)
  then have "hm_insert (candidate_key (fst cn)) (fst cn) m = m @ [(candidate_key (fst cn), fst cn)]"
    by (rule hm_insert_fresh)
  moreover have "\<forall>c \<in> set late. candidate_key (fst c) \<notin> fst ` set (m @ [(candidate_key (fst cn), fst cn)])"
  proof
    fix c assume c: "c \<in> set late"
    have "candidate_key (fst c) \<noteq> candidate_key (fst cn)"
    proof
      assume "candidate_key (fst c) = candidate_key (fst cn)"
      with c have "candidate_key (fst cn) \<in> (\<lambda>a. candidate_key (fst a)) ` set late" by (rule rev_image_eqI [OF _ sym])
      then show False using Cons.prems(1) by simp
    qed
    then show "candidate_key (fst c) \<notin> fst ` set (m @ [(candidate_key (fst cn), fst cn)])"
      using Cons.prems(2) c by auto
  qed
  ultimately show ?case using Cons.IH [of "m @ [(candidate_key (fst cn), fst cn)]"] Cons.prems(1)
    by (simp add: case_prod_unfold)
qed simp

text \<open>A wake word heard by several bodies is answered by exactly one: for the candidates of one
  window, in whatever order they are decided after it and however often, the daemon names one of
  them, the same for all, and no candidate of the window is better by confidence, then signal to
  noise ratio, then energy.\<close>

theorem one_body_answers_the_wake_word:
  assumes opens: "wa_round a = None \<or> (\<exists>r. wa_round a = Some r \<and> (wr_deadline r \<le> t \<or> wr_preempted r))"
    and window: "\<forall>(c, now) \<in> set late. now < t + WINDOW"
    and cands: "cs = (c0, t) # late" "distinct (map (candidate_key \<circ> fst) cs)"
    and rid: "rid = fst (fst (submit_begin c0 t a))"
  shows "\<exists>w \<in> fst ` set cs. (\<forall>c \<in> fst ` set cs. not_greater c w) \<and>
      (\<forall>keys k. fst (submit_end rid k (decided rid keys (joined cs a))) =
          (if k = candidate_key w then Winner else Lost))"
proof -
  let ?a = "snd (submit_begin c0 t a)" and ?m = "map (\<lambda>(c, _). (candidate_key c, c)) cs"
  have "wa_round ?a = Some (open_round rid (t + WINDOW) [(candidate_key c0, c0)])"
    using opens rid by (auto simp: submit_begin_def open_round_def Let_def split: option.splits if_splits)
  from joined_round [OF this window] entered_fresh [of late "[(candidate_key c0, c0)]"]
  have j: "wa_round (joined cs a) = Some (open_round rid (t + WINDOW) ?m)"
    using cands(2) by (force simp: joined_def cands(1))
  have m: "map snd ?m = map fst cs" by (simp add: case_prod_unfold)
  then obtain w where w: "best_candidate (map snd ?m) = Some w"
    using best_candidate_None [of "map snd ?m"] cands(1) by auto
  have best: "w \<in> fst ` set cs" "\<forall>c \<in> fst ` set cs. not_greater c w"
    using best_candidate_max [OF w] unfolding m by auto
  let ?r = "open_round rid (t + WINDOW) ?m"
  have win: "round_winner ?r = candidate_key w"
    unfolding round_winner_def open_round_def using w by simp
  have r: "wr_id ?r = rid" "\<not> wr_preempted ?r" by (simp_all add: open_round_def)
  have "fst (submit_end rid k (decided rid keys (joined cs a))) = (if k = candidate_key w then Winner else Lost)" for keys k
  proof -
    obtain r' where r': "wa_round (decided rid keys (joined cs a)) = Some r'" "wr_id r' = rid"
        "\<not> wr_preempted r'" "round_winner r' = round_winner ?r"
      using decided_round [OF j r] by blast
    from submit_end_decides [OF r'(1,2,3)] show ?thesis by (simp add: r'(4) win)
  qed
  with best show ?thesis by blast
qed

definition sample_candidate :: "nat \<Rightarrow> f32 \<Rightarrow> wake_candidate" where
  "sample_candidate e confidence =
     \<lparr>wc_endpoint = [e], wc_request = [e], wc_confidence = confidence, wc_snr = 0, wc_energy = 0\<rparr>"

text \<open>0.5 against 0.75, as bits.\<close>

theorem one_body_answers_the_wake_word_witness:
  "\<exists>w \<in> {sample_candidate 97 0x3F000000, sample_candidate 98 0x3F400000}.
     \<forall>keys k. fst (submit_end 1 k (decided 1 keys
         (joined [(sample_candidate 97 0x3F000000, 10), (sample_candidate 98 0x3F400000, 60)] new_arbitrator))) =
       (if k = candidate_key w then Winner else Lost)"
proof -
  let ?cs = "[(sample_candidate 97 0x3F000000, 10), (sample_candidate 98 0x3F400000, 60)]"
  have d: "distinct (map (candidate_key \<circ> fst) ?cs)"
    by (simp add: candidate_key_def sample_candidate_def lit_def)
  have r: "1 = fst (fst (submit_begin (sample_candidate 97 0x3F000000) 10 new_arbitrator))"
    by (simp add: submit_begin_def new_arbitrator_def Let_def)
  have o: "wa_round new_arbitrator = None \<or>
      (\<exists>r. wa_round new_arbitrator = Some r \<and> (wr_deadline r \<le> 10 \<or> wr_preempted r))"
    by (simp add: new_arbitrator_def)
  have w: "\<forall>(c, now) \<in> set [(sample_candidate 98 0x3F400000, 60)]. now < 10 + WINDOW"
    by (simp add: WINDOW_def)
  have i: "fst ` set ?cs = {sample_candidate 97 0x3F000000, sample_candidate 98 0x3F400000}" by simp
  show ?thesis using one_body_answers_the_wake_word [OF o w refl d r] unfolding i by blast
qed

text \<open>An explicit capture within the window preempts every candidate of it.\<close>

lemma explicit_capture_preempts:
  assumes "wa_round a = Some r" "now < wr_deadline r"
  shows "fst (submit_end (wr_id r) k (decided (wr_id r) keys (preempt_pending now a))) = ExplicitCapturePreempted"
proof -
  let ?a = "preempt_pending now a"
  have a: "wa_round ?a = Some (r\<lparr>wr_preempted := True\<rparr>)" using assms by (simp add: preempt_pending_def)
  then have "decided (wr_id r) keys ?a = ?a"
    by (induction keys) (simp_all add: decided_def submit_end_def)
  then show ?thesis using a by (simp add: submit_end_def)
qed

text \<open>A candidate that arrives after the deadline but before the candidates of the window resume opens
  the next round: every candidate of the window loses, and none of it has won.\<close>

lemma late_candidate_silences_the_window:
  assumes "wa_round a = Some r" "wr_id r = wa_next a" "wr_deadline r \<le> now"
  shows "fst (submit_end (wr_id r) k (snd (submit_begin c now a))) = Lost"
  using assms by (simp add: submit_begin_def submit_end_def Let_def)

end
