(* ===== verification/Memory_File.thy ===== *)
theory Memory_File
  imports BoBe_Prelude BoBe_Text Goal_Documents
begin

text \<open>
  What the assistant remembers of the owner: the Markdown file of
  \<open>src/BoBeService/src/provider/memory_file.rs\<close>, the tools of \<open>provider/domain_tools.rs\<close> that edit it,
  what \<open>runtime/capture_learner.rs\<close> adds to it and how \<open>runtime/consolidation.rs\<close> replaces it.
  The write lock makes each operation one step. A range of the text is a pair of offsets that count
  characters; lengths are in bytes, as in the code. The outcome of a write and the printed time are
  arguments, the numbers in error messages are left out.
\<close>

section \<open>The file\<close>

definition DEFAULT_BODY :: rtext where
  "DEFAULT_BODY = lit ''# BoBe Memory'' @ [10, 10] @ lit ''## Profile'' @ [10, 10] @ lit ''## Active Goals'' @ [10, 10] @
     lit ''## Long-term'' @ [10, 10] @ lit ''## Recent'' @ [10]"

definition TARGET_MAX_BYTES :: nat where "TARGET_MAX_BYTES = 50 * 1024"
definition RECENT_MAX_BYTES :: nat where "RECENT_MAX_BYTES = 8 * 1024"

datatype disk_file = Missing | Readable rtext | Unreadable

text \<open>The outcomes of \<open>atomic_write\<close>: an error before the rename leaves the old file, one after it (the
  directory cannot be synced) leaves the new one.\<close>

datatype write_outcome = Written | Unwritten | WrittenWithError

record memory_file =
  mf_disk :: disk_file
  mf_revision :: "64 word"

definition new_memory :: "disk_file \<Rightarrow> memory_file" where
  "new_memory d = \<lparr>mf_disk = d, mf_revision = 1\<rparr>"

definition read_memory :: "memory_file \<Rightarrow> app_error + rtext" where
  "read_memory m = (case mf_disk m of Readable s \<Rightarrow> Inr s | Missing \<Rightarrow> Inr DEFAULT_BODY | Unreadable \<Rightarrow> Inl (Io ''read''))"

definition commit_memory :: "write_outcome \<Rightarrow> rtext \<Rightarrow> memory_file \<Rightarrow> (app_error + unit) \<times> memory_file" where
  "commit_memory w body m =
     (if str_len body > TARGET_MAX_BYTES then (Inl (Validation ''Memory is too large''), m)
      else (case w of
          Unwritten \<Rightarrow> (Inl (Io ''write''), m)
        | WrittenWithError \<Rightarrow> (Inl (Io ''sync''), m\<lparr>mf_disk := Readable body\<rparr>)
        | Written \<Rightarrow> (Inr (), m\<lparr>mf_disk := Readable body, mf_revision := mf_revision m + 1\<rparr>)))"

definition replace_memory :: "write_outcome \<Rightarrow> rtext \<Rightarrow> memory_file \<Rightarrow> (app_error + unit) \<times> memory_file" where
  "replace_memory w body m = commit_memory w body m"

section \<open>Sections\<close>

text \<open>\<open>split_inclusive\<close> at line feeds: the lines with their ends.\<close>

fun split_inclusive_from :: "rtext \<Rightarrow> rtext \<Rightarrow> rtext list" where
  "split_inclusive_from acc [] = (if acc = [] then [] else [acc])"
| "split_inclusive_from acc (c # cs) =
     (if c = 10 then (acc @ [c]) # split_inclusive_from [] cs else split_inclusive_from (acc @ [c]) cs)"

definition split_inclusive :: "rtext \<Rightarrow> rtext list" where
  "split_inclusive s = split_inclusive_from [] s"

definition heading_mark :: rtext where "heading_mark = lit ''## ''"

fun section_loop :: "rtext \<Rightarrow> nat \<Rightarrow> nat option \<Rightarrow> rtext list \<Rightarrow> (nat \<times> nat) option" where
  "section_loop header offset start [] = (case start of None \<Rightarrow> None | Some a \<Rightarrow> Some (a, offset))"
| "section_loop header offset start (line # ls) =
     (let title = trim_end line in
      case (if starts_with heading_mark title then start else None) of
        Some a \<Rightarrow> Some (a, offset)
      | None \<Rightarrow> section_loop header (offset + length line) (if title = header then Some offset else start) ls)"

definition section_range :: "rtext \<Rightarrow> rtext \<Rightarrow> (nat \<times> nat) option" where
  "section_range body heading = section_loop (heading_mark @ heading) 0 None (split_inclusive body)"

definition slice_of :: "rtext \<Rightarrow> nat \<times> nat \<Rightarrow> rtext" where
  "slice_of s r = take (snd r - fst r) (drop (fst r) s)"

fun join_lines :: "rtext list \<Rightarrow> rtext" where
  "join_lines [] = []"
| "join_lines [l] = l"
| "join_lines (l # ls) = l @ [10] @ join_lines ls"

text \<open>\<open>bound_recent\<close>: the newest lines of the section Recent, as long as they fit.\<close>

fun newest_lines :: "nat \<Rightarrow> rtext list \<Rightarrow> rtext list" where
  "newest_lines remaining [] = []"
| "newest_lines remaining (line # ls) =
     (if str_len line + 1 > remaining then [] else line # newest_lines (remaining - (str_len line + 1)) ls)"

definition RECENT :: rtext where "RECENT = lit ''Recent''"

definition bound_recent :: "rtext \<Rightarrow> rtext" where
  "bound_recent body =
     (case section_range body RECENT of
        None \<Rightarrow> body
      | Some r \<Rightarrow>
          (let sec = slice_of body r;
               available = min (TARGET_MAX_BYTES - (str_len body - str_len sec)) RECENT_MAX_BYTES;
               header = heading_mark @ RECENT @ [10];
               remaining = available - str_len header;
               content = drop 1 (dropWhile (\<lambda>c. c \<noteq> 10) sec);
               kept = rev (newest_lines remaining (rev (text_lines content)))
           in take (fst r) body @ header @ join_lines kept @ [10] @ drop (snd r) body))"

definition upsert_bullet :: "rtext \<Rightarrow> rtext \<Rightarrow> rtext \<Rightarrow> rtext" where
  "upsert_bullet body heading line =
     (case section_range body heading of
        None \<Rightarrow> (let out = trim_end body
                 in (if out = [] then out else out @ [10, 10]) @ heading_mark @ heading @ [10, 10] @ line @ [10])
      | Some r \<Rightarrow>
          (let head = take (snd r) body; rest = drop (snd r) body
           in trim_end head @ [10] @ line @ [10] @
              (if rest = [] then [] else (if starts_with [10] rest then [] else [10]) @ rest)))"

text \<open>\<open>context_excerpt\<close>: the beginning of a text that is too long for the prompt, and a notice.\<close>

definition EXCERPT_NOTICE :: rtext where
  "EXCERPT_NOTICE = [10] @ lit ''[Memory excerpt truncated; use bobe_memory_read for omitted facts.]'' @ [10]"

definition context_excerpt :: "rtext \<Rightarrow> nat \<Rightarrow> rtext" where
  "context_excerpt body max_bytes =
     (if str_len body \<le> max_bytes then body
      else byte_take (boundary_at_or_before body (max_bytes - str_len EXCERPT_NOTICE)) body @ EXCERPT_NOTICE)"

definition memory_context :: "nat \<Rightarrow> memory_file \<Rightarrow> app_error + rtext" where
  "memory_context max_bytes m =
     (case read_memory m of Inl e \<Rightarrow> Inl e | Inr body \<Rightarrow> Inr (context_excerpt (bound_recent body) max_bytes))"

section \<open>Edits\<close>

definition DASH :: rtext where "DASH = [32, 0x2014, 32]"

definition validate_edit_line :: "rtext \<Rightarrow> app_error + unit" where
  "validate_edit_line line =
     (if line = [] \<or> 13 \<in> set line \<or> 10 \<in> set line
      then Inl (Validation ''memory line must be one non-empty line'') else Inr ())"

text \<open>Is the fact already in the section, whenever it was added?\<close>

definition records_fact :: "rtext \<Rightarrow> rtext \<Rightarrow> rtext \<Rightarrow> bool" where
  "records_fact body heading entry \<longleftrightarrow>
     (case section_range body heading of
        None \<Rightarrow> False
      | Some r \<Rightarrow> list_ex (\<lambda>line. case split_first DASH line of None \<Rightarrow> False | Some (_, t) \<Rightarrow> t = entry)
                   (text_lines (slice_of body r)))"

definition bullet :: "rtext \<Rightarrow> rtext \<Rightarrow> rtext" where
  "bullet date entry = lit ''- '' @ date @ DASH @ entry"

definition append_under ::
  "write_outcome \<Rightarrow> rtext \<Rightarrow> rtext \<Rightarrow> rtext \<Rightarrow> memory_file \<Rightarrow> (app_error + unit) \<times> memory_file" where
  "append_under w date heading entry m =
     (let entry = trim entry in
      case validate_edit_line entry of
        Inl e \<Rightarrow> (Inl e, m)
      | Inr _ \<Rightarrow>
          (case read_memory m of
             Inl e \<Rightarrow> (Inl e, m)
           | Inr body \<Rightarrow>
               if records_fact body heading entry then (Inr (), m)
               else commit_memory w (bound_recent (upsert_bullet body heading (bullet date entry))) m))"

definition ensure_revision :: "64 word \<Rightarrow> memory_file \<Rightarrow> app_error + unit" where
  "ensure_revision expected m =
     (if mf_revision m = expected then Inr () else Inl (Conflict ''memory changed since it was read''))"

definition edit_exact_line :: "rtext \<Rightarrow> rtext \<Rightarrow> rtext option \<Rightarrow> app_error + rtext" where
  "edit_exact_line body current replacement =
     (if length (filter (\<lambda>l. l = current) (text_lines body)) \<noteq> 1
      then Inl (Conflict ''memory edit requires exactly one matching line'')
      else Inr (join_lines (concat (map (\<lambda>l. if l = current
                  then (case replacement of None \<Rightarrow> [] | Some new \<Rightarrow> [new]) else [l]) (text_lines body))) @
                (if body \<noteq> [] \<and> last body = 10 then [10] else [])))"

definition edit_line ::
  "write_outcome \<Rightarrow> 64 word \<Rightarrow> rtext \<Rightarrow> rtext option \<Rightarrow> memory_file \<Rightarrow> (app_error + unit) \<times> memory_file" where
  "edit_line w expected current replacement m =
     (case ensure_revision expected m of
        Inl e \<Rightarrow> (Inl e, m)
      | Inr _ \<Rightarrow> (case read_memory m of
          Inl e \<Rightarrow> (Inl e, m)
        | Inr body \<Rightarrow> (case edit_exact_line body current replacement of
            Inl e \<Rightarrow> (Inl e, m) | Inr updated \<Rightarrow> commit_memory w updated m)))"

definition replace_exact_line ::
  "write_outcome \<Rightarrow> 64 word \<Rightarrow> rtext \<Rightarrow> rtext \<Rightarrow> memory_file \<Rightarrow> (app_error + unit) \<times> memory_file" where
  "replace_exact_line w expected current replacement m =
     (case validate_edit_line current of Inl e \<Rightarrow> (Inl e, m)
      | Inr _ \<Rightarrow> (case validate_edit_line replacement of Inl e \<Rightarrow> (Inl e, m)
          | Inr _ \<Rightarrow> edit_line w expected current (Some replacement) m))"

definition remove_exact_line ::
  "write_outcome \<Rightarrow> 64 word \<Rightarrow> rtext \<Rightarrow> memory_file \<Rightarrow> (app_error + unit) \<times> memory_file" where
  "remove_exact_line w expected current m =
     (case validate_edit_line current of Inl e \<Rightarrow> (Inl e, m) | Inr _ \<Rightarrow> edit_line w expected current None m)"

section \<open>Who writes\<close>

datatype memory_section = ProfileSection | ActiveGoalsSection | LongTermSection | RecentSection

definition section_heading :: "memory_section \<Rightarrow> rtext" where
  "section_heading s = (case s of ProfileSection \<Rightarrow> lit ''Profile'' | ActiveGoalsSection \<Rightarrow> lit ''Active Goals''
     | LongTermSection \<Rightarrow> lit ''Long-term'' | RecentSection \<Rightarrow> lit ''Recent'')"

text \<open>The tool \<open>bobe_memory_append\<close>.\<close>

definition append_memory_tool ::
  "write_outcome \<Rightarrow> rtext \<Rightarrow> memory_section \<Rightarrow> rtext \<Rightarrow> memory_file \<Rightarrow> (string + unit) \<times> memory_file" where
  "append_memory_tool w date section t m =
     (if trim t = [] then (Inl ''memory text must not be empty'', m)
      else if 13 \<in> set t \<or> 10 \<in> set t then (Inl ''memory text must be a single line'', m)
      else (case append_under w date (section_heading section) t m of
          (Inl _, m') \<Rightarrow> (Inl ''error'', m') | (Inr _, m') \<Rightarrow> (Inr (), m')))"

text \<open>What was seen on the screen: one line, cut to 280 bytes after the window's name.\<close>

definition is_control :: "uchar \<Rightarrow> bool" where
  "is_control c \<longleftrightarrow> c < 32 \<or> (127 \<le> c \<and> c < 160)"

fun words_from :: "rtext \<Rightarrow> rtext \<Rightarrow> rtext list" where
  "words_from acc [] = [acc]"
| "words_from acc (c # cs) =
     (if is_control c \<or> is_whitespace c then acc # words_from [] cs else words_from (acc @ [c]) cs)"

fun join_words :: "rtext list \<Rightarrow> rtext" where
  "join_words [] = []"
| "join_words [l] = l"
| "join_words (l # ls) = l @ [32] @ join_words ls"

definition single_line :: "rtext \<Rightarrow> rtext" where
  "single_line t = join_words (filter (\<lambda>w. w \<noteq> []) (words_from [] t))"

definition DESCRIPTION_MAX_LEN :: nat where "DESCRIPTION_MAX_LEN = 280"

definition format_entry :: "rtext \<Rightarrow> rtext option \<Rightarrow> rtext" where
  "format_entry description window =
     (case window of None \<Rightarrow> [] | Some w \<Rightarrow> lit ''['' @ single_line w @ lit ''] '') @
     truncate_str (single_line description) DESCRIPTION_MAX_LEN"

definition append_capture_memory ::
  "write_outcome \<Rightarrow> rtext \<Rightarrow> bool \<Rightarrow> rtext \<Rightarrow> rtext option \<Rightarrow> memory_file \<Rightarrow> (app_error + bool) \<times> memory_file" where
  "append_capture_memory w date enabled description window m =
     (if \<not> enabled then (Inr False, m)
      else (case append_under w date RECENT (format_entry description window) m of
          (Inl e, m') \<Rightarrow> (Inl e, m') | (Inr _, m') \<Rightarrow> (Inr True, m')))"

text \<open>\<open>consolidate_once\<close>: the text read before the worker ran, and the answer of the worker.\<close>

definition consolidate ::
  "write_outcome \<Rightarrow> rtext \<Rightarrow> rtext \<Rightarrow> memory_file \<Rightarrow> (app_error + unit) \<times> memory_file" where
  "consolidate w before new_body m =
     (if trim new_body = [] then (Inl (Internal ''consolidate worker returned empty body''), m)
      else (case read_memory m of
          Inl e \<Rightarrow> (Inl e, m)
        | Inr current \<Rightarrow>
            if current \<noteq> before then (Inl (Conflict ''memory.md changed during consolidation; skipping this pass''), m)
            else replace_memory w new_body m))"

section \<open>The filled lines of a text\<close>

text \<open>White space does not count: a text is seen as the list of its lines without the space at their
  ends, leaving out those that are empty then.\<close>

definition filled :: "rtext list \<Rightarrow> rtext list" where
  "filled ls = filter (\<lambda>l. l \<noteq> []) (map trim_end ls)"

definition filled_lines :: "rtext \<Rightarrow> rtext list" where
  "filled_lines s = filled (split_inclusive s)"

lemma filled_simps [simp]:
  "filled [] = []" "filled (l # ls) = (if trim_end l = [] then [] else [trim_end l]) @ filled ls"
  "filled (ls @ ms) = filled ls @ filled ms"
  by (simp_all add: filled_def)

lemma trim_end_snoc [simp]: "trim_end (s @ [c]) = (if is_whitespace c then trim_end s else s @ [c])"
  by (simp add: trim_end_def)

lemma trim_end_one [simp]: "trim_end [c] = (if is_whitespace c then [] else [c])"
  by (simp add: trim_end_def)

lemma trim_end_Nil [simp]: "trim_end [] = []"
  by (simp add: trim_end_def)

lemma newline_is_space [simp]: "is_whitespace 10" "is_whitespace 13"
  by (simp_all add: is_whitespace_def)

lemma trim_end_idem [simp]: "trim_end (trim_end s) = trim_end s"
  by (induction s rule: rev_induct) simp_all

lemma filled_suffix: "Sublist.suffix ls ms \<Longrightarrow> Sublist.suffix (filled ls) (filled ms)"
  by (auto simp: Sublist.suffix_def filled_def)

lemma inclusive_from_split:
  "split_inclusive_from acc (xs @ 10 # ys) = split_inclusive_from acc (xs @ [10]) @ split_inclusive ys"
  by (induction xs arbitrary: acc) (auto simp: split_inclusive_def)

lemma inclusive_no_newline: "10 \<notin> set u \<Longrightarrow> split_inclusive_from acc (u @ q) = split_inclusive_from (acc @ u) q"
  by (induction u arbitrary: acc) auto

lemma inclusive_newline: "10 \<notin> set u \<Longrightarrow> split_inclusive (u @ 10 # ys) = (u @ [10]) # split_inclusive ys"
  by (simp add: split_inclusive_def inclusive_no_newline)

lemma filled_from_space:
  "is_whitespace w \<Longrightarrow> filled (split_inclusive_from acc (t @ [w])) = filled (split_inclusive_from acc t)"
  by (induction t arbitrary: acc) auto

lemma filled_lines_space: "is_whitespace w \<Longrightarrow> filled_lines (t @ [w]) = filled_lines t"
  by (simp add: filled_lines_def split_inclusive_def filled_from_space)

lemma filled_lines_trim_end [simp]: "filled_lines (trim_end s) = filled_lines s"
  by (induction s rule: rev_induct) (auto simp: filled_lines_space)

lemma filled_lines_Nil [simp]: "filled_lines [] = []"
  by (simp add: filled_lines_def split_inclusive_def)

lemma filled_lines_newline [simp]: "filled_lines (xs @ 10 # ys) = filled_lines xs @ filled_lines ys"
proof -
  have "filled_lines (xs @ 10 # ys) = filled_lines (xs @ [10]) @ filled_lines ys"
    using inclusive_from_split [of "[]" xs ys] by (simp add: filled_lines_def split_inclusive_def)
  then show ?thesis by (simp add: filled_lines_space)
qed

lemma filled_lines_newline_start [simp]: "filled_lines (10 # ys) = filled_lines ys"
  using filled_lines_newline [of "[]" ys] by simp

lemma filled_lines_one: "10 \<notin> set l \<Longrightarrow> filled_lines l = filled [l]"
  using inclusive_no_newline [of l "[]" "[]"] by (auto simp: filled_lines_def split_inclusive_def)

lemma split_inclusive_cases:
  assumes "split_inclusive s = c # cs"
  obtains u where "10 \<notin> set u" "c = u @ [10]" "s = u @ 10 # concat cs" "split_inclusive (concat cs) = cs"
  | "10 \<notin> set s" "c = s" "cs = []"
proof (cases "10 \<in> set s")
  case True
  then obtain u v where s: "s = u @ 10 # v" "10 \<notin> set u" using split_list_first by metis
  have c: "concat (split_inclusive_from acc v) = acc @ v" for acc v by (induction acc v rule: split_inclusive_from.induct) auto
  show ?thesis
    using assms inclusive_newline [OF s(2), of v] c [of "[]" v] s by (intro that(1) [of u]) (auto simp: split_inclusive_def)
next
  case False
  then have "split_inclusive s = (if s = [] then [] else [s])"
    using inclusive_no_newline [of s "[]" "[]"] by (simp add: split_inclusive_def)
  then show ?thesis using assms False by (intro that(2)) (auto split: if_splits)
qed

lemma split_inclusive_parts:
  "split_inclusive s = A @ B \<Longrightarrow> split_inclusive (concat A) = A \<and> split_inclusive (concat B) = B \<and> s = concat A @ concat B"
proof (induction A arbitrary: s)
  case Nil
  have "concat (split_inclusive_from acc v) = acc @ v" for acc v by (induction acc v rule: split_inclusive_from.induct) auto
  from this [of "[]" s] Nil show ?case by (simp add: split_inclusive_def)
next
  case (Cons c A)
  from Cons.prems have "split_inclusive s = c # A @ B" by simp
  then show ?case
  proof (cases rule: split_inclusive_cases)
    case (1 u)
    from Cons.IH [OF 1(4)] show ?thesis using 1 inclusive_newline [OF 1(1), of "concat A"] by simp
  next
    case 2
    then show ?thesis using Cons.prems by (simp add: split_inclusive_def)
  qed
qed

lemma filled_lines_parts:
  "split_inclusive s = A @ B \<Longrightarrow> filled_lines (concat A) = filled A \<and> filled_lines (concat B) = filled B"
  using split_inclusive_parts [of s A B] by (simp add: filled_lines_def)

lemma trim_end_strip_cr [simp]: "trim_end (strip_cr l) = trim_end l"
  by (cases l rule: rev_cases) (auto simp: strip_cr_def strip_suffix_Some split: option.split)

lemma filled_text_lines: "filled (text_lines s) = filled_lines s"
proof -
  have "filled (lines_from acc s) = filled (split_inclusive_from acc s)" for acc
    by (induction acc s rule: lines_from.induct) auto
  then show ?thesis by (simp add: text_lines_def filled_lines_def split_inclusive_def)
qed

lemma text_lines_single: "l \<in> set (text_lines s) \<Longrightarrow> 10 \<notin> set l"
proof -
  have cr: "set (strip_cr l) \<subseteq> set l" for l by (auto simp: strip_cr_def strip_suffix_Some split: option.split)
  have "l \<in> set (lines_from acc s) \<Longrightarrow> 10 \<notin> set acc \<Longrightarrow> 10 \<notin> set l" for acc
    by (induction acc s rule: lines_from.induct) (use cr in \<open>auto split: if_splits\<close>)
  then show "l \<in> set (text_lines s) \<Longrightarrow> 10 \<notin> set l" by (simp add: text_lines_def)
qed

lemma filled_lines_join: "\<forall>l \<in> set ls. 10 \<notin> set l \<Longrightarrow> filled_lines (join_lines ls) = filled ls"
  by (induction ls rule: join_lines.induct) (simp_all add: filled_lines_one)

section \<open>Where a section is\<close>

abbreviation opens :: "rtext \<Rightarrow> bool" where
  "opens l \<equiv> starts_with heading_mark (trim_end l)"

lemma section_loop_from_start:
  "starts_with heading_mark h \<Longrightarrow>
   section_loop h offset (Some a) cs = Some (a, offset + length (concat (takeWhile (\<lambda>l. \<not> opens l) cs)))"
  by (induction cs arbitrary: offset) (auto simp: Let_def)

lemma section_loop_search:
  "starts_with heading_mark h \<Longrightarrow>
   section_loop h offset None cs =
     (case dropWhile (\<lambda>l. trim_end l \<noteq> h) cs of
        [] \<Rightarrow> None
      | l # ls \<Rightarrow> (let a = offset + length (concat (takeWhile (\<lambda>l. trim_end l \<noteq> h) cs))
                  in Some (a, a + length l + length (concat (takeWhile (\<lambda>l. \<not> opens l) ls)))))"
proof (induction cs arbitrary: offset)
  case (Cons c cs)
  show ?case
  proof (cases "trim_end c = h")
    case True
    with Cons.prems show ?thesis by (simp add: Let_def section_loop_from_start)
  next
    case False
    then have "section_loop h offset None (c # cs) = section_loop h (offset + length c) None cs" by simp
    also note Cons.IH [OF Cons.prems, of "offset + length c"]
    finally show ?thesis using False
      by (cases "dropWhile (\<lambda>l. trim_end l \<noteq> h) cs") (simp_all add: Let_def del: dropWhile_eq_Nil_conv)
  qed
qed simp

lemma heading_opens [simp]: "starts_with heading_mark (heading_mark @ heading)"
  by (simp add: starts_with_def)

lemma section_range_None:
  "section_range body heading = None \<Longrightarrow> heading_mark @ heading \<notin> set (filled_lines body)"
  by (auto simp: section_range_def section_loop_search filled_lines_def filled_def dropWhile_eq_Nil_conv Let_def
      split: list.splits)

lemma section_range_Some:
  assumes "section_range body heading = Some r"
  obtains P l S Q where "split_inclusive body = P @ l # S @ Q" "trim_end l = heading_mark @ heading"
    "heading_mark @ heading \<notin> set (filled P)" "\<forall>x \<in> set S. \<not> opens x" "Q = [] \<or> opens (hd Q)"
    "take (fst r) body = concat P" "slice_of body r = l @ concat S" "take (snd r) body = concat (P @ l # S)"
    "drop (snd r) body = concat Q"
proof -
  let ?h = "heading_mark @ heading" and ?cs = "split_inclusive body"
  let ?P = "takeWhile (\<lambda>l. trim_end l \<noteq> ?h) ?cs"
  from assms obtain l ls where d: "dropWhile (\<lambda>l. trim_end l \<noteq> ?h) ?cs = l # ls"
    and r: "r = (length (concat ?P), length (concat ?P) + length l + length (concat (takeWhile (\<lambda>l. \<not> opens l) ls)))"
    by (auto simp: section_range_def section_loop_search Let_def split: list.splits)
  let ?S = "takeWhile (\<lambda>l. \<not> opens l) ls" and ?Q = "dropWhile (\<lambda>l. \<not> opens l) ls"
  have cs: "?cs = ?P @ l # ?S @ ?Q" using takeWhile_dropWhile_id [of "\<lambda>l. trim_end l \<noteq> ?h" ?cs] by (simp add: d)
  have body: "body = concat ?P @ l @ concat ?S @ concat ?Q"
    using split_inclusive_parts [of body ?P "l # ?S @ ?Q"] cs
    by (simp add: takeWhile_dropWhile_id concat_append [symmetric] del: concat_append)
  show ?thesis
  proof (rule that [OF cs])
    show "trim_end l = ?h" using d hd_dropWhile [of "\<lambda>l. trim_end l \<noteq> ?h" ?cs] by simp
    show "?h \<notin> set (filled ?P)" by (auto simp: filled_def dest: set_takeWhileD)
    show "\<forall>x \<in> set ?S. \<not> opens x" by (auto dest: set_takeWhileD)
    show "?Q = [] \<or> opens (hd ?Q)" using hd_dropWhile [of "\<lambda>l. \<not> opens l" ls] by blast
    show "take (fst r) body = concat ?P" by (subst body) (simp add: r)
    show "slice_of body r = l @ concat ?S" by (subst body) (simp add: r slice_of_def)
    show "take (snd r) body = concat (?P @ l # ?S)" by (subst body) (simp add: r)
    show "drop (snd r) body = concat ?Q" by (subst body) (simp add: r)
  qed
qed

text \<open>The facts of a section: its filled lines.\<close>

definition section_of :: "rtext \<Rightarrow> rtext list \<Rightarrow> rtext list" where
  "section_of heading ls =
     takeWhile (\<lambda>l. \<not> starts_with heading_mark l) (tl (dropWhile (\<lambda>l. l \<noteq> heading_mark @ heading) ls))"

definition facts :: "rtext \<Rightarrow> rtext \<Rightarrow> rtext list" where
  "facts heading body = section_of heading (filled_lines body)"

lemma dropWhile_to: "x \<notin> set A \<Longrightarrow> dropWhile (\<lambda>l. l \<noteq> x) (A @ B) = dropWhile (\<lambda>l. l \<noteq> x) B"
  by (induction A) auto

lemma takeWhile_stop: "\<not> p x \<Longrightarrow> takeWhile p (A @ x # B) = takeWhile p A"
  by (induction A) auto

lemma section_of_here:
  assumes "heading_mark @ heading \<notin> set P" "\<forall>x \<in> set S. \<not> starts_with heading_mark x"
    "Q = [] \<or> starts_with heading_mark (hd Q)"
  shows "section_of heading (P @ (heading_mark @ heading) # S @ Q) = S"
  using assms(2,3) by (cases Q) (simp_all add: section_of_def dropWhile_to [OF assms(1)] takeWhile_append2)

lemma section_of_elsewhere:
  assumes "\<forall>x \<in> set S. \<not> starts_with heading_mark x" "\<forall>x \<in> set S'. \<not> starts_with heading_mark x" "g \<noteq> heading"
  shows "section_of g (P @ (heading_mark @ heading) # S' @ Q) = section_of g (P @ (heading_mark @ heading) # S @ Q)"
proof (cases "heading_mark @ g \<in> set P")
  case True
  then obtain A B where P: "P = A @ (heading_mark @ g) # B" "heading_mark @ g \<notin> set A" by (metis split_list_first)
  then show ?thesis by (simp add: section_of_def dropWhile_to [OF P(2)] takeWhile_stop)
next
  case False
  have "heading_mark @ g \<notin> set S" "heading_mark @ g \<notin> set S'" using assms(1,2) heading_opens by blast+
  with False assms(3) show ?thesis by (simp add: section_of_def dropWhile_to)
qed

section \<open>What an edit does to the facts\<close>

lemma chunks_end: "split_inclusive s = P @ c # R \<Longrightarrow> concat P = [] \<or> (\<exists>u. concat P = u @ [10])"
proof (induction P arbitrary: s)
  case (Cons p P)
  from Cons.prems have "split_inclusive s = p # P @ c # R" by simp
  then show ?case
  proof (cases rule: split_inclusive_cases)
    case (1 u)
    from Cons.IH [OF 1(4)] show ?thesis
    proof
      assume "concat P = []"
      then show ?thesis using 1(2) by simp
    next
      assume "\<exists>v. concat P = v @ [10]"
      then obtain v where "concat P = v @ [10]" ..
      then have "concat (p # P) = (u @ 10 # v) @ [10]" using 1(2) by simp
      then show ?thesis by blast
    qed
  qed simp
qed simp

lemma filled_after_chunks:
  assumes "split_inclusive s = P @ c # R" shows "filled_lines (concat P @ t) = filled P @ filled_lines t"
proof -
  have "filled_lines (concat P) = filled P" by (rule filled_lines_parts [OF assms, THEN conjunct1])
  note f = this
  show ?thesis
  proof (rule disjE [OF chunks_end [OF assms]])
    assume c: "concat P = []"
    show ?thesis using f unfolding c by simp
  next
    assume "\<exists>u. concat P = u @ [10]"
    then show ?thesis using f by auto
  qed
qed

lemma opens_filled:
  "\<forall>x \<in> set S. \<not> opens x \<Longrightarrow> \<forall>x \<in> set (filled S). \<not> starts_with heading_mark x"
  "Q = [] \<or> opens (hd Q) \<Longrightarrow> filled Q = [] \<or> starts_with heading_mark (hd (filled Q))"
proof -
  have "\<not> starts_with heading_mark []" by (simp add: starts_with_def heading_mark_def lit_def)
  then have "filled Q = [] \<or> starts_with heading_mark (hd (filled Q))" if "Q = [] \<or> opens (hd Q)"
    using that by (cases Q) auto
  then show "Q = [] \<or> opens (hd Q) \<Longrightarrow> filled Q = [] \<or> starts_with heading_mark (hd (filled Q))" .
qed (auto simp: filled_def)

text \<open>The lines of a text around a section.\<close>

lemma section_lines_around:
  assumes "section_range body heading = Some r"
  obtains P S Q where "filled_lines body = P @ (heading_mark @ heading) # S @ Q" "heading_mark @ heading \<notin> set P"
    "\<forall>x \<in> set S. \<not> starts_with heading_mark x" "Q = [] \<or> starts_with heading_mark (hd Q)"
    "filled_lines (take (snd r) body) = P @ (heading_mark @ heading) # S" "filled_lines (drop (snd r) body) = Q"
    "filled_lines (drop 1 (dropWhile (\<lambda>c. c \<noteq> 10) (slice_of body r))) = S"
    "\<forall>t. filled_lines (take (fst r) body @ t) = P @ filled_lines t"
proof -
  from section_range_Some [OF assms] obtain P l S Q where
    p: "split_inclusive body = P @ l # S @ Q" "trim_end l = heading_mark @ heading"
    "heading_mark @ heading \<notin> set (filled P)" "\<forall>x \<in> set S. \<not> opens x" "Q = [] \<or> opens (hd Q)"
    "take (fst r) body = concat P" "slice_of body r = l @ concat S" "take (snd r) body = concat (P @ l # S)"
    "drop (snd r) body = concat Q" .
  have h: "filled (l # xs) = (heading_mark @ heading) # filled xs" for xs
    by (simp add: p(2)) (simp add: heading_mark_def lit_def)
  have body: "split_inclusive body = (P @ l # S) @ Q" using p(1) by simp
  have tail: "split_inclusive (concat (l # S @ Q)) = l # S @ Q"
    using split_inclusive_parts [OF p(1)] by simp
  have "filled_lines (drop 1 (dropWhile (\<lambda>c. c \<noteq> 10) (l @ concat S))) = filled S"
    using tail
  proof (cases rule: split_inclusive_cases)
    case (1 u)
    have "dropWhile (\<lambda>c. c \<noteq> 10) (l @ concat S) = 10 # concat S"
      using dropWhile_to [OF 1(1), of "10 # concat S"] 1(2) by simp
    moreover have "split_inclusive (concat S) = S" using split_inclusive_parts [OF 1(4)] by simp
    ultimately show ?thesis by (simp add: filled_lines_def)
  next
    case 2
    then have "10 \<notin> set l" "S = []" by auto
    then have "dropWhile (\<lambda>c. c \<noteq> 10) (l @ concat S) = []" by (auto simp: dropWhile_eq_Nil_conv)
    then show ?thesis unfolding \<open>S = []\<close> by (simp del: dropWhile_eq_Nil_conv)
  qed
  then show ?thesis
    using filled_lines_parts [OF body] filled_after_chunks [OF p(1)] opens_filled(1) [OF p(4)] opens_filled(2) [OF p(5)] p(3)
    by (intro that [of "filled P" "filled S" "filled Q"])
      (simp_all add: p(6,7,8,9) h filled_lines_def p(1) del: filled_simps(2) concat.simps concat_append)
qed

lemma facts_upsert:
  assumes line: "10 \<notin> set line" "trim_end line = line" "line \<noteq> []" "\<not> starts_with heading_mark line"
    and heading: "10 \<notin> set heading" "trim_end (heading_mark @ heading) = heading_mark @ heading"
  shows "facts g (upsert_bullet body heading line) = facts g body @ (if g = heading then [line] else [])"
proof (cases "section_range body heading")
  case None
  let ?h = "heading_mark @ heading"
  note out = section_range_None [OF None]
  have nl: "10 \<notin> set ?h" using heading(1) by (simp add: heading_mark_def lit_def)
  have ne: "?h \<noteq> []" by (simp add: heading_mark_def lit_def)
  have fh: "filled_lines (?h @ 10 # t) = ?h # filled_lines t" for t
    unfolding filled_lines_newline filled_lines_one [OF nl] using heading(2) ne by simp
  have fl: "filled_lines (line @ [10]) = [line]"
    using filled_lines_newline [of line "[]"] filled_lines_one [OF line(1)] line(2,3) by simp
  have "filled_lines (upsert_bullet body heading line) = filled_lines body @ [?h, line]"
  proof (cases "trim_end body = []")
    case True
    then have "filled_lines body = []" using filled_lines_trim_end [of body] by simp
    then show ?thesis using True fh [of "10 # line @ [10]"] fl None by (simp add: upsert_bullet_def)
  next
    case False
    have "upsert_bullet body heading line = trim_end body @ 10 # 10 # ?h @ 10 # 10 # line @ [10]"
      using False None by (simp add: upsert_bullet_def Let_def)
    then show ?thesis using fh [of "10 # line @ [10]"] fl by simp
  qed
  moreover have "section_of g (filled_lines body @ [?h, line]) = section_of g (filled_lines body)" if "g \<noteq> heading"
  proof (cases "heading_mark @ g \<in> set (filled_lines body)")
    case True
    then obtain A B where P: "filled_lines body = A @ (heading_mark @ g) # B" "heading_mark @ g \<notin> set A"
      by (metis split_list_first)
    then show ?thesis by (simp add: section_of_def dropWhile_to [OF P(2)] takeWhile_stop)
  next
    case False
    have "line \<noteq> heading_mark @ g" using line(4) heading_opens by blast
    then have "dropWhile (\<lambda>l. l \<noteq> heading_mark @ g) [?h, line] = []" using that by simp
    moreover have "dropWhile (\<lambda>l. l \<noteq> heading_mark @ g) (filled_lines body) = []"
      using dropWhile_to [OF False, of "[]"] by (simp del: dropWhile_eq_Nil_conv)
    ultimately show ?thesis unfolding section_of_def dropWhile_to [OF False] by (simp del: dropWhile_eq_Nil_conv)
  qed
  moreover have "section_of heading (filled_lines body @ [?h, line]) = [line]"
    using section_of_here [OF out, of "[line]" "[]"] line(4) by simp
  moreover have "section_of heading (filled_lines body) = []"
    using dropWhile_to [OF out, of "[]"] by (simp add: section_of_def del: dropWhile_eq_Nil_conv)
  ultimately show ?thesis by (simp add: facts_def)
next
  case (Some r)
  from section_lines_around [OF Some] obtain P S Q where
    q: "filled_lines body = P @ (heading_mark @ heading) # S @ Q" "heading_mark @ heading \<notin> set P"
    "\<forall>x \<in> set S. \<not> starts_with heading_mark x" "Q = [] \<or> starts_with heading_mark (hd Q)"
    "filled_lines (take (snd r) body) = P @ (heading_mark @ heading) # S" "filled_lines (drop (snd r) body) = Q" .
  have fl: "filled_lines line = [line]" using filled_lines_one [OF line(1)] line(2,3) by simp
  have "filled_lines (upsert_bullet body heading line) = P @ (heading_mark @ heading) # (S @ [line]) @ Q"
    using q(5,6) by (auto simp: upsert_bullet_def Some fl Let_def)
  moreover have S: "\<forall>x \<in> set (S @ [line]). \<not> starts_with heading_mark x" using q(3) line(4) by auto
  ultimately show ?thesis
    using section_of_here [OF q(2) S q(4)] section_of_here [OF q(2,3,4)] section_of_elsewhere [OF q(3) S, of g heading P Q]
    by (simp add: facts_def q(1))
qed

lemma str_len_trim_end: "str_len (trim_end s) \<le> str_len s"
  by (induction s rule: rev_induct) (auto simp: str_len_def)

lemma newest_lines_fit: "(\<Sum>l \<leftarrow> newest_lines n ls. str_len l + 1) \<le> n"
  by (induction n ls rule: newest_lines.induct) auto

lemma filled_fewer_bytes: "(\<Sum>l \<leftarrow> filled ls. str_len l + 1) \<le> (\<Sum>l \<leftarrow> ls. str_len l + 1)"
proof (induction ls)
  case (Cons l ls)
  then show ?case using str_len_trim_end [of l] by auto
qed simp

lemma facts_bound_recent:
  "g \<noteq> RECENT \<Longrightarrow> facts g (bound_recent body) = facts g body"
  "Sublist.suffix (facts RECENT (bound_recent body)) (facts RECENT body)"
  "(\<Sum>l \<leftarrow> facts RECENT (bound_recent body). str_len l + 1) \<le> RECENT_MAX_BYTES"
proof -
  have "(g \<noteq> RECENT \<longrightarrow> facts g (bound_recent body) = facts g body) \<and>
      Sublist.suffix (facts RECENT (bound_recent body)) (facts RECENT body) \<and>
      (\<Sum>l \<leftarrow> facts RECENT (bound_recent body). str_len l + 1) \<le> RECENT_MAX_BYTES"
  proof (cases "section_range body RECENT")
    case None
    then have "facts RECENT body = []"
      using dropWhile_to [OF section_range_None [OF None], of "[]"]
      by (simp add: facts_def section_of_def del: dropWhile_eq_Nil_conv)
    then show ?thesis by (simp add: bound_recent_def None)
  next
    case (Some r)
    from section_lines_around [OF Some] obtain P S Q where
      q: "filled_lines body = P @ (heading_mark @ RECENT) # S @ Q" "heading_mark @ RECENT \<notin> set P"
      "\<forall>x \<in> set S. \<not> starts_with heading_mark x" "Q = [] \<or> starts_with heading_mark (hd Q)"
      "filled_lines (take (snd r) body) = P @ (heading_mark @ RECENT) # S" "filled_lines (drop (snd r) body) = Q"
      "filled_lines (drop 1 (dropWhile (\<lambda>c. c \<noteq> 10) (slice_of body r))) = S"
      "\<forall>t. filled_lines (take (fst r) body @ t) = P @ filled_lines t" .
    let ?content = "drop 1 (dropWhile (\<lambda>c. c \<noteq> 10) (slice_of body r))"
    have newest: "prefix (newest_lines n ls) ls" for n ls
      by (induction n ls rule: newest_lines.induct) auto
    let ?remaining = "min (TARGET_MAX_BYTES - (str_len body - str_len (slice_of body r))) RECENT_MAX_BYTES -
        str_len (heading_mark @ RECENT @ [10])"
    define kept where "kept = rev (newest_lines ?remaining (rev (text_lines ?content)))"
    have b: "bound_recent body =
        take (fst r) body @ (heading_mark @ RECENT) @ 10 # join_lines kept @ 10 # drop (snd r) body"
      by (simp add: bound_recent_def Some Let_def kept_def)
    have k: "Sublist.suffix kept (text_lines ?content)"
      using newest [of ?remaining "rev (text_lines ?content)"] by (simp add: kept_def suffix_to_prefix)
    have "(\<Sum>l \<leftarrow> kept. str_len l + 1) = (\<Sum>l \<leftarrow> newest_lines ?remaining (rev (text_lines ?content)). str_len l + 1)"
      unfolding kept_def rev_map [symmetric] by (rule sum_list_rev)
    also have "\<dots> \<le> ?remaining" by (rule newest_lines_fit)
    also have "\<dots> \<le> RECENT_MAX_BYTES" by simp
    finally have short: "(\<Sum>l \<leftarrow> filled kept. str_len l + 1) \<le> RECENT_MAX_BYTES"
      using filled_fewer_bytes [of kept] by (rule order.trans [rotated])
    have "set kept \<subseteq> set (text_lines ?content)" using k by (auto simp: Sublist.suffix_def)
    then have k10: "\<forall>l \<in> set kept. 10 \<notin> set l" using text_lines_single by blast
    have h10: "filled_lines (heading_mark @ RECENT) = [heading_mark @ RECENT]"
      by (subst filled_lines_one) (simp_all add: heading_mark_def RECENT_def lit_def trim_end_def is_whitespace_def)
    have fb: "filled_lines (bound_recent body) = P @ (heading_mark @ RECENT) # filled kept @ Q"
      unfolding b q(8) [rule_format] by (simp add: h10 filled_lines_join [OF k10] q(6) del: append_assoc)
    have suf: "Sublist.suffix (filled kept) S" using filled_suffix [OF k] q(7) by (simp add: filled_text_lines)
    then have S': "\<forall>x \<in> set (filled kept). \<not> starts_with heading_mark x" using q(3) by (auto simp: Sublist.suffix_def)
    show ?thesis
      using section_of_here [OF q(2) S' q(4)] section_of_here [OF q(2,3,4)] suf short
        section_of_elsewhere [OF q(3) S', of g RECENT P Q]
      by (simp add: facts_def fb q(1))
  qed
  then show "g \<noteq> RECENT \<Longrightarrow> facts g (bound_recent body) = facts g body"
    "Sublist.suffix (facts RECENT (bound_recent body)) (facts RECENT body)"
    "(\<Sum>l \<leftarrow> facts RECENT (bound_recent body). str_len l + 1) \<le> RECENT_MAX_BYTES" by blast+
qed

section \<open>Appending\<close>

lemma validate_edit_line_ok: "validate_edit_line l = Inr u \<longleftrightarrow> l \<noteq> [] \<and> 13 \<notin> set l \<and> 10 \<notin> set l"
  by (simp add: validate_edit_line_def)

lemma bullet_is_a_line:
  assumes "trimmed e" "e \<noteq> []" "10 \<notin> set e" "10 \<notin> set date"
  shows "10 \<notin> set (bullet date e)" "trim_end (bullet date e) = bullet date e" "bullet date e \<noteq> []"
    "\<not> starts_with heading_mark (bullet date e)"
proof -
  have "\<not> is_whitespace (last e)"
    using assms(1,2) last_trim [of e] by (simp add: trim_trimmed)
  then show "trim_end (bullet date e) = bullet date e" using assms(2) by (simp add: trim_end_id bullet_def)
qed (use assms in \<open>simp_all add: bullet_def lit_def DASH_def starts_with_def heading_mark_def\<close>)

text \<open>The facts that an append adds: none if the section already has the fact.\<close>

definition added_facts :: "rtext \<Rightarrow> rtext \<Rightarrow> rtext \<Rightarrow> rtext \<Rightarrow> rtext list" where
  "added_facts body date heading entry =
     (if records_fact body heading (trim entry) then [] else [bullet date (trim entry)])"

lemma append_under_facts:
  assumes "append_under w date heading entry m = (res, m')" "read_memory m = Inr body" "10 \<notin> set date"
    and heading: "10 \<notin> set heading" "trim_end (heading_mark @ heading) = heading_mark @ heading"
  obtains "m' = m" "res = Inr () \<Longrightarrow> added_facts body date heading entry = []"
  | body' where "mf_disk m' = Readable body'" "res = Inr () \<Longrightarrow> mf_revision m' = mf_revision m + 1"
    "\<And>g. g \<noteq> RECENT \<Longrightarrow> facts g body' = facts g body @ (if g = heading then added_facts body date heading entry else [])"
    "Sublist.suffix (facts RECENT body')
       (facts RECENT body @ (if heading = RECENT then added_facts body date heading entry else []))"
    "(\<Sum>l \<leftarrow> facts RECENT body'. str_len l + 1) \<le> RECENT_MAX_BYTES" "str_len body' \<le> TARGET_MAX_BYTES"
proof (cases "validate_edit_line (trim entry)")
  case (Inl e)
  then show ?thesis using assms(1) by (intro that(1)) (simp_all add: append_under_def)
next
  case (Inr u)
  then have e: "trim entry \<noteq> []" "10 \<notin> set (trim entry)" by (simp_all add: validate_edit_line_ok)
  show ?thesis
  proof (cases "records_fact body heading (trim entry)")
    case True
    then show ?thesis using assms(1,2) Inr by (intro that(1)) (simp_all add: append_under_def added_facts_def)
  next
    case False
    let ?b = "upsert_bullet body heading (bullet date (trim entry))"
    note up = facts_upsert [OF bullet_is_a_line [OF trimmed_trim e assms(3)] heading, of _ body]
    have c: "commit_memory w (bound_recent ?b) m = (res, m')"
      using assms(1,2) Inr False by (simp add: append_under_def)
    then consider "m' = m" "res \<noteq> Inr ()"
      | "mf_disk m' = Readable (bound_recent ?b)" "res = Inr () \<Longrightarrow> mf_revision m' = mf_revision m + 1"
        "str_len (bound_recent ?b) \<le> TARGET_MAX_BYTES"
      by (auto simp: commit_memory_def split: if_splits write_outcome.splits)
    then show ?thesis
    proof cases
      case 1
      then show ?thesis by (intro that(1)) simp_all
    next
      case 2
      have "Sublist.suffix (facts RECENT (bound_recent ?b))
          (facts RECENT body @ (if heading = RECENT then added_facts body date heading entry else []))"
        using facts_bound_recent(2) [of ?b] up [of RECENT] False by (cases "heading = RECENT") (auto simp: added_facts_def)
      then show ?thesis
        using 2(2) facts_bound_recent(3) [of ?b]
        by (intro that(2) [OF 2(1)]) (simp_all add: facts_bound_recent(1) up added_facts_def False 2(3))
    qed
  qed
qed

lemma section_heading_ok:
  "10 \<notin> set (section_heading s)" "trim_end (heading_mark @ section_heading s) = heading_mark @ section_heading s"
  by (cases s; simp add: section_heading_def heading_mark_def lit_def trim_end_def is_whitespace_def)+

text \<open>C25: A fact the assistant adds outside the recent section is kept and disturbs no other: after a successful
  append of a line, every section but the recent one has exactly its old facts, the addressed one with the new
  fact at its end, unless it had recorded it already. The recent section makes no such promise: it has the
  newest of its facts, as many whole ones as fit in 8 KB, so a fact that is added there may be lost at once
  (theorem \<open>long_fact_erases_the_recent_ones\<close>).\<close>

theorem appended_fact_is_kept:
  assumes "append_memory_tool w date place t m = (Inr (), m')" "read_memory m = Inr body" "10 \<notin> set date"
  shows "\<exists>body'. read_memory m' = Inr body' \<and>
     (\<forall>g. g \<noteq> RECENT \<longrightarrow> facts g body' =
        facts g body @ (if g = section_heading place then added_facts body date g t else [])) \<and>
     (body' = body \<or> Sublist.suffix (facts RECENT body')
        (facts RECENT body @ (if place = RecentSection then added_facts body date RECENT t else [])) \<and>
      (\<Sum>l \<leftarrow> facts RECENT body'. str_len l + 1) \<le> 8192)"
proof -
  from assms(1) have a: "append_under w date (section_heading place) t m = (Inr (), m')"
    by (auto simp: append_memory_tool_def split: if_splits prod.splits sum.splits)
  have R: "section_heading place = RECENT \<longleftrightarrow> place = RecentSection"
    by (cases place) (simp_all add: section_heading_def RECENT_def lit_def)
  from append_under_facts [OF a assms(2,3) section_heading_ok] show ?thesis
  proof cases
    case 1
    then show ?thesis using assms(2) by (intro exI [of _ body]) auto
  next
    case (2 body')
    have "section_heading RecentSection = RECENT" by (simp add: section_heading_def RECENT_def)
    with 2 show ?thesis by (intro exI [of _ body']) (auto simp: read_memory_def R RECENT_MAX_BYTES_def)
  qed
qed

text \<open>C26: What is on the screen cannot forge facts: whatever a window is called and whatever text is described,
  headings and line breaks included, noting it leaves the facts of every section but the recent one
  exactly as they were, also when the write fails half-way.\<close>

theorem screen_cannot_forge_facts:
  assumes "append_capture_memory w date enabled description window m = (res, m')" "read_memory m = Inr body"
    and "10 \<notin> set date" "g \<noteq> RECENT"
  shows "\<exists>body'. read_memory m' = Inr body' \<and> facts g body' = facts g body"
proof (cases enabled)
  case False
  then show ?thesis using assms(1,2) by (simp add: append_capture_memory_def)
next
  case True
  obtain r where a: "append_under w date RECENT (format_entry description window) m = (r, m')"
    using assms(1) True by (auto simp: append_capture_memory_def split: prod.splits sum.splits)
  have "section_heading RecentSection = RECENT" by (simp add: section_heading_def RECENT_def)
  note h = section_heading_ok [of RecentSection, unfolded this]
  from append_under_facts [OF a assms(2,3) h] show ?thesis
  proof cases
    case 1
    then show ?thesis using assms(2) by auto
  next
    case (2 body')
    then show ?thesis using assms(4) 2(3) [OF assms(4)] by (auto simp: read_memory_def)
  qed
qed

text \<open>A long fact erases the recent ones: when the assistant adds a new fact of more than 8 KB to the
  recent section, the tool reports success, the fact is not kept, and every fact the section had is
  gone with it.\<close>

theorem long_fact_erases_the_recent_ones:
  assumes "append_memory_tool w date RecentSection t m = (Inr (), m')" "read_memory m = Inr body" "10 \<notin> set date"
    and "\<not> records_fact body RECENT (trim t)" "8192 < str_len (trim t)"
  shows "\<exists>body'. read_memory m' = Inr body' \<and> facts RECENT body' = []"
proof -
  from assms(1) have a: "append_under w date (section_heading RecentSection) t m = (Inr (), m')"
    by (auto simp: append_memory_tool_def split: if_splits prod.splits sum.splits)
  have R: "section_heading RecentSection = RECENT" by (simp add: section_heading_def RECENT_def)
  from append_under_facts [OF a assms(2,3) section_heading_ok] show ?thesis
  proof cases
    case 1
    then show ?thesis using assms(4) by (simp add: added_facts_def R)
  next
    case (2 body')
    have "Sublist.suffix (facts RECENT body') (facts RECENT body @ [bullet date (trim t)])"
      using 2(4) assms(4) by (simp add: added_facts_def R)
    then have "facts RECENT body' = [] \<or> bullet date (trim t) \<in> set (facts RECENT body')"
      by auto
    moreover have "str_len (bullet date (trim t)) < 8192" if "bullet date (trim t) \<in> set (facts RECENT body')"
      using member_le_sum_list [of "str_len (bullet date (trim t)) + 1" "map (\<lambda>l. str_len l + 1) (facts RECENT body')"]
        that 2(5) by (force simp: RECENT_MAX_BYTES_def)
    ultimately show ?thesis using 2(1) assms(5) by (auto simp: read_memory_def bullet_def str_len_def)
  qed
qed

section \<open>Exact edits\<close>

lemma filled_join_end:
  assumes "\<forall>l \<in> set ls. 10 \<notin> set l" shows "filled_lines (join_lines ls @ (if b then [10] else [])) = filled ls"
  using filled_lines_newline [of "join_lines ls" "[]"] filled_lines_join [OF assms] by simp

lemma one_match:
  assumes "length (filter (\<lambda>l. l = x) ls) = 1"
  obtains A B where "ls = A @ x # B" "x \<notin> set (A @ B)"
proof -
  have "filter (\<lambda>l. l = x) ls \<noteq> []" using assms by auto
  then have "x \<in> set ls" by (auto simp: filter_empty_conv)
  then obtain A B where ls: "ls = A @ x # B" "x \<notin> set A" by (metis split_list_first)
  then have "filter (\<lambda>l. l = x) B = []" using assms by simp
  then have "x \<notin> set B" by (auto simp: filter_empty_conv)
  then show ?thesis using ls that by auto
qed

text \<open>An exact edit changes what its author saw: it succeeds only against the revision the text was read
  with, the line named is there exactly once, and afterwards the lines are the old ones with that line
  replaced, under the next revision.\<close>

theorem exact_edit_changes_one_line:
  assumes "replace_exact_line w expected current replacement m = (Inr (), m')"
  shows "mf_revision m = expected \<and> mf_revision m' = expected + 1 \<and>
     (\<exists>body body' A B. read_memory m = Inr body \<and> read_memory m' = Inr body' \<and>
        text_lines body = A @ current # B \<and> current \<notin> set (A @ B) \<and>
        filled_lines body' = filled (A @ replacement # B))"
proof -
  from assms have v: "10 \<notin> set replacement" and e: "edit_line w expected current (Some replacement) m = (Inr (), m')"
    by (auto simp: replace_exact_line_def validate_edit_line_def split: if_splits sum.splits)
  from e obtain body updated where b: "mf_revision m = expected" "read_memory m = Inr body"
      "edit_exact_line body current (Some replacement) = Inr updated" "commit_memory w updated m = (Inr (), m')"
    by (auto simp: edit_line_def ensure_revision_def split: if_splits sum.splits)
  from b(3) have one: "length (filter (\<lambda>l. l = current) (text_lines body)) = 1"
    and u: "updated = join_lines (concat (map (\<lambda>l. if l = current then [replacement] else [l]) (text_lines body))) @
      (if body \<noteq> [] \<and> last body = 10 then [10] else [])"
    unfolding edit_exact_line_def option.case
    by (cases "length (filter (\<lambda>l. l = current) (text_lines body)) = 1"; simp del: filter.simps)+
  from one_match [OF one] obtain A B where ls: "text_lines body = A @ current # B" "current \<notin> set (A @ B)" .
  have same: "concat (map (\<lambda>l. if l = current then [replacement] else [l]) C) = C" if "current \<notin> set C" for C
    using that by (induction C) auto
  have "\<forall>l \<in> set (A @ replacement # B). 10 \<notin> set l" using text_lines_single [of _ body] v by (auto simp: ls(1))
  from filled_join_end [OF this] have "filled_lines updated = filled (A @ replacement # B)"
    unfolding u ls(1) using ls(2) by (simp add: same)
  moreover have "read_memory m' = Inr updated" "mf_revision m' = expected + 1"
    using b(1,4) by (auto simp: commit_memory_def read_memory_def split: if_splits write_outcome.splits)
  ultimately show ?thesis
    using b(1,2) ls by (intro conjI exI [of _ body] exI [of _ updated] exI [of _ A] exI [of _ B])
qed

section \<open>The prompt\<close>

lemma context_fits:
  assumes "memory_context max_bytes m = Inr t" "str_len EXCERPT_NOTICE \<le> max_bytes" shows "str_len t \<le> max_bytes"
proof -
  obtain s where t: "t = context_excerpt s max_bytes"
    using assms(1) by (auto simp: memory_context_def split: sum.splits)
  let ?e = "boundary_at_or_before s (max_bytes - str_len EXCERPT_NOTICE)"
  have "str_len (byte_take ?e s) \<le> max_bytes - str_len EXCERPT_NOTICE"
    using str_len_byte_take boundary_at_or_before(1,2) by metis
  then have "str_len (byte_take ?e s) + str_len EXCERPT_NOTICE \<le> max_bytes" using assms(2) by linarith
  then show ?thesis by (auto simp: t context_excerpt_def)
qed

section \<open>Appending to a small file\<close>

lemma str_len_take_drop: "str_len (take n s) + str_len (drop n s) = str_len s"
  by (metis append_take_drop_id str_len_simps(3))

lemma upsert_size: "str_len (upsert_bullet body heading line) \<le> str_len body + str_len heading + str_len line + 8"
proof (cases "section_range body heading")
  case None
  then show ?thesis using str_len_trim_end [of body] by (simp add: upsert_bullet_def Let_def heading_mark_def lit_def utf8_len_def)
next
  case (Some r)
  have "str_len (trim_end (take (snd r) body)) + str_len (drop (snd r) body) \<le> str_len body"
    using str_len_trim_end [of "take (snd r) body"] str_len_take_drop [of "snd r" body] by linarith
  moreover have "str_len (upsert_bullet body heading line) \<le>
      str_len (trim_end (take (snd r) body)) + str_len (drop (snd r) body) + str_len line + 3"
    unfolding upsert_bullet_def Some option.case Let_def by (simp add: utf8_len_def del: drop_eq_Nil)
  ultimately show ?thesis by linarith
qed

lemma join_lines_size: "str_len (join_lines ls) + 1 \<le> max 1 (\<Sum>l \<leftarrow> ls. str_len l + 1)"
  by (induction ls rule: join_lines.induct) (simp_all add: utf8_len_def)

lemma newest_lines_join: "str_len (join_lines (rev (newest_lines n ls))) + 1 \<le> max 1 n"
proof -
  have "(\<Sum>l \<leftarrow> rev (newest_lines n ls). str_len l + 1) = (\<Sum>l \<leftarrow> newest_lines n ls. str_len l + 1)"
    unfolding rev_map [symmetric] by (rule sum_list_rev)
  then show ?thesis using join_lines_size [of "rev (newest_lines n ls)"] newest_lines_fit [of n ls] by linarith
qed

lemma section_range_sizes:
  assumes "section_range body heading = Some r"
  shows "str_len (take (fst r) body) + str_len (drop (snd r) body) = str_len body - str_len (slice_of body r)"
proof -
  from section_range_Some [OF assms] obtain P l S Q where
    p: "split_inclusive body = P @ l # S @ Q" "take (fst r) body = concat P" "slice_of body r = l @ concat S"
    "drop (snd r) body = concat Q" .
  have "body = concat (P @ l # S @ Q)" using split_inclusive_parts [OF p(1)] by simp
  then have "str_len body = str_len (concat P) + str_len (l @ concat S) + str_len (concat Q)" by simp
  then show ?thesis unfolding p(2,3,4) by linarith
qed

lemma bound_recent_size: "str_len (bound_recent b) \<le> max TARGET_MAX_BYTES (str_len b + 11)"
proof (cases "section_range b RECENT")
  case None
  then show ?thesis by (simp add: bound_recent_def)
next
  case (Some r)
  let ?others = "str_len b - str_len (slice_of b r)" and ?header = "heading_mark @ RECENT @ [10]"
  let ?remaining = "min (TARGET_MAX_BYTES - ?others) RECENT_MAX_BYTES - str_len ?header"
  let ?lines = "rev (text_lines (drop 1 (dropWhile (\<lambda>c. c \<noteq> 10) (slice_of b r))))"
  have "str_len ?header = 10" by (simp add: heading_mark_def RECENT_def lit_def utf8_len_def)
  moreover have "str_len (bound_recent b) = str_len (take (fst r) b) + str_len (drop (snd r) b) + str_len ?header +
      str_len (join_lines (rev (newest_lines ?remaining ?lines))) + 1"
    unfolding bound_recent_def Some option.case Let_def by (simp add: utf8_len_def)
  moreover have "str_len (join_lines (rev (newest_lines ?remaining ?lines))) + 1 \<le> max 1 ?remaining"
    by (rule newest_lines_join)
  ultimately show ?thesis unfolding section_range_sizes [OF Some] by linarith
qed

lemma append_succeeds:
  assumes "trim entry \<noteq> []" "13 \<notin> set (trim entry)" "10 \<notin> set (trim entry)" "read_memory m = Inr body"
    and "str_len body + str_len heading + str_len date + str_len (trim entry) + 26 \<le> TARGET_MAX_BYTES"
  shows "fst (append_under Written date heading entry m) = Inr ()"
proof -
  let ?u = "upsert_bullet body heading (bullet date (trim entry))"
  have "str_len (bullet date (trim entry)) = str_len date + str_len (trim entry) + 7"
    by (simp add: bullet_def DASH_def lit_def utf8_len_def)
  then have "str_len ?u + 11 \<le> TARGET_MAX_BYTES" using upsert_size [of body heading "bullet date (trim entry)"] assms(5) by linarith
  then have "str_len (bound_recent ?u) \<le> TARGET_MAX_BYTES" using bound_recent_size [of ?u] by linarith
  then show ?thesis using assms(1-4)
    by (cases "records_fact body heading (trim entry)")
      (simp_all add: append_under_def validate_edit_line_def commit_memory_def Let_def)
qed

lemma append_tool_succeeds:
  assumes "trim t \<noteq> []" "13 \<notin> set t" "10 \<notin> set t" "trimmed t" "read_memory m = Inr body"
    and "str_len body + str_len (section_heading place) + str_len date + str_len t + 26 \<le> TARGET_MAX_BYTES"
  obtains m' where "append_memory_tool Written date place t m = (Inr (), m')"
proof -
  have "fst (append_under Written date (section_heading place) t m) = Inr ()"
    using assms by (intro append_succeeds) (simp_all add: trim_trimmed)
  then obtain m' where "append_under Written date (section_heading place) t m = (Inr (), m')" by (metis prod.collapse)
  then show ?thesis using assms(1-3) that [of m'] by (simp add: append_memory_tool_def)
qed

section \<open>Examples\<close>

definition sample_date :: rtext where "sample_date = lit ''2026-01-01 09:00''"

definition sample_body :: rtext where
  "sample_body = lit ''## Long-term'' @ [10] @ lit ''- tea'' @ [10, 10] @ lit ''## Recent'' @ [10] @ lit ''- walk'' @ [10]"

definition sample_memory :: memory_file where
  "sample_memory = new_memory (Readable sample_body)"

lemma sample_read: "read_memory sample_memory = Inr sample_body"
  by (simp add: sample_memory_def new_memory_def read_memory_def)

lemma sample_date_line: "10 \<notin> set sample_date"
  by (simp add: sample_date_def lit_def)

lemma sample_lines:
  "split_inclusive sample_body =
     [lit ''## Long-term'' @ [10], lit ''- tea'' @ [10], [10], lit ''## Recent'' @ [10], lit ''- walk'' @ [10]]"
  by (simp add: sample_body_def lit_def split_inclusive_def)

lemma sample_facts: "facts (lit ''Long-term'') sample_body = [lit ''- tea'']" "facts RECENT sample_body = [lit ''- walk'']"
  unfolding facts_def filled_lines_def sample_lines
  by (simp_all add: section_of_def heading_mark_def RECENT_def lit_def starts_with_def trim_end_def is_whitespace_def)

lemma sample_ranges: "section_range sample_body (lit ''Long-term'') = Some (0, 20)" "section_range sample_body RECENT = Some (20, 37)"
  unfolding section_range_def sample_lines
  by (simp_all add: lit_def heading_mark_def RECENT_def starts_with_def trim_end_def is_whitespace_def)

lemma sample_new: "\<not> records_fact sample_body (lit ''Long-term'') t" "\<not> records_fact sample_body RECENT t"
  by (simp_all add: records_fact_def sample_ranges slice_of_def)
    (simp_all add: sample_body_def lit_def text_lines_def strip_cr_def strip_suffix_def DASH_def)

lemma long_fact:
  "trimmed (replicate (Suc n) 120)" "13 \<notin> set (replicate n (120 :: nat))" "10 \<notin> set (replicate n (120 :: nat))"
  "str_len (replicate n 120) = n"
  by (auto simp: trimmed_def is_whitespace_def str_len_def sum_list_replicate utf8_len_def)

theorem appended_fact_is_kept_witness:
  "\<exists>m' body'. append_memory_tool Written sample_date LongTermSection (lit ''jazz'') sample_memory = (Inr (), m') \<and>
     read_memory m' = Inr body' \<and>
     facts (lit ''Long-term'') body' = [lit ''- tea'', lit ''- 2026-01-01 09:00'' @ DASH @ lit ''jazz'']"
proof -
  have t: "trim (lit ''jazz'') = lit ''jazz''" "13 \<notin> set (lit ''jazz'')" "10 \<notin> set (lit ''jazz'')" "trimmed (lit ''jazz'')"
    by (simp_all add: lit_def trim_def trim_start_def trim_end_def is_whitespace_def trimmed_def)
  have size: "str_len sample_body + str_len (section_heading LongTermSection) + str_len sample_date + str_len (lit ''jazz'') + 26
      \<le> TARGET_MAX_BYTES"
    by (simp add: sample_body_def section_heading_def sample_date_def lit_def TARGET_MAX_BYTES_def utf8_len_def)
  have "trim (lit ''jazz'') \<noteq> []" by (simp add: t(1)) (simp add: lit_def)
  from append_tool_succeeds [OF this t(2-4) sample_read size] obtain m' where
    a: "append_memory_tool Written sample_date LongTermSection (lit ''jazz'') sample_memory = (Inr (), m')" .
  have R: "lit ''Long-term'' \<noteq> RECENT" by (simp add: RECENT_def lit_def)
  have h: "section_heading LongTermSection = lit ''Long-term''" by (simp add: section_heading_def)
  have "bullet sample_date (lit ''jazz'') = lit ''- 2026-01-01 09:00'' @ DASH @ lit ''jazz''"
    by (simp add: bullet_def sample_date_def lit_def)
  then have "added_facts sample_body sample_date (lit ''Long-term'') (lit ''jazz'') =
      [lit ''- 2026-01-01 09:00'' @ DASH @ lit ''jazz'']" by (simp add: added_facts_def sample_new t(1))
  moreover from appended_fact_is_kept [OF a sample_read sample_date_line] R obtain body' where
    "read_memory m' = Inr body'" "facts (lit ''Long-term'') body' = facts (lit ''Long-term'') sample_body @
       (if lit ''Long-term'' = section_heading LongTermSection
        then added_facts sample_body sample_date (lit ''Long-term'') (lit ''jazz'') else [])" by blast
  ultimately show ?thesis using a by (simp add: h sample_facts)
qed

theorem screen_cannot_forge_facts_witness:
  "\<exists>body'. read_memory (snd (append_capture_memory WrittenWithError sample_date True (10 # lit ''## Long-term'')
       (Some (lit ''## Profile'')) sample_memory)) = Inr body' \<and>
     facts (lit ''Long-term'') body' = [lit ''- tea'']"
proof -
  have "lit ''Long-term'' \<noteq> RECENT" by (simp add: RECENT_def lit_def)
  then show ?thesis unfolding sample_facts(1) [symmetric]
    by (rule screen_cannot_forge_facts [OF surjective_pairing sample_read sample_date_line])
qed

theorem long_fact_erases_the_recent_ones_witness:
  "\<exists>m' body'. append_memory_tool Written sample_date RecentSection (replicate 8200 120) sample_memory = (Inr (), m') \<and>
     read_memory m' = Inr body' \<and> facts RECENT sample_body = [lit ''- walk''] \<and> facts RECENT body' = []"
proof -
  let ?t = "replicate 8200 (120 :: nat)"
  have tr: "trimmed ?t" using long_fact(1) [of 8199] by (simp only: numeral_eq_Suc) simp
  then have t: "trim ?t = ?t" by (rule trim_trimmed)
  have size: "str_len sample_body + str_len (section_heading RecentSection) + str_len sample_date + str_len ?t + 26
      \<le> TARGET_MAX_BYTES"
    unfolding long_fact(4)
    by (simp add: sample_body_def section_heading_def sample_date_def lit_def TARGET_MAX_BYTES_def utf8_len_def)
  have "trim ?t \<noteq> []" unfolding t using long_fact(4) [of 8200] by (metis str_len_simps(1) zero_neq_numeral)
  from append_tool_succeeds [OF this long_fact(2,3) tr sample_read size] obtain m' where
    a: "append_memory_tool Written sample_date RecentSection ?t sample_memory = (Inr (), m')" .
  have "8192 < str_len (trim ?t)" unfolding t long_fact(4) by simp
  from long_fact_erases_the_recent_ones [OF a sample_read sample_date_line sample_new(2) this] show ?thesis
    using a sample_facts(2) by blast
qed

theorem exact_edit_changes_one_line_witness:
  "\<exists>body'. read_memory (snd (replace_exact_line Written 1 (lit ''- tea'') (lit ''- coffee'') sample_memory)) = Inr body' \<and>
     lit ''- coffee'' \<in> set (filled_lines body')"
proof -
  have "fst (replace_exact_line Written 1 (lit ''- tea'') (lit ''- coffee'') sample_memory) = Inr ()"
    by (simp add: replace_exact_line_def validate_edit_line_def edit_line_def ensure_revision_def sample_read
        edit_exact_line_def commit_memory_def)
      (simp add: sample_memory_def new_memory_def sample_body_def lit_def text_lines_def strip_cr_def strip_suffix_def
        TARGET_MAX_BYTES_def utf8_len_def)
  then obtain m' where e: "replace_exact_line Written 1 (lit ''- tea'') (lit ''- coffee'') sample_memory = (Inr (), m')"
    by (metis prod.collapse)
  have "trim_end (lit ''- coffee'') = lit ''- coffee''" by (simp add: lit_def trim_end_def is_whitespace_def)
  moreover have "lit ''- coffee'' \<noteq> []" by (simp add: lit_def)
  ultimately show ?thesis using exact_edit_changes_one_line [OF e] e by auto
qed

end
