(* ===== verification/Command_Safety.thy ===== *)
theory Command_Safety
  imports BoBe_Prelude BoBe_Text Goal_Documents
begin

text \<open>
  Which programs the owner's configuration of MCP servers may start: \<open>src/BoBeService/src/mcp/security.rs\<close>
  and the checks and template expansion of \<open>mcp/config.rs\<close>. The file system, the search of the path, the
  environment and the key store are parameters; the values in error messages are left out. A script is
  known by the first line of its file, as far as it is read. What \<open>env\<close> and the system do with a command is not
  modelled: the lemmas are about the checks.
\<close>

section \<open>Paths\<close>

text \<open>\<open>Path::components\<close> on Unix.\<close>

datatype path_component = RootDir | CurDir | ParentDir | Normal rtext

fun split_slash :: "rtext \<Rightarrow> rtext \<Rightarrow> rtext list" where
  "split_slash acc [] = [acc]"
| "split_slash acc (c # cs) = (if c = 47 then acc # split_slash [] cs else split_slash (acc @ [c]) cs)"

definition path_components :: "rtext \<Rightarrow> path_component list" where
  "path_components p =
     (let parts = split_slash [] p;
          lead = (if starts_with [47] p then [RootDir] else if hd parts = lit ''.'' then [CurDir] else [])
      in lead @ map (\<lambda>q. if q = lit ''..'' then ParentDir else Normal q)
           (filter (\<lambda>q. q \<noteq> [] \<and> q \<noteq> lit ''.'') parts))"

definition file_name :: "rtext \<Rightarrow> rtext option" where
  "file_name p =
     (case rev (path_components p) of Normal n # _ \<Rightarrow> Some n | _ \<Rightarrow> None)"

section \<open>Blocked programs\<close>

definition MAX_COMMAND_ARGUMENTS :: nat where "MAX_COMMAND_ARGUMENTS = 256"

definition DEFAULT_BLOCKED_COMMANDS :: "rtext list" where
  "DEFAULT_BLOCKED_COMMANDS = map lit [''rm'', ''rmdir'', ''dd'', ''mkfs'', ''fdisk'', ''format'', ''del'', ''sh'', ''bash'',
     ''zsh'', ''fish'', ''cmd'', ''powershell'', ''pwsh'', ''sudo'', ''su'', ''doas'', ''chmod'', ''chown'', ''chgrp'', ''kill'',
     ''killall'', ''pkill'', ''reboot'', ''shutdown'', ''halt'', ''init'', ''systemctl'', ''tee'', ''find'']"

definition DEFAULT_DANGEROUS_ENV_KEYS :: "rtext list" where
  "DEFAULT_DANGEROUS_ENV_KEYS = map lit [''LD_PRELOAD'', ''LD_LIBRARY_PATH'', ''DYLD_INSERT_LIBRARIES'', ''DYLD_LIBRARY_PATH'']"

definition is_blocked_command :: "rtext list \<Rightarrow> rtext \<Rightarrow> bool" where
  "is_blocked_command blocked command \<longleftrightarrow>
     command \<in> set DEFAULT_BLOCKED_COMMANDS \<or> list_ex (\<lambda>c. c = command) blocked"

definition is_dangerous_env_key :: "rtext list \<Rightarrow> rtext \<Rightarrow> bool" where
  "is_dangerous_env_key dangerous key \<longleftrightarrow>
     key \<in> set DEFAULT_DANGEROUS_ENV_KEYS \<or> list_ex (\<lambda>c. c = key) dangerous"

text \<open>The name a command goes by: its last component, or all of it.\<close>

definition program_name :: "rtext \<Rightarrow> rtext" where
  "program_name command = (case file_name command of Some n \<Rightarrow> n | None \<Rightarrow> command)"

definition validate_command_target :: "rtext list \<Rightarrow> rtext \<Rightarrow> string + unit" where
  "validate_command_target blocked command =
     (if is_blocked_command blocked (program_name command) then Inl ''blocked for security reasons'' else Inr ())"

definition validate_subprocess_env :: "rtext list \<Rightarrow> (rtext, rtext) hmap \<Rightarrow> string + unit" where
  "validate_subprocess_env dangerous env =
     (if filter (is_dangerous_env_key dangerous) (map fst env) \<noteq> []
      then Inl ''Dangerous environment variables not allowed'' else Inr ())"

section \<open>The arguments of env\<close>

datatype env_form = Exec | Shebang

definition take_env_option_value :: "rtext list \<Rightarrow> string + rtext list" where
  "take_env_option_value tokens =
     (case tokens of [] \<Rightarrow> Inl ''env option is missing its value'' | _ # rest \<Rightarrow> Inr rest)"

definition ensure_literal_split_string :: "rtext list \<Rightarrow> string + unit" where
  "ensure_literal_split_string tokens =
     (if list_ex (\<lambda>t. list_ex (\<lambda>c. c = 34 \<or> c = 39 \<or> c = 92 \<or> c = 36) t) tokens
      then Inl ''env -S with quotes, escapes or variables is not allowed'' else Inr ())"

text \<open>The options after \<open>--\<close>, and those after \<open>-\<close> one flag at a time: what is left of the tokens.\<close>

definition long_option :: "env_form \<Rightarrow> rtext list \<Rightarrow> rtext \<Rightarrow> rtext list \<Rightarrow> string + rtext list" where
  "long_option form args long tokens =
     (let (name, value) = (case split_first [61] long of Some (n, v) \<Rightarrow> (n, Some v) | None \<Rightarrow> (long, None)) in
      if name \<in> {lit ''ignore-environment'', lit ''null'', lit ''debug''} \<and> value = None then Inr tokens
      else if name \<in> {lit ''unset'', lit ''chdir''}
      then (case value of Some _ \<Rightarrow> Inr tokens | None \<Rightarrow> take_env_option_value tokens)
      else if name = lit ''split-string'' \<and> form = Shebang
      then (case ensure_literal_split_string args of
              Inl e \<Rightarrow> Inl e
            | Inr _ \<Rightarrow> Inr (case value of Some v \<Rightarrow> v # tokens | None \<Rightarrow> tokens))
      else Inl ''env option is not allowed in MCP commands'')"

fun short_options :: "env_form \<Rightarrow> rtext list \<Rightarrow> rtext \<Rightarrow> rtext list \<Rightarrow> string + rtext list" where
  "short_options form args [] tokens = Inr tokens"
| "short_options form args (flag # attached) tokens =
     (if flag \<in> {cp (CHR ''i''), cp (CHR ''0''), cp (CHR ''v'')} then short_options form args attached tokens
      else if flag \<in> {cp (CHR ''u''), cp (CHR ''C'')}
      then (if attached = [] then take_env_option_value tokens else Inr tokens)
      else if flag = cp (CHR ''S'') \<and> form = Shebang
      then (case ensure_literal_split_string args of
              Inl e \<Rightarrow> Inl e
            | Inr _ \<Rightarrow> Inr (if attached \<noteq> [] then attached # tokens else tokens))
      else Inl ''env option is not allowed in MCP commands'')"

definition token_size :: "rtext list \<Rightarrow> nat" where
  "token_size ts = (\<Sum>t \<leftarrow> ts. length t + 1)"

lemma token_size_simps [simp]: "token_size [] = 0" "token_size (t # ts) = length t + 1 + token_size ts"
  by (simp_all add: token_size_def)

lemma take_value_shrinks: "take_env_option_value ts = Inr ts' \<Longrightarrow> token_size ts' \<le> token_size ts"
  by (cases ts) (auto simp: take_env_option_value_def)

lemma long_option_shrinks: "long_option form args long ts = Inr ts' \<Longrightarrow> token_size ts' \<le> token_size (long # ts)"
proof -
  assume a: "long_option form args long ts = Inr ts'"
  have "length v \<le> length long" if "split_first [61] long = Some (n, v)" for n v
    using that
  proof (induction long arbitrary: n v)
    case (Cons c cs)
    then show ?case by (auto split: option.splits if_splits)
  qed simp
  with a take_value_shrinks [of ts ts'] show "token_size ts' \<le> token_size (long # ts)"
    by (fastforce simp: long_option_def Let_def split: option.splits if_splits sum.splits prod.splits)
qed

lemma short_options_shrinks: "short_options form args flags ts = Inr ts' \<Longrightarrow> token_size ts' \<le> token_size (flags # ts)"
proof (induction form args flags ts rule: short_options.induct)
  case (2 form args flag attached tokens)
  then show ?case using take_value_shrinks [of tokens ts']
    by (force split: if_splits sum.splits)
qed simp

function env_options :: "env_form \<Rightarrow> rtext list \<Rightarrow> rtext list \<Rightarrow> string + rtext list" where
  "env_options form args [] = Inr []"
| "env_options form args (token # tokens) =
     (if token = lit ''--'' \<or> token = lit ''-'' then Inr tokens
      else (case strip_prefix [45] token of
          None \<Rightarrow> Inr (token # tokens)
        | Some option \<Rightarrow>
            (case (case strip_prefix [45] option of
                Some long \<Rightarrow> long_option form args long tokens
              | None \<Rightarrow> short_options form args option tokens) of
               Inl e \<Rightarrow> Inl e
             | Inr rest \<Rightarrow> env_options form args rest)))"
  by pat_completeness auto
termination
proof (relation "measure (\<lambda>(_, _, ts). token_size ts)")
  fix form args token tokens option rest
  assume o: "strip_prefix [45] token = Some option"
    and r: "(case strip_prefix [45] option of Some long \<Rightarrow> long_option form args long tokens
              | None \<Rightarrow> short_options form args option tokens) = Inr rest"
  have "token_size rest \<le> token_size (option # tokens)"
  proof (cases "strip_prefix [45] option")
    case None
    then show ?thesis using r short_options_shrinks by fastforce
  next
    case (Some long)
    then have "length long < length option" by (simp add: strip_prefix_Some)
    then show ?thesis using r Some long_option_shrinks [of form args long tokens rest] by simp
  qed
  then show "((form, args, rest), form, args, token # tokens) \<in> measure (\<lambda>(_, _, ts). token_size ts)"
    using o by (simp add: strip_prefix_Some)
qed simp

definition env_wrapped_command :: "env_form \<Rightarrow> rtext list \<Rightarrow> string + rtext option" where
  "env_wrapped_command form args =
     (case env_options form args args of
        Inl e \<Rightarrow> Inl e
      | Inr tokens \<Rightarrow>
          (case dropWhile (\<lambda>t. 61 \<in> set t) tokens of
             [] \<Rightarrow> Inr None
           | command # _ \<Rightarrow>
               if starts_with [45] command then Inl ''env would run something that looks like an option'' else Inr (Some command)))"

section \<open>Commands\<close>

text \<open>\<open>cs_first_line\<close> is the first line of the first 1024 bytes of a regular file, if it is UTF-8.\<close>

record command_system =
  cs_canonicalize :: "rtext \<Rightarrow> rtext option"
  cs_which :: "rtext \<Rightarrow> rtext option"
  cs_first_line :: "rtext \<Rightarrow> rtext option"

definition resolve_command_path :: "command_system \<Rightarrow> rtext \<Rightarrow> rtext option" where
  "resolve_command_path sys command =
     (if length (path_components command) > 1 \<or> starts_with [47] command
      then (case cs_canonicalize sys command of Some p \<Rightarrow> Some p | None \<Rightarrow> Some command)
      else cs_which sys command)"

fun split_whitespace_from :: "rtext \<Rightarrow> rtext \<Rightarrow> rtext list" where
  "split_whitespace_from acc [] = [acc]"
| "split_whitespace_from acc (c # cs) =
     (if is_whitespace c then acc # split_whitespace_from [] cs else split_whitespace_from (acc @ [c]) cs)"

definition split_whitespace :: "rtext \<Rightarrow> rtext list" where
  "split_whitespace t = filter (\<lambda>w. w \<noteq> []) (split_whitespace_from [] t)"

definition read_shebang :: "command_system \<Rightarrow> rtext \<Rightarrow> rtext list option" where
  "read_shebang sys path =
     (case cs_first_line sys path of None \<Rightarrow> None
      | Some line \<Rightarrow> (case strip_prefix (lit ''#!'') line of None \<Rightarrow> None | Some s \<Rightarrow> Some (split_whitespace s)))"

definition uses_env_wrapper :: "rtext \<Rightarrow> rtext option \<Rightarrow> bool" where
  "uses_env_wrapper command resolved \<longleftrightarrow>
     file_name command = Some (lit ''env'') \<or>
     (case resolved of None \<Rightarrow> False | Some p \<Rightarrow> file_name p = Some (lit ''env''))"

definition NESTED_ENV :: string where "NESTED_ENV = ''env cannot start another env in an MCP command''"

definition validate_shebang :: "rtext list \<Rightarrow> rtext list \<Rightarrow> string + unit" where
  "validate_shebang blocked tokens =
     (case tokens of
        [] \<Rightarrow> Inr ()
      | interpreter # args \<Rightarrow>
          (case validate_command_target blocked interpreter of
             Inl e \<Rightarrow> Inl e
           | Inr _ \<Rightarrow>
               if file_name interpreter \<noteq> Some (lit ''env'') then Inr ()
               else (case env_wrapped_command Shebang args of
                   Inl e \<Rightarrow> Inl e
                 | Inr None \<Rightarrow> Inr ()
                 | Inr (Some command) \<Rightarrow>
                     (case validate_command_target blocked command of
                        Inl e \<Rightarrow> Inl e
                      | Inr _ \<Rightarrow> if file_name command = Some (lit ''env'') then Inl NESTED_ENV else Inr ()))))"

definition validate_executable :: "command_system \<Rightarrow> rtext list \<Rightarrow> rtext \<Rightarrow> string + rtext option" where
  "validate_executable sys blocked command =
     (case validate_command_target blocked command of
        Inl e \<Rightarrow> Inl e
      | Inr _ \<Rightarrow>
          (case resolve_command_path sys command of
             None \<Rightarrow> Inr None
           | Some p \<Rightarrow>
               (case validate_command_target blocked p of
                  Inl e \<Rightarrow> Inl e
                | Inr _ \<Rightarrow>
                    (case (case read_shebang sys p of None \<Rightarrow> Inr () | Some s \<Rightarrow> validate_shebang blocked s) of
                       Inl e \<Rightarrow> Inl e | Inr _ \<Rightarrow> Inr (Some p)))))"

definition validate_command :: "command_system \<Rightarrow> rtext list \<Rightarrow> rtext \<Rightarrow> rtext list \<Rightarrow> string + unit" where
  "validate_command sys blocked command args =
     (if length args > MAX_COMMAND_ARGUMENTS then Inl ''too many arguments''
      else (case validate_executable sys blocked command of
          Inl e \<Rightarrow> Inl e
        | Inr resolved \<Rightarrow>
            if \<not> uses_env_wrapper command resolved then Inr ()
            else (case env_wrapped_command Exec args of
                Inl e \<Rightarrow> Inl e
              | Inr None \<Rightarrow> Inr ()
              | Inr (Some wrapped) \<Rightarrow>
                  (case validate_executable sys blocked wrapped of
                     Inl e \<Rightarrow> Inl e
                   | Inr p \<Rightarrow> if uses_env_wrapper wrapped p then Inl NESTED_ENV else Inr ()))))"

section \<open>Servers of the configuration\<close>

text \<open>\<open>expand_env_templates\<close>: \<open>lookup\<close> is the environment of the daemon.\<close>

lemma split_first_strip: "split_first p s = Some (a, b) \<Longrightarrow> s = a @ p @ b"
  by (induction s arbitrary: a b) (auto simp: strip_prefix_Some split: option.splits if_splits)

function expand_loop :: "(rtext \<Rightarrow> rtext option) \<Rightarrow> rtext \<Rightarrow> rtext \<Rightarrow> app_error + rtext" where
  "expand_loop lookup out rest =
     (case split_first (lit ''${'') rest of
        None \<Rightarrow> Inr (out @ rest)
      | Some (before, after_start) \<Rightarrow>
          (case split_first (lit ''}'') after_start of
             None \<Rightarrow> Inl (Config ''Invalid MCP template (missing })'')
           | Some (token, rest') \<Rightarrow>
               (let (name, default) = (case split_first (lit '':-'') token of
                      Some (n, d) \<Rightarrow> (trim n, Some d) | None \<Rightarrow> (trim token, None)) in
                if name = [] then Inl (Config ''Invalid MCP template variable'')
                else (case (case lookup name of Some v \<Rightarrow> Some v | None \<Rightarrow> default) of
                    None \<Rightarrow> Inl (Config ''Missing environment variable required by MCP config'')
                  | Some v \<Rightarrow> expand_loop lookup (out @ before @ v) rest'))))"
  by pat_completeness auto
termination
  by (relation "measure (\<lambda>(_, _, rest). length rest)") (auto dest!: split_first_strip simp: lit_def)

declare expand_loop.simps [simp del]

definition SECRET_REF_PREFIX :: rtext where "SECRET_REF_PREFIX = lit ''bobe-secret://''"

definition resolve_value :: "(rtext \<Rightarrow> rtext option) \<Rightarrow> (rtext \<Rightarrow> rtext option) \<Rightarrow> rtext \<Rightarrow> app_error + rtext" where
  "resolve_value read_secret lookup raw =
     (case strip_prefix SECRET_REF_PREFIX raw of
        Some account \<Rightarrow>
          (if trim account = [] then Inl (Config ''Invalid empty MCP secret reference'')
           else (case read_secret account of None \<Rightarrow> Inl (Config ''Missing MCP secret'') | Some v \<Rightarrow> Inr v))
      | None \<Rightarrow> expand_loop lookup [] raw)"

fun collect_results :: "('e + 'a) list \<Rightarrow> 'e + 'a list" where
  "collect_results [] = Inr []"
| "collect_results (r # rs) =
     (case r of Inl e \<Rightarrow> Inl e
      | Inr a \<Rightarrow> (case collect_results rs of Inl e \<Rightarrow> Inl e | Inr as \<Rightarrow> Inr (a # as)))"

record mcp_entry =
  me_command :: rtext
  me_args :: "rtext list"
  me_env :: "(rtext, rtext) hmap"
  me_enabled :: bool
  me_timeout_ms :: "nat option"
  me_excluded_tools :: "rtext list"

record mcp_server =
  ms_name :: rtext
  ms_command :: rtext
  ms_args :: "rtext list"
  ms_env :: "(rtext, rtext) hmap"
  ms_timeout_ms :: nat
  ms_excluded_tools :: "rtext list"

text \<open>One enabled entry; \<open>me_timeout_ms\<close> is what \<open>timeout_millis\<close> makes of its seconds, \<open>None\<close> if refused.\<close>

definition parse_server ::
  "command_system \<Rightarrow> (rtext \<Rightarrow> rtext option) \<Rightarrow> (rtext \<Rightarrow> rtext option) \<Rightarrow> rtext list \<Rightarrow> rtext list \<Rightarrow> rtext \<Rightarrow> mcp_entry \<Rightarrow>
     app_error + mcp_server" where
  "parse_server sys read_secret lookup blocked dangerous name e =
     (case me_timeout_ms e of
        None \<Rightarrow> Inl (Config ''Invalid MCP server'')
      | Some timeout \<Rightarrow>
          (case resolve_value read_secret lookup (me_command e) of Inl x \<Rightarrow> Inl x
           | Inr command \<Rightarrow>
          (case collect_results (map (resolve_value read_secret lookup) (me_args e)) of Inl x \<Rightarrow> Inl x
           | Inr args \<Rightarrow>
          (case collect_results (map (\<lambda>(k, v). map_sum id (Pair k) (resolve_value read_secret lookup v)) (me_env e)) of Inl x \<Rightarrow> Inl x
           | Inr env \<Rightarrow>
          (case validate_subprocess_env dangerous env of Inl m \<Rightarrow> Inl (Validation m)
           | Inr _ \<Rightarrow>
          (case validate_command sys blocked command args of Inl m \<Rightarrow> Inl (Validation m)
           | Inr _ \<Rightarrow> Inr \<lparr>ms_name = name, ms_command = command, ms_args = args, ms_env = env,
                 ms_timeout_ms = timeout, ms_excluded_tools = me_excluded_tools e\<rparr>))))))"

definition parse_enabled_servers ::
  "command_system \<Rightarrow> (rtext \<Rightarrow> rtext option) \<Rightarrow> (rtext \<Rightarrow> rtext option) \<Rightarrow> rtext list \<Rightarrow> rtext list \<Rightarrow>
     (rtext, mcp_entry) hmap \<Rightarrow> app_error + mcp_server list" where
  "parse_enabled_servers sys read_secret lookup blocked dangerous file =
     collect_results (map (\<lambda>(name, e). parse_server sys read_secret lookup blocked dangerous name e)
       (filter (\<lambda>(_, e). me_enabled e) file))"

section \<open>What the checks let pass\<close>

lemma target_passes: "validate_command_target blocked c = Inr () \<longleftrightarrow> \<not> is_blocked_command blocked (program_name c)"
  by (simp add: validate_command_target_def)

lemma validated_shebang:
  assumes "validate_shebang blocked (i # as) = Inr ()"
  shows "\<not> is_blocked_command blocked (program_name i)"
    and "file_name i = Some (lit ''env'') \<Longrightarrow> \<exists>w. env_wrapped_command Shebang as = Inr w \<and>
      (\<forall>c. w = Some c \<longrightarrow> \<not> is_blocked_command blocked (program_name c))"
  using assms by (auto simp: validate_shebang_def simp flip: target_passes split: sum.splits option.splits if_splits)

lemma validated_executable:
  assumes "validate_executable sys blocked command = Inr p"
  shows "p = resolve_command_path sys command" "\<not> is_blocked_command blocked (program_name command)"
    and "p = Some x \<Longrightarrow> \<not> is_blocked_command blocked (program_name x)"
    and "p = Some x \<Longrightarrow> read_shebang sys x = Some t \<Longrightarrow> validate_shebang blocked t = Inr ()"
  using assms by (auto simp: validate_executable_def simp flip: target_passes split: sum.splits option.splits)

text \<open>The program that follows the options and assignments of \<open>env\<close> is checked like a command, and is not \<open>env\<close>.\<close>

lemma validated_command:
  assumes "validate_command sys blocked command args = Inr ()"
  obtains p where "validate_executable sys blocked command = Inr p"
    "uses_env_wrapper command p \<Longrightarrow> env_wrapped_command Exec args = Inr (Some c) \<Longrightarrow>
       \<exists>q. validate_executable sys blocked c = Inr q \<and> \<not> uses_env_wrapper c q"
  using assms by (auto simp: validate_command_def split: if_splits sum.splits option.splits)

lemma collect_results_mem: "collect_results rs = Inr as \<Longrightarrow> a \<in> set as \<Longrightarrow> Inr a \<in> set rs"
  by (induction rs arbitrary: as) (auto split: sum.splits)

lemma parsed_server_validated:
  assumes "parse_server sys read_secret lookup blocked dangerous name e = Inr s"
  shows "validate_command sys blocked (ms_command s) (ms_args s) = Inr ()"
    and "validate_subprocess_env dangerous (ms_env s) = Inr ()"
  using assms unfolding parse_server_def by (auto split: option.splits sum.splits)

lemma parsed_servers_validated:
  assumes "parse_enabled_servers sys read_secret lookup blocked dangerous file = Inr servers" "s \<in> set servers"
  shows "\<exists>name e. (name, e) \<in> set file \<and> me_enabled e \<and>
    parse_server sys read_secret lookup blocked dangerous name e = Inr s"
proof -
  from assms(1) have "Inr s \<in> set (map (\<lambda>(name, e). parse_server sys read_secret lookup blocked dangerous name e)
       (filter (\<lambda>(_, e). me_enabled e) file))"
    unfolding parse_enabled_servers_def by (rule collect_results_mem) (rule assms(2))
  then obtain n e where "(n, e) \<in> set file" "me_enabled e"
    "parse_server sys read_secret lookup blocked dangerous n e = Inr s" by auto
  then show ?thesis by blast
qed

lemma enabled_servers_name_nothing_blocked:
  assumes "parse_enabled_servers sys read_secret lookup blocked dangerous file = Inr servers" "s \<in> set servers"
  shows "\<not> is_blocked_command blocked (program_name (ms_command s))"
    and "(k, v) \<in> set (ms_env s) \<Longrightarrow> \<not> is_dangerous_env_key dangerous k"
proof -
  obtain n e where e: "parse_server sys read_secret lookup blocked dangerous n e = Inr s"
    using parsed_servers_validated [OF assms] by blast
  show "\<not> is_blocked_command blocked (program_name (ms_command s))"
    using validated_command [OF parsed_server_validated(1) [OF e]] validated_executable(2) by metis
  show "(k, v) \<in> set (ms_env s) \<Longrightarrow> \<not> is_dangerous_env_key dangerous k"
    using parsed_server_validated(2) [OF e] by (auto simp: validate_subprocess_env_def filter_empty_conv split: if_splits)
qed

definition sample_system :: command_system where
  "sample_system = \<lparr>cs_canonicalize = (\<lambda>_. None), cs_which = (\<lambda>c. if c = lit ''env'' then Some (lit ''/usr/bin/env'') else None),
     cs_first_line = (\<lambda>_. None)\<rparr>"

text \<open>C27: Assignments among the arguments of \<open>env\<close> are not checked: a preloaded library is refused in a server's
  environment and makes no difference as an argument of \<open>env\<close>, whatever its value, before any command that is
  neither an option nor an assignment itself.\<close>

theorem assignments_escape_the_environment_check:
  assumes "61 \<notin> set c" "\<not> starts_with [45] c"
  shows "validate_subprocess_env dangerous [(lit ''LD_PRELOAD'', v)] \<noteq> Inr () \<and>
    validate_command sys blocked (lit ''env'') [lit ''LD_PRELOAD='' @ v, c] = validate_command sys blocked (lit ''env'') [c]"
proof
  show "validate_subprocess_env dangerous [(lit ''LD_PRELOAD'', v)] \<noteq> Inr ()"
    by (simp add: validate_subprocess_env_def is_dangerous_env_key_def DEFAULT_DANGEROUS_ENV_KEYS_def)
  have "env_options Exec [lit ''LD_PRELOAD='' @ v, c] [lit ''LD_PRELOAD='' @ v, c] = Inr [lit ''LD_PRELOAD='' @ v, c]"
    by (simp add: lit_def)
  moreover have "env_options Exec [c] [c] = Inr [c]"
    using assms by (cases c) (auto simp: lit_def starts_with_def)
  ultimately have eq: "env_wrapped_command Exec [lit ''LD_PRELOAD='' @ v, c] = env_wrapped_command Exec [c]"
    by (simp add: env_wrapped_command_def lit_def)
  show "validate_command sys blocked (lit ''env'') [lit ''LD_PRELOAD='' @ v, c] = validate_command sys blocked (lit ''env'') [c]"
    unfolding validate_command_def eq MAX_COMMAND_ARGUMENTS_def by simp
qed

theorem assignments_escape_the_environment_check_witness:
  "validate_subprocess_env [] [(lit ''LD_PRELOAD'', lit ''/tmp/a.so'')] \<noteq> Inr () \<and>
    validate_command sample_system [] (lit ''env'') [lit ''LD_PRELOAD='' @ lit ''/tmp/a.so'', lit ''node''] =
      validate_command sample_system [] (lit ''env'') [lit ''node'']"
  by (rule assignments_escape_the_environment_check) (simp_all add: lit_def starts_with_def)

end
