(* ===== verification/Agent_Link.thy ===== *)
theory Agent_Link
  imports BoBe_Prelude BoBe_Text Reply_Streaming
begin

text \<open>
  The link to the agent's process: \<open>Connection\<close> of \<open>src/BoBeService/src/agent/host.rs\<close>. Messages are lines of
  JSON in both directions; decoded, they are the datatype \<open>incoming\<close>. A critical section of the link's maps
  is one step, the three of \<open>fail\<close> are taken together. \<open>begin\<close> holds \<open>request_order\<close> and is several steps,
  between which the reader and other requests go on. A one-shot reply is a slot that is written once; a
  cancellation token is the number of the request it was made for.
\<close>

section \<open>Lines\<close>

definition MAX_LINE_BYTES :: nat where "MAX_LINE_BYTES = 16 * 1024 * 1024"

datatype line_result = Line "byte list" | EndOfInput | PartialLine | LineTooLong

text \<open>\<open>read_line\<close> over the buffers \<open>fill_buf\<close> yields; an empty one is the end of the input. The rest of the
  buffer after a line feed is left for the next line.\<close>

fun read_line :: "nat \<Rightarrow> byte list \<Rightarrow> byte list list \<Rightarrow> line_result \<times> byte list list" where
  "read_line limit line [] = ((if line = [] then EndOfInput else PartialLine), [])"
| "read_line limit line (buffer # rest) =
     (if buffer = [] then ((if line = [] then EndOfInput else PartialLine), rest)
      else let newline = (10 \<in> set buffer);
               taken = (if newline then takeWhile (\<lambda>b. b \<noteq> 10) buffer @ [10] else buffer);
               left = drop (length taken) buffer
           in if length line + length taken > limit then (LineTooLong, rest)
              else if newline then (Line (line @ taken), if left = [] then rest else left # rest)
              else read_line limit (line @ taken) rest)"

text \<open>All lines, and how the input ended.\<close>

function read_lines :: "nat \<Rightarrow> byte list list \<Rightarrow> byte list list \<times> line_result" where
  "read_lines limit buffers =
     (case read_line limit [] buffers of
        (Line l, rest) \<Rightarrow> (let (ls, e) = read_lines limit rest in (l # ls, e))
      | (e, _) \<Rightarrow> ([], e))"
  by pat_completeness auto

lemma takeWhile_newline: "10 \<in> set (buffer :: byte list) \<Longrightarrow>
    buffer = (takeWhile (\<lambda>b. b \<noteq> 10) buffer @ [10]) @ drop (Suc (length (takeWhile (\<lambda>b. b \<noteq> 10) buffer))) buffer"
  by (induction buffer) auto

lemma read_line_consumes:
  "read_line limit line buffers = (Line l, rest) \<Longrightarrow> l \<noteq> [] \<and> line @ concat buffers = l @ concat rest"
proof (induction limit line buffers rule: read_line.induct)
  case (2 limit line buffer bs)
  show ?case
  proof (cases "buffer = [] \<or> \<not> 10 \<in> set buffer")
    case True
    then show ?thesis using 2 by (auto simp: Let_def split: if_splits)
  next
    case False
    then show ?thesis using 2(2) takeWhile_newline [of buffer]
      by (auto simp: Let_def drop_all split: if_splits)
  qed
qed (auto split: if_splits)

lemma read_line_shrinks: "read_line limit [] buffers = (Line l, rest) \<Longrightarrow> length (concat rest) < length (concat buffers)"
  using read_line_consumes [of limit "[]" buffers l rest] by (cases l) auto

termination read_lines
  by (relation "measure (\<lambda>(_, buffers). length (concat buffers))") (auto dest!: sym [of "(_, _)"] read_line_shrinks)

declare read_lines.simps [simp del]

text \<open>The same on the bytes, however they were cut into buffers.\<close>

function frames :: "nat \<Rightarrow> byte list \<Rightarrow> byte list list \<times> line_result" where
  "frames limit bs =
     (if 10 \<in> set bs
      then (let l = takeWhile (\<lambda>b. b \<noteq> 10) bs @ [10] in
            if length l > limit then ([], LineTooLong)
            else (let (ls, e) = frames limit (drop (length l) bs) in (l # ls, e)))
      else if bs = [] then ([], EndOfInput)
      else if length bs > limit then ([], LineTooLong) else ([], PartialLine))"
  by pat_completeness auto
termination frames
  by (relation "measure (\<lambda>(_, bs). length bs)") (auto simp: length_pos_if_in_set intro: diff_less)

declare frames.simps [simp del]

definition first_line :: "nat \<Rightarrow> byte list \<Rightarrow> line_result" where
  "first_line limit bs =
     (if 10 \<in> set bs
      then (let l = takeWhile (\<lambda>b. b \<noteq> 10) bs @ [10] in if length l > limit then LineTooLong else Line l)
      else if bs = [] then EndOfInput else if length bs > limit then LineTooLong else PartialLine)"

lemma read_line_first:
  "[] \<notin> set buffers \<Longrightarrow> 10 \<notin> set line \<Longrightarrow> length line \<le> limit \<Longrightarrow>
     fst (read_line limit line buffers) = first_line limit (line @ concat buffers) \<and>
     [] \<notin> set (snd (read_line limit line buffers))"
proof (induction limit line buffers rule: read_line.induct)
  case (1 limit line)
  then show ?case by (auto simp: first_line_def)
next
  case (2 limit line buffer bs)
  then have b: "buffer \<noteq> []" "[] \<notin> set bs" by auto
  show ?case
  proof (cases "10 \<in> set buffer")
    case True
    have "takeWhile (\<lambda>b. b \<noteq> 10) (line @ buffer @ concat bs) = line @ takeWhile (\<lambda>b. b \<noteq> 10) buffer"
      using True 2(3) by (subst takeWhile_append2) (auto simp: takeWhile_append1)
    then show ?thesis using True b by (auto simp: first_line_def Let_def)
  next
    case False
    show ?thesis
    proof (cases "length line + length buffer > limit")
      case over: True
      then show ?thesis
        using False b 2(3) by (auto simp: first_line_def Let_def takeWhile_append)
    next
      case fits: False
      have *: "read_line limit line (buffer # bs) = read_line limit (line @ buffer) bs"
        using False fits b(1) by (simp add: Let_def)
      have "fst (read_line limit (line @ buffer) bs) = first_line limit ((line @ buffer) @ concat bs) \<and>
        [] \<notin> set (snd (read_line limit (line @ buffer) bs))"
        by (rule 2(1)) (use False fits b 2(3) in auto)
      then show ?thesis unfolding * by simp
    qed
  qed
qed

text \<open>The lines read from the agent do not depend on how its output was cut into buffers: reading ends
  with the same lines and in the same way as splitting the whole output at its line feeds.\<close>

theorem lines_do_not_depend_on_buffers:
  assumes "[] \<notin> set buffers"
  shows "read_lines limit buffers = frames limit (concat buffers)"
  using assms
proof (induction limit buffers rule: read_lines.induct)
  case (1 limit buffers)
  obtain r rest where r: "read_line limit [] buffers = (r, rest)" by (cases "read_line limit [] buffers")
  then have f: "r = first_line limit (concat buffers)" and ne: "[] \<notin> set rest"
    using read_line_first [of buffers "[]" limit] 1(2) by auto
  show ?case
  proof (cases "\<exists>l. r = Line l")
    case True
    then obtain l where l: "r = Line l" by blast
    then have c: "concat buffers = l @ concat rest" using read_line_consumes [of limit "[]" buffers l rest] r by simp
    have "read_lines limit rest = frames limit (concat rest)" using 1(1) r l ne by auto
    moreover have "10 \<in> set (concat buffers)" "l = takeWhile (\<lambda>b. b \<noteq> 10) (concat buffers) @ [10]" "\<not> length l > limit"
      using f l by (auto simp: first_line_def Let_def split: if_splits)
    moreover have "concat rest = drop (length l) (concat buffers)" using c by simp
    ultimately show ?thesis using r l by (subst read_lines.simps, subst frames.simps) (simp add: Let_def)
  next
    case False
    then show ?thesis using r f
      by (subst read_lines.simps, subst frames.simps) (cases r; force simp: first_line_def Let_def split: if_splits)
  qed
qed

theorem lines_do_not_depend_on_buffers_witness:
  "read_lines 4 [[49, 50], [51, 10, 52], [10]] = frames 4 [49, 50, 51, 10, 52, 10] \<and>
     frames 4 [49, 50, 51, 10, 52, 10] = ([[49, 50, 51, 10], [52, 10]], EndOfInput)"
proof
  show "read_lines 4 [[49, 50], [51, 10, 52], [10]] = frames 4 [49, 50, 51, 10, 52, 10]"
    using lines_do_not_depend_on_buffers [of "[[49, 50], [51, 10, 52], [10]]" 4] by simp
  show "frames 4 [49, 50, 51, 10, 52, 10] = ([[49, 50, 51, 10], [52, 10]], EndOfInput)"
    by (simp add: frames.simps)
qed

section \<open>The link\<close>

text \<open>What an admitted chat or background execution may do; \<open>au_token\<close> is its cancellation.\<close>

record operation_authority =
  au_token :: int
  au_can_start :: bool
  au_channel :: uuid
  au_goal :: "uuid option"
  au_run :: "uuid option"
  au_job :: "uuid option"

record run_scope =
  sc_run :: "uuid option"
  sc_channel :: uuid
  sc_goal :: "uuid option"

text \<open>How far the \<open>begin\<close> that holds the order has come, and a task of the reader: a callback of the agent
  or the abort of a stream.\<close>

datatype begin_phase = Checked | InPending | InRuns | InTurns | Registered

record begin_request =
  bg_id :: int
  bg_method :: string
  bg_stream :: bool
  bg_scope :: run_scope
  bg_phase :: begin_phase

datatype reader_task = CallbackTask int | AbortTask int

text \<open>\<open>lk_replies\<close> is what was written into the one-shot of each request, \<open>lk_streams\<close> what waits in the channel
  of a stream, \<open>None\<close> if its consumer is gone; \<open>lk_tasks\<close> the tasks not joined yet, with whether they ended.\<close>

record link =
  lk_pending :: "int list"
  lk_replies :: "int \<Rightarrow> (string + json) option"
  lk_streams :: "(int, chat_delta list option) hmap"
  lk_turns :: "(int, operation_authority) hmap"
  lk_runs :: "(uuid, int) hmap"
  lk_next :: int
  lk_begin :: "begin_request option"
  lk_sent :: "int list"
  lk_cancelled :: "int set"
  lk_alive :: bool
  lk_initialized :: bool
  lk_exited :: bool
  lk_stop :: bool
  lk_reading :: bool
  lk_last_callback :: int
  lk_tasks :: "(reader_task \<times> bool) list"

definition new_link :: link where
  "new_link = \<lparr>lk_pending = [], lk_replies = (\<lambda>_. None), lk_streams = [], lk_turns = [], lk_runs = [], lk_next = 1,
     lk_begin = None, lk_sent = [], lk_cancelled = {}, lk_alive = True, lk_initialized = False, lk_exited = False,
     lk_stop = False, lk_reading = True, lk_last_callback = 0, lk_tasks = []\<rparr>"

definition MAX_PENDING :: nat where "MAX_PENDING = 256"
definition MAX_REQUEST_ID :: int where "MAX_REQUEST_ID = 9007199254740991"

definition finish_request :: "int \<Rightarrow> link \<Rightarrow> link" where
  "finish_request i s = s\<lparr>lk_pending := removeAll i (lk_pending s), lk_streams := hm_remove i (lk_streams s),
     lk_turns := hm_remove i (lk_turns s), lk_runs := hm_retain (\<lambda>_ request. request \<noteq> i) (lk_runs s)\<rparr>"

definition fail_link :: "string \<Rightarrow> link \<Rightarrow> link" where
  "fail_link reason s =
     (if lk_alive s
      then s\<lparr>lk_alive := False,
             lk_replies := (\<lambda>i. if i \<in> set (lk_pending s) then Some (Inl reason) else lk_replies s i),
             lk_pending := [], lk_streams := [],
             lk_cancelled := lk_cancelled s \<union> au_token ` snd ` set (lk_turns s)\<rparr>
      else s)"

definition resolve_reply :: "int \<Rightarrow> string + json \<Rightarrow> link \<Rightarrow> link" where
  "resolve_reply i v s =
     (if i \<in> set (lk_pending s)
      then s\<lparr>lk_pending := removeAll i (lk_pending s), lk_replies := (lk_replies s)(i := Some v)\<rparr>
      else if i < 1 \<or> lk_next s \<le> i
      then (fail_link ''pi worker returned an unknown response ID'' s)\<lparr>lk_stop := True\<rparr>
      else s)"

text \<open>\<open>begin\<close>: the checks, the four registrations and the sending; \<open>bytes\<close> is the length of the encoded message.\<close>

definition begin_check :: "string \<Rightarrow> bool \<Rightarrow> run_scope \<Rightarrow> nat \<Rightarrow> link \<Rightarrow> (app_error + int) \<times> link" where
  "begin_check method stream scope bytes s =
     (if \<not> lk_alive s then (Inl (ServiceUnavailable ''pi worker is not running''), s)
      else
        let i = lk_next s; s1 = s\<lparr>lk_next := i + 1\<rparr> in
        if \<not> (1 \<le> i \<and> i \<le> MAX_REQUEST_ID) then (Inl (Internal ''pi request ID space is exhausted''), s1)
        else if (case sc_run scope of None \<Rightarrow> False | Some r \<Rightarrow> hm_get (lk_runs s) r \<noteq> None)
        then (Inl (Conflict ''run already has an executing worker request''), s1)
        else if MAX_PENDING \<le> length (lk_pending s)
        then (Inl (ServiceUnavailable ''pi request capacity reached''), s1)
        else if bytes > MAX_LINE_BYTES
        then (Inl (Validation ''pi request exceeds the message limit''), s1)
        else (Inr i, s1\<lparr>lk_begin := Some \<lparr>bg_id = i, bg_method = method, bg_stream = stream, bg_scope = scope,
               bg_phase = Checked\<rparr>\<rparr>))"

definition authority_of :: "begin_request \<Rightarrow> operation_authority" where
  "authority_of b = \<lparr>au_token = bg_id b, au_can_start = (bg_method b = ''chat''), au_channel = sc_channel (bg_scope b),
     au_goal = sc_goal (bg_scope b), au_run = sc_run (bg_scope b),
     au_job = (if bg_method b = ''background'' then sc_run (bg_scope b) else None)\<rparr>"

definition begin_register :: "begin_request \<Rightarrow> link \<Rightarrow> link" where
  "begin_register b s =
     (case bg_phase b of
        Checked \<Rightarrow> s\<lparr>lk_pending := bg_id b # lk_pending s, lk_begin := Some (b\<lparr>bg_phase := InPending\<rparr>)\<rparr>
      | InPending \<Rightarrow> s\<lparr>lk_runs := (case sc_run (bg_scope b) of None \<Rightarrow> lk_runs s | Some r \<Rightarrow> hm_insert r (bg_id b) (lk_runs s)),
          lk_begin := Some (b\<lparr>bg_phase := InRuns\<rparr>)\<rparr>
      | InRuns \<Rightarrow> s\<lparr>lk_turns := (if bg_method b \<in> {''chat'', ''background''}
            then hm_insert (bg_id b) (authority_of b) (lk_turns s) else lk_turns s),
          lk_begin := Some (b\<lparr>bg_phase := InTurns\<rparr>)\<rparr>
      | InTurns \<Rightarrow> s\<lparr>lk_streams := (if bg_stream b then hm_insert (bg_id b) (Some []) (lk_streams s) else lk_streams s),
          lk_begin := Some (b\<lparr>bg_phase := Registered\<rparr>)\<rparr>
      | Registered \<Rightarrow> s)"

definition begin_send :: "bool \<Rightarrow> begin_request \<Rightarrow> link \<Rightarrow> (app_error + int) \<times> link" where
  "begin_send ok b s =
     (let s1 = s\<lparr>lk_begin := None\<rparr> in
      if ok then (Inr (bg_id b), s1\<lparr>lk_sent := bg_id b # lk_sent s1\<rparr>)
      else (Inl (ServiceUnavailable ''pi request could not be sent''), finish_request (bg_id b) s1))"

section \<open>The reader\<close>

datatype incoming = IncomingRequest int string json | IncomingResponse int json | IncomingFailure int string
  | IncomingEvent "(int \<times> chat_delta) option" | OtherNotification string | Malformed

definition STREAM_CAPACITY :: nat where "STREAM_CAPACITY = 256"
definition MAX_CALLBACKS :: nat where "MAX_CALLBACKS = 256"

text \<open>The end of the loop of \<open>read\<close>, whatever ended it: callbacks are aborted.\<close>

definition stop_reading :: "link \<Rightarrow> link" where
  "stop_reading s = (fail_link ''pi worker output closed'' (s\<lparr>lk_tasks := [], lk_reading := False\<rparr>))\<lparr>lk_stop := True\<rparr>"

definition refuse_output :: "string \<Rightarrow> link \<Rightarrow> link" where
  "refuse_output reason s = stop_reading (fail_link reason s)"

definition join_tasks :: "link \<Rightarrow> link" where
  "join_tasks s = s\<lparr>lk_tasks := filter (\<lambda>(_, ended). \<not> ended) (lk_tasks s)\<rparr>"

definition stream_event :: "int \<Rightarrow> chat_delta \<Rightarrow> link \<Rightarrow> link" where
  "stream_event i d s =
     (case hm_get (lk_streams s) i of
        None \<Rightarrow> s
      | Some queue \<Rightarrow>
          (case queue of
             Some ds \<Rightarrow> if length ds < STREAM_CAPACITY
               then s\<lparr>lk_streams := hm_insert i (Some (ds @ [d])) (lk_streams s)\<rparr>
               else (resolve_reply i (Inl ''pi output consumer fell behind'') s)\<lparr>lk_tasks := (AbortTask i, False) # lk_tasks s\<rparr>
           | None \<Rightarrow> (resolve_reply i (Inl ''pi output consumer fell behind'') s)\<lparr>lk_tasks := (AbortTask i, False) # lk_tasks s\<rparr>))"

definition handle_incoming :: "incoming \<Rightarrow> link \<Rightarrow> link" where
  "handle_incoming m s =
     (case m of
        Malformed \<Rightarrow> refuse_output ''invalid pi protocol message'' s
      | IncomingResponse i v \<Rightarrow> join_tasks (resolve_reply i (Inr v) s)
      | IncomingFailure i e \<Rightarrow> join_tasks (resolve_reply i (Inl e) s)
      | IncomingRequest i _ _ \<Rightarrow>
          (if lk_last_callback s \<le> i \<or> MAX_CALLBACKS \<le> length (lk_tasks s)
           then refuse_output ''pi callback ordering or capacity limit was violated'' s
           else join_tasks (s\<lparr>lk_last_callback := i, lk_tasks := (CallbackTask i, False) # lk_tasks s\<rparr>))
      | IncomingEvent None \<Rightarrow> refuse_output ''invalid pi event'' s
      | IncomingEvent (Some (i, d)) \<Rightarrow> join_tasks (stream_event i d s)
      | OtherNotification _ \<Rightarrow> join_tasks s)"

text \<open>The first step of \<open>abort\<close>: the execution is cancelled; the call of \<open>abort\<close> is a request like others.\<close>

definition abort_begin :: "int \<Rightarrow> link \<Rightarrow> link" where
  "abort_begin i s =
     (case hm_get (lk_turns s) i of None \<Rightarrow> s | Some a \<Rightarrow> s\<lparr>lk_cancelled := insert (au_token a) (lk_cancelled s)\<rparr>)"

text \<open>The task that waits for the process.\<close>

definition worker_exits :: "link \<Rightarrow> link" where
  "worker_exits s = (fail_link ''pi worker exited'' s)\<lparr>lk_exited := True, lk_reading := False, lk_tasks := []\<rparr>"

section \<open>Steps\<close>

text \<open>\<open>StartsBegin\<close> takes the order, \<open>DropsBegin\<close> is a caller that gives up while its message waits for the channel;
  \<open>Finishes\<close> is a caller that has its reply, or no longer waits for it.\<close>

datatype link_event = StartsBegin string bool run_scope nat | RegistersNext | Sends bool | DropsBegin | Finishes int
  | Receives incoming | OutputEnds | InputFails | Aborts int | EndsTask reader_task | Consumes int | LeavesStream int
  | StopsLink | ExitsWorker | InitializesLink

fun link_next :: "link_event \<Rightarrow> link \<Rightarrow> link option" where
  "link_next (StartsBegin method stream scope bytes) s =
     (if lk_begin s \<noteq> None then None else Some (snd (begin_check method stream scope bytes s)))"
| "link_next RegistersNext s =
     (case lk_begin s of Some b \<Rightarrow> if bg_phase b = Registered then None else Some (begin_register b s) | None \<Rightarrow> None)"
| "link_next (Sends ok) s =
     (case lk_begin s of Some b \<Rightarrow> if bg_phase b = Registered \<and> (ok \<longrightarrow> \<not> lk_exited s) then Some (snd (begin_send ok b s)) else None
      | None \<Rightarrow> None)"
| "link_next DropsBegin s =
     (case lk_begin s of Some b \<Rightarrow> if bg_phase b = Registered then Some (s\<lparr>lk_begin := None\<rparr>) else None | None \<Rightarrow> None)"
| "link_next (Finishes i) s = (if i \<in> set (lk_sent s) then Some (finish_request i s) else None)"
| "link_next (Receives m) s = (if lk_reading s then Some (handle_incoming m s) else None)"
| "link_next OutputEnds s = (if lk_reading s then Some (stop_reading s) else None)"
| "link_next InputFails s = Some ((fail_link ''pi worker input is unavailable'' s)\<lparr>lk_stop := True\<rparr>)"
| "link_next (Aborts i) s = Some (abort_begin i s)"
| "link_next (EndsTask t) s = Some (s\<lparr>lk_tasks := map (\<lambda>(t', ended). (t', ended \<or> t' = t)) (lk_tasks s)\<rparr>)"
| "link_next (Consumes i) s = Some (s\<lparr>lk_streams := hm_modify i (map_option tl) (lk_streams s)\<rparr>)"
| "link_next (LeavesStream i) s = Some (s\<lparr>lk_streams := hm_modify i (\<lambda>_. None) (lk_streams s)\<rparr>)"
| "link_next StopsLink s = Some (s\<lparr>lk_stop := True\<rparr>)"
| "link_next ExitsWorker s = Some (worker_exits s)"
| "link_next InitializesLink s = Some (s\<lparr>lk_initialized := True\<rparr>)"

fun link_run :: "link_event list \<Rightarrow> link \<Rightarrow> link option" where
  "link_run [] s = Some s"
| "link_run (e # es) s = (case link_next e s of None \<Rightarrow> None | Some s' \<Rightarrow> link_run es s')"

section \<open>Invariants\<close>

text \<open>A number is open when its request may still be registered.\<close>

definition beginning :: "int \<Rightarrow> link \<Rightarrow> bool" where
  "beginning i s \<longleftrightarrow> (\<exists>b. lk_begin s = Some b \<and> bg_id b = i)"

text \<open>The numbers in use were given out; a reply is written once; a run has one request, which its turn
  belongs to; and what the \<open>begin\<close> in progress still has to register is free.\<close>

definition numbers_ok :: "link \<Rightarrow> bool" where
  "numbers_ok s \<longleftrightarrow> 1 \<le> lk_next s \<and>
     (\<forall>i \<in> set (lk_pending s). i < lk_next s) \<and> (\<forall>i \<in> set (lk_sent s). i < lk_next s) \<and>
     (\<forall>i a. hm_get (lk_turns s) i = Some a \<longrightarrow> i < lk_next s) \<and>
     (\<forall>r i. hm_get (lk_runs s) r = Some i \<longrightarrow> i < lk_next s) \<and>
     (\<forall>b. lk_begin s = Some b \<longrightarrow> bg_id b < lk_next s \<and> bg_id b \<notin> set (lk_sent s))"

definition replies_ok :: "link \<Rightarrow> bool" where
  "replies_ok s \<longleftrightarrow> distinct (lk_pending s) \<and> length (lk_pending s) \<le> MAX_PENDING \<and>
     (\<forall>i. i \<in> set (lk_pending s) \<or> lk_next s \<le> i \<longrightarrow> lk_replies s i = None) \<and>
     (\<forall>b. lk_begin s = Some b \<and> bg_phase b = Checked \<longrightarrow>
        length (lk_pending s) < MAX_PENDING \<and> lk_replies s (bg_id b) = None \<and> bg_id b \<notin> set (lk_pending s))"

definition runs_ok :: "link \<Rightarrow> bool" where
  "runs_ok s \<longleftrightarrow> hm_ok (lk_turns s) \<and> hm_ok (lk_runs s) \<and> hm_ok (lk_streams s) \<and>
     (\<forall>i a. hm_get (lk_turns s) i = Some a \<longrightarrow> au_token a = i \<and> (\<forall>r. au_run a = Some r \<longrightarrow> hm_get (lk_runs s) r = Some i)) \<and>
     (\<forall>b. lk_begin s = Some b \<longrightarrow>
        (bg_phase b \<in> {Checked, InPending} \<longrightarrow> (\<forall>r. sc_run (bg_scope b) = Some r \<longrightarrow> hm_get (lk_runs s) r = None)) \<and>
        (bg_phase b \<in> {Checked, InPending, InRuns} \<longrightarrow> hm_get (lk_turns s) (bg_id b) = None) \<and>
        (bg_phase b = InRuns \<longrightarrow> (\<forall>r. sc_run (bg_scope b) = Some r \<longrightarrow> hm_get (lk_runs s) r = Some (bg_id b))))"

definition link_ok :: "link \<Rightarrow> bool" where
  "link_ok s \<longleftrightarrow> numbers_ok s \<and> replies_ok s \<and> runs_ok s"

lemma removeAll_length: "length xs \<le> n \<Longrightarrow> length (removeAll x xs) \<le> n" "length xs < n \<Longrightarrow> length (removeAll x xs) < n"
  by (simp_all add: removeAll_filter_not_eq order_trans [OF length_filter_le] le_less_trans [OF length_filter_le])

declare map_of_eq_Some_iff [simp del]

lemma finish_request_ok:
  assumes "link_ok s" "\<not> beginning i s"
  shows "link_ok (finish_request i s)"
proof -
  have ok: "hm_ok (lk_runs s)" using assms by (simp add: link_ok_def runs_ok_def)
  have "numbers_ok (finish_request i s)"
    using assms ok unfolding link_ok_def numbers_ok_def by (auto simp: finish_request_def hm_simps split: option.splits if_splits)
  moreover have "replies_ok (finish_request i s)"
    using assms unfolding link_ok_def replies_ok_def
    by (auto simp: finish_request_def distinct_removeAll removeAll_length)
  moreover have "runs_ok (finish_request i s)"
    using assms unfolding link_ok_def runs_ok_def
    by (auto simp: finish_request_def hm_simps beginning_def split: option.splits)
  ultimately show ?thesis by (simp add: link_ok_def)
qed

lemma fail_link_ok:
  assumes "link_ok s"
  shows "link_ok (fail_link reason s)"
proof -
  have "numbers_ok (fail_link reason s)"
    using assms by (simp add: link_ok_def numbers_ok_def fail_link_def)
  moreover have "replies_ok (fail_link reason s)"
    using assms by (force simp: link_ok_def numbers_ok_def replies_ok_def fail_link_def)
  moreover have "runs_ok (fail_link reason s)"
    using assms by (simp add: link_ok_def runs_ok_def fail_link_def)
  ultimately show ?thesis by (simp add: link_ok_def)
qed

lemma unused_fields_ok [simp]:
  "link_ok (s\<lparr>lk_stop := b\<rparr>) = link_ok s" "link_ok (s\<lparr>lk_tasks := ts\<rparr>) = link_ok s"
  "link_ok (s\<lparr>lk_reading := b\<rparr>) = link_ok s" "link_ok (s\<lparr>lk_exited := b\<rparr>) = link_ok s"
  "link_ok (s\<lparr>lk_initialized := b\<rparr>) = link_ok s" "link_ok (s\<lparr>lk_last_callback := i\<rparr>) = link_ok s"
  "link_ok (s\<lparr>lk_cancelled := c\<rparr>) = link_ok s"
  by (simp_all add: link_ok_def numbers_ok_def replies_ok_def runs_ok_def)

lemma resolve_reply_ok: "link_ok s \<Longrightarrow> link_ok (resolve_reply i v s)"
proof -
  assume ok: "link_ok s"
  have "numbers_ok (s\<lparr>lk_pending := removeAll i (lk_pending s), lk_replies := (lk_replies s)(i := Some v)\<rparr>)"
    using ok by (auto simp: link_ok_def numbers_ok_def)
  moreover have "replies_ok (s\<lparr>lk_pending := removeAll i (lk_pending s), lk_replies := (lk_replies s)(i := Some v)\<rparr>)"
    if "i \<in> set (lk_pending s)"
    using ok that
    by (auto simp: link_ok_def numbers_ok_def replies_ok_def distinct_removeAll removeAll_length)
  moreover have "runs_ok (s\<lparr>lk_pending := removeAll i (lk_pending s), lk_replies := (lk_replies s)(i := Some v)\<rparr>)"
    using ok by (simp add: link_ok_def runs_ok_def)
  ultimately have "i \<in> set (lk_pending s) \<Longrightarrow> link_ok (resolve_reply i v s)"
    by (simp add: resolve_reply_def link_ok_def)
  then show ?thesis using ok fail_link_ok unfolding resolve_reply_def by (cases "i \<in> set (lk_pending s)") simp_all
qed

lemma next_number_ok:
  assumes "link_ok s" "lk_begin s = None"
  shows "link_ok (s\<lparr>lk_next := lk_next s + 1\<rparr>)"
proof -
  have "numbers_ok (s\<lparr>lk_next := lk_next s + 1\<rparr>)"
    using assms unfolding link_ok_def numbers_ok_def by (auto dest: spec intro: less_imp_le)
  moreover have "replies_ok (s\<lparr>lk_next := lk_next s + 1\<rparr>)"
    using assms by (auto simp: link_ok_def replies_ok_def)
  moreover have "runs_ok (s\<lparr>lk_next := lk_next s + 1\<rparr>)"
    using assms by (simp add: link_ok_def runs_ok_def)
  ultimately show ?thesis by (simp add: link_ok_def)
qed

lemma begin_check_ok:
  assumes ok: "link_ok s" and free: "lk_begin s = None"
  shows "link_ok (snd (begin_check method stream scope bytes s))"
proof -
  let ?s = "s\<lparr>lk_next := lk_next s + 1\<rparr>"
  let ?b = "\<lparr>bg_id = lk_next s, bg_method = method, bg_stream = stream, bg_scope = scope, bg_phase = Checked\<rparr>"
  have "link_ok (?s\<lparr>lk_begin := Some ?b\<rparr>)"
    if r: "\<forall>r. sc_run scope = Some r \<longrightarrow> hm_get (lk_runs s) r = None" and l: "length (lk_pending s) < MAX_PENDING"
  proof -
    have n: "numbers_ok ?s" "replies_ok ?s" "runs_ok ?s" using next_number_ok [OF ok free] by (simp_all add: link_ok_def)
    have "lk_next s \<notin> set (lk_sent s)" "lk_next s \<notin> set (lk_pending s)" "hm_get (lk_turns s) (lk_next s) = None"
      "lk_replies s (lk_next s) = None"
      using ok by (auto simp: link_ok_def numbers_ok_def replies_ok_def simp flip: not_Some_eq)
    then show ?thesis using n r l by (simp add: link_ok_def numbers_ok_def replies_ok_def runs_ok_def)
  qed
  then show ?thesis using ok next_number_ok [OF ok free] by (auto simp: begin_check_def Let_def split: option.splits)
qed

lemma begin_register_ok:
  assumes ok: "link_ok s" and b: "lk_begin s = Some b"
  shows "link_ok (begin_register b s)"
proof -
  have parts: "numbers_ok s" "replies_ok s" "runs_ok s" using ok by (simp_all add: link_ok_def)
  show ?thesis
  proof (cases "bg_phase b")
    case Checked
    then show ?thesis using parts b
      by (auto simp: begin_register_def link_ok_def numbers_ok_def replies_ok_def runs_ok_def)
  next
    case InPending
    then show ?thesis using parts b
      by (auto simp: begin_register_def link_ok_def numbers_ok_def replies_ok_def runs_ok_def hm_simps split: option.splits if_splits)
  next
    case InRuns
    then show ?thesis using parts b
      by (auto simp: begin_register_def link_ok_def numbers_ok_def replies_ok_def runs_ok_def hm_simps authority_of_def
          split: option.splits if_splits)
  next
    case InTurns
    then show ?thesis using parts b
      by (auto simp: begin_register_def link_ok_def numbers_ok_def replies_ok_def runs_ok_def hm_simps split: if_splits)
  next
    case Registered
    then show ?thesis using ok by (simp add: begin_register_def)
  qed
qed

lemma begin_send_ok:
  assumes "link_ok s" "lk_begin s = Some b" "bg_phase b = Registered"
  shows "link_ok (snd (begin_send sent b s))"
proof -
  have none: "link_ok (s\<lparr>lk_begin := None\<rparr>)"
    using assms by (simp add: link_ok_def numbers_ok_def replies_ok_def runs_ok_def)
  then have "link_ok (finish_request (bg_id b) (s\<lparr>lk_begin := None\<rparr>))"
    by (rule finish_request_ok) (simp add: beginning_def)
  moreover have "link_ok (s\<lparr>lk_begin := None, lk_sent := bg_id b # lk_sent s\<rparr>)"
    using none assms by (simp add: link_ok_def numbers_ok_def replies_ok_def runs_ok_def)
  ultimately show ?thesis by (simp add: begin_send_def Let_def)
qed

lemma streams_ok: "link_ok s \<Longrightarrow> hm_ok m \<Longrightarrow> link_ok (s\<lparr>lk_streams := m\<rparr>)"
proof -
  assume ok: "link_ok s" "hm_ok m"
  have "numbers_ok (s\<lparr>lk_streams := m\<rparr>) = numbers_ok s" by (simp add: numbers_ok_def)
  moreover have "replies_ok (s\<lparr>lk_streams := m\<rparr>) = replies_ok s" by (simp add: replies_ok_def)
  ultimately show ?thesis using ok by (simp add: link_ok_def runs_ok_def)
qed

lemma link_streams: "link_ok s \<Longrightarrow> hm_ok (lk_streams s)"
  by (simp add: link_ok_def runs_ok_def)

lemma stream_event_ok: "link_ok s \<Longrightarrow> link_ok (stream_event i d s)"
  by (auto simp: stream_event_def link_streams intro!: streams_ok resolve_reply_ok split: option.splits)

lemma stop_reading_ok: "link_ok s \<Longrightarrow> link_ok (stop_reading s)"
  using fail_link_ok [of "s\<lparr>lk_tasks := [], lk_reading := False\<rparr>"] by (simp add: stop_reading_def)

lemma handle_incoming_ok: "link_ok s \<Longrightarrow> link_ok (handle_incoming m s)"
  using stop_reading_ok fail_link_ok resolve_reply_ok stream_event_ok
  by (auto simp: handle_incoming_def refuse_output_def join_tasks_def split: incoming.splits option.splits)

lemma sent_not_beginning: "link_ok s \<Longrightarrow> i \<in> set (lk_sent s) \<Longrightarrow> \<not> beginning i s \<and> i < lk_next s"
  by (auto simp: beginning_def link_ok_def numbers_ok_def)

lemma link_next_ok: "link_ok s \<Longrightarrow> link_next e s = Some t \<Longrightarrow> link_ok t"
proof (induction e s rule: link_next.induct)
  case (5 i s)
  then show ?case by (auto dest: sent_not_beginning intro: finish_request_ok split: if_splits)
next
  case (4 s)
  then show ?case by (auto simp: link_ok_def numbers_ok_def replies_ok_def runs_ok_def split: option.splits if_splits)
next
  case (8 s)
  then show ?case using fail_link_ok by auto
next
  case (9 i s)
  then show ?case by (auto simp: abort_begin_def split: option.splits)
next
  case (11 i s)
  then show ?case using streams_ok by (auto simp: link_streams)
next
  case (12 i s)
  then show ?case using streams_ok by (auto simp: link_streams)
next
  case (14 s)
  then show ?case using fail_link_ok by (auto simp: worker_exits_def)
qed (auto intro: begin_check_ok begin_register_ok begin_send_ok handle_incoming_ok stop_reading_ok split: if_splits option.splits)

lemma new_link_ok: "link_ok new_link"
  by (simp add: link_ok_def numbers_ok_def replies_ok_def runs_ok_def new_link_def)

lemma link_run_ok: "link_ok s \<Longrightarrow> link_run es s = Some t \<Longrightarrow> link_ok t"
  by (induction es arbitrary: s) (auto split: option.splits intro: link_next_ok)

section \<open>Authority\<close>

text \<open>C30: However requests, replies and failures interleave, a run has at most one worker request with
  authority, the one the run is steered and cancelled by, and at most 256 requests wait.\<close>

theorem a_run_has_one_worker_request:
  assumes "link_run es new_link = Some s"
  shows "length (lk_pending s) \<le> MAX_PENDING \<and>
    (\<forall>i j a b r. hm_get (lk_turns s) i = Some a \<and> hm_get (lk_turns s) j = Some b \<and> au_run a = Some r \<and> au_run b = Some r \<longrightarrow>
       i = j \<and> hm_get (lk_runs s) r = Some i)"
proof -
  have ok: "link_ok s" using link_run_ok [OF new_link_ok assms] .
  have "hm_get (lk_runs s) r = Some i" if "hm_get (lk_turns s) i = Some a" "au_run a = Some r" for i a r
    using ok that unfolding link_ok_def runs_ok_def by blast
  moreover have "length (lk_pending s) \<le> MAX_PENDING" using ok by (simp add: link_ok_def replies_ok_def)
  ultimately show ?thesis by (metis option.inject)
qed

definition sample_scope :: run_scope where
  "sample_scope = \<lparr>sc_run = Some 7, sc_channel = 3, sc_goal = None\<rparr>"

abbreviation sample_begin :: "link_event list" where
  "sample_begin \<equiv> [StartsBegin ''chat'' True sample_scope 10, RegistersNext, RegistersNext, RegistersNext, RegistersNext, Sends True]"

theorem a_run_has_one_worker_request_witness:
  "\<exists>s a. link_run sample_begin new_link = Some s \<and> hm_get (lk_turns s) 1 = Some a \<and> hm_get (lk_runs s) 7 = Some 1"
proof -
  have "\<exists>s. link_run sample_begin new_link = Some s \<and> hm_get (lk_turns s) 1 =
      Some \<lparr>au_token = 1, au_can_start = True, au_channel = 3, au_goal = None, au_run = Some 7, au_job = None\<rparr>"
    by (simp add: new_link_def begin_check_def begin_register_def begin_send_def authority_of_def sample_scope_def
        MAX_REQUEST_ID_def MAX_LINE_BYTES_def MAX_PENDING_def)
  then obtain s a where s: "link_run sample_begin new_link = Some s" "hm_get (lk_turns s) 1 = Some a" "au_run a = Some 7"
    by fastforce
  then show ?thesis using a_run_has_one_worker_request [OF s(1)] by blast
qed

text \<open>A request that is over stays without authority and is not waited for.\<close>

definition settled :: "int \<Rightarrow> link \<Rightarrow> bool" where
  "settled i s \<longleftrightarrow> i < lk_next s \<and> \<not> beginning i s \<and> hm_get (lk_turns s) i = None \<and> i \<notin> set (lk_pending s)"

lemma settled_turns [simp]:
  "lk_turns (fail_link reason s) = lk_turns s" "lk_next (fail_link reason s) = lk_next s" "lk_begin (fail_link reason s) = lk_begin s"
  "set (lk_pending (fail_link reason s)) \<subseteq> set (lk_pending s)"
  "lk_turns (resolve_reply j v s) = lk_turns s" "lk_next (resolve_reply j v s) = lk_next s"
  "lk_begin (resolve_reply j v s) = lk_begin s" "set (lk_pending (resolve_reply j v s)) \<subseteq> set (lk_pending s)"
  by (auto simp: fail_link_def resolve_reply_def)

lemma settled_mono:
  assumes "settled i s" "lk_turns t = lk_turns s" "lk_next t = lk_next s" "lk_begin t = lk_begin s \<or> lk_begin t = None"
    "set (lk_pending t) \<subseteq> set (lk_pending s)"
  shows "settled i t"
proof -
  have "beginning i t \<longrightarrow> beginning i s" using assms(4) by (auto simp: beginning_def)
  then show ?thesis using assms by (auto simp: settled_def)
qed

lemma fail_settled: "settled i s \<Longrightarrow> settled i (fail_link reason s)"
  by (rule settled_mono [of i s]) simp_all

lemma resolve_settled: "settled i s \<Longrightarrow> settled i (resolve_reply j v s)"
  by (rule settled_mono [of i s]) simp_all

lemma settled_fields [simp]:
  "settled i (s\<lparr>lk_stop := b\<rparr>) = settled i s" "settled i (s\<lparr>lk_tasks := ts\<rparr>) = settled i s"
  "settled i (s\<lparr>lk_reading := b\<rparr>) = settled i s" "settled i (s\<lparr>lk_exited := b\<rparr>) = settled i s"
  "settled i (s\<lparr>lk_initialized := b\<rparr>) = settled i s" "settled i (s\<lparr>lk_last_callback := k\<rparr>) = settled i s"
  "settled i (s\<lparr>lk_cancelled := c\<rparr>) = settled i s" "settled i (s\<lparr>lk_streams := m\<rparr>) = settled i s"
  by (simp_all add: settled_def beginning_def)

lemma stop_reading_settled: "settled i s \<Longrightarrow> settled i (stop_reading s)"
  by (simp add: stop_reading_def fail_settled)

lemma finish_settled: "settled i s \<Longrightarrow> settled i (finish_request j s)"
  by (auto simp: settled_def beginning_def finish_request_def hm_simps)

lemma incoming_settled: "settled i s \<Longrightarrow> settled i (handle_incoming m s)"
  using stop_reading_settled fail_settled resolve_settled
  by (auto simp: handle_incoming_def refuse_output_def join_tasks_def stream_event_def split: incoming.splits option.splits)

lemma begin_check_settled: "settled i s \<Longrightarrow> settled i (snd (begin_check method stream scope bytes s))"
  by (auto simp: settled_def beginning_def begin_check_def Let_def split: option.splits)

lemma begin_register_settled: "settled i s \<Longrightarrow> lk_begin s = Some b \<Longrightarrow> settled i (begin_register b s)"
  by (cases "bg_phase b") (auto simp: settled_def beginning_def begin_register_def hm_simps)

lemma begin_send_settled: "settled i s \<Longrightarrow> lk_begin s = Some b \<Longrightarrow> settled i (snd (begin_send ok b s))"
  by (auto simp: settled_def beginning_def begin_send_def finish_request_def hm_simps Let_def)

lemma link_next_settled: "settled i s \<Longrightarrow> link_next e s = Some t \<Longrightarrow> settled i t"
proof (induction e s rule: link_next.induct)
  case (4 s)
  then show ?case by (auto simp: settled_def beginning_def split: option.splits if_splits)
next
  case (8 s)
  then show ?case using fail_settled by auto
next
  case (9 j s)
  then show ?case by (auto simp: abort_begin_def split: option.splits)
next
  case (14 s)
  then show ?case using fail_settled by (auto simp: worker_exits_def)
qed (auto intro: begin_check_settled begin_register_settled begin_send_settled incoming_settled stop_reading_settled
      finish_settled split: if_splits option.splits)

lemma link_run_settled: "settled i s \<Longrightarrow> link_run es s = Some t \<Longrightarrow> settled i t"
  by (induction es arbitrary: s) (auto split: option.splits intro: link_next_settled)

lemma finished_is_settled: "link_ok s \<Longrightarrow> i \<in> set (lk_sent s) \<Longrightarrow> settled i (finish_request i s)"
  by (auto simp: settled_def finish_request_def hm_simps dest: sent_not_beginning) (auto simp: beginning_def dest: sent_not_beginning)

section \<open>A link that dies\<close>

definition unanswered :: "int \<Rightarrow> link \<Rightarrow> bool" where
  "unanswered i s \<longleftrightarrow> \<not> lk_alive s \<and> \<not> lk_reading s \<and> i \<in> set (lk_pending s) \<and> i \<in> set (lk_sent s) \<and> lk_replies s i = None"

lemma dead_fail [simp]: "\<not> lk_alive s \<Longrightarrow> fail_link reason s = s"
  by (simp add: fail_link_def)

lemma unanswered_next:
  assumes "link_ok s" "unanswered i s" "link_next e s = Some t" "e \<noteq> Finishes i"
  shows "unanswered i t"
  using assms
proof (induction e s rule: link_next.induct)
  case (1 mth strm scope bytes s)
  then show ?case by (auto simp: unanswered_def begin_check_def split: if_splits)
next
  case (2 s)
  then obtain b where "lk_begin s = Some b" by (auto split: option.splits)
  then show ?case using 2 by (cases "bg_phase b") (auto simp: unanswered_def begin_register_def)
next
  case (3 sent s)
  then show ?case using sent_not_beginning [of s i]
    by (auto simp: unanswered_def begin_send_def finish_request_def beginning_def Let_def split: option.splits if_splits)
qed (auto simp: unanswered_def finish_request_def abort_begin_def worker_exits_def stop_reading_def split: option.splits if_splits)

text \<open>C31: A request whose registration meets the death of the worker is not answered: it was checked while the
  link lived and registered after the waiting ones were told of its end. Nothing that happens later answers it;
  its caller waits for its own time limit.\<close>

theorem request_begun_in_a_dying_link_is_never_answered:
  assumes "link_run es new_link = Some s" "\<not> lk_alive s" "\<not> lk_reading s" "i \<in> set (lk_pending s)" "i \<in> set (lk_sent s)"
    and "link_run es' s = Some t" "Finishes i \<notin> set es'"
  shows "lk_replies t i = None \<and> i \<in> set (lk_pending t)"
proof -
  have ok: "link_ok s" using link_run_ok [OF new_link_ok assms(1)] .
  then have "unanswered i s" using assms(2-5) by (auto simp: unanswered_def link_ok_def replies_ok_def)
  with assms(6,7) ok have "unanswered i t"
  proof (induction es' arbitrary: s)
    case (Cons e es')
    then obtain s' where s': "link_next e s = Some s'" "link_run es' s' = Some t" by (auto split: option.splits)
    then show ?case using Cons unanswered_next [of s i e s'] link_next_ok [of s e s'] by auto
  qed simp
  then show ?thesis by (simp add: unanswered_def)
qed

theorem request_begun_in_a_dying_link_is_never_answered_witness:
  "\<exists>s t. link_run [StartsBegin ''chat'' True sample_scope 10, OutputEnds, RegistersNext, RegistersNext, RegistersNext, RegistersNext,
       Sends True] new_link = Some s \<and> link_run [ExitsWorker, InputFails] s = Some t \<and> 1 \<in> set (lk_sent t) \<and> lk_replies t 1 = None"
proof -
  have "\<exists>s. link_run [StartsBegin ''chat'' True sample_scope 10, OutputEnds, RegistersNext, RegistersNext, RegistersNext, RegistersNext,
       Sends True] new_link = Some s \<and> \<not> lk_alive s \<and> \<not> lk_reading s \<and> 1 \<in> set (lk_pending s) \<and> 1 \<in> set (lk_sent s)"
    by (simp add: new_link_def begin_check_def begin_register_def begin_send_def authority_of_def sample_scope_def
        MAX_REQUEST_ID_def MAX_LINE_BYTES_def MAX_PENDING_def stop_reading_def fail_link_def)
  then obtain s where s: "link_run [StartsBegin ''chat'' True sample_scope 10, OutputEnds, RegistersNext, RegistersNext, RegistersNext,
       RegistersNext, Sends True] new_link = Some s" "\<not> lk_alive s" "\<not> lk_reading s" "1 \<in> set (lk_pending s)" "1 \<in> set (lk_sent s)"
    by blast
  obtain t where t: "link_run [ExitsWorker, InputFails] s = Some t" "lk_sent t = lk_sent s"
    using s(2) by (auto simp: worker_exits_def)
  show ?thesis
    using request_begun_in_a_dying_link_is_never_answered [OF s t(1)] s t by (intro exI [of _ s] exI [of _ t]) simp
qed

end
