(* ===== verification/Agent_Callbacks.thy ===== *)
theory Agent_Callbacks
  imports Agent_Link Background_Work
begin

text \<open>
  What the agent may ask of the daemon while it works: \<open>DomainBridge::invoke\<close> and the functions it calls in
  \<open>src/BoBeService/src/agent/host.rs\<close>, on the link of theory Agent_Link and the transactions of theories
  Agent_Jobs, Owner_Inputs and Agent_Schedules. A callback is given decoded; what serde refuses is
  \<open>BadArguments\<close> with the name of the operation (arguments that are also refused otherwise get that error). The clock and fresh identifiers are an argument, the tools of the domain and the look-up of a
  goal are parameters. Also the processes the agent starts through the daemon: the registry of
  \<open>agent/process.rs\<close>, whose tasks are steps.
\<close>

section \<open>Callbacks\<close>

datatype input_action = AskOwner "rtext option" ask_owner_request | ListInputs | GetInput uuid | PresentInput uuid
  | CancelInput uuid | OtherInputAction uuid

datatype job_action = StartJob "rtext option" job_input | ListJobs | GetJob uuid | CancelJob uuid | OtherJobAction

datatype schedule_action = CreateSchedule "rtext option" schedule_input | ListSchedules | GetSchedule uuid
  | PauseSchedule uuid | ResumeSchedule uuid | MoveSchedule uuid "int option" "int option" | CancelSchedule uuid
  | OtherScheduleAction uuid

datatype 'a arguments = BadArguments string | Arguments 'a

datatype callback =
    OwnerInputCall int "input_action arguments"
  | JobCall int "job_action arguments"
  | ScheduleCall int "schedule_action arguments"
  | ToolCall int string json
  | UnknownCall
  | BadInvocation

datatype callback_answer = InputAnswer owner_input | InputList "owner_input list" | JobAnswer agent_job
  | JobList "agent_job list" | ScheduleAnswer agent_schedule | ScheduleList "agent_schedule list" | ScheduleCancelled
  | ToolAnswer json

record domain_bridge =
  br_env :: work_env
  br_limits :: execution_limits
  br_route :: workload_route
  br_background :: bool
  br_goal :: "uuid \<Rightarrow> app_error + unit"
  br_tool :: "string \<Rightarrow> json \<Rightarrow> app_error + json"

record moment =
  mo_now :: int
  mo_id :: uuid
  mo_delivery :: uuid

definition is_hex_digit :: "uchar \<Rightarrow> bool" where
  "is_hex_digit c \<longleftrightarrow> (48 \<le> c \<and> c \<le> 57) \<or> (65 \<le> c \<and> c \<le> 70) \<or> (97 \<le> c \<and> c \<le> 102)"

text \<open>The identity a source must have: 64 hexadecimal digits.\<close>

definition stable_source :: "rtext option \<Rightarrow> rtext option" where
  "stable_source source =
     (case source of Some k \<Rightarrow> if length k = 64 \<and> list_all is_hex_digit k then Some k else None | None \<Rightarrow> None)"

text \<open>\<open>inert_strings\<close> on the decoded arguments: every text in them.\<close>

definition inert_ask :: "ask_owner_request \<Rightarrow> ask_owner_request" where
  "inert_ask r = r\<lparr>ask_question := inert_text (ask_question r), ask_action := inert_text (ask_action r),
     ask_task := inert_text (ask_task r), ask_context := inert_text (ask_context r),
     ask_choices := map (\<lambda>c. \<lparr>choice_value = inert_text (choice_value c), choice_label = inert_text (choice_label c)\<rparr>) (ask_choices r)\<rparr>"

definition inert_job :: "job_input \<Rightarrow> job_input" where
  "inert_job i = i\<lparr>in_title := inert_text (in_title i), in_task := inert_text (in_task i), in_context := inert_text (in_context i)\<rparr>"

definition inert_schedule :: "schedule_input \<Rightarrow> schedule_input" where
  "inert_schedule i = i\<lparr>si_title := inert_text (si_title i), si_task := inert_text (si_task i), si_context := inert_text (si_context i)\<rparr>"

section \<open>Owner questions, jobs and schedules\<close>

definition invoke_owner_input ::
  "domain_bridge \<Rightarrow> moment \<Rightarrow> operation_authority \<Rightarrow> uuid \<Rightarrow> input_action \<Rightarrow> database \<Rightarrow> callback_answer outcome" where
  "invoke_owner_input br mo a run action db =
     (case action of
        AskOwner source request \<Rightarrow>
          (case stable_source source of
             None \<Rightarrow> (Inl (Validation ''owner input requires a stable source identity''), db)
           | Some k \<Rightarrow> apfst (map_sum id InputAnswer) (ask_owner (br_env br) (br_limits br) (mo_now mo) (mo_id mo) k
               \<lparr>origin_run = run, origin_job = au_job a, origin_channel = au_channel a, origin_goal = au_goal a\<rparr>
               (inert_ask request) db))
      | ListInputs \<Rightarrow> (Inr (InputList (owner_inputs (au_channel a) db)), db)
      | GetInput i \<Rightarrow>
          (case owner_input_of i db of
             Inl e \<Rightarrow> (Inl e, db)
           | Inr q \<Rightarrow> if visible_in (au_channel a) q then (Inr (InputAnswer q), db)
                      else (Inl (NotFound ''owner question is not in this channel''), db))
      | PresentInput i \<Rightarrow>
          (if au_job a = None
           then apfst (map_sum id InputAnswer) (offer_owner_input (mo_now mo) i run (au_channel a) db)
           else (Inl (Validation ''unknown owner input action''), db))
      | CancelInput i \<Rightarrow> apfst (map_sum id InputAnswer) (cancel_owner_input i (au_channel a) db)
      | OtherInputAction _ \<Rightarrow> (Inl (Validation ''unknown owner input action''), db))"

definition invoke_job ::
  "domain_bridge \<Rightarrow> moment \<Rightarrow> uuid \<Rightarrow> job_action \<Rightarrow> database \<Rightarrow> callback_answer outcome" where
  "invoke_job br mo channel action db =
     (case action of
        StartJob source input \<Rightarrow>
          (case stable_source source of
             None \<Rightarrow> (Inl (Validation ''background job requires a stable source identity''), db)
           | Some k \<Rightarrow> apfst (map_sum id JobAnswer) (submit (br_limits br) (mo_now mo) (mo_id mo) (mo_delivery mo) k
               ((inert_job input)\<lparr>in_channel := Some channel, in_goal := None, in_schedule := None\<rparr>) (br_route br) db))
      | ListJobs \<Rightarrow> (Inr (JobList (list_jobs db)), db)
      | GetJob j \<Rightarrow> (map_sum id JobAnswer (get_job j db), db)
      | CancelJob j \<Rightarrow> apfst (map_sum id JobAnswer) (cancel_job (mo_now mo) j db)
      | OtherJobAction \<Rightarrow> (Inl (Validation ''unknown background job operation''), db))"

definition require_goal :: "domain_bridge \<Rightarrow> uuid option \<Rightarrow> app_error + unit" where
  "require_goal br goal = (case goal of None \<Rightarrow> Inr () | Some g \<Rightarrow> br_goal br g)"

definition invoke_schedule ::
  "domain_bridge \<Rightarrow> moment \<Rightarrow> operation_authority \<Rightarrow> schedule_action \<Rightarrow> database \<Rightarrow> callback_answer outcome" where
  "invoke_schedule br mo a action db =
     (case action of
        CreateSchedule source input0 \<Rightarrow>
          (case stable_source source of
             None \<Rightarrow> (Inl (Validation ''schedule requires a stable source identity''), db)
           | Some k \<Rightarrow>
               (let input = inert_schedule input0 in
                if au_goal a \<noteq> None \<and> si_goal input \<noteq> None \<and> si_goal input \<noteq> au_goal a
                then (Inl (Validation ''goal work cannot reassign its scheduled continuation to another goal''), db)
                else let input = input\<lparr>si_goal := (case si_goal input of Some g \<Rightarrow> Some g | None \<Rightarrow> au_goal a)\<rparr> in
                  (case require_goal br (si_goal input) of
                     Inl e \<Rightarrow> (Inl e, db)
                   | Inr _ \<Rightarrow> apfst (map_sum id ScheduleAnswer)
                       (create_schedule (br_limits br) (mo_now mo) (mo_id mo) k input (au_channel a) db))))
      | ListSchedules \<Rightarrow> (Inr (ScheduleList (list_schedules db)), db)
      | GetSchedule s \<Rightarrow> (map_sum id ScheduleAnswer (schedule_of s db), db)
      | PauseSchedule s \<Rightarrow> apfst (map_sum id ScheduleAnswer) (set_schedule_enabled (mo_now mo) s False db)
      | ResumeSchedule s \<Rightarrow> apfst (map_sum id ScheduleAnswer) (set_schedule_enabled (mo_now mo) s True db)
      | MoveSchedule s generation at \<Rightarrow>
          (case generation of
             None \<Rightarrow> (Inl (Validation ''reschedule requires the current generation''), db)
           | Some g \<Rightarrow> (case at of
               None \<Rightarrow> (Inl (Validation ''reschedule requires a time''), db)
             | Some t \<Rightarrow> apfst (map_sum id ScheduleAnswer) (reschedule (mo_now mo) s g t db)))
      | CancelSchedule s \<Rightarrow> apfst (map_sum id (\<lambda>_. ScheduleCancelled)) (delete_schedule s db)
      | OtherScheduleAction _ \<Rightarrow> (Inl (Validation ''unknown schedule action''), db))"

section \<open>Dispatch\<close>

definition authority_for :: "int \<Rightarrow> link \<Rightarrow> app_error + operation_authority" where
  "authority_for i s =
     (case hm_get (lk_turns s) i of
        None \<Rightarrow> Inl (Conflict ''domain tool has no admitted chat turn'') | Some a \<Rightarrow> Inr a)"

abbreviation stopped :: "operation_authority \<Rightarrow> link \<Rightarrow> bool" where
  "stopped a s \<equiv> au_token a \<in> lk_cancelled s"

abbreviation bad_arguments :: "app_error" where
  "bad_arguments \<equiv> Serialization ''invalid arguments''"

definition is_start :: "job_action arguments \<Rightarrow> bool" where
  "is_start args = (case args of Arguments (StartJob _ _) \<Rightarrow> True | BadArguments name \<Rightarrow> name = ''start'' | _ \<Rightarrow> False)"

definition invoke_callback ::
  "domain_bridge \<Rightarrow> moment \<Rightarrow> link \<Rightarrow> callback \<Rightarrow> database \<Rightarrow> callback_answer outcome" where
  "invoke_callback br mo s c db =
     (case c of
        UnknownCall \<Rightarrow> (Inl (Validation ''unknown pi callback''), db)
      | BadInvocation \<Rightarrow> (Inl bad_arguments, db)
      | OwnerInputCall i args \<Rightarrow>
          (case authority_for i s of Inl e \<Rightarrow> (Inl e, db)
           | Inr a \<Rightarrow>
               if \<not> br_background br \<or> stopped a s
               then (Inl (Conflict ''durable owner input is unavailable to this execution''), db)
               else (case au_run a of
                   None \<Rightarrow> (Inl (Conflict ''owner input needs a correlated run''), db)
                 | Some run \<Rightarrow> (case args of BadArguments _ \<Rightarrow> (Inl bad_arguments, db)
                     | Arguments action \<Rightarrow> invoke_owner_input br mo a run action db)))
      | JobCall i args \<Rightarrow>
          (case authority_for i s of Inl e \<Rightarrow> (Inl e, db)
           | Inr a \<Rightarrow>
               if \<not> br_background br \<or> (\<not> au_can_start a \<and> is_start args) \<or> stopped a s
               then (Inl (Conflict ''background job control is not available to this execution''), db)
               else (case args of BadArguments _ \<Rightarrow> (Inl bad_arguments, db)
                   | Arguments action \<Rightarrow> invoke_job br mo (au_channel a) action db))
      | ScheduleCall i args \<Rightarrow>
          (case authority_for i s of Inl e \<Rightarrow> (Inl e, db)
           | Inr a \<Rightarrow>
               if \<not> br_background br \<or> stopped a s
               then (Inl (Conflict ''scheduling is not available to this execution''), db)
               else (case args of BadArguments _ \<Rightarrow> (Inl bad_arguments, db)
                   | Arguments action \<Rightarrow> invoke_schedule br mo a action db))
      | ToolCall i name args \<Rightarrow>
          (case authority_for i s of Inl e \<Rightarrow> (Inl e, db)
           | Inr a \<Rightarrow>
               if stopped a s then (Inl (Conflict ''domain tool was canceled with its owner execution''), db)
               else (map_sum id ToolAnswer (br_tool br name args), db)))"

section \<open>Authority\<close>

lemma refused_unchanged: "apfst f r = (x, db') \<Longrightarrow> snd r = db'"
  by (cases r) auto

lemma snd_apfst_outcome [simp]: "snd (apfst f r) = snd r"
  by (cases r) simp

lemma owner_input_steps: "work_step (br_env br) (br_limits br) db (snd (invoke_owner_input br mo a run action db)) \<or>
    snd (invoke_owner_input br mo a run action db) = db"
  by (cases action) (auto simp: invoke_owner_input_def intro: work_step.intros split: option.splits sum.splits)

lemma job_steps: "(work_step (br_env br) (br_limits br))\<^sup>*\<^sup>* db (snd (invoke_job br mo channel action db))"
proof (cases action)
  case (CancelJob j)
  have "work_step (br_env br) (br_limits br) db (cancel_transaction (mo_now mo) j db)" by (rule work_step.intros)
  moreover have "work_step (br_env br) (br_limits br) (cancel_transaction (mo_now mo) j db) (prune (cancel_transaction (mo_now mo) j db))"
    by (rule work_step.intros)
  ultimately show ?thesis using CancelJob
    by (auto simp: invoke_job_def cancel_job_def Let_def split: sum.splits intro: rtranclp.intros)
qed (auto simp: invoke_job_def intro: work_step.intros r_into_rtranclp split: option.splits)

lemma schedule_steps: "work_step (br_env br) (br_limits br) db (snd (invoke_schedule br mo a action db)) \<or>
    snd (invoke_schedule br mo a action db) = db"
  by (cases action) (auto simp: invoke_schedule_def Let_def intro: work_step.intros split: option.splits sum.splits)

text \<open>A callback changes nothing, or it is one of three operations under the authority of its request.\<close>

definition admitted :: "domain_bridge \<Rightarrow> link \<Rightarrow> int \<Rightarrow> operation_authority \<Rightarrow> bool" where
  "admitted br s i a \<longleftrightarrow> hm_get (lk_turns s) i = Some a \<and> \<not> stopped a s \<and> br_background br"

lemma authority_for_Inr: "authority_for i s = Inr a \<longleftrightarrow> hm_get (lk_turns s) i = Some a"
  by (auto simp: authority_for_def split: option.splits)

lemma input_call: "snd (invoke_callback br mo s (OwnerInputCall i args) db) = db \<or>
    (\<exists>a run action. admitted br s i a \<and> au_run a = Some run \<and> args = Arguments action \<and>
       invoke_callback br mo s (OwnerInputCall i args) db = invoke_owner_input br mo a run action db)"
  by (cases "authority_for i s")
    (auto simp: invoke_callback_def admitted_def simp flip: authority_for_Inr split: option.splits arguments.splits)

lemma job_call: "snd (invoke_callback br mo s (JobCall i args) db) = db \<or>
    (\<exists>a action. admitted br s i a \<and> args = Arguments action \<and> (is_start args \<longrightarrow> au_can_start a) \<and>
       invoke_callback br mo s (JobCall i args) db = invoke_job br mo (au_channel a) action db)"
  by (cases "authority_for i s")
    (auto simp: invoke_callback_def admitted_def simp flip: authority_for_Inr split: arguments.splits)

lemma schedule_call: "snd (invoke_callback br mo s (ScheduleCall i args) db) = db \<or>
    (\<exists>a action. admitted br s i a \<and> args = Arguments action \<and>
       invoke_callback br mo s (ScheduleCall i args) db = invoke_schedule br mo a action db)"
  by (cases "authority_for i s")
    (auto simp: invoke_callback_def admitted_def simp flip: authority_for_Inr split: arguments.splits)

lemma other_call: "c \<in> {ToolCall i name v, UnknownCall, BadInvocation} \<Longrightarrow> snd (invoke_callback br mo s c db) = db"
  by (cases "authority_for i s") (auto simp: invoke_callback_def)

lemma callback_cases:
  obtains (unchanged) "snd (invoke_callback br mo s c db) = db"
  | (input) i a run action where "admitted br s i a" "au_run a = Some run" "c = OwnerInputCall i (Arguments action)"
      "invoke_callback br mo s c db = invoke_owner_input br mo a run action db"
  | (job) i a action where "admitted br s i a" "c = JobCall i (Arguments action)" "is_start (Arguments action) \<longrightarrow> au_can_start a"
      "invoke_callback br mo s c db = invoke_job br mo (au_channel a) action db"
  | (schedule) i a action where "admitted br s i a" "c = ScheduleCall i (Arguments action)"
      "invoke_callback br mo s c db = invoke_schedule br mo a action db"
proof (cases c)
  case (OwnerInputCall i args)
  then show ?thesis using unchanged input input_call [of br mo s i args db] by blast
next
  case (JobCall i args)
  then show ?thesis using unchanged job job_call [of br mo s i args db] by blast
next
  case (ScheduleCall i args)
  then show ?thesis using unchanged schedule schedule_call [of br mo s i args db] by blast
next
  case (ToolCall i name args)
  then show ?thesis using unchanged other_call by blast
qed (use unchanged other_call in blast)+

lemma callback_steps: "(work_step (br_env br) (br_limits br))\<^sup>*\<^sup>* db (snd (invoke_callback br mo s c db))"
proof (cases rule: callback_cases [of br mo s c db])
  case (input i a run action)
  then show ?thesis using owner_input_steps [of br db mo a run action] by auto
next
  case (job i a action)
  then show ?thesis using job_steps by simp
next
  case (schedule i a action)
  then show ?thesis using schedule_steps [of br db mo a action] by auto
qed simp

text \<open>The rows an operation adds: what the authority \<open>a\<close> may add.\<close>

definition may_add_job :: "operation_authority \<Rightarrow> agent_job \<Rightarrow> bool" where
  "may_add_job a j \<longleftrightarrow> au_can_start a \<and> j_channel j = Some (au_channel a)"

definition may_add_input :: "operation_authority \<Rightarrow> owner_input \<Rightarrow> bool" where
  "may_add_input a q \<longleftrightarrow> o_channel q = au_channel a \<and> au_run a = Some (o_origin_run q) \<and> o_job q = au_job a \<and> o_goal q = au_goal a"

definition may_add_schedule :: "operation_authority \<Rightarrow> agent_schedule \<Rightarrow> bool" where
  "may_add_schedule a x \<longleftrightarrow> s_channel x = au_channel a \<and> (au_goal a = None \<or> s_goal x = au_goal a)"

definition adds_within :: "operation_authority \<Rightarrow> database \<Rightarrow> database \<Rightarrow> bool" where
  "adds_within a db db' \<longleftrightarrow>
     (\<forall>j \<in> set (jobs db'). j_id j \<in> j_id ` set (jobs db) \<or> may_add_job a j) \<and>
     (\<forall>q \<in> set (inputs db'). o_id q \<in> o_id ` set (inputs db) \<or> may_add_input a q) \<and>
     (\<forall>x \<in> set (schedules db'). s_id x \<in> s_id ` set (schedules db) \<or> may_add_schedule a x)"

definition adds_nothing :: "database \<Rightarrow> database \<Rightarrow> bool" where
  "adds_nothing db db' \<longleftrightarrow> j_id ` set (jobs db') \<subseteq> j_id ` set (jobs db) \<and> o_id ` set (inputs db') \<subseteq> o_id ` set (inputs db) \<and>
     s_id ` set (schedules db') \<subseteq> s_id ` set (schedules db)"

lemma adds_nothing_within: "adds_nothing db db' \<Longrightarrow> adds_within a db db'"
  by (auto simp: adds_nothing_def adds_within_def)

lemma adds_nothing_refl [simp]: "adds_nothing db db"
  by (simp add: adds_nothing_def)

lemma adds_nothing_trans: "adds_nothing db db1 \<Longrightarrow> adds_nothing db1 db2 \<Longrightarrow> adds_nothing db db2"
  unfolding adds_nothing_def by (meson subset_trans)

lemma adds_nothing_filter: "adds_nothing db db1 \<Longrightarrow> adds_nothing db (db1\<lparr>schedules := filter p (schedules db1)\<rparr>)"
  by (rule adds_nothing_trans) (auto simp: adds_nothing_def)

lemma sql_update_ids: "(\<And>r. key (f r) = key r) \<Longrightarrow> key ` set (sql_update p f rows) = key ` set rows"
  by (induction rows) auto

lemma adds_nothing_update:
  "(\<And>r. j_id (f r) = j_id r) \<Longrightarrow> adds_nothing db (update_jobs p f db)"
  "(\<And>r. o_id (g r) = o_id r) \<Longrightarrow> adds_nothing db (update_inputs q g db)"
  "(\<And>r. s_id (h r) = s_id r) \<Longrightarrow> adds_nothing db (update_schedules u h db)"
  by (simp_all add: adds_nothing_def sql_update_ids)

lemma adds_nothing_cancel: "adds_nothing db (cancel_transaction now jid db)"
  unfolding cancel_transaction_def Let_def
  by (rule adds_nothing_trans [OF adds_nothing_update(1) adds_nothing_update(2)]) simp_all

lemma adds_nothing_prune: "adds_nothing db (prune db)"
proof -
  have "adds_nothing db (prune_inputs db)" "adds_nothing db (prune_jobs db)" "adds_nothing db (prune_schedules db)" for db
    by (auto simp: adds_nothing_def prune_inputs_def prune_jobs_def prune_schedules_def retire_def Let_def)
  then show ?thesis unfolding prune_def using adds_nothing_trans by blast
qed

lemma adds_nothing_cancel_queued: "(\<And>j. j_id (touch j) = j_id j) \<Longrightarrow> adds_nothing db (cancel_queued_of touch sid db)"
  unfolding cancel_queued_of_def by (rule adds_nothing_update) simp

lemma adds_nothing_enable: "adds_nothing db (snd (set_schedule_enabled now sid enabled db))"
proof (cases "set_enabled_transaction now sid enabled db")
  case (Inr r)
  have "adds_nothing db (snd r)"
    using Inr adds_nothing_trans [OF adds_nothing_update(3) adds_nothing_cancel_queued] adds_nothing_update(3)
    unfolding set_enabled_transaction_def Let_def by (auto split: sum.splits if_splits)
  then show ?thesis using Inr by (cases r) (simp add: set_schedule_enabled_def)
qed (simp add: set_schedule_enabled_def)

lemma adds_nothing_reschedule: "adds_nothing db (snd (reschedule now sid g at db))"
  using adds_nothing_update(3) by (simp add: reschedule_def Let_def)

lemma adds_nothing_delete: "adds_nothing db (snd (delete_schedule sid db))"
proof -
  have "adds_nothing db (cancel_queued_of (\<lambda>j. j) sid (retire ks db))" for ks
    by (rule adds_nothing_trans [OF _ adds_nothing_cancel_queued]) (simp_all add: adds_nothing_def)
  then show ?thesis
    by (auto simp: delete_schedule_def delete_transaction_def Let_def intro!: adds_nothing_filter split: sum.splits)
qed

lemma adds_nothing_offer: "adds_nothing db (snd (offer_owner_input now i run channel db))"
  by (auto simp: offer_owner_input_def upsert_presentation_def Let_def adds_nothing_def split: sum.splits)

lemma adds_nothing_cancel_input: "adds_nothing db (snd (cancel_owner_input i channel db))"
proof (cases "cancel_input_transaction i channel db")
  case (Inr r)
  have "adds_nothing db (snd r)"
    using Inr adds_nothing_trans [OF adds_nothing_update(2) adds_nothing_update(1)]
    unfolding cancel_input_transaction_def Let_def by (auto split: sum.splits if_splits)
  then show ?thesis using Inr by (cases r) (simp add: cancel_owner_input_def)
qed (simp add: cancel_owner_input_def)

lemma ask_within:
  "origin_channel og = au_channel a \<Longrightarrow> au_run a = Some (origin_run og) \<Longrightarrow> origin_job og = au_job a \<Longrightarrow> origin_goal og = au_goal a \<Longrightarrow>
     adds_within a db (snd (ask_owner env limits now i k og request db))"
  by (auto simp: ask_owner_def ask_transaction_def Let_def adds_within_def may_add_input_def new_input_def
      split: sum.splits option.splits)

lemma submit_within:
  "au_can_start a \<Longrightarrow> in_channel input = Some (au_channel a) \<Longrightarrow> adds_within a db (snd (submit limits now i d k input route db))"
  by (auto simp: submit_def enqueue_in_def insert_job_def Let_def adds_within_def may_add_job_def new_job_def
      split: sum.splits option.splits prod.splits)

lemma create_within:
  "au_goal a = None \<or> si_goal input = au_goal a \<Longrightarrow> adds_within a db (snd (create_schedule limits now i k input (au_channel a) db))"
  by (auto simp: create_schedule_def create_schedule_transaction_def Let_def adds_within_def may_add_schedule_def new_schedule_def
      split: sum.splits option.splits)

lemma input_within:
  "au_run a = Some run \<Longrightarrow> adds_within a db (snd (invoke_owner_input br mo a run action db))"
  by (cases action)
    (auto simp: invoke_owner_input_def intro!: ask_within intro: adds_nothing_within adds_nothing_offer adds_nothing_cancel_input
      split: option.splits sum.splits)

lemma job_within:
  assumes "is_start (Arguments action) \<longrightarrow> au_can_start a"
  shows "adds_within a db (snd (invoke_job br mo (au_channel a) action db))"
proof (cases action)
  case (StartJob source input)
  then show ?thesis using assms
    by (auto simp: invoke_job_def is_start_def intro: submit_within adds_nothing_within split: option.splits)
next
  case (CancelJob j)
  have "adds_nothing db (snd (cancel_job (mo_now mo) j db))"
    using adds_nothing_cancel adds_nothing_trans [OF adds_nothing_cancel adds_nothing_prune]
    by (auto simp: cancel_job_def Let_def split: sum.splits)
  then show ?thesis using CancelJob by (simp add: invoke_job_def adds_nothing_within)
qed (simp_all add: invoke_job_def adds_nothing_within)

lemma schedule_within: "adds_within a db (snd (invoke_schedule br mo a action db))"
proof (cases action)
  case (CreateSchedule source input)
  then show ?thesis
    by (auto simp: invoke_schedule_def Let_def intro!: create_within intro: adds_nothing_within split: option.splits sum.splits)
qed (auto simp: invoke_schedule_def intro: adds_nothing_within adds_nothing_enable adds_nothing_reschedule adds_nothing_delete
    split: option.splits)

definition sample_schedule :: agent_schedule where
  "sample_schedule = new_schedule 0 5 [] \<lparr>si_title = [], si_task = [], si_context = [], si_at = 0, si_every_seconds = None,
     si_goal = None, si_budget = \<lparr>budget_timeout = None, budget_turns = None\<rparr>\<rparr> 3"

definition sample_bridge :: domain_bridge where
  "sample_bridge = \<lparr>br_env = \<lparr>env_json = (\<lambda>_. []), env_uuid = (\<lambda>_. []), env_time = (\<lambda>_. []), env_lower = (\<lambda>t i. [t ! i]),
       env_time_max = 0\<rparr>,
     br_limits = \<lparr>task_timeout_seconds = 60, task_max_turns = 4\<rparr>, br_route = \<lparr>route_profile = [], route_model = None, route_effort = None\<rparr>,
     br_background = True, br_goal = (\<lambda>_. Inr ()), br_tool = (\<lambda>_ _. Inr JNull)\<rparr>"

definition sample_db :: database where
  "sample_db = empty_db\<lparr>schedules := [sample_schedule]\<rparr>"

definition sample_link :: link where
  "sample_link = (case link_run sample_begin new_link of Some s \<Rightarrow> s | None \<Rightarrow> new_link)"

definition sample_moment :: moment where "sample_moment = \<lparr>mo_now = 0, mo_id = 1, mo_delivery = 2\<rparr>"

definition sample_call :: callback where
  "sample_call = ScheduleCall 1 (Arguments (MoveSchedule 5 (Some 1) (Some 7000000)))"

lemma sample_link_run: "link_run sample_begin new_link = Some sample_link"
  and sample_turn: "hm_get (lk_turns sample_link) 1 = Some \<lparr>au_token = 1, au_can_start = True, au_channel = 3, au_goal = None,
      au_run = Some 7, au_job = None\<rparr>"
  and sample_link_state: "lk_cancelled sample_link = {}" "lk_sent sample_link = [1]" "lk_reading sample_link"
  by (simp_all add: sample_link_def new_link_def begin_check_def begin_register_def begin_send_def authority_of_def sample_scope_def
      MAX_REQUEST_ID_def MAX_LINE_BYTES_def MAX_PENDING_def)

lemma sample_moves:
  "schedules (snd (invoke_callback sample_bridge sample_moment sample_link sample_call sample_db)) =
     [sample_schedule\<lparr>s_next_run_at := 7, s_generation := 2, s_last_error := None, s_updated_at := 0\<rparr>]"
  by (simp add: sample_call_def invoke_callback_def authority_for_def sample_turn sample_link_state sample_bridge_def
      invoke_schedule_def reschedule_def sample_db_def sample_schedule_def new_schedule_def sample_moment_def millis_def Let_def)

text \<open>C28: What the agent asks for changes the tables only under the authority of an execution the daemon started
  and has not cancelled or settled: the change is a run of the transactions of background work, a new job is
  started by a chat and in its channel only, a new question or schedule belongs to the channel, run, job and goal of
  that execution.\<close>

theorem callbacks_act_within_their_authority:
  assumes "invoke_callback br mo s c db = (r, db')" "db' \<noteq> db"
  shows "\<exists>i a. hm_get (lk_turns s) i = Some a \<and> au_token a \<notin> lk_cancelled s \<and> br_background br \<and> adds_within a db db' \<and>
     (work_step (br_env br) (br_limits br))\<^sup>*\<^sup>* db db'"
proof (cases rule: callback_cases [of br mo s c db])
  case unchanged
  then show ?thesis using assms by simp
next
  case (input i a run action)
  then show ?thesis using assms(1) input_within [of a run db br mo action] callback_steps [of br db mo s c]
    by (intro exI [of _ i] exI [of _ a]) (auto simp: admitted_def)
next
  case (job i a action)
  then show ?thesis using assms(1) job_within [of action a db br mo] callback_steps [of br db mo s c]
    by (intro exI [of _ i] exI [of _ a]) (auto simp: admitted_def)
next
  case (schedule i a action)
  then show ?thesis using assms(1) schedule_within [of a db br mo action] callback_steps [of br db mo s c]
    by (intro exI [of _ i] exI [of _ a]) (auto simp: admitted_def)
qed

theorem callbacks_act_within_their_authority_witness:
  "\<exists>db'. snd (invoke_callback sample_bridge sample_moment sample_link sample_call sample_db) = db' \<and> db' \<noteq> sample_db \<and>
     (work_step (br_env sample_bridge) (br_limits sample_bridge))\<^sup>*\<^sup>* sample_db db'"
proof -
  obtain r db' where c: "invoke_callback sample_bridge sample_moment sample_link sample_call sample_db = (r, db')"
    by (cases "invoke_callback sample_bridge sample_moment sample_link sample_call sample_db")
  then have "s_next_run_at (hd (schedules db')) = 7" using sample_moves by simp
  then have "db' \<noteq> sample_db" by (auto simp: sample_db_def sample_schedule_def new_schedule_def millis_def)
  then show ?thesis using callbacks_act_within_their_authority [OF c] c by auto
qed

definition callback_request :: "callback \<Rightarrow> int option" where
  "callback_request c = (case c of OwnerInputCall i _ \<Rightarrow> Some i | JobCall i _ \<Rightarrow> Some i | ScheduleCall i _ \<Rightarrow> Some i
     | ToolCall i _ _ \<Rightarrow> Some i | _ \<Rightarrow> None)"

lemma settled_refused:
  assumes "settled i s" "callback_request c = Some i"
  shows "invoke_callback br mo s c db = (Inl (Conflict ''domain tool has no admitted chat turn''), db)"
  using assms by (cases c) (simp_all add: callback_request_def settled_def invoke_callback_def authority_for_def)

text \<open>C29: A request that is over has no say: once the daemon has finished a request, whatever then happens on the
  link, a callback in its name is refused and changes nothing.\<close>

theorem settled_request_has_no_authority:
  assumes "link_run es new_link = Some s" "link_run (Finishes i # es') s = Some t" "callback_request c = Some i"
  shows "invoke_callback br mo t c db = (Inl (Conflict ''domain tool has no admitted chat turn''), db)"
proof -
  have ok: "link_ok s" using link_run_ok [OF new_link_ok assms(1)] .
  have "i \<in> set (lk_sent s)" "link_run es' (finish_request i s) = Some t"
    using assms(2) by (auto split: if_splits)
  then have "settled i t" using finished_is_settled [OF ok] link_run_settled by blast
  then show ?thesis using settled_refused assms(3) by blast
qed

theorem settled_request_has_no_authority_witness:
  "\<exists>t. link_run [Finishes 1, Receives (IncomingRequest (- 1) ''schedule'' JNull)] sample_link = Some t \<and>
     snd (invoke_callback sample_bridge sample_moment t sample_call sample_db) = sample_db"
proof -
  obtain t where t: "link_run [Finishes 1, Receives (IncomingRequest (- 1) ''schedule'' JNull)] sample_link = Some t"
    using sample_link_state by (simp add: finish_request_def)
  show ?thesis
    using settled_request_has_no_authority [OF sample_link_run t, of sample_call sample_bridge sample_moment sample_db] t
    by (simp add: sample_call_def callback_request_def)
qed

end
