(* ===== verification/Agent_Host.thy ===== *)
theory Agent_Host
  imports BoBe_Prelude BoBe_Text
begin

text \<open>
  The agent's process as a whole: \<open>Host\<close> of \<open>src/BoBeService/src/agent/host.rs\<close> keeps one worker and replaces it.
  The mutex around the worker is
  held while it is started or stopped, so these are one step whose argument tells what the waiting saw; a
  reload reads the worker and applies its configuration in two. Workers are numbered as they are spawned. A
  configuration is opaque.
\<close>

section \<open>The worker\<close>

record 'c worker =
  hw_alive :: bool
  hw_initialized :: bool
  hw_stop :: bool
  hw_exited :: bool
  hw_config :: 'c

record 'c agent_host =
  h_slot :: "nat option"
  h_workers :: "(nat, 'c worker) hmap"
  h_next :: nat
  h_closed :: bool
  h_config :: 'c
  h_reloads :: "(nat option \<times> 'c option) list"

definition new_host :: "'c \<Rightarrow> 'c agent_host" where
  "new_host c = \<lparr>h_slot = None, h_workers = [], h_next = 0, h_closed = False, h_config = c, h_reloads = []\<rparr>"

definition usable :: "'c worker \<Rightarrow> bool" where
  "usable w \<longleftrightarrow> hw_alive w \<and> hw_initialized w \<and> \<not> hw_stop w"

definition modify_worker :: "nat \<Rightarrow> ('c worker \<Rightarrow> 'c worker) \<Rightarrow> 'c agent_host \<Rightarrow> 'c agent_host" where
  "modify_worker n f h = h\<lparr>h_workers := hm_modify n f (h_workers h)\<rparr>"

text \<open>\<open>stop_and_wait\<close>: whether the worker exited in time.\<close>

definition stop_and_wait :: "nat \<Rightarrow> bool \<Rightarrow> 'c agent_host \<Rightarrow> (app_error + unit) \<times> 'c agent_host" where
  "stop_and_wait n in_time h =
     (if in_time then (Inr (), modify_worker n (\<lambda>w. w\<lparr>hw_stop := True, hw_alive := False, hw_exited := True\<rparr>) h)
      else (Inl (Internal ''pi worker did not stop''), modify_worker n (\<lambda>w. w\<lparr>hw_stop := True\<rparr>) h))"

text \<open>\<open>stop_and_wait().await?; process.take()\<close>.\<close>

definition drop_worker :: "nat \<Rightarrow> bool \<Rightarrow> 'c agent_host \<Rightarrow> (app_error + unit) \<times> 'c agent_host" where
  "drop_worker n in_time h =
     (case stop_and_wait n in_time h of (Inl e, h1) \<Rightarrow> (Inl e, h1) | (Inr u, h1) \<Rightarrow> (Inr u, h1\<lparr>h_slot := None\<rparr>))"

text \<open>How a start ends: \<open>InitDropped\<close> is a caller that went away, whose guard stops the worker.\<close>

datatype start_outcome = FilesMissing | SpawnFails | Initialized | Refused bool | InitDropped

definition start_connection :: "start_outcome \<Rightarrow> 'c agent_host \<Rightarrow> (app_error + nat) \<times> 'c agent_host" where
  "start_connection out h =
     (let n = h_next h;
          h1 = h\<lparr>h_slot := Some n, h_next := Suc n,
                 h_workers := hm_insert n \<lparr>hw_alive = True, hw_initialized = False, hw_stop = False, hw_exited = False,
                   hw_config = h_config h\<rparr> (h_workers h)\<rparr>
      in case out of
           FilesMissing \<Rightarrow> (Inl (Config ''pi runtime is missing''), h)
         | SpawnFails \<Rightarrow> (Inl (Internal ''start pi worker''), h)
         | Initialized \<Rightarrow> (Inr n, modify_worker n (\<lambda>w. w\<lparr>hw_initialized := True\<rparr>) h1)
         | Refused in_time \<Rightarrow>
             (case drop_worker n in_time h1 of
                (Inl e, h2) \<Rightarrow> (Inl e, h2) | (Inr _, h2) \<Rightarrow> (Inl (Internal ''incompatible initialization''), h2))
         | InitDropped \<Rightarrow> (Inl (Canceled ''caller is gone''), modify_worker n (\<lambda>w. w\<lparr>hw_stop := True\<rparr>) h1))"

definition host_connection :: "bool \<Rightarrow> start_outcome \<Rightarrow> 'c agent_host \<Rightarrow> (app_error + nat) \<times> 'c agent_host" where
  "host_connection in_time out h =
     (if h_closed h then (Inl (ServiceUnavailable ''pi runtime has stopped''), h)
      else (case h_slot h of
          None \<Rightarrow> start_connection out h
        | Some n \<Rightarrow>
            (case hm_get (h_workers h) n of
               None \<Rightarrow> start_connection out h
             | Some w \<Rightarrow>
                 if usable w then (Inr n, h)
                 else (case drop_worker n in_time h of
                     (Inl e, h1) \<Rightarrow> (Inl e, h1) | (Inr _, h1) \<Rightarrow> start_connection out h1))))"

definition host_shutdown :: "bool \<Rightarrow> 'c agent_host \<Rightarrow> (app_error + unit) \<times> 'c agent_host" where
  "host_shutdown in_time h =
     (case h_slot h of None \<Rightarrow> (Inr (), h) | Some n \<Rightarrow> drop_worker n in_time h)"

definition host_close :: "bool \<Rightarrow> 'c agent_host \<Rightarrow> (app_error + unit) \<times> 'c agent_host" where
  "host_close in_time h = host_shutdown in_time (h\<lparr>h_closed := True\<rparr>)"

text \<open>\<open>apply_reload\<close>: first the worker is read, then, with the options locked, it is told if it lives, and the
  options follow. \<open>WorkerSilent\<close> is a worker that missed the deadline and is stopped when it was given a new
  configuration.\<close>

datatype reload_reply = WorkerConfirms | WorkerRefuses | WorkerSilent bool

definition reload_reads :: "'c option \<Rightarrow> 'c agent_host \<Rightarrow> 'c agent_host" where
  "reload_reads mcp h = h\<lparr>h_reloads := (h_slot h, mcp) # h_reloads h\<rparr>"

definition reload_applies :: "reload_reply \<Rightarrow> nat option \<Rightarrow> 'c option \<Rightarrow> 'c agent_host \<Rightarrow> (app_error + unit) \<times> 'c agent_host" where
  "reload_applies reply seen mcp h =
     (let done_options = (\<lambda>h. case mcp of None \<Rightarrow> h | Some c \<Rightarrow> h\<lparr>h_config := c\<rparr>) in
      case (case seen of None \<Rightarrow> None | Some n \<Rightarrow> (case hm_get (h_workers h) n of None \<Rightarrow> None
              | Some w \<Rightarrow> if hw_alive w then Some n else None)) of
        None \<Rightarrow> (Inr (), done_options h)
      | Some n \<Rightarrow>
          (case reply of
             WorkerConfirms \<Rightarrow> (Inr (), done_options (case mcp of None \<Rightarrow> h
                 | Some c \<Rightarrow> modify_worker n (\<lambda>w. w\<lparr>hw_config := c\<rparr>) h))
           | WorkerRefuses \<Rightarrow> (Inl (Internal ''reload was refused''), h)
           | WorkerSilent in_time \<Rightarrow> (Inl (Internal ''pi reload exceeded its deadline''),
               if mcp = None then h else snd (stop_and_wait n in_time h))))"

section \<open>Steps\<close>

datatype 'c host_event = Connects bool start_outcome | ShutsDown bool | ClosesHost bool | ReloadReads "'c option"
  | ReloadApplies nat reload_reply | StopsWorker nat | FailsLink nat | WorkerExits nat

fun host_next :: "'c host_event \<Rightarrow> 'c agent_host \<Rightarrow> 'c agent_host option" where
  "host_next (Connects in_time out) h = Some (snd (host_connection in_time out h))"
| "host_next (ShutsDown in_time) h = Some (snd (host_shutdown in_time h))"
| "host_next (ClosesHost in_time) h = Some (snd (host_close in_time h))"
| "host_next (ReloadReads mcp) h = Some (reload_reads mcp h)"
| "host_next (ReloadApplies k reply) h =
     (if k < length (h_reloads h)
      then (case h_reloads h ! k of (seen, mcp) \<Rightarrow>
        Some ((snd (reload_applies reply seen mcp h))\<lparr>h_reloads := take k (h_reloads h) @ drop (Suc k) (h_reloads h)\<rparr>))
      else None)"
| "host_next (StopsWorker n) h = Some (modify_worker n (\<lambda>w. w\<lparr>hw_stop := True\<rparr>) h)"
| "host_next (FailsLink n) h = Some (modify_worker n (\<lambda>w. w\<lparr>hw_alive := False\<rparr>) h)"
| "host_next (WorkerExits n) h = Some (modify_worker n (\<lambda>w. w\<lparr>hw_alive := False, hw_exited := True\<rparr>) h)"

fun host_run :: "'c host_event list \<Rightarrow> 'c agent_host \<Rightarrow> 'c agent_host option" where
  "host_run [] h = Some h"
| "host_run (e # es) h = (case host_next e h of None \<Rightarrow> None | Some h' \<Rightarrow> host_run es h')"

text \<open>Every worker that has not exited is the one in the slot, and the slot holds a worker.\<close>

definition host_ok :: "'c agent_host \<Rightarrow> bool" where
  "host_ok h \<longleftrightarrow> (\<forall>n w. hm_get (h_workers h) n = Some w \<longrightarrow> n < h_next h \<and> (hw_exited w \<or> h_slot h = Some n)) \<and>
     (\<forall>n. h_slot h = Some n \<longrightarrow> hm_get (h_workers h) n \<noteq> None)"

declare map_of_eq_Some_iff [simp del]

lemma modify_ok: "host_ok h \<Longrightarrow> (\<And>w. hw_exited w \<Longrightarrow> hw_exited (f w)) \<Longrightarrow> host_ok (modify_worker n f h)"
  by (auto simp: host_ok_def modify_worker_def hm_simps split: if_splits)

lemma stop_ok: "host_ok h \<Longrightarrow> host_ok (snd (stop_and_wait n in_time h))"
  by (auto simp: stop_and_wait_def intro: modify_ok)

lemma drop_ok:
  assumes "host_ok h" "h_slot h = Some n" "drop_worker n in_time h = (r, h1)"
  shows "host_ok h1" "r = Inr u \<Longrightarrow> h_slot h1 = None"
proof -
  show "host_ok h1"
  proof (cases in_time)
    case False
    then show ?thesis using assms(3) stop_ok [OF assms(1), of n in_time] by (simp add: drop_worker_def stop_and_wait_def)
  next
    case True
    have old: "m < h_next h \<and> (m = n \<or> hw_exited w)" if "hm_get (h_workers h) m = Some w" for m w
      using assms(1,2) that unfolding host_ok_def by (metis option.inject)
    have "h1 = (modify_worker n (\<lambda>w. w\<lparr>hw_stop := True, hw_alive := False, hw_exited := True\<rparr>) h)\<lparr>h_slot := None\<rparr>"
      using assms(3) True by (simp add: drop_worker_def stop_and_wait_def)
    then show ?thesis using old by (auto simp: host_ok_def modify_worker_def hm_simps split: if_splits)
  qed
  show "r = Inr u \<Longrightarrow> h_slot h1 = None"
    using assms(3) by (auto simp: drop_worker_def stop_and_wait_def split: if_splits)
qed

lemma start_ok:
  assumes "host_ok h" "h_slot h = None"
  shows "host_ok (snd (start_connection out h))"
proof -
  define h1 where "h1 = h\<lparr>h_slot := Some (h_next h), h_next := Suc (h_next h),
                 h_workers := hm_insert (h_next h) \<lparr>hw_alive = True, hw_initialized = False, hw_stop = False, hw_exited = False,
                   hw_config = h_config h\<rparr> (h_workers h)\<rparr>"
  have h1: "host_ok h1" "h_slot h1 = Some (h_next h)"
    using assms by (auto simp: h1_def host_ok_def hm_simps less_SucI split: if_splits)
  show ?thesis
  proof (cases out)
    case (Refused in_time)
    obtain r h2 where d: "drop_worker (h_next h) in_time h1 = (r, h2)" by (cases "drop_worker (h_next h) in_time h1")
    then show ?thesis using drop_ok(1) [OF h1 d] Refused
      by (cases r) (simp_all add: start_connection_def Let_def flip: h1_def)
  qed (use assms h1 modify_ok [OF h1(1)] in \<open>simp_all add: start_connection_def Let_def flip: h1_def\<close>)
qed

lemma connection_ok:
  assumes ok: "host_ok h"
  shows "host_ok (snd (host_connection in_time out h))"
proof (cases "h_closed h \<or> h_slot h = None")
  case True
  then show ?thesis using start_ok [OF ok] ok by (auto simp: host_connection_def)
next
  case False
  then obtain n w where n: "h_slot h = Some n" "hm_get (h_workers h) n = Some w" using ok by (auto simp: host_ok_def)
  obtain r h1 where d: "drop_worker n in_time h = (r, h1)" by (cases "drop_worker n in_time h")
  note dropped = drop_ok [OF ok n(1) d]
  show ?thesis using False n d dropped(1) start_ok [OF dropped(1) dropped(2)] ok
    by (cases r) (simp_all add: host_connection_def)
qed

lemma shutdown_ok: "host_ok h \<Longrightarrow> host_ok (snd (host_shutdown in_time h))"
proof (cases "h_slot h")
  case (Some n)
  assume ok: "host_ok h"
  show ?thesis using drop_ok(1) [OF ok Some] Some
    by (cases "drop_worker n in_time h") (simp add: host_shutdown_def)
qed (simp add: host_shutdown_def)

lemma host_ok_fields [simp]:
  "host_ok (h\<lparr>h_closed := b\<rparr>) = host_ok h" "host_ok (h\<lparr>h_config := c\<rparr>) = host_ok h" "host_ok (h\<lparr>h_reloads := rs\<rparr>) = host_ok h"
  by (simp_all add: host_ok_def)

lemma reload_ok: "host_ok h \<Longrightarrow> host_ok (snd (reload_applies reply seen mcp h))"
  using stop_ok [of h] modify_ok [of h]
  by (auto simp: reload_applies_def Let_def split: option.splits reload_reply.splits)

lemma host_next_ok: "host_ok h \<Longrightarrow> host_next e h = Some h' \<Longrightarrow> host_ok h'"
  by (cases e) (auto simp: reload_reads_def host_close_def intro!: connection_ok shutdown_ok reload_ok modify_ok
      split: if_splits prod.splits)

lemma host_run_ok: "host_ok h \<Longrightarrow> host_run es h = Some h' \<Longrightarrow> host_ok h'"
  by (induction es arbitrary: h) (auto split: option.splits intro: host_next_ok)

text \<open>C32: At most one agent process runs: in whatever order the daemon connects, restarts, reloads, cancels and
  shuts down, and however workers fail, hang and exit, two workers that have not exited are the same one.\<close>

theorem one_agent_process_at_a_time:
  assumes "host_run es (new_host c) = Some h" "hm_get (h_workers h) n = Some w" "hm_get (h_workers h) m = Some v"
    "\<not> hw_exited w" "\<not> hw_exited v"
  shows "n = m"
proof -
  have "host_ok h" by (rule host_run_ok [OF _ assms(1)]) (simp add: host_ok_def new_host_def)
  then have "h_slot h = Some n" "h_slot h = Some m" using assms(2-5) unfolding host_ok_def by blast+
  then show ?thesis by simp
qed

theorem one_agent_process_at_a_time_witness:
  "\<exists>h w. host_run [Connects True Initialized, FailsLink 0, Connects False Initialized, WorkerExits 0, Connects True Initialized]
       (new_host (0 :: nat)) = Some h \<and> hm_get (h_workers h) 1 = Some w \<and> \<not> hw_exited w \<and>
     (\<forall>n v. hm_get (h_workers h) n = Some v \<longrightarrow> \<not> hw_exited v \<longrightarrow> n = 1)"
proof -
  obtain h where h: "host_run [Connects True Initialized, FailsLink 0, Connects False Initialized, WorkerExits 0, Connects True Initialized]
       (new_host (0 :: nat)) = Some h" "\<exists>w. hm_get (h_workers h) 1 = Some w \<and> \<not> hw_exited w"
    by (simp add: new_host_def host_connection_def start_connection_def modify_worker_def usable_def drop_worker_def stop_and_wait_def
        Let_def hm_modify_def)
  then show ?thesis using one_agent_process_at_a_time [OF h(1)] by blast
qed

text \<open>A reload that read the empty slot just before a worker was started leaves that worker with the old
  configuration and reports success.\<close>

lemma reload_misses_a_starting_worker:
  "\<exists>h w. host_run [ReloadReads (Some new), Connects True Initialized, ReloadApplies 0 WorkerConfirms] (new_host old) = Some h \<and>
     hm_get (h_workers h) 0 = Some w \<and> usable w \<and> hw_config w = old \<and> h_config h = new"
  by (simp add: new_host_def reload_reads_def reload_applies_def host_connection_def start_connection_def modify_worker_def usable_def
      Let_def hm_modify_def)

end
