(* ===== verification/Agent_Processes.thy ===== *)
theory Agent_Processes
  imports Agent_Link
begin

text \<open>
  The programs the agent starts through the daemon: the registry of \<open>src/BoBeService/src/agent/process.rs\<close> and
  the first branch of \<open>DomainBridge::invoke\<close> in \<open>agent/host.rs\<close>. A process runs as long as its task, which holds
  one permit; spawning and waiting have outcomes as arguments, the bytes that pass are left out. Cancelling the
  owner cancels every process, as their tokens are its children.
\<close>

section \<open>The registry\<close>

datatype process_purpose = ShellProcess | McpProcess

record process_launch =
  pl_id :: uuid
  pl_purpose :: process_purpose
  pl_request :: "int option"
  pl_program :: rtext
  pl_args :: nat
  pl_env :: nat
  pl_absolute :: bool

record process_entry =
  pe_cancelled :: bool
  pe_run :: "int option"

record owned_processes =
  op_entries :: "(uuid, process_entry) hmap"
  op_permits :: nat
  op_shutdown :: bool

definition new_processes :: "nat \<Rightarrow> owned_processes" where
  "new_processes capacity = \<lparr>op_entries = [], op_permits = capacity, op_shutdown = False\<rparr>"

definition start_process :: "bool \<Rightarrow> int option \<Rightarrow> process_launch \<Rightarrow> owned_processes \<Rightarrow> (app_error + uuid) \<times> owned_processes" where
  "start_process spawned run l p =
     (if pl_program l = [] \<or> \<not> pl_absolute l \<or> pl_args l > 256 \<or> pl_env l > 256
      then (Inl (Validation ''invalid owned process launch''), p)
      else if op_permits p = 0
      then (Inl (Conflict ''owned process capacity is full; reduce concurrent work''), p)
      else if op_shutdown p
      then (Inl (ServiceUnavailable ''worker process owner is shutting down''), p)
      else if hm_get (op_entries p) (pl_id l) \<noteq> None
      then (Inl (Conflict ''process identity is already active''), p)
      else if \<not> spawned then (Inl (Io ''spawn''), p)
      else (Inr (pl_id l), p\<lparr>op_permits := op_permits p - 1,
             op_entries := hm_insert (pl_id l) \<lparr>pe_cancelled = False, pe_run = run\<rparr> (op_entries p)\<rparr>))"

text \<open>A write is checked and queued for the process; \<open>queued\<close> is the outcome of the bounded wait.\<close>

definition write_process ::
  "(app_error + unit) \<Rightarrow> uuid \<Rightarrow> nat option \<Rightarrow> owned_processes \<Rightarrow> app_error + unit" where
  "write_process queued i decoded p =
     (case decoded of
        None \<Rightarrow> Inl (Validation ''process input is not valid base64'')
      | Some n \<Rightarrow>
          if n > 1024 * 1024 then Inl (Validation ''process input chunk is too large'')
          else if hm_get (op_entries p) i = None then Inl (NotFound ''owned process is no longer active'')
          else queued)"

definition cancel_process :: "uuid \<Rightarrow> owned_processes \<Rightarrow> owned_processes" where
  "cancel_process i p = p\<lparr>op_entries := hm_modify i (\<lambda>e. e\<lparr>pe_cancelled := True\<rparr>) (op_entries p)\<rparr>"

definition stop_all :: "owned_processes \<Rightarrow> owned_processes" where
  "stop_all p = p\<lparr>op_shutdown := True, op_entries := map (\<lambda>(i, e). (i, e\<lparr>pe_cancelled := True\<rparr>)) (op_entries p)\<rparr>"

text \<open>The end of a process's task; an exit that cannot be reported shuts the owner down.\<close>

definition end_process :: "bool \<Rightarrow> uuid \<Rightarrow> owned_processes \<Rightarrow> owned_processes" where
  "end_process reported i p =
     p\<lparr>op_entries := hm_remove i (op_entries p), op_permits := op_permits p + 1,
       op_shutdown := (op_shutdown p \<or> \<not> reported)\<rparr>"

text \<open>Does the task terminate its process? Its own token, the owner's or the one of the run.\<close>

definition terminates :: "link \<Rightarrow> owned_processes \<Rightarrow> process_entry \<Rightarrow> bool" where
  "terminates s p e \<longleftrightarrow> pe_cancelled e \<or> op_shutdown p \<or> (case pe_run e of None \<Rightarrow> False | Some t \<Rightarrow> t \<in> lk_cancelled s)"

section \<open>Starting for a run\<close>

definition invoke_start :: "bool \<Rightarrow> link \<Rightarrow> process_launch \<Rightarrow> owned_processes \<Rightarrow> (app_error + uuid) \<times> owned_processes" where
  "invoke_start spawned s l p =
     (case pl_purpose l of
        McpProcess \<Rightarrow> start_process spawned None l p
      | ShellProcess \<Rightarrow>
          (case (case pl_request l of None \<Rightarrow> None | Some i \<Rightarrow> hm_get (lk_turns s) i) of
             None \<Rightarrow> (Inl (Conflict ''shell process has no active owner execution''), p)
           | Some a \<Rightarrow>
               if au_token a \<in> lk_cancelled s then (Inl (Conflict ''owner execution was cancelled''), p)
               else start_process spawned (Some (au_token a)) l p))"

datatype process_event = Launches bool process_launch | Cancels uuid | Ends bool uuid | StopsAll | LinkEvent link_event

fun process_next :: "process_event \<Rightarrow> link \<times> owned_processes \<Rightarrow> (link \<times> owned_processes) option" where
  "process_next (Launches spawned l) (s, p) = Some (s, snd (invoke_start spawned s l p))"
| "process_next (Cancels i) (s, p) = Some (s, cancel_process i p)"
| "process_next (Ends reported i) (s, p) =
     (if hm_get (op_entries p) i = None then None else Some (s, end_process reported i p))"
| "process_next StopsAll (s, p) = Some (s, stop_all p)"
| "process_next (LinkEvent e) (s, p) = (case link_next e s of None \<Rightarrow> None | Some s' \<Rightarrow> Some (s', p))"

fun process_run :: "process_event list \<Rightarrow> link \<times> owned_processes \<Rightarrow> (link \<times> owned_processes) option" where
  "process_run [] x = Some x"
| "process_run (e # es) x = (case process_next e x of None \<Rightarrow> None | Some x' \<Rightarrow> process_run es x')"

section \<open>Bounds\<close>

text \<open>Every process has a permit, and a program that was started for a run is terminated when the run is
  cancelled: its token is the one of a turn that was admitted.\<close>

definition processes_ok :: "nat \<Rightarrow> link \<Rightarrow> owned_processes \<Rightarrow> bool" where
  "processes_ok capacity s p \<longleftrightarrow> hm_ok (op_entries p) \<and> length (op_entries p) + op_permits p = capacity"

lemma hm_remove_length: "hm_ok m \<Longrightarrow> hm_get m k = Some v \<Longrightarrow> Suc (length (hm_remove k m)) = length m"
proof (induction m)
  case (Cons x m)
  show ?case
  proof (cases "fst x = k")
    case True
    then have "hm_remove k m = m" using Cons.prems by (intro delete_id) auto
    then show ?thesis using True by simp
  next
    case False
    then show ?thesis using Cons by auto
  qed
qed simp

lemma process_next_ok:
  "processes_ok capacity s p \<Longrightarrow> process_next e (s, p) = Some (s', p') \<Longrightarrow> processes_ok capacity s' p'"
proof (cases e)
  case (Launches spawned l)
  assume "processes_ok capacity s p" "process_next e (s, p) = Some (s', p')"
  then show ?thesis using Launches
    by (auto simp: invoke_start_def start_process_def processes_ok_def hm_insert_fresh split: process_purpose.splits option.splits)
next
  case (Ends reported i)
  assume "processes_ok capacity s p" "process_next e (s, p) = Some (s', p')"
  then show ?thesis using Ends hm_remove_length [of "op_entries p" i]
    by (auto simp: processes_ok_def end_process_def split: if_splits)
qed (auto simp: processes_ok_def cancel_process_def stop_all_def hm_modify_def comp_def case_prod_unfold split: option.splits)

lemma process_run_ok:
  "processes_ok capacity (fst x) (snd x) \<Longrightarrow> process_run es x = Some y \<Longrightarrow> processes_ok capacity (fst y) (snd y)"
proof (induction es arbitrary: x)
  case (Cons e es)
  then obtain x' where x': "process_next e x = Some x'" "process_run es x' = Some y" by (auto split: option.splits)
  then show ?case using Cons process_next_ok [of capacity "fst x" "snd x" e "fst x'" "snd x'"] by simp
qed simp

lemma shutdown_next:
  "op_shutdown p \<Longrightarrow> process_next e (s, p) = Some (s', p') \<Longrightarrow>
     op_shutdown p' \<and> fst ` set (op_entries p') \<subseteq> fst ` set (op_entries p)"
proof -
  assume a: "op_shutdown p" "process_next e (s, p) = Some (s', p')"
  have keys: "fst ` set (hm_modify i f m) = fst ` set m" for i and f :: "process_entry \<Rightarrow> process_entry" and m :: "(uuid, process_entry) hmap"
    by (induction m) (auto simp: hm_modify_def)
  show ?thesis
  proof (cases e)
    case (Ends reported i)
    then have "s' = s" "p' = end_process reported i p" using a by (auto split: if_splits)
    then show ?thesis using a(1) dom_delete_subset [of i "op_entries p"] by (simp add: end_process_def)
  next
    case (Cancels i)
    then have "s' = s" "p' = cancel_process i p" using a by simp_all
    then show ?thesis using a(1) keys by (simp add: cancel_process_def)
  qed (use a in \<open>auto simp: invoke_start_def start_process_def stop_all_def image_image case_prod_unfold
      split: process_purpose.splits option.splits if_splits\<close>)
qed

lemma shutdown_run:
  "op_shutdown (snd x) \<Longrightarrow> process_run es x = Some y \<Longrightarrow>
     op_shutdown (snd y) \<and> fst ` set (op_entries (snd y)) \<subseteq> fst ` set (op_entries (snd x))"
proof (induction es arbitrary: x)
  case (Cons e es)
  then obtain x' where x': "process_next e x = Some x'" "process_run es x' = Some y" by (auto split: option.splits)
  then show ?case using Cons shutdown_next [of "snd x" e "fst x" "fst x'" "snd x'"] by (simp add: subset_trans) blast
qed simp

text \<open>The agent never has more programs running than its capacity, and once their owner shuts down (the
  worker stopped, or an exit could not be reported) no new one is started: those left are among the old ones.\<close>

theorem owned_processes_are_bounded:
  assumes "process_run es (new_link, new_processes capacity) = Some (s, p)" "process_run es' (s, p) = Some (s', p')"
  shows "length (op_entries p) \<le> capacity \<and>
    (op_shutdown p \<longrightarrow> op_shutdown p' \<and> fst ` set (op_entries p') \<subseteq> fst ` set (op_entries p))"
proof -
  have "processes_ok capacity (fst (new_link, new_processes capacity)) (snd (new_link, new_processes capacity))"
    by (simp add: processes_ok_def new_processes_def)
  from process_run_ok [OF this assms(1)] have "length (op_entries p) \<le> capacity" by (simp add: processes_ok_def)
  then show ?thesis using shutdown_run [OF _ assms(2)] by auto
qed

definition sample_launch :: process_launch where
  "sample_launch = \<lparr>pl_id = 9, pl_purpose = McpProcess, pl_request = None, pl_program = lit ''node'', pl_args = 1, pl_env = 0, pl_absolute = True\<rparr>"

theorem owned_processes_are_bounded_witness:
  "\<exists>s p s' p'. process_run [Launches True sample_launch, StopsAll] (new_link, new_processes 2) = Some (s, p) \<and>
     process_run [Launches True (sample_launch\<lparr>pl_id := 10\<rparr>), Ends True 9] (s, p) = Some (s', p') \<and> fst ` set (op_entries p') \<subseteq> {9}"
proof -
  obtain s p s' p' where r: "process_run [Launches True sample_launch, StopsAll] (new_link, new_processes 2) = Some (s, p)"
    "process_run [Launches True (sample_launch\<lparr>pl_id := 10\<rparr>), Ends True 9] (s, p) = Some (s', p')" "op_shutdown p"
    "fst ` set (op_entries p) = {9}"
    by (simp add: invoke_start_def start_process_def sample_launch_def new_processes_def stop_all_def lit_def)
  then show ?thesis using owned_processes_are_bounded [OF r(1,2)] by auto
qed

end
