(* ===== verification/Cooldowns.thy ===== *)
theory Cooldowns
  imports Durable_Tables "HOL-Library.Product_Lexorder"
begin

text \<open>
  When BoBe last reached out and when the owner last answered:
  \<open>src/BoBeService/src/models/cooldown.rs\<close> and \<open>db/cooldown_repo.rs\<close>.

  The repository keeps the row it read last in a cache under a mutex, held over every operation, so
  the operations run one after the other. A statement may fail, and a statement whose error is
  reported may still have been applied (a caller that is dropped while it waits has the same
  outcome): \<open>Fails\<close> says whether it was. Times are nanoseconds, and two rows may exist, as the
  test of the repository says; the oldest is the cooldown.
\<close>

section \<open>The cooldown\<close>

record cooldown =
  cd_id :: uuid
  cd_engagement :: "int option"
  cd_response :: "int option"
  cd_created :: int
  cd_updated :: int

datatype cooldown_type = UserResponse | AiEngagement

record cooldown_info =
  ci_remaining :: int
  ci_type :: cooldown_type

definition minutes :: "int \<Rightarrow> int" where
  "minutes n = n * 60 * 1000000000"

definition new_cooldown :: "int \<Rightarrow> uuid \<Rightarrow> cooldown" where
  "new_cooldown now i = \<lparr>cd_id = i, cd_engagement = None, cd_response = None, cd_created = now, cd_updated = now\<rparr>"

definition within :: "int \<Rightarrow> int \<Rightarrow> int option \<Rightarrow> cooldown_type \<Rightarrow> cooldown_info option" where
  "within now window since t =
     (case since of None \<Rightarrow> None
      | Some s \<Rightarrow> if now - s < window then Some \<lparr>ci_remaining = window - (now - s), ci_type = t\<rparr> else None)"

definition cooldown_now :: "int \<Rightarrow> int \<Rightarrow> int \<Rightarrow> cooldown \<Rightarrow> cooldown_info option" where
  "cooldown_now now base_minutes extended_minutes c =
     (case within now (minutes extended_minutes) (cd_response c) UserResponse of
        Some i \<Rightarrow> Some i
      | None \<Rightarrow> within now (minutes base_minutes) (cd_engagement c) AiEngagement)"

section \<open>The repository\<close>

record cooldown_repo =
  cr_rows :: "cooldown list"
  cr_cached :: "cooldown option"

datatype statement = Executes | Fails bool

definition execute :: "statement \<Rightarrow> (cooldown list \<Rightarrow> cooldown list) \<Rightarrow> cooldown list \<Rightarrow> bool \<times> cooldown list" where
  "execute io f rows = (case io of Executes \<Rightarrow> (True, f rows) | Fails applied \<Rightarrow> (False, if applied then f rows else rows))"

definition select_state :: "cooldown list \<Rightarrow> cooldown option" where
  "select_state rows = (case sort_key (\<lambda>c. (cd_created c, uint (cd_id c))) rows of [] \<Rightarrow> None | c # _ \<Rightarrow> Some c)"

text \<open>What happens to the statements of one operation: the insertion and the selection of
  \<open>fetch_or_create\<close>, and the update of \<open>record\<close>.\<close>

record cooldown_io =
  io_insert :: statement
  io_select :: bool
  io_update :: statement

definition fetch_or_create :: "cooldown_io \<Rightarrow> int \<Rightarrow> uuid \<Rightarrow> cooldown list \<Rightarrow> (app_error + cooldown) \<times> cooldown list" where
  "fetch_or_create io now fresh rows =
     (case execute (io_insert io) (\<lambda>rs. if rs = [] then [new_cooldown now fresh] else rs) rows of
        (False, rs) \<Rightarrow> (Inl (Database ''insert''), rs)
      | (True, rs) \<Rightarrow>
          (if \<not> io_select io then Inl (Database ''select'')
           else case select_state rs of None \<Rightarrow> Inl (Database ''no rows returned'') | Some c \<Rightarrow> Inr c, rs))"

text \<open>\<open>state.take()\<close>, or the row; while the operation runs the cache is empty.\<close>

definition take_state :: "cooldown_io \<Rightarrow> int \<Rightarrow> uuid \<Rightarrow> cooldown_repo \<Rightarrow> (app_error + cooldown) \<times> cooldown_repo" where
  "take_state io now fresh r =
     (case cr_cached r of
        Some c \<Rightarrow> (Inr c, r\<lparr>cr_cached := None\<rparr>)
      | None \<Rightarrow> (case fetch_or_create io now fresh (cr_rows r) of (res, rs) \<Rightarrow> (res, r\<lparr>cr_rows := rs\<rparr>)))"

definition load_or_create :: "cooldown_io \<Rightarrow> int \<Rightarrow> uuid \<Rightarrow> cooldown_repo \<Rightarrow> (app_error + unit) \<times> cooldown_repo" where
  "load_or_create io now fresh r =
     (if cr_cached r \<noteq> None then (Inr (), r)
      else case fetch_or_create io now fresh (cr_rows r) of
             (Inl e, rs) \<Rightarrow> (Inl e, r\<lparr>cr_rows := rs\<rparr>)
           | (Inr c, rs) \<Rightarrow> (Inr (), \<lparr>cr_rows = rs, cr_cached = Some c\<rparr>))"

definition check_cooldown ::
  "cooldown_io \<Rightarrow> int \<Rightarrow> uuid \<Rightarrow> int \<Rightarrow> int \<Rightarrow> cooldown_repo \<Rightarrow> (app_error + cooldown_info option) \<times> cooldown_repo" where
  "check_cooldown io now fresh base extended r =
     (case take_state io now fresh r of
        (Inl e, r1) \<Rightarrow> (Inl e, r1)
      | (Inr c, r1) \<Rightarrow> (Inr (cooldown_now now base extended c), r1\<lparr>cr_cached := Some c\<rparr>))"

datatype cooldown_column = LastEngagement | LastUserResponse

definition set_column :: "cooldown_column \<Rightarrow> int \<Rightarrow> int \<Rightarrow> cooldown \<Rightarrow> cooldown" where
  "set_column col timestamp now c =
     (case col of LastEngagement \<Rightarrow> c\<lparr>cd_engagement := Some timestamp\<rparr>
      | LastUserResponse \<Rightarrow> c\<lparr>cd_response := Some timestamp\<rparr>)\<lparr>cd_updated := now\<rparr>"

definition record_time ::
  "cooldown_column \<Rightarrow> int \<Rightarrow> cooldown_io \<Rightarrow> int \<Rightarrow> uuid \<Rightarrow> cooldown_repo \<Rightarrow> (app_error + unit) \<times> cooldown_repo" where
  "record_time col timestamp io now fresh r =
     (case take_state io now fresh r of
        (Inl e, r1) \<Rightarrow> (Inl e, r1)
      | (Inr c, r1) \<Rightarrow>
          (case execute (io_update io) (sql_update (\<lambda>x. cd_id x = cd_id c) (set_column col timestamp now)) (cr_rows r1) of
             (False, rs) \<Rightarrow> (Inl (Database ''update''), r1\<lparr>cr_rows := rs\<rparr>)
           | (True, rs) \<Rightarrow> (Inr (), \<lparr>cr_rows = rs, cr_cached = Some (set_column col timestamp now c)\<rparr>)))"

text \<open>Any sequence of operations; \<open>Restarts\<close> is a new process on the same database.\<close>

datatype cooldown_event =
    Loads cooldown_io int uuid
  | Checks cooldown_io int uuid int int
  | Records cooldown_column int cooldown_io int uuid
  | Restarts

fun cooldown_next :: "cooldown_event \<Rightarrow> cooldown_repo \<Rightarrow> cooldown_repo" where
  "cooldown_next (Loads io now fresh) r = snd (load_or_create io now fresh r)"
| "cooldown_next (Checks io now fresh base extended) r = snd (check_cooldown io now fresh base extended r)"
| "cooldown_next (Records col timestamp io now fresh) r = snd (record_time col timestamp io now fresh r)"
| "cooldown_next Restarts r = r\<lparr>cr_cached := None\<rparr>"

definition cooldown_run :: "cooldown_event list \<Rightarrow> cooldown_repo \<Rightarrow> cooldown_repo" where
  "cooldown_run es r = fold cooldown_next es r"

section \<open>The cache is the stored row\<close>

definition cooldown_ok :: "cooldown_repo \<Rightarrow> bool" where
  "cooldown_ok r \<longleftrightarrow> (case cr_cached r of None \<Rightarrow> True | Some c \<Rightarrow> select_state (cr_rows r) = Some c)"

text \<open>Updating the row that \<open>select_state\<close> finds changes what it finds, and nothing else about it.\<close>

lemma select_state_mem: "select_state rows = Some c \<Longrightarrow> c \<in> set rows"
proof -
  assume "select_state rows = Some c"
  then obtain cs where "sort_key (\<lambda>c. (cd_created c, uint (cd_id c))) rows = c # cs"
    by (auto simp: select_state_def split: list.splits)
  then have "set (c # cs) = set rows" by (metis set_sort)
  then show ?thesis by auto
qed

lemma set_column_key [simp]: "cd_id (set_column col t now c) = cd_id c" "cd_created (set_column col t now c) = cd_created c"
  by (simp_all add: set_column_def split: cooldown_column.splits)

lemma sort_key_map: "(\<And>x. k (f x) = k x) \<Longrightarrow> sort_key k (map f xs) = map f (sort_key k xs)"
proof -
  assume k: "\<And>x. k (f x) = k x"
  have insert: "insort_key k (f x) (map f ys) = map f (insort_key k x ys)" for x ys
    by (induction ys) (auto simp: k)
  show ?thesis by (induction xs) (simp_all add: insert)
qed

lemma select_state_update:
  assumes "\<And>c. cd_id (f c) = cd_id c" "\<And>c. cd_created (f c) = cd_created c"
  shows "select_state (map f rows) = map_option f (select_state rows)"
  by (simp add: select_state_def sort_key_map assms split: list.splits)

lemma select_state_sql_update:
  "select_state rows = Some c \<Longrightarrow>
     select_state (sql_update (\<lambda>x. cd_id x = cd_id c) (set_column col t now) rows) = Some (set_column col t now c)"
  unfolding sql_update_def by (subst select_state_update) auto

lemma select_state_new [simp]: "select_state [c] = Some c"
  by (simp add: select_state_def)

lemma fetch_found:
  assumes "fetch_or_create io now fresh rows = (res, rs)"
  shows "\<And>c. res = Inr c \<Longrightarrow> select_state rs = Some c" "\<And>c. select_state rows = Some c \<Longrightarrow> rs = rows"
  using assms by (auto simp: fetch_or_create_def execute_def select_state_def
      split: statement.splits if_splits option.splits prod.splits list.splits)

lemma take_found:
  assumes "cooldown_ok r" "take_state io now fresh r = (res, r1)"
  shows "cr_cached r1 = None" "\<And>c. res = Inr c \<Longrightarrow> select_state (cr_rows r1) = Some c"
    "\<And>c. select_state (cr_rows r) = Some c \<Longrightarrow> cr_rows r1 = cr_rows r"
  using assms by (auto simp: take_state_def cooldown_ok_def dest: fetch_found split: option.splits prod.splits)

text \<open>What an operation does to the row: it is kept, unless it is the record of a time, and a recorded
  time is there.\<close>

lemma record_result:
  assumes r: "cooldown_ok r" and eq: "record_time col t io now fresh r = (res, r1)"
  shows "cooldown_ok r1"
    and "res = Inr () \<Longrightarrow> \<exists>c. select_state (cr_rows r1) = Some (set_column col t now c)"
    and "select_state (cr_rows r) = Some c \<Longrightarrow>
           select_state (cr_rows r1) = Some c \<or> select_state (cr_rows r1) = Some (set_column col t now c)"
proof -
  obtain taken r0 where taken: "take_state io now fresh r = (taken, r0)" by fastforce
  note found = take_found [OF r taken]
  have "cooldown_ok r1 \<and> (res = Inr () \<longrightarrow> (\<exists>c. select_state (cr_rows r1) = Some (set_column col t now c))) \<and>
      (\<forall>c. select_state (cr_rows r) = Some c \<longrightarrow>
           select_state (cr_rows r1) = Some c \<or> select_state (cr_rows r1) = Some (set_column col t now c))"
  proof (cases taken)
    case (Inl e)
    then show ?thesis using eq taken found by (auto simp: record_time_def cooldown_ok_def)
  next
    case (Inr c)
    then have "select_state (cr_rows r0) = Some c" by (rule found)
    note update = select_state_sql_update [OF this, of col t now]
    show ?thesis using Inr eq taken found update
      by (auto simp: record_time_def execute_def cooldown_ok_def split: statement.splits if_splits)
  qed
  then show "cooldown_ok r1" "res = Inr () \<Longrightarrow> \<exists>c. select_state (cr_rows r1) = Some (set_column col t now c)"
    "select_state (cr_rows r) = Some c \<Longrightarrow>
       select_state (cr_rows r1) = Some c \<or> select_state (cr_rows r1) = Some (set_column col t now c)"
    by blast+
qed

lemma load_result:
  assumes r: "cooldown_ok r" and eq: "load_or_create io now fresh r = (res, r1)"
  shows "cooldown_ok r1" and "select_state (cr_rows r) = Some c \<Longrightarrow> cr_rows r1 = cr_rows r"
  using r eq by (auto simp: load_or_create_def cooldown_ok_def dest: fetch_found split: prod.splits sum.splits if_splits)

lemma check_result:
  assumes r: "cooldown_ok r" and eq: "check_cooldown io now fresh base extended r = (res, r1)"
  shows "cooldown_ok r1" and "select_state (cr_rows r) = Some c \<Longrightarrow> cr_rows r1 = cr_rows r"
    and "res = Inr i \<Longrightarrow> \<exists>c. select_state (cr_rows r1) = Some c \<and> i = cooldown_now now base extended c"
proof -
  obtain taken r0 where taken: "take_state io now fresh r = (taken, r0)" by fastforce
  note found = take_found [OF r taken]
  show "cooldown_ok r1" using eq taken found by (auto simp: check_cooldown_def cooldown_ok_def split: sum.splits)
  show "select_state (cr_rows r) = Some c \<Longrightarrow> cr_rows r1 = cr_rows r"
    using eq taken found by (auto simp: check_cooldown_def split: sum.splits)
  show "res = Inr i \<Longrightarrow> \<exists>c. select_state (cr_rows r1) = Some c \<and> i = cooldown_now now base extended c"
    using eq taken found by (auto simp: check_cooldown_def split: sum.splits)
qed

fun records :: "cooldown_column \<Rightarrow> cooldown_event \<Rightarrow> bool" where
  "records col (Records col' _ _ _ _) = (col = col')"
| "records col _ = False"

definition column :: "cooldown_column \<Rightarrow> cooldown \<Rightarrow> int option" where
  "column col c = (case col of LastEngagement \<Rightarrow> cd_engagement c | LastUserResponse \<Rightarrow> cd_response c)"

lemma column_set [simp]: "column col (set_column col' t now c) = (if col = col' then Some t else column col c)"
  by (cases col; cases col') (auto simp: column_def set_column_def)

definition stored :: "cooldown_column \<Rightarrow> int \<Rightarrow> cooldown_repo \<Rightarrow> bool" where
  "stored col t r \<longleftrightarrow> cooldown_ok r \<and> (\<exists>c. select_state (cr_rows r) = Some c \<and> column col c = Some t)"

lemma cooldown_next_ok: "cooldown_ok r \<Longrightarrow> cooldown_ok (cooldown_next e r)"
proof (cases e)
  case (Loads io now fresh)
  assume "cooldown_ok r"
  from load_result(1) [OF this prod.collapse [symmetric], of io now fresh] show ?thesis by (simp add: Loads)
next
  case (Checks io now fresh base extended)
  assume "cooldown_ok r"
  from check_result(1) [OF this prod.collapse [symmetric], of io now fresh base extended] show ?thesis by (simp add: Checks)
next
  case (Records col t io now fresh)
  assume "cooldown_ok r"
  from record_result(1) [OF this prod.collapse [symmetric], of col t io now fresh] show ?thesis by (simp add: Records)
qed (simp add: cooldown_ok_def)

lemma stored_next:
  assumes "stored col t r" "\<not> records col e"
  shows "stored col t (cooldown_next e r)"
proof -
  from assms(1) obtain c where c: "cooldown_ok r" "select_state (cr_rows r) = Some c" "column col c = Some t"
    by (auto simp: stored_def)
  have ok: "cooldown_ok (cooldown_next e r)" using c(1) by (rule cooldown_next_ok)
  show ?thesis
  proof (cases e)
    case (Loads io now fresh)
    with load_result(2) [OF c(1) prod.collapse [symmetric] c(2), of io now fresh] ok c show ?thesis by (simp add: stored_def)
  next
    case (Checks io now fresh base extended)
    with check_result(2) [OF c(1) prod.collapse [symmetric] c(2), of io now fresh base extended] ok c
    show ?thesis by (simp add: stored_def)
  next
    case (Records col' t' io now fresh)
    with assms(2) have "col \<noteq> col'" by simp
    with Records record_result(3) [OF c(1) prod.collapse [symmetric] c(2), of col' t' io now fresh] ok c
    show ?thesis by (auto simp: stored_def)
  qed (use ok c in \<open>simp add: stored_def\<close>)
qed

lemma cooldown_run_ok: "cooldown_ok r \<Longrightarrow> cooldown_ok (cooldown_run es r)"
  by (induction es arbitrary: r) (simp_all add: cooldown_run_def cooldown_next_ok)

lemma stored_run: "stored col t r \<Longrightarrow> list_all (\<lambda>e. \<not> records col e) es \<Longrightarrow> stored col t (cooldown_run es r)"
  by (induction es arbitrary: r) (simp_all add: cooldown_run_def stored_next)

lemma within_None: "within now w s ty = None \<Longrightarrow> s = Some t \<Longrightarrow> w \<le> now - t"
  by (auto simp: within_def split: if_splits)

lemma no_cooldown:
  assumes "cooldown_now now base extended c = None" "column col c = Some t"
  shows "minutes (case col of LastUserResponse \<Rightarrow> extended | LastEngagement \<Rightarrow> base) \<le> now - t"
  using assms by (cases col) (auto simp: cooldown_now_def column_def dest: within_None split: option.splits)

text \<open>A recorded time holds its cooldown: once the time of an answer of the owner, or of BoBe's own message, has
  been recorded, no later check finds the way free before the whole window has passed, whatever is
  loaded, checked and recorded in the other column in between, whichever statements fail (a failed one
  may have been applied), and however often the process restarts.\<close>

theorem recorded_time_holds_its_cooldown:
  assumes "record_time col t io now fresh (cooldown_run es \<lparr>cr_rows = rows, cr_cached = None\<rparr>) = (Inr (), r1)"
    and "list_all (\<lambda>e. \<not> records col e) es'"
    and "check_cooldown io' now' fresh' base extended (cooldown_run es' r1) = (Inr None, r2)"
  shows "now' \<ge> t + minutes (case col of LastUserResponse \<Rightarrow> extended | LastEngagement \<Rightarrow> base)"
proof -
  let ?r = "cooldown_run es \<lparr>cr_rows = rows, cr_cached = None\<rparr>"
  have "cooldown_ok ?r" by (rule cooldown_run_ok) (simp add: cooldown_ok_def)
  from record_result(1,2) [OF this assms(1)] have "stored col t r1" by (auto simp: stored_def)
  then have s: "stored col t (cooldown_run es' r1)" using assms(2) by (rule stored_run)
  then obtain c where c: "cooldown_ok (cooldown_run es' r1)" "select_state (cr_rows (cooldown_run es' r1)) = Some c"
      "column col c = Some t"
    by (auto simp: stored_def)
  have "cr_rows r2 = cr_rows (cooldown_run es' r1)" by (rule check_result(2) [OF c(1) assms(3) c(2)])
  with check_result(3) [OF c(1) assms(3)] c(2) have "cooldown_now now' base extended c = None" by simp
  from no_cooldown [OF this c(3)] show ?thesis by simp
qed

definition sample_io :: cooldown_io where
  "sample_io = \<lparr>io_insert = Executes, io_select = True, io_update = Executes\<rparr>"

definition sample_row :: cooldown where
  "sample_row = set_column LastUserResponse 1000 1000 (new_cooldown 900 7)"

theorem recorded_time_holds_its_cooldown_witness:
  "check_cooldown sample_io (1000 + minutes 5) 8 3 5 \<lparr>cr_rows = [sample_row], cr_cached = Some sample_row\<rparr> =
     (Inr None, \<lparr>cr_rows = [sample_row], cr_cached = Some sample_row\<rparr>) \<and>
   (1000::int) + minutes 5 \<ge> 1000 + minutes 5"
proof
  have r: "record_time LastUserResponse 1000 sample_io 1000 7 (cooldown_run [Loads sample_io 900 7, Restarts] \<lparr>cr_rows = [], cr_cached = None\<rparr>) =
      (Inr (), \<lparr>cr_rows = [sample_row], cr_cached = Some sample_row\<rparr>)"
    by (simp add: record_time_def take_state_def fetch_or_create_def load_or_create_def cooldown_run_def sample_io_def
        sample_row_def execute_def sql_update_def select_state_def)
  show c: "check_cooldown sample_io (1000 + minutes 5) 8 3 5 \<lparr>cr_rows = [sample_row], cr_cached = Some sample_row\<rparr> =
      (Inr None, \<lparr>cr_rows = [sample_row], cr_cached = Some sample_row\<rparr>)"
    by (simp add: check_cooldown_def take_state_def cooldown_now_def within_def sample_row_def set_column_def new_cooldown_def)
  show "(1000::int) + minutes 5 \<ge> 1000 + minutes 5"
    using recorded_time_holds_its_cooldown [OF r, of "[]" sample_io "1000 + minutes 5" 8 3 5] c
    by (simp add: cooldown_run_def)
qed

end
