(* ===== verification/Checkins.thy ===== *)
theory Checkins
  imports Cooldowns "HOL-Library.Monad_Syntax"
begin

text \<open>
  When a check-in is due: \<open>src/BoBeService/src/runtime/triggers/checkin_scheduler.rs\<close>. Times are
  nanoseconds of UTC; the time zone of the machine is not under src/ and is a parameter: a clock gives the
  local time of an instant and the instant of a local time, if it is a single one (\<open>to_local\<close>,
  \<open>resolve\<close>), and the last instant that \<open>chrono\<close> can represent. Random jitter is an argument of the
  operation that draws it. An operation that panics, because a duration or an instant leaves the range of
  \<open>chrono\<close>, is \<open>None\<close>.
\<close>

section \<open>The clock\<close>

record clock =
  to_local :: "int \<Rightarrow> int"
  resolve :: "int \<Rightarrow> int option"
  last_instant :: int

text \<open>What a time zone promises: a local time that names a single instant comes after every instant whose
  local time is earlier, because the zone's clock runs forward and is only ever set back over times that it
  then shows twice.\<close>

definition clock_ok :: "clock \<Rightarrow> bool" where
  "clock_ok k \<longleftrightarrow> (\<forall>l u a. resolve k l = Some u \<longrightarrow> to_local k a < l \<longrightarrow> a < u)"

definition day_ns :: int where "day_ns = 86400 * 1000000000"

text \<open>\<open>at + Duration::minutes(n)\<close>; a duration is at most \<open>i64::MAX\<close> milliseconds.\<close>

definition add_minutes :: "clock \<Rightarrow> int \<Rightarrow> int \<Rightarrow> int option" where
  "add_minutes k at n =
     (if \<bar>n * 60 * 1000\<bar> \<le> 2 ^ 63 - 1 \<and> at + minutes n \<le> last_instant k then Some (at + minutes n) else None)"

text \<open>\<open>as i32\<close> and \<open>as i64\<close>.\<close>

definition as_i32 :: "nat \<Rightarrow> int" where
  "as_i32 n = (int n + 2 ^ 31) mod 2 ^ 32 - 2 ^ 31"

definition as_i64 :: "nat \<Rightarrow> int" where
  "as_i64 n = (int n + 2 ^ 63) mod 2 ^ 64 - 2 ^ 63"

section \<open>The times of the configuration\<close>

definition digits_value :: "rtext \<Rightarrow> nat" where
  "digits_value ds = foldl (\<lambda>n d. 10 * n + (d - 48)) 0 ds"

text \<open>\<open>str::parse::<u32>\<close>: a sign \<open>+\<close> and digits, at most \<open>u32::MAX\<close>.\<close>

definition parse_u32 :: "rtext \<Rightarrow> nat option" where
  "parse_u32 s =
     (let ds = (case s of [] \<Rightarrow> [] | c # cs \<Rightarrow> if c = cp CHR ''+'' then cs else s)
      in if ds \<noteq> [] \<and> list_all is_ascii_digit ds \<and> digits_value ds < 2 ^ 32 then Some (digits_value ds) else None)"

fun split_colons :: "rtext \<Rightarrow> rtext \<Rightarrow> rtext list" where
  "split_colons part [] = [part]"
| "split_colons part (c # cs) =
     (if c = cp CHR '':'' then part # split_colons [] cs else split_colons (part @ [c]) cs)"

definition from_hm :: "nat \<Rightarrow> nat \<Rightarrow> int option" where
  "from_hm hour minute =
     (if hour < 24 \<and> minute < 60 then Some ((int hour * 3600 + int minute * 60) * 1000000000) else None)"

definition parse_time :: "rtext \<Rightarrow> int option" where
  "parse_time s =
     (case split_colons [] s of
        [h, m] \<Rightarrow> (case (parse_u32 h, parse_u32 m) of (Some hour, Some minute) \<Rightarrow> from_hm hour minute | _ \<Rightarrow> None)
      | _ \<Rightarrow> None)"

definition parse_times :: "rtext list \<Rightarrow> int list" where
  "parse_times ts = sort (List.map_filter parse_time ts)"

section \<open>The scheduler\<close>

record checkin_config =
  cc_times :: "rtext list"
  cc_interval :: "nat option"
  cc_jitter :: nat
  cc_enabled :: bool

record scheduler =
  ks_times :: "int list"
  ks_interval :: "nat option"
  ks_jitter :: int
  ks_enabled :: bool
  ks_fired :: "int option"
  ks_slot :: "int option"
  ks_next :: "int option"
  ks_next_interval :: "int option"

text \<open>The jitter drawn for the next slot and for the next interval.\<close>

type_synonym draws = "int \<times> int"

definition new_scheduler :: "checkin_config \<Rightarrow> scheduler" where
  "new_scheduler c = \<lparr>ks_times = parse_times (cc_times c), ks_interval = cc_interval c, ks_jitter = as_i32 (cc_jitter c),
     ks_enabled = cc_enabled c, ks_fired = None, ks_slot = None, ks_next = None, ks_next_interval = None\<rparr>"

fun first_later :: "clock \<Rightarrow> int \<Rightarrow> int \<Rightarrow> int list \<Rightarrow> int option" where
  "first_later k today time [] = None"
| "first_later k today time (t # ts) =
     (if time < t
      then (case resolve k (today * day_ns + t) of Some u \<Rightarrow> Some u | None \<Rightarrow> first_later k today time ts)
      else first_later k today time ts)"

definition next_slot :: "clock \<Rightarrow> int \<Rightarrow> int list \<Rightarrow> int option" where
  "next_slot k after ts =
     (let l = to_local k after; today = l div day_ns; time = l mod day_ns
      in case first_later k today time ts of
           Some u \<Rightarrow> Some u
         | None \<Rightarrow> resolve k ((today + 1) * day_ns + hd ts))"

definition schedule_next_checkin :: "clock \<Rightarrow> int \<Rightarrow> int \<Rightarrow> scheduler \<Rightarrow> scheduler option" where
  "schedule_next_checkin k j after s =
     (if ks_times s = [] then Some (s\<lparr>ks_slot := None, ks_next := None\<rparr>)
      else
        let from = (case ks_fired s of None \<Rightarrow> after | Some slot \<Rightarrow> max slot after);
            slot = next_slot k from (ks_times s)
        in case slot of
             None \<Rightarrow> Some (s\<lparr>ks_slot := None, ks_next := None\<rparr>)
           | Some t \<Rightarrow> do {
               at \<leftarrow> (if 0 < ks_jitter s then add_minutes k t j else Some t);
               Some (s\<lparr>ks_slot := Some t, ks_next := Some at\<rparr>)
             })"

definition schedule_next_interval :: "clock \<Rightarrow> int \<Rightarrow> int \<Rightarrow> scheduler \<Rightarrow> scheduler option" where
  "schedule_next_interval k j after s =
     (case ks_interval s of
        None \<Rightarrow> Some (s\<lparr>ks_next_interval := None\<rparr>)
      | Some interval \<Rightarrow> do {
          at \<leftarrow> add_minutes k after (as_i64 interval);
          at \<leftarrow> (if 0 < ks_jitter s then add_minutes k at j else Some at);
          Some (s\<lparr>ks_next_interval := Some at\<rparr>)
        })"

definition refresh_schedules :: "clock \<Rightarrow> draws \<Rightarrow> int \<Rightarrow> scheduler \<Rightarrow> scheduler option" where
  "refresh_schedules k js now s = do {
     s \<leftarrow> (if ks_times s \<noteq> [] \<and> ks_next s = None then schedule_next_checkin k (fst js) now s else Some s);
     (if ks_interval s \<noteq> None \<and> ks_next_interval s = None then schedule_next_interval k (snd js) now s else Some s)
   }"

definition idle :: "scheduler \<Rightarrow> bool" where
  "idle s \<longleftrightarrow> \<not> ks_enabled s \<or> ks_times s = [] \<and> ks_interval s = None"

definition reached :: "int \<Rightarrow> int option \<Rightarrow> bool" where
  "reached now at \<longleftrightarrow> (case at of None \<Rightarrow> False | Some t \<Rightarrow> t \<le> now)"

definition slot_due :: "int \<Rightarrow> scheduler \<Rightarrow> bool" where
  "slot_due now s \<longleftrightarrow> ks_times s \<noteq> [] \<and> reached now (ks_next s)"

definition interval_due :: "int \<Rightarrow> scheduler \<Rightarrow> bool" where
  "interval_due now s \<longleftrightarrow> ks_interval s \<noteq> None \<and> reached now (ks_next_interval s)"

definition should_checkin_at :: "clock \<Rightarrow> draws \<Rightarrow> int \<Rightarrow> scheduler \<Rightarrow> (bool \<times> scheduler) option" where
  "should_checkin_at k js now s =
     (if idle s then Some (False, s)
      else do { s \<leftarrow> refresh_schedules k js now s; Some (slot_due now s \<or> interval_due now s, s) })"

definition get_next_checkin_time :: "clock \<Rightarrow> draws \<Rightarrow> int \<Rightarrow> scheduler \<Rightarrow> (int option \<times> scheduler) option" where
  "get_next_checkin_time k js now s =
     (if idle s then Some (None, s)
      else do {
        s \<leftarrow> refresh_schedules k js now s;
        Some (case (ks_next s, ks_next_interval s) of
                (None, None) \<Rightarrow> None | (Some a, None) \<Rightarrow> Some a | (None, Some b) \<Rightarrow> Some b
              | (Some a, Some b) \<Rightarrow> Some (min a b), s)
      })"

definition mark_checkin_done_at :: "clock \<Rightarrow> draws \<Rightarrow> int \<Rightarrow> draws \<Rightarrow> int \<Rightarrow> scheduler \<Rightarrow> scheduler option" where
  "mark_checkin_done_at k js now js' now' s = do {
     s \<leftarrow> (if slot_due now s then schedule_next_checkin k (fst js) now (s\<lparr>ks_fired := ks_slot s\<rparr>) else Some s);
     s \<leftarrow> (if ks_interval s \<noteq> None then schedule_next_interval k (snd js) now s else Some s);
     map_option snd (get_next_checkin_time k js' now' s)
   }"

definition reconfigure :: "clock \<Rightarrow> draws \<Rightarrow> int \<Rightarrow> checkin_config \<Rightarrow> scheduler \<Rightarrow> scheduler option" where
  "reconfigure k js now c s =
     refresh_schedules k js now (s\<lparr>ks_times := parse_times (cc_times c), ks_interval := cc_interval c,
       ks_jitter := as_i32 (cc_jitter c), ks_enabled := cc_enabled c,
       ks_slot := None, ks_next := None, ks_next_interval := None\<rparr>)"

section \<open>Runs\<close>

text \<open>What happens to a scheduler under its lock. \<open>Marks\<close> is the end of a check-in; the slot that it settles, if
  any, joins the trace.\<close>

datatype checkin_event =
    Asks draws int
  | Marks draws int draws int
  | Reconfigures draws int checkin_config
  | AsksNext draws int

fun checkin_next :: "clock \<Rightarrow> checkin_event \<Rightarrow> scheduler \<Rightarrow> scheduler option" where
  "checkin_next k (Asks js now) s = map_option snd (should_checkin_at k js now s)"
| "checkin_next k (Marks js now js' now') s = mark_checkin_done_at k js now js' now' s"
| "checkin_next k (Reconfigures js now c) s = reconfigure k js now c s"
| "checkin_next k (AsksNext js now) s = map_option snd (get_next_checkin_time k js now s)"

fun settled_slot :: "checkin_event \<Rightarrow> scheduler \<Rightarrow> int list" where
  "settled_slot (Marks js now js' now') s = (if slot_due now s then (case ks_slot s of None \<Rightarrow> [] | Some t \<Rightarrow> [t]) else [])"
| "settled_slot _ s = []"

text \<open>A run from \<open>s\<close>: the slots it settles and its last state; \<open>None\<close> if the code panics.\<close>

fun checkin_run :: "clock \<Rightarrow> checkin_event list \<Rightarrow> scheduler \<Rightarrow> (int list \<times> scheduler) option" where
  "checkin_run k [] s = Some ([], s)"
| "checkin_run k (e # es) s = do {
     t \<leftarrow> checkin_next k e s;
     (slots, u) \<leftarrow> checkin_run k es t;
     Some (settled_slot e s @ slots, u)
   }"

section \<open>A slot is settled once\<close>

lemma first_later_Some:
  "first_later k today time ts = Some u \<Longrightarrow> \<exists>t \<in> set ts. time < t \<and> resolve k (today * day_ns + t) = Some u"
  by (induction ts) (auto split: if_splits option.splits)

definition times_ok :: "int list \<Rightarrow> bool" where
  "times_ok ts \<longleftrightarrow> list_all (\<lambda>t. 0 \<le> t \<and> t < day_ns) ts"

lemma next_slot_later:
  assumes k: "clock_ok k" and ts: "ts \<noteq> []" "times_ok ts" and slot: "next_slot k after ts = Some u"
  shows "after < u"
proof -
  let ?l = "to_local k after"
  have split: "?l = ?l div day_ns * day_ns + ?l mod day_ns" by simp
  have mod: "?l mod day_ns < day_ns" "0 < day_ns" by (simp_all add: day_ns_def)
  consider t where "?l mod day_ns < t" "resolve k (?l div day_ns * day_ns + t) = Some u"
    | "resolve k ((?l div day_ns + 1) * day_ns + hd ts) = Some u"
    using slot first_later_Some [of k "?l div day_ns" "?l mod day_ns" ts]
    by (auto simp: next_slot_def Let_def split: option.splits)
  then show ?thesis
  proof cases
    case 1
    then have "?l < ?l div day_ns * day_ns + t" using split by linarith
    with 1 k show ?thesis by (auto simp: clock_ok_def)
  next
    case 2
    have "0 \<le> hd ts" using ts by (cases ts) (auto simp: times_ok_def)
    moreover have "(?l div day_ns + 1) * day_ns = ?l div day_ns * day_ns + day_ns" by (simp add: algebra_simps)
    ultimately have "?l < (?l div day_ns + 1) * day_ns + hd ts" using split mod by linarith
    with 2 k show ?thesis by (auto simp: clock_ok_def)
  qed
qed

lemma from_hm_range: "from_hm h m = Some t \<Longrightarrow> 0 \<le> t \<and> t < day_ns"
  by (auto simp: from_hm_def day_ns_def split: if_splits)

lemma parse_time_range: "parse_time s = Some t \<Longrightarrow> 0 \<le> t \<and> t < day_ns"
  by (auto simp: parse_time_def dest: from_hm_range split: list.splits option.splits)

lemma parse_times_ok: "times_ok (parse_times ts)"
  by (auto simp: times_ok_def parse_times_def list_all_iff map_filter_def dest: parse_time_range)

text \<open>The invariant: the slot that is waited for comes after the settled one.\<close>

definition scheduler_ok :: "scheduler \<Rightarrow> bool" where
  "scheduler_ok s \<longleftrightarrow> times_ok (ks_times s) \<and> (ks_slot s = None \<longleftrightarrow> ks_next s = None) \<and>
     (case (ks_fired s, ks_slot s) of (Some f, Some t) \<Rightarrow> f < t | _ \<Rightarrow> True)"

lemma schedule_next_checkin_ok:
  assumes "clock_ok k" "times_ok (ks_times s)" "schedule_next_checkin k j after s = Some t"
  shows "scheduler_ok t \<and> ks_fired t = ks_fired s"
  using assms next_slot_later [OF assms(1) _ assms(2)]
  by (fastforce simp: schedule_next_checkin_def scheduler_ok_def Let_def split: if_splits option.splits bind_splits)

lemma schedule_next_interval_ok:
  "schedule_next_interval k j after s = Some t \<Longrightarrow> scheduler_ok t = scheduler_ok s \<and> ks_fired t = ks_fired s"
  by (auto simp: schedule_next_interval_def scheduler_ok_def split: if_splits option.splits bind_splits)

lemma refresh_schedules_ok:
  assumes k: "clock_ok k" and s: "scheduler_ok s" and t: "refresh_schedules k js now s = Some t"
  shows "scheduler_ok t \<and> ks_fired t = ks_fired s"
proof -
  obtain m where m: "(if ks_times s \<noteq> [] \<and> ks_next s = None then schedule_next_checkin k (fst js) now s else Some s) = Some m"
    "(if ks_interval m \<noteq> None \<and> ks_next_interval m = None then schedule_next_interval k (snd js) now m else Some m) = Some t"
    using t by (auto simp: refresh_schedules_def split: bind_splits)
  have "scheduler_ok m \<and> ks_fired m = ks_fired s"
    using m(1) s schedule_next_checkin_ok [OF k, of s "fst js" now m] by (auto simp: scheduler_ok_def split: if_splits)
  then show ?thesis using m(2) schedule_next_interval_ok [of k "snd js" now m t] by (auto split: if_splits)
qed

lemma get_next_ok:
  assumes "clock_ok k" "scheduler_ok s" "get_next_checkin_time k js now s = Some (r, t)"
  shows "scheduler_ok t \<and> ks_fired t = ks_fired s"
  using assms refresh_schedules_ok [OF assms(1,2)]
  by (auto simp: get_next_checkin_time_def split: if_splits bind_splits)

lemma should_checkin_ok:
  assumes "clock_ok k" "scheduler_ok s" "should_checkin_at k js now s = Some (r, t)"
  shows "scheduler_ok t \<and> ks_fired t = ks_fired s"
  using assms refresh_schedules_ok [OF assms(1,2)]
  by (auto simp: should_checkin_at_def split: if_splits bind_splits)

lemma mark_ok:
  assumes k: "clock_ok k" and s: "scheduler_ok s" and t: "mark_checkin_done_at k js now js' now' s = Some t"
  shows "scheduler_ok t \<and> ks_fired t = (if slot_due now s then ks_slot s else ks_fired s)"
proof -
  obtain a b r where steps:
    "(if slot_due now s then schedule_next_checkin k (fst js) now (s\<lparr>ks_fired := ks_slot s\<rparr>) else Some s) = Some a"
    "(if ks_interval a \<noteq> None then schedule_next_interval k (snd js) now a else Some a) = Some b"
    "get_next_checkin_time k js' now' b = Some (r, t)"
    using t by (auto simp: mark_checkin_done_at_def split: bind_splits)
  have "scheduler_ok a \<and> ks_fired a = (if slot_due now s then ks_slot s else ks_fired s)"
    using steps(1) s schedule_next_checkin_ok [OF k, of "s\<lparr>ks_fired := ks_slot s\<rparr>" "fst js" now a]
    by (auto simp: scheduler_ok_def split: if_splits)
  then have "scheduler_ok b \<and> ks_fired b = (if slot_due now s then ks_slot s else ks_fired s)"
    using steps(2) schedule_next_interval_ok [of k "snd js" now a b] by (auto split: if_splits)
  then show ?thesis using get_next_ok [OF k _ steps(3)] by auto
qed

lemma reconfigure_ok:
  assumes k: "clock_ok k" and t: "reconfigure k js now c s = Some t"
  shows "scheduler_ok t \<and> ks_fired t = ks_fired s"
proof -
  let ?s = "s\<lparr>ks_times := parse_times (cc_times c), ks_interval := cc_interval c, ks_jitter := as_i32 (cc_jitter c),
    ks_enabled := cc_enabled c, ks_slot := None, ks_next := None, ks_next_interval := None\<rparr>"
  have "scheduler_ok ?s" by (simp add: scheduler_ok_def parse_times_ok split: option.splits)
  from refresh_schedules_ok [OF k this] t show ?thesis by (simp add: reconfigure_def)
qed

lemma settles_due: "scheduler_ok s \<Longrightarrow> slot_due now s \<Longrightarrow> \<exists>t. ks_slot s = Some t"
  by (auto simp: scheduler_ok_def slot_due_def reached_def split: option.splits)

lemma checkin_next_ok:
  assumes k: "clock_ok k" and s: "scheduler_ok s" and t: "checkin_next k e s = Some t"
  shows "scheduler_ok t"
    and "settled_slot e s = [] \<and> ks_fired t = ks_fired s \<or>
         (\<exists>slot. settled_slot e s = [slot] \<and> ks_slot s = Some slot \<and> ks_fired t = Some slot)"
proof -
  have "scheduler_ok t \<and> (settled_slot e s = [] \<and> ks_fired t = ks_fired s \<or>
         (\<exists>slot. settled_slot e s = [slot] \<and> ks_slot s = Some slot \<and> ks_fired t = Some slot))"
  proof (cases e)
    case (Asks js now)
    then show ?thesis using t should_checkin_ok [OF k s, of js now] by auto
  next
    case (Marks js now js' now')
    then show ?thesis using t mark_ok [OF k s, of js now js' now' t] settles_due [OF s, of now] by auto
  next
    case (Reconfigures js now c)
    then show ?thesis using t reconfigure_ok [OF k, of js now c s t] by auto
  next
    case (AsksNext js now)
    then show ?thesis using t get_next_ok [OF k s, of js now] by auto
  qed
  then show "scheduler_ok t" "settled_slot e s = [] \<and> ks_fired t = ks_fired s \<or>
      (\<exists>slot. settled_slot e s = [slot] \<and> ks_slot s = Some slot \<and> ks_fired t = Some slot)" by auto
qed

definition settled_after :: "int option \<Rightarrow> int list \<Rightarrow> bool" where
  "settled_after fired slots \<longleftrightarrow> sorted_wrt (<) slots \<and> (case fired of None \<Rightarrow> True | Some f \<Rightarrow> list_all (\<lambda>t. f < t) slots)"

lemma checkin_run_settles:
  assumes k: "clock_ok k"
  shows "scheduler_ok s \<Longrightarrow> checkin_run k es s = Some (slots, u) \<Longrightarrow> settled_after (ks_fired s) slots"
proof (induction es arbitrary: s slots)
  case (Cons e es)
  obtain t later where t: "checkin_next k e s = Some t" and later: "checkin_run k es t = Some (later, u)"
    and slots: "slots = settled_slot e s @ later"
    using Cons.prems(2) by (auto split: bind_splits prod.splits)
  have ok: "scheduler_ok t" by (rule checkin_next_ok(1) [OF k Cons.prems(1) t])
  have rest: "settled_after (ks_fired t) later" by (rule Cons.IH [OF ok later])
  show ?case
    using checkin_next_ok(2) [OF k Cons.prems(1) t] rest Cons.prems(1) slots
    by (auto simp: settled_after_def scheduler_ok_def list_all_iff split: option.splits)
qed (simp add: settled_after_def split: option.splits)

text \<open>C35: A check-in slot is settled once, and the slots are settled in their order: whatever the jitter, the
  intervals, the reconfigurations and the times at which the scheduler is asked, each slot that a finished
  check-in settles comes after every slot settled before it. In particular a check-in that was drawn early
  does not fire a second time at its slot, and a configuration saved in between does not bring it back.\<close>

theorem checkin_slots_are_settled_once:
  assumes "clock_ok k" "checkin_run k es (new_scheduler c) = Some (slots, u)"
  shows "sorted_wrt (<) slots"
proof -
  have "scheduler_ok (new_scheduler c)" by (simp add: new_scheduler_def scheduler_ok_def parse_times_ok)
  from checkin_run_settles [OF assms(1) this assms(2)] show ?thesis by (simp add: settled_after_def)
qed

text \<open>A fixed zone one hour east, one slot at nine, drawn three minutes early and saved again at once.\<close>

definition sample_clock :: clock where
  "sample_clock = \<lparr>to_local = (\<lambda>u. u + minutes 60), resolve = (\<lambda>l. Some (l - minutes 60)), last_instant = minutes 100000000\<rparr>"

definition sample_checkins :: checkin_config where
  "sample_checkins = \<lparr>cc_times = [lit ''09:00'', lit ''9'', lit ''25:00''], cc_interval = None, cc_jitter = 5, cc_enabled = True\<rparr>"

lemma sample_times: "parse_times (cc_times sample_checkins) = [minutes 540]"
  by (simp add: parse_times_def parse_time_def sample_checkins_def lit_def parse_u32_def digits_value_def is_ascii_digit_def
      from_hm_def minutes_def List.map_filter_def)

definition sample_events :: "checkin_event list" where
  "sample_events = [AsksNext (- 3, 0) (minutes 470), Asks (0, 0) (minutes 477), Marks (5, 0) (minutes 477) (0, 0) (minutes 477),
     Reconfigures (4, 0) (minutes 478) sample_checkins, Asks (0, 0) (minutes 480), Marks (0, 0) (minutes 1924) (0, 0) (minutes 1924)]"

lemmas scheduler_defs = refresh_schedules_def schedule_next_checkin_def schedule_next_interval_def get_next_checkin_time_def
  should_checkin_at_def mark_checkin_done_at_def reconfigure_def next_slot_def add_minutes_def idle_def slot_due_def
  interval_due_def reached_def

lemma sample_clock_ok: "clock_ok sample_clock"
  by (simp add: clock_ok_def sample_clock_def)

lemma sample_checkin_run:
  "map_option fst (checkin_run sample_clock sample_events (new_scheduler sample_checkins)) = Some [minutes 480, minutes 1920]"
proof -
  have jitter: "as_i32 5 = 5" by (simp add: as_i32_def)
  have fields: "cc_interval sample_checkins = None" "cc_jitter sample_checkins = 5" "cc_enabled sample_checkins"
    by (simp_all add: sample_checkins_def)
  show ?thesis
    by (simp add: sample_events_def new_scheduler_def sample_times fields jitter scheduler_defs sample_clock_def minutes_def
        day_ns_def Let_def)
qed

theorem checkin_slots_are_settled_once_witness:
  "\<exists>u. checkin_run sample_clock sample_events (new_scheduler sample_checkins) = Some ([minutes 480, minutes 1920], u) \<and>
       sorted_wrt (<) [minutes 480, minutes 1920]"
proof -
  from sample_checkin_run obtain u where
    "checkin_run sample_clock sample_events (new_scheduler sample_checkins) = Some ([minutes 480, minutes 1920], u)"
    by auto
  with checkin_slots_are_settled_once [OF sample_clock_ok this] show ?thesis by blast
qed

section \<open>The interval is not bounded\<close>

lemma add_minutes_None: "2 ^ 63 - 1 < n * 60 * 1000 \<Longrightarrow> add_minutes k at n = None"
  by (auto simp: add_minutes_def)

lemma as_i64_id: "n < 2 ^ 63 \<Longrightarrow> as_i64 n = int n"
  by (simp add: as_i64_def)

lemma refresh_panics:
  assumes "ks_interval s = Some n" "n < 2 ^ 63" "2 ^ 63 - 1 < int n * 60 * 1000" "ks_next_interval s = None"
  shows "refresh_schedules k js now s = None"
proof -
  have "schedule_next_interval k j now t = None" if "ks_interval t = Some n" for j t
    using assms that by (simp add: schedule_next_interval_def as_i64_id add_minutes_None)
  moreover have "ks_interval t = Some n \<and> ks_next_interval t = None" if "schedule_next_checkin k j now s = Some t" for j t
    using that assms by (auto simp: schedule_next_checkin_def Let_def split: if_splits option.splits bind_splits)
  ultimately show ?thesis using assms by (auto simp: refresh_schedules_def split: bind_split)
qed

text \<open>An interval of more than \<open>i64::MAX\<close> milliseconds, which the configuration accepts, stops the program: the
  reconfiguration that follows the saved change panics, also while check-ins are disabled, and with check-ins
  enabled so does the first thing the session asks when it starts again, the next check-in.\<close>

theorem oversized_interval_panics:
  assumes "cc_interval c = Some n" "n < 2 ^ 63" "2 ^ 63 - 1 < int n * 60 * 1000"
  shows "reconfigure k js now c s = None \<and>
    (cc_enabled c \<longrightarrow> get_next_checkin_time k js now (new_scheduler c) = None)"
  using assms by (simp add: reconfigure_def get_next_checkin_time_def idle_def new_scheduler_def refresh_panics)

theorem oversized_interval_panics_witness:
  "reconfigure sample_clock (0, 0) 0 \<lparr>cc_times = [], cc_interval = Some (10 ^ 17), cc_jitter = 5, cc_enabled = True\<rparr>
     (new_scheduler sample_checkins) = None"
  using oversized_interval_panics [of "\<lparr>cc_times = [], cc_interval = Some (10 ^ 17), cc_jitter = 5, cc_enabled = True\<rparr>"
      "10 ^ 17" sample_clock "(0, 0)" 0 "new_scheduler sample_checkins"] by simp

end
