(* ===== verification/Screen_Captures.thy ===== *)
theory Screen_Captures
  imports Memory_File Connections
begin

text \<open>
  What BoBe learns from the screen: \<open>src/BoBeService/src/runtime/capture_learner.rs\<close> and the capture cycle
  of \<open>runtime/triggers/capture_trigger.rs\<close>. The answer of the body, the answer of the model that describes
  the screen, and the outcome of the write to the memory file are arguments of a cycle; SHA-256 is a
  parameter. Instants are nanoseconds of a clock that does not run backwards.
\<close>

section \<open>The description of a screen\<close>

text \<open>\<open>ActivityDescription\<close>: an object, or a sequence, whose field may be missing.\<close>

definition describe :: "json \<Rightarrow> rtext" where
  "describe output =
     (case output of
        JStr t \<Rightarrow> t
      | JObj members \<Rightarrow> (case map_of members ''description'' of Some (JStr t) \<Rightarrow> t | _ \<Rightarrow> [])
      | JArr [JStr t] \<Rightarrow> t
      | _ \<Rightarrow> [])"

text \<open>The answer of the worker: its output, and the error it may report.\<close>

definition learn ::
  "write_outcome \<Rightarrow> rtext \<Rightarrow> bool \<Rightarrow> rtext \<Rightarrow> rtext option \<Rightarrow> app_error + json \<times> rtext option \<Rightarrow> memory_file \<Rightarrow>
     (app_error + rtext) \<times> memory_file" where
  "learn w date memory_enabled screen_text window answer m =
     (if trim screen_text = [] then (Inr [], m)
      else case answer of
          Inl e \<Rightarrow> (Inl (Capture ''screen activity inference failed''), m)
        | Inr (_, Some e) \<Rightarrow> (Inl (Capture ''screen activity inference failed''), m)
        | Inr (output, None) \<Rightarrow>
            let description = single_line (describe output) in
            if description = [] then (Inr [], m)
            else (Inr (truncate_str description DESCRIPTION_MAX_LEN),
                  snd (append_capture_memory w date memory_enabled description window m)))"

section \<open>The capture cycle\<close>

definition VISION_FAILURE_BREAKER_THRESHOLD :: nat where "VISION_FAILURE_BREAKER_THRESHOLD = 3"
definition VISION_FAILURE_COOLDOWN :: int where "VISION_FAILURE_COOLDOWN = 180 * 1000000000"

record capture_trigger =
  ct_context_count :: nat
  ct_previous :: "byte list option"
  ct_failures :: nat
  ct_tripped_at :: "int option"
  ct_announced :: bool

definition new_capture_trigger :: capture_trigger where
  "new_capture_trigger = \<lparr>ct_context_count = 0, ct_previous = None, ct_failures = 0, ct_tripped_at = None,
     ct_announced = False\<rparr>"

datatype notice = Paused | Restored

definition notice_text :: "notice \<Rightarrow> rtext" where
  "notice_text n = lit (case n of Paused \<Rightarrow> ''Screen awareness is paused because the screen could not be read.''
     | Restored \<Rightarrow> ''Screen awareness restored.'')"

definition notice_event :: "rtext \<Rightarrow> notice \<Rightarrow> stream_bundle" where
  "notice_event new_id n = trigger_error_event new_id (lit ''vision'') (notice_text n) True"

definition announce_vision_recovered :: "capture_trigger \<Rightarrow> notice list \<times> capture_trigger" where
  "announce_vision_recovered t =
     (let t1 = t\<lparr>ct_failures := 0, ct_tripped_at := None\<rparr>
      in if ct_announced t1 then ([Restored], t1\<lparr>ct_announced := False\<rparr>) else ([], t1))"

definition vision_breaker_open :: "int \<Rightarrow> capture_trigger \<Rightarrow> bool \<times> capture_trigger" where
  "vision_breaker_open now t =
     (case ct_tripped_at t of
        None \<Rightarrow> (False, t)
      | Some at \<Rightarrow> if VISION_FAILURE_COOLDOWN \<le> now - at then (False, t\<lparr>ct_tripped_at := None\<rparr>) else (True, t))"

definition fingerprint :: "(nat list \<Rightarrow> byte list) \<Rightarrow> screen_reading \<Rightarrow> byte list" where
  "fingerprint sha256 r = sha256 (as_bytes (sr_text r) @ [0] @
     as_bytes (case sr_application r of None \<Rightarrow> [] | Some a \<Rightarrow> a) @ [0] @
     as_bytes (case sr_window_title r of None \<Rightarrow> [] | Some w \<Rightarrow> w))"

text \<open>What a failed inference does; the instant is read when it has failed.\<close>

definition vision_failed :: "int \<Rightarrow> capture_trigger \<Rightarrow> notice list \<times> capture_trigger" where
  "vision_failed now t =
     (let t1 = t\<lparr>ct_failures := Suc (ct_failures t)\<rparr> in
      if VISION_FAILURE_BREAKER_THRESHOLD \<le> ct_failures t1
      then (if ct_announced t1 then [] else [Paused], t1\<lparr>ct_tripped_at := Some now, ct_announced := True\<rparr>)
      else ([], t1))"

record capture_io =
  io_now :: int
  io_reading :: "body_request_error + screen_reading"
  io_answer :: "app_error + json \<times> rtext option"
  io_write :: write_outcome
  io_date :: rtext
  io_failed_at :: int

text \<open>A cycle: the description, the notices, whether the screen was described, and the new state.\<close>

record capture_result =
  cy_description :: "rtext option"
  cy_notices :: "notice list"
  cy_attempted :: bool

definition run_capture_cycle ::
  "(nat list \<Rightarrow> byte list) \<Rightarrow> bool \<Rightarrow> capture_io \<Rightarrow> capture_trigger \<times> memory_file \<Rightarrow>
     capture_result \<times> capture_trigger \<times> memory_file" where
  "run_capture_cycle sha256 memory_enabled io = (\<lambda>(t0, m).
     (let nothing = \<lparr>cy_description = None, cy_notices = [], cy_attempted = False\<rparr>;
          (open_now, t) = vision_breaker_open (io_now io) t0
      in if open_now then (nothing, t, m)
         else case io_reading io of
             Inl e \<Rightarrow> (nothing, t, m)
           | Inr reading \<Rightarrow>
               let print = fingerprint sha256 reading in
               if ct_previous t = Some print then (nothing, t, m)
               else (case learn (io_write io) (io_date io) memory_enabled (sr_text reading) (sr_application reading)
                       (io_answer io) m of
                   (Inr description, m1) \<Rightarrow>
                     let (notices, t1) = announce_vision_recovered (t\<lparr>ct_previous := Some print\<rparr>) in
                     if description = []
                     then (\<lparr>cy_description = None, cy_notices = notices, cy_attempted = True\<rparr>, t1, m1)
                     else (\<lparr>cy_description = Some description, cy_notices = notices, cy_attempted = True\<rparr>,
                           t1\<lparr>ct_context_count := Suc (ct_context_count t1)\<rparr>, m1)
                 | (Inl e, m1) \<Rightarrow>
                     let (notices, t1) = vision_failed (io_failed_at io) t
                     in (\<lparr>cy_description = None, cy_notices = notices, cy_attempted = True\<rparr>, t1, m1))))"

section \<open>Runs of cycles\<close>

text \<open>The notices of a run, and the attempts to describe a screen: when each began, when it failed, if it did.\<close>

type_synonym attempt = "int \<times> int option"

definition attempt_of :: "capture_io \<Rightarrow> capture_trigger \<Rightarrow> capture_trigger \<Rightarrow> attempt" where
  "attempt_of io t t1 = (io_now io, if ct_failures t1 = 0 then None else Some (io_failed_at io))"

fun capture_run ::
  "(nat list \<Rightarrow> byte list) \<Rightarrow> bool \<Rightarrow> capture_io list \<Rightarrow> capture_trigger \<times> memory_file \<Rightarrow>
     notice list \<times> attempt list \<times> capture_trigger \<times> memory_file" where
  "capture_run sha256 memory_enabled [] s = ([], [], s)"
| "capture_run sha256 memory_enabled (io # ios) s =
     (let (r, t1, m1) = run_capture_cycle sha256 memory_enabled io s;
          (notices, attempts, u) = capture_run sha256 memory_enabled ios (t1, m1)
      in (cy_notices r @ notices,
          (if cy_attempted r then [attempt_of io (fst s) t1] else []) @ attempts, u))"

text \<open>Time does not run backwards.\<close>

fun forward :: "int \<Rightarrow> capture_io list \<Rightarrow> bool" where
  "forward now [] = True"
| "forward now (io # ios) = (now \<le> io_now io \<and> io_now io \<le> io_failed_at io \<and> forward (io_failed_at io) ios)"

text \<open>Notices that alternate, the next one being \<open>n\<close>.\<close>

fun alternate :: "notice \<Rightarrow> notice list \<Rightarrow> bool" where
  "alternate n [] = True"
| "alternate n (x # xs) = (x = n \<and> alternate (if n = Paused then Restored else Paused) xs)"

lemma cycle_notices:
  "run_capture_cycle sha256 en io (t, m) = (r, t1, m1) \<Longrightarrow>
     cy_notices r = [] \<and> ct_announced t1 = ct_announced t \<or>
     cy_notices r = [Restored] \<and> ct_announced t \<and> \<not> ct_announced t1 \<or>
     cy_notices r = [Paused] \<and> \<not> ct_announced t \<and> ct_announced t1"
  by (auto simp: run_capture_cycle_def vision_breaker_open_def announce_vision_recovered_def vision_failed_def Let_def
      split: if_splits prod.splits sum.splits option.splits)

lemma run_notices: "capture_run sha256 en ios (t, m) = (notices, attempts, u) \<Longrightarrow>
    alternate (if ct_announced t then Restored else Paused) notices"
proof (induction ios arbitrary: t m notices attempts)
  case (Cons io ios)
  obtain r t1 m1 where r: "run_capture_cycle sha256 en io (t, m) = (r, t1, m1)" by (metis prod_cases3)
  obtain ns as where rest: "capture_run sha256 en ios (t1, m1) = (ns, as, u)" and "notices = cy_notices r @ ns"
    using Cons.prems r by (auto split: prod.splits)
  with Cons.IH [OF rest] cycle_notices [OF r] show ?case by (auto split: if_splits)
qed simp

text \<open>Attempts that rest: after \<open>k\<close> failures in a row, the last at \<open>failed\<close>, the next attempt waits if \<open>k\<close> has
  reached the threshold.\<close>

fun rests :: "nat \<Rightarrow> int \<Rightarrow> attempt list \<Rightarrow> bool" where
  "rests k failed [] = True"
| "rests k failed ((at, outcome) # attempts) =
     ((VISION_FAILURE_BREAKER_THRESHOLD \<le> k \<longrightarrow> failed + VISION_FAILURE_COOLDOWN \<le> at) \<and>
      (case outcome of None \<Rightarrow> rests 0 at attempts | Some f \<Rightarrow> rests (Suc k) f attempts))"

definition breaker_ok :: "int \<Rightarrow> int \<Rightarrow> capture_trigger \<Rightarrow> bool" where
  "breaker_ok now failed t \<longleftrightarrow>
     (if VISION_FAILURE_BREAKER_THRESHOLD \<le> ct_failures t
      then ct_tripped_at t = Some failed \<or> ct_tripped_at t = None \<and> failed + VISION_FAILURE_COOLDOWN \<le> now
      else ct_tripped_at t = None)"

text \<open>What a cycle does to the breaker: nothing, or an attempt that the breaker permits.\<close>

lemma cycle_breaker:
  assumes r: "run_capture_cycle sha256 en io (t, m) = (r, t1, m1)" and ok: "breaker_ok now failed t"
    and time: "now \<le> io_now io" "io_now io \<le> io_failed_at io"
  shows "\<not> cy_attempted r \<and> ct_failures t1 = ct_failures t \<and> breaker_ok (io_failed_at io) failed t1 \<or>
    cy_attempted r \<and> (VISION_FAILURE_BREAKER_THRESHOLD \<le> ct_failures t \<longrightarrow> failed + VISION_FAILURE_COOLDOWN \<le> io_now io) \<and>
      (ct_failures t1 = 0 \<and> (\<forall>f. breaker_ok (io_failed_at io) f t1) \<or>
       ct_failures t1 = Suc (ct_failures t) \<and> breaker_ok (io_failed_at io) (io_failed_at io) t1)"
proof -
  obtain open_now t2 where b: "vision_breaker_open (io_now io) t = (open_now, t2)" by fastforce
  have t2: "ct_failures t2 = ct_failures t"
    "open_now \<Longrightarrow> breaker_ok (io_failed_at io) failed t2"
    "\<not> open_now \<Longrightarrow> ct_tripped_at t2 = None \<and>
       (VISION_FAILURE_BREAKER_THRESHOLD \<le> ct_failures t \<longrightarrow> failed + VISION_FAILURE_COOLDOWN \<le> io_now io)"
    using b ok time by (auto simp: vision_breaker_open_def breaker_ok_def split: option.splits if_splits)
  show ?thesis
  proof (cases open_now)
    case True
    then show ?thesis using r b t2 by (auto simp: run_capture_cycle_def)
  next
    case False
    note free = t2(3) [OF False]
    have same: "breaker_ok (io_failed_at io) failed t2"
      using free t2(1) time by (auto simp: breaker_ok_def)
    show ?thesis
      using r b False free same t2(1)
      by (auto simp: run_capture_cycle_def Let_def announce_vision_recovered_def vision_failed_def breaker_ok_def
          VISION_FAILURE_BREAKER_THRESHOLD_def split: if_splits prod.splits sum.splits)
  qed
qed

lemma run_rests:
  "capture_run sha256 en ios (t, m) = (notices, attempts, u) \<Longrightarrow> forward now ios \<Longrightarrow> breaker_ok now failed t \<Longrightarrow>
     rests (ct_failures t) failed attempts"
proof (induction ios arbitrary: t m notices attempts now failed)
  case (Cons io ios)
  obtain r t1 m1 where r: "run_capture_cycle sha256 en io (t, m) = (r, t1, m1)" by (metis prod_cases3)
  obtain ns as where rest: "capture_run sha256 en ios (t1, m1) = (ns, as, u)"
    and attempts: "attempts = (if cy_attempted r then [attempt_of io t t1] else []) @ as"
    using Cons.prems(1) r by (auto split: prod.splits)
  have time: "now \<le> io_now io" "io_now io \<le> io_failed_at io" "forward (io_failed_at io) ios" using Cons.prems(2) by auto
  note IH = Cons.IH [OF rest time(3)]
  from cycle_breaker [OF r Cons.prems(3) time(1,2)] show ?case
  proof (elim disjE conjE)
    assume "\<not> cy_attempted r" "ct_failures t1 = ct_failures t" "breaker_ok (io_failed_at io) failed t1"
    then show ?thesis using IH [of failed] attempts by simp
  next
    assume a: "cy_attempted r" "VISION_FAILURE_BREAKER_THRESHOLD \<le> ct_failures t \<longrightarrow> failed + VISION_FAILURE_COOLDOWN \<le> io_now io"
      "ct_failures t1 = 0" "\<forall>f. breaker_ok (io_failed_at io) f t1"
    then show ?thesis using IH [of "io_now io"] attempts by (simp add: attempt_of_def)
  next
    assume a: "cy_attempted r" "VISION_FAILURE_BREAKER_THRESHOLD \<le> ct_failures t \<longrightarrow> failed + VISION_FAILURE_COOLDOWN \<le> io_now io"
      "ct_failures t1 = Suc (ct_failures t)" "breaker_ok (io_failed_at io) (io_failed_at io) t1"
    then show ?thesis using IH [of "io_failed_at io"] attempts by (simp add: attempt_of_def)
  qed
qed simp

text \<open>The screen is left alone when it cannot be described: in every run of capture cycles, after three failures
  in a row and after each further one no screen is sent to the model for three minutes, until a description
  succeeds; and the owner is told once that screen awareness is paused and once that it is restored, in
  turn, never twice the same.\<close>

theorem failing_captures_rest:
  assumes "capture_run sha256 en ios (new_capture_trigger, m) = (notices, attempts, u)" "forward now ios"
  shows "rests 0 now attempts \<and> alternate Paused notices"
proof -
  have "breaker_ok now now new_capture_trigger"
    by (simp add: breaker_ok_def new_capture_trigger_def VISION_FAILURE_BREAKER_THRESHOLD_def)
  from run_rests [OF assms this] run_notices [OF assms(1)] show ?thesis by (simp add: new_capture_trigger_def)
qed

definition sample_capture :: "int \<Rightarrow> nat \<Rightarrow> app_error + json \<times> rtext option \<Rightarrow> capture_io" where
  "sample_capture at c answer = \<lparr>io_now = at * 1000000000,
     io_reading = Inr \<lparr>sr_text = [c], sr_application = None, sr_window_title = None\<rparr>,
     io_answer = answer, io_write = Written, io_date = [], io_failed_at = (at + 1) * 1000000000\<rparr>"

definition sample_captures :: "capture_io list" where
  "sample_captures = [sample_capture 0 97 (Inl (Network ''down'')), sample_capture 10 98 (Inr (JNull, Some [33])),
     sample_capture 20 98 (Inl (Network ''down'')), sample_capture 30 99 (Inl (Network ''down'')),
     sample_capture 201 98 (Inr (JObj [(''description'', JStr [82])], None))]"

abbreviation secs :: "int \<Rightarrow> int" where "secs n \<equiv> n * 1000000000"

lemma sample_capture_run:
  "capture_run (map of_nat) False sample_captures (new_capture_trigger, m) =
     ([Paused, Restored], [(secs 0, Some (secs 1)), (secs 10, Some (secs 11)), (secs 20, Some (secs 21)), (secs 201, None)],
      \<lparr>ct_context_count = 1, ct_previous = Some [98, 0, 0], ct_failures = 0, ct_tripped_at = None, ct_announced = False\<rparr>, m)"
proof -
  have one: "single_line [82] = [82]" by (simp add: single_line_def is_control_def is_whitespace_def)
  have trims: "trim [97] \<noteq> []" "trim [98] \<noteq> []" "trim [99] \<noteq> []"
    by (simp_all add: trim_def trim_start_def trim_end_def is_whitespace_def)
  show ?thesis
    by (simp add: sample_captures_def sample_capture_def new_capture_trigger_def run_capture_cycle_def vision_breaker_open_def
        vision_failed_def announce_vision_recovered_def learn_def describe_def one trims attempt_of_def fingerprint_def
        as_bytes_def utf8_char_def VISION_FAILURE_BREAKER_THRESHOLD_def VISION_FAILURE_COOLDOWN_def DESCRIPTION_MAX_LEN_def
        append_capture_memory_def truncate_str_def utf8_len_def)
qed

theorem failing_captures_rest_witness:
  "rests 0 0 [(secs 0, Some (secs 1)), (secs 10, Some (secs 11)), (secs 20, Some (secs 21)), (secs 201, None)] \<and>
   alternate Paused [Paused, Restored]"
  by (rule failing_captures_rest [OF sample_capture_run]) (simp add: sample_captures_def sample_capture_def)

end
