(* ===== verification/Proactive_Turns.thy ===== *)
theory Proactive_Turns
  imports Checkins Screen_Captures Turn_Admission Conversation_Steps Run_Registry Reply_Streaming Goal_Documents
begin

text \<open>
  BoBe reaching out: \<open>src/BoBeService/src/runtime/proactive_generator.rs\<close>, and the two triggers that ask for it,
  \<open>runtime/triggers/checkin_trigger.rs\<close> and \<open>CaptureTrigger::fire\<close>. It composes the cooldown (theory
  Cooldowns), the admission of turns, the connections, the conversations, the registry of runs and the
  streaming of replies. The answers of the worker (whether to reach out, and the message) are arguments;
  between two awaits the rest of the program runs, so each part between awaits is one operation on the
  state it finds.
\<close>

section \<open>Whether it is time\<close>

datatype decision = Engage | Idle

record turn_config =
  tc_cooldown :: int
  tc_extended :: int
  tc_inactivity :: nat
  tc_auto_close :: int

text \<open>\<open>signed_duration_since\<close> in whole seconds, towards zero; \<open>i64::try_from(..).unwrap_or(i64::MAX)\<close>.\<close>

definition whole_seconds_between :: "int \<Rightarrow> int \<Rightarrow> int" where
  "whole_seconds_between now since =
     (let d = now - since in if 0 \<le> d then d div 1000000000 else - ((- d) div 1000000000))"

definition inactivity_timeout_elapsed :: "int \<Rightarrow> int \<Rightarrow> nat \<Rightarrow> bool" where
  "inactivity_timeout_elapsed now last_user_at timeout_seconds \<longleftrightarrow>
     min (int timeout_seconds) (2 ^ 63 - 1) \<le> whole_seconds_between now last_user_at"

record timely_io =
  ti_cooldown :: cooldown_io
  ti_now :: int
  ti_fresh :: uuid
  ti_turns_ok :: bool

definition activation_is_timely ::
  "timely_io \<Rightarrow> turn_config \<Rightarrow> database \<Rightarrow> cooldown_repo \<Rightarrow> bool \<times> cooldown_repo" where
  "activation_is_timely io cfg db r =
     (case check_cooldown (ti_cooldown io) (ti_now io) (ti_fresh io) (tc_cooldown cfg) (tc_extended cfg) r of
        (Inr None, r1) \<Rightarrow>
          (if \<not> ti_turns_ok io then False
           else case latest_user_turn_at db of
               Some at \<Rightarrow> inactivity_timeout_elapsed (ti_now io) at (tc_inactivity cfg)
             | None \<Rightarrow> True, r1)
      | (_, r1) \<Rightarrow> (False, r1))"

text \<open>\<open>admit_activation\<close>: the turn first, then the time again; a permit that comes too early is dropped.\<close>

definition admit_activation ::
  "timely_io \<Rightarrow> turn_config \<Rightarrow> database \<Rightarrow> turn_source \<Rightarrow> uuid \<Rightarrow> admission \<times> cooldown_repo \<Rightarrow>
     turn_permit option \<times> admission \<times> cooldown_repo" where
  "admit_activation io cfg db src channel = (\<lambda>(a, r).
     (case try_channel src channel None a of
        (None, a1) \<Rightarrow> (None, a1, r)
      | (Some permit, a1) \<Rightarrow>
          (case activation_is_timely io cfg db r of
             (True, r1) \<Rightarrow> (Some permit, a1, r1)
           | (False, r1) \<Rightarrow> (None, drop_permit permit a1, r1))))"

section \<open>Whether there is a reason\<close>

definition ACTIVATION_GOALS_MAX :: nat where "ACTIVATION_GOALS_MAX = 12"
definition GOAL_TITLE_MAX_BYTES :: nat where "GOAL_TITLE_MAX_BYTES = 140"
definition GOAL_SUMMARY_MAX_BYTES :: nat where "GOAL_SUMMARY_MAX_BYTES = 240"
definition REASON_MAX_BYTES :: nat where "REASON_MAX_BYTES = 600"

text \<open>\<open>ActivationDecision\<close>: an object, or a sequence; the reason may be missing.\<close>

definition activation_decision :: "json \<Rightarrow> (bool \<times> rtext) option" where
  "activation_decision output =
     (case output of
        JObj members \<Rightarrow>
          (case (map_of members ''activate'', map_of members ''reason'') of
             (Some (JBool b), None) \<Rightarrow> Some (b, [])
           | (Some (JBool b), Some (JStr r)) \<Rightarrow> Some (b, r)
           | _ \<Rightarrow> None)
      | JArr [JBool b] \<Rightarrow> Some (b, [])
      | JArr [JBool b, JStr r] \<Rightarrow> Some (b, r)
      | _ \<Rightarrow> None)"

definition reach_out_reason :: "bool \<times> rtext \<Rightarrow> rtext option" where
  "reach_out_reason d =
     (if fst d \<and> trim (snd d) \<noteq> [] then Some (truncate_str (trim (snd d)) REASON_MAX_BYTES) else None)"

definition goal_facts :: "(uuid \<Rightarrow> rtext) \<Rightarrow> goal_doc list \<Rightarrow> json list" where
  "goal_facts print_id goals = map (\<lambda>g. JObj
     [(''id'', JStr (print_id (gd_id g))),
      (''title'', JStr (truncate_str (gd_title g) GOAL_TITLE_MAX_BYTES)),
      (''status'', JStr (goal_status_text (gd_status g))),
      (''priority'', JNum (int (gd_priority g))),
      (''summary'', JStr (truncate_str (gd_summary g) GOAL_SUMMARY_MAX_BYTES))]) (take ACTIVATION_GOALS_MAX goals)"

definition turn_fact :: "conversation_turn \<Rightarrow> json" where
  "turn_fact t = JObj
     [(''role'', JStr (lit (case t_role t of UserRole \<Rightarrow> ''user'' | AssistantRole \<Rightarrow> ''assistant''))),
      (''content'', JStr (truncate_str (t_content t) 2000)), (''complete'', JBool (t_complete t))]"

definition evaluation_input ::
  "turn_source \<Rightarrow> rtext option \<Rightarrow> json \<Rightarrow> json list \<Rightarrow> conversation_turn list \<Rightarrow> json" where
  "evaluation_input src context profiles goals turns = JObj
     [(''source'', JStr (lit (turn_source_name src))),
      (''event_context'', JStr (case context of Some c \<Rightarrow> c | None \<Rightarrow> lit ''Scheduled check-in is due.'')),
      (''owner_profiles'', profiles), (''active_goals'', JArr goals), (''recent_turns'', JArr (map turn_fact turns))]"

definition evaluated_reason :: "app_error + json \<Rightarrow> rtext option" where
  "evaluated_reason answer =
     (case answer of Inl e \<Rightarrow> None
      | Inr output \<Rightarrow> (case activation_decision output of None \<Rightarrow> None | Some d \<Rightarrow> reach_out_reason d))"

definition proactive_prompt :: "(json \<Rightarrow> rtext) \<Rightarrow> turn_source \<Rightarrow> rtext \<Rightarrow> rtext" where
  "proactive_prompt json_text src reason = event_block json_text (lit ''bobe.proactive'')
     (JObj [(''source'', JStr (lit (turn_source_name src))), (''reason'', JStr reason)])"

section \<open>The turn\<close>

record reach_out_state =
  ro_admission :: admission
  ro_cooldown :: cooldown_repo
  ro_connections :: connection_state
  ro_service :: conversation_service
  ro_runs :: run_registry
  ro_in_flight :: bool

text \<open>Up to the evaluation: the time, the one activation at a time, and a body that shows the channel.\<close>

definition consider_reaching_out ::
  "(nat list \<Rightarrow> byte list) \<Rightarrow> timely_io \<Rightarrow> turn_config \<Rightarrow> turn_source \<Rightarrow> reach_out_state \<Rightarrow>
     uuid option \<times> reach_out_state" where
  "consider_reaching_out sha256 io cfg src s0 =
     (case activation_is_timely io cfg (store (ro_service s0)) (ro_cooldown s0) of
        (False, r) \<Rightarrow> (None, s0\<lparr>ro_cooldown := r\<rparr>)
      | (True, r) \<Rightarrow>
          let s = s0\<lparr>ro_cooldown := r\<rparr> in
          if ro_in_flight s then (None, s)
          else
            let preferred = (case get_latest_readable_conversation 1 None (store (ro_service s)) of
                  None \<Rightarrow> owner_channel | Some (c, _) \<Rightarrow> c_channel c)
            in case offer_channel sha256 preferred (src = Capture) (ro_connections s) of
                 None \<Rightarrow> (None, s)
               | Some channel \<Rightarrow> (Some channel, s\<lparr>ro_in_flight := True\<rparr>))"

text \<open>From the evaluation to the stream: the permit, the conversation, the draft and the run.\<close>

record begun_turn =
  op_permit :: turn_permit
  op_target :: conversation
  op_turn :: uuid

definition open_turn ::
  "(nat list \<Rightarrow> byte list) \<Rightarrow> timely_io \<Rightarrow> turn_config \<Rightarrow> turn_source \<Rightarrow> uuid \<Rightarrow> uuid \<Rightarrow> uuid \<Rightarrow> reach_out_state \<Rightarrow>
     begun_turn option \<times> reach_out_state" where
  "open_turn sha256 io cfg src channel new_id tid s =
     (case admit_activation io cfg (store (ro_service s)) src channel (ro_admission s, ro_cooldown s) of
        (None, a, r) \<Rightarrow> (None, s\<lparr>ro_admission := a, ro_cooldown := r, ro_in_flight := False\<rparr>)
      | (Some permit, a, r) \<Rightarrow>
          let s1 = s\<lparr>ro_admission := a, ro_cooldown := r\<rparr> in
          if \<not> has_channel sha256 channel (ro_connections s1)
          then (None, s1\<lparr>ro_admission := drop_permit permit a, ro_in_flight := False\<rparr>)
          else
            let (event_target, sv) = open_or_create_pending_locked (ti_now io) new_id channel (ro_service s1);
                ((target, turn), sv1) = begin_proactive_stream (ti_now io) new_id tid (Some event_target) sv
            in case register_cancellation turn (permit_cancellation permit) ProactiveRun (Some channel) (ro_runs s1) of
                 (Inl e, runs) \<Rightarrow>
                   (None, s1\<lparr>ro_service := sv1, ro_runs := runs, ro_admission := drop_permit permit a, ro_in_flight := False\<rparr>)
               | (Inr _, runs) \<Rightarrow>
                   (Some \<lparr>op_permit = permit, op_target = target, op_turn = turn\<rparr>,
                    s1\<lparr>ro_service := sv1, ro_runs := runs\<rparr>))"

text \<open>The reply: the deltas go to the draft as they are delivered; \<open>None\<close> is a chat that could not be sent.
  \<open>rp_pushed\<close> are the events for the channel after those of the stream.\<close>

record responded =
  rp_decision :: decision
  rp_service :: conversation_service
  rp_cooldown :: cooldown_repo
  rp_pushed :: "stream_bundle list"
  rp_armed :: bool

definition generate_response ::
  "cooldown_io \<Rightarrow> int \<Rightarrow> uuid \<Rightarrow> conversation \<Rightarrow> stream_state option \<Rightarrow> conversation_service \<Rightarrow> cooldown_repo \<Rightarrow> responded" where
  "generate_response io now fresh target result s0 r =
     (case result of
        None \<Rightarrow> \<lparr>rp_decision = Idle, rp_service = discard_proactive_stream (c_id target) s0, rp_cooldown = r,
           rp_pushed = [], rp_armed = False\<rparr>
      | Some ss \<Rightarrow>
          let s = fold (push_assistant_stream_delta now (c_id target)) (ss_observed ss) s0 in
          if trim (ss_full ss) = []
          then \<lparr>rp_decision = Idle, rp_service = discard_proactive_stream (c_id target) s, rp_cooldown = r,
             rp_pushed = [], rp_armed = False\<rparr>
          else
            let (final, s1) = finalize_assistant_stream now (c_id target) (ss_full ss) (ss_success ss) s;
                stored = (case final of Inr (Some _) \<Rightarrow> True | _ \<Rightarrow> False)
            in if ss_success ss \<and> stored
               then \<lparr>rp_decision = Engage, rp_service = s1,
                 rp_cooldown = snd (record_time LastEngagement now io now fresh r),
                 rp_pushed = [end_of_turn_event (ss_msg_id ss) (ss_full ss)], rp_armed = False\<rparr>
               else \<lparr>rp_decision = Engage, rp_service = s1, rp_cooldown = r,
                 rp_pushed = (if ss_success ss then [error_event (ss_msg_id ss) (lit ''RESPONSE_PERSIST_FAILED'')
                   (lit ''BoBe could not save this proactive response. It may not survive a restart.'') True] else []),
                 rp_armed = \<not> stored\<rparr>)"

text \<open>The end of the task: the interrupted turn is settled, the permit and the registration are dropped.\<close>

definition close_turn :: "int \<Rightarrow> begun_turn \<Rightarrow> reach_out_state \<Rightarrow> reach_out_state" where
  "close_turn now o1 s = s\<lparr>ro_service := snd (settle_interrupted_turn now (op_turn o1) (ro_service s)),
     ro_admission := drop_permit (op_permit o1) (ro_admission s),
     ro_runs := drop_registration (op_turn o1) (permit_cancellation (op_permit o1)) (ro_runs s), ro_in_flight := False\<rparr>"

section \<open>The triggers\<close>

text \<open>What the check-in trigger asks before it asks for a turn: the check-in, an open conversation that is not
  stale, the cooldown. Every answer but the first ends in a settled check-in.\<close>

record checkin_io =
  ch_draws :: draws
  ch_open_ok :: bool
  ch_cooldown :: "app_error + cooldown_info option"
  ch_done :: int
  ch_done_draws :: "draws \<times> draws"
  ch_done_again :: int

definition quiet_conversation :: "int \<Rightarrow> turn_config \<Rightarrow> database \<Rightarrow> bool" where
  "quiet_conversation now cfg db =
     (case get_pending_or_active db of None \<Rightarrow> True
      | Some c \<Rightarrow> is_stale_since now (tc_auto_close cfg) (last_user_turn_at (c_id c) db) c)"

definition checkin_fire ::
  "clock \<Rightarrow> checkin_io \<Rightarrow> int \<Rightarrow> turn_config \<Rightarrow> database \<Rightarrow> scheduler \<Rightarrow> (bool \<times> scheduler) option" where
  "checkin_fire k io now cfg db s = do {
     (due, s) \<leftarrow> should_checkin_at k (ch_draws io) now s;
     (if \<not> due then Some (False, s)
      else do {
        t \<leftarrow> mark_checkin_done_at k (fst (ch_done_draws io)) (ch_done io) (snd (ch_done_draws io)) (ch_done_again io) s;
        Some ((ch_open_ok io \<longrightarrow> quiet_conversation now cfg db) \<and> ch_cooldown io = Inr None, t)
      })
   }"

text \<open>The capture trigger asks for a turn when a description is there and the cooldown is over.\<close>

definition capture_fire :: "capture_result \<Rightarrow> app_error + cooldown_info option \<Rightarrow> rtext option" where
  "capture_fire r cooldown =
     (case cy_description r of None \<Rightarrow> None | Some d \<Rightarrow> if cooldown = Inr None then Some d else None)"

section \<open>When BoBe may speak\<close>

lemma timely_free:
  assumes "activation_is_timely io cfg db r = (True, r1)"
  shows "check_cooldown (ti_cooldown io) (ti_now io) (ti_fresh io) (tc_cooldown cfg) (tc_extended cfg) r = (Inr None, r1)"
    and "latest_user_turn_at db = Some at \<Longrightarrow> inactivity_timeout_elapsed (ti_now io) at (tc_inactivity cfg)"
  using assms by (auto simp: activation_is_timely_def split: prod.splits sum.splits option.splits if_splits)

lemma admit_activation_Some:
  assumes "admit_activation io cfg db src channel (a, r) = (Some permit, a1, r1)"
  shows "try_channel src channel None a = (Some permit, a1)" "activation_is_timely io cfg db r = (True, r1)"
  using assms by (auto simp: admit_activation_def split: prod.splits option.splits bool.splits)

lemma latest_None [simp]: "latest ts = None \<longleftrightarrow> ts = []"
  by (cases ts) (auto split: option.splits)

lemma latest_bound: "latest ts = Some t \<Longrightarrow> u \<in> set ts \<Longrightarrow> u \<le> t"
  by (induction ts arbitrary: t) (auto split: option.splits)

lemma elapsed_mono: "inactivity_timeout_elapsed now t n \<Longrightarrow> u \<le> t \<Longrightarrow> inactivity_timeout_elapsed now u n"
  by (auto simp: inactivity_timeout_elapsed_def whole_seconds_between_def Let_def split: if_splits
      elim!: order_trans intro: zdiv_mono1 order_trans [OF _ pos_imp_zdiv_nonneg_iff [THEN iffD2]])

text \<open>C33: BoBe speaks first only in its time: a permit for a proactive turn is handed out only while the channel is
  free, after the inactivity timeout since every message of the owner, and after the whole window of the last
  recorded answer of the owner and of BoBe's own last recorded message, however the cooldown was loaded,
  checked and recorded in between, whichever statements failed, and across restarts.\<close>

theorem reaching_out_waits:
  assumes "admission_ok a"
    and "record_time col t io now fresh (cooldown_run es \<lparr>cr_rows = rows, cr_cached = None\<rparr>) = (Inr (), r1)"
    and "list_all (\<lambda>e. \<not> records col e) es'"
    and "admit_activation tio cfg db src channel (a, cooldown_run es' r1) = (Some permit, a1, r2)"
  shows "grants a permit a1 \<and> may_admit src channel None a \<and>
    t + minutes (case col of LastUserResponse \<Rightarrow> tc_extended cfg | LastEngagement \<Rightarrow> tc_cooldown cfg) \<le> ti_now tio \<and>
    (\<forall>turn \<in> set (conversation_turns db). t_role turn = UserRole \<longrightarrow>
       inactivity_timeout_elapsed (ti_now tio) (t_created_at turn) (tc_inactivity cfg))"
proof -
  note admitted = admit_activation_Some [OF assms(4)]
  note timely = timely_free [OF admitted(2)]
  have "inactivity_timeout_elapsed (ti_now tio) (t_created_at turn) (tc_inactivity cfg)"
    if "turn \<in> set (conversation_turns db)" "t_role turn = UserRole" for turn
  proof -
    let ?times = "map t_created_at (filter (\<lambda>t. t_role t = UserRole) (conversation_turns db))"
    have mem: "t_created_at turn \<in> set ?times" using that by simp
    then have "?times \<noteq> []" by (metis empty_iff list.set(1))
    then have "latest ?times \<noteq> None" by (simp only: latest_None not_False_eq_True)
    then obtain at where "latest ?times = Some at" by blast
    with timely(2) elapsed_mono latest_bound [OF _ mem] show ?thesis by (metis latest_user_turn_at_def)
  qed
  moreover have "t + minutes (case col of LastUserResponse \<Rightarrow> tc_extended cfg | LastEngagement \<Rightarrow> tc_cooldown cfg) \<le> ti_now tio"
    using recorded_time_holds_its_cooldown [OF assms(2,3) timely(1)] by simp
  ultimately show ?thesis using try_channel_spec [OF assms(1) admitted(1)] by auto
qed

text \<open>The owner answers at 1000 ns; the program restarts; six minutes later a check-in is admitted.\<close>

definition sample_turns :: turn_config where
  "sample_turns = \<lparr>tc_cooldown = 3, tc_extended = 5, tc_inactivity = 30, tc_auto_close = 10\<rparr>"

definition sample_talk :: database where
  "sample_talk = empty_db\<lparr>conversation_turns := [new_turn 1000 1 2 UserRole [65] True]\<rparr>"

definition sample_timely :: timely_io where
  "sample_timely = \<lparr>ti_cooldown = sample_io, ti_now = minutes 6, ti_fresh = 9, ti_turns_ok = True\<rparr>"

lemma sample_recorded:
  "record_time LastUserResponse 1000 sample_io 1000 7 (cooldown_run [Loads sample_io 900 7] \<lparr>cr_rows = [], cr_cached = None\<rparr>) =
     (Inr (), \<lparr>cr_rows = [sample_row], cr_cached = Some sample_row\<rparr>)"
  by (simp add: record_time_def take_state_def fetch_or_create_def load_or_create_def cooldown_run_def sample_io_def
      sample_row_def execute_def sql_update_def select_state_def)

lemma sample_admitted:
  "\<exists>permit a1. admit_activation sample_timely sample_turns sample_talk Checkin ch
       (with_capacity 1, cooldown_run [Restarts] \<lparr>cr_rows = [sample_row], cr_cached = Some sample_row\<rparr>) =
     (Some permit, a1, \<lparr>cr_rows = [sample_row], cr_cached = Some sample_row\<rparr>)"
proof -
  have time: "activation_is_timely sample_timely sample_turns sample_talk
      (cooldown_run [Restarts] \<lparr>cr_rows = [sample_row], cr_cached = Some sample_row\<rparr>) =
      (True, \<lparr>cr_rows = [sample_row], cr_cached = Some sample_row\<rparr>)"
    by (simp add: activation_is_timely_def check_cooldown_def take_state_def fetch_or_create_def execute_def cooldown_run_def
        cooldown_now_def within_def sample_row_def set_column_def new_cooldown_def sample_timely_def sample_io_def sample_turns_def
        minutes_def sample_talk_def empty_db_def new_turn_def latest_user_turn_at_def inactivity_timeout_elapsed_def
        whole_seconds_between_def Let_def select_state_def)
  have "\<exists>permit a1. try_channel Checkin ch None (with_capacity 1) = (Some permit, a1)"
    by (simp add: admission_defs with_capacity_def hm_retain_def maintenance_def hm_count_def Let_def)
  then show ?thesis by (auto simp: admit_activation_def time)
qed

theorem reaching_out_waits_witness:
  "\<exists>permit a1. grants (with_capacity 1) permit a1 \<and> may_admit Checkin 5 None (with_capacity 1) \<and>
    1000 + minutes 5 \<le> minutes 6 \<and>
    (\<forall>turn \<in> set (conversation_turns sample_talk). t_role turn = UserRole \<longrightarrow>
       inactivity_timeout_elapsed (minutes 6) (t_created_at turn) 30)"
proof -
  obtain permit a1 where p: "admit_activation sample_timely sample_turns sample_talk Checkin 5
       (with_capacity 1, cooldown_run [Restarts] \<lparr>cr_rows = [sample_row], cr_cached = Some sample_row\<rparr>) =
     (Some permit, a1, \<lparr>cr_rows = [sample_row], cr_cached = Some sample_row\<rparr>)"
    using sample_admitted by blast
  have "admission_ok (with_capacity 1)" by (rule admission_ok_init)
  from reaching_out_waits [OF this sample_recorded _ p] show ?thesis
    by (auto simp: sample_turns_def sample_timely_def)
qed

section \<open>A reach-out that says nothing\<close>

text \<open>A new conversation with a draft in it is gone when it is discarded.\<close>

lemma pushes_keep_others:
  "store (fold (push_assistant_stream_delta now cid) ds s) = store s \<and>
   hm_remove cid (drafts (fold (push_assistant_stream_delta now cid) ds s)) = hm_remove cid (drafts s)"
proof (induction ds arbitrary: s)
  case (Cons d ds)
  have "hm_remove cid (hm_modify cid f m) = hm_remove cid m" for f and m :: "(uuid, streaming_turn) hmap"
    by (induction m) (auto simp: AList.delete_eq hm_modify_def)
  then have "store (push_assistant_stream_delta now cid d s) = store s"
    "hm_remove cid (drafts (push_assistant_stream_delta now cid d s)) = hm_remove cid (drafts s)"
    by (simp_all add: push_assistant_stream_delta_def)
  with Cons show ?case by simp
qed simp

lemma remove_inserted: "hm_get m k = None \<Longrightarrow> hm_remove k (hm_insert k v m) = m"
proof -
  assume fresh: "hm_get m k = None"
  then have "k \<notin> fst ` set m" by (simp add: map_of_eq_None_iff)
  then show ?thesis by (force simp: hm_insert_fresh [OF fresh] AList.delete_eq filter_id_conv)
qed

text \<open>The silent answers: a chat that could not be sent, and a reply of white space.\<close>

definition silent :: "stream_state option \<Rightarrow> bool" where
  "silent result \<longleftrightarrow> (case result of None \<Rightarrow> True | Some ss \<Rightarrow> trim (ss_full ss) = [])"

lemma silent_response:
  assumes "silent result"
  shows "rp_decision (generate_response io now fresh target result s r) = Idle"
    and "rp_pushed (generate_response io now fresh target result s r) = []"
    and "rp_cooldown (generate_response io now fresh target result s r) = r"
    and "rp_service (generate_response io now fresh target result s r) =
      s\<lparr>drafts := hm_remove (c_id target) (drafts s), store := snd (delete_if_empty_pending (c_id target) (store s))\<rparr>"
  using assms pushes_keep_others [of now "c_id target"]
  by (auto simp: silent_def generate_response_def discard_proactive_stream_def Let_def split: option.splits
      intro!: conversation_service.equality)

text \<open>The conversation that a turn opens on a channel without one, and its removal.\<close>

lemma opened_and_discarded:
  assumes fresh: "fresh_conversation new_id s" and closed: "get_open_in_channel (Some channel) (store s) = None"
    and opened: "open_or_create_pending_locked now new_id channel s = (event_target, sv)"
    and begun: "begin_proactive_stream now other tid (Some event_target) sv = ((target, turn), sv1)"
  shows "turn = tid" "c_id target = new_id"
    "sv1\<lparr>drafts := hm_remove new_id (drafts sv1), store := snd (delete_if_empty_pending new_id (store sv1))\<rparr> = s"
proof -
  let ?c = "new_conversation now new_id PendingConversation channel"
  have ids: "\<not> list_ex (\<lambda>c. c_id c = new_id) (conversations (store s))" "list_all (\<lambda>c. c_id c \<noteq> new_id) (conversations (store s))"
    using fresh by (auto simp: fresh_conversation_def conversation_by_id_def find_None_iff list_ex_iff list_all_iff)
  have turns: "\<not> list_ex (\<lambda>t. t_conversation t = new_id) (conversation_turns (store s))"
    using fresh by (force simp: fresh_conversation_def turn_shape_def list_ex_iff)
  have saved: "save_conversation ?c (store s) = (store s)\<lparr>conversations := conversations (store s) @ [?c]\<rparr>"
    using ids(1) by (simp add: save_conversation_def new_conversation_def)
  have sv: "event_target = ?c" "sv = s\<lparr>store := (store s)\<lparr>conversations := conversations (store s) @ [?c]\<rparr>\<rparr>"
    using opened closed by (auto simp: open_or_create_pending_locked_def Let_def saved)
  have found: "conversation_by_id new_id (store sv) = Some ?c"
  proof -
    have "list_all (\<lambda>c. c_id c \<noteq> new_id) cs \<Longrightarrow> find (\<lambda>c. c_id c = new_id) (cs @ [?c]) = Some ?c" for cs
      by (induction cs) (auto simp: new_conversation_def)
    then show ?thesis using ids(2) by (simp add: sv conversation_by_id_def)
  qed
  have parts: "target = ?c \<and> turn = tid \<and> sv1 = begin_assistant_stream_locked now new_id tid sv"
    using begun found unfolding begin_proactive_stream_def sv(1) by (auto simp: new_conversation_def)
  then show "turn = tid" "c_id target = new_id" by (simp_all add: new_conversation_def)
  have "hm_get (drafts s) new_id = None" using fresh by (simp add: fresh_conversation_def)
  then show "sv1\<lparr>drafts := hm_remove new_id (drafts sv1), store := snd (delete_if_empty_pending new_id (store sv1))\<rparr> = s"
    using parts ids turns
    by (simp add: begin_assistant_stream_locked_def sv remove_inserted delete_if_empty_pending_def Let_def new_conversation_def
        filter_id_conv list_all_iff)
qed

text \<open>The conversation that is already open: the turn begins in it.\<close>

lemma reused_and_discarded:
  assumes inv: "tables_inv (store s)" and open_c: "get_open_in_channel (Some channel) (store s) = Some c"
    and free: "hm_get (drafts s) (c_id c) = None"
    and opened: "open_or_create_pending_locked now new_id channel s = (event_target, sv)"
    and begun: "begin_proactive_stream now other tid (Some event_target) sv = ((target, turn), sv1)"
  shows "turn = tid" "c_id target = c_id c"
    "sv1\<lparr>drafts := hm_remove (c_id c) (drafts sv1), store := snd (delete_if_empty_pending (c_id c) (store sv1))\<rparr> =
     s\<lparr>store := snd (delete_if_empty_pending (c_id c) (store s))\<rparr>"
proof -
  have sv: "event_target = c" "sv = s" using opened open_c by (simp_all add: open_or_create_pending_locked_def)
  have c: "c \<in> set (conversations (store s))" "c_state c \<noteq> ClosedConversation"
    using get_open_Some [OF open_c] by (auto simp: open_state_def)
  have "distinct (map c_id (conversations (store s)))" using inv by (simp add: tables_inv_def conv_shape_def o_def)
  then have "conversation_by_id (c_id c) (store s) = Some c"
    unfolding conversation_by_id_def by (rule find_unique_key [OF _ c(1) refl])
  then have parts: "target = c \<and> turn = tid \<and> sv1 = begin_assistant_stream_locked now (c_id c) tid s"
    using begun c(2) unfolding begin_proactive_stream_def sv by auto
  then show "turn = tid" "c_id target = c_id c" by simp_all
  show "sv1\<lparr>drafts := hm_remove (c_id c) (drafts sv1), store := snd (delete_if_empty_pending (c_id c) (store sv1))\<rparr> =
     s\<lparr>store := snd (delete_if_empty_pending (c_id c) (store s))\<rparr>"
    using parts free by (simp add: begin_assistant_stream_locked_def remove_inserted)
qed

text \<open>The conversation in which a turn of the channel begins, if it is open already, without the empty pending one.\<close>

definition without_empty_pending :: "uuid \<Rightarrow> conversation_service \<Rightarrow> conversation_service" where
  "without_empty_pending channel s =
     (case get_open_in_channel (Some channel) (store s) of None \<Rightarrow> s
      | Some c \<Rightarrow> s\<lparr>store := snd (delete_if_empty_pending (c_id c) (store s))\<rparr>)"

text \<open>C34: A reach-out that ends in silence leaves no trace: when the model declines, when its reply is white space
  and when the chat cannot be sent at all, nothing is shown, the cooldown is not touched, and once the turn is
  closed the conversations, the drafts, the busy channels and the registered runs are what they were before it
  was opened; the next activation may start. The one exception: if the channel had an open conversation that
  was pending and empty, that conversation is deleted.\<close>

theorem silent_reach_out_leaves_no_trace:
  assumes "open_turn sha256 io cfg src channel new_id tid s = (Some o1, s1)"
    and "admission_ok (ro_admission s)" "fresh_conversation new_id (ro_service s)" "fresh_turn tid (ro_service s)"
    and "hm_ok (drafts (ro_service s))" "tables_inv (store (ro_service s))"
    and "\<And>c. get_open_in_channel (Some channel) (store (ro_service s)) = Some c \<Longrightarrow> hm_get (drafts (ro_service s)) (c_id c) = None"
    and "silent result" "r = generate_response cio now fresh (op_target o1) result (ro_service s1) (ro_cooldown s1)"
    and "s2 = close_turn now' o1 (s1\<lparr>ro_service := rp_service r, ro_cooldown := rp_cooldown r\<rparr>)"
  shows "rp_decision r = Idle \<and> rp_pushed r = [] \<and> ro_cooldown s2 = ro_cooldown s1 \<and>
    ro_service s2 = without_empty_pending channel (ro_service s) \<and>
    flags (ro_admission s2) = flags (ro_admission s) \<and> active_runs (ro_runs s2) = active_runs (ro_runs s) \<and> \<not> ro_in_flight s2"
proof -
  obtain permit a rr where admit: "admit_activation io cfg (store (ro_service s)) src channel (ro_admission s, ro_cooldown s) =
      (Some permit, a, rr)"
    using assms(1) by (auto simp: open_turn_def split: prod.splits option.splits)
  obtain event_target sv where opened: "open_or_create_pending_locked (ti_now io) new_id channel (ro_service s) = (event_target, sv)"
    by fastforce
  obtain target turn sv1 where begun: "begin_proactive_stream (ti_now io) new_id tid (Some event_target) sv = ((target, turn), sv1)"
    by (metis prod.collapse)
  have trace: "turn = tid \<and> sv1\<lparr>drafts := hm_remove (c_id target) (drafts sv1), store := snd (delete_if_empty_pending (c_id target) (store sv1))\<rparr> =
      without_empty_pending channel (ro_service s)"
  proof (cases "get_open_in_channel (Some channel) (store (ro_service s))")
    case None
    from opened_and_discarded [OF assms(3) None opened begun] None show ?thesis by (simp add: without_empty_pending_def)
  next
    case (Some c)
    from reused_and_discarded [OF assms(6) Some assms(7) [OF Some] opened begun] Some show ?thesis
      by (simp add: without_empty_pending_def)
  qed
  obtain runs where runs: "register_cancellation turn (permit_cancellation permit) ProactiveRun (Some channel) (ro_runs s) = (Inr (), runs)"
    and o1: "o1 = \<lparr>op_permit = permit, op_target = target, op_turn = turn\<rparr>"
    and s1: "s1 = s\<lparr>ro_admission := a, ro_cooldown := rr, ro_service := sv1, ro_runs := runs\<rparr>"
    using assms(1) by (auto simp: open_turn_def admit opened begun Let_def split: if_splits prod.splits sum.splits)
  have service: "rp_service r = without_empty_pending channel (ro_service s)"
    using trace silent_response(4) [OF assms(8)] by (simp add: assms(9) o1 s1)
  have "drafts (without_empty_pending channel (ro_service s)) = drafts (ro_service s)"
    by (simp add: without_empty_pending_def split: option.split)
  moreover have "find (\<lambda>(cid, d). t_id (draft_turn d) = tid) (drafts (ro_service s)) = None"
    using assms(4,5) unfolding find_None_iff fresh_turn_def by (auto dest: map_of_is_SomeI)
  moreover have "flags a = (flags (ro_admission s))(permit_flag permit := True)" "\<not> flags (ro_admission s) (permit_flag permit)"
    using try_channel_spec [OF assms(2) admit_activation_Some(1) [OF admit]] by (auto simp: grants_def)
  moreover have "hm_remove turn (active_runs runs) = active_runs (ro_runs s)"
    using runs by (auto simp: register_cancellation_def remove_inserted split: if_splits)
  ultimately show ?thesis
    using silent_response [OF assms(8)] service trace
    by (auto simp: assms(9,10) close_turn_def settle_interrupted_turn_def o1 s1 drop_permit_def release_flag_def
        drop_registration_def finish_run_def cancel_ref_def fun_eq_iff)
qed

definition sample_body :: body_connection where
  "sample_body = \<lparr>cn_endpoint = None, cn_credential = None, cn_actions = 0, cn_requests = None, cn_token = 0,
     cn_updates = True, cn_connected_at = 0\<rparr>"

definition sample_reach_out :: reach_out_state where
  "sample_reach_out = \<lparr>ro_admission = with_capacity 1,
     ro_cooldown = cooldown_run [Restarts] \<lparr>cr_rows = [sample_row], cr_cached = Some sample_row\<rparr>,
     ro_connections = new_connections\<lparr>connections := [([1], sample_body)]\<rparr>,
     ro_service = \<lparr>store = sample_talk, drafts = []\<rparr>, ro_runs = new_registry, ro_in_flight = True\<rparr>"

lemma sample_opened:
  "\<exists>o1 s1. open_turn (\<lambda>_. []) sample_timely sample_turns Checkin owner_channel 20 21 sample_reach_out = (Some o1, s1)"
proof -
  obtain permit a1 where "admit_activation sample_timely sample_turns sample_talk Checkin owner_channel
       (with_capacity 1, cooldown_run [Restarts] \<lparr>cr_rows = [sample_row], cr_cached = Some sample_row\<rparr>) =
     (Some permit, a1, \<lparr>cr_rows = [sample_row], cr_cached = Some sample_row\<rparr>)"
    using sample_admitted by blast
  then show ?thesis
    by (auto simp: open_turn_def sample_reach_out_def has_channel_def connection_channel_def sample_body_def new_connections_def
        register_cancellation_def new_registry_def Let_def split: prod.splits)
qed

theorem silent_reach_out_leaves_no_trace_witness:
  "\<exists>o1 s1. open_turn (\<lambda>_. []) sample_timely sample_turns Checkin owner_channel 20 21 sample_reach_out = (Some o1, s1) \<and>
    ro_service (close_turn 0 o1 (s1\<lparr>ro_service := rp_service
      (generate_response sample_io 0 1 (op_target o1) None (ro_service s1) (ro_cooldown s1)),
      ro_cooldown := rp_cooldown (generate_response sample_io 0 1 (op_target o1) None (ro_service s1) (ro_cooldown s1))\<rparr>)) =
    \<lparr>store = sample_talk, drafts = []\<rparr>"
proof -
  obtain o1 s1 where o1: "open_turn (\<lambda>_. []) sample_timely sample_turns Checkin owner_channel 20 21 sample_reach_out = (Some o1, s1)"
    using sample_opened by blast
  have "admission_ok (ro_admission sample_reach_out)" by (simp add: sample_reach_out_def admission_ok_init)
  moreover have "fresh_conversation 20 (ro_service sample_reach_out)" "fresh_turn 21 (ro_service sample_reach_out)"
    "hm_ok (drafts (ro_service sample_reach_out))" "get_open_in_channel (Some owner_channel) (store (ro_service sample_reach_out)) = None"
    "tables_inv (store (ro_service sample_reach_out))"
    by (simp_all add: sample_reach_out_def fresh_conversation_def fresh_turn_def conversation_by_id_def sample_talk_def empty_db_def
        turn_shape_def new_turn_def get_open_in_channel_def tables_inv_def conv_shape_def)
  ultimately show ?thesis
    using o1 silent_reach_out_leaves_no_trace [OF o1 _ _ _ _ _ _ _ refl refl, of None sample_io 0 1 0]
    by (simp add: silent_def without_empty_pending_def) (simp add: sample_reach_out_def)
qed

end
