(* ===== verification/Message_Handling.thy ===== *)
theory Message_Handling
  imports Proactive_Turns Work_Laws
begin

text \<open>
  What a message does: \<open>src/BoBeService/src/runtime/message_handler.rs\<close>. A message of the owner is recorded,
  stored and answered; the result of background work is told, and its question asked, in a turn of its own.
  The stream of the chat worker is an argument (theory Reply_Streaming), \<open>None\<close> when the message has no
  identity to answer under. A guard that is dropped while armed settles the turn afterwards.
\<close>

section \<open>Interrupted replies\<close>

type_synonym 'r interrupted_replies = "(uuid, 'r) hmap"

definition note_interrupted :: "uuid \<Rightarrow> 'r \<Rightarrow> 'r interrupted_replies \<Rightarrow> 'r interrupted_replies" where
  "note_interrupted channel reply m = hm_insert channel reply m"

definition take_interrupted :: "uuid \<Rightarrow> 'r interrupted_replies \<Rightarrow> 'r option \<times> 'r interrupted_replies" where
  "take_interrupted channel m = (hm_get m channel, hm_remove channel m)"

section \<open>The reply\<close>

datatype response_persistence = PersistedReply | EmptyNoop | NotPersisted

definition persist_response ::
  "int \<Rightarrow> uuid \<Rightarrow> stream_state \<Rightarrow> conversation_service \<Rightarrow> response_persistence \<times> conversation_service" where
  "persist_response now cid ss s =
     (if ss_full ss = [] then (EmptyNoop, discard_proactive_stream cid s)
      else case finalize_assistant_stream now cid (ss_full ss) (ss_success ss) s of
          (Inr (Some _), s1) \<Rightarrow> (PersistedReply, s1)
        | (_, s1) \<Rightarrow> (NotPersisted, s1))"

text \<open>\<open>re_pushed\<close>: the events of the channel after those of the stream.\<close>

record reply_outcome =
  re_ok :: bool
  re_service :: conversation_service
  re_pushed :: "(uuid \<times> stream_bundle) list"
  re_armed :: bool

definition push_on :: "stream_delivery \<Rightarrow> stream_bundle \<Rightarrow> (uuid \<times> stream_bundle) list" where
  "push_on d event = (case delivery_channel d of None \<Rightarrow> [] | Some c \<Rightarrow> [(c, event)])"

definition respond_to_message ::
  "int \<Rightarrow> uuid \<Rightarrow> uuid \<Rightarrow> uuid \<Rightarrow> stream_delivery \<Rightarrow> stream_state option \<Rightarrow> conversation_service \<Rightarrow> reply_outcome" where
  "respond_to_message now tid cid channel d0 result s =
     (let d = in_channel channel d0 in
      case begin_assistant_stream now cid tid s of
        (Inl e, s1) \<Rightarrow> \<lparr>re_ok = False, re_service = s1, re_pushed = [], re_armed = False\<rparr>
      | (Inr _, s1) \<Rightarrow>
          (case result of
             None \<Rightarrow> \<lparr>re_ok = False, re_service = s1, re_pushed = [], re_armed = True\<rparr>
           | Some ss \<Rightarrow>
               let s2 = fold (push_assistant_stream_delta now cid) (ss_observed ss) s1;
                   (persistence, s3) = persist_response now cid ss s2;
                   armed = (persistence = NotPersisted)
               in if \<not> ss_success ss then \<lparr>re_ok = False, re_service = s3, re_pushed = [], re_armed = armed\<rparr>
                  else if persistence \<noteq> NotPersisted
                  then \<lparr>re_ok = True, re_service = s3,
                    re_pushed = (if emits_sse d then push_on d (end_of_turn_event (ss_msg_id ss) (ss_full ss)) else []),
                    re_armed = armed\<rparr>
                  else \<lparr>re_ok = False, re_service = s3,
                    re_pushed = (if emits_sse d then push_on d (error_event (ss_msg_id ss) (lit ''RESPONSE_PERSIST_FAILED'')
                      (lit ''BoBe could not save this response. It may not survive a restart.'') True) else []), re_armed = armed\<rparr>))"

text \<open>\<open>ResponseGuard::drop\<close>.\<close>

definition settle_reply :: "int \<Rightarrow> uuid \<Rightarrow> reply_outcome \<Rightarrow> conversation_service" where
  "settle_reply now tid r = (if re_armed r then snd (settle_interrupted_turn now tid (re_service r)) else re_service r)"

section \<open>A message of the owner\<close>

record message_io =
  mi_now :: int
  mi_cooldown :: cooldown_io
  mi_fresh_row :: uuid
  mi_fresh_conversation :: uuid
  mi_user_turn :: uuid
  mi_print_id :: "uuid \<Rightarrow> rtext"

record handled =
  ha_ok :: bool
  ha_service :: conversation_service
  ha_cooldown :: cooldown_repo
  ha_pushed :: "(uuid \<times> stream_bundle) list"

definition handle_message ::
  "message_io \<Rightarrow> rtext \<Rightarrow> uuid \<Rightarrow> uuid \<Rightarrow> stream_delivery \<Rightarrow> stream_state option \<Rightarrow>
     conversation_service \<times> cooldown_repo \<Rightarrow> handled" where
  "handle_message io content tid channel d result = (\<lambda>(s, r).
     (let r1 = snd (record_time LastUserResponse (mi_now io) (mi_cooldown io) (mi_now io) (mi_fresh_row io) r) in
      case append_user_turn_or_create_active (mi_now io) (mi_fresh_conversation io) (mi_user_turn io) content channel s of
        (Inl e, s1) \<Rightarrow> \<lparr>ha_ok = False, ha_service = s1, ha_cooldown = r1, ha_pushed = []\<rparr>
      | (Inr c, s1) \<Rightarrow>
          let re = respond_to_message (mi_now io) tid (c_id c) channel d result s1
          in \<lparr>ha_ok = re_ok re, ha_service = settle_reply (mi_now io) tid re, ha_cooldown = r1,
              ha_pushed = re_pushed re @ (if is_endpoint_only d
                then [(channel, conversation_changed_event (mi_print_id io (c_id c)))] else [])\<rparr>))"

section \<open>The result of background work\<close>

definition UPDATE_OUTPUT_MAX_BYTES :: nat where "UPDATE_OUTPUT_MAX_BYTES = 12000"
definition UPDATE_TURN_MAX_BYTES :: nat where "UPDATE_TURN_MAX_BYTES = 1500"

datatype background_offer = OfferUpdate | LaterUpdate nat | SilentUpdate

text \<open>The answer of the worker: an object tagged by \<open>action\<close>, or a sequence that begins with it. Unknown
  members are refused for \<open>later\<close> only: serde does not look at the members of a variant without fields.\<close>

definition offer_from :: "rtext \<Rightarrow> json option \<Rightarrow> bool \<Rightarrow> background_offer option" where
  "offer_from action after strict =
     (if action = lit ''later'' then
        (case after of
           Some (JNum n) \<Rightarrow> if 0 \<le> n \<and> n < 2 ^ 32 \<and> strict then Some (LaterUpdate (nat n)) else None
         | _ \<Rightarrow> None)
      else if action = lit ''offer'' then Some OfferUpdate
      else if action = lit ''silent'' then Some SilentUpdate else None)"

definition background_offer_of :: "json \<Rightarrow> background_offer option" where
  "background_offer_of output =
     (case output of
        JObj members \<Rightarrow>
          (case map_of members ''action'' of
             Some (JStr a) \<Rightarrow> offer_from a (map_of members ''after_seconds'')
               (set (map fst members) \<subseteq> {''action'', ''after_seconds''})
           | _ \<Rightarrow> None)
      | JArr [JStr a] \<Rightarrow> offer_from a None True
      | JArr [JStr a, after] \<Rightarrow> if a = lit ''later'' then offer_from a (Some after) True else None
      | _ \<Rightarrow> None)"

definition update_turn :: "conversation_turn \<Rightarrow> json" where
  "update_turn t = JObj
     [(''role'', JStr (lit (case t_role t of UserRole \<Rightarrow> ''user'' | AssistantRole \<Rightarrow> ''assistant''))),
      (''content'', JStr (truncate_str (t_content t) UPDATE_TURN_MAX_BYTES)), (''complete'', JBool (t_complete t))]"

definition update_decision_input :: "work_env \<Rightarrow> agent_job \<Rightarrow> rtext list \<Rightarrow> json list \<Rightarrow> json" where
  "update_decision_input env job profiles turns = JObj
     [(''goal_id'', json_text_opt (map_option (env_uuid env) (j_goal job))), (''job_id'', JStr (env_uuid env (j_id job))),
      (''status'', JStr (lit (job_status_name (j_status job)))),
      (''output'', json_text_opt (map_option (\<lambda>t. truncate_str t UPDATE_OUTPUT_MAX_BYTES) (j_output job))),
      (''error'', json_text_opt (j_error job)), (''owner_profiles'', JArr (map JStr profiles)), (''recent_turns'', JArr turns)]"

text \<open>The worker is an argument: what it answers to the input.\<close>

definition evaluate_background_update ::
  "work_env \<Rightarrow> (json \<Rightarrow> app_error + json) \<Rightarrow> rtext list \<Rightarrow> agent_job \<Rightarrow> database \<Rightarrow> app_error + background_offer" where
  "evaluate_background_update env worker profiles job db =
     (let turns = (case get_latest_readable_conversation 8 (j_channel job) db of None \<Rightarrow> [] | Some (_, ts) \<Rightarrow> map update_turn ts)
      in case worker (update_decision_input env job profiles turns) of
           Inl e \<Rightarrow> Inl (Internal ''goal update evaluation failed'')
         | Inr output \<Rightarrow> (case background_offer_of output of
               None \<Rightarrow> Inl (Serialization ''not an offer'') | Some offer \<Rightarrow> Inr offer))"

definition background_result :: "work_env \<Rightarrow> agent_job \<Rightarrow> rtext" where
  "background_result env job = event_block (env_json env) (lit ''bobe.background_result'') (JObj
     [(''job_id'', JStr (env_uuid env (j_id job))), (''goal_id'', json_text_opt (map_option (env_uuid env) (j_goal job))),
      (''title'', JStr (j_title job)), (''status'', JStr (lit (job_status_name (j_status job)))),
      (''output'', json_text_opt (j_output job)), (''error'', json_text_opt (j_error job))])"

text \<open>The question of a waiting job is stored as a finished turn under the identity of the delivery.\<close>

definition ask_waiting_question ::
  "int \<Rightarrow> agent_job \<Rightarrow> conversation \<Rightarrow> (uuid \<Rightarrow> rtext) \<Rightarrow> conversation_service \<Rightarrow> bool \<times> conversation_service \<times> (uuid \<times> stream_bundle) list" where
  "ask_waiting_question now job c wire s =
     (case pending_job_input now (j_id job) (store s) of
        None \<Rightarrow> (True, s, [])
      | Some input \<Rightarrow>
          (case offer_owner_input now (o_id input) (j_delivery_id job) (c_channel c) (store s) of
             (Inl e, db) \<Rightarrow> (False, s\<lparr>store := db\<rparr>, [])
           | (Inr i, db) \<Rightarrow>
               (case begin_assistant_stream now (c_id c) (j_delivery_id job) (s\<lparr>store := db\<rparr>) of
                  (Inl e, s1) \<Rightarrow> (False, s1, [])
                | (Inr _, s1) \<Rightarrow>
                    (case finalize_assistant_stream now (c_id c) (o_prompt i) True s1 of
                       (Inr (Some t), s2) \<Rightarrow>
                         (True, s2, [(c_channel c, end_of_turn_event (wire (j_delivery_id job)) (o_prompt i))])
                     | (_, s2) \<Rightarrow> (False, s2, [])))))"

definition handle_background_result ::
  "message_io \<Rightarrow> agent_job \<Rightarrow> (uuid \<Rightarrow> rtext) \<Rightarrow> stream_state option \<Rightarrow> conversation_service \<times> cooldown_repo \<Rightarrow> handled" where
  "handle_background_result io job wire result = (\<lambda>(s, r).
     (let (c, s1) = open_or_create_pending_locked (mi_now io) (mi_fresh_conversation io)
            (case j_channel job of Some ch \<Rightarrow> ch | None \<Rightarrow> owner_channel) s
      in if j_status job = AwaitingInput
         then (case ask_waiting_question (mi_now io) job c wire s1 of (ok, s2, pushed) \<Rightarrow>
           \<lparr>ha_ok = ok, ha_service = s2, ha_cooldown = r, ha_pushed = pushed\<rparr>)
         else
           let re = respond_to_message (mi_now io) (j_delivery_id job) (c_id c) (c_channel c) Sse result s1
           in \<lparr>ha_ok = re_ok re, ha_service = settle_reply (mi_now io) (j_delivery_id job) re,
               ha_cooldown = (if re_ok re \<and> j_goal job \<noteq> None
                 then snd (record_time LastEngagement (mi_now io) (mi_cooldown io) (mi_now io) (mi_fresh_row io) r) else r),
               ha_pushed = re_pushed re\<rparr>))"

section \<open>What becomes of the turns\<close>

text \<open>The turns but one.\<close>

definition other_turns :: "uuid \<Rightarrow> conversation_service \<Rightarrow> conversation_turn list" where
  "other_turns i s = filter (\<lambda>t. t_id t \<noteq> i) (conversation_turns (store s))"

lemma filter_sql_update_id:
  "(\<And>r. t_id (f r) = t_id r) \<Longrightarrow> filter (\<lambda>t. t_id t \<noteq> i) (sql_update (\<lambda>r. t_id r = i) f ts) = filter (\<lambda>t. t_id t \<noteq> i) ts"
  by (induction ts) (auto simp: sql_update_def)

lemma update_other_turns:
  "filter (\<lambda>t. t_id t \<noteq> i) (conversation_turns (snd (update_turn_content_and_completion now i content complete db))) =
   filter (\<lambda>t. t_id t \<noteq> i) (conversation_turns db)"
  by (auto simp: update_turn_content_and_completion_def Let_def filter_sql_update_id split: option.splits)

lemma add_other_turns:
  "filter (\<lambda>x. t_id x \<noteq> t_id t) (conversation_turns (snd (add_turn now t db))) =
   filter (\<lambda>x. t_id x \<noteq> t_id t) (conversation_turns db)"
  by (auto simp: add_turn_def split: option.splits)

lemma store_draft_other_turns: "other_turns (t_id (draft_turn d)) (snd (store_draft now d s)) = other_turns (t_id (draft_turn d)) s"
  using update_other_turns add_other_turns
  by (auto simp: other_turns_def store_draft_def and_then_def on_store_def Let_def case_prod_unfold split: sum.splits)

text \<open>The synchronisation of a draft and its end keep the other turns and the identities of the drafts.\<close>

definition draft_id_at :: "conversation_service \<Rightarrow> uuid \<Rightarrow> uuid option" where
  "draft_id_at s cid = map_option (\<lambda>d. t_id (draft_turn d)) (hm_get (drafts s) cid)"

definition draft_ids :: "conversation_service \<Rightarrow> uuid set" where
  "draft_ids s = {i. \<exists>cid. draft_id_at s cid = Some i}"

lemma draft_ids_cong: "(\<And>cid. draft_id_at s cid = draft_id_at s' cid) \<Longrightarrow> draft_ids s = draft_ids s'"
  by (simp add: draft_ids_def)

lemma draft_id_modify:
  "(\<And>d. t_id (draft_turn (f d)) = t_id (draft_turn d)) \<Longrightarrow> draft_id_at (s\<lparr>drafts := hm_modify c f (drafts s)\<rparr>) cid = draft_id_at s cid"
  by (cases "hm_get (drafts s) cid"; cases "cid = c") (auto simp: draft_id_at_def hm_get_modify)

lemma sync_ids: "sync_streaming_assistant_turn_locked now cid s = (r, s1) \<Longrightarrow> draft_ids s1 = draft_ids s"
proof -
  have ids: "draft_ids (set_persisted cid tid s) = draft_ids s" for tid s
    unfolding set_persisted_def by (intro draft_ids_cong draft_id_modify) simp
  have same: "draft_ids (s\<lparr>store := db\<rparr>) = draft_ids s" for db by (simp add: draft_ids_def draft_id_at_def)
  show "sync_streaming_assistant_turn_locked now cid s = (r, s1) \<Longrightarrow> draft_ids s1 = draft_ids s"
    by (auto simp: sync_streaming_assistant_turn_locked_def Let_def and_then_def on_store_def ids same case_prod_unfold
        split: option.splits if_splits sum.splits)
qed

lemma sync_hm_ok:
  "sync_streaming_assistant_turn_locked now cid s = (r, s1) \<Longrightarrow> hm_ok (drafts s) \<Longrightarrow> hm_ok (drafts s1)"
  by (auto simp: sync_streaming_assistant_turn_locked_def Let_def and_then_def on_store_def set_persisted_def hm_keys_modify
      split: option.splits if_splits prod.splits sum.splits)

lemma sync_other:
  assumes "sync_streaming_assistant_turn_locked now cid s = (r, s1)" "t_id u \<notin> draft_ids s"
  shows "u \<in> set (conversation_turns (store s1)) \<longleftrightarrow> u \<in> set (conversation_turns (store s))"
proof (cases "hm_get (drafts s) cid")
  case None
  then show ?thesis using assms(1) by (auto simp: sync_streaming_assistant_turn_locked_def)
next
  case (Some d)
  then have i: "t_id u \<noteq> t_id (draft_turn d)" using assms(2) by (simp add: draft_ids_def draft_id_at_def) metis
  have kept: "store (set_persisted cid tid s) = store s" for tid s by (simp add: set_persisted_def)
  have up: "u \<in> set (conversation_turns (snd (update_turn_content_and_completion now (t_id (draft_turn d)) c b db))) \<longleftrightarrow>
      u \<in> set (conversation_turns db)" for c b db
    using update_other_turns [of "t_id (draft_turn d)" now c b db] i by (metis (mono_tags, lifting) mem_Collect_eq set_filter)
  have add: "u \<in> set (conversation_turns (snd (add_turn now (draft_turn d) db))) \<longleftrightarrow> u \<in> set (conversation_turns db)" for db
    using add_other_turns [of "draft_turn d" now db] i by (metis (mono_tags, lifting) mem_Collect_eq set_filter)
  show ?thesis
    using assms(1) Some up add
    by (auto simp: sync_streaming_assistant_turn_locked_def Let_def and_then_def on_store_def kept case_prod_unfold
        split: if_splits sum.splits)
qed

lemma pushes_draft:
  "hm_get (drafts s) cid = Some d \<Longrightarrow> \<exists>d'. hm_get (drafts (fold (push_assistant_stream_delta now cid) ds s)) cid = Some d' \<and>
     t_id (draft_turn d') = t_id (draft_turn d) \<and> t_conversation (draft_turn d') = t_conversation (draft_turn d) \<and>
     persisted d' = persisted d"
proof (induction ds arbitrary: s d)
  case (Cons x ds)
  let ?s = "push_assistant_stream_delta now cid x s"
  obtain d1 where d1: "hm_get (drafts ?s) cid = Some d1" "t_id (draft_turn d1) = t_id (draft_turn d)"
      "t_conversation (draft_turn d1) = t_conversation (draft_turn d)" "persisted d1 = persisted d"
    using Cons.prems by (cases "x = []") (auto simp: push_assistant_stream_delta_def hm_get_modify)
  with Cons.IH [OF d1(1)] show ?case by auto
qed simp

text \<open>An unsaved draft at its end: its turn is added, or nothing is.\<close>

lemma persist_draft:
  assumes draft: "hm_get (drafts s) cid = Some d" "\<not> persisted d" "t_conversation (draft_turn d) = cid"
    and p: "persist_response now cid ss s = (p, s1)"
  shows "drafts s1 = hm_remove cid (drafts s)"
    and "p = PersistedReply \<Longrightarrow> \<exists>t. t_id t = t_id (draft_turn d) \<and> t_conversation t = cid \<and> t_content t = ss_full ss \<and>
        t_complete t = ss_success ss \<and> conversation_turns (store s1) = conversation_turns (store s) @ [t]"
    and "p \<noteq> PersistedReply \<Longrightarrow> conversation_turns (store s1) = conversation_turns (store s)"
    and "p = EmptyNoop \<Longrightarrow> ss_full ss = []"
  using p draft
  by (auto simp: persist_response_def discard_proactive_stream_def delete_if_empty_pending_def finalize_assistant_stream_def
      store_draft_def and_then_def on_store_def add_turn_def Let_def
      split: if_splits option.splits sum.splits prod.splits)

lemma found_draft: "find (\<lambda>(c, d). t_id (draft_turn d) = tid) (drafts s) = Some (c, d) \<Longrightarrow> hm_ok (drafts s) \<Longrightarrow>
    draft_id_at s c = Some tid \<and> hm_get (drafts s) c = Some d"
  by (auto simp: find_Some_iff draft_id_at_def dest!: nth_mem intro: map_of_is_SomeI)

lemma settle_nothing:
  assumes "hm_ok (drafts s)" "tid \<notin> draft_ids s"
  shows "settle_interrupted_turn now tid s = (Inr (), s)"
  using assms found_draft [OF _ assms(1)]
  by (auto simp: settle_interrupted_turn_def draft_ids_def split: option.splits)

lemma settle_empty:
  assumes "hm_ok (drafts s)" "\<And>c d. hm_get (drafts s) c = Some d \<Longrightarrow> t_id (draft_turn d) = tid \<Longrightarrow> t_content (draft_turn d) = []"
  shows "conversation_turns (store (snd (settle_interrupted_turn now tid s))) = conversation_turns (store s)"
  using assms(2) found_draft [OF _ assms(1)]
  by (fastforce simp: settle_interrupted_turn_def settle_interrupted_stream_locked_def delete_if_empty_pending_def draft_id_at_def
      Let_def split: option.splits)

text \<open>The beginning of a reply: a new draft beside the others.\<close>

lemma begun_draft:
  assumes "begin_assistant_stream now cid tid s = (Inr x, s1)" "hm_ok (drafts s)"
  obtains s0 where "sync_streaming_assistant_turn_locked now cid s = (Inr (), s0)" "hm_ok (drafts s0)" "hm_ok (drafts s1)" "store s1 = store s0"
    "drafts s1 = hm_insert cid \<lparr>draft_turn = new_turn now tid cid AssistantRole [] False, persisted = False\<rparr> (drafts s0)"
proof -
  obtain r0 s0 where sync: "sync_streaming_assistant_turn_locked now cid s = (r0, s0)" by fastforce
  have "hm_ok (drafts s0)" by (rule sync_hm_ok [OF sync assms(2)])
  with assms sync show ?thesis
    by (intro that [of s0]) (auto simp: begin_assistant_stream_def and_then_def begin_assistant_stream_locked_def split: sum.splits)
qed

text \<open>A reply in a conversation: it is stored as a finished turn exactly when it succeeds with a text, and no
  other turn is touched that no draft stands for.\<close>

lemma reply_turns:
  assumes fresh: "tid \<notin> draft_ids s" "tid \<notin> t_id ` set (conversation_turns (store s))" and ok: "hm_ok (drafts s)"
    and r: "r = respond_to_message now tid cid channel d0 result s"
  shows "re_ok r \<Longrightarrow> \<exists>ss. result = Some ss \<and> (ss_full ss = [] \<or>
      (\<exists>t \<in> set (conversation_turns (store (settle_reply now tid r))).
         t_id t = tid \<and> t_conversation t = cid \<and> t_content t = ss_full ss \<and> t_complete t))"
    and "\<not> re_ok r \<Longrightarrow> t \<in> set (conversation_turns (store (settle_reply now tid r))) \<Longrightarrow> t_id t = tid \<Longrightarrow> \<not> t_complete t"
    and "u \<in> set (conversation_turns (store s)) \<Longrightarrow> t_id u \<notin> draft_ids s \<Longrightarrow>
      u \<in> set (conversation_turns (store (settle_reply now tid r)))"
    and "re_ok r \<Longrightarrow> tid \<notin> draft_ids (settle_reply now tid r) \<and> hm_ok (drafts (settle_reply now tid r))"
proof -
  let ?after = "conversation_turns (store (settle_reply now tid r))"
  obtain b s1 where started: "begin_assistant_stream now cid tid s = (b, s1)" by fastforce
  obtain r0 s0 where sync: "sync_streaming_assistant_turn_locked now cid s = (r0, s0)" by fastforce
  note other = sync_ids [OF sync] sync_other [OF sync]
  have none: "t_id t \<noteq> tid" if "t \<in> set (conversation_turns (store s0))" for t
    using other(2) [of t] fresh that by (metis imageI)
  have goal: "(re_ok r \<longrightarrow> (\<exists>ss. result = Some ss \<and> (ss_full ss = [] \<or>
      (\<exists>t \<in> set ?after. t_id t = tid \<and> t_conversation t = cid \<and> t_content t = ss_full ss \<and> t_complete t)))) \<and>
    (\<not> re_ok r \<longrightarrow> (\<forall>t \<in> set ?after. t_id t = tid \<longrightarrow> \<not> t_complete t)) \<and>
    set (conversation_turns (store s0)) \<subseteq> set ?after \<and>
    (re_ok r \<longrightarrow> tid \<notin> draft_ids (settle_reply now tid r) \<and> hm_ok (drafts (settle_reply now tid r)))"
  proof (cases b)
    case (Inl e)
    then have "s1 = s0" using started sync by (auto simp: begin_assistant_stream_def and_then_def split: sum.splits)
    then show ?thesis using Inl started none by (simp add: r respond_to_message_def settle_reply_def Let_def)
  next
    case (Inr x)
    from begun_draft [OF started [unfolded Inr] ok] sync have ok0: "hm_ok (drafts s0)" and s1: "hm_ok (drafts s1)" "store s1 = store s0"
      "drafts s1 = hm_insert cid \<lparr>draft_turn = new_turn now tid cid AssistantRole [] False, persisted = False\<rparr> (drafts s0)"
      by (metis prod.inject)+
    have free: "draft_id_at s0 c \<noteq> Some tid" for c using other(1) fresh(1) by (auto simp: draft_ids_def)
    show ?thesis
    proof (cases result)
      case None
      have "conversation_turns (store (snd (settle_interrupted_turn now tid s1))) = conversation_turns (store s1)"
      proof (rule settle_empty [OF s1(1)])
        fix c d
        assume get: "hm_get (drafts s1) c = Some d" "t_id (draft_turn d) = tid"
        show "t_content (draft_turn d) = []"
        proof (cases "c = cid")
          case True
          then have "d = \<lparr>draft_turn = new_turn now tid cid AssistantRole [] False, persisted = False\<rparr>"
            using get(1) by (simp add: s1(3) hm_get_insert)
          then show ?thesis by (simp add: new_turn_def)
        next
          case False
          then show ?thesis using free [of c] get by (simp add: s1(3) hm_get_insert draft_id_at_def)
        qed
      qed
      then show ?thesis using Inr None started none by (simp add: r respond_to_message_def settle_reply_def Let_def s1(2))
    next
      case (Some ss)
      let ?s2 = "fold (push_assistant_stream_delta now cid) (ss_observed ss) s1"
      obtain p s3 where p: "persist_response now cid ss ?s2 = (p, s3)" by fastforce
      obtain d where d: "hm_get (drafts ?s2) cid = Some d" "t_id (draft_turn d) = tid" "t_conversation (draft_turn d) = cid" "\<not> persisted d"
        using pushes_draft [of s1 cid "\<lparr>draft_turn = new_turn now tid cid AssistantRole [] False, persisted = False\<rparr>" now "ss_observed ss"]
        by (auto simp: s1(3) hm_get_insert new_turn_def)
      note stored = persist_draft [OF d(1,4,3) p]
      have store2: "store ?s2 = store s0" "hm_remove cid (drafts ?s2) = hm_remove cid (drafts s0)"
        using pushes_keep_others [of now cid "ss_observed ss" s1] by (simp_all add: s1(2,3) AList.delete_update_same)
      have gone: "tid \<notin> draft_ids s3"
        using free by (auto simp: draft_ids_def draft_id_at_def stored(1) store2(2) hm_get_remove)
      have keys: "hm_ok (drafts s3)" using ok0 by (simp add: stored(1) store2(2))
      from keys gone have settled: "settle_interrupted_turn now tid s3 = (Inr (), s3)" by (rule settle_nothing)
      then have after: "?after = conversation_turns (store s3)" "re_ok r = (ss_success ss \<and> p \<noteq> NotPersisted)"
        "settle_reply now tid r = s3"
        using Inr Some started p by (auto simp: r respond_to_message_def settle_reply_def Let_def)
      show ?thesis using stored(2,3,4) none d(2) store2(1) Some gone keys unfolding after by (cases p) auto
    qed
  qed
  show "re_ok r \<Longrightarrow> \<exists>ss. result = Some ss \<and> (ss_full ss = [] \<or>
      (\<exists>t \<in> set ?after. t_id t = tid \<and> t_conversation t = cid \<and> t_content t = ss_full ss \<and> t_complete t))"
    "\<not> re_ok r \<Longrightarrow> t \<in> set ?after \<Longrightarrow> t_id t = tid \<Longrightarrow> \<not> t_complete t"
    using goal by blast+
  show "re_ok r \<Longrightarrow> tid \<notin> draft_ids (settle_reply now tid r) \<and> hm_ok (drafts (settle_reply now tid r))"
    using goal by blast
  show "u \<in> set (conversation_turns (store s)) \<Longrightarrow> t_id u \<notin> draft_ids s \<Longrightarrow> u \<in> set ?after"
    using goal other(2) [of u] by blast
qed

text \<open>The message itself: a new finished turn, beside those no draft stands for.\<close>

lemma added_turn:
  "fst (add_turn now t db) = Inr r \<Longrightarrow> conversation_turns (snd (add_turn now t db)) = conversation_turns db @ [t]"
  by (auto simp: add_turn_def split: option.splits if_splits)

lemma saved_turns: "conversation_turns (save_conversation c db) = conversation_turns db"
  by (simp add: save_conversation_def)

lemma activated_turns: "conversation_turns (snd (update_state now cid st db)) = conversation_turns db"
  by (auto simp: update_state_def Let_def split: option.splits)

lemma append_result:
  assumes "append_user_turn_or_create_active now new tid message channel s = (Inr c, s1)"
  obtains s0 where "conversation_turns (store s1) = conversation_turns (store s0) @ [new_turn now tid (c_id c) UserRole message True]"
    "drafts s1 = drafts s0"
    "s0 = s \<or> (\<exists>cid. sync_streaming_assistant_turn_locked now cid s = (Inr (), s0))"
proof (cases "get_open_in_channel (Some channel) (store s)")
  case None
  then show ?thesis
    using assms
    by (intro that [of s])
      (auto simp: append_user_turn_or_create_active_def create_active_unlocked_def Let_def and_then_def on_store_def
        saved_turns new_conversation_def case_prod_unfold added_turn split: sum.splits)
next
  case (Some o1)
  obtain r0 s0 where sync: "sync_streaming_assistant_turn_locked now (c_id o1) s = (r0, s0)" by fastforce
  with Some assms have r0: "r0 = Inr ()"
    by (auto simp: append_user_turn_or_create_active_def and_then_def split: sum.splits)
  show ?thesis
    using Some assms sync r0
    by (intro that [of s0])
      (auto simp: append_user_turn_or_create_active_def and_then_def on_store_def case_prod_unfold Let_def activated_turns added_turn
        split: sum.splits if_splits option.splits)
qed

lemma append_other:
  assumes app: "append_user_turn_or_create_active now new tid message channel s = (Inr c, s1)" and ok: "hm_ok (drafts s)"
  shows "new_turn now tid (c_id c) UserRole message True \<in> set (conversation_turns (store s1))"
    and "draft_ids s1 = draft_ids s" and "hm_ok (drafts s1)"
    and "t_id u \<notin> draft_ids s \<Longrightarrow> t_id u \<noteq> tid \<Longrightarrow>
      u \<in> set (conversation_turns (store s1)) \<longleftrightarrow> u \<in> set (conversation_turns (store s))"
proof -
  obtain s0 where s0: "conversation_turns (store s1) = conversation_turns (store s0) @ [new_turn now tid (c_id c) UserRole message True]"
      "drafts s1 = drafts s0" and from_s: "s0 = s \<or> (\<exists>cid. sync_streaming_assistant_turn_locked now cid s = (Inr (), s0))"
    using append_result [OF app] by blast
  show "new_turn now tid (c_id c) UserRole message True \<in> set (conversation_turns (store s1))" by (simp add: s0)
  have ids: "draft_ids s1 = draft_ids s0" by (simp add: draft_ids_def draft_id_at_def s0)
  from from_s show "hm_ok (drafts s1)" using sync_hm_ok [OF _ ok] ok by (auto simp: s0)
  show "draft_ids s1 = draft_ids s" using sync_ids from_s unfolding ids by blast
  show "u \<in> set (conversation_turns (store s1)) \<longleftrightarrow> u \<in> set (conversation_turns (store s))"
    if "t_id u \<notin> draft_ids s" "t_id u \<noteq> tid"
    using from_s sync_other [of now _ s "Inr ()" s0 u] that by (auto simp: s0 new_turn_def)
qed

text \<open>C37: A message is kept whatever becomes of its answer: once it is appended, its turn is stored at the end,
  and no turn that was stored before is lost, but the drafts it interrupts. \<open>true\<close> is returned only when the
  answer is stored as a finished turn, or was empty; and when it is not, no finished turn has the answer's
  identity.\<close>

theorem message_and_reply_are_kept:
  assumes fresh: "u \<notin> draft_ids s" "tid \<notin> draft_ids s" "{u, tid} \<inter> t_id ` set (conversation_turns (store s)) = {}" "u \<noteq> tid"
    and ok: "hm_ok (drafts s)" and io: "mi_user_turn io = u"
    and app: "append_user_turn_or_create_active (mi_now io) (mi_fresh_conversation io) u content channel s = (Inr c, s1)"
    and h: "h = handle_message io content tid channel d result (s, r)"
  shows "new_turn (mi_now io) u (c_id c) UserRole content True \<in> set (conversation_turns (store (ha_service h))) \<and>
    {t \<in> set (conversation_turns (store s)). t_id t \<notin> draft_ids s} \<subseteq> set (conversation_turns (store (ha_service h))) \<and>
    (if ha_ok h
     then \<exists>ss. result = Some ss \<and> (ss_full ss = [] \<or> (\<exists>t \<in> set (conversation_turns (store (ha_service h))).
       t_id t = tid \<and> t_conversation t = c_id c \<and> t_content t = ss_full ss \<and> t_complete t))
     else \<not> (\<exists>t \<in> set (conversation_turns (store (ha_service h))). t_id t = tid \<and> t_complete t))"
proof -
  note after = append_other [OF app ok]
  let ?re = "respond_to_message (mi_now io) tid (c_id c) channel d result s1"
  have h_eq: "ha_ok h = re_ok ?re" "ha_service h = settle_reply (mi_now io) tid ?re"
    using app io by (simp_all add: h handle_message_def Let_def)
  have tid: "tid \<notin> draft_ids s1" "tid \<notin> t_id ` set (conversation_turns (store s1))"
    using fresh after(2,4) by auto
  note reply = reply_turns [OF tid after(3) refl, where now = "mi_now io" and cid = "c_id c" and channel = channel and ?d0.0 = d and result = result]
  have "new_turn (mi_now io) u (c_id c) UserRole content True \<in> set (conversation_turns (store (ha_service h)))"
    unfolding h_eq by (rule reply(3) [OF after(1)]) (simp add: after(2) fresh(1) new_turn_def)
  moreover have "{t \<in> set (conversation_turns (store s)). t_id t \<notin> draft_ids s} \<subseteq> set (conversation_turns (store (ha_service h)))"
    unfolding h_eq using reply(3) after(2,4) fresh(3) by auto
  ultimately show ?thesis using reply(1,2) unfolding h_eq by auto
qed

theorem message_and_reply_are_kept_witness:
  "let s = \<lparr>store = empty_db, drafts = []\<rparr>;
       io = \<lparr>mi_now = 5, mi_cooldown = undefined, mi_fresh_row = 9, mi_fresh_conversation = 1, mi_user_turn = 2, mi_print_id = \<lambda>_. []\<rparr>;
       h = handle_message io (lit ''hi'') 3 7 Sse (Some ((new_stream 0 [])\<lparr>ss_full := lit ''yes''\<rparr>)) (s, undefined)
   in new_turn 5 2 1 UserRole (lit ''hi'') True \<in> set (conversation_turns (store (ha_service h))) \<and> ha_ok h \<and>
      (\<exists>t \<in> set (conversation_turns (store (ha_service h))). t_id t = 3 \<and> t_conversation t = 1 \<and> t_content t = lit ''yes'' \<and> t_complete t)"
proof -
  let ?s = "\<lparr>store = empty_db, drafts = []\<rparr>"
  let ?io = "\<lparr>mi_now = 5, mi_cooldown = undefined, mi_fresh_row = 9, mi_fresh_conversation = 1, mi_user_turn = 2, mi_print_id = \<lambda>_. []\<rparr>"
  let ?ss = "(new_stream 0 [])\<lparr>ss_full := lit ''yes''\<rparr>"
  let ?s1 = "snd (append_user_turn_or_create_active 5 1 2 (lit ''hi'') 7 ?s)"
  note steps = append_user_turn_or_create_active_def get_open_in_channel_def empty_db_def create_active_unlocked_def Let_def
    and_then_def on_store_def save_conversation_def new_conversation_def add_turn_def new_turn_def conversation_by_id_def
  have app: "append_user_turn_or_create_active (mi_now ?io) (mi_fresh_conversation ?io) 2 (lit ''hi'') 7 ?s =
      (Inr (new_conversation 5 1 ActiveConversation 7), ?s1)"
    by (simp add: steps)
  have "ha_ok (handle_message ?io (lit ''hi'') 3 7 Sse (Some ?ss) (?s, undefined))"
    by (simp add: handle_message_def respond_to_message_def begin_assistant_stream_def persist_response_def new_stream_def
        sync_streaming_assistant_turn_locked_def begin_assistant_stream_locked_def finalize_assistant_stream_def store_draft_def
        sql_update_def lit_def steps)
  then show ?thesis
    using message_and_reply_are_kept [OF _ _ _ _ _ _ app refl, of 3 Sse "Some ?ss" undefined]
    by (simp add: draft_ids_def draft_id_at_def empty_db_def new_conversation_def lit_def Let_def)
qed

end
