(* ===== verification/Goal_Trigger.thy ===== *)
theory Goal_Trigger
  imports Complex_Main Work_Laws Goal_Documents
begin

text \<open>
  The goal trigger: \<open>src/BoBeService/src/runtime/triggers/goal_trigger.rs\<close>, which turns the owner's active goals
  into background work through \<open>review_goals\<close> (theory Agent_Schedules). The interval of the configuration is an
  \<open>f64\<close>: a rational number, or \<open>None\<close> when it is not finite. The reads that may fail are arguments.
\<close>

definition IDLE_REVIEW_LIMIT :: nat where "IDLE_REVIEW_LIMIT = 3"

record goal_config =
  gc_enabled :: bool
  gc_background_jobs :: bool
  gc_interval :: "rat option"

record goal_io =
  gi_clock_ok :: bool
  gi_goals :: "app_error + goal_doc list"
  gi_idle_ok :: "uuid \<Rightarrow> bool"

text \<open>The interval in whole seconds, if it is between a second and a year.\<close>

definition review_interval :: "rat option \<Rightarrow> nat option" where
  "review_interval seconds =
     (case seconds of None \<Rightarrow> None
      | Some s \<Rightarrow> if 1 \<le> s \<and> s \<le> 31536000 then Some (nat \<lceil>s\<rceil>) else None)"

definition goal_work :: "work_env \<Rightarrow> goal_doc \<Rightarrow> goal_review_work" where
  "goal_work env goal =
     \<lparr>gr_priority = gd_priority goal,
      gr_input = \<lparr>in_title = lit ''Goal: '' @ truncate_str (inert_text (gd_title goal)) 140,
        in_task = event_block (env_json env) (lit ''bobe.goal_work'')
          (JObj [(''goal_id'', JStr (env_uuid env (gd_id goal)))]),
        in_context = [], in_budget = \<lparr>budget_timeout = None, budget_turns = None\<rparr>, in_channel = None, in_goal = Some (gd_id goal),
        in_schedule = None\<rparr>\<rparr>"

definition resting :: "database \<Rightarrow> goal_doc \<Rightarrow> bool" where
  "resting db goal \<longleftrightarrow> IDLE_REVIEW_LIMIT \<le> idle_goal_reviews (gd_id goal) (gd_updated goal) db"

definition due_goals :: "goal_io \<Rightarrow> database \<Rightarrow> goal_doc list \<Rightarrow> goal_doc list" where
  "due_goals io db goals = filter (\<lambda>goal. gi_idle_ok io (gd_id goal) \<and> \<not> resting db goal) goals"

definition fire_at ::
  "work_env \<Rightarrow> execution_limits \<Rightarrow> goal_config \<Rightarrow> goal_io \<Rightarrow> (uuid \<Rightarrow> uuid \<times> uuid) \<Rightarrow> workload_route \<Rightarrow> int \<Rightarrow>
     database \<Rightarrow> database" where
  "fire_at env limits config io fresh route now db =
     (if \<not> gc_enabled config \<or> \<not> gc_background_jobs config then db
      else case review_interval (gc_interval config) of
          None \<Rightarrow> db
        | Some interval \<Rightarrow>
            if \<not> gi_clock_ok io \<or> \<not> goal_review_due now interval db then db
            else case gi_goals io of
                Inl e \<Rightarrow> db
              | Inr goals \<Rightarrow>
                  snd (review_goals env limits now fresh (map (goal_work env) (due_goals io db goals)) route interval db))"

section \<open>Which goals get work\<close>

definition jobs_of :: "uuid \<Rightarrow> database \<Rightarrow> agent_job list" where
  "jobs_of goal db = filter (\<lambda>j. j_goal j = Some goal) (jobs db)"

text \<open>The reviews of goals other than \<open>g\<close>.\<close>

definition of_others :: "uuid \<Rightarrow> database \<Rightarrow> goal_review_work \<times> agent_job option \<Rightarrow> bool" where
  "of_others g db x \<longleftrightarrow> in_goal (gr_input (fst x)) \<noteq> Some g \<and>
     (case snd x of None \<Rightarrow> True | Some job \<Rightarrow> j_id job \<notin> j_id ` set (jobs_of g db))"

lemma enqueue_jobs_of:
  "enqueue_in limits now a b c d route db = Inr (j, db1) \<Longrightarrow> in_goal d \<noteq> Some g \<Longrightarrow> jobs_of g db1 = jobs_of g db"
  by (drule enqueue_in_cases) (auto simp: jobs_of_def new_job_def)

lemma filter_sql_update_other:
  "(\<And>j. j \<in> set xs \<Longrightarrow> p j \<Longrightarrow> \<not> q j) \<Longrightarrow> (\<And>j. q (f j) = q j) \<Longrightarrow> filter q (sql_update p f xs) = filter q xs"
  by (induction xs) (auto simp: sql_update_def)

lemma resume_jobs_of:
  assumes "resume_in now a jid c db = Inr (j, db1)" "jid \<notin> j_id ` set (jobs_of g db)"
  shows "jobs_of g db1 = jobs_of g db"
proof -
  from assms(1) obtain p f where db1: "jobs db1 = sql_update p f (jobs db)"
    and p: "\<And>j. p j \<Longrightarrow> j_id j = jid" and f: "\<And>j. j_goal (f j) = j_goal j"
    by (fastforce simp: resume_in_def retire_def Let_def split: if_splits option.splits)
  show ?thesis unfolding jobs_of_def db1
    by (rule filter_sql_update_other) (use p f assms(2) in \<open>auto simp: jobs_of_def\<close>)
qed

lemma review_loop_jobs_of:
  "review_loop env limits now fresh route due work running queued all db = Inr (r, db') \<Longrightarrow>
     list_all (of_others g db) work \<Longrightarrow> jobs_of g db' = jobs_of g db"
proof (induction work arbitrary: db running queued all)
  case (Cons x rest)
  from Cons.prems(1) obtain db1 running' queued' all' where
    one: "db1 = db \<or>
     (\<exists>a b c d j. in_goal d = in_goal (gr_input (fst x)) \<and> enqueue_in limits now a b c d route db = Inr (j, db1)) \<or>
     (\<exists>a c job j. snd x = Some job \<and> resume_in now a (j_id job) c db = Inr (j, db1))" and
    rest: "db' = db1 \<or> review_loop env limits now fresh route due rest running' queued' all' db1 = Inr (r, db')"
    by (rule review_loop_step)
  have same: "jobs_of g db1 = jobs_of g db"
    using one Cons.prems(2) enqueue_jobs_of resume_jobs_of by (fastforce simp: of_others_def)
  then have "of_others g db1 = of_others g db" by (intro ext) (auto simp: of_others_def split: option.splits)
  with Cons.prems(2) have "list_all (of_others g db1) rest" by simp
  with rest Cons.IH same show ?case by metis
qed simp

lemma with_previous_others:
  assumes "distinct (map j_id (jobs db))"
  shows "with_previous work db = Inr pending \<Longrightarrow> list_all (\<lambda>w. in_goal (gr_input w) \<noteq> Some g) work \<Longrightarrow>
    list_all (of_others g db) pending"
proof (induction work arbitrary: pending)
  case (Cons w work)
  then obtain h rest where h: "in_goal (gr_input w) = Some h" "h \<noteq> g" and rest: "with_previous work db = Inr rest"
    "pending = (w, previous_job h db) # rest"
    by (auto split: option.splits sum.splits)
  have "j_id job \<notin> j_id ` set (jobs_of g db)" if "previous_job h db = Some job" for job
  proof -
    have "job \<in> set (jobs db)" "j_goal job = Some h"
      using that set_sort [of "\<lambda>j. (- j_created_at j, - uint (j_id j))" "filter (\<lambda>j. j_goal j = Some h) (jobs db)"]
      by (fastforce simp: previous_job_def simp del: set_sort split: list.splits)+
    then show ?thesis using assms h(2) by (auto simp: jobs_of_def distinct_map inj_on_def)
  qed
  then have "of_others g db (w, previous_job h db)" using h by (simp add: of_others_def split: option.splits)
  with Cons rest show ?case by simp
qed simp

lemma review_goals_jobs_of:
  assumes "distinct (map j_id (jobs db))" "list_all (\<lambda>w. in_goal (gr_input w) \<noteq> Some g) work"
  shows "jobs_of g (snd (review_goals env limits now fresh work route interval db)) = jobs_of g db"
proof -
  have cadence: "jobs_of g (d\<lparr>goal_cadence := c\<rparr>) = jobs_of g d" for c d by (simp add: jobs_of_def)
  have loop: "jobs_of g db3 = jobs_of g db"
    if "with_previous work (db\<lparr>goal_cadence := c\<rparr>) = Inr pending"
      "review_loop env limits now fresh route due (sort_key review_order pending) n 0 True (db\<lparr>goal_cadence := c\<rparr>) = Inr (r, db3)"
    for c pending due n r db3
  proof -
    have "list_all (of_others g (db\<lparr>goal_cadence := c\<rparr>)) pending"
      by (rule with_previous_others [OF _ that(1) assms(2)]) (simp add: assms(1))
    then have "list_all (of_others g (db\<lparr>goal_cadence := c\<rparr>)) (sort_key review_order pending)" by (simp add: list_all_iff)
    from review_loop_jobs_of [OF that(2) this] show ?thesis by (simp add: cadence)
  qed
  have "jobs_of g db' = jobs_of g db" if "review_transaction env limits now fresh work route interval db = Inr (n, db')" for n db'
    using that loop unfolding review_transaction_def Let_def
    by (auto simp: cadence split: sum.splits prod.splits if_splits option.splits)
  then show ?thesis by (auto simp: review_goals_def commit_def split: sum.splits prod.splits)
qed

text \<open>C36: A goal rests: a goal that is not among the active ones, or whose last three reviews since it changed
  found nothing to do, gets no new background work from the goal trigger, and none of its failed or
  interrupted work is taken up again, whatever other goals are reviewed at the same time.\<close>

theorem resting_goals_get_no_work:
  assumes "distinct (map j_id (jobs db))"
    and "\<And>goals goal. gi_goals io = Inr goals \<Longrightarrow> goal \<in> set goals \<Longrightarrow> gd_id goal = g \<Longrightarrow> resting db goal"
  shows "jobs_of g (fire_at env limits config io fresh route now db) = jobs_of g db"
proof -
  have "list_all (\<lambda>w. in_goal (gr_input w) \<noteq> Some g) (map (goal_work env) (due_goals io db goals))"
    if "gi_goals io = Inr goals" for goals
    using assms(2) [OF that] by (auto simp: due_goals_def goal_work_def list_all_iff)
  then show ?thesis using review_goals_jobs_of [OF assms(1)]
    by (simp add: fire_at_def split: option.splits sum.splits)
qed

text \<open>A goal that three reviews left as it was, and one that has had none: only the second gets work.\<close>

definition sample_goal :: "uuid \<Rightarrow> goal_doc" where
  "sample_goal i = new_goal 0 i (lit ''Learn'') []"

definition sample_review :: "uuid \<Rightarrow> agent_job" where
  "sample_review i = (new_job 3600000000000 i i (lit ''goal:'' @ [nat (uint i)])
     (gr_input (goal_work \<lparr>env_json = (\<lambda>_. []), env_uuid = (\<lambda>_. []), env_time = (\<lambda>_. []), env_lower = (\<lambda>_ _. []),
        env_time_max = 0\<rparr> (sample_goal 7))) 60 10 \<lparr>route_profile = [], route_model = None, route_effort = None\<rparr>)
     \<lparr>j_status := Completed\<rparr>"

definition sample_goal_db :: database where
  "sample_goal_db = empty_db\<lparr>jobs := [sample_review 1, sample_review 2, sample_review 3]\<rparr>"

lemma sample_resting: "resting sample_goal_db (sample_goal 7)"
  by (simp add: resting_def idle_goal_reviews_def sample_goal_db_def sample_review_def new_job_def sample_goal_def new_goal_def
      goal_work_def IDLE_REVIEW_LIMIT_def lit_def to_ascii_lowercase_def millis_def)

definition sample_goal_io :: goal_io where
  "sample_goal_io = \<lparr>gi_clock_ok = True, gi_goals = Inr [sample_goal 7, sample_goal 8], gi_idle_ok = (\<lambda>_. True)\<rparr>"

theorem resting_goals_get_no_work_witness:
  "jobs_of 7 (fire_at \<lparr>env_json = (\<lambda>_. []), env_uuid = (\<lambda>_. []), env_time = (\<lambda>_. []), env_lower = (\<lambda>_ _. []),
        env_time_max = 10 ^ 18\<rparr>
      \<lparr>task_timeout_seconds = 60, task_max_turns = 10\<rparr> \<lparr>gc_enabled = True, gc_background_jobs = True, gc_interval = Some (3599 / 2)\<rparr> sample_goal_io
      (\<lambda>g. (g + 100, g + 200)) \<lparr>route_profile = [], route_model = None, route_effort = None\<rparr> 3600000000000 sample_goal_db) = [sample_review 1, sample_review 2, sample_review 3]"
proof -
  have ids: "distinct (map j_id (jobs sample_goal_db))" by (simp add: sample_goal_db_def sample_review_def new_job_def)
  have rest: "resting sample_goal_db goal"
    if "gi_goals sample_goal_io = Inr goals" "goal \<in> set goals" "gd_id goal = 7" for goals goal
  proof -
    have "gd_id (sample_goal i) = i" for i by (simp add: sample_goal_def new_goal_def)
    then have "goal = sample_goal 7" using that by (auto simp: sample_goal_io_def)
    then show ?thesis by (simp only: sample_resting)
  qed
  have "jobs_of 7 sample_goal_db = [sample_review 1, sample_review 2, sample_review 3]"
    by (simp add: jobs_of_def sample_goal_db_def sample_review_def new_job_def goal_work_def sample_goal_def new_goal_def)
  with resting_goals_get_no_work [OF ids rest] show ?thesis by simp
qed

end
