(* ===== verification/Background_Loop.thy ===== *)
theory Background_Loop
  imports Message_Handling Goal_Trigger Background_Work
begin

text \<open>
  The two loops of background work: \<open>src/BoBeService/src/runtime/background_work.rs\<close>. One starts queued jobs and
  cancels running ones, the other tells the owner what became of them. What a task and the worker answer are
  arguments; between two awaits the rest of the program runs, so each part between awaits is one operation on
  the state it finds.
\<close>

section \<open>The tasks\<close>

definition MAX_ACTIVE :: nat where "MAX_ACTIVE = 2"

datatype task_phase = Working | ResultStored | Returned | Panicked

record work_task =
  wt_job :: uuid
  wt_token :: cancellation_ref
  wt_phase :: task_phase

text \<open>Where \<open>start_next\<close> is: it is called by one loop, one call at a time.\<close>

datatype starting = NotStarting | Picked uuid | Checked uuid "uuid option" | Registered uuid cancellation_ref

record work_loop =
  wl_db :: database
  wl_runs :: run_registry
  wl_starting :: starting
  wl_active :: "work_task list"
  wl_cancellations :: "(uuid, cancellation_ref) hmap"

type_synonym goal_reads = "uuid \<Rightarrow> app_error + goal_doc option"

section \<open>Starting a job\<close>

definition pick_task :: "bool \<Rightarrow> work_loop \<Rightarrow> work_loop" where
  "pick_task personal s =
     (case next_queued (wl_db s) of
        None \<Rightarrow> s
      | Some i \<Rightarrow> if personal then s\<lparr>wl_starting := Picked i\<rparr> else s)"

text \<open>The second part is \<open>None\<close> when the goal of the job could not be read.\<close>

definition goal_is_active :: "bool \<Rightarrow> goal_reads \<Rightarrow> uuid option \<Rightarrow> bool option" where
  "goal_is_active enabled goals goal =
     (case goal of
        None \<Rightarrow> Some True
      | Some g \<Rightarrow>
          if \<not> enabled then Some False
          else (case goals g of Inl e \<Rightarrow> None | Inr None \<Rightarrow> Some False
            | Inr (Some d) \<Rightarrow> Some (gd_status d = GoalActive)))"

definition check_task :: "int \<Rightarrow> bool \<Rightarrow> goal_reads \<Rightarrow> work_loop \<Rightarrow> work_loop" where
  "check_task now enabled goals s =
     (case wl_starting s of
        Picked i \<Rightarrow>
          (case get_job i (wl_db s) of
             Inl e \<Rightarrow> s\<lparr>wl_starting := NotStarting\<rparr>
           | Inr job \<Rightarrow>
               (case goal_is_active enabled goals (j_goal job) of
                  None \<Rightarrow> s\<lparr>wl_starting := NotStarting\<rparr>
                | Some False \<Rightarrow> s\<lparr>wl_starting := NotStarting, wl_db := snd (cancel_job now i (wl_db s))\<rparr>
                | Some True \<Rightarrow> s\<lparr>wl_starting := Checked i (j_channel job)\<rparr>))
      | _ \<Rightarrow> s)"

definition register_task :: "cancellation_ref \<Rightarrow> work_loop \<Rightarrow> work_loop" where
  "register_task token s =
     (case wl_starting s of
        Checked i channel \<Rightarrow>
          (case register_cancellation i token BackgroundRun channel (wl_runs s) of
             (Inl e, runs) \<Rightarrow> s\<lparr>wl_starting := NotStarting, wl_runs := runs\<rparr>
           | (Inr _, runs) \<Rightarrow> s\<lparr>wl_starting := Registered i token, wl_runs := runs\<rparr>)
      | _ \<Rightarrow> s)"

definition claim_task :: "execution_limits \<Rightarrow> int \<Rightarrow> work_loop \<Rightarrow> work_loop" where
  "claim_task limits now s =
     (case wl_starting s of
        Registered i token \<Rightarrow>
          (case claim limits now i (wl_db s) of
             (claimed, db) \<Rightarrow>
               if \<not> claimed \<or> get_job i db = Inl (NotFound ''background job was not found'')
               then s\<lparr>wl_db := db, wl_starting := NotStarting, wl_runs := drop_registration i token (wl_runs s)\<rparr>
               else s\<lparr>wl_db := db, wl_starting := NotStarting,
                 wl_active := wl_active s @ [\<lparr>wt_job = i, wt_token = token, wt_phase = Working\<rparr>],
                 wl_cancellations := hm_insert i token (wl_cancellations s)\<rparr>)
      | _ \<Rightarrow> s)"

section \<open>A task\<close>

text \<open>The answer of the worker: an error, or the output and the session.\<close>

definition store_result :: "int \<Rightarrow> rtext + rtext \<times> rtext \<Rightarrow> work_task \<Rightarrow> work_loop \<Rightarrow> database" where
  "store_result now result t s =
     (case result of
        Inr (output, session) \<Rightarrow> finish now (wt_job t) job_status.Completed (Some output) (Some session) None (wl_db s)
      | Inl e \<Rightarrow> finish now (wt_job t) (if token_cancelled (wl_runs s) (wt_token t) then Interrupted else job_status.Failed)
          None None (Some e) (wl_db s))"

definition set_task :: "nat \<Rightarrow> task_phase \<Rightarrow> work_loop \<Rightarrow> work_loop" where
  "set_task k phase s = s\<lparr>wl_active := (wl_active s)[k := (wl_active s ! k)\<lparr>wt_phase := phase\<rparr>]\<rparr>"

definition finish_task :: "int \<Rightarrow> rtext + rtext \<times> rtext \<Rightarrow> nat \<Rightarrow> work_loop \<Rightarrow> work_loop" where
  "finish_task now result k s =
     (set_task k ResultStored s)\<lparr>wl_db := store_result now result (wl_active s ! k) s\<rparr>"

text \<open>The end of a task drops its registration, also when the task panics.\<close>

definition end_task :: "task_phase \<Rightarrow> nat \<Rightarrow> work_loop \<Rightarrow> work_loop" where
  "end_task phase k s =
     (set_task k phase s)\<lparr>wl_db := (if phase = Returned then prune (wl_db s) else wl_db s),
       wl_runs := drop_registration (wt_job (wl_active s ! k)) (wt_token (wl_active s ! k)) (wl_runs s)\<rparr>"

definition join_task :: "nat \<Rightarrow> work_loop \<Rightarrow> work_loop" where
  "join_task k s =
     s\<lparr>wl_active := take k (wl_active s) @ drop (Suc k) (wl_active s),
       wl_cancellations := (if wt_phase (wl_active s ! k) = Returned
         then hm_remove (wt_job (wl_active s ! k)) (wl_cancellations s) else wl_cancellations s)\<rparr>"

section \<open>Watching the running jobs\<close>

definition goal_stopped :: "bool \<Rightarrow> goal_doc option \<Rightarrow> bool" where
  "goal_stopped enabled goal \<longleftrightarrow> \<not> enabled \<or>
     (case goal of None \<Rightarrow> True | Some d \<Rightarrow> gd_status d \<in> {GoalPaused, GoalArchived})"

definition watch_one :: "int \<Rightarrow> bool \<Rightarrow> goal_reads \<Rightarrow> uuid \<times> cancellation_ref \<Rightarrow> work_loop \<Rightarrow> work_loop" where
  "watch_one now enabled goals = (\<lambda>(i, token) s.
     (let stopped_run = s\<lparr>wl_runs := cancel_ref token (wl_runs s)\<rparr> in
      case get_job i (wl_db s) of
        Inl e \<Rightarrow> stopped_run
      | Inr job \<Rightarrow>
          if j_status job = CancelRequested then stopped_run
          else (case j_goal job of
              None \<Rightarrow> s
            | Some g \<Rightarrow>
                (case goals g of
                   Inl e \<Rightarrow> stopped_run
                 | Inr goal \<Rightarrow> if goal_stopped enabled goal
                     then stopped_run\<lparr>wl_db := snd (cancel_job now i (wl_db s))\<rparr> else s))))"

definition watch :: "int \<Rightarrow> bool \<Rightarrow> goal_reads \<Rightarrow> work_loop \<Rightarrow> work_loop" where
  "watch now enabled goals s = fold (watch_one now enabled goals) (wl_cancellations s) s"

text \<open>The end of the loop: what was not joined is cancelled, then awaited.\<close>

definition stop_tasks :: "work_loop \<Rightarrow> work_loop" where
  "stop_tasks s = s\<lparr>wl_runs := fold (\<lambda>(i, token). cancel_ref token) (wl_cancellations s) (wl_runs s)\<rparr>"

section \<open>Due schedules\<close>

text \<open>Whether the goal of a schedule lets it run: an error, \<open>None\<close> when the goal is gone, or the answer.\<close>

definition schedule_goal :: "bool \<Rightarrow> goal_reads \<Rightarrow> agent_schedule \<Rightarrow> app_error + bool option" where
  "schedule_goal enabled goals s =
     (case s_goal s of
        None \<Rightarrow> Inr (Some True)
      | Some g \<Rightarrow> (case goals g of Inl e \<Rightarrow> Inl e | Inr None \<Rightarrow> Inr None
          | Inr (Some d) \<Rightarrow> Inr (Some (enabled \<and> gd_status d = GoalActive))))"

text \<open>\<open>said\<close> is the text of an error.\<close>

fun queue_due ::
  "work_env \<Rightarrow> execution_limits \<Rightarrow> int \<Rightarrow> bool \<Rightarrow> goal_reads \<Rightarrow> (app_error \<Rightarrow> rtext) \<Rightarrow> (uuid \<Rightarrow> uuid \<times> uuid) \<Rightarrow> workload_route \<Rightarrow>
     agent_schedule list \<Rightarrow> database \<Rightarrow> unit outcome" where
  "queue_due env limits now enabled goals said fresh route [] db = (Inr (), db)"
| "queue_due env limits now enabled goals said fresh route (s # rest) db =
     (if \<not> queue_has_capacity db then (Inr (), db)
      else case schedule_goal enabled goals s of
          Inl e \<Rightarrow> (Inl e, db)
        | Inr None \<Rightarrow>
            (case set_schedule_enabled now (s_id s) False db of
               (Inl e, db1) \<Rightarrow> (Inl e, db1)
             | (Inr _, db1) \<Rightarrow> queue_due env limits now enabled goals said fresh route rest
                 (schedule_error (s_id s) (lit ''The associated goal was removed.'') db1))
        | Inr (Some False) \<Rightarrow> queue_due env limits now enabled goals said fresh route rest db
        | Inr (Some True) \<Rightarrow>
            (case enqueue_schedule env limits now (fresh (s_id s)) (s_id s) route db of
               (Inl e, db1) \<Rightarrow> (Inl e, schedule_error (s_id s) (said e) db1)
             | (Inr _, db1) \<Rightarrow> queue_due env limits now enabled goals said fresh route rest db1))"

definition queue_schedules ::
  "work_env \<Rightarrow> execution_limits \<Rightarrow> int \<Rightarrow> bool \<Rightarrow> bool \<Rightarrow> goal_reads \<Rightarrow> (app_error \<Rightarrow> rtext) \<Rightarrow> (uuid \<Rightarrow> uuid \<times> uuid) \<Rightarrow>
     workload_route \<Rightarrow> database \<Rightarrow> unit outcome" where
  "queue_schedules env limits now personal enabled goals said fresh route db =
     (if \<not> personal then (Inr (), db)
      else case release_owner_answers env limits now fresh route (expire_owner_inputs now db) of
          (Inl e, db1) \<Rightarrow> (Inl e, db1)
        | (Inr _, db1) \<Rightarrow> queue_due env limits now enabled goals said fresh route (due_schedules now db1) db1)"

text \<open>It is a sequence of the transactions of theory Background\_Work, whose invariants it keeps.\<close>

lemma work_then: "reachable_work env limits db \<Longrightarrow> work_step env limits db db' \<Longrightarrow> reachable_work env limits db'"
  by (rule reach_step)

lemma queue_due_reachable:
  "reachable_work env limits db \<Longrightarrow>
     reachable_work env limits (snd (queue_due env limits now enabled goals said fresh route due db))"
proof (induction due arbitrary: db)
  case (Cons s rest)
  have off: "reachable_work env limits (snd (set_schedule_enabled now (s_id s) False db))"
    by (rule work_then [OF Cons.prems enables])
  have on: "reachable_work env limits (snd (enqueue_schedule env limits now (fresh (s_id s)) (s_id s) route db))"
    by (rule work_then [OF Cons.prems enqueues])
  note failed = work_then [OF _ schedule_fails]
  show ?case
    using Cons off on failed [OF off] failed [OF on]
    by (auto simp: case_prod_unfold split: sum.split option.split bool.split)
qed simp

lemma queue_schedules_reachable:
  assumes "reachable_work env limits db"
  shows "reachable_work env limits (snd (queue_schedules env limits now personal enabled goals said fresh route db))"
proof -
  have "reachable_work env limits (snd (release_owner_answers env limits now fresh route (expire_owner_inputs now db)))"
    by (rule work_then [OF work_then [OF assms expires] releases])
  then show ?thesis
    using assms queue_due_reachable by (simp add: queue_schedules_def case_prod_unfold split: sum.split)
qed

text \<open>An answer that cannot be released keeps every schedule from running.\<close>

lemma failed_release_queues_nothing:
  assumes "fst (release_owner_answers env limits now fresh route (expire_owner_inputs now db)) = Inl e"
  shows "schedules (snd (queue_schedules env limits now personal enabled goals said fresh route db)) = schedules db \<and>
    length (jobs (snd (queue_schedules env limits now personal enabled goals said fresh route db))) = length (jobs db)"
proof -
  have "snd (release_owner_answers env limits now fresh route (expire_owner_inputs now db)) = expire_owner_inputs now db"
    using assms by (auto simp: release_owner_answers_def commit_def split: sum.splits prod.splits)
  then show ?thesis
    using assms by (auto simp: queue_schedules_def case_prod_unfold expire_owner_inputs_def Let_def)
qed

section \<open>Steps\<close>

definition live :: "work_loop \<Rightarrow> work_task list" where
  "live s = filter (\<lambda>t. wt_phase t \<in> {Working, ResultStored}) (wl_active s)"

text \<open>The runs that the loop has registered.\<close>

definition own_runs :: "work_loop \<Rightarrow> uuid set" where
  "own_runs s = wt_job ` set (live s) \<union> (case wl_starting s of Registered i _ \<Rightarrow> {i} | _ \<Rightarrow> {})"

text \<open>\<open>stored\<close>: everything else in the daemon changes the tables. \<open>elsewhere\<close>: it registers and cancels runs, and
  drops its own.\<close>

inductive loop_step :: "execution_limits \<Rightarrow> (nat list \<Rightarrow> byte list) \<Rightarrow> work_loop \<Rightarrow> work_loop \<Rightarrow> bool" for limits sha256 where
  picks: "length (wl_active s) < MAX_ACTIVE \<Longrightarrow> wl_starting s = NotStarting \<Longrightarrow> loop_step limits sha256 s (pick_task personal s)"
| checks: "loop_step limits sha256 s (check_task now enabled goals s)"
| registers: "loop_step limits sha256 s (register_task token s)"
| takes: "loop_step limits sha256 s (claim_task limits now s)"
| watches: "loop_step limits sha256 s (watch_one now enabled goals entry s)"
| stores: "k < length (wl_active s) \<Longrightarrow> wt_phase (wl_active s ! k) = Working \<Longrightarrow>
    loop_step limits sha256 s (finish_task now result k s)"
| returns: "k < length (wl_active s) \<Longrightarrow> wt_phase (wl_active s ! k) = ResultStored \<Longrightarrow>
    loop_step limits sha256 s (end_task Returned k s)"
| panics: "k < length (wl_active s) \<Longrightarrow> wt_phase (wl_active s ! k) \<in> {Working, ResultStored} \<Longrightarrow>
    loop_step limits sha256 s (end_task Panicked k s)"
| joins: "k < length (wl_active s) \<Longrightarrow> wt_phase (wl_active s ! k) \<in> {Returned, Panicked} \<Longrightarrow>
    loop_step limits sha256 s (join_task k s)"
| stored: "loop_step limits sha256 s (s\<lparr>wl_db := db\<rparr>)"
| elsewhere: "registry_step sha256 other (wl_runs s) r \<Longrightarrow> (\<And>i. i \<in> own_runs s \<Longrightarrow> registry_step sha256 i (wl_runs s) r) \<Longrightarrow>
    loop_step limits sha256 s (s\<lparr>wl_runs := r\<rparr>)"

definition idle_loop :: "database \<Rightarrow> work_loop" where
  "idle_loop db = \<lparr>wl_db = db, wl_runs = new_registry, wl_starting = NotStarting, wl_active = [], wl_cancellations = []\<rparr>"

inductive reachable_loop :: "execution_limits \<Rightarrow> (nat list \<Rightarrow> byte list) \<Rightarrow> work_loop \<Rightarrow> bool" for limits sha256 where
  at_start: "reachable_loop limits sha256 (idle_loop db)"
| later: "reachable_loop limits sha256 s \<Longrightarrow> loop_step limits sha256 s s' \<Longrightarrow> reachable_loop limits sha256 s'"

section \<open>Tasks exclude each other\<close>

definition runs_as :: "uuid \<Rightarrow> cancellation_ref \<Rightarrow> run_registry \<Rightarrow> bool" where
  "runs_as i token r \<longleftrightarrow> (\<exists>x. hm_get (active_runs r) i = Some x \<and> run_cancellation x = token \<and> run_kind_of x = BackgroundRun)"

lemma runs_as_modify:
  "runs_as i token r \<Longrightarrow> (\<And>x. run_cancellation (f x) = run_cancellation x \<and> run_kind_of (f x) = run_kind_of x) \<Longrightarrow>
     runs_as i token (r\<lparr>active_runs := hm_modify j f (active_runs r)\<rparr>)"
  by (auto simp: runs_as_def hm_get_modify)

lemma runs_as_tokens [simp]: "runs_as i token (r\<lparr>token_cancelled := c\<rparr>) = runs_as i token r"
  "runs_as i token (cancel_ref t r) = runs_as i token r"
  by (simp_all add: runs_as_def cancel_ref_def)

lemma runs_as_cancel: "runs_as i token r \<Longrightarrow> runs_as i token (snd (cancel_run_id j r))"
  by (auto simp: cancel_run_id_def intro!: runs_as_modify split: option.splits)

lemma runs_as_interrupt:
  assumes "runs_as i token r"
  shows "runs_as i token (interrupt_automation channel r)"
proof -
  have "runs_as i token (fold (\<lambda>j r. snd (cancel_run_id j r)) ids r)" for ids
    using assms by (induction ids arbitrary: r) (auto intro: runs_as_cancel)
  then show ?thesis by (simp add: interrupt_automation_def)
qed

lemma runs_as_register:
  "runs_as i token r \<Longrightarrow> runs_as i token (snd (register_cancellation j t kind channel r))"
  by (auto simp: runs_as_def register_cancellation_def hm_get_insert)

lemma runs_as_drop: "runs_as i token r \<Longrightarrow> i \<noteq> j \<Longrightarrow> runs_as i token (drop_registration j t r)"
  by (simp add: drop_registration_def finish_run_def runs_as_def hm_get_remove cancel_ref_def)

lemma runs_as_input: "runs_as i token r \<Longrightarrow> runs_as i token (snd (accept_run_input sha256 j input t follow_up channel r))"
  by (auto simp: accept_run_input_def begin_input_def Let_def intro!: runs_as_modify split: option.splits prod.splits if_splits bool.splits)

lemma runs_as_cancel_run: "runs_as i token r \<Longrightarrow> runs_as i token (snd (cancel_run job_cancel j channel r))"
  by (auto simp: cancel_run_def case_prod_unfold Let_def intro!: runs_as_cancel split: option.splits sum.splits)

lemma runs_as_step:
  "registry_step sha256 i r r' \<Longrightarrow> runs_as i token r \<Longrightarrow> runs_as i token r'"
  by (induction rule: registry_step.induct)
    (auto intro: runs_as_register runs_as_cancel runs_as_interrupt runs_as_drop runs_as_input runs_as_cancel_run
      simp: started_def finish_input_def intro!: runs_as_modify)

text \<open>The invariant.\<close>

definition loop_inv :: "work_loop \<Rightarrow> bool" where
  "loop_inv s \<longleftrightarrow> length (wl_active s) \<le> MAX_ACTIVE \<and>
     (wl_starting s \<noteq> NotStarting \<longrightarrow> length (wl_active s) < MAX_ACTIVE) \<and>
     distinct (map wt_job (live s)) \<and> (\<forall>t \<in> set (live s). runs_as (wt_job t) (wt_token t) (wl_runs s)) \<and>
     (\<forall>i token. wl_starting s = Registered i token \<longrightarrow> runs_as i token (wl_runs s) \<and> i \<notin> wt_job ` set (live s))"

lemma live_simps [simp]: "live (s\<lparr>wl_db := db\<rparr>) = live s" "live (s\<lparr>wl_runs := r\<rparr>) = live s"
  "live (s\<lparr>wl_starting := p\<rparr>) = live s" "live (s\<lparr>wl_cancellations := c\<rparr>) = live s"
  by (simp_all add: live_def)

lemma inv_starts:
  "loop_inv s \<Longrightarrow> (p \<noteq> NotStarting \<Longrightarrow> length (wl_active s) < MAX_ACTIVE) \<Longrightarrow> (\<And>i token. p \<noteq> Registered i token) \<Longrightarrow>
     loop_inv (s\<lparr>wl_starting := p\<rparr>)"
  by (auto simp: loop_inv_def)

lemma inv_stored: "loop_inv s \<Longrightarrow> loop_inv (s\<lparr>wl_db := db\<rparr>)"
  by (simp add: loop_inv_def)

lemma inv_runs:
  "loop_inv s \<Longrightarrow> (\<And>i token. i \<in> own_runs s \<Longrightarrow> runs_as i token (wl_runs s) \<Longrightarrow> runs_as i token r) \<Longrightarrow> loop_inv (s\<lparr>wl_runs := r\<rparr>)"
  unfolding loop_inv_def own_runs_def by (simp split: starting.splits)

lemma inv_register:
  assumes "loop_inv s"
  shows "loop_inv (register_task token s)"
proof (cases "wl_starting s")
  case (Checked i channel)
  have free: "i \<notin> wt_job ` set (live s)" if "hm_get (active_runs (wl_runs s)) i = None"
    using assms that by (auto simp: loop_inv_def runs_as_def)
  show ?thesis
  proof (cases "hm_get (active_runs (wl_runs s)) i")
    case None
    then obtain r where r: "register_cancellation i token BackgroundRun channel (wl_runs s) = (Inr (), r)" "runs_as i token r"
      by (simp add: register_cancellation_def runs_as_def hm_get_insert)
    have "loop_inv (s\<lparr>wl_runs := r\<rparr>)"
      by (rule inv_runs [OF assms]) (use runs_as_register r(1) in \<open>metis snd_conv\<close>)
    then show ?thesis
      using Checked free [OF None] r by (simp add: register_task_def loop_inv_def)
  next
    case (Some x)
    then show ?thesis
      using assms Checked by (auto simp: register_task_def register_cancellation_def intro!: inv_starts)
  qed
qed (use assms in \<open>simp_all add: register_task_def\<close>)

lemma inv_claim:
  assumes "loop_inv s"
  shows "loop_inv (claim_task limits now s)"
proof (cases "wl_starting s")
  case (Registered i token)
  have room: "length (wl_active s) < MAX_ACTIVE" and i: "runs_as i token (wl_runs s)" "i \<notin> wt_job ` set (live s)"
    using assms Registered by (auto simp: loop_inv_def)
  have "loop_inv (s\<lparr>wl_db := db, wl_starting := NotStarting, wl_runs := drop_registration i token (wl_runs s)\<rparr>)" for db
    using assms i by (auto simp: loop_inv_def intro!: runs_as_drop)
  moreover have "loop_inv (s\<lparr>wl_db := db, wl_starting := NotStarting,
      wl_active := wl_active s @ [\<lparr>wt_job = i, wt_token = token, wt_phase = Working\<rparr>],
      wl_cancellations := c\<rparr>)" for db c
    using assms room i by (auto simp: loop_inv_def live_def)
  ultimately show ?thesis using Registered by (auto simp: claim_task_def case_prod_unfold)
qed (use assms in \<open>simp_all add: claim_task_def\<close>)

lemma inv_same_live:
  assumes "loop_inv s" "map (\<lambda>t. (wt_job t, wt_token t)) (live s') = map (\<lambda>t. (wt_job t, wt_token t)) (live s)"
    and "wl_starting s' = wl_starting s" "length (wl_active s') \<le> length (wl_active s)" "wl_runs s' = wl_runs s"
  shows "loop_inv s'"
proof -
  have jobs: "map wt_job (live s') = map wt_job (live s)"
    using arg_cong [OF assms(2), of "map fst"] by (simp add: comp_def)
  have "(\<lambda>t. (wt_job t, wt_token t)) ` set (live s') = (\<lambda>t. (wt_job t, wt_token t)) ` set (live s)"
    using arg_cong [OF assms(2), of set] by simp
  moreover have "\<forall>p \<in> (\<lambda>t. (wt_job t, wt_token t)) ` set (live s). runs_as (fst p) (snd p) (wl_runs s)"
    using assms(1) by (simp add: loop_inv_def)
  ultimately have "\<forall>p \<in> (\<lambda>t. (wt_job t, wt_token t)) ` set (live s'). runs_as (fst p) (snd p) (wl_runs s)" by (simp only:)
  then have runs: "\<forall>t \<in> set (live s'). runs_as (wt_job t) (wt_token t) (wl_runs s)" by simp
  have "wt_job ` set (live s') = wt_job ` set (live s)" using arg_cong [OF jobs, of set] by simp
  then show ?thesis
    using assms(1,3,4,5) runs jobs by (auto simp: loop_inv_def)
qed

lemma split_active:
  assumes "k < length (wl_active s)"
  obtains a t b where "wl_active s = a @ t # b" "k = length a"
  using id_take_nth_drop [OF assms] assms by (metis length_take min.absorb4)

lemma inv_finish:
  assumes "loop_inv s" "k < length (wl_active s)" "wt_phase (wl_active s ! k) = Working"
  shows "loop_inv (finish_task now result k s)"
proof -
  obtain a t b where at: "wl_active s = a @ t # b" "k = length a" by (rule split_active [OF assms(2)])
  with assms(3) have t: "wt_phase t = Working" by simp
  have "map (\<lambda>t. (wt_job t, wt_token t)) (live (finish_task now result k s)) = map (\<lambda>t. (wt_job t, wt_token t)) (live s)"
    by (simp add: finish_task_def set_task_def live_def at t)
  then show ?thesis
    by (rule inv_same_live [OF assms(1)]) (simp_all add: finish_task_def set_task_def)
qed

lemma inv_end:
  assumes "loop_inv s" "k < length (wl_active s)" "wt_phase (wl_active s ! k) \<in> {Working, ResultStored}" "phase \<in> {Returned, Panicked}"
  shows "loop_inv (end_task phase k s)"
proof -
  obtain a t b where at: "wl_active s = a @ t # b" "k = length a" by (rule split_active [OF assms(2)])
  with assms(3) have t: "wt_phase t \<in> {Working, ResultStored}" by simp
  have live: "live s = live (s\<lparr>wl_active := a\<rparr>) @ t # live (s\<lparr>wl_active := b\<rparr>)"
    "live (end_task phase k s) = live (s\<lparr>wl_active := a\<rparr>) @ live (s\<lparr>wl_active := b\<rparr>)"
    using t assms(4) by (auto simp: end_task_def set_task_def live_def at)
  have still: "runs_as i token (wl_runs (end_task phase k s))" if "runs_as i token (wl_runs s)" "i \<noteq> wt_job t" for i token
    using that by (simp add: end_task_def set_task_def at runs_as_drop)
  have "wt_job t \<notin> wt_job ` set (live (end_task phase k s))"
    using assms(1) unfolding loop_inv_def live by auto
  then have other: "wt_job u \<noteq> wt_job t" if "u \<in> set (live (end_task phase k s))" for u
    using that by (metis image_eqI)
  have "wl_starting (end_task phase k s) = wl_starting s" "length (wl_active (end_task phase k s)) = length (wl_active s)"
    by (simp_all add: end_task_def set_task_def)
  then show ?thesis
    using assms(1) still other unfolding loop_inv_def live by auto
qed

lemma inv_join:
  assumes "loop_inv s" "k < length (wl_active s)" "wt_phase (wl_active s ! k) \<in> {Returned, Panicked}"
  shows "loop_inv (join_task k s)"
proof -
  obtain a t b where at: "wl_active s = a @ t # b" "k = length a" by (rule split_active [OF assms(2)])
  with assms(3) have t: "wt_phase t \<in> {Returned, Panicked}" by simp
  have "live (join_task k s) = live s" using t by (auto simp: join_task_def live_def at)
  then have "map (\<lambda>t. (wt_job t, wt_token t)) (live (join_task k s)) = map (\<lambda>t. (wt_job t, wt_token t)) (live s)" by simp
  then show ?thesis
    by (rule inv_same_live [OF assms(1)]) (simp_all add: join_task_def at)
qed

lemma inv_watch_one: "loop_inv s \<Longrightarrow> loop_inv (watch_one now enabled goals entry s)"
  by (cases entry) (auto simp: watch_one_def Let_def loop_inv_def split: sum.splits option.splits)

lemma loop_step_inv: "loop_step limits sha256 s s' \<Longrightarrow> loop_inv s \<Longrightarrow> loop_inv s'"
proof (induction rule: loop_step.induct)
  case (picks s personal)
  then show ?case by (auto simp: pick_task_def split: option.splits intro!: inv_starts)
next
  case (checks s now enabled goals)
  then show ?case
    by (auto simp: check_task_def loop_inv_def split: starting.splits sum.splits option.splits bool.splits)
next
  case (elsewhere other s r)
  then show ?case by (intro inv_runs) (auto intro: runs_as_step)
qed (auto intro: inv_register inv_claim inv_watch_one inv_finish inv_end inv_join inv_stored)

lemma idle_loop_inv: "loop_inv (idle_loop db)"
  by (simp add: idle_loop_def loop_inv_def live_def MAX_ACTIVE_def)

lemma reachable_loop_inv: "reachable_loop limits sha256 s \<Longrightarrow> loop_inv s"
  by (induction rule: reachable_loop.induct) (blast intro: loop_step_inv idle_loop_inv)+

lemma runs_as_cancelled: "runs_as i token r \<Longrightarrow> token_cancelled (snd (cancel_run_id i r)) token"
  by (auto simp: runs_as_def cancel_run_id_def cancel_ref_def)

text \<open>A job that starts, as one operation.\<close>

definition start_task :: "execution_limits \<Rightarrow> cancellation_ref \<Rightarrow> work_loop \<Rightarrow> work_loop" where
  "start_task limits token s =
     claim_task limits 0 (register_task token (check_task 0 True (\<lambda>_. Inr None) (pick_task True s)))"

lemma reachable_start:
  assumes "reachable_loop limits sha256 s" "length (wl_active s) < MAX_ACTIVE" "wl_starting s = NotStarting"
  shows "reachable_loop limits sha256 (start_task limits token s)"
  unfolding start_task_def
  by (intro reachable_loop.later [OF _ takes] reachable_loop.later [OF _ registers] reachable_loop.later [OF _ checks]
      reachable_loop.later [OF assms(1) picks] assms(2,3))

lemma start_task_eq:
  assumes "next_queued (wl_db s) = Some i" "get_job i (wl_db s) = Inr job" "j_goal job = None"
    and "claim limits 0 i (wl_db s) = (True, db)" "get_job i db = Inr kept" "hm_get (active_runs (wl_runs s)) i = None"
  shows "start_task limits token s = s\<lparr>wl_db := db, wl_starting := NotStarting,
     wl_runs := snd (register_cancellation i token BackgroundRun (j_channel job) (wl_runs s)),
     wl_active := wl_active s @ [\<lparr>wt_job = i, wt_token = token, wt_phase = Working\<rparr>],
     wl_cancellations := hm_insert i token (wl_cancellations s)\<rparr>"
  using assms
  by (simp add: start_task_def pick_task_def check_task_def goal_is_active_def register_task_def register_cancellation_def
      claim_task_def)

text \<open>C38: Background work is at most two tasks. Tasks that have not ended work on different jobs, so no two attempts
  of a job overlap, and cancelling the run of a task always reaches the task. The rest of the daemon may do
  what it likes to the tables, and register, cancel and drop its own runs.\<close>

theorem background_tasks_exclude_each_other:
  assumes "reachable_loop limits sha256 s"
  shows "length (wl_active s) \<le> 2 \<and> distinct (map wt_job (live s)) \<and>
    (\<forall>t \<in> set (live s). token_cancelled (snd (cancel_run_id (wt_job t) (wl_runs s))) (wt_token t))"
  using reachable_loop_inv [OF assms] runs_as_cancelled unfolding loop_inv_def MAX_ACTIVE_def by blast

text \<open>The first attempt of the job fails and returns. Before it is joined the job is resumed and started again;
  then the first attempt is joined and the owner cancels the job.\<close>

definition first_attempt :: work_loop where
  "first_attempt = start_task example_limits 20 (idle_loop submitted_db)"
definition failed_attempt :: work_loop where
  "failed_attempt = end_task Returned 0 (finish_task 0 (Inl (lit ''timeout'')) 0 first_attempt)"
definition resumed_attempt :: work_loop where
  "resumed_attempt = failed_attempt\<lparr>wl_db := snd (resume 0 50 1 (wl_db failed_attempt))\<rparr>"
definition second_attempt :: work_loop where "second_attempt = start_task example_limits 21 resumed_attempt"
definition unwatched_attempt :: work_loop where
  "unwatched_attempt = (join_task 0 second_attempt)\<lparr>wl_db := cancel_transaction 0 1 (wl_db (join_task 0 second_attempt))\<rparr>"

definition queued_job :: agent_job where "queued_job = new_job 0 1 2 [107] example_work 1800 64 example_route"

lemma first_attempt: "first_attempt =
  \<lparr>wl_db = empty_db\<lparr>jobs := [queued_job\<lparr>j_status := Running\<rparr>]\<rparr>,
   wl_runs = snd (register_cancellation 1 20 BackgroundRun None new_registry), wl_starting = NotStarting,
   wl_active = [\<lparr>wt_job = 1, wt_token = 20, wt_phase = Working\<rparr>], wl_cancellations = [(1, 20)]\<rparr>"
proof -
  have "start_task example_limits 20 (idle_loop submitted_db) = (idle_loop submitted_db)
    \<lparr>wl_db := empty_db\<lparr>jobs := [queued_job\<lparr>j_status := Running\<rparr>]\<rparr>, wl_starting := NotStarting,
     wl_runs := snd (register_cancellation 1 20 BackgroundRun (j_channel queued_job) (wl_runs (idle_loop submitted_db))),
     wl_active := wl_active (idle_loop submitted_db) @ [\<lparr>wt_job = 1, wt_token = 20, wt_phase = Working\<rparr>],
     wl_cancellations := hm_insert 1 20 (wl_cancellations (idle_loop submitted_db))\<rparr>"
    by (rule start_task_eq [where job = queued_job and kept = "queued_job\<lparr>j_status := Running\<rparr>"])
      (simp_all add: idle_loop_def submitted_db queued_job_def next_queued_def get_job_def find_row_def claim_def new_job_def example_defs
        empty_db_def new_registry_def)
  then show ?thesis by (simp add: first_attempt_def idle_loop_def queued_job_def new_job_def example_defs)
qed

lemma failed_attempt: "failed_attempt = first_attempt
  \<lparr>wl_db := empty_db\<lparr>jobs := [queued_job\<lparr>j_status := job_status.Failed, j_error := Some (lit ''timeout'')\<rparr>]\<rparr>,
   wl_runs := drop_registration 1 20 (wl_runs first_attempt), wl_active := [\<lparr>wt_job = 1, wt_token = 20, wt_phase = Returned\<rparr>]\<rparr>"
  by (simp add: failed_attempt_def first_attempt end_task_def finish_task_def set_task_def store_result_def register_cancellation_def
      new_registry_def queued_job_def new_job_def finish_def has_open_input_def empty_db_def prune_def prune_schedules_def
      prune_jobs_def prune_inputs_def retire_def delivered_job_def finished_status_def MAX_RETAINED_def insert_or_ignore_def Let_def)

lemma resumed_attempt: "resumed_attempt = failed_attempt\<lparr>wl_db := empty_db\<lparr>jobs := [queued_job
   \<lparr>j_attempt := 2, j_delivery_id := 50\<rparr>]\<rparr>\<rparr>"
  by (simp add: resumed_attempt_def failed_attempt resume_def commit_def resume_in_def queued_job_def new_job_def empty_db_def
      has_open_input_def outstanding_def active_status_def MAX_OUTSTANDING_def example_defs Let_def)

lemma second_attempt: "second_attempt = resumed_attempt
  \<lparr>wl_db := empty_db\<lparr>jobs := [queued_job\<lparr>j_attempt := 2, j_delivery_id := 50, j_status := Running\<rparr>]\<rparr>,
   wl_runs := snd (register_cancellation 1 21 BackgroundRun None (wl_runs resumed_attempt)),
   wl_active := [\<lparr>wt_job = 1, wt_token = 20, wt_phase = Returned\<rparr>, \<lparr>wt_job = 1, wt_token = 21, wt_phase = Working\<rparr>],
   wl_cancellations := [(1, 21)]\<rparr>"
proof -
  have "start_task example_limits 21 resumed_attempt = resumed_attempt
    \<lparr>wl_db := empty_db\<lparr>jobs := [queued_job\<lparr>j_attempt := 2, j_delivery_id := 50, j_status := Running\<rparr>]\<rparr>,
     wl_starting := NotStarting,
     wl_runs := snd (register_cancellation 1 21 BackgroundRun (j_channel (queued_job\<lparr>j_attempt := 2, j_delivery_id := 50\<rparr>)) (wl_runs resumed_attempt)),
     wl_active := wl_active resumed_attempt @ [\<lparr>wt_job = 1, wt_token = 21, wt_phase = Working\<rparr>],
     wl_cancellations := hm_insert 1 21 (wl_cancellations resumed_attempt)\<rparr>"
    by (rule start_task_eq [where job = "queued_job\<lparr>j_attempt := 2, j_delivery_id := 50\<rparr>" and kept = "queued_job\<lparr>j_attempt := 2, j_delivery_id := 50, j_status := Running\<rparr>"])
      (simp_all add: resumed_attempt failed_attempt first_attempt queued_job_def next_queued_def get_job_def find_row_def claim_def
        new_job_def example_defs empty_db_def new_registry_def drop_registration_def finish_run_def cancel_ref_def register_cancellation_def)
  then show ?thesis
    by (simp add: second_attempt_def resumed_attempt failed_attempt first_attempt queued_job_def new_job_def example_defs)
qed

lemma unwatched_attempt: "unwatched_attempt = (join_task 0 second_attempt)
  \<lparr>wl_db := empty_db\<lparr>jobs := [queued_job\<lparr>j_attempt := 2, j_delivery_id := 50, j_status := CancelRequested, j_delivery := Suppressed\<rparr>]\<rparr>\<rparr>"
  by (simp add: unwatched_attempt_def second_attempt join_task_def cancel_transaction_def queued_job_def new_job_def empty_db_def Let_def)

lemma attempts_reachable:
  "reachable_loop example_limits sha256 first_attempt" "reachable_loop example_limits sha256 second_attempt"
  "reachable_loop example_limits sha256 unwatched_attempt"
proof -
  show one: "reachable_loop example_limits sha256 first_attempt"
    unfolding first_attempt_def by (rule reachable_start [OF at_start]) (simp_all add: idle_loop_def MAX_ACTIVE_def)
  have "reachable_loop example_limits sha256 failed_attempt"
    unfolding failed_attempt_def
    by (intro reachable_loop.later [OF _ returns] reachable_loop.later [OF one stores])
      (simp_all add: first_attempt finish_task_def set_task_def)
  then have "reachable_loop example_limits sha256 resumed_attempt"
    unfolding resumed_attempt_def by (rule reachable_loop.later [OF _ stored])
  then show two: "reachable_loop example_limits sha256 second_attempt"
    unfolding second_attempt_def
    by (rule reachable_start) (simp_all add: resumed_attempt failed_attempt first_attempt MAX_ACTIVE_def)
  show "reachable_loop example_limits sha256 unwatched_attempt"
    unfolding unwatched_attempt_def
    by (intro reachable_loop.later [OF _ stored] reachable_loop.later [OF two joins]) (simp_all add: second_attempt)
qed

theorem background_tasks_exclude_each_other_witness:
  "length (wl_active second_attempt) = 2 \<and> map wt_job (live second_attempt) = [1] \<and>
   token_cancelled (snd (cancel_run_id 1 (wl_runs second_attempt))) 21"
  using background_tasks_exclude_each_other [OF attempts_reachable(2) [of "\<lambda>_. []"]] by (simp add: second_attempt live_def)

section \<open>Cancelled jobs\<close>

text \<open>What the loop looks for.\<close>

definition must_stop :: "bool \<Rightarrow> goal_reads \<Rightarrow> uuid \<Rightarrow> database \<Rightarrow> bool" where
  "must_stop enabled goals i db \<longleftrightarrow>
     (case get_job i db of Inl e \<Rightarrow> True
      | Inr job \<Rightarrow> j_status job = CancelRequested \<or>
          (case j_goal job of None \<Rightarrow> False
           | Some g \<Rightarrow> (case goals g of Inl e \<Rightarrow> True | Inr goal \<Rightarrow> goal_stopped enabled goal)))"

lemma watch_one_tokens:
  "token_cancelled (wl_runs (watch_one now enabled goals (i, token) s)) u \<longleftrightarrow>
     token_cancelled (wl_runs s) u \<or> (u = token \<and> must_stop enabled goals i (wl_db s))"
  by (auto simp: watch_one_def must_stop_def cancel_ref_def Let_def split: sum.splits option.splits)

lemma watch_other_tokens:
  assumes "token \<notin> snd ` set entries"
  shows "token_cancelled (wl_runs (fold (watch_one now enabled goals) entries s)) token = token_cancelled (wl_runs s) token"
  using assms
proof (induction entries arbitrary: s)
  case (Cons x entries)
  then show ?case by (cases x) (auto simp: watch_one_tokens)
qed simp

text \<open>C39: A task that has returned is not forgotten when it ends, but when it is joined. If its job was resumed and
  started again in between, joining it forgets the token of the new attempt: from then on neither a
  cancellation of the job, nor a goal that is paused or archived, nor the end of the daemon's loop cancels the
  attempt that is running.\<close>

theorem joining_the_old_attempt_unwatches_the_new_one:
  assumes "hm_ok (wl_cancellations s)" "k < length (wl_active s)" "wt_phase (wl_active s ! k) = Returned"
    and t: "t \<in> set (live s)" "wt_job t = wt_job (wl_active s ! k)"
    and own: "\<forall>(i, token) \<in> set (wl_cancellations s). token = wt_token t \<longrightarrow> i = wt_job t"
    and running: "\<not> token_cancelled (wl_runs s) (wt_token t)"
  shows "t \<in> set (live (join_task k s)) \<and>
    \<not> token_cancelled (wl_runs (watch now enabled goals ((join_task k s)\<lparr>wl_db := db\<rparr>))) (wt_token t) \<and>
    \<not> token_cancelled (wl_runs (stop_tasks (join_task k s))) (wt_token t)"
proof -
  obtain a u b where at: "wl_active s = a @ u # b" "k = length a" by (rule split_active [OF assms(2)])
  have live: "t \<in> set (live (join_task k s))" using t(1) assms(3) by (auto simp: join_task_def live_def at)
  have gone: "wt_token t \<notin> snd ` set (wl_cancellations (join_task k s))"
    using own assms(1,3) t(2) by (auto simp: join_task_def AList.delete_eq)
  have folded: "token_cancelled (fold (\<lambda>(i, token). cancel_ref token) entries r) (wt_token t) = token_cancelled r (wt_token t)"
    if "wt_token t \<notin> snd ` set entries" for entries r
    using that by (induction entries arbitrary: r) (auto simp: cancel_ref_def)
  have kept: "wl_runs (join_task k s) = wl_runs s" by (simp add: join_task_def)
  show ?thesis
    using live running watch_other_tokens [OF gone] folded [OF gone] by (simp add: watch_def stop_tasks_def kept)
qed

theorem joining_the_old_attempt_unwatches_the_new_one_witness:
  "reachable_loop example_limits (\<lambda>_. []) unwatched_attempt \<and>
   map (\<lambda>t. (wt_job t, wt_token t)) (live unwatched_attempt) = [(1, 21)] \<and>
   map j_status (jobs (wl_db unwatched_attempt)) = [CancelRequested] \<and>
   \<not> token_cancelled (wl_runs (watch 0 True (\<lambda>_. Inr None) unwatched_attempt)) 21 \<and>
   \<not> token_cancelled (wl_runs (stop_tasks (join_task 0 second_attempt))) 21"
proof -
  have "\<not> token_cancelled (wl_runs second_attempt) 21"
    by (simp add: second_attempt resumed_attempt failed_attempt first_attempt register_cancellation_def new_registry_def
        drop_registration_def finish_run_def cancel_ref_def)
  then have "\<not> token_cancelled (wl_runs (watch 0 True (\<lambda>_. Inr None) unwatched_attempt)) 21 \<and>
      \<not> token_cancelled (wl_runs (stop_tasks (join_task 0 second_attempt))) 21"
    using joining_the_old_attempt_unwatches_the_new_one [of second_attempt 0 "\<lparr>wt_job = 1, wt_token = 21, wt_phase = Working\<rparr>" 0 True "\<lambda>_. Inr None"
      "wl_db unwatched_attempt"]
    by (simp add: unwatched_attempt_def second_attempt live_def)
  moreover have "map (\<lambda>t. (wt_job t, wt_token t)) (live unwatched_attempt) = [(1, 21)]"
    by (simp add: unwatched_attempt second_attempt join_task_def live_def)
  moreover have "map j_status (jobs (wl_db unwatched_attempt)) = [CancelRequested]" by (simp add: unwatched_attempt)
  ultimately show ?thesis using attempts_reachable(3) by simp
qed

end
