(* ===== verification/Result_Delivery.thy ===== *)
theory Result_Delivery
  imports Background_Loop
begin

text \<open>
  Telling the owner what became of background work: \<open>deliver_one\<close> of
  \<open>src/BoBeService/src/runtime/background_work.rs\<close>. The state is the one of theory Proactive_Turns, which shares
  the channels, the cooldown and the conversations. The steps of the task that tells are apart, and other tasks act
  between them (\<open>meanwhile\<close>): clients send receipts, the job is cancelled or resumed. An error of the database
  ends the operation and is left out, and so is a write that is dropped before the database runs it.
\<close>

section \<open>Whether to tell\<close>

definition goal_update_allowed :: "bool \<Rightarrow> goal_reads \<Rightarrow> uuid option \<Rightarrow> bool option" where
  "goal_update_allowed enabled goals goal =
     (case goal of
        None \<Rightarrow> Some True
      | Some g \<Rightarrow>
          if \<not> enabled then Some False
          else (case goals g of Inl e \<Rightarrow> None | Inr None \<Rightarrow> Some False
            | Inr (Some d) \<Rightarrow> Some (gd_status d \<in> {GoalActive, GoalCompleted})))"

definition tables :: "reach_out_state \<Rightarrow> database" where "tables s = store (ro_service s)"

definition with_tables :: "(database \<Rightarrow> database) \<Rightarrow> reach_out_state \<Rightarrow> reach_out_state" where
  "with_tables f s = s\<lparr>ro_service := (ro_service s)\<lparr>store := f (tables s)\<rparr>\<rparr>"

definition update_channel :: "database \<Rightarrow> uuid" where
  "update_channel db = (case get_latest_readable_conversation 1 None db of None \<Rightarrow> owner_channel | Some (c, _) \<Rightarrow> c_channel c)"

definition can_offer_update :: "timely_io \<Rightarrow> turn_config \<Rightarrow> reach_out_state \<Rightarrow> bool \<times> reach_out_state" where
  "can_offer_update io cfg s =
     (if \<not> is_idle (ro_admission s) then (False, s)
      else (case activation_is_timely io cfg (tables s) (ro_cooldown s) of (timely, r) \<Rightarrow> (timely, s\<lparr>ro_cooldown := r\<rparr>)))"

record delivery_io =
  di_sha256 :: "nat list \<Rightarrow> byte list"
  di_now :: int
  di_goals_enabled :: bool
  di_goals :: goal_reads
  di_timely :: timely_io
  di_config :: turn_config

text \<open>Up to the evaluation of the worker: the job and the channel to tell it in.\<close>

definition prepare_delivery :: "delivery_io \<Rightarrow> bool \<Rightarrow> reach_out_state \<Rightarrow> (agent_job \<times> uuid) option \<times> reach_out_state" where
  "prepare_delivery io personal s =
     (case next_delivery (di_now io) (tables s) of
        None \<Rightarrow> (None, s)
      | Some i \<Rightarrow>
          (case get_job i (tables s) of
             Inl e \<Rightarrow> (None, s)
           | Inr job \<Rightarrow>
               let later = (None, with_tables (defer_delivery (di_now io) i (j_delivery_id job) 30) s) in
               (case goal_update_allowed (di_goals_enabled io) (di_goals io) (j_goal job) of
                  None \<Rightarrow> (None, s)
                | Some False \<Rightarrow> (None, with_tables (suppress_delivery i (j_delivery_id job)) s)
                | Some True \<Rightarrow>
                    let preferred = (case j_channel job of Some c \<Rightarrow> c | None \<Rightarrow> update_channel (tables s)) in
                    if j_goal job = None then (if personal then Some (job, preferred) else None, s)
                    else (case offer_channel (di_sha256 io) preferred False (ro_connections s) of
                        None \<Rightarrow> later
                      | Some channel \<Rightarrow>
                          if \<not> has_channel (di_sha256 io) channel (ro_connections s) then later
                          else (case can_offer_update (di_timely io) (di_config io) s of
                              (False, s1) \<Rightarrow> (None, with_tables (defer_delivery (di_now io) i (j_delivery_id job) 30) s1)
                            | (True, s1) \<Rightarrow> (if personal then Some (job\<lparr>j_channel := Some channel\<rparr>, channel) else None, s1))))))"

text \<open>After it, for the work of a goal: the answer, then the same questions again.\<close>

definition judge_delivery ::
  "delivery_io \<Rightarrow> app_error + background_offer \<Rightarrow> agent_job \<Rightarrow> uuid \<Rightarrow> reach_out_state \<Rightarrow> bool \<times> reach_out_state" where
  "judge_delivery io answer job channel s =
     (let defer = (\<lambda>seconds. with_tables (defer_delivery (di_now io) (j_id job) (j_delivery_id job) seconds));
          suppress = with_tables (suppress_delivery (j_id job) (j_delivery_id job)) in
      case answer of
        Inl e \<Rightarrow> (False, defer 300 s)
      | Inr (LaterUpdate seconds) \<Rightarrow> (False, defer seconds s)
      | Inr SilentUpdate \<Rightarrow> (False, suppress s)
      | Inr OfferUpdate \<Rightarrow>
          (case goal_update_allowed (di_goals_enabled io) (di_goals io) (j_goal job) of
             None \<Rightarrow> (False, s)
           | Some False \<Rightarrow> (False, suppress s)
           | Some True \<Rightarrow>
               (case can_offer_update (di_timely io) (di_config io) s of
                  (False, s1) \<Rightarrow> (False, defer 30 s1)
                | (True, s1) \<Rightarrow>
                    if has_channel (di_sha256 io) channel (ro_connections s1) then (True, s1) else (False, defer 30 s1))))"

section \<open>Telling\<close>

text \<open>The turn, the claim and the registration. An early return drops the permit and cancels its token; the claim
  stays as it is when the registration is refused.\<close>

definition begin_delivery ::
  "delivery_io \<Rightarrow> agent_job \<Rightarrow> uuid \<Rightarrow> reach_out_state \<Rightarrow> (agent_job \<times> turn_permit) option \<times> reach_out_state" where
  "begin_delivery io job channel s =
     (case try_channel Background channel None (ro_admission s) of
        (None, a) \<Rightarrow> (None, with_tables (defer_delivery (di_now io) (j_id job) (j_delivery_id job) 30) (s\<lparr>ro_admission := a\<rparr>))
      | (Some permit, a) \<Rightarrow>
          (case claim_delivery (j_id job) (j_delivery_id job) channel (tables s) of
             (None, db) \<Rightarrow> (None, with_tables (\<lambda>_. db) (s\<lparr>ro_admission := drop_permit permit a\<rparr>))
           | (Some claimed, db) \<Rightarrow>
               (case register_cancellation (j_delivery_id claimed) (permit_cancellation permit) DeliveryRun (Some channel) (ro_runs s) of
                  (Inl e, runs) \<Rightarrow> (None, with_tables (\<lambda>_. db) (s\<lparr>ro_admission := drop_permit permit a,
                    ro_runs := cancel_ref (permit_cancellation permit) runs\<rparr>))
                | (Inr _, runs) \<Rightarrow> (Some (claimed, permit), with_tables (\<lambda>_. db) (s\<lparr>ro_admission := a, ro_runs := runs\<rparr>)))))"

text \<open>What was told: everything; nothing (the run was cancelled before its first step); the deltas that were
  observed before it was cancelled; everything, but the run was cancelled before it could say so; or a question
  that was cut off between two of its steps. The dropped guard of a reply settles its draft.\<close>

datatype question_cut = BeforeOffer | AfterOffer | AfterBegin

datatype told = ToldAll "stream_state option" | ToldNothing | CutOff "rtext list" | CutAfter "stream_state option"
  | CutQuestion question_cut

definition cut_reply :: "int \<Rightarrow> uuid \<Rightarrow> uuid \<Rightarrow> rtext list \<Rightarrow> conversation_service \<Rightarrow> conversation_service" where
  "cut_reply now cid tid deltas s =
     (case begin_assistant_stream now cid tid s of
        (Inl e, s1) \<Rightarrow> s1
      | (Inr _, s1) \<Rightarrow> snd (settle_interrupted_turn now tid (fold (push_assistant_stream_delta now cid) deltas s1)))"

definition cut_question :: "int \<Rightarrow> agent_job \<Rightarrow> conversation \<Rightarrow> question_cut \<Rightarrow> conversation_service \<Rightarrow> conversation_service" where
  "cut_question now job c cutting s =
     (case pending_job_input now (j_id job) (store s) of
        None \<Rightarrow> s
      | Some input \<Rightarrow>
          if cutting = BeforeOffer then s
          else (case offer_owner_input now (o_id input) (j_delivery_id job) (c_channel c) (store s) of
            (Inl e, db) \<Rightarrow> s\<lparr>store := db\<rparr>
          | (Inr i, db) \<Rightarrow>
              if cutting = AfterOffer then s\<lparr>store := db\<rparr>
              else snd (begin_assistant_stream now (c_id c) (j_delivery_id job) (s\<lparr>store := db\<rparr>))))"

definition tell_result ::
  "message_io \<Rightarrow> (uuid \<Rightarrow> rtext) \<Rightarrow> agent_job \<Rightarrow> told \<Rightarrow> conversation_service \<times> cooldown_repo \<Rightarrow>
     bool \<times> conversation_service \<times> cooldown_repo" where
  "tell_result io wire job what = (\<lambda>(s, r).
     (let (c, s1) = open_or_create_pending_locked (mi_now io) (mi_fresh_conversation io)
            (case j_channel job of Some ch \<Rightarrow> ch | None \<Rightarrow> owner_channel) s
      in case what of
           ToldNothing \<Rightarrow> (False, s, r)
         | ToldAll result \<Rightarrow> (let h = handle_background_result io job wire result (s, r) in (ha_ok h, ha_service h, ha_cooldown h))
         | CutAfter result \<Rightarrow> (False, ha_service (handle_background_result io job wire result (s, r)), r)
         | CutOff deltas \<Rightarrow> (False, if j_status job = AwaitingInput then s1
             else cut_reply (mi_now io) (c_id c) (j_delivery_id job) deltas s1, r)
         | CutQuestion cutting \<Rightarrow> (False, if j_status job = AwaitingInput then cut_question (mi_now io) job c cutting s1 else s1, r)))"

text \<open>The task of a delivery: it tells the result, settles the turn, records the delivery, and drops the
  registration and the permit. Other tasks act between these steps.\<close>

definition tell_owner ::
  "message_io \<Rightarrow> (uuid \<Rightarrow> rtext) \<Rightarrow> agent_job \<Rightarrow> told \<Rightarrow> reach_out_state \<Rightarrow> bool \<times> reach_out_state" where
  "tell_owner io wire job what s =
     (case tell_result io wire job what (ro_service s, ro_cooldown s) of
        (success, sv, r) \<Rightarrow> (success, s\<lparr>ro_service := sv, ro_cooldown := r\<rparr>))"

definition settle_delivery :: "int \<Rightarrow> agent_job \<Rightarrow> reach_out_state \<Rightarrow> reach_out_state" where
  "settle_delivery now job s = s\<lparr>ro_service := snd (settle_interrupted_turn now (j_delivery_id job) (ro_service s))\<rparr>"

definition end_delivery ::
  "int \<Rightarrow> agent_job \<Rightarrow> turn_permit \<Rightarrow> bool \<Rightarrow> reach_out_state \<Rightarrow> (app_error + unit) \<times> reach_out_state" where
  "end_delivery now job permit success s =
     (case finish_delivery now (j_id job) (j_delivery_id job) success (tables s) of
        (result, db) \<Rightarrow> (result, (with_tables (\<lambda>_. db) s)
          \<lparr>ro_admission := drop_permit permit (ro_admission s),
           ro_runs := drop_registration (j_delivery_id job) (permit_cancellation permit) (ro_runs s)\<rparr>))"

text \<open>What the other tasks do meanwhile: a client reports a turn as shown or heard, at any moment; and anything else
  that leaves the turn of this delivery and its receipts alone, starts no draft under its identity, and at most
  withdraws the claimed job: it is cancelled, resumed under a new identity, or deleted.\<close>

definition turns_under :: "uuid \<Rightarrow> database \<Rightarrow> conversation_turn list" where
  "turns_under d db = filter (\<lambda>t. t_id t = d) (conversation_turns db)"

definition receipts_of :: "uuid \<Rightarrow> database \<Rightarrow> turn_presentation list" where
  "receipts_of d db = filter (\<lambda>p. tp_turn p = d) (conversation_presentations db)"

definition attempts_of :: "uuid \<Rightarrow> uuid \<Rightarrow> database \<Rightarrow> agent_job list" where
  "attempts_of i d db = filter (\<lambda>j. j_id j = i \<and> j_delivery_id j = d) (jobs db)"

definition left_alone :: "uuid \<Rightarrow> uuid \<Rightarrow> reach_out_state \<Rightarrow> reach_out_state \<Rightarrow> bool" where
  "left_alone i d s s' \<longleftrightarrow> turns_under d (tables s') = turns_under d (tables s) \<and> receipts_of d (tables s') = receipts_of d (tables s) \<and>
     (\<forall>j' \<in> set (attempts_of i d (tables s')). \<exists>j \<in> set (attempts_of i d (tables s)).
        j_channel j' = j_channel j \<and> j_delivery j' \<in> {j_delivery j, Suppressed}) \<and>
     (d \<in> draft_ids (ro_service s') \<longrightarrow> d \<in> draft_ids (ro_service s)) \<and>
     distinct (map j_id (jobs (tables s'))) \<and> hm_ok (drafts (ro_service s'))"

inductive meanwhile :: "uuid \<Rightarrow> uuid \<Rightarrow> reach_out_state \<Rightarrow> reach_out_state \<Rightarrow> bool" for i d where
  receipt: "meanwhile i d s (with_tables (\<lambda>db. snd (acknowledge_presentation now turn channel db)) s)"
| elsewhere: "left_alone i d s s' \<Longrightarrow> meanwhile i d s s'"

section \<open>What is recorded\<close>

text \<open>Conversations leave the jobs and the presentations alone.\<close>

definition beside :: "conversation_service \<Rightarrow> agent_job list \<times> turn_presentation list" where
  "beside s = (jobs (store s), conversation_presentations (store s))"

lemma beside_tables [simp]:
  "jobs (save_conversation c db) = jobs db" "conversation_presentations (save_conversation c db) = conversation_presentations db"
  "jobs (snd (delete_if_empty_pending cid db)) = jobs db"
  "conversation_presentations (snd (delete_if_empty_pending cid db)) = conversation_presentations db"
  "jobs (snd (add_turn now t db)) = jobs db" "conversation_presentations (snd (add_turn now t db)) = conversation_presentations db"
  "jobs (snd (update_turn_content_and_completion now tid content b db)) = jobs db"
  "conversation_presentations (snd (update_turn_content_and_completion now tid content b db)) = conversation_presentations db"
  by (simp_all add: save_conversation_def delete_if_empty_pending_def add_turn_def update_turn_content_and_completion_def Let_def
      split: option.split)

lemma beside_drafts [simp]: "beside (s\<lparr>drafts := d\<rparr>) = beside s"
  by (simp add: beside_def)

lemma beside_open [simp]: "beside (snd (open_or_create_pending_locked now new channel s)) = beside s"
  by (simp add: open_or_create_pending_locked_def beside_def Let_def split: option.split)

lemma beside_store_draft [simp]: "beside (snd (store_draft now d s)) = beside s"
  by (simp add: store_draft_def and_then_def on_store_def beside_def Let_def case_prod_unfold split: sum.split)

lemma beside_sync [simp]: "beside (snd (sync_streaming_assistant_turn_locked now cid s)) = beside s"
  by (simp add: sync_streaming_assistant_turn_locked_def and_then_def on_store_def beside_def set_persisted_def Let_def case_prod_unfold
      split: option.split sum.split)

lemma beside_begin [simp]: "beside (snd (begin_assistant_stream now cid tid s)) = beside s"
  using beside_sync [of now cid s]
  by (simp add: begin_assistant_stream_def and_then_def begin_assistant_stream_locked_def case_prod_unfold split: sum.split)

lemma beside_pushes [simp]: "beside (fold (push_assistant_stream_delta now cid) ds s) = beside s"
  using pushes_keep_others [of now cid ds s] by (simp add: beside_def)

lemma beside_finalize [simp]: "beside (snd (finalize_assistant_stream now cid content b s)) = beside s"
  by (simp add: finalize_assistant_stream_def Let_def split: option.split)

lemma beside_discard [simp]: "beside (discard_proactive_stream cid s) = beside s"
  by (simp add: discard_proactive_stream_def beside_def)

lemma beside_settle [simp]: "beside (snd (settle_interrupted_turn now tid s)) = beside s"
  using beside_store_draft
  by (auto simp: settle_interrupted_turn_def settle_interrupted_stream_locked_def and_then_def beside_def Let_def case_prod_unfold
      split: option.split sum.split)

lemma beside_persist [simp]: "beside (snd (persist_response now cid ss s)) = beside s"
  using beside_finalize [of now cid "ss_full ss" "ss_success ss" s]
  by (auto simp: persist_response_def simp del: beside_finalize split: prod.splits sum.splits option.splits)

lemma beside_respond: "beside (settle_reply now tid (respond_to_message now tid cid channel d0 result s)) = beside s"
proof -
  have started: "beside (snd (begin_assistant_stream now cid tid s)) = beside s" by simp
  show ?thesis
    using started
    by (auto simp: settle_reply_def respond_to_message_def Let_def case_prod_unfold simp del: beside_begin
        split: prod.splits sum.splits option.splits)
qed

text \<open>A turn is not complete because it is settled.\<close>

definition told_in_full :: "uuid \<Rightarrow> conversation_service \<Rightarrow> bool" where
  "told_in_full i s \<longleftrightarrow> (\<exists>t \<in> set (conversation_turns (store s)). t_id t = i \<and> t_complete t)"

lemma update_incomplete:
  "t \<in> set (conversation_turns (snd (update_turn_content_and_completion now i content False db))) \<Longrightarrow> t_complete t \<Longrightarrow>
     t \<in> set (conversation_turns db)"
  by (auto simp: update_turn_content_and_completion_def sql_update_def Let_def split: option.splits if_splits)

lemma add_incomplete:
  "t \<in> set (conversation_turns (snd (add_turn now u db))) \<Longrightarrow> t_complete t \<Longrightarrow> \<not> t_complete u \<Longrightarrow> t \<in> set (conversation_turns db)"
  by (auto simp: add_turn_def split: option.splits if_splits)

lemma settled_in_full: "told_in_full i (snd (settle_interrupted_turn now tid s)) \<Longrightarrow> told_in_full i s"
  unfolding told_in_full_def
  by (auto simp: settle_interrupted_turn_def settle_interrupted_stream_locked_def store_draft_def and_then_def on_store_def
      delete_if_empty_pending_def Let_def case_prod_unfold dest: update_incomplete add_incomplete
      split: option.splits sum.splits if_splits)

lemma opened:
  "drafts (snd (open_or_create_pending_locked now new channel s)) = drafts s"
  "conversation_turns (store (snd (open_or_create_pending_locked now new channel s))) = conversation_turns (store s)"
  by (simp_all add: open_or_create_pending_locked_def save_conversation_def Let_def split: option.split)

lemma opened_draft_ids: "draft_ids (snd (open_or_create_pending_locked now new channel s)) = draft_ids s"
  by (simp add: draft_ids_def draft_id_at_def opened)

lemma begun_turns:
  assumes "begin_assistant_stream now cid tid s = (b, s1)" "i \<notin> draft_ids s"
  shows "told_in_full i s1 = told_in_full i s"
proof -
  obtain r0 s0 where sync: "sync_streaming_assistant_turn_locked now cid s = (r0, s0)" by fastforce
  then have "store s1 = store s0"
    using assms(1) by (auto simp: begin_assistant_stream_def and_then_def begin_assistant_stream_locked_def split: sum.splits)
  then show ?thesis using sync_other [OF sync] assms(2) by (auto simp: told_in_full_def)
qed

lemma offered_beside:
  "offer_owner_input now q d channel db = (x, db1) \<Longrightarrow>
     jobs db1 = jobs db \<and> conversation_presentations db1 = conversation_presentations db \<and> conversation_turns db1 = conversation_turns db"
  by (auto simp: offer_owner_input_def upsert_presentation_def Let_def split: sum.splits if_splits)

lemma finalized_draft:
  assumes "hm_get (drafts s) cid = Some x" "\<not> persisted x" "finalize_assistant_stream now cid content True s = (res, s1)"
  shows "drafts s1 = hm_remove cid (drafts s)"
    and "res = Inr (Some t) \<Longrightarrow> conversation_turns (store s1) = conversation_turns (store s) @ [t] \<and> t_id t = t_id (draft_turn x) \<and> t_complete t"
  using assms
  by (auto simp: finalize_assistant_stream_def store_draft_def and_then_def on_store_def add_turn_def Let_def
      split: if_splits option.splits sum.splits prod.splits)

lemma asked_beside: "ask_waiting_question now job c wire s = (ok, s1, pushed) \<Longrightarrow> beside s1 = beside s"
proof -
  assume ask: "ask_waiting_question now job c wire s = (ok, s1, pushed)"
  show ?thesis
  proof (cases "pending_job_input now (j_id job) (store s)")
    case None
    then show ?thesis using ask by (simp add: ask_waiting_question_def)
  next
    case (Some input)
    obtain x db where offer: "offer_owner_input now (o_id input) (j_delivery_id job) (c_channel c) (store s) = (x, db)" by fastforce
    let ?s = "s\<lparr>store := db\<rparr>"
    have db: "beside ?s = beside s" using offered_beside [OF offer] by (simp add: beside_def)
    obtain b s2 where b: "begin_assistant_stream now (c_id c) (j_delivery_id job) ?s = (b, s2)" by fastforce
    have s2: "beside s2 = beside s" using beside_begin [of now "c_id c" "j_delivery_id job" ?s] b db by simp
    have s3: "beside (snd (finalize_assistant_stream now (c_id c) q True s2)) = beside s" for q using s2 by simp
    show ?thesis
    proof (cases x)
      case (Inl e)
      then show ?thesis using ask Some offer db by (simp add: ask_waiting_question_def)
    next
      case (Inr q)
      obtain y s4 where f: "finalize_assistant_stream now (c_id c) (o_prompt q) True s2 = (y, s4)" by fastforce
      have "beside s4 = beside s" using s3 [of "o_prompt q"] f by simp
      then show ?thesis using ask Some offer b s2 Inr f by (auto simp: ask_waiting_question_def split: sum.splits option.splits)
    qed
  qed
qed

lemma asked_turns:
  assumes ask: "ask_waiting_question now job c wire s = (ok, s1, pushed)"
    and fresh: "j_delivery_id job \<notin> draft_ids s" "j_delivery_id job \<notin> t_id ` set (conversation_turns (store s))" and hm: "hm_ok (drafts s)"
  shows "(told_in_full (j_delivery_id job) s1 \<longrightarrow> j_delivery_id job \<notin> draft_ids s1 \<and> hm_ok (drafts s1)) \<and>
    (ok \<longrightarrow> told_in_full (j_delivery_id job) s1 \<or> pending_job_input now (j_id job) (store s) = None)"
proof -
  let ?i = "j_delivery_id job"
  have none: "\<not> told_in_full ?i s'" if "conversation_turns (store s') = conversation_turns (store s)" for s'
    using fresh(2) unfolding told_in_full_def that by (metis image_eqI)
  show ?thesis
  proof (cases "pending_job_input now (j_id job) (store s)")
    case None
    then show ?thesis using ask fresh hm by (auto simp: ask_waiting_question_def)
  next
    case (Some input)
    obtain x db where offer: "offer_owner_input now (o_id input) ?i (c_channel c) (store s) = (x, db)" by fastforce
    let ?s = "s\<lparr>store := db\<rparr>"
    have s: "draft_ids ?s = draft_ids s" "conversation_turns (store ?s) = conversation_turns (store s)" "hm_ok (drafts ?s)"
      using offered_beside [OF offer] hm by (simp_all add: draft_ids_def draft_id_at_def)
    obtain b s2 where b: "begin_assistant_stream now (c_id c) ?i ?s = (b, s2)" by fastforce
    have s2: "\<not> told_in_full ?i s2" using begun_turns [OF b] s fresh(1) none [of ?s] by simp
    show ?thesis
    proof (cases "\<exists>q. x = Inr q \<and> b = Inr ()")
      case False
      then show ?thesis using ask Some offer b s2 none [of ?s] s(2)
        by (auto simp: ask_waiting_question_def split: sum.splits prod.splits)
    next
      case True
      then obtain q where q: "x = Inr q" "b = Inr ()" by blast
      obtain s0 where s0: "sync_streaming_assistant_turn_locked now (c_id c) ?s = (Inr (), s0)" "hm_ok (drafts s0)"
          "drafts s2 = hm_insert (c_id c) \<lparr>draft_turn = new_turn now ?i (c_id c) AssistantRole [] False, persisted = False\<rparr> (drafts s0)"
        using begun_draft [OF b [unfolded q] s(3)] by blast
      obtain res s3 where f: "finalize_assistant_stream now (c_id c) (o_prompt q) True s2 = (res, s3)" by fastforce
      have s3: "s1 = s3" "ok = (\<exists>t. res = Inr (Some t))"
        using ask Some offer b q f by (auto simp: ask_waiting_question_def split: sum.splits option.splits)
      have get: "hm_get (drafts s2) (c_id c) = Some \<lparr>draft_turn = new_turn now ?i (c_id c) AssistantRole [] False, persisted = False\<rparr>"
        by (simp add: s0(3) hm_get_insert)
      note fin = finalized_draft [OF get _ f, simplified]
      have "draft_id_at s0 x \<noteq> Some ?i" for x using sync_ids [OF s0(1)] s(1) fresh(1) by (auto simp: draft_ids_def)
      then have "?i \<notin> draft_ids s1"
        by (auto simp: s3 draft_ids_def draft_id_at_def fin(1) s0(3) hm_get_remove hm_get_insert split: if_splits)
      moreover have "hm_ok (drafts s1)" using s0(2) by (simp add: s3 fin(1) s0(3))
      moreover have "told_in_full ?i s1" if "ok"
        using that fin(2) by (auto simp: s3 told_in_full_def new_turn_def)
      ultimately show ?thesis by blast
    qed
  qed
qed

text \<open>Nothing is told on purpose: the answer is empty, or the question of the job is no longer pending.\<close>

definition nothing_to_tell :: "int \<Rightarrow> agent_job \<Rightarrow> told \<Rightarrow> database \<Rightarrow> bool" where
  "nothing_to_tell now job what db \<longleftrightarrow> (case what of
     ToldAll result \<Rightarrow> if j_status job = AwaitingInput then pending_job_input now (j_id job) db = None
       else (case result of None \<Rightarrow> False | Some ss \<Rightarrow> ss_full ss = [])
   | _ \<Rightarrow> False)"

lemma opened_inputs: "inputs (store (snd (open_or_create_pending_locked now new channel s))) = inputs (store s)"
  by (simp add: open_or_create_pending_locked_def save_conversation_def Let_def split: option.split)

lemma handled_turns:
  assumes fresh: "j_delivery_id job \<notin> draft_ids s" "j_delivery_id job \<notin> t_id ` set (conversation_turns (store s))" and hm: "hm_ok (drafts s)"
    and h: "h = handle_background_result io job wire result (s, r)"
  shows "beside (ha_service h) = beside s \<and>
    (told_in_full (j_delivery_id job) (ha_service h) \<longrightarrow> j_delivery_id job \<notin> draft_ids (ha_service h) \<and> hm_ok (drafts (ha_service h))) \<and>
    (ha_ok h \<longrightarrow> told_in_full (j_delivery_id job) (ha_service h) \<or> nothing_to_tell (mi_now io) job (ToldAll result) (store s))"
proof -
  let ?i = "j_delivery_id job" and ?channel = "case j_channel job of Some ch \<Rightarrow> ch | None \<Rightarrow> owner_channel"
  obtain c s0 where o1: "open_or_create_pending_locked (mi_now io) (mi_fresh_conversation io) ?channel s = (c, s0)" by fastforce
  have s0: "drafts s0 = drafts s" "conversation_turns (store s0) = conversation_turns (store s)" "draft_ids s0 = draft_ids s"
      "beside s0 = beside s" "inputs (store s0) = inputs (store s)"
    using opened [of "mi_now io" "mi_fresh_conversation io" ?channel s] opened_draft_ids [of "mi_now io" "mi_fresh_conversation io" ?channel s]
      beside_open [of "mi_now io" "mi_fresh_conversation io" ?channel s] opened_inputs [of "mi_now io" "mi_fresh_conversation io" ?channel s]
    by (simp_all add: o1)
  have f0: "?i \<notin> draft_ids s0" "?i \<notin> t_id ` set (conversation_turns (store s0))" "hm_ok (drafts s0)" using fresh hm s0 by simp_all
  show ?thesis
  proof (cases "j_status job = AwaitingInput")
    case True
    obtain ok s1 pushed where ask: "ask_waiting_question (mi_now io) job c wire s0 = (ok, s1, pushed)" using prod_cases3 by blast
    have "ha_ok h = ok" "ha_service h = s1" using True ask by (simp_all add: h handle_background_result_def o1)
    moreover have "pending_job_input now x (store s0) = pending_job_input now x (store s)" for now x
      using s0(5) by (simp add: pending_job_input_def)
    ultimately show ?thesis using asked_turns [OF ask f0] asked_beside [OF ask] s0(4) True by (simp add: nothing_to_tell_def)
  next
    case False
    let ?re = "respond_to_message (mi_now io) ?i (c_id c) (c_channel c) Sse result s0"
    have eq: "ha_ok h = re_ok ?re" "ha_service h = settle_reply (mi_now io) ?i ?re"
      using False by (simp_all add: h handle_background_result_def o1 Let_def)
    note reply = reply_turns [OF f0 refl, where now = "mi_now io" and cid = "c_id c" and channel = "c_channel c" and ?d0.0 = Sse
        and result = result]
    have side: "beside (ha_service h) = beside s" unfolding eq beside_respond s0 ..
    show ?thesis
    proof (cases "ha_ok h")
      case True
      then have "?i \<notin> draft_ids (ha_service h) \<and> hm_ok (drafts (ha_service h))" using reply(4) unfolding eq by blast
      moreover have "told_in_full ?i (ha_service h) \<or> nothing_to_tell (mi_now io) job (ToldAll result) (store s)"
        using reply(1) True False unfolding eq told_in_full_def nothing_to_tell_def by fastforce
      ultimately show ?thesis using side by blast
    next
      case no: False
      then have "\<not> told_in_full ?i (ha_service h)" using reply(2) unfolding eq told_in_full_def by blast
      then show ?thesis using side no by blast
    qed
  qed
qed

lemma cut_reply_turns:
  assumes "i \<notin> draft_ids s" "\<not> told_in_full i s"
  shows "beside (cut_reply now cid i ds s) = beside s" "\<not> told_in_full i (cut_reply now cid i ds s)"
proof -
  obtain b s1 where b: "begin_assistant_stream now cid i s = (b, s1)" by fastforce
  have s1: "\<not> told_in_full i s1" "beside s1 = beside s"
    using begun_turns [OF b assms(1)] assms(2) beside_begin [of now cid i s] by (simp_all add: b)
  have pushed: "told_in_full i (fold (push_assistant_stream_delta now cid) ds s1) = told_in_full i s1"
    using pushes_keep_others [of now cid ds s1] by (simp add: told_in_full_def)
  show "beside (cut_reply now cid i ds s) = beside s" using s1(2) by (simp add: cut_reply_def b split: sum.split)
  show "\<not> told_in_full i (cut_reply now cid i ds s)"
    using s1(1) pushed settled_in_full by (auto simp: cut_reply_def b split: sum.splits)
qed

lemma cut_question_turns:
  assumes "j_delivery_id job \<notin> draft_ids s" "\<not> told_in_full (j_delivery_id job) s"
  shows "beside (cut_question now job c cutting s) = beside s" "\<not> told_in_full (j_delivery_id job) (cut_question now job c cutting s)"
proof -
  let ?i = "j_delivery_id job"
  have "beside (cut_question now job c cutting s) = beside s \<and> \<not> told_in_full ?i (cut_question now job c cutting s)"
  proof (cases "pending_job_input now (j_id job) (store s)")
    case None
    then show ?thesis using assms(2) by (simp add: cut_question_def)
  next
    case (Some input)
    obtain x db where offer: "offer_owner_input now (o_id input) ?i (c_channel c) (store s) = (x, db)" by fastforce
    let ?s = "s\<lparr>store := db\<rparr>"
    have s: "beside ?s = beside s" "\<not> told_in_full ?i ?s" "?i \<notin> draft_ids ?s"
      using offered_beside [OF offer] assms by (simp_all add: beside_def told_in_full_def draft_ids_def draft_id_at_def)
    obtain b s2 where b: "begin_assistant_stream now (c_id c) ?i ?s = (b, s2)" by fastforce
    have "beside s2 = beside s" "\<not> told_in_full ?i s2"
      using begun_turns [OF b s(3)] s beside_begin [of now "c_id c" ?i ?s] by (simp_all add: b)
    then show ?thesis using Some offer b s assms by (simp add: cut_question_def split: sum.split)
  qed
  then show "beside (cut_question now job c cutting s) = beside s" "\<not> told_in_full ?i (cut_question now job c cutting s)" by blast+
qed

lemma tell_turns:
  assumes tell: "tell_result io wire job what (s, r) = (ok, s1, r1)"
    and fresh: "j_delivery_id job \<notin> draft_ids s" "j_delivery_id job \<notin> t_id ` set (conversation_turns (store s))" and hm: "hm_ok (drafts s)"
  shows "beside s1 = beside s \<and>
    (told_in_full (j_delivery_id job) s1 \<longrightarrow> j_delivery_id job \<notin> draft_ids s1 \<and> hm_ok (drafts s1)) \<and>
    (ok \<longrightarrow> told_in_full (j_delivery_id job) s1 \<or> nothing_to_tell (mi_now io) job what (store s))"
proof -
  let ?i = "j_delivery_id job" and ?channel = "case j_channel job of Some ch \<Rightarrow> ch | None \<Rightarrow> owner_channel"
  obtain c s0 where o1: "open_or_create_pending_locked (mi_now io) (mi_fresh_conversation io) ?channel s = (c, s0)" by fastforce
  have s0: "conversation_turns (store s0) = conversation_turns (store s)" "draft_ids s0 = draft_ids s" "beside s0 = beside s"
    using opened [of "mi_now io" "mi_fresh_conversation io" ?channel s] opened_draft_ids [of "mi_now io" "mi_fresh_conversation io" ?channel s]
      beside_open [of "mi_now io" "mi_fresh_conversation io" ?channel s] by (simp_all add: o1)
  have none: "\<not> told_in_full ?i s" "\<not> told_in_full ?i s0" using fresh(2) unfolding told_in_full_def s0(1) by (metis image_eqI)+
  have i0: "?i \<notin> draft_ids s0" using fresh(1) s0(2) by simp
  note handled = handled_turns [OF fresh hm refl, of io wire _ r]
  show ?thesis
  proof (cases what)
    case (ToldAll result)
    then show ?thesis using tell handled [of result] by (auto simp: tell_result_def o1 Let_def)
  next
    case (CutAfter result)
    then show ?thesis using tell handled [of result] by (auto simp: tell_result_def o1 Let_def)
  next
    case ToldNothing
    then show ?thesis using tell none by (auto simp: tell_result_def o1)
  next
    case (CutOff ds)
    then show ?thesis
      using tell none s0(3) cut_reply_turns [OF i0 none(2), of "mi_now io" "c_id c" ds] by (auto simp: tell_result_def o1 split: if_splits)
  next
    case (CutQuestion cutting)
    then show ?thesis
      using tell none s0(3) cut_question_turns [OF i0 none(2), of "mi_now io" c cutting] by (auto simp: tell_result_def o1 split: if_splits)
  qed
qed

lemma begun_delivery:
  assumes "begin_delivery io job channel s0 = (Some (claimed, permit), s)" "distinct (map j_id (jobs (tables s0)))"
  shows "j_id claimed = j_id job" "j_delivery_id claimed = j_delivery_id job"
    and "drafts (ro_service s) = drafts (ro_service s0)" "conversation_turns (tables s) = conversation_turns (tables s0)"
    and "conversation_presentations (tables s) = conversation_presentations (tables s0)"
    and "\<forall>j \<in> set (jobs (tables s)). j_id j = j_id job \<longrightarrow> j_delivery_id j = j_delivery_id job \<and> j_delivery j = Delivering"
    and "map j_id (jobs (tables s)) = map j_id (jobs (tables s0))"
proof -
  obtain db where claim: "claim_delivery (j_id job) (j_delivery_id job) channel (tables s0) = (Some claimed, db)"
    and s: "ro_service s = (ro_service s0)\<lparr>store := db\<rparr>"
    using assms(1) by (auto simp: begin_delivery_def with_tables_def tables_def split: prod.splits option.splits sum.splits)
  obtain j0 where find: "find (claimable (j_id job) (j_delivery_id job)) (jobs (tables s0)) = Some j0"
    and claimed: "j_id claimed = j_id j0" "j_delivery_id claimed = j_delivery_id j0"
    using claim by (auto simp: claim_delivery_def Let_def)
  have j0: "j0 \<in> set (jobs (tables s0))" "claimable (j_id job) (j_delivery_id job) j0"
    using find by (auto simp: find_Some_iff)
  show "j_id claimed = j_id job" "j_delivery_id claimed = j_delivery_id job"
    using j0(2) claimed by (simp_all add: claimable_def)
  show "drafts (ro_service s) = drafts (ro_service s0)" "conversation_turns (tables s) = conversation_turns (tables s0)"
    "conversation_presentations (tables s) = conversation_presentations (tables s0)"
    using claim by (auto simp: s tables_def claim_delivery_def Let_def)
  show "map j_id (jobs (tables s)) = map j_id (jobs (tables s0))"
    using claim by (auto simp: s tables_def claim_delivery_def Let_def sql_update_def)
  have one: "claimable (j_id job) (j_delivery_id job) j" if "j \<in> set (jobs (tables s0))" "j_id j = j_id job" for j
    using assms(2) j0 that by (metis (mono_tags) claimable_def distinct_map inj_onD)
  show "\<forall>j \<in> set (jobs (tables s)). j_id j = j_id job \<longrightarrow> j_delivery_id j = j_delivery_id job \<and> j_delivery j = Delivering"
    using claim one by (auto simp: s tables_def claim_delivery_def Let_def sql_update_def claimable_def)
qed

lemma prune_turns:
  "conversation_turns (prune db) = conversation_turns db" "conversation_presentations (prune db) = conversation_presentations db"
proof -
  have retire: "conversation_turns (retire ks d) = conversation_turns d" "conversation_presentations (retire ks d) = conversation_presentations d"
    for ks d by (simp_all add: retire_def)
  have "conversation_turns (prune_inputs d) = conversation_turns d" "conversation_presentations (prune_inputs d) = conversation_presentations d"
    "conversation_turns (prune_jobs d) = conversation_turns d" "conversation_presentations (prune_jobs d) = conversation_presentations d"
    "conversation_turns (prune_schedules d) = conversation_turns d" "conversation_presentations (prune_schedules d) = conversation_presentations d"
    for d unfolding prune_inputs_def prune_jobs_def prune_schedules_def Let_def by (simp_all add: retire)
  then show "conversation_turns (prune db) = conversation_turns db" "conversation_presentations (prune db) = conversation_presentations db"
    by (simp_all add: prune_def)
qed

lemma finish_delivery_turns:
  "conversation_turns (snd (finish_delivery now i d ok db)) = conversation_turns db"
  "conversation_presentations (snd (finish_delivery now i d ok db)) = conversation_presentations db"
  by (auto simp: finish_delivery_def finish_delivery_transaction_def prune_turns Let_def split: prod.splits sum.splits if_splits)

text \<open>A delivery under way: its job is claimed, shown or withdrawn; a receipt is for a turn that is told in full;
  and such a turn is no draft any more.\<close>

definition in_delivery :: "uuid \<Rightarrow> uuid \<Rightarrow> reach_out_state \<Rightarrow> bool" where
  "in_delivery i d s \<longleftrightarrow>
     (\<forall>j \<in> set (attempts_of i d (tables s)). j_delivery j \<in> {Delivering, Presented, Suppressed}) \<and>
     (receipts_of d (tables s) \<noteq> [] \<longrightarrow> told_in_full d (ro_service s)) \<and> distinct (map j_id (jobs (tables s))) \<and>
     (told_in_full d (ro_service s) \<longrightarrow> d \<notin> draft_ids (ro_service s) \<and> hm_ok (drafts (ro_service s)))"

definition untold :: "uuid \<Rightarrow> reach_out_state \<Rightarrow> bool" where
  "untold d s \<longleftrightarrow> turns_under d (tables s) = [] \<and> d \<notin> draft_ids (ro_service s) \<and> hm_ok (drafts (ro_service s))"

lemma told_by_turns: "told_in_full d sv = list_ex t_complete (turns_under d (store sv))"
  by (auto simp: told_in_full_def turns_under_def list_ex_iff)

lemma tables_with [simp]: "tables (with_tables f s) = f (tables s)" "store (ro_service (with_tables f s)) = f (tables s)"
  "drafts (ro_service (with_tables f s)) = drafts (ro_service s)" "ro_runs (with_tables f s) = ro_runs s"
  by (simp_all add: with_tables_def tables_def)

lemma drafts_with [simp]: "draft_ids (ro_service (with_tables f s)) = draft_ids (ro_service s)"
  by (simp add: draft_ids_def draft_id_at_def)

lemma acknowledge_jobs:
  "j \<in> set (jobs (snd (acknowledge_presentation now turn channel db))) \<Longrightarrow>
     \<exists>j0 \<in> set (jobs db). j = j0 \<or> j = j0\<lparr>j_delivery := Presented\<rparr> \<and> j_delivery j0 \<in> {Delivering, Committed}"
  "map j_id (jobs (snd (acknowledge_presentation now turn channel db))) = map j_id (jobs db)"
  by (auto simp: acknowledge_presentation_def sql_update_def Let_def split: if_splits)

lemma acknowledge_receipts:
  "receipts_of d (snd (acknowledge_presentation now turn channel db)) \<noteq> [] \<Longrightarrow>
     receipts_of d db \<noteq> [] \<or> (\<exists>t \<in> set (conversation_turns db). t_id t = d \<and> t_complete t)"
  by (auto simp: acknowledge_presentation_def receipts_of_def list_ex_iff Let_def split: if_splits)

lemma meanwhile_turns: "meanwhile i d s s' \<Longrightarrow> turns_under d (tables s') = turns_under d (tables s)"
  by (cases rule: meanwhile.cases) (auto simp: turns_under_def acknowledge_tables left_alone_def)

lemma meanwhile_untold: "meanwhile i d s s' \<Longrightarrow> untold d s \<Longrightarrow> untold d s'"
  by (cases rule: meanwhile.cases) (auto simp: untold_def turns_under_def acknowledge_tables left_alone_def)

lemma meanwhile_in_delivery:
  assumes "meanwhile i d s s'" "in_delivery i d s"
  shows "in_delivery i d s'"
  using assms(1)
proof cases
  case (receipt now turn channel)
  let ?db = "snd (acknowledge_presentation now turn channel (tables s))"
  have told: "told_in_full d (ro_service s') = told_in_full d (ro_service s)"
    using meanwhile_turns [OF assms(1)] by (simp add: told_by_turns tables_def)
  have "j_delivery j \<in> {Delivering, Presented, Suppressed}" if "j \<in> set (attempts_of i d ?db)" for j
    using that acknowledge_jobs(1) [of j now turn channel "tables s"] assms(2) by (auto simp: attempts_of_def in_delivery_def)
  moreover have "told_in_full d (ro_service s)" if "receipts_of d ?db \<noteq> []"
    using acknowledge_receipts [OF that] assms(2) by (auto simp: in_delivery_def told_in_full_def tables_def)
  ultimately show ?thesis
    using assms(2) unfolding in_delivery_def told by (simp add: receipt acknowledge_jobs(2))
next
  case elsewhere
  have told: "told_in_full d (ro_service s') = told_in_full d (ro_service s)"
    using meanwhile_turns [OF assms(1)] by (simp add: told_by_turns tables_def)
  have "j_delivery j \<in> {Delivering, Presented, Suppressed}" if "j \<in> set (attempts_of i d (tables s'))" for j
    using that elsewhere assms(2) unfolding left_alone_def in_delivery_def by fastforce
  then show ?thesis
    using assms(2) elsewhere unfolding in_delivery_def told left_alone_def by auto
qed

text \<open>The same over any number of such steps.\<close>

lemma meanwhiles:
  assumes "(meanwhile i d)\<^sup>*\<^sup>* s s'"
  shows "turns_under d (tables s') = turns_under d (tables s)" "untold d s \<Longrightarrow> untold d s'" "in_delivery i d s \<Longrightarrow> in_delivery i d s'"
  using assms by (induction) (simp_all add: meanwhile_turns meanwhile_untold meanwhile_in_delivery)

lemma beside_same:
  "beside sv' = beside sv \<Longrightarrow> jobs (store sv') = jobs (store sv) \<and> attempts_of i d (store sv') = attempts_of i d (store sv) \<and>
     receipts_of d (store sv') = receipts_of d (store sv)"
  by (simp add: beside_def attempts_of_def receipts_of_def)

lemma untold_not: "untold d s \<Longrightarrow> \<not> told_in_full d (ro_service s)"
  by (simp add: untold_def told_by_turns tables_def)

lemma tell_in_delivery:
  assumes tell: "tell_owner io wire job what s = (ok, s1)" and inv: "in_delivery i (j_delivery_id job) s" "untold (j_delivery_id job) s"
  shows "in_delivery i (j_delivery_id job) s1"
    and "ok \<Longrightarrow> told_in_full (j_delivery_id job) (ro_service s1) \<or> nothing_to_tell (mi_now io) job what (tables s)"
proof -
  obtain sv r where t: "tell_result io wire job what (ro_service s, ro_cooldown s) = (ok, sv, r)" and s1: "ro_service s1 = sv"
    using tell by (auto simp: tell_owner_def split: prod.splits)
  have fresh: "j_delivery_id job \<notin> draft_ids (ro_service s)"
      "j_delivery_id job \<notin> t_id ` set (conversation_turns (store (ro_service s)))" "hm_ok (drafts (ro_service s))"
    using inv(2) by (auto simp: untold_def turns_under_def tables_def filter_empty_conv)
  note told = tell_turns [OF t fresh]
  then have "beside sv = beside (ro_service s)" by blast
  note same = beside_same [OF this]
  show "in_delivery i (j_delivery_id job) s1"
    using inv told same untold_not [OF inv(2)] unfolding in_delivery_def tables_def s1 by simp
  show "ok \<Longrightarrow> told_in_full (j_delivery_id job) (ro_service s1) \<or> nothing_to_tell (mi_now io) job what (tables s)"
    using told by (simp add: s1 tables_def)
qed

lemma settle_in_delivery:
  assumes "in_delivery i (j_delivery_id job) s"
  shows "in_delivery i (j_delivery_id job) (settle_delivery now job s)"
    and "told_in_full (j_delivery_id job) (ro_service (settle_delivery now job s)) = told_in_full (j_delivery_id job) (ro_service s)"
proof -
  let ?d = "j_delivery_id job"
  let ?sv = "snd (settle_interrupted_turn now ?d (ro_service s))"
  have "in_delivery i ?d (settle_delivery now job s) \<and> told_in_full ?d ?sv = told_in_full ?d (ro_service s)"
  proof (cases "told_in_full ?d (ro_service s)")
    case True
    then have "?sv = ro_service s" using assms settle_nothing by (simp add: in_delivery_def)
    then show ?thesis using assms by (simp add: settle_delivery_def)
  next
    case False
    have not: "\<not> told_in_full ?d ?sv" using False settled_in_full by blast
    note same = beside_same [OF beside_settle [of now ?d "ro_service s"]]
    show ?thesis using assms False not same by (simp add: in_delivery_def settle_delivery_def tables_def)
  qed
  then show "in_delivery i ?d (settle_delivery now job s)"
    "told_in_full ?d (ro_service (settle_delivery now job s)) = told_in_full ?d (ro_service s)"
    by (simp_all add: settle_delivery_def)
qed

text \<open>The record: by the receipt, by the turn, by the success; or the job was withdrawn.\<close>

lemma recorded:
  assumes finish: "finish_delivery now i d ok db = (res, db')" and j: "j \<in> set (attempts_of i d db')"
    and inv: "\<forall>j \<in> set (attempts_of i d db). j_delivery j \<in> {Delivering, Presented, Suppressed}" "distinct (map j_id (jobs db))"
  shows "j_delivery j = (case res of Inl e \<Rightarrow> Suppressed | Inr u \<Rightarrow>
    if turn_presented d (j_channel j) db then Presented else if turn_complete d db then Committed
    else if ok then Suppressed else DeliveryInterrupted)"
proof -
  let ?p = "\<lambda>j. j_id j = i \<and> j_delivery_id j = d \<and> j_delivery j \<in> {Delivering, Presented}"
  let ?f = "\<lambda>j. j\<lparr>j_delivery := (if turn_presented d (j_channel j) db then Presented
      else if turn_complete d db then Committed else if ok then Suppressed else DeliveryInterrupted), j_updated_at := millis now\<rparr>"
  have pruned: "x \<in> set (jobs (prune db1)) \<Longrightarrow> x \<in> set (jobs db1)" for x db1
    using prune_jobs_filter [of db1] by auto
  have ids: "j \<in> set (jobs db')" "j_id j = i" "j_delivery_id j = d" using j by (simp_all add: attempts_of_def)
  show ?thesis
  proof (cases "list_ex ?p (jobs db)")
    case False
    have "(\<exists>e. res = Inl e) \<and> db' = db"
      using finish unfolding finish_delivery_def finish_delivery_transaction_def Let_def if_P [OF False] by auto
    moreover from this have "j_delivery j \<in> {Delivering, Presented, Suppressed}" using j inv(1) by blast
    moreover have "\<not> ?p j" using calculation(1) False ids by (auto simp: list_ex_iff)
    ultimately show ?thesis using ids by auto
  next
    case True
    let ?db = "update_jobs ?p ?f db"
    have "finish_delivery_transaction now i d ok db = (Inr (), ?db)"
      unfolding finish_delivery_transaction_def Let_def by (rule if_not_P) (use True in blast)
    then have "res = Inr ()" "db' = prune ?db" using finish unfolding finish_delivery_def by simp_all
    then have res: "res = Inr ()" and "j \<in> set (jobs ?db)" using pruned ids(1) by blast+
    have "jobs (update_jobs p f db) = sql_update p f (jobs db)" for p f by simp
    with \<open>j \<in> set (jobs ?db)\<close> have "j \<in> set (sql_update ?p ?f (jobs db))" by (simp only:)
    then obtain j0 where j0: "j0 \<in> set (jobs db)" "j = (if ?p j0 then ?f j0 else j0)" unfolding sql_update_def set_map by blast
    obtain j1 where j1: "j1 \<in> set (jobs db)" "?p j1" using True by (auto simp: list_ex_iff)
    have "j_id j0 = i" using ids(2) unfolding j0(2) by (simp split: if_split_asm)
    then have "j0 = j1" using j0(1) j1 inv(2) by (metis (mono_tags, lifting) distinct_map inj_onD)
    then have "j = ?f j0" using j0(2) j1(2) by (simp only: if_True simp_thms)
    then have "j_delivery j = (if turn_presented d (j_channel j0) db then Presented
      else if turn_complete d db then Committed else if ok then Suppressed else DeliveryInterrupted)" "j_channel j = j_channel j0" by simp_all
    then show ?thesis by (simp only: res sum.case)
  qed
qed

text \<open>Operations that leave a delivery alone: the cancellation of its job, the end of another delivery, and a piece
  of another reply.\<close>

lemma cancel_left_alone:
  assumes "distinct (map j_id (jobs (tables s)))" "hm_ok (drafts (ro_service s))"
  shows "left_alone i d s (with_tables (cancel_transaction now k) s)"
proof -
  have ids: "(\<lambda>x. j_id (if p x then f x else x)) = j_id" if "\<And>x. j_id (f x) = j_id x" for p :: "agent_job \<Rightarrow> bool" and f
    using that by auto
  show ?thesis
    using assms
    by (auto simp: left_alone_def turns_under_def receipts_of_def attempts_of_def cancel_transaction_def sql_update_def Let_def o_def ids
        split: if_splits)
qed

lemma finish_left_alone:
  assumes "distinct (map j_id (jobs (tables s)))" "hm_ok (drafts (ro_service s))" "k \<noteq> i"
  shows "left_alone i d s (with_tables (\<lambda>db. snd (finish_delivery_transaction now k d' ok db)) s)"
proof -
  have same: "map j_id (sql_update p f js) = map j_id js" if "\<And>x. j_id (f x) = j_id x" for p f js
    using that by (simp add: sql_update_def)
  show ?thesis
    using assms
    by (auto simp: left_alone_def turns_under_def receipts_of_def attempts_of_def finish_delivery_transaction_def Let_def same)
      (auto simp: sql_update_def)
qed

lemma push_left_alone:
  assumes "distinct (map j_id (jobs (tables s)))" "hm_ok (drafts (ro_service s))"
  shows "left_alone i d s (s\<lparr>ro_service := push_assistant_stream_delta now cid delta (ro_service s)\<rparr>)"
proof -
  have "draft_ids (push_assistant_stream_delta now cid delta (ro_service s)) = draft_ids (ro_service s)"
    unfolding push_assistant_stream_delta_def by (auto intro!: draft_ids_cong draft_id_modify)
  moreover have "store (push_assistant_stream_delta now cid delta (ro_service s)) = store (ro_service s)"
    "hm_ok (drafts (push_assistant_stream_delta now cid delta (ro_service s)))"
    using assms(2) by (simp_all add: push_assistant_stream_delta_def hm_keys_modify)
  ultimately show ?thesis using assms by (auto simp: left_alone_def tables_def)
qed

text \<open>C40: What is recorded of a delivery is what happened, whatever other tasks do between its steps. Once a result
  or a question is claimed, told, settled and recorded, with receipts of clients at any point in between, the job ends
  committed or presented exactly when the turn under the identity of the delivery is stored in full, presented exactly
  when a receipt for its channel is stored, and suppressed only when there was nothing to tell: the answer
  succeeded without a text, or the question was no longer pending. Otherwise it is interrupted: the run was cancelled
  before it began, it was cut off, or the turn was not stored. The record is refused only when the job was withdrawn
  in the meantime. In no case does the claim stay open, and the run is over.\<close>

theorem delivery_is_recorded_as_it_happened:
  assumes claim: "begin_delivery io job channel s0 = (Some (claimed, permit), s1)"
    and ids: "distinct (map j_id (jobs (tables s0)))"
    and fresh: "j_delivery_id job \<notin> draft_ids (ro_service s0)"
      "j_delivery_id job \<notin> t_id ` set (conversation_turns (tables s0))"
      "j_delivery_id job \<notin> tp_turn ` set (conversation_presentations (tables s0))"
    and hm: "hm_ok (drafts (ro_service s0))"
    and before: "(meanwhile (j_id job) (j_delivery_id job))\<^sup>*\<^sup>* s1 s2" and tell: "tell_owner mio wire claimed what s2 = (ok, s3)"
    and between: "(meanwhile (j_id job) (j_delivery_id job))\<^sup>*\<^sup>* s3 s4"
    and after: "(meanwhile (j_id job) (j_delivery_id job))\<^sup>*\<^sup>* (settle_delivery now claimed s4) s5"
    and ended: "end_delivery now' claimed permit ok s5 = (result, s6)"
    and job: "j \<in> set (jobs (tables s6))" "j_id j = j_id job" "j_delivery_id j = j_delivery_id job"
  shows "(case result of
      Inl e \<Rightarrow> j_delivery j = Suppressed
    | Inr u \<Rightarrow> j_delivery j \<in> {Committed, Presented, Suppressed, DeliveryInterrupted} \<and>
        (j_delivery j \<in> {Committed, Presented} \<longleftrightarrow> told_in_full (j_delivery_id job) (ro_service s6)) \<and>
        (j_delivery j = Presented \<longleftrightarrow> turn_presented (j_delivery_id job) (j_channel j) (tables s6)) \<and>
        (j_delivery j = Suppressed \<longrightarrow> nothing_to_tell (mi_now mio) claimed what (tables s2))) \<and>
    hm_get (active_runs (ro_runs s6)) (j_delivery_id job) = None"
proof -
  note begun = begun_delivery [OF claim ids]
  let ?i = "j_id job" and ?d = "j_delivery_id job"
  have "turns_under ?d (tables s1) = []" using fresh(2) unfolding turns_under_def begun(4) filter_empty_conv by (metis image_eqI)
  then have un1: "untold ?d s1" using fresh(1) hm by (simp add: untold_def begun(3) draft_ids_def draft_id_at_def)
  have "receipts_of ?d (tables s1) = []" using fresh(3) unfolding receipts_of_def begun(5) filter_empty_conv by (metis image_eqI)
  then have "in_delivery ?i ?d s1"
    using begun(6,7) ids untold_not [OF un1] by (auto simp: in_delivery_def attempts_of_def)
  then have s2: "in_delivery ?i ?d s2" "untold ?d s2" using meanwhiles [OF before] un1 by blast+
  note s3 = tell_in_delivery [OF tell, of ?i, unfolded begun(2), OF s2]
  have told: "told_in_full ?d (ro_service b) = told_in_full ?d (ro_service a)" if "(meanwhile ?i ?d)\<^sup>*\<^sup>* a b" for a b
    using meanwhiles(1) [OF that] by (simp add: told_by_turns tables_def)
  have s4: "in_delivery ?i ?d s4" using meanwhiles(3) [OF between] s3(1) by blast
  note settled = settle_in_delivery [of ?i claimed s4, unfolded begun(2), OF s4]
  have s5: "in_delivery ?i ?d s5" using meanwhiles(3) [OF after] settled(1) by blast
  have same: "told_in_full ?d (ro_service s5) = told_in_full ?d (ro_service s3)" using told [OF after] told [OF between] settled(2) by simp
  obtain db where f: "finish_delivery now' ?i ?d ok (tables s5) = (result, db)" and s6: "tables s6 = db"
      "ro_runs s6 = drop_registration ?d (permit_cancellation permit) (ro_runs s5)"
    using ended by (auto simp: end_delivery_def begun(1,2) tables_def with_tables_def split: prod.splits)
  have keep: "conversation_turns db = conversation_turns (tables s5)" "conversation_presentations db = conversation_presentations (tables s5)"
    using finish_delivery_turns [of now' ?i ?d ok "tables s5"] by (simp_all add: f)
  have full: "told_in_full ?d (ro_service s6) = turn_complete ?d (tables s5)" "told_in_full ?d (ro_service s5) = turn_complete ?d (tables s5)"
    using keep(1) s6(1) by (auto simp: turn_complete_def told_in_full_def list_ex_iff tables_def)
  have shown_same: "turn_presented ?d c (tables s6) = turn_presented ?d c (tables s5)" for c
    by (simp add: turn_presented_def s6(1) keep(2))
  have receipt: "turn_complete ?d (tables s5)" if "turn_presented ?d c (tables s5)" for c
    using that s5 full(2) by (auto simp: in_delivery_def receipts_of_def turn_presented_def list_ex_iff filter_empty_conv)
  have j: "j \<in> set (attempts_of ?i ?d db)" using job by (simp add: attempts_of_def s6(1))
  have "j_delivery j = (case result of Inl e \<Rightarrow> Suppressed | Inr u \<Rightarrow>
    if turn_presented ?d (j_channel j) (tables s5) then Presented else if turn_complete ?d (tables s5) then Committed
    else if ok then Suppressed else DeliveryInterrupted)"
    using recorded [OF f j] s5 unfolding in_delivery_def by blast
  moreover have "hm_get (active_runs (ro_runs s6)) ?d = None"
    unfolding s6 by (simp add: drop_registration_def finish_run_def cancel_ref_def hm_get_remove)
  ultimately show ?thesis
    using s3(2) receipt full same shown_same by (auto split: sum.splits)
qed

text \<open>Finished work that is told.\<close>

definition told_job :: agent_job where "told_job = queued_job\<lparr>j_status := job_status.Completed, j_output := Some (lit ''42'')\<rparr>"

definition before_telling :: reach_out_state where
  "before_telling = \<lparr>ro_admission = with_capacity 2, ro_cooldown = undefined, ro_connections = undefined,
     ro_service = \<lparr>store = empty_db\<lparr>jobs := [told_job]\<rparr>, drafts = []\<rparr>, ro_runs = new_registry, ro_in_flight = False\<rparr>"

definition telling_io :: message_io where
  "telling_io = \<lparr>mi_now = 5, mi_cooldown = undefined, mi_fresh_row = 9, mi_fresh_conversation = 1, mi_user_turn = 3, mi_print_id = \<lambda>_. []\<rparr>"

definition claimed_result :: "agent_job \<times> turn_permit" where
  "claimed_result = the (fst (begin_delivery undefined told_job 7 before_telling))"
definition claimed_state :: reach_out_state where "claimed_state = snd (begin_delivery undefined told_job 7 before_telling)"
definition told_step :: "bool \<times> reach_out_state" where
  "told_step = tell_owner telling_io (\<lambda>_. []) (fst claimed_result)
     (ToldAll (Some ((new_stream 0 [])\<lparr>ss_full := lit ''It is 42.''\<rparr>))) claimed_state"
definition heard_state :: reach_out_state where
  "heard_state = with_tables (\<lambda>db. snd (acknowledge_presentation 6 2 7 db)) (snd told_step)"
definition ended_delivery :: "(app_error + unit) \<times> reach_out_state" where
  "ended_delivery = end_delivery 8 (fst claimed_result) (snd claimed_result) (fst told_step) (settle_delivery 7 (fst claimed_result) heard_state)"

lemma free_turn: "fst (try_channel Background 7 None (with_capacity 2)) \<noteq> None"
  by (simp add: try_channel_def with_capacity_def admission_defs hm_retain_def maintenance_def Let_def)

lemma claimed_now:
  "begin_delivery undefined told_job 7 before_telling = (Some (told_job\<lparr>j_delivery := Delivering, j_channel := Some 7\<rparr>, snd claimed_result), claimed_state)"
  "fst claimed_result = told_job\<lparr>j_delivery := Delivering, j_channel := Some 7\<rparr>"
  "ro_service claimed_state = \<lparr>store = empty_db\<lparr>jobs := [told_job\<lparr>j_delivery := Delivering, j_channel := Some 7\<rparr>]\<rparr>, drafts = []\<rparr>"
proof -
  obtain permit a where turn: "try_channel Background 7 None (with_capacity 2) = (Some permit, a)"
    using free_turn by (metis not_Some_eq prod.collapse)
  have claim: "claim_delivery 1 2 7 (empty_db\<lparr>jobs := [told_job]\<rparr>) = (Some (told_job\<lparr>j_delivery := Delivering, j_channel := Some 7\<rparr>),
      empty_db\<lparr>jobs := [told_job\<lparr>j_delivery := Delivering, j_channel := Some 7\<rparr>]\<rparr>)"
    by (simp add: claim_delivery_def claimable_def deliverable_status_def told_job_def queued_job_def new_job_def example_defs Let_def empty_db_def)
  have ids: "j_id told_job = 1" "j_delivery_id told_job = 2" by (simp_all add: told_job_def queued_job_def new_job_def)
  have "begin_delivery undefined told_job 7 before_telling = (Some (told_job\<lparr>j_delivery := Delivering, j_channel := Some 7\<rparr>, permit),
      snd (begin_delivery undefined told_job 7 before_telling))"
    and "ro_service (snd (begin_delivery undefined told_job 7 before_telling)) =
      \<lparr>store = empty_db\<lparr>jobs := [told_job\<lparr>j_delivery := Delivering, j_channel := Some 7\<rparr>]\<rparr>, drafts = []\<rparr>"
    by (simp_all add: begin_delivery_def before_telling_def turn claim ids tables_def with_tables_def register_cancellation_def new_registry_def)
  then show "begin_delivery undefined told_job 7 before_telling = (Some (told_job\<lparr>j_delivery := Delivering, j_channel := Some 7\<rparr>, snd claimed_result), claimed_state)"
    "fst claimed_result = told_job\<lparr>j_delivery := Delivering, j_channel := Some 7\<rparr>"
    "ro_service claimed_state = \<lparr>store = empty_db\<lparr>jobs := [told_job\<lparr>j_delivery := Delivering, j_channel := Some 7\<rparr>]\<rparr>, drafts = []\<rparr>"
    by (simp_all add: claimed_result_def claimed_state_def) (metis fst_conv option.sel snd_conv)+
qed

lemma told_now:
  "fst told_step" "ro_service (snd told_step) = \<lparr>store = empty_db\<lparr>jobs := [told_job\<lparr>j_delivery := Delivering, j_channel := Some 7\<rparr>],
     conversations := [new_conversation 5 1 PendingConversation 7],
     conversation_turns := [new_turn 5 2 1 AssistantRole (lit ''It is 42.'') True]\<rparr>, drafts = []\<rparr>"
proof -
  note texts = lit_def new_stream_def
  note steps = handle_background_result_def respond_to_message_def begin_assistant_stream_def persist_response_def
    sync_streaming_assistant_turn_locked_def begin_assistant_stream_locked_def finalize_assistant_stream_def store_draft_def
    open_or_create_pending_locked_def get_open_in_channel_def save_conversation_def new_conversation_def add_turn_def new_turn_def
    conversation_by_id_def settle_reply_def settle_interrupted_turn_def and_then_def on_store_def sql_update_def
  have "tell_result telling_io (\<lambda>_. []) (told_job\<lparr>j_delivery := Delivering, j_channel := Some 7\<rparr>)
      (ToldAll (Some ((new_stream 0 [])\<lparr>ss_full := lit ''It is 42.''\<rparr>))) (ro_service claimed_state, r) =
    (True, \<lparr>store = empty_db\<lparr>jobs := [told_job\<lparr>j_delivery := Delivering, j_channel := Some 7\<rparr>],
        conversations := [new_conversation 5 1 PendingConversation 7],
        conversation_turns := [new_turn 5 2 1 AssistantRole (lit ''It is 42.'') True]\<rparr>, drafts = []\<rparr>, r)" for r
    by (simp add: tell_result_def claimed_now telling_io_def told_job_def queued_job_def example_defs new_job_def empty_db_def texts steps Let_def)
  then show "fst told_step" "ro_service (snd told_step) = \<lparr>store = empty_db\<lparr>jobs := [told_job\<lparr>j_delivery := Delivering, j_channel := Some 7\<rparr>],
     conversations := [new_conversation 5 1 PendingConversation 7],
     conversation_turns := [new_turn 5 2 1 AssistantRole (lit ''It is 42.'') True]\<rparr>, drafts = []\<rparr>"
    by (simp_all add: told_step_def tell_owner_def claimed_now(2))
qed

lemma told_ids: "j_id told_job = 1" "j_delivery_id told_job = 2" "j_goal told_job = None" "j_status told_job = job_status.Completed"
  by (simp_all add: told_job_def queued_job_def new_job_def example_defs)

lemma heard_now:
  "ro_service heard_state = \<lparr>store = empty_db\<lparr>jobs := [told_job\<lparr>j_delivery := Presented, j_channel := Some 7\<rparr>],
     conversations := [new_conversation 5 1 PendingConversation 7],
     conversation_turns := [new_turn 5 2 1 AssistantRole (lit ''It is 42.'') True],
     conversation_presentations := [\<lparr>tp_turn = 2, tp_channel = 7, tp_presented_at = 6\<rparr>]\<rparr>, drafts = []\<rparr>"
  by (simp add: heard_state_def with_tables_def tables_def told_now acknowledge_presentation_def turn_channel_def new_turn_def new_conversation_def
      told_ids sql_update_def empty_db_def Let_def)

lemma ended_now: "fst ended_delivery = Inr ()" "map j_delivery (jobs (tables (snd ended_delivery))) = [Presented]"
  "map j_id (jobs (tables (snd ended_delivery))) = [1]" "map j_delivery_id (jobs (tables (snd ended_delivery))) = [2]"
  by (simp_all add: ended_delivery_def end_delivery_def settle_delivery_def heard_now claimed_now(2) told_ids with_tables_def tables_def
      settle_interrupted_turn_def finish_delivery_def finish_delivery_transaction_def turn_presented_def sql_update_def
      empty_db_def prune_def prune_schedules_def prune_jobs_def prune_inputs_def retire_def insert_or_ignore_def
      delivered_job_def finished_status_def MAX_RETAINED_def Let_def)

theorem delivery_is_recorded_as_it_happened_witness:
  "map j_delivery (jobs (tables (snd ended_delivery))) = [Presented] \<and> told_in_full 2 (ro_service (snd ended_delivery))"
proof -
  obtain j where j: "jobs (tables (snd ended_delivery)) = [j]" "j_delivery j = Presented" "j_id j = 1" "j_delivery_id j = 2"
    using ended_now by (auto simp: map_eq_Cons_conv)
  let ?claimed = "told_job\<lparr>j_delivery := Delivering, j_channel := Some 7\<rparr>"
  have tell: "tell_owner telling_io (\<lambda>_. []) ?claimed (ToldAll (Some ((new_stream 0 [])\<lparr>ss_full := lit ''It is 42.''\<rparr>))) claimed_state =
      (True, snd told_step)"
    using told_now(1) by (simp add: told_step_def claimed_now(2) prod_eq_iff)
  have heard: "(meanwhile (j_id told_job) (j_delivery_id told_job))\<^sup>*\<^sup>* (snd told_step) heard_state"
    unfolding heard_state_def by (intro r_into_rtranclp meanwhile.receipt)
  have ended: "end_delivery 8 ?claimed (snd claimed_result) True (settle_delivery 7 ?claimed heard_state) = (Inr (), snd ended_delivery)"
    using ended_now(1) told_now(1) by (simp add: ended_delivery_def claimed_now(2) prod_eq_iff)
  have "j_delivery j \<in> {Committed, Presented} \<longleftrightarrow> told_in_full (j_delivery_id told_job) (ro_service (snd ended_delivery))"
    using delivery_is_recorded_as_it_happened [OF claimed_now(1) _ _ _ _ _ rtranclp.rtrancl_refl tell heard rtranclp.rtrancl_refl ended, of j]
      j told_ids
    by (simp add: before_telling_def tables_def draft_ids_def draft_id_at_def empty_db_def)
  then show ?thesis using j told_ids by simp
qed

end
