(* ===== verification/Spec2Isabelle.thy ===== *)
theory Spec2Isabelle
  imports BoBe_Text Turn_Admission Event_Queue Conversation_Steps Background_Work Run_Registry
    Message_Requests Access_Control Device_Trust Pairing Goal_Documents Reply_Streaming Speech_Text Connections
    Body_Control Body_Interactions Wake_Arbitration Memory_File Command_Safety
    Agent_Callbacks Agent_Host Agent_Processes Result_Delivery
begin

text \<open>
  BoBe is a companion that lives on the owner's machine. Its daemon (Rust, \<open>src/BoBeService\<close>) talks to
  desktop, phone, command line and device clients; a provider's agent answers, works in the background
  and speaks. This development models the daemon. It follows the files of \<open>src/BoBeService/src\<close> (paths
  below are relative to it), each theory stating at its beginning what it leaves out.

  Conventions. A struct is a record, an enum a datatype, a \<open>Result\<close> the sum \<open>app_error + 'a\<close>. The Rust
  \<open>HashMap\<close> is an association list without repeated keys (theory BoBe\_Prelude, \<open>hmap\<close>), an SQLite table the
  list of its rows, a transaction one function that returns the old tables when it fails, and a critical
  section of a mutex one step. Text is a list of Unicode scalar values with its lengths in bytes, as Rust
  counts them (theory BoBe\_Text). Clock readings, fresh identifiers and the outcome of I/O are arguments:
  nothing is assumed about the clock or the order of the steps unless a theorem says so. What the daemon
  calls but does not contain (hashes, the key exchange, JSON, Unicode tables, the file system) is a
  parameter. Machine integers whose wrap-around matters are words; saturating ones are written out.

  Turns and runs. Theory Turn\_Admission (\<open>runtime/turn_admission.rs\<close>) gives out permits, at most one for
  each channel; Run\_Registry (\<open>runtime/run_registry.rs\<close>) knows the runs in progress, their inputs and
  their cancellation. Message\_Requests (\<open>runtime/message_requests.rs\<close>) accepts the owner's messages,
  claims, finishes, cancels and recovers them. Reply\_Streaming (\<open>runtime/response_streamer.rs\<close>) joins the
  agent's stream into one reply, and Provider\_Context (\<open>provider/context.rs\<close>) puts untrusted data into a
  prompt. Conversations and Conversation\_Steps (\<open>db/conversation_repo.rs\<close>,
  \<open>runtime/conversation_service.rs\<close>) store what was said, and Memory\_File (\<open>provider/memory_file.rs\<close> and its
  callers) what is remembered. Message\_Handling (\<open>runtime/message_handler.rs\<close>) puts a message together from
  them. The theorems: turns exclude each other and are admitted in order; a
  message runs at most once over submissions, cancellations, restarts and retention; a closed
  conversation is frozen until retention (\<open>services/storage_retention.rs\<close>) or the owner's purge deletes it
  whole; a reply is the text its stream stands for; a remembered fact is kept, except that the recent ones
  are bounded, and nothing on the screen can forge one.

  Background work. Durable\_Tables holds the tables, Agent\_Jobs (\<open>db/agent_job_repo.rs\<close>), Owner\_Inputs
  (\<open>db/owner_input_repo.rs\<close>) and Agent\_Schedules (\<open>db/agent_schedule_repo.rs\<close>, \<open>db/goal_review_repo.rs\<close>) their
  transactions. Work\_Laws is the contract they all keep (locale, interpreted on each transaction), and
  Background\_Work the system of all of them in any order. The theorems: accepted once, at most sixteen
  outstanding, a waiting job has an open question, recovery leaves nothing running, the next occurrence
  of a schedule is the next point of its grid. Goal\_Documents (\<open>services/goals/\<close>) reads back every goal it
  accepts.
  Background\_Loop and Result\_Delivery (\<open>runtime/background_work.rs\<close>) are the two loops over these tables:
  at most two tasks, never two on one job, and a result or a question is recorded as told exactly when its turn
  is stored, and as presented exactly when a client's receipt is, although receipts, cancellations and resumptions
  come at any moment between the steps of a delivery.

  Speaking first. Cooldowns (\<open>db/cooldown_repo.rs\<close>), Checkins (\<open>runtime/triggers/checkin_scheduler.rs\<close>),
  Screen\_Captures (\<open>runtime/triggers/capture_trigger.rs\<close>), Goal\_Trigger (\<open>runtime/triggers/goal_trigger.rs\<close>)
  and Proactive\_Turns (\<open>runtime/proactive_generator.rs\<close>) decide when the assistant speaks or works on its own.
  The theorems: it waits for the owner's silence and the whole cooldown, a turn that ends in silence leaves
  nothing behind, a check-in slot is settled once, a goal at rest gets no work.

  The agent. Agent\_Link (\<open>agent/host.rs\<close>) is the JSON-RPC link to the agent's process: requests, their
  authority, replies and the death of the process; Agent\_Callbacks what the agent may do to the tables,
  Agent\_Host the life of the process, Agent\_Processes (\<open>agent/process.rs\<close>) the programs it starts. The
  theorems: a callback acts only under the authority of a live execution, a finished request has none, and
  there is one agent process at a time.

  Who may do what. Access\_Control (\<open>api/scope.rs\<close>, \<open>api/principal.rs\<close>, \<open>api/middleware.rs\<close>),
  Device\_Trust (\<open>db/endpoint_repo.rs\<close>, \<open>db/device_trust_repo.rs\<close>), Pairing (\<open>api/pairing.rs\<close>) and
  Command\_Safety (\<open>mcp/security.rs\<close>, \<open>mcp/config.rs\<close>). Pairing is shown to refine the life of an
  invitation (a small abstract machine); the others are invariants over any sequence of operations.
  Of Command\_Safety only the checks are modelled, not what the system does with a command that passes them: that
  an assignment to a dangerous variable passes among the arguments of \<open>env\<close> is shown.

  Events and bodies. Event\_Queue (\<open>util/sse/event_queue.rs\<close>) numbers and replays events; Connections
  (\<open>util/sse/connection_manager.rs\<close>, \<open>body_requests.rs\<close>) asks a connected body and waits for its answer.
  Voice\_Leases, Playback and Update\_Offers (\<open>body/gateway.rs\<close>) are the voice of one body at a time, its
  frames and credit, and its firmware; Body\_Protocol (\<open>body/protocol.rs\<close>, \<open>body/capabilities.rs\<close>) the bytes
  and the checks of a hello; Body\_Interactions (\<open>body/interactions.rs\<close>) text, buttons and sensors;
  Body\_Control (\<open>body/handlers.rs\<close>, \<open>body/gateway.rs\<close>) puts each message of a body together from them; and
  Wake\_Arbitration (\<open>body/wake_arbitrator.rs\<close>) chooses the body that answers. Speech\_Text
  (\<open>voice/text_prep\<close>, \<open>voice/sentence_pipeline.rs\<close>) cuts a reply into sentences to speak. The theorems
  say, among others, that the voice changes hands only after a release and by its deadline, that frames
  are in order and bounded, and that every word is released and only fenced code is hidden.

  Bounds and fuel. No definition uses fuel: loops are structural, or terminate by a measure that is
  proved (the bytes left of a text, the tokens left of a command line). Bounds (queue lengths, retention
  counts, time limits) are the constants of the code under their own names.

  Not modelled. The command line, service management, backups and updates (\<open>ops/\<close>), start-up and
  migrations (\<open>bootstrap/\<close>), finding and signing in the agent (\<open>agent/runtime.rs\<close>, \<open>agent/auth.rs\<close>),
  configuration files (\<open>config/\<close>), most HTTP handlers, the websocket loops of \<open>voice/\<close>, speech engines,
  downloads and the host's key store and files: they are chiefly I/O and wiring. The manifest lists each
  with its reason. The timers of \<open>runtime/session.rs\<close> appear as the steps they cause, in any order. The
  network, the scheduler and the SQLite engine are abstracted as above: statements about liveness say
  that a step is possible or that it ends a wait, not that it is scheduled.
\<close>

end
